(* ===== verification/Prelude.thy ===== *)
theory Prelude
  imports Main "HOL-Library.Word" "HOL-Library.Finite_Map" "HOL-Library.Monad_Syntax"
begin

text \<open>
  Shared vocabulary of the development: machine integers, results, the ordered maps of the
  standard library, and the generic facts the components use.

  \<^item> A Rust \<open>Result<T, WireError>\<close> is a sum: \<open>Inl e\<close> is the error, \<open>Inr x\<close> the value.
  \<^item> A Rust panic (a missing map key, an index out of range, an \<open>unwrap\<close> of nothing)
    and a loop that never ends are \<^term>\<open>None\<close> in the option monad.
  \<^item> A \<open>BTreeMap<K, V>\<close> is a finite map \<^typ>\<open>('k, 'v) fmap\<close>; its iteration order is
    the ascending order of its keys, \<open>keys m\<close>. A \<open>BTreeSet<K>\<close> is a set.
\<close>

section \<open>Collections of facts\<close>

named_theorems codec_simps \<open>rewrite rules that run encoders and decoders\<close>
named_theorems codec_dests \<open>destruction rules for successful encoders and decoders\<close>

section \<open>Machine integers and byte strings\<close>

type_synonym byte = "8 word"
type_synonym u16 = "16 word"
type_synonym u32 = "32 word"
type_synonym u64 = "64 word"
type_synonym hash = "256 word"

section \<open>Results\<close>

type_synonym wire_error = string
type_synonym 'a result = "wire_error + 'a"

text \<open>The \<open>?\<close> operator: stop at the first error.\<close>

definition rbind :: "'e + 'a \<Rightarrow> ('a \<Rightarrow> 'e + 'b) \<Rightarrow> 'e + 'b" where
  "rbind m f = (case m of Inl e \<Rightarrow> Inl e | Inr x \<Rightarrow> f x)"

lemma rbind_simps [simp]:
  "rbind (Inl e) f = Inl e"
  "rbind (Inr x) f = f x"
  by (simp_all add: rbind_def)

lemma rbind_eq_Inr: "rbind m f = Inr y \<longleftrightarrow> (\<exists>x. m = Inr x \<and> f x = Inr y)"
  by (cases m) auto

lemma rbind_eq_Inl: "rbind m f = Inl e \<longleftrightarrow> m = Inl e \<or> (\<exists>x. m = Inr x \<and> f x = Inl e)"
  by (cases m) auto

text \<open>A check that returns early: \<open>if cond { return Err(e) }\<close>.\<close>

definition guard :: "bool \<Rightarrow> 'e \<Rightarrow> 'e + 'a \<Rightarrow> 'e + 'a" where
  "guard bad e rest = (if bad then Inl e else rest)"

lemma guard_simps [simp]:
  "guard True e m = Inl e"
  "guard False e m = m"
  by (simp_all add: guard_def)

lemma guard_eq_Inr: "guard b e m = Inr y \<longleftrightarrow> \<not> b \<and> m = Inr y"
  by (simp add: guard_def)

section \<open>Ordered maps\<close>

definition keys :: "('k::linorder, 'v) fmap \<Rightarrow> 'k list" where
  "keys m = sorted_list_of_fset (fmdom m)"

definition has :: "('k, 'v) fmap \<Rightarrow> 'k \<Rightarrow> bool" where
  "has m k \<longleftrightarrow> fmlookup m k \<noteq> None"

lemma set_keys [simp]: "set (keys m) = fmdom' m"
  by (simp add: keys_def fmdom'_alt_def)

lemma distinct_keys [simp]: "distinct (keys m)"
  by (simp add: keys_def sorted_list_of_fset.rep_eq)

lemma sorted_keys [simp]: "sorted (keys m)"
  by (simp add: keys_def sorted_list_of_fset.rep_eq)

lemma has_iff: "has m k \<longleftrightarrow> k \<in> fmdom' m"
  by (simp add: has_def fmlookup_dom'_iff)

lemma has_fmupd [simp]: "has (fmupd k v m) k' \<longleftrightarrow> k' = k \<or> has m k'"
  by (simp add: has_def)

lemma has_fmempty [simp]: "\<not> has fmempty k"
  by (simp add: has_def)

lemma in_domE: "k \<in> fmdom' m \<Longrightarrow> (\<And>v. fmlookup m k = Some v \<Longrightarrow> P) \<Longrightarrow> P"
  by (auto simp: fmlookup_dom'_iff)

lemma hasE: "has m k \<Longrightarrow> (\<And>v. fmlookup m k = Some v \<Longrightarrow> P) \<Longrightarrow> P"
  by (auto simp: has_def)

end
