(* ===== verification/Bytes.thy ===== *)
theory Bytes
  imports Prelude
begin

text \<open>
  The byte-level primitives of the standard library that the encoders use:
  \<open>to_be_bytes\<close>/\<open>from_be_bytes\<close> on unsigned integers of any width, the bytes of a
  \<open>String\<close> and the UTF-8 check of \<open>String::from_utf8\<close>.
\<close>

section \<open>Big-endian digits of a natural number\<close>

definition be_nat :: "byte list \<Rightarrow> nat" where
  "be_nat bs = foldl (\<lambda>a b. a * 256 + unat b) 0 bs"

fun be_list :: "nat \<Rightarrow> nat \<Rightarrow> byte list" where
  "be_list 0 x = []"
| "be_list (Suc n) x = word_of_nat (x div 256 ^ n mod 256) # be_list n x"

lemma length_be_list [simp]: "length (be_list n x) = n"
  by (induction n) auto

lemma unat_byte_less [simp]: "unat (b :: byte) < 256"
  using unsigned_less [of b] by simp

lemma foldl_be: "foldl (\<lambda>a b. a * 256 + unat (b :: byte)) z bs = z * 256 ^ length bs + be_nat bs"
proof (induction bs arbitrary: z)
  case (Cons b bs)
  have "be_nat (b # bs) = unat b * 256 ^ length bs + be_nat bs"
    using Cons.IH [of "unat b"] by (simp add: be_nat_def)
  with Cons.IH [of "z * 256 + unat b"] show ?case
    by (simp add: algebra_simps)
qed (simp add: be_nat_def)

lemma be_nat_Nil [simp]: "be_nat [] = 0"
  by (simp add: be_nat_def)

lemma be_nat_Cons [simp]: "be_nat (b # bs) = unat b * 256 ^ length bs + be_nat bs"
  using foldl_be [of "unat b" bs] by (simp add: be_nat_def)

lemma be_nat_append: "be_nat (xs @ ys) = be_nat xs * 256 ^ length ys + be_nat ys"
  by (induction xs) (auto simp: algebra_simps power_add)

lemma be_nat_less: "be_nat bs < 256 ^ length bs"
proof (induction bs)
  case (Cons b bs)
  have "unat b \<le> 255" using unat_byte_less [of b] by linarith
  then have "unat b * 256 ^ length bs \<le> 255 * 256 ^ length bs"
    by (rule mult_right_mono) simp
  with Cons show ?case unfolding be_nat_Cons list.size add_0_right power_Suc add_Suc_right by linarith
qed simp

lemma unat_digit [simp]: "unat (word_of_nat (x mod 256) :: byte) = x mod 256"
  by (simp add: unat_of_nat)

lemma be_nat_be_list: "be_nat (be_list n x) = x mod 256 ^ n"
proof (induction n)
  case (Suc n)
  have "x mod 256 ^ Suc n = 256 ^ n * (x div 256 ^ n mod 256) + x mod 256 ^ n"
    by (metis mod_mult2_eq power_Suc2)
  with Suc show ?case by simp
qed simp

lemma be_list_add_mult: "be_list n (c * 256 ^ n + x) = be_list n x"
proof -
  have "be_list m (c * 256 ^ n + x) = be_list m x" if "m \<le> n" for m
    using that
  proof (induction m)
    case (Suc m)
    then obtain k where n: "n = m + Suc k"
      by (metis add_Suc_right le_Suc_ex add.commute)
    have "c * 256 ^ n + x = (c * 256 ^ k * 256) * 256 ^ m + x"
      by (simp add: n power_add)
    then have "(c * 256 ^ n + x) div 256 ^ m = c * 256 ^ k * 256 + x div 256 ^ m"
      by (simp only: div_mult_self3) simp
    then have "(c * 256 ^ n + x) div 256 ^ m mod 256 = x div 256 ^ m mod 256"
      by simp
    with Suc show ?case by simp
  qed simp
  then show ?thesis by simp
qed

lemma be_list_be_nat: "be_list (length bs) (be_nat bs) = bs"
proof (induction bs)
  case (Cons b bs)
  have "(unat b * 256 ^ length bs + be_nat bs) div 256 ^ length bs = unat b"
    using be_nat_less [of bs] by simp
  with Cons show ?case by (simp add: be_list_add_mult unat_word_ariths)
qed simp

text \<open>Comparing equally long digit lists byte by byte is comparing the numbers.\<close>

lemma be_nat_lex:
  "length xs = length ys \<Longrightarrow> be_nat xs < be_nat ys \<longleftrightarrow> (xs, ys) \<in> lexord {(a, b). a < b}"
proof (induction xs ys rule: list_induct2)
  case (Cons x xs y ys)
  let ?p = "256 ^ length ys :: nat"
  have xs: "be_nat xs < ?p" and ys: "be_nat ys < ?p"
    using be_nat_less [of xs] be_nat_less [of ys] Cons.hyps by simp_all
  consider "x = y" | "unat x < unat y" | "unat y < unat x"
    by (metis linorder_neqE_nat unsigned_word_eqI)
  then show ?case
  proof cases
    case 1
    with Cons show ?thesis by simp
  next
    case 2
    then have "Suc (unat x) * ?p \<le> unat y * ?p" by (intro mult_right_mono) auto
    with xs 2 Cons.hyps show ?thesis by (simp add: word_less_nat_alt)
  next
    case 3
    then have "Suc (unat y) * ?p \<le> unat x * ?p" by (intro mult_right_mono) auto
    with ys 3 Cons.hyps show ?thesis by (auto simp: word_less_nat_alt)
  qed
qed simp

section \<open>Big-endian bytes of a machine integer\<close>

definition to_be_bytes :: "nat \<Rightarrow> 'a::len word \<Rightarrow> byte list" where
  "to_be_bytes n w = be_list n (unat w)"

definition from_be_bytes :: "byte list \<Rightarrow> 'a::len word" where
  "from_be_bytes bs = word_of_nat (be_nat bs)"

lemma length_to_be_bytes [simp]: "length (to_be_bytes n w) = n"
  by (simp add: to_be_bytes_def)

lemma from_to_be_bytes:
  fixes w :: "'a::len word"
  assumes "LENGTH('a) = 8 * n"
  shows "from_be_bytes (to_be_bytes n w) = w"
proof -
  have "(256 :: nat) ^ n = 2 ^ LENGTH('a)" by (simp add: assms power_mult)
  then have "unat w mod 256 ^ n = unat w" using unsigned_less [of w] by simp
  then show ?thesis by (simp add: from_be_bytes_def to_be_bytes_def be_nat_be_list)
qed

lemma unat_from_be_bytes:
  assumes "LENGTH('a::len) = 8 * length bs"
  shows "unat (from_be_bytes bs :: 'a word) = be_nat bs"
proof -
  have "be_nat bs < 2 ^ LENGTH('a)"
    using be_nat_less [of bs] by (simp add: assms power_mult)
  then show ?thesis by (simp add: from_be_bytes_def unsigned_of_nat take_bit_nat_eq_self)
qed

lemma to_from_be_bytes:
  assumes "LENGTH('a::len) = 8 * length bs"
  shows "to_be_bytes (length bs) (from_be_bytes bs :: 'a word) = bs"
  using unat_from_be_bytes [OF assms] by (simp add: to_be_bytes_def be_list_be_nat)

lemma to_from_be_bytes_n:
  "LENGTH('a::len) = 8 * n \<Longrightarrow> length bs = n \<Longrightarrow> to_be_bytes n (from_be_bytes bs :: 'a word) = bs"
  using to_from_be_bytes [where 'a = 'a, of bs] by simp

lemma to_be_bytes_inject:
  fixes v w :: "'a::len word"
  assumes "LENGTH('a) = 8 * n"
  shows "to_be_bytes n v = to_be_bytes n w \<longleftrightarrow> v = w"
  by (metis assms from_to_be_bytes)

lemma to_be_bytes_less:
  fixes v w :: "'a::len word"
  assumes "LENGTH('a) = 8 * n"
  shows "v < w \<longleftrightarrow> (to_be_bytes n v, to_be_bytes n w) \<in> lexord {(a, b). a < b}"
proof -
  have "unat x = be_nat (to_be_bytes n x)" for x :: "'a word"
    using unat_from_be_bytes [where 'a = 'a, of "to_be_bytes n x"] from_to_be_bytes [OF assms, of x] assms
    by simp
  then have "v < w \<longleftrightarrow> be_nat (to_be_bytes n v) < be_nat (to_be_bytes n w)"
    by (simp add: word_less_nat_alt)
  also have "\<dots> \<longleftrightarrow> (to_be_bytes n v, to_be_bytes n w) \<in> lexord {(a, b). a < b}"
    by (rule be_nat_lex) simp
  finally show ?thesis .
qed

section \<open>Strings\<close>

text \<open>
  A \<open>String\<close> is its UTF-8 bytes, one HOL character per byte, so \<open>len\<close> is \<^term>\<open>length\<close>.
  \<open>utf8_ok\<close> is the check of \<open>String::from_utf8\<close> (Unicode Table 3-7: well-formed byte
  sequences); it holds of every Rust string.
\<close>

definition byte_of :: "char \<Rightarrow> byte" where
  "byte_of c = word_of_nat (of_char c)"

definition char_from :: "byte \<Rightarrow> char" where
  "char_from b = char_of (unat b)"

lemma char_from_byte_of [simp]: "char_from (byte_of c) = c"
proof -
  have "unat (word_of_nat (of_char c) :: byte) = of_char c"
    using nat_of_char_less_256 [of c] by (simp add: unsigned_of_nat take_bit_nat_eq_self)
  then show ?thesis by (simp add: char_from_def byte_of_def)
qed

lemma byte_of_char_from [simp]: "byte_of (char_from b) = b"
  by (simp add: char_from_def byte_of_def of_char_of)

definition as_bytes :: "string \<Rightarrow> byte list" where
  "as_bytes s = map byte_of s"

lemma length_as_bytes [simp]: "length (as_bytes s) = length s"
  by (simp add: as_bytes_def)

lemma as_bytes_inject [simp]: "as_bytes s = as_bytes t \<longleftrightarrow> s = t"
  unfolding as_bytes_def by (metis char_from_byte_of injI inj_map_eq_map)

definition cont :: "byte \<Rightarrow> bool" where
  "cont b \<longleftrightarrow> 0x80 \<le> b \<and> b \<le> 0xBF"

fun utf8_ok :: "byte list \<Rightarrow> bool" where
  "utf8_ok [] = True"
| "utf8_ok (b # bs) =
    (if b < 0x80 then utf8_ok bs
     else if 0xC2 \<le> b \<and> b \<le> 0xDF then
       (case bs of c # r \<Rightarrow> cont c \<and> utf8_ok r | _ \<Rightarrow> False)
     else if 0xE0 \<le> b \<and> b \<le> 0xEF then
       (case bs of c # d # r \<Rightarrow>
          (if b = 0xE0 then 0xA0 \<le> c \<and> c \<le> 0xBF
           else if b = 0xED then 0x80 \<le> c \<and> c \<le> 0x9F else cont c) \<and> cont d \<and> utf8_ok r
        | _ \<Rightarrow> False)
     else if 0xF0 \<le> b \<and> b \<le> 0xF4 then
       (case bs of c # d # e # r \<Rightarrow>
          (if b = 0xF0 then 0x90 \<le> c \<and> c \<le> 0xBF
           else if b = 0xF4 then 0x80 \<le> c \<and> c \<le> 0x8F else cont c)
          \<and> cont d \<and> cont e \<and> utf8_ok r
        | _ \<Rightarrow> False)
     else False)"

definition str_ok :: "string \<Rightarrow> bool" where
  "str_ok s \<longleftrightarrow> utf8_ok (as_bytes s)"

definition from_utf8 :: "byte list \<Rightarrow> string option" where
  "from_utf8 bs = (if utf8_ok bs then Some (map char_from bs) else None)"

lemma from_utf8_as_bytes: "str_ok s \<Longrightarrow> from_utf8 (as_bytes s) = Some s"
  by (simp add: from_utf8_def str_ok_def as_bytes_def comp_def)

lemma from_utf8_Some: "from_utf8 bs = Some s \<longleftrightarrow> bs = as_bytes s \<and> str_ok s"
  by (auto simp: from_utf8_def str_ok_def as_bytes_def comp_def split: if_splits)

lemma ascii_str_ok: "(\<And>c. c \<in> set s \<Longrightarrow> byte_of c < 0x80) \<Longrightarrow> str_ok s"
  by (induction s) (auto simp: str_ok_def as_bytes_def)

end
