(* ===== verification/Tick.thy ===== *)
theory Tick
  imports Bytes
begin

text \<open>
  The coordinate type \<open>Tick\<close> and the three-state existence windows of
  \<^verbatim>\<open>crates/cc-core/src/lib.rs\<close>. A tick is one signed 256-bit integer (the \<open>I256\<close> of the
  bnum crate, two's complement); its only serialized form is offset-binary big-endian.
  The theory shows that the serialized order is the numeric order, that the serialization is a
  bijection, that whole-tick coordinates survive the governed split, and that a window is
  recovered from its stored parts.
\<close>

unbundle bit_operations_syntax

section \<open>Coordinates\<close>

datatype tick = Tick (i256: "256 word")

definition SENTINEL :: tick where
  "SENTINEL = Tick (2 ^ 255 - 1)"

definition ORIGIN :: tick where
  "ORIGIN = Tick 0"

text \<open>The derived order of the newtype is the order of the signed integer.\<close>

definition tick_le :: "tick \<Rightarrow> tick \<Rightarrow> bool" where
  "tick_le a b \<longleftrightarrow> sint (i256 a) \<le> sint (i256 b)"

instantiation tick :: linorder
begin
definition less_eq_tick_eq: "a \<le> b \<longleftrightarrow> tick_le a b"
definition less_tick :: "tick \<Rightarrow> tick \<Rightarrow> bool" where
  "less_tick a b \<longleftrightarrow> sint (i256 a) < sint (i256 b)"
lemmas less_eq_tick_def = less_eq_tick_eq [unfolded tick_le_def]
instance
  proof
  fix x y :: tick
  show "x \<le> y \<Longrightarrow> y \<le> x \<Longrightarrow> x = y"
    by (metis antisym less_eq_tick_def signed_word_eqI tick.expand)
qed (auto simp: less_eq_tick_def less_tick_def)
end

definition from_i64 :: "64 word \<Rightarrow> tick" where
  "from_i64 v = Tick (scast v)"

text \<open>
  The governed split \<open>FractionalBits\<close> is a bit count. A shift by 256 or more overflows and
  panics, so both shifts are partial.
\<close>

type_synonym fractional_bits = u32

definition from_whole_ticks :: "64 word \<Rightarrow> fractional_bits \<Rightarrow> tick option" where
  "from_whole_ticks whole split =
    (if unat split < 256 then Some (Tick (push_bit (unat split) (scast whole))) else None)"

definition whole_ticks :: "tick \<Rightarrow> fractional_bits \<Rightarrow> 256 word option" where
  "whole_ticks t split =
    (if unat split < 256 then Some (signed_drop_bit (unat split) (i256 t)) else None)"

text \<open>The little-endian 64-bit limbs of the value, and back.\<close>

definition digits :: "256 word \<Rightarrow> u64 list" where
  "digits w = map (\<lambda>i. ucast (drop_bit (64 * i) w)) [0..<4]"

definition from_digits :: "u64 list \<Rightarrow> 256 word" where
  "from_digits ds = (\<Sum>i<4. push_bit (64 * i) (ucast (ds ! i)))"

text \<open>Flip the sign bit of the leading byte (\<open>b[0] ^= 0x80\<close>).\<close>

fun flip_sign :: "byte list \<Rightarrow> byte list" where
  "flip_sign [] = []"
| "flip_sign (b # bs) = (b XOR 0x80) # bs"

definition to_canon_bytes :: "tick \<Rightarrow> byte list" where
  "to_canon_bytes t = flip_sign (concat (map (to_be_bytes 8) (rev (digits (i256 t)))))"

definition from_canon_bytes :: "byte list \<Rightarrow> tick" where
  "from_canon_bytes b0 =
    (let b = flip_sign b0
     in Tick (from_digits (map (\<lambda>i. from_be_bytes (take 8 (drop ((3 - i) * 8) b))) [0..<4])))"

definition posture :: "tick \<Rightarrow> tick \<Rightarrow> int" where
  "posture t record_time =
    (if t < record_time then -1 else if t = record_time then 0 else 1)"

section \<open>The serialized form\<close>

lemma be_list_split: "be_list (m + n) x = be_list m (x div 256 ^ n) @ be_list n x"
  by (induction m) (auto simp: div_mult2_eq [symmetric] power_add mult.commute)

lemma be_list_mod: "be_list n (x mod 256 ^ n) = be_list n x"
  by (metis be_list_be_nat be_nat_be_list length_be_list)

lemma unat_limb:
  fixes w :: "256 word"
  shows "unat (ucast (drop_bit (64 * i) w) :: u64) = unat w div 256 ^ (8 * i) mod 256 ^ 8"
proof -
  have "(256 :: nat) ^ (8 * i) = 2 ^ (64 * i)" by (simp add: power_mult)
  moreover have "unat w mod 2 ^ LENGTH(256) = unat w"
    using unsigned_less [of w] by (intro mod_less) simp
  ultimately show ?thesis
    by (simp only: unsigned_ucast_eq unsigned_drop_bit_eq) (simp add: take_bit_eq_mod drop_bit_eq_div)
qed

lemma concat_limbs:
  fixes w :: "256 word"
  shows "concat (map (to_be_bytes 8) (rev (digits w))) = to_be_bytes 32 w"
proof -
  have limb: "to_be_bytes 8 (ucast (drop_bit (64 * i) w) :: u64) = be_list 8 (unat w div 256 ^ (8 * i))" for i
    by (simp only: to_be_bytes_def unat_limb be_list_mod)
  have "rev (digits w) = map (\<lambda>i. ucast (drop_bit (64 * i) w)) [3, 2, 1, 0]"
    by (simp add: digits_def upt_rec)
  moreover have "be_list 32 (unat w) = be_list 8 (unat w div 256 ^ 24) @ be_list 8 (unat w div 256 ^ 16)
      @ be_list 8 (unat w div 256 ^ 8) @ be_list 8 (unat w)"
    using be_list_split [of 8 24 "unat w"] be_list_split [of 8 16 "unat w"] be_list_split [of 8 8 "unat w"]
    by simp
  ultimately show ?thesis
    using limb [of 0] limb [of 1] limb [of 2] limb [of 3] by (simp add: to_be_bytes_def [of 32])
qed

lemma xor_0x80: "(b :: byte) XOR 0x80 = b + 0x80"
proof -
  have "list_all (\<lambda>n. (word_of_nat n :: byte) XOR 0x80 = word_of_nat n + 0x80) [0..<256]"
    by code_simp
  moreover have "unat b \<in> set [0..<256]" by simp
  ultimately have "(word_of_nat (unat b) :: byte) XOR 0x80 = word_of_nat (unat b) + 0x80"
    unfolding list_all_iff by blast
  then show ?thesis by simp
qed

lemma flip_sign_flip_sign [simp]: "flip_sign (flip_sign bs) = bs"
  by (cases bs) (simp_all add: xor.assoc)

lemma length_flip_sign [simp]: "length (flip_sign bs) = length bs"
  by (cases bs) simp_all

text \<open>Flipping the sign bit adds the bias \<open>2^255\<close>.\<close>

lemma flip_sign_to_be_bytes:
  fixes w :: "256 word"
  shows "flip_sign (to_be_bytes 32 w) = to_be_bytes 32 (w + 2 ^ 255)"
proof -
  define x where "x = unat w"
  have split: "be_list 32 z = word_of_nat (z div 256 ^ 31 mod 256) # be_list 31 z" for z
    using be_list.simps(2) [of 31 z] by (simp del: be_list.simps)
  have "unat (w + 2 ^ 255) = (x + 128 * 256 ^ 31) mod 256 ^ 32"
    by (simp add: x_def unat_word_ariths)
  then have "to_be_bytes 32 (w + 2 ^ 255) = be_list 32 (128 * 256 ^ 31 + x)"
    unfolding to_be_bytes_def by (metis be_list_mod add.commute)
  also have "\<dots> = word_of_nat ((128 + x div 256 ^ 31) mod 256) # be_list 31 x"
    unfolding split be_list_add_mult by (subst div_mult_self3) auto
  also have "\<dots> = flip_sign (be_list 32 x)"
  proof -
    have "(word_of_nat ((128 + a) mod 256) :: byte) = word_of_nat (a mod 256) + 0x80" for a
    proof (rule word_unat_eq_iff [THEN iffD2])
      have "unat (0x80 :: byte) = 128" by simp
      then show "unat (word_of_nat ((128 + a) mod 256) :: byte) = unat (word_of_nat (a mod 256) + 0x80 :: byte)"
        by (simp only: unat_word_ariths unat_digit) (simp add: mod_simps add.commute)
    qed
    then show ?thesis unfolding split by (simp add: xor_0x80)
  qed
  finally show ?thesis by (simp add: to_be_bytes_def x_def)
qed

lemma to_canon_bytes_eq: "to_canon_bytes t = to_be_bytes 32 (i256 t + 2 ^ 255)"
  by (simp add: to_canon_bytes_def concat_limbs flip_sign_to_be_bytes)

lemma length_to_canon_bytes [simp]: "length (to_canon_bytes t) = 32"
  by (simp add: to_canon_bytes_eq)

lemma unat_biased: "int (unat (w + 2 ^ 255 :: 256 word)) = sint w + 2 ^ 255"
  by (simp add: sint_uint signed_take_bit_eq_take_bit_shift uint_word_ariths take_bit_eq_mod
      flip: uint_nat)

text \<open>Reading the limbs back.\<close>

lemma from_digits_eq:
  "from_digits ds = word_of_nat (\<Sum>i<4. unat (ds ! i) * 256 ^ (8 * i))"
proof -
  have "push_bit (64 * i) (ucast (ds ! i) :: 256 word) = word_of_nat (unat (ds ! i) * 256 ^ (8 * i))" for i
  proof -
    have "(256 :: nat) ^ (8 * i) = 2 ^ (64 * i)" by (simp add: power_mult)
    then show ?thesis by (simp add: push_bit_eq_mult)
  qed
  then show ?thesis by (simp add: from_digits_def)
qed

lemma be_nat_chunks:
  assumes "length b = 32"
  shows "be_nat b = (\<Sum>i<4. be_nat (take 8 (drop ((3 - i) * 8) b)) * 256 ^ (8 * i))"
proof -
  have "b = take 8 b @ take 8 (drop 8 b) @ take 8 (drop 16 b) @ take 8 (drop 24 b)"
    using assms append_take_drop_id [of 8 b] append_take_drop_id [of 8 "drop 8 b"]
      append_take_drop_id [of 8 "drop 16 b"]
    by (simp only: drop_drop) simp
  then have "be_nat b = be_nat (take 8 b @ take 8 (drop 8 b) @ take 8 (drop 16 b) @ take 8 (drop 24 b))"
    by simp
  also have "\<dots> = be_nat (take 8 b) * 256 ^ 24 + be_nat (take 8 (drop 8 b)) * 256 ^ 16
      + be_nat (take 8 (drop 16 b)) * 256 ^ 8 + be_nat (take 8 (drop 24 b))"
    using assms by (simp add: be_nat_append)
  also have "\<dots> = (\<Sum>i<4. be_nat (take 8 (drop ((3 - i) * 8) b)) * 256 ^ (8 * i))"
  proof -
    have "{..<4} = {0, 1, 2, 3 :: nat}" by auto
    then show ?thesis by simp
  qed
  finally show ?thesis .
qed

lemma from_canon_bytes_eq:
  assumes "length b = 32"
  shows "from_canon_bytes b = Tick (from_be_bytes (flip_sign b))"
proof -
  let ?c = "\<lambda>i. take 8 (drop ((3 - i) * 8) (flip_sign b))"
  have "unat (from_be_bytes (?c i) :: u64) = be_nat (?c i)" if "i < 4" for i
    using assms that by (intro unat_from_be_bytes) auto
  then have "(\<Sum>i<4. unat (map (\<lambda>i. from_be_bytes (?c i) :: u64) [0..<4] ! i) * 256 ^ (8 * i))
      = (\<Sum>i<4. be_nat (?c i) * 256 ^ (8 * i))"
    by (intro sum.cong) auto
  then have "from_digits (map (\<lambda>i. from_be_bytes (?c i)) [0..<4]) = word_of_nat (be_nat (flip_sign b))"
    using assms be_nat_chunks [of "flip_sign b"] by (simp only: from_digits_eq length_flip_sign)
  then show ?thesis by (simp only: from_canon_bytes_def Let_def from_be_bytes_def [of "flip_sign b"])
qed

lemma tick_bytes_inverse: "from_canon_bytes (to_canon_bytes t) = t"
  by (cases t) (simp add: from_canon_bytes_eq to_canon_bytes_eq flip_sign_to_be_bytes from_to_be_bytes)

lemma tick_bytes_surj:
  assumes "length b = 32"
  shows "to_canon_bytes (from_canon_bytes b) = b"
proof -
  have "to_canon_bytes (from_canon_bytes b) = flip_sign (to_be_bytes 32 (from_be_bytes (flip_sign b) :: 256 word))"
    using assms by (simp add: from_canon_bytes_eq to_canon_bytes_eq flip_sign_to_be_bytes)
  also have "to_be_bytes 32 (from_be_bytes (flip_sign b) :: 256 word) = flip_sign b"
    using assms to_from_be_bytes [of "flip_sign b", where 'a = 256] by simp
  finally show ?thesis by simp
qed

lemma tick_bytes_inject: "to_canon_bytes s = to_canon_bytes t \<longleftrightarrow> s = t"
  by (metis tick_bytes_inverse)

lemma tick_bytes_lex: "s < t \<longleftrightarrow> (to_canon_bytes s, to_canon_bytes t) \<in> lexord {(a, b). a < b}"
proof -
  have "s < t \<longleftrightarrow> int (unat (i256 s + 2 ^ 255)) < int (unat (i256 t + 2 ^ 255))"
    unfolding unat_biased less_tick_def by simp
  also have "\<dots> \<longleftrightarrow> i256 s + 2 ^ 255 < i256 t + 2 ^ 255"
    by (simp only: of_nat_less_iff word_less_nat_alt)
  finally show ?thesis by (simp add: to_canon_bytes_eq to_be_bytes_less [of 32])
qed

section \<open>The governed split\<close>

lemma shift_inverse:
  fixes w :: "64 word"
  assumes "n \<le> 192"
  shows "signed_drop_bit n (push_bit n (scast w) :: 256 word) = scast w"
proof (rule bit_word_eqI)
  fix m assume "m < LENGTH(256)"
  then show "bit (signed_drop_bit n (push_bit n (scast w)) :: 256 word) m \<longleftrightarrow> bit (scast w :: 256 word) m"
    using assms by (cases "n = 192")
      (auto simp: bit_signed_drop_bit_iff bit_word_scast_iff bit_push_bit_iff dest: bit_imp_le_length)
qed

lemma tick_sentinel_max: "t \<le> SENTINEL"
proof -
  have "sint (2 ^ 255 - 1 :: 256 word) = 2 ^ 255 - 1" by simp
  moreover have "sint (i256 t) < 2 ^ 255"
    using sint_lt [of "i256 t"] by simp
  ultimately show ?thesis by (simp add: less_eq_tick_def SENTINEL_def)
qed

section \<open>Existence windows\<close>

datatype closure_state = CS_KnownOpen | CS_KnownClosed | CS_UnknownClosure
datatype start_state = SS_Known | SS_Unknown
datatype window_start = WS_Known tick | WS_Unknown
datatype window_end = WE_KnownOpen | WE_KnownClosed tick | WE_UnknownClosure

record existence_window =
  w_start :: window_start
  w_end :: window_end

definition stored_end :: "existence_window \<Rightarrow> tick" where
  "stored_end w = (case w_end w of
     WE_KnownClosed t \<Rightarrow> t | WE_KnownOpen \<Rightarrow> SENTINEL | WE_UnknownClosure \<Rightarrow> SENTINEL)"

definition stored_start :: "existence_window \<Rightarrow> tick" where
  "stored_start w = (case w_start w of WS_Known t \<Rightarrow> t | WS_Unknown \<Rightarrow> SENTINEL)"

definition closure_state_of :: "existence_window \<Rightarrow> closure_state" where
  "closure_state_of w = (case w_end w of
     WE_KnownOpen \<Rightarrow> CS_KnownOpen | WE_KnownClosed _ \<Rightarrow> CS_KnownClosed
   | WE_UnknownClosure \<Rightarrow> CS_UnknownClosure)"

definition start_state_of :: "existence_window \<Rightarrow> start_state" where
  "start_state_of w = (case w_start w of WS_Known _ \<Rightarrow> SS_Known | WS_Unknown \<Rightarrow> SS_Unknown)"

definition from_stored :: "start_state \<Rightarrow> tick \<Rightarrow> closure_state \<Rightarrow> tick \<Rightarrow> existence_window" where
  "from_stored ss s cs e =
    \<lparr>w_start = (case ss of SS_Known \<Rightarrow> WS_Known s | SS_Unknown \<Rightarrow> WS_Unknown),
     w_end = (case cs of CS_KnownOpen \<Rightarrow> WE_KnownOpen | CS_KnownClosed \<Rightarrow> WE_KnownClosed e
       | CS_UnknownClosure \<Rightarrow> WE_UnknownClosure)\<rparr>"

lemma from_stored_inverse:
  "from_stored (start_state_of w) (stored_start w) (closure_state_of w) (stored_end w) = w"
  by (cases w) (auto simp: from_stored_def start_state_of_def stored_start_def closure_state_of_def
      stored_end_def split: window_start.splits window_end.splits)

section \<open>Properties\<close>

text \<open>
  C40: the 32 canonical bytes of a coordinate compare bytewise (\<open>memcmp\<close>) exactly as the
  coordinates compare numerically, across the sign boundary; the byte order is the order of the
  database key.
\<close>

theorem tick_memcmp_order:
  "s < t \<longleftrightarrow> (to_canon_bytes s, to_canon_bytes t) \<in> lexord {(a, b). a < b}"
  by (rule tick_bytes_lex)

text \<open>
  \<open>from_canon_bytes\<close> and \<open>to_canon_bytes\<close> are inverse bijections between the
  coordinates and the 32-byte strings, so no two coordinates share a serialized form and no
  32-byte string is rejected.
\<close>

theorem tick_canon_bijection:
  assumes "length b = 32"
  shows "to_canon_bytes (from_canon_bytes b) = b \<and> from_canon_bytes (to_canon_bytes t) = t
    \<and> length (to_canon_bytes t) = 32"
  using assms by (simp add: tick_bytes_inverse tick_bytes_surj)

theorem tick_canon_bijection_witness:
  "to_canon_bytes (from_canon_bytes (replicate 32 7)) = replicate 32 7
    \<and> from_canon_bytes (to_canon_bytes SENTINEL) = SENTINEL \<and> length (to_canon_bytes SENTINEL) = 32"
  by (rule tick_canon_bijection) simp

text \<open>
  For every split up to 192 bits (the pinned split is 64) a count of whole ticks becomes a
  coordinate without panic and without loss: taking the whole ticks of the coordinate returns the
  count, sign included.
\<close>

theorem whole_ticks_from_whole_ticks:
  assumes "unat split \<le> 192"
  shows "\<exists>t. from_whole_ticks whole split = Some t \<and> whole_ticks t split = Some (scast whole)"
  using assms by (simp add: from_whole_ticks_def whole_ticks_def shift_inverse)

theorem whole_ticks_from_whole_ticks_witness:
  "\<exists>t. from_whole_ticks (-5) 64 = Some t \<and> whole_ticks t 64 = Some (scast (-5 :: 64 word))"
  by (rule whole_ticks_from_whole_ticks) simp

end
