(* ===== verification/Codec.thy ===== *)
theory Codec
  imports Bytes
begin

text \<open>
  Decoders that consume a prefix of the input and return the rest, and the interface every
  \<open>Wire\<close> implementation of \<^verbatim>\<open>crates/cc-core/src/v1.rs\<close> satisfies: what is written can be
  read back with any bytes after it, and whatever is read was written by exactly the bytes
  consumed. The interface is the locale \<open>wire\<close>; its clients get unique decodability, and
  \<open>option\<close>, pair and record codecs inherit it from their parts.
\<close>

section \<open>Decoders\<close>

type_synonym ('e, 'a) decoder = "byte list \<Rightarrow> 'e + 'a \<times> byte list"

definition pret :: "'a \<Rightarrow> ('e, 'a) decoder" where
  "pret x = (\<lambda>r. Inr (x, r))"

definition pfail :: "'e \<Rightarrow> ('e, 'a) decoder" where
  "pfail e = (\<lambda>r. Inl e)"

definition pbind :: "('e, 'a) decoder \<Rightarrow> ('a \<Rightarrow> ('e, 'b) decoder) \<Rightarrow> ('e, 'b) decoder" where
  "pbind p f = (\<lambda>r. case p r of Inl e \<Rightarrow> Inl e | Inr (x, r') \<Rightarrow> f x r')"

definition ptake :: "'e \<Rightarrow> nat \<Rightarrow> ('e, byte list) decoder" where
  "ptake e n = (\<lambda>r. if n > length r then Inl e else Inr (take n r, drop n r))"

lemma pret_apply [simp]: "pret x r = Inr (x, r)"
  by (simp add: pret_def)

lemma pfail_apply [simp]: "pfail e r = Inl e"
  by (simp add: pfail_def)

lemma pbind_Inr [simp]: "p r = Inr (x, r') \<Longrightarrow> pbind p f r = f x r'"
  by (simp add: pbind_def)

lemma pbind_Inl [simp]: "p r = Inl e \<Longrightarrow> pbind p f r = Inl e"
  by (simp add: pbind_def)

lemma pbind_eq_Inr:
  "pbind p f r = Inr y \<longleftrightarrow> (\<exists>x r'. p r = Inr (x, r') \<and> f x r' = Inr y)"
  by (cases "p r") (auto simp: pbind_def)

lemma ptake_append [simp]: "length x = n \<Longrightarrow> ptake e n (x @ r) = Inr (x, r)"
  by (auto simp: ptake_def)

lemma ptake_eq_Inr: "ptake e n r = Inr (x, r') \<longleftrightarrow> length x = n \<and> r = x @ r'"
  by (auto simp: ptake_def)

section \<open>Encoders in sequence\<close>

text \<open>
  \<open>a.put(w)?; b.put(w)?; Ok(())\<close>: the bytes of \<open>a\<close> and then those of \<open>b\<close>, or the first
  error.
\<close>

definition cat2 :: "'e + byte list \<Rightarrow> 'e + byte list \<Rightarrow> 'e + byte list" where
  "cat2 a b = rbind a (\<lambda>x. rbind b (\<lambda>y. Inr (x @ y)))"

fun puts :: "('e + byte list) list \<Rightarrow> 'e + byte list" where
  "puts [] = Inr []"
| "puts (a # as) = cat2 a (puts as)"

lemma cat2_simps [simp]:
  "cat2 (Inr x) (Inr y) = Inr (x @ y)"
  "cat2 (Inl e) b = Inl e"
  "cat2 (Inr x) (Inl e) = Inl e"
  by (simp_all add: cat2_def)

lemma cat2_eq_Inr: "cat2 a b = Inr z \<longleftrightarrow> (\<exists>x y. a = Inr x \<and> b = Inr y \<and> z = x @ y)"
  by (auto simp: cat2_def rbind_eq_Inr)

lemma cat2_Nil [simp]: "cat2 a (Inr []) = a"
  by (cases a) auto

lemma puts_append: "puts (as @ bs) = cat2 (puts as) (puts bs)"
proof (induction as)
  case (Cons a as)
  then show ?case
    by (cases a; cases "puts as"; cases "puts bs") simp_all
qed (cases "puts bs", simp_all)

section \<open>The interface of a wire type\<close>

definition MAX_ENVELOPE :: nat where
  "MAX_ENVELOPE = 1024 * 1024"

text \<open>
  \<open>ok\<close> is the type's own invariant (valid UTF-8 for strings, nothing for integers). A
  decoder is exact on inputs no longer than the largest envelope, which every caller checks
  before it decodes.
\<close>

locale wire =
  fixes put :: "'a \<Rightarrow> byte list result"
    and get :: "(wire_error, 'a) decoder"
    and ok :: "'a \<Rightarrow> bool"
  assumes get_put: "\<And>x bs r. put x = Inr bs \<Longrightarrow> ok x \<Longrightarrow> get (bs @ r) = Inr (x, r)"
    and put_get: "\<And>x bs r. get bs = Inr (x, r) \<Longrightarrow> length bs \<le> MAX_ENVELOPE \<Longrightarrow>
      ok x \<and> (\<exists>b. put x = Inr b \<and> bs = b @ r)"
begin

lemma put_prefix_free:
  assumes "put x = Inr a" "put y = Inr b" "ok x" "ok y" "a @ r = b @ s"
  shows "x = y \<and> r = s"
proof -
  have "get (a @ r) = Inr (x, r)" using assms(1,3) by (rule get_put)
  moreover have "get (b @ s) = Inr (y, s)" using assms(2,4) by (rule get_put)
  ultimately show ?thesis using assms(5) by simp
qed

lemma put_inject:
  assumes "put x = Inr b" "put y = Inr b" "ok x" "ok y"
  shows "x = y"
  using put_prefix_free [OF assms(1,2) assms(3,4), of "[]" "[]"] by simp

lemma get_shorter: "get bs = Inr (x, r) \<Longrightarrow> length bs \<le> MAX_ENVELOPE \<Longrightarrow> length r \<le> length bs"
  using put_get by fastforce

end

text \<open>A fixed-size type: the decoder reads \<open>n\<close> bytes through a bijection.\<close>

lemma wire_fixed:
  assumes len: "\<And>x. length (enc x) = n"
    and inv: "\<And>x. dec (enc x) = x"
    and surj: "\<And>b. length b = n \<Longrightarrow> enc (dec b) = b"
  shows "wire (\<lambda>x. Inr (enc x)) (pbind (ptake e n) (\<lambda>b. pret (dec b))) (\<lambda>_. True)"
proof
  fix x bs r
  show "Inr (enc x) = Inr bs \<Longrightarrow> True \<Longrightarrow> pbind (ptake e n) (\<lambda>b. pret (dec b)) (bs @ r) = Inr (x, r)"
    using len inv by auto
  show "pbind (ptake e n) (\<lambda>b. pret (dec b)) bs = Inr (x, r) \<Longrightarrow> length bs \<le> MAX_ENVELOPE \<Longrightarrow>
      True \<and> (\<exists>b. Inr (enc x) = Inr b \<and> bs = b @ r)"
    using surj by (auto simp: pbind_eq_Inr ptake_eq_Inr)
qed

text \<open>Two values in sequence.\<close>

definition put_pair :: "('a \<Rightarrow> byte list result) \<Rightarrow> ('b \<Rightarrow> byte list result) \<Rightarrow> 'a \<times> 'b \<Rightarrow> byte list result" where
  "put_pair p q = (\<lambda>(x, y). cat2 (p x) (q y))"

definition get_pair :: "('e, 'a) decoder \<Rightarrow> ('e, 'b) decoder \<Rightarrow> ('e, 'a \<times> 'b) decoder" where
  "get_pair g h = pbind g (\<lambda>x. pbind h (\<lambda>y. pret (x, y)))"

lemma wire_pair:
  assumes p: "wire p g P" and q: "wire q h Q"
  shows "wire (put_pair p q) (get_pair g h) (\<lambda>(x, y). P x \<and> Q y)"
proof
  fix z bs r
  assume "put_pair p q z = Inr bs" and "case z of (x, y) \<Rightarrow> P x \<and> Q y"
  then obtain x y a b where z: "z = (x, y)" and a: "p x = Inr a" "P x" and b: "q y = Inr b" "Q y"
    and bs: "bs = a @ b"
    by (cases z) (auto simp: put_pair_def cat2_eq_Inr)
  have "g (a @ b @ r) = Inr (x, b @ r)" using p a by (rule wire.get_put)
  moreover have "h (b @ r) = Inr (y, r)" using q b by (rule wire.get_put)
  ultimately show "get_pair g h (bs @ r) = Inr (z, r)" by (simp add: get_pair_def bs z)
next
  fix z bs r
  assume "get_pair g h bs = Inr (z, r)" and len: "length bs \<le> MAX_ENVELOPE"
  then obtain x y m where z: "z = (x, y)" and g: "g bs = Inr (x, m)" and h: "h m = Inr (y, r)"
    by (auto simp: get_pair_def pbind_eq_Inr)
  from wire.put_get [OF p g len] obtain a where a: "P x" "p x = Inr a" "bs = a @ m" by blast
  with len have "length m \<le> MAX_ENVELOPE" by simp
  from wire.put_get [OF q h this] obtain b where b: "Q y" "q y = Inr b" "m = b @ r" by blast
  from a b show "(case z of (x, y) \<Rightarrow> P x \<and> Q y) \<and> (\<exists>b. put_pair p q z = Inr b \<and> bs = b @ r)"
    by (simp add: z put_pair_def)
qed

lemma pbind_get_pair [simp]: "pbind (get_pair g h) f = pbind g (\<lambda>x. pbind h (\<lambda>y. f (x, y)))"
  by (rule ext) (auto simp: get_pair_def pbind_def split: sum.splits)

text \<open>A type isomorphic to an encoded one; records are isomorphic to tuples of their fields.\<close>

lemma wire_iso:
  assumes w: "wire p g P" and inv: "\<And>y. to (from y) = y" "\<And>x. from (to x) = x"
  shows "wire (\<lambda>y. p (from y)) (pbind g (\<lambda>x. pret (to x))) (\<lambda>y. P (from y))"
proof
  fix y bs r
  assume "p (from y) = Inr bs" "P (from y)"
  with w have "g (bs @ r) = Inr (from y, r)" by (rule wire.get_put)
  then show "pbind g (\<lambda>x. pret (to x)) (bs @ r) = Inr (y, r)" by (simp add: inv)
next
  fix y bs r
  assume "pbind g (\<lambda>x. pret (to x)) bs = Inr (y, r)" and len: "length bs \<le> MAX_ENVELOPE"
  then obtain x where "g bs = Inr (x, r)" and "y = to x" by (auto simp: pbind_eq_Inr)
  with wire.put_get [OF w _ len] show "P (from y) \<and> (\<exists>b. p (from y) = Inr b \<and> bs = b @ r)"
    by (auto simp: inv)
qed

text \<open>Running a decoder on what the encoder wrote, inside a longer sequence.\<close>

lemma pbind_put:
  "wire p g P \<Longrightarrow> p x = Inr b \<Longrightarrow> P x \<Longrightarrow> pbind g f (b @ r) = f x r"
  by (simp add: wire.get_put)

lemma pbind_get:
  assumes "wire p g P" "pbind g f bs = Inr z" "length bs \<le> MAX_ENVELOPE"
  obtains x b r where "P x" "p x = Inr b" "bs = b @ r" "f x r = Inr z" "length r \<le> MAX_ENVELOPE"
proof -
  from assms(2) obtain x r where g: "g bs = Inr (x, r)" and f: "f x r = Inr z"
    by (auto simp: pbind_eq_Inr)
  from wire.put_get [OF assms(1) g assms(3)] obtain b where b: "P x" "p x = Inr b" "bs = b @ r"
    by blast
  with assms(3) have "length r \<le> MAX_ENVELOPE" by simp
  with b f that show thesis by blast
qed

end
