(* ===== verification/Wire.thy ===== *)
theory Wire
  imports Codec
begin

text \<open>
  The strict v1 wire format of \<^verbatim>\<open>crates/cc-core/src/v1.rs\<close>: the data types of an envelope and
  one encoder (\<open>put_*\<close>) and decoder (\<open>get_*\<close>) per \<open>Wire\<close> implementation. Every codec is
  an instance of the interface \<open>wire\<close>, so the format is uniquely decodable: a value has one
  encoding, and the decoders accept exactly the encodings. A \<open>Hash\<close> (\<open>[u8; 32]\<close>) is its
  big-endian value, so the order of hashes is the order of their bytes; a wire \<open>Set<T>\<close> is the
  vector it wraps.
\<close>

section \<open>Data\<close>

definition MAX_SET :: nat where
  "MAX_SET = 1024"

definition CANON_VERSION :: u16 where
  "CANON_VERSION = 1"

definition CONSTANTS_VERSION :: u16 where
  "CONSTANTS_VERSION = 0"

record subject_key =
  key_kind :: string
  key_namespace :: string
  key_value :: string

record asserted_time =
  at_coordinate :: hash
  at_precision :: string

record pin =
  pin_subject :: hash
  pin_basis :: hash
  pin_revision :: hash
  pin_body :: hash

record pins =
  pins_source :: pin
  pins_target :: pin

record parent_pins =
  pp_parent :: hash
  pp_pins :: pins

datatype kind = K_Genesis | K_Correction | K_Delegate | K_Revoke | K_Resolve
  | K_EdgeAssert | K_EdgeReaffirm | K_Attestation

datatype disposition_kind = Selected | Merged | NotSelected

datatype target_kind = T_Event | T_Revision

record disposition =
  disp_parent :: hash
  disp_action :: disposition_kind
  disp_rationale :: string

datatype val = V_None
  | V_Body hash
  | V_Grant hash hash
  | V_ActiveGrant hash
  | V_RevokedGrant hash bool
  | V_Heads "hash list"
  | V_Revision hash
  | V_Pins pins
  | V_ParentPins "parent_pins list"

record decision =
  dec_kind :: kind
  dec_rationale :: string
  dec_evidence :: "hash list"
  dec_parents :: "hash list"
  dec_old :: val
  dec_new :: val

datatype selection = S_Revision hash | S_MergedBody hash

datatype payload =
    Genesis (p_nonce: hash) (p_body: hash) (p_evidence: "hash list")
  | Correction hash decision
  | Delegate hash hash decision
  | Revoke hash bool decision
  | Resolve selection "disposition list" decision
  | EdgeAssert string pins decision
  | EdgeReaffirm hash "parent_pins list" pins decision
  | Attestation target_kind hash string hash

fun payload_kind :: "payload \<Rightarrow> kind" where
  "payload_kind (Genesis _ _ _) = K_Genesis"
| "payload_kind (Correction _ _) = K_Correction"
| "payload_kind (Delegate _ _ _) = K_Delegate"
| "payload_kind (Revoke _ _ _) = K_Revoke"
| "payload_kind (Resolve _ _ _) = K_Resolve"
| "payload_kind (EdgeAssert _ _ _) = K_EdgeAssert"
| "payload_kind (EdgeReaffirm _ _ _ _) = K_EdgeReaffirm"
| "payload_kind (Attestation _ _ _ _) = K_Attestation"

fun payload_decision :: "payload \<Rightarrow> decision option" where
  "payload_decision (Correction _ d) = Some d"
| "payload_decision (Delegate _ _ d) = Some d"
| "payload_decision (Revoke _ _ d) = Some d"
| "payload_decision (Resolve _ _ d) = Some d"
| "payload_decision (EdgeAssert _ _ d) = Some d"
| "payload_decision (EdgeReaffirm _ _ _ d) = Some d"
| "payload_decision _ = None"

record envelope =
  env_instance :: hash
  env_author :: hash
  env_subject :: "hash option"
  env_subject_key :: "subject_key option"
  env_grant :: "hash option"
  env_parents :: "hash list"
  env_asserted_time :: "asserted_time option"
  env_payload :: payload

section \<open>Integers, hashes, booleans, strings\<close>

definition get_take :: "nat \<Rightarrow> (wire_error, byte list) decoder" where
  "get_take n = ptake ''truncated'' n"

definition put_u16 :: "u16 \<Rightarrow> byte list result" where
  "put_u16 v = Inr (to_be_bytes 2 v)"

definition get_u16 :: "(wire_error, u16) decoder" where
  "get_u16 = pbind (get_take 2) (\<lambda>b. pret (from_be_bytes b))"

definition put_u32 :: "u32 \<Rightarrow> byte list result" where
  "put_u32 v = Inr (to_be_bytes 4 v)"

definition get_u32 :: "(wire_error, u32) decoder" where
  "get_u32 = pbind (get_take 4) (\<lambda>b. pret (from_be_bytes b))"

definition hash_bytes :: "hash \<Rightarrow> byte list" where
  "hash_bytes h = to_be_bytes 32 h"

definition put_hash :: "hash \<Rightarrow> byte list result" where
  "put_hash h = Inr (hash_bytes h)"

definition get_hash :: "(wire_error, hash) decoder" where
  "get_hash = pbind (get_take 32) (\<lambda>b. pret (from_be_bytes b))"

definition put_bool :: "bool \<Rightarrow> byte list result" where
  "put_bool b = Inr [if b then 1 else 0]"

definition get_bool :: "(wire_error, bool) decoder" where
  "get_bool = pbind (get_take 1) (\<lambda>b.
     if b = [0] then pret False else if b = [1] then pret True else pfail ''noncanonical_bool'')"

definition put_string :: "string \<Rightarrow> byte list result" where
  "put_string s = guard (length s > MAX_ENVELOPE) ''string_too_large''
     (puts [put_u32 (word_of_nat (length s)), Inr (as_bytes s)])"

definition get_string :: "(wire_error, string) decoder" where
  "get_string = pbind get_u32 (\<lambda>n. pbind (get_take (unat n)) (\<lambda>b.
     case from_utf8 b of None \<Rightarrow> pfail ''invalid_utf8'' | Some s \<Rightarrow> pret s))"

interpretation u16: wire put_u16 get_u16 "\<lambda>_. True"
  unfolding put_u16_def get_u16_def get_take_def
  by (rule wire_fixed) (simp_all add: from_to_be_bytes to_from_be_bytes_n)

interpretation u32: wire put_u32 get_u32 "\<lambda>_. True"
  unfolding put_u32_def get_u32_def get_take_def
  by (rule wire_fixed) (simp_all add: from_to_be_bytes to_from_be_bytes_n)

interpretation hash: wire put_hash get_hash "\<lambda>_. True"
  unfolding put_hash_def get_hash_def get_take_def hash_bytes_def
  by (rule wire_fixed) (simp_all add: from_to_be_bytes to_from_be_bytes_n)

interpretation wbool: wire put_bool get_bool "\<lambda>_. True"
proof
  fix x bs r
  show "put_bool x = Inr bs \<Longrightarrow> True \<Longrightarrow> get_bool (bs @ r) = Inr (x, r)"
    by (cases x) (auto simp: put_bool_def get_bool_def get_take_def pbind_def ptake_def)
  show "get_bool bs = Inr (x, r) \<Longrightarrow> length bs \<le> MAX_ENVELOPE \<Longrightarrow>
      True \<and> (\<exists>b. put_bool x = Inr b \<and> bs = b @ r)"
    by (auto simp: put_bool_def get_bool_def get_take_def pbind_eq_Inr ptake_eq_Inr split: if_splits)
qed

lemma length_word32: "n \<le> MAX_ENVELOPE \<Longrightarrow> unat (word_of_nat n :: u32) = n"
  by (simp add: MAX_ENVELOPE_def unsigned_of_nat take_bit_nat_eq_self)

interpretation str: wire put_string get_string str_ok
proof
  fix x bs r
  assume "put_string x = Inr bs" and ok: "str_ok x"
  then have len: "length x \<le> MAX_ENVELOPE"
    and bs: "bs = to_be_bytes 4 (word_of_nat (length x) :: u32) @ as_bytes x"
    by (auto simp: put_string_def guard_eq_Inr put_u32_def)
  have "get_u32 (bs @ r) = Inr (word_of_nat (length x), as_bytes x @ r)"
    using u32.get_put [of "word_of_nat (length x)"] by (simp add: bs put_u32_def)
  then show "get_string (bs @ r) = Inr (x, r)"
    using len ok by (simp add: get_string_def get_take_def length_word32 from_utf8_as_bytes)
next
  fix x bs r
  assume get: "get_string bs = Inr (x, r)" and len: "length bs \<le> MAX_ENVELOPE"
  obtain n b m where "True" and n: "put_u32 n = Inr b" "bs = b @ m"
    and m: "pbind (get_take (unat n)) (\<lambda>b. case from_utf8 b of None \<Rightarrow> pfail ''invalid_utf8''
      | Some s \<Rightarrow> pret s) m = Inr (x, r)" and "length m \<le> MAX_ENVELOPE"
    by (rule pbind_get [OF u32.wire_axioms get [unfolded get_string_def] len])
  from m have x: "str_ok x" "m = as_bytes x @ r" "length x = unat n"
    by (auto simp: pbind_eq_Inr get_take_def ptake_eq_Inr from_utf8_Some split: option.splits)
  moreover have "length x \<le> MAX_ENVELOPE" using len n x by simp
  ultimately show "str_ok x \<and> (\<exists>b. put_string x = Inr b \<and> bs = b @ r)"
    using n by (auto simp: put_string_def put_u32_def)
qed

section \<open>Options and sets\<close>

definition put_option :: "('a \<Rightarrow> byte list result) \<Rightarrow> 'a option \<Rightarrow> byte list result" where
  "put_option p v = puts [put_bool (v \<noteq> None), (case v of None \<Rightarrow> Inr [] | Some x \<Rightarrow> p x)]"

definition get_option :: "(wire_error, 'a) decoder \<Rightarrow> (wire_error, 'a option) decoder" where
  "get_option g = pbind get_bool (\<lambda>b. if b then pbind g (\<lambda>x. pret (Some x)) else pret None)"

lemma wire_option:
  assumes w: "wire p g P"
  shows "wire (put_option p) (get_option g) (pred_option P)"
proof
  fix v bs r
  assume put: "put_option p v = Inr bs" and ok: "pred_option P v"
  show "get_option g (bs @ r) = Inr (v, r)"
  proof (cases v)
    case None
    then show ?thesis using put wbool.get_put [of False bs r]
      by (simp add: put_option_def get_option_def pbind_def)
  next
    case (Some x)
    then obtain b where b: "p x = Inr b" "bs = [1] @ b"
      using put by (auto simp: put_option_def cat2_eq_Inr put_bool_def)
    have "get_bool ([1] @ (b @ r)) = Inr (True, b @ r)"
      using wbool.get_put [of True "[1]"] by (simp add: put_bool_def)
    then show ?thesis using Some ok b wire.get_put [OF w b(1)]
      by (simp add: get_option_def)
  qed
next
  fix v bs r
  assume get: "get_option g bs = Inr (v, r)" and len: "length bs \<le> MAX_ENVELOPE"
  obtain t b m where "True" and t: "put_bool t = Inr b" "bs = b @ m"
    and m: "(if t then pbind g (\<lambda>x. pret (Some x)) else pret None) m = Inr (v, r)"
    and lm: "length m \<le> MAX_ENVELOPE"
    by (rule pbind_get [OF wbool.wire_axioms get [unfolded get_option_def] len])
  show "pred_option P v \<and> (\<exists>b. put_option p v = Inr b \<and> bs = b @ r)"
  proof (cases t)
    case True
    with m obtain x where x: "g m = Inr (x, r)" "v = Some x" by (auto simp: pbind_eq_Inr)
    with wire.put_get [OF w x(1) lm] t True show ?thesis by (auto simp: put_option_def)
  next
    case False
    with m t show ?thesis by (auto simp: put_option_def)
  qed
qed

text \<open>\<open>windows(2).any(|p| p[0].reference() >= p[1].reference())\<close>\<close>

fun unsorted :: "('a \<Rightarrow> hash) \<Rightarrow> 'a list \<Rightarrow> bool" where
  "unsorted rf (x # y # zs) \<longleftrightarrow> rf x \<ge> rf y \<or> unsorted rf (y # zs)"
| "unsorted rf _ \<longleftrightarrow> False"

definition put_set :: "('a \<Rightarrow> hash) \<Rightarrow> ('a \<Rightarrow> byte list result) \<Rightarrow> 'a list \<Rightarrow> byte list result" where
  "put_set rf p xs = guard (length xs > MAX_SET \<or> unsorted rf xs) ''noncanonical_set''
     (cat2 (put_u32 (word_of_nat (length xs))) (puts (map p xs)))"

fun get_many :: "(wire_error, 'a) decoder \<Rightarrow> nat \<Rightarrow> (wire_error, 'a list) decoder" where
  "get_many g 0 = pret []"
| "get_many g (Suc n) = pbind g (\<lambda>x. pbind (get_many g n) (\<lambda>xs. pret (x # xs)))"

definition get_set :: "('a \<Rightarrow> hash) \<Rightarrow> (wire_error, 'a) decoder \<Rightarrow> (wire_error, 'a list) decoder" where
  "get_set rf g = pbind get_u32 (\<lambda>n.
     if unat n > MAX_SET then pfail ''noncanonical_set''
     else pbind (get_many g (unat n)) (\<lambda>xs.
       if unsorted rf xs then pfail ''noncanonical_set'' else pret xs))"

lemma unsorted_iff: "unsorted rf xs \<longleftrightarrow> \<not> sorted_wrt (<) (map rf xs)"
  by (induction rf xs rule: unsorted.induct) (auto simp: not_le intro: less_trans)

lemma get_many_puts:
  assumes w: "wire p g P"
  shows "puts (map p xs) = Inr bs \<Longrightarrow> list_all P xs \<Longrightarrow> get_many g (length xs) (bs @ r) = Inr (xs, r)"
proof (induction xs arbitrary: bs)
  case (Cons x xs)
  then obtain a b where "p x = Inr a" "puts (map p xs) = Inr b" "bs = a @ b"
    by (auto simp: cat2_eq_Inr)
  with Cons wire.get_put [OF w, of x a "b @ r"] show ?case by simp
qed simp

lemma get_many_Inr:
  assumes w: "wire p g P"
  shows "get_many g n bs = Inr (xs, r) \<Longrightarrow> length bs \<le> MAX_ENVELOPE \<Longrightarrow>
    list_all P xs \<and> length xs = n \<and> (\<exists>b. puts (map p xs) = Inr b \<and> bs = b @ r)"
proof (induction n arbitrary: bs xs)
  case (Suc n)
  obtain x b m where x: "P x" "p x = Inr b" "bs = b @ m"
    and m: "pbind (get_many g n) (\<lambda>xs. pret (x # xs)) m = Inr (xs, r)"
    and lm: "length m \<le> MAX_ENVELOPE"
    by (rule pbind_get [OF w Suc.prems(1) [unfolded get_many.simps] Suc.prems(2)])
  from m obtain ys where ys: "get_many g n m = Inr (ys, r)" "xs = x # ys"
    by (auto simp: pbind_eq_Inr)
  from Suc.IH [OF ys(1) lm] x ys(2) show ?case by auto
qed simp

lemma wire_set:
  assumes w: "wire p g P"
  shows "wire (put_set rf p) (get_set rf g) (list_all P)"
proof
  fix xs bs r
  assume "put_set rf p xs = Inr bs" and ok: "list_all P xs"
  then obtain b where len: "length xs \<le> MAX_SET" and so: "\<not> unsorted rf xs"
    and b: "puts (map p xs) = Inr b" "bs = to_be_bytes 4 (word_of_nat (length xs) :: u32) @ b"
    by (auto simp: put_set_def guard_eq_Inr cat2_eq_Inr put_u32_def not_less)
  have "unat (word_of_nat (length xs) :: u32) = length xs"
    using len by (intro length_word32) (simp add: MAX_SET_def MAX_ENVELOPE_def)
  moreover have "get_u32 (bs @ r) = Inr (word_of_nat (length xs), b @ r)"
    using u32.get_put [of "word_of_nat (length xs)"] by (simp add: b put_u32_def)
  ultimately show "get_set rf g (bs @ r) = Inr (xs, r)"
    using len so get_many_puts [OF w b(1) ok] by (simp add: get_set_def)
next
  fix xs bs r
  assume get: "get_set rf g bs = Inr (xs, r)" and len: "length bs \<le> MAX_ENVELOPE"
  obtain n b m where "True" and n: "put_u32 n = Inr b" "bs = b @ m"
    and m: "(if unat n > MAX_SET then pfail ''noncanonical_set''
       else pbind (get_many g (unat n)) (\<lambda>xs. if unsorted rf xs then pfail ''noncanonical_set'' else pret xs)) m
       = Inr (xs, r)"
    and lm: "length m \<le> MAX_ENVELOPE"
    by (rule pbind_get [OF u32.wire_axioms get [unfolded get_set_def] len])
  from m have so: "unat n \<le> MAX_SET" "\<not> unsorted rf xs" and many: "get_many g (unat n) m = Inr (xs, r)"
    by (auto simp: pbind_eq_Inr split: if_splits)
  from get_many_Inr [OF w many lm] obtain c where
    c: "list_all P xs" "length xs = unat n" "puts (map p xs) = Inr c" "m = c @ r" by blast
  then have "put_set rf p xs = Inr (b @ c)"
    using so n(1) by (simp add: put_set_def put_u32_def)
  with c n show "list_all P xs \<and> (\<exists>b. put_set rf p xs = Inr b \<and> bs = b @ r)" by simp
qed

end
