(* ===== verification/Canon.thy ===== *)
theory Canon
  imports Tick Wire
begin

text \<open>
  The canonical form of the v0 events of \<^verbatim>\<open>crates/cc-core/src/lib.rs\<close>: \<open>canon_event\<close>, the preimage of an
  event id, and \<open>parse_event\<close>, which reads a stored payload back with the columns of its envelope. An
  \<open>AuthorKey\<close> is its 32 bytes, accepted by the predicate \<open>kok\<close>; a field of \<open>2^32\<close> bytes or more
  panics, which is \<^term>\<open>None\<close>.
\<close>

section \<open>Events\<close>

datatype event_kind = EK_EntityCreate | EK_Moment | EK_Edge | EK_Attestation | EK_VocabularyDeclare

fun kind_to_i16 :: "event_kind \<Rightarrow> 16 word" where
  "kind_to_i16 EK_EntityCreate = 1"
| "kind_to_i16 EK_Moment = 2"
| "kind_to_i16 EK_Edge = 3"
| "kind_to_i16 EK_Attestation = 4"
| "kind_to_i16 EK_VocabularyDeclare = 5"

definition kind_from_i16 :: "16 word \<Rightarrow> event_kind option" where
  "kind_from_i16 v = (if v = 1 then Some EK_EntityCreate else if v = 2 then Some EK_Moment else if v = 3 then Some EK_Edge
     else if v = 4 then Some EK_Attestation else if v = 5 then Some EK_VocabularyDeclare else None)"

datatype edge_relation = ER_CoOccurrence | ER_Influence | ER_Causation | ER_Participation | ER_Attestation | ER_Supersession

datatype evidence_class = EC_PrimaryDocument | EC_SecondarySource | EC_Inference | EC_Assertion

record vocabulary_entry =
  vo_claim_type :: u32
  vo_label :: string
  vo_band :: existence_window

record entity_birth =
  eb_entity_id :: u64
  eb_resolution_key :: string
  eb_canonical_name :: string
  eb_window :: existence_window

record moment_body =
  mo_subject :: u64
  mo_body_hash :: hash

record edge_body =
  eg_src :: u64
  eg_dst :: u64
  eg_relation :: edge_relation
  eg_evidence_class :: evidence_class

record attestation_body =
  ab_target :: hash

datatype event_body = EntityCreate entity_birth | Moment moment_body | Edge edge_body | Attestation attestation_body
  | VocabularyDeclare vocabulary_entry

fun body_kind :: "event_body \<Rightarrow> event_kind" where
  "body_kind (EntityCreate _) = EK_EntityCreate"
| "body_kind (Moment _) = EK_Moment"
| "body_kind (Edge _) = EK_Edge"
| "body_kind (Attestation _) = EK_Attestation"
| "body_kind (VocabularyDeclare _) = EK_VocabularyDeclare"

record event_content =
  ec_event_time :: tick
  ec_record_time :: tick
  ec_author :: hash
  ec_supersedes :: "hash option"
  ec_body :: event_body

section \<open>The writer\<close>

definition LEGACY_CANON_VERSION :: u16 where
  "LEGACY_CANON_VERSION = 0"

definition canon_framed :: "byte list \<Rightarrow> byte list option" where
  "canon_framed x = (if length x < 2 ^ 32 then Some (to_be_bytes 4 (word_of_nat (length x) :: u32) @ x) else None)"

definition dst_of :: "event_body \<Rightarrow> string" where
  "dst_of b = (case b of EntityCreate _ \<Rightarrow> ''cc.entity.v0'' | Moment _ \<Rightarrow> ''cc.moment.v0'' | Edge _ \<Rightarrow> ''cc.edge.v0''
     | Attestation _ \<Rightarrow> ''cc.attestation.v0'' | VocabularyDeclare _ \<Rightarrow> ''cc.vocabulary.v0'')"

fun closure_tag :: "closure_state \<Rightarrow> byte" where
  "closure_tag CS_KnownOpen = 0"
| "closure_tag CS_KnownClosed = 1"
| "closure_tag CS_UnknownClosure = 2"

fun start_tag :: "start_state \<Rightarrow> byte" where
  "start_tag SS_Known = 0"
| "start_tag SS_Unknown = 1"

fun relation_tag :: "edge_relation \<Rightarrow> byte" where
  "relation_tag ER_CoOccurrence = 0"
| "relation_tag ER_Influence = 1"
| "relation_tag ER_Causation = 2"
| "relation_tag ER_Participation = 3"
| "relation_tag ER_Attestation = 4"
| "relation_tag ER_Supersession = 5"

fun evidence_tag :: "evidence_class \<Rightarrow> byte" where
  "evidence_tag EC_PrimaryDocument = 0"
| "evidence_tag EC_SecondarySource = 1"
| "evidence_tag EC_Inference = 2"
| "evidence_tag EC_Assertion = 3"

definition canon_window :: "existence_window \<Rightarrow> byte list" where
  "canon_window w = [closure_tag (closure_state_of w), start_tag (start_state_of w)]
     @ to_canon_bytes (stored_start w) @ to_canon_bytes (stored_end w)"

fun canon_body :: "event_body \<Rightarrow> byte list option" where
  "canon_body (EntityCreate e) = do {
     rk \<leftarrow> canon_framed (as_bytes (eb_resolution_key e));
     cn \<leftarrow> canon_framed (as_bytes (eb_canonical_name e));
     Some (to_be_bytes 8 (eb_entity_id e) @ rk @ cn @ canon_window (eb_window e))}"
| "canon_body (Moment m) = Some (to_be_bytes 8 (mo_subject m) @ hash_bytes (mo_body_hash m))"
| "canon_body (Edge e) = Some (to_be_bytes 8 (eg_src e) @ to_be_bytes 8 (eg_dst e) @
     [relation_tag (eg_relation e), evidence_tag (eg_evidence_class e)])"
| "canon_body (VocabularyDeclare v) = do {
     l \<leftarrow> canon_framed (as_bytes (vo_label v));
     Some (to_be_bytes 4 (vo_claim_type v) @ l @ canon_window (vo_band v))}"
| "canon_body (Attestation _) = None"

definition canon_event :: "event_content \<Rightarrow> byte list option" where
  "canon_event c = do {
     dst \<leftarrow> canon_framed (as_bytes (dst_of (ec_body c)));
     let head = dst @ to_be_bytes 2 LEGACY_CANON_VERSION @ to_be_bytes 2 CONSTANTS_VERSION;
     (case ec_body c of
        Attestation a \<Rightarrow> Some (head @ hash_bytes (ab_target a) @ hash_bytes (ec_author c) @ to_canon_bytes (ec_record_time c))
      | _ \<Rightarrow> do {
          body \<leftarrow> canon_body (ec_body c);
          Some (head @ to_canon_bytes (ec_event_time c) @
            (case ec_supersedes c of Some p \<Rightarrow> 1 # hash_bytes p | None \<Rightarrow> [0]) @ body)})}"

definition event_id :: "(byte list \<Rightarrow> hash) \<Rightarrow> event_content \<Rightarrow> hash option" where
  "event_id H c = map_option H (canon_event c)"

section \<open>The reader\<close>

datatype core_error = BadKey | BadSignature | MalformedPayload

definition read_take :: "nat \<Rightarrow> (core_error, byte list) decoder" where
  "read_take n = ptake MalformedPayload n"

definition read_u8 :: "(core_error, byte) decoder" where
  "read_u8 = pbind (read_take 1) (\<lambda>s. pret (s ! 0))"

definition read_u16 :: "(core_error, u16) decoder" where
  "read_u16 = pbind (read_take 2) (\<lambda>s. pret (from_be_bytes s))"

definition read_u32 :: "(core_error, u32) decoder" where
  "read_u32 = pbind (read_take 4) (\<lambda>s. pret (from_be_bytes s))"

definition read_i64 :: "(core_error, u64) decoder" where
  "read_i64 = pbind (read_take 8) (\<lambda>s. pret (from_be_bytes s))"

definition read_arr32 :: "(core_error, hash) decoder" where
  "read_arr32 = pbind (read_take 32) (\<lambda>s. pret (from_be_bytes s))"

definition read_tick :: "(core_error, tick) decoder" where
  "read_tick = pbind (read_take 32) (\<lambda>s. pret (from_canon_bytes s))"

definition read_framed :: "(core_error, byte list) decoder" where
  "read_framed = pbind (read_take 4) (\<lambda>s. read_take (unat (from_be_bytes s :: u32)))"

definition read_string :: "(core_error, string) decoder" where
  "read_string = pbind read_framed (\<lambda>s. case from_utf8 s of Some t \<Rightarrow> pret t | None \<Rightarrow> pfail MalformedPayload)"

definition read_author :: "(hash \<Rightarrow> bool) \<Rightarrow> (core_error, hash) decoder" where
  "read_author kok = pbind read_arr32 (\<lambda>k. if kok k then pret k else pfail BadKey)"

definition read_closure :: "(core_error, closure_state) decoder" where
  "read_closure = pbind read_u8 (\<lambda>b. if b = 0 then pret CS_KnownOpen else if b = 1 then pret CS_KnownClosed
     else if b = 2 then pret CS_UnknownClosure else pfail MalformedPayload)"

definition read_start :: "(core_error, start_state) decoder" where
  "read_start = pbind read_u8 (\<lambda>b. if b = 0 then pret SS_Known else if b = 1 then pret SS_Unknown else pfail MalformedPayload)"

definition read_relation :: "(core_error, edge_relation) decoder" where
  "read_relation = pbind read_u8 (\<lambda>b. if b = 0 then pret ER_CoOccurrence else if b = 1 then pret ER_Influence
     else if b = 2 then pret ER_Causation else if b = 3 then pret ER_Participation else if b = 4 then pret ER_Attestation
     else if b = 5 then pret ER_Supersession else pfail MalformedPayload)"

definition read_evidence :: "(core_error, evidence_class) decoder" where
  "read_evidence = pbind read_u8 (\<lambda>b. if b = 0 then pret EC_PrimaryDocument else if b = 1 then pret EC_SecondarySource
     else if b = 2 then pret EC_Inference else if b = 3 then pret EC_Assertion else pfail MalformedPayload)"

definition read_window :: "(core_error, existence_window) decoder" where
  "read_window = pbind read_closure (\<lambda>closure. pbind read_start (\<lambda>ss.
     pbind read_tick (\<lambda>s. pbind read_tick (\<lambda>e. pret (from_stored ss s closure e)))))"

definition read_supersedes :: "(core_error, hash option) decoder" where
  "read_supersedes = pbind read_u8 (\<lambda>b. if b = 0 then pret None
     else if b = 1 then pbind read_arr32 (\<lambda>p. pret (Some p)) else pfail MalformedPayload)"

definition read_entity :: "(core_error, event_body) decoder" where
  "read_entity = pbind read_i64 (\<lambda>i. pbind read_string (\<lambda>rk. pbind read_string (\<lambda>cn. pbind read_window (\<lambda>w.
     pret (EntityCreate \<lparr>eb_entity_id = i, eb_resolution_key = rk, eb_canonical_name = cn, eb_window = w\<rparr>)))))"

definition read_moment :: "(core_error, event_body) decoder" where
  "read_moment = pbind read_i64 (\<lambda>s. pbind read_arr32 (\<lambda>h. pret (Moment \<lparr>mo_subject = s, mo_body_hash = h\<rparr>)))"

definition read_edge :: "(core_error, event_body) decoder" where
  "read_edge = pbind read_i64 (\<lambda>s. pbind read_i64 (\<lambda>d. pbind read_relation (\<lambda>r. pbind read_evidence (\<lambda>e.
     pret (Edge \<lparr>eg_src = s, eg_dst = d, eg_relation = r, eg_evidence_class = e\<rparr>)))))"

definition read_vocabulary :: "(core_error, event_body) decoder" where
  "read_vocabulary = pbind read_u32 (\<lambda>c. pbind read_string (\<lambda>l. pbind read_window (\<lambda>w.
     pret (VocabularyDeclare \<lparr>vo_claim_type = c, vo_label = l, vo_band = w\<rparr>))))"

definition read_body :: "byte list \<Rightarrow> (core_error, event_body) decoder" where
  "read_body dst = (if dst = as_bytes ''cc.entity.v0'' then read_entity
     else if dst = as_bytes ''cc.moment.v0'' then read_moment
     else if dst = as_bytes ''cc.edge.v0'' then read_edge
     else if dst = as_bytes ''cc.vocabulary.v0'' then read_vocabulary else pfail MalformedPayload)"

definition read_content :: "(hash \<Rightarrow> bool) \<Rightarrow> tick \<Rightarrow> tick \<Rightarrow> hash \<Rightarrow> byte list \<Rightarrow> (core_error, event_content) decoder" where
  "read_content kok row_event_time row_record_time row_author dst =
     (if dst = as_bytes ''cc.attestation.v0'' then
        pbind read_arr32 (\<lambda>target. pbind (read_author kok) (\<lambda>author. pbind read_tick (\<lambda>record_time.
          pret \<lparr>ec_event_time = row_event_time, ec_record_time = record_time, ec_author = author, ec_supersedes = None,
            ec_body = Attestation \<lparr>ab_target = target\<rparr>\<rparr>)))
      else pbind read_tick (\<lambda>event_time. pbind read_supersedes (\<lambda>supersedes. pbind (read_body dst) (\<lambda>body.
          pret \<lparr>ec_event_time = event_time, ec_record_time = row_record_time, ec_author = row_author,
            ec_supersedes = supersedes, ec_body = body\<rparr>))))"

definition parse_event :: "(hash \<Rightarrow> bool) \<Rightarrow> byte list \<Rightarrow> tick \<Rightarrow> tick \<Rightarrow> hash \<Rightarrow> core_error + event_content" where
  "parse_event kok payload row_event_time row_record_time row_author =
     rbind (pbind read_framed (\<lambda>dst. pbind read_u16 (\<lambda>_. pbind read_u16 (\<lambda>_.
       read_content kok row_event_time row_record_time row_author dst))) payload)
     (\<lambda>(content, rest). guard (rest \<noteq> []) MalformedPayload (Inr content))"

section \<open>What is written reads back\<close>

lemma read_fixed [simp]:
  "read_u8 (b # r) = Inr (b, r)"
  "read_u16 (to_be_bytes 2 v16 @ r) = Inr (v16, r)"
  "read_u32 (to_be_bytes 4 v32 @ r) = Inr (v32, r)"
  "read_i64 (to_be_bytes 8 v64 @ r) = Inr (v64, r)"
  "read_arr32 (hash_bytes h @ r) = Inr (h, r)"
  "read_tick (to_canon_bytes t @ r) = Inr (t, r)"
  using ptake_append [of "[b]" 1 MalformedPayload r]
  by (simp_all add: read_u8_def read_u16_def read_u32_def read_i64_def read_arr32_def read_tick_def read_take_def
      hash_bytes_def from_to_be_bytes tick_bytes_inverse)

lemma read_framed_canon: "canon_framed x = Some y \<Longrightarrow> read_framed (y @ r) = Inr (x, r)"
  by (auto simp: canon_framed_def read_framed_def read_take_def from_to_be_bytes unsigned_of_nat take_bit_nat_eq_self split: if_splits)

lemma read_string_canon: "canon_framed (as_bytes s) = Some y \<Longrightarrow> str_ok s \<Longrightarrow> read_string (y @ r) = Inr (s, r)"
  by (simp add: read_string_def read_framed_canon from_utf8_as_bytes)

lemma read_tags [simp]:
  "read_closure (closure_tag c # r) = Inr (c, r)" "read_start (start_tag s # r) = Inr (s, r)"
  "read_relation (relation_tag e # r) = Inr (e, r)" "read_evidence (evidence_tag v # r) = Inr (v, r)"
proof -
  show "read_closure (closure_tag c # r) = Inr (c, r)" by (cases c) (simp_all add: read_closure_def)
  show "read_start (start_tag s # r) = Inr (s, r)" by (cases s) (simp_all add: read_start_def)
  show "read_relation (relation_tag e # r) = Inr (e, r)" by (cases e) (simp_all add: read_relation_def)
  show "read_evidence (evidence_tag v # r) = Inr (v, r)" by (cases v) (simp_all add: read_evidence_def)
qed

lemma read_last [simp]: "read_tick (to_canon_bytes t) = Inr (t, [])" "read_arr32 (hash_bytes h) = Inr (h, [])"
  using read_fixed(5) [of h "[]"] read_fixed(6) [of t "[]"] by simp_all

lemma read_window_canon [simp]: "read_window (canon_window w @ r) = Inr (w, r)"
  by (simp add: read_window_def canon_window_def from_stored_inverse)

text \<open>
  What the types of the code guarantee: strings are UTF-8 and the author is a key.
\<close>

fun body_ok :: "event_body \<Rightarrow> bool" where
  "body_ok (EntityCreate e) \<longleftrightarrow> str_ok (eb_resolution_key e) \<and> str_ok (eb_canonical_name e)"
| "body_ok (VocabularyDeclare v) \<longleftrightarrow> str_ok (vo_label v)"
| "body_ok _ \<longleftrightarrow> True"

definition content_ok :: "(hash \<Rightarrow> bool) \<Rightarrow> event_content \<Rightarrow> bool" where
  "content_ok kok c \<longleftrightarrow> body_ok (ec_body c) \<and> kok (ec_author c)"

lemma read_body_canon:
  assumes "canon_body b = Some y" "body_ok b"
  shows "read_body (as_bytes (dst_of b)) (y @ r) = Inr (b, r)"
proof (cases b)
  case (EntityCreate e)
  with assms obtain rk cn where "canon_framed (as_bytes (eb_resolution_key e)) = Some rk" "canon_framed (as_bytes (eb_canonical_name e)) = Some cn"
    "y = to_be_bytes 8 (eb_entity_id e) @ rk @ cn @ canon_window (eb_window e)" by (auto split: Option.bind_splits)
  with EntityCreate assms(2) show ?thesis by (simp add: dst_of_def read_body_def read_entity_def read_string_canon)
next
  case (VocabularyDeclare v)
  with assms obtain l where "canon_framed (as_bytes (vo_label v)) = Some l" "y = to_be_bytes 4 (vo_claim_type v) @ l @ canon_window (vo_band v)"
    by (auto split: Option.bind_splits)
  with VocabularyDeclare assms(2) show ?thesis by (simp add: dst_of_def read_body_def read_vocabulary_def read_string_canon)
next
  case (Moment m)
  with assms(1) have "y = to_be_bytes 8 (mo_subject m) @ hash_bytes (mo_body_hash m)" by simp
  with Moment show ?thesis by (simp add: dst_of_def read_body_def read_moment_def)
next
  case (Edge e)
  with assms(1) have "y = to_be_bytes 8 (eg_src e) @ to_be_bytes 8 (eg_dst e) @ [relation_tag (eg_relation e), evidence_tag (eg_evidence_class e)]" by simp
  with Edge show ?thesis by (simp add: dst_of_def read_body_def read_edge_def)
qed (use assms in simp)

lemma read_supersedes_canon: "read_supersedes ((case s of Some p \<Rightarrow> 1 # hash_bytes p | None \<Rightarrow> [0]) @ r) = Inr (s, r)"
  by (cases s) (simp_all add: read_supersedes_def)

text \<open>The fields that identify an event, and what \<open>parse_event\<close> makes of them under given envelope columns.\<close>

definition reread :: "tick \<Rightarrow> tick \<Rightarrow> hash \<Rightarrow> event_content \<Rightarrow> event_content" where
  "reread et rt a c = (case ec_body c of
     Attestation _ \<Rightarrow> c\<lparr>ec_event_time := et, ec_supersedes := None\<rparr>
   | _ \<Rightarrow> c\<lparr>ec_record_time := rt, ec_author := a\<rparr>)"

lemma parse_canon:
  assumes "canon_event c = Some p" "content_ok kok c"
  shows "parse_event kok p et rt a = Inr (reread et rt a c)"
proof -
  obtain dst where dst: "canon_framed (as_bytes (dst_of (ec_body c))) = Some dst"
    using assms(1) by (auto simp: canon_event_def split: Option.bind_splits)
  let ?head = "dst @ to_be_bytes 2 LEGACY_CANON_VERSION @ to_be_bytes 2 CONSTANTS_VERSION"
  have head: "parse_event kok (?head @ r) et rt a = rbind (read_content kok et rt a (as_bytes (dst_of (ec_body c))) r)
      (\<lambda>(content, rest). guard (rest \<noteq> []) MalformedPayload (Inr content))" for r
    using read_framed_canon [OF dst] by (simp add: parse_event_def)
  show ?thesis
  proof (cases "\<exists>t. ec_body c = Attestation t")
    case True
    then obtain t where t: "ec_body c = Attestation t" by blast
    then have "p = ?head @ hash_bytes (ab_target t) @ hash_bytes (ec_author c) @ to_canon_bytes (ec_record_time c) @ []"
      using assms(1) dst by (simp add: canon_event_def)
    then show ?thesis using assms(2) t head
      by (cases c; cases t) (simp add: content_ok_def read_content_def read_author_def dst_of_def reread_def)
  next
    case False
    then obtain b where b: "canon_body (ec_body c) = Some b"
      "p = ?head @ to_canon_bytes (ec_event_time c) @ (case ec_supersedes c of Some p \<Rightarrow> 1 # hash_bytes p | None \<Rightarrow> [0]) @ b @ []"
      using assms(1) dst by (cases "ec_body c") (auto simp: canon_event_def Let_def simp del: canon_body.simps split: Option.bind_splits)
    have "as_bytes (dst_of (ec_body c)) \<noteq> as_bytes ''cc.attestation.v0''"
      using False by (cases "ec_body c") (simp_all add: dst_of_def)
    moreover have "reread et rt a c = c\<lparr>ec_record_time := rt, ec_author := a\<rparr>" using False by (cases "ec_body c") (simp_all add: reread_def)
    ultimately show ?thesis unfolding b(2) head using read_body_canon [OF b(1), of "[]"] assms(2)
      by (cases c) (simp add: read_content_def content_ok_def read_supersedes_canon del: append_Nil2)
  qed
qed

text \<open>
  C39: a stored v0 event reads back. The payload \<open>canon_event\<close> writes, parsed under the event's own envelope
  columns, is the event, except that an attestation always comes back without its \<open>supersedes\<close>.
\<close>

theorem canon_event_roundtrip:
  assumes "canon_event c = Some p" "content_ok kok c"
  shows "parse_event kok p (ec_event_time c) (ec_record_time c) (ec_author c) =
    Inr (case ec_body c of Attestation _ \<Rightarrow> c\<lparr>ec_supersedes := None\<rparr> | _ \<Rightarrow> c)"
  using parse_canon [OF assms] by (auto simp: reread_def split: event_body.splits)

text \<open>
  The identity of a v0 event is exactly its identifying fields. Two events have the same preimage if and
  only if they are attestations of the same target by the same author at the same record time, or
  agree in event time, \<open>supersedes\<close> and body, whoever wrote them and whenever.
\<close>

theorem canon_event_identity:
  assumes "canon_event c = Some p" "canon_event d = Some q" "content_ok kok c" "content_ok kok d"
  shows "p = q \<longleftrightarrow> ec_body c = ec_body d \<and> (case ec_body c of
      Attestation _ \<Rightarrow> ec_author c = ec_author d \<and> ec_record_time c = ec_record_time d
    | _ \<Rightarrow> ec_event_time c = ec_event_time d \<and> ec_supersedes c = ec_supersedes d)"
proof
  assume "p = q"
  then have "reread ORIGIN ORIGIN 0 c = reread ORIGIN ORIGIN 0 d"
    using parse_canon [OF assms(1,3), of ORIGIN ORIGIN 0] parse_canon [OF assms(2,4), of ORIGIN ORIGIN 0] by simp
  then show "ec_body c = ec_body d \<and> (case ec_body c of
      Attestation _ \<Rightarrow> ec_author c = ec_author d \<and> ec_record_time c = ec_record_time d
    | _ \<Rightarrow> ec_event_time c = ec_event_time d \<and> ec_supersedes c = ec_supersedes d)"
    by (cases c; cases d) (auto simp: reread_def split: event_body.splits)
next
  assume "ec_body c = ec_body d \<and> (case ec_body c of
      Attestation _ \<Rightarrow> ec_author c = ec_author d \<and> ec_record_time c = ec_record_time d
    | _ \<Rightarrow> ec_event_time c = ec_event_time d \<and> ec_supersedes c = ec_supersedes d)"
  then have "canon_event c = canon_event d"
    by (cases "ec_body d"; elim conjE) (simp_all add: canon_event_def)
  then show "p = q" using assms(1,2) by simp
qed

section \<open>Two sample events\<close>

definition sample_moment :: "hash \<Rightarrow> event_content" where
  "sample_moment a = \<lparr>ec_event_time = ORIGIN, ec_record_time = ORIGIN, ec_author = a, ec_supersedes = Some 3,
     ec_body = Moment \<lparr>mo_subject = 4, mo_body_hash = 9\<rparr>\<rparr>"

definition sample_attestation :: event_content where
  "sample_attestation = (sample_moment 7)\<lparr>ec_body := Attestation \<lparr>ab_target = 5\<rparr>\<rparr>"

theorem canon_event_roundtrip_witness:
  "\<exists>p. canon_event sample_attestation = Some p \<and>
     parse_event (\<lambda>_. True) p ORIGIN ORIGIN 7 = Inr (sample_attestation\<lparr>ec_supersedes := None\<rparr>) \<and>
     sample_attestation\<lparr>ec_supersedes := None\<rparr> \<noteq> sample_attestation"
proof -
  obtain p where p: "canon_event sample_attestation = Some p"
    by (simp add: canon_event_def canon_framed_def dst_of_def sample_attestation_def)
  from canon_event_roundtrip [OF p, of "\<lambda>_. True"] p show ?thesis
    by (simp add: content_ok_def sample_attestation_def sample_moment_def)
qed

theorem canon_event_identity_witness: "canon_event (sample_moment 7) = canon_event (sample_moment 8)"
proof -
  obtain p where p: "canon_event (sample_moment 7) = Some p"
    by (simp add: canon_event_def canon_framed_def dst_of_def sample_moment_def)
  obtain q where q: "canon_event (sample_moment 8) = Some q"
    by (simp add: canon_event_def canon_framed_def dst_of_def sample_moment_def)
  from canon_event_identity [OF p q, of "\<lambda>_. True"] p q show ?thesis by (simp add: content_ok_def sample_moment_def)
qed

end
