(* ===== verification/Payload.thy ===== *)
theory Payload
  imports Wire
begin

text \<open>
  Codecs of the records, enums and payloads of the v1 wire format (the \<open>record!\<close> and \<open>tags!\<close>
  macros, \<open>Value\<close>, \<open>Selection\<close> and \<open>Payload\<close> of \<^verbatim>\<open>crates/cc-core/src/v1.rs\<close>). Each is an
  instance of the interface \<open>wire\<close>.
\<close>

section \<open>Tags\<close>

fun kind_tag :: "kind \<Rightarrow> u16" where
  "kind_tag K_Genesis = 1"
| "kind_tag K_Correction = 2"
| "kind_tag K_Delegate = 3"
| "kind_tag K_Revoke = 4"
| "kind_tag K_Resolve = 5"
| "kind_tag K_EdgeAssert = 6"
| "kind_tag K_EdgeReaffirm = 7"
| "kind_tag K_Attestation = 8"

definition put_kind :: "kind \<Rightarrow> byte list result" where
  "put_kind k = put_u16 (kind_tag k)"

definition get_kind :: "(wire_error, kind) decoder" where
  "get_kind = pbind get_u16 (\<lambda>t.
     if t = 1 then pret K_Genesis else if t = 2 then pret K_Correction
     else if t = 3 then pret K_Delegate else if t = 4 then pret K_Revoke
     else if t = 5 then pret K_Resolve else if t = 6 then pret K_EdgeAssert
     else if t = 7 then pret K_EdgeReaffirm else if t = 8 then pret K_Attestation
     else pfail ''unknown_tag'')"

fun disposition_tag :: "disposition_kind \<Rightarrow> u16" where
  "disposition_tag Selected = 1"
| "disposition_tag Merged = 2"
| "disposition_tag NotSelected = 3"

definition put_disposition_kind :: "disposition_kind \<Rightarrow> byte list result" where
  "put_disposition_kind k = put_u16 (disposition_tag k)"

definition get_disposition_kind :: "(wire_error, disposition_kind) decoder" where
  "get_disposition_kind = pbind get_u16 (\<lambda>t.
     if t = 1 then pret Selected else if t = 2 then pret Merged
     else if t = 3 then pret NotSelected else pfail ''unknown_tag'')"

fun target_tag :: "target_kind \<Rightarrow> u16" where
  "target_tag T_Event = 1"
| "target_tag T_Revision = 2"

definition put_target_kind :: "target_kind \<Rightarrow> byte list result" where
  "put_target_kind k = put_u16 (target_tag k)"

definition get_target_kind :: "(wire_error, target_kind) decoder" where
  "get_target_kind = pbind get_u16 (\<lambda>t.
     if t = 1 then pret T_Event else if t = 2 then pret T_Revision else pfail ''unknown_tag'')"

text \<open>
  A type encoded as a two-byte tag: the decoder inverts the tag function and rejects every other
  tag.
\<close>

lemma wire_tag:
  assumes "\<And>k r. f (tag k) r = Inr (k, r)" and "\<And>t k r s. f t r = Inr (k, s) \<Longrightarrow> t = tag k \<and> r = s"
  shows "wire (\<lambda>k. put_u16 (tag k)) (pbind get_u16 f) (\<lambda>_. True)"
proof
  fix k bs r
  show "put_u16 (tag k) = Inr bs \<Longrightarrow> True \<Longrightarrow> pbind get_u16 f (bs @ r) = Inr (k, r)"
    by (simp add: pbind_put [OF u16.wire_axioms] assms(1))
  assume "pbind get_u16 f bs = Inr (k, r)" and "length bs \<le> MAX_ENVELOPE"
  then obtain t b m where "True" "put_u16 t = Inr b" "bs = b @ m" "f t m = Inr (k, r)"
    and "length m \<le> MAX_ENVELOPE"
    by (rule pbind_get [OF u16.wire_axioms])
  with assms(2) [of t m k r] show "True \<and> (\<exists>b. put_u16 (tag k) = Inr b \<and> bs = b @ r)" by auto
qed

interpretation wkind: wire put_kind get_kind "\<lambda>_. True"
  unfolding put_kind_def get_kind_def
proof (rule wire_tag)
  fix k :: kind and r :: "byte list"
  show "(if kind_tag k = 1 then pret K_Genesis else if kind_tag k = 2 then pret K_Correction
     else if kind_tag k = 3 then pret K_Delegate else if kind_tag k = 4 then pret K_Revoke
     else if kind_tag k = 5 then pret K_Resolve else if kind_tag k = 6 then pret K_EdgeAssert
     else if kind_tag k = 7 then pret K_EdgeReaffirm else if kind_tag k = 8 then pret K_Attestation
     else pfail ''unknown_tag'') r = Inr (k, r)"
    by (cases k) simp_all
qed (auto split: if_splits)

interpretation wdisp_kind: wire put_disposition_kind get_disposition_kind "\<lambda>_. True"
  unfolding put_disposition_kind_def get_disposition_kind_def
proof (rule wire_tag)
  fix k r
  show "(if disposition_tag k = 1 then pret Selected else if disposition_tag k = 2 then pret Merged
     else if disposition_tag k = 3 then pret NotSelected else pfail ''unknown_tag'') r = Inr (k, r)"
    by (cases k) simp_all
qed (auto split: if_splits)

interpretation wtarget: wire put_target_kind get_target_kind "\<lambda>_. True"
  unfolding put_target_kind_def get_target_kind_def
proof (rule wire_tag)
  fix k r
  show "(if target_tag k = 1 then pret T_Event else if target_tag k = 2 then pret T_Revision
     else pfail ''unknown_tag'') r = Inr (k, r)"
    by (cases k) simp_all
qed (auto split: if_splits)

section \<open>Records\<close>

definition put_subject_key :: "subject_key \<Rightarrow> byte list result" where
  "put_subject_key k = puts [put_string (key_kind k), put_string (key_namespace k), put_string (key_value k)]"

definition get_subject_key :: "(wire_error, subject_key) decoder" where
  "get_subject_key = pbind get_string (\<lambda>a. pbind get_string (\<lambda>b. pbind get_string (\<lambda>c.
     pret \<lparr>key_kind = a, key_namespace = b, key_value = c\<rparr>)))"

definition subject_key_ok :: "subject_key \<Rightarrow> bool" where
  "subject_key_ok k \<longleftrightarrow> str_ok (key_kind k) \<and> str_ok (key_namespace k) \<and> str_ok (key_value k)"

definition put_asserted_time :: "asserted_time \<Rightarrow> byte list result" where
  "put_asserted_time t = puts [put_hash (at_coordinate t), put_string (at_precision t)]"

definition get_asserted_time :: "(wire_error, asserted_time) decoder" where
  "get_asserted_time = pbind get_hash (\<lambda>a. pbind get_string (\<lambda>b.
     pret \<lparr>at_coordinate = a, at_precision = b\<rparr>))"

definition asserted_time_ok :: "asserted_time \<Rightarrow> bool" where
  "asserted_time_ok t \<longleftrightarrow> str_ok (at_precision t)"

definition put_pin :: "pin \<Rightarrow> byte list result" where
  "put_pin p = puts [put_hash (pin_subject p), put_hash (pin_basis p), put_hash (pin_revision p),
     put_hash (pin_body p)]"

definition get_pin :: "(wire_error, pin) decoder" where
  "get_pin = pbind get_hash (\<lambda>a. pbind get_hash (\<lambda>b. pbind get_hash (\<lambda>c. pbind get_hash (\<lambda>d.
     pret \<lparr>pin_subject = a, pin_basis = b, pin_revision = c, pin_body = d\<rparr>))))"

definition put_pins :: "pins \<Rightarrow> byte list result" where
  "put_pins p = puts [put_pin (pins_source p), put_pin (pins_target p)]"

definition get_pins :: "(wire_error, pins) decoder" where
  "get_pins = pbind get_pin (\<lambda>a. pbind get_pin (\<lambda>b. pret \<lparr>pins_source = a, pins_target = b\<rparr>))"

definition put_parent_pins :: "parent_pins \<Rightarrow> byte list result" where
  "put_parent_pins p = puts [put_hash (pp_parent p), put_pins (pp_pins p)]"

definition get_parent_pins :: "(wire_error, parent_pins) decoder" where
  "get_parent_pins = pbind get_hash (\<lambda>a. pbind get_pins (\<lambda>b. pret \<lparr>pp_parent = a, pp_pins = b\<rparr>))"

definition put_disposition :: "disposition \<Rightarrow> byte list result" where
  "put_disposition d = puts [put_hash (disp_parent d), put_disposition_kind (disp_action d),
     put_string (disp_rationale d)]"

definition get_disposition :: "(wire_error, disposition) decoder" where
  "get_disposition = pbind get_hash (\<lambda>a. pbind get_disposition_kind (\<lambda>b. pbind get_string (\<lambda>c.
     pret \<lparr>disp_parent = a, disp_action = b, disp_rationale = c\<rparr>)))"

definition disposition_ok :: "disposition \<Rightarrow> bool" where
  "disposition_ok d \<longleftrightarrow> str_ok (disp_rationale d)"

lemma wire_cong:
  assumes "wire p g P" "p = p'" "g = g'" "P = P'"
  shows "wire p' g' P'"
  using assms by simp

lemma pbind_assoc [simp]: "pbind (pbind p f) g = pbind p (\<lambda>x. pbind (f x) g)"
  by (rule ext) (auto simp: pbind_def split: sum.splits)

lemma pbind_pret [simp]: "pbind (pret x) f = f x"
  by (simp add: pbind_def pret_def)

interpretation wkey: wire put_subject_key get_subject_key subject_key_ok
proof (rule wire_cong)
  show "wire (\<lambda>k. put_pair put_string (put_pair put_string put_string)
        (key_kind k, key_namespace k, key_value k))
      (pbind (get_pair get_string (get_pair get_string get_string))
        (\<lambda>x. pret (case x of (a, b, c) \<Rightarrow> \<lparr>key_kind = a, key_namespace = b, key_value = c\<rparr>)))
      (\<lambda>k. case (key_kind k, key_namespace k, key_value k) of
        (x, y) \<Rightarrow> str_ok x \<and> (case y of (x, y) \<Rightarrow> str_ok x \<and> str_ok y))"
    by (rule wire_iso [OF wire_pair [OF str.wire_axioms wire_pair [OF str.wire_axioms str.wire_axioms]]]) auto
qed (auto simp: put_subject_key_def get_subject_key_def subject_key_ok_def put_pair_def)

interpretation wtime: wire put_asserted_time get_asserted_time asserted_time_ok
proof (rule wire_cong)
  show "wire (\<lambda>t. put_pair put_hash put_string (at_coordinate t, at_precision t))
      (pbind (get_pair get_hash get_string) (\<lambda>x. pret (case x of (a, b) \<Rightarrow> \<lparr>at_coordinate = a, at_precision = b\<rparr>)))
      (\<lambda>t. case (at_coordinate t, at_precision t) of (x, y) \<Rightarrow> True \<and> str_ok y)"
    by (rule wire_iso [OF wire_pair [OF hash.wire_axioms str.wire_axioms]]) auto
qed (auto simp: put_asserted_time_def get_asserted_time_def asserted_time_ok_def put_pair_def)

interpretation wpin: wire put_pin get_pin "\<lambda>_. True"
proof (rule wire_cong)
  show "wire (\<lambda>p. put_pair put_hash (put_pair put_hash (put_pair put_hash put_hash))
        (pin_subject p, pin_basis p, pin_revision p, pin_body p))
      (pbind (get_pair get_hash (get_pair get_hash (get_pair get_hash get_hash)))
        (\<lambda>x. pret (case x of (a, b, c, d) \<Rightarrow>
          \<lparr>pin_subject = a, pin_basis = b, pin_revision = c, pin_body = d\<rparr>)))
      (\<lambda>p. case (pin_subject p, pin_basis p, pin_revision p, pin_body p) of
        (x, y) \<Rightarrow> True \<and> (case y of (x, y) \<Rightarrow> True \<and> (case y of (x, y) \<Rightarrow> True \<and> True)))"
    by (rule wire_iso [OF wire_pair [OF hash.wire_axioms
          wire_pair [OF hash.wire_axioms wire_pair [OF hash.wire_axioms hash.wire_axioms]]]]) auto
qed (auto simp: put_pin_def get_pin_def put_pair_def)

interpretation wpins: wire put_pins get_pins "\<lambda>_. True"
proof (rule wire_cong)
  show "wire (\<lambda>p. put_pair put_pin put_pin (pins_source p, pins_target p))
      (pbind (get_pair get_pin get_pin) (\<lambda>x. pret (case x of (a, b) \<Rightarrow> \<lparr>pins_source = a, pins_target = b\<rparr>)))
      (\<lambda>p. case (pins_source p, pins_target p) of (x, y) \<Rightarrow> True \<and> True)"
    by (rule wire_iso [OF wire_pair [OF wpin.wire_axioms wpin.wire_axioms]]) auto
qed (auto simp: put_pins_def get_pins_def put_pair_def)

interpretation wparent: wire put_parent_pins get_parent_pins "\<lambda>_. True"
proof (rule wire_cong)
  show "wire (\<lambda>p. put_pair put_hash put_pins (pp_parent p, pp_pins p))
      (pbind (get_pair get_hash get_pins) (\<lambda>x. pret (case x of (a, b) \<Rightarrow> \<lparr>pp_parent = a, pp_pins = b\<rparr>)))
      (\<lambda>p. case (pp_parent p, pp_pins p) of (x, y) \<Rightarrow> True \<and> True)"
    by (rule wire_iso [OF wire_pair [OF hash.wire_axioms wpins.wire_axioms]]) auto
qed (auto simp: put_parent_pins_def get_parent_pins_def put_pair_def)

interpretation wdisp: wire put_disposition get_disposition disposition_ok
proof (rule wire_cong)
  show "wire (\<lambda>d. put_pair put_hash (put_pair put_disposition_kind put_string)
        (disp_parent d, disp_action d, disp_rationale d))
      (pbind (get_pair get_hash (get_pair get_disposition_kind get_string))
        (\<lambda>x. pret (case x of (a, b, c) \<Rightarrow> \<lparr>disp_parent = a, disp_action = b, disp_rationale = c\<rparr>)))
      (\<lambda>d. case (disp_parent d, disp_action d, disp_rationale d) of
        (x, y) \<Rightarrow> True \<and> (case y of (x, y) \<Rightarrow> True \<and> str_ok y))"
    by (rule wire_iso [OF wire_pair [OF hash.wire_axioms
          wire_pair [OF wdisp_kind.wire_axioms str.wire_axioms]]]) auto
qed (auto simp: put_disposition_def get_disposition_def disposition_ok_def put_pair_def)

section \<open>Values, selections, decisions\<close>

interpretation whashes: wire "put_set id put_hash" "get_set id get_hash" "list_all (\<lambda>_. True)"
  by (rule wire_set) (rule hash.wire_axioms)

interpretation wparents: wire "put_set pp_parent put_parent_pins" "get_set pp_parent get_parent_pins"
    "list_all (\<lambda>_. True)"
  by (rule wire_set) (rule wparent.wire_axioms)

interpretation wdisps: wire "put_set disp_parent put_disposition" "get_set disp_parent get_disposition"
    "list_all disposition_ok"
  by (rule wire_set) (rule wdisp.wire_axioms)

definition put_val :: "val \<Rightarrow> byte list result" where
  "put_val v = (case v of
     V_None \<Rightarrow> put_u16 0
   | V_Body h \<Rightarrow> puts [put_u16 1, put_hash h]
   | V_Grant i g \<Rightarrow> puts [put_u16 2, put_hash i, put_hash g]
   | V_ActiveGrant h \<Rightarrow> puts [put_u16 3, put_hash h]
   | V_RevokedGrant g c \<Rightarrow> puts [put_u16 4, put_hash g, put_bool c]
   | V_Heads hs \<Rightarrow> puts [put_u16 5, put_set id put_hash hs]
   | V_Revision h \<Rightarrow> puts [put_u16 6, put_hash h]
   | V_Pins p \<Rightarrow> puts [put_u16 7, put_pins p]
   | V_ParentPins ps \<Rightarrow> puts [put_u16 8, put_set pp_parent put_parent_pins ps])"

definition get_val :: "(wire_error, val) decoder" where
  "get_val = pbind get_u16 (\<lambda>t.
     if t = 0 then pret V_None
     else if t = 1 then pbind get_hash (\<lambda>h. pret (V_Body h))
     else if t = 2 then pbind get_hash (\<lambda>i. pbind get_hash (\<lambda>g. pret (V_Grant i g)))
     else if t = 3 then pbind get_hash (\<lambda>h. pret (V_ActiveGrant h))
     else if t = 4 then pbind get_hash (\<lambda>g. pbind get_bool (\<lambda>c. pret (V_RevokedGrant g c)))
     else if t = 5 then pbind (get_set id get_hash) (\<lambda>hs. pret (V_Heads hs))
     else if t = 6 then pbind get_hash (\<lambda>h. pret (V_Revision h))
     else if t = 7 then pbind get_pins (\<lambda>p. pret (V_Pins p))
     else if t = 8 then pbind (get_set pp_parent get_parent_pins) (\<lambda>ps. pret (V_ParentPins ps))
     else pfail ''unknown_value_tag'')"

definition put_selection :: "selection \<Rightarrow> byte list result" where
  "put_selection s = (case s of
     S_Revision h \<Rightarrow> puts [put_u16 0, put_hash h]
   | S_MergedBody h \<Rightarrow> puts [put_u16 1, put_hash h])"

definition get_selection :: "(wire_error, selection) decoder" where
  "get_selection = pbind get_u16 (\<lambda>t.
     if t = 0 then pbind get_hash (\<lambda>h. pret (S_Revision h))
     else if t = 1 then pbind get_hash (\<lambda>h. pret (S_MergedBody h))
     else pfail ''unknown_selection_tag'')"

lemma list_all_True [simp]: "list_all (\<lambda>_. True) xs"
  by (simp add: list_all_iff)

lemmas pbind_puts =
  pbind_put [OF u16.wire_axioms] pbind_put [OF hash.wire_axioms] pbind_put [OF wbool.wire_axioms]
  pbind_put [OF str.wire_axioms] pbind_put [OF wpins.wire_axioms] pbind_put [OF whashes.wire_axioms]
  pbind_put [OF wparents.wire_axioms] pbind_put [OF wdisps.wire_axioms]

lemmas pbind_gets =
  pbind_get [OF u16.wire_axioms] pbind_get [OF hash.wire_axioms] pbind_get [OF wbool.wire_axioms]
  pbind_get [OF str.wire_axioms] pbind_get [OF wpins.wire_axioms] pbind_get [OF whashes.wire_axioms]
  pbind_get [OF wparents.wire_axioms] pbind_get [OF wdisps.wire_axioms]

text \<open>Every branch of a tagged decoder runs on what the matching branch of the encoder wrote.\<close>

lemma get_val_put:
  assumes "put_val v = Inr bs"
  shows "get_val (bs @ r) = Inr (v, r)"
  using assms
  by (cases v) (auto simp: put_val_def get_val_def cat2_eq_Inr pbind_puts)

lemma put_val_get:
  assumes "get_val bs = Inr (v, r)" "length bs \<le> MAX_ENVELOPE"
  shows "\<exists>b. put_val v = Inr b \<and> bs = b @ r"
  using assms unfolding get_val_def
  by (auto elim!: pbind_gets simp: put_val_def split: if_splits)

interpretation wval: wire put_val get_val "\<lambda>_. True"
  by unfold_locales (simp_all add: get_val_put put_val_get)

lemma get_selection_put:
  assumes "put_selection v = Inr bs"
  shows "get_selection (bs @ r) = Inr (v, r)"
  using assms
  by (cases v) (auto simp: put_selection_def get_selection_def cat2_eq_Inr pbind_puts)

lemma put_selection_get:
  assumes "get_selection bs = Inr (v, r)" "length bs \<le> MAX_ENVELOPE"
  shows "\<exists>b. put_selection v = Inr b \<and> bs = b @ r"
  using assms unfolding get_selection_def
  by (auto elim!: pbind_gets simp: put_selection_def split: if_splits)

interpretation wsel: wire put_selection get_selection "\<lambda>_. True"
  by unfold_locales (simp_all add: get_selection_put put_selection_get)

definition put_decision :: "decision \<Rightarrow> byte list result" where
  "put_decision d = puts [put_kind (dec_kind d), put_string (dec_rationale d),
     put_set id put_hash (dec_evidence d), put_set id put_hash (dec_parents d),
     put_val (dec_old d), put_val (dec_new d)]"

definition get_decision :: "(wire_error, decision) decoder" where
  "get_decision = pbind get_kind (\<lambda>k. pbind get_string (\<lambda>s.
     pbind (get_set id get_hash) (\<lambda>e. pbind (get_set id get_hash) (\<lambda>ps.
     pbind get_val (\<lambda>x. pbind get_val (\<lambda>y.
       pret \<lparr>dec_kind = k, dec_rationale = s, dec_evidence = e, dec_parents = ps,
         dec_old = x, dec_new = y\<rparr>))))))"

definition decision_ok :: "decision \<Rightarrow> bool" where
  "decision_ok d \<longleftrightarrow> str_ok (dec_rationale d)"

interpretation wdecision: wire put_decision get_decision decision_ok
proof (rule wire_cong)
  show "wire (\<lambda>d. put_pair put_kind (put_pair put_string (put_pair (put_set id put_hash)
        (put_pair (put_set id put_hash) (put_pair put_val put_val))))
        (dec_kind d, dec_rationale d, dec_evidence d, dec_parents d, dec_old d, dec_new d))
      (pbind (get_pair get_kind (get_pair get_string (get_pair (get_set id get_hash)
        (get_pair (get_set id get_hash) (get_pair get_val get_val)))))
        (\<lambda>x. pret (case x of (k, s, e, ps, o', n) \<Rightarrow>
          \<lparr>dec_kind = k, dec_rationale = s, dec_evidence = e, dec_parents = ps, dec_old = o', dec_new = n\<rparr>)))
      (\<lambda>d. case (dec_kind d, dec_rationale d, dec_evidence d, dec_parents d, dec_old d, dec_new d) of
        (a, y) \<Rightarrow> True \<and> (case y of (b, y) \<Rightarrow> str_ok b \<and> (case y of (c, y) \<Rightarrow> list_all (\<lambda>_. True) c \<and>
        (case y of (c, y) \<Rightarrow> list_all (\<lambda>_. True) c \<and> (case y of (c, y) \<Rightarrow> True \<and> True)))))"
    by (rule wire_iso [OF wire_pair [OF wkind.wire_axioms wire_pair [OF str.wire_axioms
          wire_pair [OF whashes.wire_axioms wire_pair [OF whashes.wire_axioms
          wire_pair [OF wval.wire_axioms wval.wire_axioms]]]]]]) auto
qed (auto simp: put_decision_def get_decision_def decision_ok_def put_pair_def)

section \<open>Payloads\<close>

fun put_payload :: "payload \<Rightarrow> byte list result" where
  "put_payload (Genesis nonce body evidence) =
     puts [put_hash nonce, put_hash body, put_set id put_hash evidence]"
| "put_payload (Correction body d) = puts [put_hash body, put_decision d]"
| "put_payload (Delegate grantee issuer d) = puts [put_hash grantee, put_hash issuer, put_decision d]"
| "put_payload (Revoke target cascade d) = puts [put_hash target, put_bool cascade, put_decision d]"
| "put_payload (Resolve sel disps d) =
     puts [put_selection sel, put_set disp_parent put_disposition disps, put_decision d]"
| "put_payload (EdgeAssert relation ps d) = puts [put_string relation, put_pins ps, put_decision d]"
| "put_payload (EdgeReaffirm edge old new d) =
     puts [put_hash edge, put_set pp_parent put_parent_pins old, put_pins new, put_decision d]"
| "put_payload (Attestation tk target ak artifact) =
     puts [put_target_kind tk, put_hash target, put_string ak, put_hash artifact]"

fun get_payload :: "kind \<Rightarrow> (wire_error, payload) decoder" where
  "get_payload K_Genesis = pbind get_hash (\<lambda>n. pbind get_hash (\<lambda>b.
     pbind (get_set id get_hash) (\<lambda>e. pret (Genesis n b e))))"
| "get_payload K_Correction = pbind get_hash (\<lambda>b. pbind get_decision (\<lambda>d. pret (Correction b d)))"
| "get_payload K_Delegate = pbind get_hash (\<lambda>g. pbind get_hash (\<lambda>i. pbind get_decision (\<lambda>d.
     pret (Delegate g i d))))"
| "get_payload K_Revoke = pbind get_hash (\<lambda>t. pbind get_bool (\<lambda>c. pbind get_decision (\<lambda>d.
     pret (Revoke t c d))))"
| "get_payload K_Resolve = pbind get_selection (\<lambda>s.
     pbind (get_set disp_parent get_disposition) (\<lambda>ds. pbind get_decision (\<lambda>d. pret (Resolve s ds d))))"
| "get_payload K_EdgeAssert = pbind get_string (\<lambda>r. pbind get_pins (\<lambda>p. pbind get_decision (\<lambda>d.
     pret (EdgeAssert r p d))))"
| "get_payload K_EdgeReaffirm = pbind get_hash (\<lambda>e.
     pbind (get_set pp_parent get_parent_pins) (\<lambda>old. pbind get_pins (\<lambda>new. pbind get_decision (\<lambda>d.
     pret (EdgeReaffirm e old new d)))))"
| "get_payload K_Attestation = pbind get_target_kind (\<lambda>k. pbind get_hash (\<lambda>t. pbind get_string (\<lambda>a.
     pbind get_hash (\<lambda>h. pret (Attestation k t a h)))))"

fun payload_ok :: "payload \<Rightarrow> bool" where
  "payload_ok (Genesis _ _ _) = True"
| "payload_ok (Correction _ d) = decision_ok d"
| "payload_ok (Delegate _ _ d) = decision_ok d"
| "payload_ok (Revoke _ _ d) = decision_ok d"
| "payload_ok (Resolve _ ds d) = (list_all disposition_ok ds \<and> decision_ok d)"
| "payload_ok (EdgeAssert r _ d) = (str_ok r \<and> decision_ok d)"
| "payload_ok (EdgeReaffirm _ _ _ d) = decision_ok d"
| "payload_ok (Attestation _ _ a _) = str_ok a"

lemmas pbind_puts' = pbind_puts pbind_put [OF wdecision.wire_axioms] pbind_put [OF wsel.wire_axioms]
  pbind_put [OF wtarget.wire_axioms]

lemmas pbind_gets' = pbind_gets pbind_get [OF wdecision.wire_axioms] pbind_get [OF wsel.wire_axioms]
  pbind_get [OF wtarget.wire_axioms]

lemma get_payload_put:
  "put_payload p = Inr bs \<Longrightarrow> payload_ok p \<Longrightarrow> get_payload (payload_kind p) (bs @ r) = Inr (p, r)"
  by (cases p) (auto simp: cat2_eq_Inr pbind_puts')

lemma put_payload_get:
  assumes "get_payload k bs = Inr (p, r)" "length bs \<le> MAX_ENVELOPE"
  shows "payload_kind p = k \<and> payload_ok p \<and> (\<exists>b. put_payload p = Inr b \<and> bs = b @ r)"
  using assms by (cases k) (auto elim!: pbind_gets')

text \<open>The decoder of each kind, on the payloads of that kind, is a wire codec.\<close>

lemma wire_payload:
  "wire (\<lambda>p. if payload_kind p = k then put_payload p else Inl ''kind'') (get_payload k) payload_ok"
proof
  fix p bs r
  show "(if payload_kind p = k then put_payload p else Inl ''kind'') = Inr bs \<Longrightarrow> payload_ok p \<Longrightarrow>
      get_payload k (bs @ r) = Inr (p, r)"
    using get_payload_put by (auto split: if_splits)
  show "get_payload k bs = Inr (p, r) \<Longrightarrow> length bs \<le> MAX_ENVELOPE \<Longrightarrow>
      payload_ok p \<and> (\<exists>b. (if payload_kind p = k then put_payload p else Inl ''kind'') = Inr b \<and> bs = b @ r)"
    using put_payload_get by fastforce
qed

end
