(* ===== verification/Envelope.thy ===== *)
theory Envelope
  imports Payload
begin

text \<open>
  Envelopes, their preimage, and signed events (\<open>Envelope::preimage\<close>, \<open>Signed::sign\<close>,
  \<open>Signed::decode\<close> and the derived identities of \<^verbatim>\<open>crates/cc-core/src/v1.rs\<close>). SHA-256 and
  Ed25519 are third-party crates: they are the fields of a record \<open>crypto\<close> that every definition
  using them takes as an argument, and \<open>crypto_laws\<close> names what the code relies on (a derived
  public key parses, a signature has 64 bytes and verifies under its key).
\<close>

section \<open>Cryptographic parameters\<close>

record 'sk crypto =
  sha256 :: "byte list \<Rightarrow> hash"
  key_ok :: "hash \<Rightarrow> bool"
  verify_strict :: "hash \<Rightarrow> byte list \<Rightarrow> byte list \<Rightarrow> bool"
  public_key :: "'sk \<Rightarrow> hash"
  sign_message :: "'sk \<Rightarrow> byte list \<Rightarrow> byte list"

definition crypto_laws :: "'sk crypto \<Rightarrow> bool" where
  "crypto_laws C \<longleftrightarrow>
     (\<forall>sk. key_ok C (public_key C sk)) \<and>
     (\<forall>sk m. length (sign_message C sk m) = 64) \<and>
     (\<forall>sk m. verify_strict C (public_key C sk) m (sign_message C sk m))"

section \<open>Derived identities\<close>

text \<open>The identities are SHA-256 values, so they depend on the hash function \<open>H\<close> only.\<close>

definition domain_hash :: "(byte list \<Rightarrow> hash) \<Rightarrow> string \<Rightarrow> hash list \<Rightarrow> hash" where
  "domain_hash H domain ids =
     H (to_be_bytes 4 (word_of_nat (length domain) :: u32) @ as_bytes domain
        @ concat (map hash_bytes ids))"

definition root_grant :: "(byte list \<Rightarrow> hash) \<Rightarrow> hash \<Rightarrow> hash" where
  "root_grant H genesis = domain_hash H ''cc.root-grant.v1'' [genesis]"

definition revision_id :: "(byte list \<Rightarrow> hash) \<Rightarrow> hash \<Rightarrow> hash \<Rightarrow> hash" where
  "revision_id H subject creating_event = domain_hash H ''cc.revision.v1'' [subject, creating_event]"

section \<open>The envelope codec\<close>

definition put_envelope :: "envelope \<Rightarrow> byte list result" where
  "put_envelope e = puts
     [put_string ''cc.event.v1'', put_u16 CANON_VERSION, put_u16 CONSTANTS_VERSION,
      put_hash (env_instance e), put_kind (payload_kind (env_payload e)), put_hash (env_author e),
      put_option put_hash (env_subject e), put_option put_subject_key (env_subject_key e),
      put_option put_hash (env_grant e), put_set id put_hash (env_parents e),
      put_option put_asserted_time (env_asserted_time e), put_payload (env_payload e)]"

definition key_field_bad :: "string \<Rightarrow> bool" where
  "key_field_bad s \<longleftrightarrow> s = [] \<or> length s > 1024"

definition subject_key_bad :: "envelope \<Rightarrow> bool" where
  "subject_key_bad e \<longleftrightarrow> (case env_subject_key e of None \<Rightarrow> False
     | Some k \<Rightarrow> key_field_bad (key_kind k) \<or> key_field_bad (key_namespace k) \<or> key_field_bad (key_value k))"

definition preimage :: "envelope \<Rightarrow> byte list result" where
  "preimage e = guard (subject_key_bad e) ''subject_key_encoding''
     (rbind (put_envelope e) (\<lambda>w.
        guard (length w + 64 > MAX_ENVELOPE) ''envelope_too_large'' (Inr w)))"

definition get_envelope :: "(wire_error, envelope) decoder" where
  "get_envelope =
     pbind get_string (\<lambda>dom. if dom \<noteq> ''cc.event.v1'' then pfail ''unsupported_encoding'' else
     pbind get_u16 (\<lambda>cv. if cv \<noteq> CANON_VERSION then pfail ''unsupported_encoding'' else
     pbind get_u16 (\<lambda>gv. if gv \<noteq> CONSTANTS_VERSION then pfail ''unsupported_constants'' else
     pbind get_hash (\<lambda>inst. pbind get_kind (\<lambda>k. pbind get_hash (\<lambda>author.
     pbind (get_option get_hash) (\<lambda>subj. pbind (get_option get_subject_key) (\<lambda>key.
     pbind (get_option get_hash) (\<lambda>grant. pbind (get_set id get_hash) (\<lambda>parents.
     pbind (get_option get_asserted_time) (\<lambda>time. pbind (get_payload k) (\<lambda>p.
       pret \<lparr>env_instance = inst, env_author = author, env_subject = subj, env_subject_key = key,
         env_grant = grant, env_parents = parents, env_asserted_time = time, env_payload = p\<rparr>))))))))))))"

definition envelope_ok :: "envelope \<Rightarrow> bool" where
  "envelope_ok e \<longleftrightarrow> pred_option subject_key_ok (env_subject_key e)
     \<and> pred_option asserted_time_ok (env_asserted_time e) \<and> payload_ok (env_payload e)"

section \<open>Signed events\<close>

record signed =
  sg_envelope :: envelope
  sg_id :: hash
  sg_bytes :: "byte list"

definition canonical_check :: "envelope \<Rightarrow> byte list \<Rightarrow> byte list \<Rightarrow> unit result" where
  "canonical_check e rest pre =
     (if rest \<noteq> [] then Inl ''noncanonical''
      else rbind (preimage e) (\<lambda>p. if p \<noteq> pre then Inl ''noncanonical'' else Inr ()))"

definition decode :: "'sk crypto \<Rightarrow> byte list \<Rightarrow> signed result" where
  "decode C bytes = guard (length bytes > MAX_ENVELOPE) ''envelope_too_large''
     (guard (length bytes < 64) ''truncated''
     (let split = length bytes - 64; pre = take split bytes; sig = drop split bytes in
      rbind (get_envelope pre) (\<lambda>(e, rest).
      rbind (canonical_check e rest pre) (\<lambda>_.
      guard (\<not> key_ok C (env_author e)) ''bad_signature''
      (guard (\<not> verify_strict C (env_author e) pre sig) ''bad_signature''
      (Inr \<lparr>sg_envelope = e, sg_id = sha256 C pre, sg_bytes = bytes\<rparr>))))))"

definition sign :: "'sk crypto \<Rightarrow> 'sk \<Rightarrow> envelope \<Rightarrow> signed result" where
  "sign C key e0 =
     (let e = e0\<lparr>env_author := public_key C key\<rparr> in
      rbind (preimage e) (\<lambda>bytes. decode C (bytes @ sign_message C key bytes)))"

section \<open>The codec is exact\<close>

interpretation wopt_hash: wire "put_option put_hash" "get_option get_hash" "pred_option (\<lambda>_. True)"
  by (rule wire_option) (rule hash.wire_axioms)

interpretation wopt_key: wire "put_option put_subject_key" "get_option get_subject_key"
    "pred_option subject_key_ok"
  by (rule wire_option) (rule wkey.wire_axioms)

interpretation wopt_time: wire "put_option put_asserted_time" "get_option get_asserted_time"
    "pred_option asserted_time_ok"
  by (rule wire_option) (rule wtime.wire_axioms)

lemmas env_puts = pbind_puts pbind_put [OF wkind.wire_axioms] pbind_put [OF wopt_hash.wire_axioms]
  pbind_put [OF wopt_key.wire_axioms] pbind_put [OF wopt_time.wire_axioms]

lemmas env_gets = pbind_gets pbind_get [OF wkind.wire_axioms] pbind_get [OF wopt_hash.wire_axioms]
  pbind_get [OF wopt_key.wire_axioms] pbind_get [OF wopt_time.wire_axioms]

lemma pred_option_True [simp]: "pred_option (\<lambda>_. True) x"
  by (cases x) auto

lemma str_ok_event_domain [simp]: "str_ok ''cc.event.v1''"
  by code_simp

lemma get_envelope_put:
  assumes "put_envelope e = Inr bs" "envelope_ok e"
  shows "get_envelope (bs @ r) = Inr (e, r)"
  using assms
  by (auto simp: put_envelope_def get_envelope_def envelope_ok_def cat2_eq_Inr env_puts get_payload_put)

lemma put_envelope_get:
  assumes "get_envelope bs = Inr (e, r)" "length bs \<le> MAX_ENVELOPE"
  shows "envelope_ok e \<and> (\<exists>b. put_envelope e = Inr b \<and> bs = b @ r)"
  using assms unfolding get_envelope_def
  by (auto elim!: env_gets pbind_get [OF wire_payload]
      simp: put_envelope_def envelope_ok_def split: if_splits)

interpretation wenv: wire put_envelope get_envelope envelope_ok
  by unfold_locales (simp_all add: get_envelope_put put_envelope_get)

end
