(* ===== verification/Signed_Events.thy ===== *)
theory Signed_Events
  imports Envelope
begin

text \<open>
  What the v1 wire format promises about signed events: encoding is injective, decoding accepts
  exactly the canonical encodings with a valid signature, signing produces an event that decodes
  to the signed envelope, and an event id commits to every field of its envelope.
\<close>

section \<open>Preimages\<close>

lemma preimage_Inr:
  "preimage e = Inr w \<longleftrightarrow>
     \<not> subject_key_bad e \<and> put_envelope e = Inr w \<and> length w + 64 \<le> MAX_ENVELOPE"
  by (auto simp: preimage_def guard_eq_Inr rbind_eq_Inr not_less)

lemma preimage_inject:
  assumes "preimage d = Inr w" "preimage e = Inr w" "envelope_ok d" "envelope_ok e"
  shows "d = e"
  using assms unfolding preimage_Inr by (auto intro: wenv.put_inject)

text \<open>
  Where the decoder consumes its whole input, re-encoding reproduces the input, so the
  comparison with the preimage can only refuse an over-long or empty subject-key field.
\<close>

lemma canonical_check_total:
  assumes "get_envelope pre = Inr (e, [])" "length pre + 64 \<le> MAX_ENVELOPE"
  shows "canonical_check e [] pre = (if subject_key_bad e then Inl ''subject_key_encoding'' else Inr ())"
proof -
  from put_envelope_get [OF assms(1)] assms(2) have "put_envelope e = Inr pre" by auto
  with assms(2) show ?thesis by (simp add: canonical_check_def preimage_def not_less)
qed

section \<open>Decoding\<close>

lemma canonical_check_Inr: "canonical_check e rest pre = Inr u \<longleftrightarrow> rest = [] \<and> preimage e = Inr pre"
  by (auto simp: canonical_check_def rbind_eq_Inr)

lemma decode_Inr:
  "decode C bytes = Inr s \<longleftrightarrow> (\<exists>e pre sig. bytes = pre @ sig \<and> length sig = 64 \<and>
     length bytes \<le> MAX_ENVELOPE \<and> envelope_ok e \<and> preimage e = Inr pre \<and>
     key_ok C (env_author e) \<and> verify_strict C (env_author e) pre sig \<and>
     s = \<lparr>sg_envelope = e, sg_id = sha256 C pre, sg_bytes = bytes\<rparr>)" (is "?l = ?r")
proof
  assume l: ?l
  define pre where "pre = take (length bytes - 64) bytes"
  define sig where "sig = drop (length bytes - 64) bytes"
  from l obtain e where "64 \<le> length bytes" "length bytes \<le> MAX_ENVELOPE"
    and get: "get_envelope pre = Inr (e, [])" and "preimage e = Inr pre"
    and "key_ok C (env_author e)" "verify_strict C (env_author e) pre sig"
    and "s = \<lparr>sg_envelope = e, sg_id = sha256 C pre, sg_bytes = bytes\<rparr>"
    by (auto simp: decode_def Let_def guard_eq_Inr rbind_eq_Inr canonical_check_Inr not_less
        pre_def sig_def split: prod.splits)
  moreover from this have "envelope_ok e"
    using put_envelope_get [OF get] by (simp add: pre_def)
  moreover have "bytes = pre @ sig" "length sig = 64"
    using \<open>64 \<le> length bytes\<close> by (simp_all add: pre_def sig_def)
  ultimately show ?r by blast
next
  assume ?r
  then obtain e pre sig where h: "bytes = pre @ sig" "length sig = 64" "length bytes \<le> MAX_ENVELOPE"
    "envelope_ok e" "preimage e = Inr pre" "key_ok C (env_author e)" "verify_strict C (env_author e) pre sig"
    "s = \<lparr>sg_envelope = e, sg_id = sha256 C pre, sg_bytes = bytes\<rparr>" by blast
  then have "get_envelope pre = Inr (e, [])"
    using get_envelope_put [of e pre "[]"] by (simp add: preimage_Inr)
  with h show ?l
    by (simp add: decode_def canonical_check_def)
qed

section \<open>Properties\<close>

text \<open>
  An envelope whose strings are valid UTF-8 and whose preimage encodes is signed
  successfully, and the result is the decoded event: the envelope with the signer as author, the
  id \<open>SHA-256(preimage)\<close>, and the bytes preimage and signature.
\<close>

theorem sign_decode_roundtrip:
  assumes "crypto_laws C" "envelope_ok e"
    and "preimage (e\<lparr>env_author := public_key C sk\<rparr>) = Inr pre"
  shows "sign C sk e = Inr \<lparr>sg_envelope = e\<lparr>env_author := public_key C sk\<rparr>,
    sg_id = sha256 C pre, sg_bytes = pre @ sign_message C sk pre\<rparr>"
proof -
  have "envelope_ok (e\<lparr>env_author := public_key C sk\<rparr>)"
    using assms(2) by (simp add: envelope_ok_def)
  moreover from assms(3) have "length pre + 64 \<le> MAX_ENVELOPE" by (simp add: preimage_Inr)
  ultimately have "decode C (pre @ sign_message C sk pre) = Inr \<lparr>sg_envelope = e\<lparr>env_author := public_key C sk\<rparr>,
    sg_id = sha256 C pre, sg_bytes = pre @ sign_message C sk pre\<rparr>"
    using assms(1,3) unfolding decode_Inr crypto_laws_def by auto
  then show ?thesis by (simp add: sign_def assms(3))
qed

text \<open>
  C6: decoding accepts exactly the canonical signed encodings. A byte string is accepted if
  and only if it is the preimage of a well-formed envelope followed by 64 bytes that verify under
  the envelope's author, within the size limit; then the decoded event carries that envelope, the
  hash of that preimage and the input bytes themselves.
\<close>

theorem decode_exact:
  "decode C bytes = Inr s \<longleftrightarrow> (\<exists>e pre sig. bytes = pre @ sig \<and> length sig = 64 \<and>
     length bytes \<le> MAX_ENVELOPE \<and> envelope_ok e \<and> preimage e = Inr pre \<and>
     key_ok C (env_author e) \<and> verify_strict C (env_author e) pre sig \<and>
     s = \<lparr>sg_envelope = e, sg_id = sha256 C pre, sg_bytes = bytes\<rparr>)"
  by (rule decode_Inr)

text \<open>
  The event id commits to the whole envelope. Where SHA-256 does not collide on the two
  preimages, two accepted events have the same id if and only if their envelopes agree in every
  field; so events that share an id differ at most in their signature bytes.
\<close>

theorem event_id_commits:
  assumes "decode C b1 = Inr s1" "decode C b2 = Inr s2"
    and no_collision: "\<And>p q. preimage (sg_envelope s1) = Inr p \<Longrightarrow> preimage (sg_envelope s2) = Inr q \<Longrightarrow>
      sha256 C p = sha256 C q \<Longrightarrow> p = q"
  shows "sg_id s1 = sg_id s2 \<longleftrightarrow> sg_envelope s1 = sg_envelope s2"
proof -
  from assms(1,2) obtain p q where
    "preimage (sg_envelope s1) = Inr p" "sg_id s1 = sha256 C p" "envelope_ok (sg_envelope s1)"
    "preimage (sg_envelope s2) = Inr q" "sg_id s2 = sha256 C q" "envelope_ok (sg_envelope s2)"
    unfolding decode_Inr by auto
  then show ?thesis using no_collision preimage_inject by (metis sum.inject(2))
qed

section \<open>A sample event\<close>

text \<open>A toy signature scheme and a family of Genesis envelopes, for the witnesses.\<close>

definition sample_crypto :: "hash crypto" where
  "sample_crypto = \<lparr>sha256 = (\<lambda>bs. from_be_bytes (drop (length bs - 32) bs) + 1), key_ok = (\<lambda>_. True),
     verify_strict = (\<lambda>k m s. s = replicate 64 0), public_key = id,
     sign_message = (\<lambda>k m. replicate 64 0)\<rparr>"

definition sample_genesis :: "hash \<Rightarrow> envelope" where
  "sample_genesis h = \<lparr>env_instance = 9, env_author = 7, env_subject = None,
     env_subject_key = Some \<lparr>key_kind = ''person'', key_namespace = ''wikidata'', key_value = ''Q7251''\<rparr>,
     env_grant = None, env_parents = [], env_asserted_time = None,
     env_payload = Genesis 1 2 [h]\<rparr>"

lemma sample_crypto_simps [simp]:
  "sha256 sample_crypto bs = from_be_bytes (drop (length bs - 32) bs) + 1" "key_ok sample_crypto k"
  "verify_strict sample_crypto k m s \<longleftrightarrow> s = replicate 64 0" "public_key sample_crypto k = k"
  "sign_message sample_crypto k m = replicate 64 0"
  by (simp_all add: sample_crypto_def)

lemma sample_crypto_laws: "crypto_laws sample_crypto"
  by (simp add: crypto_laws_def)

lemma sample_strings [simp]: "str_ok ''person''" "str_ok ''wikidata''" "str_ok ''Q7251''"
  by code_simp+

lemma sample_genesis_ok [simp]: "envelope_ok (sample_genesis h)"
  by (simp add: envelope_ok_def sample_genesis_def subject_key_ok_def)

lemma length_hash_bytes [simp]: "length (hash_bytes h) = 32"
  by (simp add: hash_bytes_def)

lemma sample_genesis_preimage: "\<exists>w. preimage (sample_genesis h) = Inr (w @ hash_bytes h)"
  by (simp add: preimage_def sample_genesis_def subject_key_bad_def key_field_bad_def put_envelope_def
      put_string_def put_u16_def put_u32_def put_kind_def put_hash_def put_option_def put_bool_def
      put_subject_key_def put_set_def guard_def MAX_ENVELOPE_def MAX_SET_def flip: append_assoc)

text \<open>The hash of a sample is one more than its last evidence entry.\<close>

lemma sample_genesis_id: "preimage (sample_genesis h) = Inr w \<Longrightarrow> sha256 sample_crypto w = h + 1"
  using sample_genesis_preimage [of h] by (auto simp: hash_bytes_def from_to_be_bytes)

definition sample_wire :: "hash \<Rightarrow> byte list" where
  "sample_wire h = projr (preimage (sample_genesis h)) @ replicate 64 0"

definition sample_signed :: "hash \<Rightarrow> signed" where
  "sample_signed h = \<lparr>sg_envelope = sample_genesis h, sg_id = h + 1, sg_bytes = sample_wire h\<rparr>"

lemma sample_decode: "decode sample_crypto (sample_wire h) = Inr (sample_signed h)"
proof -
  obtain w where w: "preimage (sample_genesis h) = Inr w" using sample_genesis_preimage by blast
  then have "length w + 64 \<le> MAX_ENVELOPE" by (simp add: preimage_Inr)
  with w sample_genesis_id [OF w] show ?thesis unfolding decode_Inr
    by (intro exI [of _ "sample_genesis h"] exI [of _ w] exI [of _ "replicate 64 0"])
      (simp add: sample_wire_def sample_signed_def)
qed

theorem sign_decode_roundtrip_witness:
  "\<exists>pre. preimage (sample_genesis 4) = Inr pre \<and> sign sample_crypto 7 (sample_genesis 4) =
     Inr \<lparr>sg_envelope = sample_genesis 4, sg_id = 5, sg_bytes = pre @ replicate 64 0\<rparr>"
proof -
  obtain w where w: "preimage (sample_genesis 4) = Inr w" using sample_genesis_preimage by blast
  have upd: "(sample_genesis 4)\<lparr>env_author := 7\<rparr> = sample_genesis 4"
    by (simp add: sample_genesis_def)
  show ?thesis
    using sign_decode_roundtrip [of sample_crypto "sample_genesis 4" 7 w] sample_crypto_laws w
      sample_genesis_id [OF w] by (simp add: upd)
qed

text \<open>Two samples with different bodies have different ids.\<close>

theorem event_id_commits_witness:
  "sg_id (sample_signed 4) \<noteq> sg_id (sample_signed 5) \<and>
   (sg_id (sample_signed 4) = sg_id (sample_signed 5) \<longleftrightarrow>
      sg_envelope (sample_signed 4) = sg_envelope (sample_signed 5))"
proof
  show "sg_id (sample_signed 4) = sg_id (sample_signed 5) \<longleftrightarrow>
      sg_envelope (sample_signed 4) = sg_envelope (sample_signed 5)"
  proof (rule event_id_commits [OF sample_decode sample_decode])
    fix p q
    assume "preimage (sg_envelope (sample_signed 4)) = Inr p" "preimage (sg_envelope (sample_signed 5)) = Inr q"
      and "sha256 sample_crypto p = sha256 sample_crypto q"
    then show "p = q" using sample_genesis_id [of 4 p] sample_genesis_id [of 5 q]
      by (simp add: sample_signed_def)
  qed
qed (simp add: sample_signed_def)

end
