(* ===== verification/Control.thy ===== *)
theory Control
  imports Prelude
begin

text \<open>
  The control flow of the ledger code in the option monad: \<open>for\<close> over a key list, \<open>while\<close>
  loops that may not end (\<^term>\<open>None\<close>), \<open>filter\<close> and \<open>any\<close> with a predicate that may panic.
  The interface \<open>scheduler\<close> is the shape of the four dependency-scheduling loops of the ledger:
  a pass over all ids that processes every id whose dependencies are processed, repeated until
  all ids are processed. Its clients get that the loop ends and what it leaves.
\<close>

section \<open>Loops\<close>

fun for_each :: "('a \<Rightarrow> 's \<Rightarrow> 's option) \<Rightarrow> 'a list \<Rightarrow> 's \<Rightarrow> 's option" where
  "for_each f [] s = Some s"
| "for_each f (x # xs) s = Option.bind (f x s) (for_each f xs)"

partial_function (option) while_loop :: "('s \<Rightarrow> bool) \<Rightarrow> ('s \<Rightarrow> 's option) \<Rightarrow> 's \<Rightarrow> 's option" where
  [code]: "while_loop c f s = (if c s then Option.bind (f s) (while_loop c f) else Some s)"

fun filterM :: "('a \<Rightarrow> bool option) \<Rightarrow> 'a list \<Rightarrow> 'a list option" where
  "filterM f [] = Some []"
| "filterM f (x # xs) = do {b \<leftarrow> f x; ys \<leftarrow> filterM f xs; Some (if b then x # ys else ys)}"

fun anyM :: "('a \<Rightarrow> bool option) \<Rightarrow> 'a list \<Rightarrow> bool option" where
  "anyM f [] = Some False"
| "anyM f (x # xs) = do {b \<leftarrow> f x; if b then Some True else anyM f xs}"

fun mapM :: "('a \<Rightarrow> 'b option) \<Rightarrow> 'a list \<Rightarrow> 'b list option" where
  "mapM f [] = Some []"
| "mapM f (x # xs) = do {y \<leftarrow> f x; ys \<leftarrow> mapM f xs; Some (y # ys)}"

lemma for_each_append: "for_each f (xs @ ys) s = Option.bind (for_each f xs s) (for_each f ys)"
  by (induction xs arbitrary: s) (auto split: bind_split)

lemma filterM_Some: "(\<And>x. x \<in> set xs \<Longrightarrow> f x = Some (g x)) \<Longrightarrow> filterM f xs = Some (filter g xs)"
  by (induction xs) auto

lemma anyM_Some: "(\<And>x. x \<in> set xs \<Longrightarrow> f x = Some (g x)) \<Longrightarrow> anyM f xs = Some (\<exists>x\<in>set xs. g x)"
  by (induction xs) auto

lemma mapM_Some: "(\<And>x. x \<in> set xs \<Longrightarrow> f x = Some (g x)) \<Longrightarrow> mapM f xs = Some (map g xs)"
  by (induction xs) auto

text \<open>
  The rule for a \<open>for\<close> loop: an invariant indexed by the elements already visited.
\<close>

lemma for_each_rule:
  assumes "I [] s"
    and "\<And>pre x post s. xs = pre @ x # post \<Longrightarrow> I pre s \<Longrightarrow> \<exists>s'. f x s = Some s' \<and> I (pre @ [x]) s'"
  shows "\<exists>s'. for_each f xs s = Some s' \<and> I xs s'"
proof -
  have "xs = pre @ post \<Longrightarrow> I pre s \<Longrightarrow> \<exists>s'. for_each f post s = Some s' \<and> I xs s'" for pre post s
  proof (induction post arbitrary: pre s)
    case (Cons x post)
    from assms(2) [OF Cons.prems] obtain s' where "f x s = Some s'" "I (pre @ [x]) s'" by blast
    with Cons.IH [of "pre @ [x]" s'] Cons.prems(1) show ?case by simp
  qed simp
  from this [of "[]" xs s] assms(1) show ?thesis by simp
qed

lemma for_each_Some: "(\<And>x s. x \<in> set xs \<Longrightarrow> f x s = Some (g x s)) \<Longrightarrow> for_each f xs s = Some (fold g xs s)"
  by (induction xs arbitrary: s) auto

text \<open>Partial correctness: if the loop returns, the invariant holds at the end.\<close>

lemma for_each_invar:
  "for_each f xs s = Some s' \<Longrightarrow> I s \<Longrightarrow> (\<And>x s s'. x \<in> set xs \<Longrightarrow> I s \<Longrightarrow> f x s = Some s' \<Longrightarrow> I s') \<Longrightarrow> I s'"
proof (induction xs arbitrary: s)
  case (Cons x xs)
  from Cons.prems(1) obtain t where t: "f x s = Some t" "for_each f xs t = Some s'"
    by (auto split: bind_splits)
  show ?case
  proof (rule Cons.IH [OF t(2)])
    show "I t" using Cons.prems(2,3) t(1) by (meson list.set_intros(1))
    show "\<And>y s s'. y \<in> set xs \<Longrightarrow> I s \<Longrightarrow> f y s = Some s' \<Longrightarrow> I s'"
      using Cons.prems(3) by (meson list.set_intros(2))
  qed
qed simp

text \<open>The rule for a \<open>while\<close> loop: an invariant and a measure that every iteration decreases.\<close>

lemma while_loop_rule:
  assumes "I s"
    and step: "\<And>s. I s \<Longrightarrow> c s \<Longrightarrow> \<exists>s'. f s = Some s' \<and> I s' \<and> (m s' :: nat) < m s"
  shows "\<exists>s'. while_loop c f s = Some s' \<and> I s' \<and> \<not> c s'"
  using assms(1)
proof (induction "m s" arbitrary: s rule: less_induct)
  case less
  show ?case
  proof (cases "c s")
    case True
    with step [OF less.prems] obtain s' where s': "f s = Some s'" "I s'" "m s' < m s" by blast
    from less.hyps [OF s'(3,2)] s'(1) True show ?thesis
      by (subst while_loop.simps) simp
  next
    case False
    then show ?thesis using less.prems by (subst while_loop.simps) simp
  qed
qed

lemma while_loop_invar:
  assumes "while_loop c f s = Some s'" "I s" "\<And>s s'. I s \<Longrightarrow> c s \<Longrightarrow> f s = Some s' \<Longrightarrow> I s'"
  shows "I s' \<and> \<not> c s'"
proof -
  have "I s \<longrightarrow> (\<forall>s s'. I s \<longrightarrow> c s \<longrightarrow> f s = Some s' \<longrightarrow> I s') \<longrightarrow> I s' \<and> \<not> c s'"
  proof (rule while_loop.raw_induct [OF _ assms(1)])
    fix w c f s y
    assume IH: "\<And>c f s y. w c f s = Some y \<Longrightarrow>
        I s \<longrightarrow> (\<forall>s s'. I s \<longrightarrow> c s \<longrightarrow> f s = Some s' \<longrightarrow> I s') \<longrightarrow> I y \<and> \<not> c y"
      and y: "(if c s then f s \<bind> w c f else Some s) = Some y"
    show "I s \<longrightarrow> (\<forall>s s'. I s \<longrightarrow> c s \<longrightarrow> f s = Some s' \<longrightarrow> I s') \<longrightarrow> I y \<and> \<not> c y"
    proof (cases "c s")
      case True
      with y obtain t where "f s = Some t" "w c f t = Some y" by (cases "f s") auto
      with IH [of c f t y] True show ?thesis by metis
    qed (use y in simp)
  qed
  with assms(2,3) show ?thesis by blast
qed

section \<open>Sweeps and schedulers\<close>

text \<open>
  A sweep visits every id once; the body may leave an id for a later sweep. \<open>fin\<close> is the set
  of ids processed so far and \<open>inv\<close> what holds of the results between two visits.
\<close>

locale sweep =
  fixes ids :: "'k list"
    and body :: "'k \<Rightarrow> 's \<Rightarrow> 's option"
    and fin :: "'s \<Rightarrow> 'k set"
    and inv :: "'s \<Rightarrow> bool"
  assumes body_step: "\<And>id s. id \<in> set ids \<Longrightarrow> inv s \<Longrightarrow>
    \<exists>s'. body id s = Some s' \<and> inv s' \<and> fin s \<subseteq> fin s' \<and> fin s' \<subseteq> insert id (fin s)"
begin

lemma sweep_prefix:
  assumes "inv s" "set xs \<subseteq> set ids"
  shows "\<exists>s'. for_each body xs s = Some s' \<and> inv s' \<and> fin s \<subseteq> fin s' \<and> fin s' \<subseteq> fin s \<union> set xs"
  using assms
proof (induction xs arbitrary: s)
  case (Cons x xs)
  from Cons.prems body_step [of x s] obtain t where
    t: "body x s = Some t" "inv t" "fin s \<subseteq> fin t" "fin t \<subseteq> insert x (fin s)" by auto
  from Cons.IH [OF t(2)] Cons.prems(2) obtain s' where
    "for_each body xs t = Some s'" "inv s'" "fin t \<subseteq> fin s'" "fin s' \<subseteq> fin t \<union> set xs" by auto
  with t show ?case by auto
qed auto

lemma sweep_all:
  "inv s \<Longrightarrow> \<exists>s'. for_each body ids s = Some s' \<and> inv s' \<and> fin s \<subseteq> fin s' \<and> fin s' \<subseteq> fin s \<union> set ids"
  using sweep_prefix by blast

text \<open>The state in which a given id is visited.\<close>

lemma sweep_visit:
  assumes "inv s" "k \<in> set ids"
  obtains t t' s' where "inv t" "fin s \<subseteq> fin t" "body k t = Some t'" "inv t'" "fin t' \<subseteq> fin s'"
    "for_each body ids s = Some s'"
proof -
  from assms(2) obtain pre post where ids: "ids = pre @ k # post" by (meson split_list)
  from sweep_prefix [OF assms(1), of pre] obtain t where
    t: "for_each body pre s = Some t" "inv t" "fin s \<subseteq> fin t" by (auto simp: ids)
  from body_step [OF assms(2) t(2)] obtain t' where t': "body k t = Some t'" "inv t'" by blast
  from sweep_prefix [OF t'(2), of post] obtain s' where
    s': "for_each body post t' = Some s'" "fin t' \<subseteq> fin s'" by (auto simp: ids)
  have "for_each body ids s = Some s'" by (simp add: ids for_each_append t t' s')
  with t t' s' that show thesis by blast
qed

end

text \<open>
  A scheduler is a sweep whose body processes an id as soon as everything it depends on is
  processed, for a well-founded dependency.
\<close>

locale scheduler = sweep +
  fixes dep :: "('k \<times> 'k) set"
  assumes dep_wf: "wf dep"
    and dep_closed: "\<And>p id. (p, id) \<in> dep \<Longrightarrow> id \<in> set ids \<Longrightarrow> p \<in> set ids"
    and body_progress: "\<And>id s s'. id \<in> set ids \<Longrightarrow> inv s \<Longrightarrow> body id s = Some s' \<Longrightarrow>
      (\<And>p. (p, id) \<in> dep \<Longrightarrow> p \<in> fin s) \<Longrightarrow> id \<in> fin s'"
begin

lemma sweep_progress:
  assumes "inv s" "\<not> set ids \<subseteq> fin s" "for_each body ids s = Some s'"
  shows "\<exists>id\<in>set ids. id \<in> fin s' \<and> id \<notin> fin s"
proof -
  from assms(2) obtain z where "z \<in> set ids - fin s" by blast
  then obtain m where m: "m \<in> set ids - fin s"
    and least: "\<And>y. (y, m) \<in> dep \<Longrightarrow> y \<notin> set ids - fin s"
    using wfE_min [OF dep_wf] by metis
  then have deps: "p \<in> fin s" if "(p, m) \<in> dep" for p
    using that dep_closed by blast
  obtain t t' s'' where t: "inv t" "fin s \<subseteq> fin t" "body m t = Some t'" "inv t'" "fin t' \<subseteq> fin s''"
    "for_each body ids s = Some s''"
    using sweep_visit [of s m] assms(1) m by blast
  with deps m have "m \<in> fin t'" using body_progress [of m t t'] by blast
  with t assms(3) m show ?thesis by auto
qed

lemma schedule_all:
  assumes "inv s" "fin s \<subseteq> set ids"
    and cond: "\<And>s. inv s \<Longrightarrow> fin s \<subseteq> set ids \<Longrightarrow> c s \<longleftrightarrow> \<not> set ids \<subseteq> fin s"
  shows "\<exists>s'. while_loop c (for_each body ids) s = Some s' \<and> inv s' \<and> fin s' = set ids"
proof -
  let ?I = "\<lambda>s. inv s \<and> fin s \<subseteq> set ids"
  have "\<exists>s'. while_loop c (for_each body ids) s = Some s' \<and> ?I s' \<and> \<not> c s'"
  proof (rule while_loop_rule [where m = "\<lambda>s. card (set ids - fin s)"])
    fix s assume I: "?I s" and c: "c s"
    with sweep_all [of s] obtain s' where s': "for_each body ids s = Some s'" "inv s'"
      "fin s \<subseteq> fin s'" "fin s' \<subseteq> fin s \<union> set ids" by blast
    moreover have "\<exists>id\<in>set ids. id \<in> fin s' \<and> id \<notin> fin s"
      using I c cond [of s] sweep_progress [OF _ _ s'(1)] by blast
    then have "card (set ids - fin s') < card (set ids - fin s)"
      using s'(3) by (intro psubset_card_mono) auto
    ultimately show "\<exists>s'. for_each body ids s = Some s' \<and> ?I s' \<and>
        card (set ids - fin s') < card (set ids - fin s)"
      using I by blast
  qed (use assms(1,2) in blast)
  then obtain s' where "while_loop c (for_each body ids) s = Some s'" "?I s'" "\<not> c s'" by blast
  with cond [of s'] show ?thesis by blast
qed

end

end
