(* ===== verification/Causality.thy ===== *)
theory Causality
  imports Control Envelope
begin

text \<open>
  A corpus of signed events, keyed by event id, and causality between them: an event follows the
  parents its envelope names. \<open>cone\<close> of \<^verbatim>\<open>crates/cc-ledger/src/v1/authority.rs\<close> collects the
  reflexive causal past of an event with a stack; it is shown to compute exactly that past, and
  to panic exactly when the past is not retained.
\<close>

section \<open>Corpora\<close>

type_synonym corpus = "(hash, signed) fmap"

abbreviation envelope_of :: "signed \<Rightarrow> envelope" where
  "envelope_of \<equiv> sg_envelope"

abbreviation parents_of :: "signed \<Rightarrow> hash list" where
  "parents_of ev \<equiv> env_parents (sg_envelope ev)"

abbreviation payload_of :: "signed \<Rightarrow> payload" where
  "payload_of ev \<equiv> env_payload (sg_envelope ev)"

section \<open>Causal cones\<close>

text \<open>
  The loop of \<open>cone\<close>. The vector \<open>todo\<close> is a stack; its top is the head of the list, so
  \<open>extend\<close> puts the parents in reverse order in front.
\<close>

function cone_loop :: "corpus \<Rightarrow> hash list \<Rightarrow> corpus \<Rightarrow> corpus option" where
  "cone_loop all [] found = Some found"
| "cone_loop all (eid # todo) found =
     (if has found eid then cone_loop all todo found
      else case fmlookup all eid of None \<Rightarrow> None
        | Some e \<Rightarrow> cone_loop all (rev (parents_of e) @ todo) (fmupd eid e found))"
  by pat_completeness auto

lemma finite_fmdom' [simp]: "finite (fmdom' m)"
  by (simp add: fmdom'_alt_def)

termination cone_loop
proof (relation "measures [\<lambda>(all, todo, found). card (fmdom' all - fmdom' found), \<lambda>(all, todo, found). length todo]")
  fix all found :: corpus and eid todo e
  assume "\<not> has found eid" "fmlookup all eid = Some e"
  then have "eid \<in> fmdom' all - fmdom' found" by (simp add: has_iff fmdom'I)
  then have "fmdom' all - fmdom' (fmupd eid e found) \<subset> fmdom' all - fmdom' found"
    by (simp only: fmdom'_fmupd) blast
  then have "card (fmdom' all - fmdom' (fmupd eid e found)) < card (fmdom' all - fmdom' found)"
    by (intro psubset_card_mono) auto
  then show "((all, rev (parents_of e) @ todo, fmupd eid e found), all, eid # todo, found)
      \<in> measures [\<lambda>(all, todo, found). card (fmdom' all - fmdom' found), \<lambda>(all, todo, found). length todo]"
    by simp
qed auto

definition cone :: "corpus \<Rightarrow> hash \<Rightarrow> corpus option" where
  "cone all head = cone_loop all [head] fmempty"

section \<open>Causal past\<close>

definition parent_rel :: "corpus \<Rightarrow> (hash \<times> hash) set" where
  "parent_rel all = {(p, c). \<exists>ev. fmlookup all c = Some ev \<and> p \<in> set (parents_of ev)}"

definition anc :: "corpus \<Rightarrow> hash \<Rightarrow> hash set" where
  "anc all h = {x. (x, h) \<in> (parent_rel all)\<^sup>*}"

definition causally_closed :: "corpus \<Rightarrow> bool" where
  "causally_closed all \<longleftrightarrow> (\<forall>c ev. fmlookup all c = Some ev \<longrightarrow> set (parents_of ev) \<subseteq> fmdom' all)"

lemma anc_refl [simp]: "h \<in> anc all h"
  by (simp add: anc_def)

lemma anc_trans: "x \<in> anc all y \<Longrightarrow> y \<in> anc all z \<Longrightarrow> x \<in> anc all z"
  by (simp add: anc_def)

lemma anc_parent: "fmlookup all c = Some ev \<Longrightarrow> p \<in> set (parents_of ev) \<Longrightarrow> anc all p \<subseteq> anc all c"
  by (auto simp: anc_def parent_rel_def intro: rtrancl_into_rtrancl)

lemma anc_unfold:
  assumes "fmlookup all h = Some ev"
  shows "anc all h = insert h (\<Union>p\<in>set (parents_of ev). anc all p)"
proof
  show "anc all h \<subseteq> insert h (\<Union>p\<in>set (parents_of ev). anc all p)"
  proof
    fix x assume "x \<in> anc all h"
    then have "(x, h) \<in> (parent_rel all)\<^sup>*" by (simp add: anc_def)
    then show "x \<in> insert h (\<Union>p\<in>set (parents_of ev). anc all p)"
      by (cases rule: rtranclE) (use assms in \<open>auto simp: parent_rel_def anc_def\<close>)
  qed
  show "insert h (\<Union>p\<in>set (parents_of ev). anc all p) \<subseteq> anc all h"
    using anc_parent [OF assms] by auto
qed

lemma anc_missing: "fmlookup all h = None \<Longrightarrow> anc all h = {h}"
  by (auto simp: anc_def parent_rel_def elim: rtranclE)

lemma anc_induct [consumes 1, case_names refl step]:
  assumes "x \<in> anc all h" "P h"
    and "\<And>c ev p. c \<in> anc all h \<Longrightarrow> P c \<Longrightarrow> fmlookup all c = Some ev \<Longrightarrow> p \<in> set (parents_of ev) \<Longrightarrow> P p"
  shows "P x"
proof -
  have "(x, h) \<in> (parent_rel all)\<^sup>*" using assms(1) by (simp add: anc_def)
  then have "x \<in> anc all h \<and> P x"
  proof (induction rule: converse_rtrancl_induct)
    case (step p c)
    then obtain ev where "fmlookup all c = Some ev" "p \<in> set (parents_of ev)"
      by (auto simp: parent_rel_def)
    moreover from this step have "p \<in> anc all h" using anc_parent [of all c ev p] anc_trans [of p all p] by (meson anc_refl anc_trans subsetD)
    ultimately show ?case using step assms(3) by blast
  qed (simp add: assms(2))
  then show ?thesis ..
qed

lemma causally_closedD:
  "causally_closed all \<Longrightarrow> fmlookup all c = Some ev \<Longrightarrow> p \<in> set (parents_of ev) \<Longrightarrow> p \<in> fmdom' all"
  by (auto simp: causally_closed_def)

lemma anc_closed:
  assumes "causally_closed all" "h \<in> fmdom' all"
  shows "anc all h \<subseteq> fmdom' all"
proof
  fix x assume "x \<in> anc all h"
  then show "x \<in> fmdom' all"
    by (induction rule: anc_induct) (use assms causally_closedD in blast)+
qed

section \<open>The cone is the causal past\<close>

lemma stack_closed:
  assumes "\<And>x ev. fmlookup found x = Some ev \<Longrightarrow> fmlookup all x = Some ev \<and>
      set (parents_of ev) \<subseteq> fmdom' found \<union> set todo"
    and "x \<in> fmdom' found"
  shows "anc all x \<subseteq> fmdom' found \<union> (\<Union>t\<in>set todo. anc all t)"
proof
  fix y assume "y \<in> anc all x"
  then show "y \<in> fmdom' found \<union> (\<Union>t\<in>set todo. anc all t)"
  proof (induction rule: anc_induct)
    case (step c ev p)
    then consider "c \<in> fmdom' found" | t where "t \<in> set todo" "c \<in> anc all t" by blast
    then show ?case
    proof cases
      case 1
      then obtain ev' where "fmlookup found c = Some ev'" by (rule in_domE)
      with assms(1) [of c ev'] step have "p \<in> fmdom' found \<union> set todo" by auto
      then show ?thesis using anc_refl [of p all] by blast
    next
      case 2
      with step have "p \<in> anc all t" using anc_parent [of all c ev p] by (meson anc_refl anc_trans subsetD)
      with 2 show ?thesis by blast
    qed
  qed (simp add: assms(2))
qed

lemma cone_loop_correct:
  assumes "\<And>x ev. fmlookup found x = Some ev \<Longrightarrow> fmlookup all x = Some ev \<and>
      set (parents_of ev) \<subseteq> fmdom' found \<union> set todo"
  shows "cone_loop all todo found =
    (if (\<Union>t\<in>set todo. anc all t) \<subseteq> fmdom' all
     then Some (fmrestrict_set (fmdom' found \<union> (\<Union>t\<in>set todo. anc all t)) all) else None)"
  using assms
proof (induction all todo found rule: cone_loop.induct)
  case (1 all found)
  have "found = fmrestrict_set (fmdom' found) all"
  proof (rule fmap_ext)
    fix x show "fmlookup found x = fmlookup (fmrestrict_set (fmdom' found) all) x"
      using 1 [of x] by (cases "fmlookup found x") (auto simp: fmlookup_dom'_iff)
  qed
  then show ?case by simp
next
  case (2 all eid todo found)
  show ?case
  proof (cases "has found eid")
    case True
    then have dom: "eid \<in> fmdom' found" by (simp add: has_iff)
    with 2(3) have inv: "\<And>x ev. fmlookup found x = Some ev \<Longrightarrow> fmlookup all x = Some ev \<and>
      set (parents_of ev) \<subseteq> fmdom' found \<union> set todo" by auto
    from stack_closed [OF inv dom] have sub: "anc all eid \<subseteq> fmdom' found \<union> (\<Union>t\<in>set todo. anc all t)" .
    moreover have "fmdom' found \<subseteq> fmdom' all" using inv by (auto elim!: in_domE intro: fmdom'I)
    ultimately have "(\<Union>t\<in>set (eid # todo). anc all t) \<subseteq> fmdom' all \<longleftrightarrow> (\<Union>t\<in>set todo. anc all t) \<subseteq> fmdom' all"
      by auto
    moreover from sub have "fmdom' found \<union> (\<Union>t\<in>set (eid # todo). anc all t) = fmdom' found \<union> (\<Union>t\<in>set todo. anc all t)"
      by auto
    ultimately show ?thesis using 2(1) [OF True inv] True by simp
  next
    case False
    show ?thesis
    proof (cases "fmlookup all eid")
      case None
      then have "eid \<notin> fmdom' all" by (simp add: fmdom'_notI)
      then have "\<not> (\<Union>t\<in>set (eid # todo). anc all t) \<subseteq> fmdom' all" using anc_missing [OF None] by auto
      then show ?thesis using False None by simp
    next
      case (Some e)
      have inv: "fmlookup all x = Some ev \<and> set (parents_of ev) \<subseteq>
          fmdom' (fmupd eid e found) \<union> set (rev (parents_of e) @ todo)"
        if "fmlookup (fmupd eid e found) x = Some ev" for x ev
        using that Some 2(3) [of x ev] by (auto split: if_splits)
      have anc: "anc all eid = insert eid (\<Union>p\<in>set (parents_of e). anc all p)" by (rule anc_unfold [OF Some])
      moreover have "eid \<in> fmdom' all" using Some by (rule fmdom'I)
      ultimately have "(\<Union>t\<in>set (eid # todo). anc all t) \<subseteq> fmdom' all \<longleftrightarrow>
          (\<Union>t\<in>set (rev (parents_of e) @ todo). anc all t) \<subseteq> fmdom' all" by auto
      moreover have "fmdom' found \<union> (\<Union>t\<in>set (eid # todo). anc all t) =
          fmdom' (fmupd eid e found) \<union> (\<Union>t\<in>set (rev (parents_of e) @ todo). anc all t)"
        using anc by auto
      ultimately show ?thesis using 2(2) [OF False Some inv] False Some by simp
    qed
  qed
qed

lemma cone_eq:
  "cone all h = (if anc all h \<subseteq> fmdom' all then Some (fmrestrict_set (anc all h) all) else None)"
  using cone_loop_correct [of fmempty all "[h]"] by (simp add: cone_def)

end
