(* ===== verification/Authority.thy ===== *)
theory Authority
  imports Causality
begin

text \<open>
  Authority over branch-valid subject events (\<^verbatim>\<open>crates/cc-ledger/src/v1/authority.rs\<close>): the
  grants a causally closed set of events issues, which revocations are effective, and the effect
  each event keeps. A missing map key, an empty parent list where
  one is indexed and a loop that does not end are \<^term>\<open>None\<close>.
\<close>

section \<open>Data\<close>

record grant =
  g_issued_by_event :: hash
  g_issuer :: "hash option"
  g_holder :: hash
  g_subject :: hash

record effect =
  ef_reason :: string
  ef_controlling_revokes :: "hash set"

record authority =
  au_grants :: "(hash, grant) fmap"
  au_active :: "hash set"
  au_tombstones :: "hash set"
  au_effective_revokes :: "hash set"
  au_canceled :: "hash set"
  au_effects :: "(hash, effect) fmap"

section \<open>Signers\<close>

definition signer :: "(byte list \<Rightarrow> hash) \<Rightarrow> hash \<Rightarrow> signed \<Rightarrow> hash" where
  "signer H eid event = (case env_grant (envelope_of event) of Some g \<Rightarrow> g | None \<Rightarrow> root_grant H eid)"

section \<open>Grants and their lineage\<close>

text \<open>The state of the scheduling loop of \<open>derive\<close>.\<close>

record index =
  ix_ancestors :: "(hash, hash set) fmap"
  ix_lineage :: "(hash, hash set) fmap"
  ix_grants :: "(hash, grant) fmap"

definition issued :: "(byte list \<Rightarrow> hash) \<Rightarrow> hash \<Rightarrow> envelope \<Rightarrow> (hash \<times> grant) option option" where
  "issued H eid e = (case env_payload e of
     Genesis _ _ _ \<Rightarrow> Some (Some (root_grant H eid,
       \<lparr>g_issued_by_event = eid, g_issuer = None, g_holder = env_author e, g_subject = eid\<rparr>))
   | Delegate grantee issuer _ \<Rightarrow> do {
       subject \<leftarrow> env_subject e;
       Some (Some (eid, \<lparr>g_issued_by_event = eid, g_issuer = Some issuer, g_holder = grantee,
         g_subject = subject\<rparr>))}
   | _ \<Rightarrow> Some None)"

definition index_event :: "(byte list \<Rightarrow> hash) \<Rightarrow> corpus \<Rightarrow> hash \<Rightarrow> index \<Rightarrow> index option" where
  "index_event H valid eid st = do {
     event \<leftarrow> fmlookup valid eid;
     if has (ix_ancestors st) eid \<or> list_ex (\<lambda>p. \<not> has (ix_ancestors st) p) (parents_of event) then Some st
     else do {
       pasts \<leftarrow> mapM (fmlookup (ix_ancestors st)) (parents_of event);
       let st = st\<lparr>ix_ancestors := fmupd eid (insert eid (\<Union>(set pasts))) (ix_ancestors st)\<rparr>;
       grant \<leftarrow> issued H eid (envelope_of event);
       (case grant of None \<Rightarrow> Some st
        | Some (g, grant) \<Rightarrow> do {
            path \<leftarrow> (case g_issuer grant of None \<Rightarrow> Some {} | Some i \<Rightarrow> fmlookup (ix_lineage st) i);
            Some (st\<lparr>ix_lineage := fmupd g (insert g path) (ix_lineage st),
              ix_grants := fmupd g grant (ix_grants st)\<rparr>)})}}"

definition fm_len :: "('k, 'v) fmap \<Rightarrow> nat" where
  "fm_len m = fcard (fmdom m)"

definition index_events :: "(byte list \<Rightarrow> hash) \<Rightarrow> corpus \<Rightarrow> index option" where
  "index_events H valid =
     while_loop (\<lambda>st. fm_len (ix_ancestors st) < fm_len valid) (for_each (index_event H valid) (keys valid))
       \<lparr>ix_ancestors = fmempty, ix_lineage = fmempty, ix_grants = fmempty\<rparr>"

section \<open>Revocations\<close>

definition revoke_of :: "corpus \<Rightarrow> hash \<Rightarrow> (hash \<times> bool) option" where
  "revoke_of valid eid = do {
     event \<leftarrow> fmlookup valid eid;
     (case payload_of event of Revoke target cascade _ \<Rightarrow> Some (target, cascade) | _ \<Rightarrow> None)}"

definition revokes :: "corpus \<Rightarrow> hash list" where
  "revokes valid = filter (\<lambda>eid. revoke_of valid eid \<noteq> None) (keys valid)"

definition covers :: "corpus \<Rightarrow> index \<Rightarrow> hash \<Rightarrow> hash \<Rightarrow> bool option" where
  "covers valid ix r g = do {
     (target, cascade) \<leftarrow> revoke_of valid r;
     if target = g then Some True
     else if cascade then do {path \<leftarrow> fmlookup (ix_lineage ix) g; Some (target \<in> path)}
     else Some False}"

definition outside :: "corpus \<Rightarrow> index \<Rightarrow> hash \<Rightarrow> hash \<Rightarrow> bool option" where
  "outside valid ix e r = do {
     event \<leftarrow> fmlookup valid r;
     p \<leftarrow> (case parents_of event of [] \<Rightarrow> None | p # _ \<Rightarrow> Some p);
     past \<leftarrow> fmlookup (ix_ancestors ix) p;
     Some (e \<notin> past)}"

text \<open>\<open>covers(r, g) && outside(e, r)\<close>\<close>

definition controls :: "corpus \<Rightarrow> index \<Rightarrow> hash \<Rightarrow> hash \<Rightarrow> hash \<Rightarrow> bool option" where
  "controls valid ix g e r = do {
     c \<leftarrow> covers valid ix r g;
     if c then outside valid ix e r else Some False}"

definition lineage_len :: "index \<Rightarrow> hash \<Rightarrow> nat" where
  "lineage_len ix g = (case fmlookup (ix_lineage ix) g of Some path \<Rightarrow> card path | None \<Rightarrow> 0)"

definition grant_order :: "index \<Rightarrow> hash list option" where
  "grant_order ix =
     (if list_all (has (ix_lineage ix)) (keys (ix_grants ix))
      then Some (sort_key (lineage_len ix) (keys (ix_grants ix))) else None)"

definition cancel_step ::
  "corpus \<Rightarrow> index \<Rightarrow> hash set \<Rightarrow> hash \<Rightarrow> (hash, hash set) fmap \<Rightarrow> (hash, hash set) fmap option" where
  "cancel_step valid ix effective g canceled = do {
     grant \<leftarrow> fmlookup (ix_grants ix) g;
     (case g_issuer grant of None \<Rightarrow> Some canceled
      | Some issuer \<Rightarrow> do {
          found \<leftarrow> filterM (controls valid ix issuer (g_issued_by_event grant)) (sorted_list_of_set effective);
          let cs = (case fmlookup canceled issuer of Some s \<Rightarrow> s | None \<Rightarrow> {}) \<union> set found;
          Some (if cs = {} then canceled else fmupd g cs canceled)})}"

definition cancellations :: "corpus \<Rightarrow> index \<Rightarrow> hash list \<Rightarrow> hash set \<Rightarrow> (hash, hash set) fmap option" where
  "cancellations valid ix order effective = for_each (cancel_step valid ix effective) order fmempty"

definition relinquished :: "(byte list \<Rightarrow> hash) \<Rightarrow> corpus \<Rightarrow> index \<Rightarrow> hash \<Rightarrow> bool option" where
  "relinquished H valid ix eid = do {
     (target, _) \<leftarrow> revoke_of valid eid;
     event \<leftarrow> fmlookup valid eid;
     if signer H eid event = target then do {grant \<leftarrow> fmlookup (ix_grants ix) target; Some (g_issuer grant = None)}
     else Some False}"

definition relinquishments :: "(byte list \<Rightarrow> hash) \<Rightarrow> corpus \<Rightarrow> index \<Rightarrow> hash set option" where
  "relinquishments H valid ix = map_option set (filterM (relinquished H valid ix) (revokes valid))"

definition max_depth :: "index \<Rightarrow> nat" where
  "max_depth ix = foldr (\<lambda>g. max (lineage_len ix g)) (keys (ix_lineage ix)) 0"

definition in_batch :: "(byte list \<Rightarrow> hash) \<Rightarrow> corpus \<Rightarrow> index \<Rightarrow> hash set \<Rightarrow> (hash, hash set) fmap \<Rightarrow>
    hash set \<Rightarrow> nat \<Rightarrow> hash \<Rightarrow> bool option" where
  "in_batch H valid ix relinq canceled effective depth r = do {
     event \<leftarrow> fmlookup valid r;
     let g = signer H r event;
     path \<leftarrow> fmlookup (ix_lineage ix) g;
     if card path = depth \<and> r \<notin> relinq \<and> \<not> has canceled g
     then map_option Not (anyM (controls valid ix g r) (sorted_list_of_set effective))
     else Some False}"

definition revoke_depth :: "(byte list \<Rightarrow> hash) \<Rightarrow> corpus \<Rightarrow> index \<Rightarrow> hash list \<Rightarrow> hash set \<Rightarrow> nat \<Rightarrow>
    hash set \<Rightarrow> hash set option" where
  "revoke_depth H valid ix order relinq depth effective = do {
     canceled \<leftarrow> cancellations valid ix order effective;
     batch \<leftarrow> filterM (in_batch H valid ix relinq canceled effective depth) (revokes valid);
     Some (effective \<union> set batch)}"

section \<open>Effects\<close>

definition event_effect :: "(byte list \<Rightarrow> hash) \<Rightarrow> corpus \<Rightarrow> index \<Rightarrow> hash set \<Rightarrow> (hash, hash set) fmap \<Rightarrow>
    hash set \<Rightarrow> hash \<Rightarrow> effect option" where
  "event_effect H valid ix relinq canceled effective eid = do {
     event \<leftarrow> fmlookup valid eid;
     let g = signer H eid event;
     found \<leftarrow> filterM (controls valid ix g eid) (sorted_list_of_set effective);
     Some (if eid \<in> relinq then \<lparr>ef_reason = ''root_relinquished'', ef_controlling_revokes = {eid}\<rparr>
       else if found \<noteq> [] then \<lparr>ef_reason = ''revoked_concurrent'', ef_controlling_revokes = set found\<rparr>
       else case fmlookup canceled eid of
         Some cs \<Rightarrow> \<lparr>ef_reason = ''canceled_grant'', ef_controlling_revokes = cs\<rparr>
       | None \<Rightarrow> (case fmlookup canceled g of
           Some cs \<Rightarrow> \<lparr>ef_reason = ''canceled_authority'', ef_controlling_revokes = cs\<rparr>
         | None \<Rightarrow> \<lparr>ef_reason = [], ef_controlling_revokes = {}\<rparr>))}"

definition initial_effects :: "(byte list \<Rightarrow> hash) \<Rightarrow> corpus \<Rightarrow> index \<Rightarrow> hash set \<Rightarrow> (hash, hash set) fmap \<Rightarrow>
    hash set \<Rightarrow> (hash, effect) fmap option" where
  "initial_effects H valid ix relinq canceled effective =
     for_each (\<lambda>eid out. do {
       ef \<leftarrow> event_effect H valid ix relinq canceled effective eid;
       Some (fmupd eid ef out)}) (keys valid) fmempty"

text \<open>The parents through which an event inherits a suppression, and their controls.\<close>

definition inherited :: "(hash, effect) fmap \<Rightarrow> hash list \<Rightarrow> hash set option" where
  "inherited effects ps = do {
     efs \<leftarrow> mapM (fmlookup effects) ps;
     Some (\<Union>(set (map ef_controlling_revokes
       (filter (\<lambda>ef. ef_reason ef \<noteq> [] \<and> ef_reason ef \<noteq> ''root_relinquished'') efs))))}"

definition suppress_step :: "corpus \<Rightarrow> hash \<Rightarrow> (hash, effect) fmap \<times> bool \<Rightarrow> ((hash, effect) fmap \<times> bool) option" where
  "suppress_step valid eid = (\<lambda>(effects, changed). do {
     ef \<leftarrow> fmlookup effects eid;
     if ef_reason ef \<noteq> [] then Some (effects, changed)
     else do {
       event \<leftarrow> fmlookup valid eid;
       cs \<leftarrow> inherited effects (parents_of event);
       if cs \<noteq> {} then Some (fmupd eid \<lparr>ef_reason = ''revoked_ancestor'', ef_controlling_revokes = cs\<rparr> effects, True)
       else Some (effects, changed)}})"

text \<open>The closing \<open>loop\<close> runs until a sweep changes nothing; the flag starts raised.\<close>

definition suppress :: "corpus \<Rightarrow> (hash, effect) fmap \<Rightarrow> (hash, effect) fmap option" where
  "suppress valid effects = map_option fst
     (while_loop snd (\<lambda>(ef, _). for_each (suppress_step valid) (keys valid) (ef, False)) (effects, True))"

definition derive :: "(byte list \<Rightarrow> hash) \<Rightarrow> corpus \<Rightarrow> authority option" where
  "derive H valid = do {
     ix \<leftarrow> index_events H valid;
     order \<leftarrow> grant_order ix;
     relinq \<leftarrow> relinquishments H valid ix;
     effective \<leftarrow> for_each (revoke_depth H valid ix order relinq) [1..<Suc (max_depth ix)] relinq;
     canceled \<leftarrow> cancellations valid ix order effective;
     tombstones \<leftarrow> filterM (\<lambda>g. anyM (\<lambda>r. covers valid ix r g) (sorted_list_of_set effective)) (keys (ix_grants ix));
     effects \<leftarrow> initial_effects H valid ix relinq canceled effective;
     effects \<leftarrow> suppress valid effects;
     Some \<lparr>au_grants = ix_grants ix,
       au_active = set (filter (\<lambda>g. \<not> has canceled g \<and> g \<notin> set tombstones) (keys (ix_grants ix))),
       au_tombstones = set tombstones, au_effective_revokes = effective, au_canceled = fmdom' canceled,
       au_effects = effects\<rparr>}"

section \<open>Scope of a revocation and the selected body\<close>

definition scope_step :: "authority \<Rightarrow> hash \<Rightarrow> hash + bool \<Rightarrow> (hash + bool) option" where
  "scope_step view who st = (case st of Inr b \<Rightarrow> Some (Inr b)
     | Inl g \<Rightarrow> do {
         grant \<leftarrow> fmlookup (au_grants view) g;
         Some (case g_issuer grant of None \<Rightarrow> Inr False
           | Some issuer \<Rightarrow> if issuer = who then Inr True else Inl issuer)})"

definition in_scope :: "authority \<Rightarrow> hash \<Rightarrow> hash \<Rightarrow> bool option" where
  "in_scope view who target =
     (if who = target then do {grant \<leftarrow> fmlookup (au_grants view) target; Some (g_issuer grant = None)}
      else do {
        st \<leftarrow> while_loop isl (scope_step view who) (Inl target);
        Some (projr st)})"

end
