(* ===== verification/Revisions.thy ===== *)
theory Revisions
  imports Authority
begin

text \<open>
  Revision records and the selection of a revision by every valid subject event
  (\<open>revisions\<close> and \<open>selections\<close> of \<^verbatim>\<open>crates/cc-ledger/src/v1/projection.rs\<close>), and the body an
  event selects (\<open>body\<close> of \<^verbatim>\<open>authority.rs\<close>).
\<close>

record revision =
  rv_id :: hash
  rv_subject :: hash
  rv_creating_event :: hash
  rv_body :: hash
  rv_asserted_time :: "asserted_time option"

fun created_body :: "payload \<Rightarrow> hash option" where
  "created_body (Genesis _ body _) = Some body"
| "created_body (Correction body _) = Some body"
| "created_body (Resolve (S_MergedBody body) _ _) = Some body"
| "created_body _ = None"

definition subject_or :: "signed \<Rightarrow> hash \<Rightarrow> hash" where
  "subject_or ev eid = (case env_subject (envelope_of ev) of Some s \<Rightarrow> s | None \<Rightarrow> eid)"

definition revision_of :: "(byte list \<Rightarrow> hash) \<Rightarrow> hash \<Rightarrow> signed \<Rightarrow> revision option" where
  "revision_of H eid ev = (case created_body (payload_of ev) of None \<Rightarrow> None
     | Some body \<Rightarrow> Some \<lparr>rv_id = revision_id H (subject_or ev eid) eid, rv_subject = subject_or ev eid,
         rv_creating_event = eid, rv_body = body, rv_asserted_time = env_asserted_time (envelope_of ev)\<rparr>)"

definition revisions_step :: "(byte list \<Rightarrow> hash) \<Rightarrow> corpus \<Rightarrow> hash \<Rightarrow> (hash, revision) fmap \<Rightarrow> (hash, revision) fmap" where
  "revisions_step H valid eid m = (case fmlookup valid eid of None \<Rightarrow> m
     | Some ev \<Rightarrow> (case revision_of H eid ev of None \<Rightarrow> m | Some r \<Rightarrow> fmupd (rv_id r) r m))"

definition revisions :: "(byte list \<Rightarrow> hash) \<Rightarrow> corpus \<Rightarrow> (hash, revision) fmap" where
  "revisions H valid = fold (revisions_step H valid) (keys valid) fmempty"

section \<open>Selections\<close>

definition select_step :: "(byte list \<Rightarrow> hash) \<Rightarrow> corpus \<Rightarrow> hash \<Rightarrow> (hash, hash) fmap \<Rightarrow> (hash, hash) fmap option" where
  "select_step H valid eid out = do {
     ev \<leftarrow> fmlookup valid eid;
     if has out eid \<or> list_ex (\<lambda>p. \<not> has out p) (parents_of ev) then Some out
     else do {
       selected \<leftarrow> (case payload_of ev of
           Genesis _ _ _ \<Rightarrow> Some (revision_id H (subject_or ev eid) eid)
         | Correction _ _ \<Rightarrow> Some (revision_id H (subject_or ev eid) eid)
         | Resolve (S_MergedBody _) _ _ \<Rightarrow> Some (revision_id H (subject_or ev eid) eid)
         | Resolve (S_Revision r) _ _ \<Rightarrow> Some r
         | _ \<Rightarrow> (case parents_of ev of [] \<Rightarrow> None | p # _ \<Rightarrow> fmlookup out p));
       Some (fmupd eid selected out)}}"

definition selections :: "(byte list \<Rightarrow> hash) \<Rightarrow> corpus \<Rightarrow> (hash, hash) fmap option" where
  "selections H valid =
     while_loop (\<lambda>out. fm_len out < fm_len valid) (for_each (select_step H valid) (keys valid)) fmempty"

section \<open>The body an event selects\<close>

definition body_step :: "(byte list \<Rightarrow> hash) \<Rightarrow> corpus \<Rightarrow> hash + hash \<Rightarrow> (hash + hash) option" where
  "body_step H all st = (case st of Inr b \<Rightarrow> Some (Inr b)
     | Inl eid \<Rightarrow> do {
         ev \<leftarrow> fmlookup all eid;
         (case payload_of ev of
            Genesis _ b _ \<Rightarrow> Some (Inr b)
          | Correction b _ \<Rightarrow> Some (Inr b)
          | Resolve (S_MergedBody b) _ _ \<Rightarrow> Some (Inr b)
          | Resolve (S_Revision r) _ _ \<Rightarrow> map_option (\<lambda>r. Inr (rv_body r)) (fmlookup (revisions H all) r)
          | _ \<Rightarrow> (case parents_of ev of [] \<Rightarrow> None | p # _ \<Rightarrow> Some (Inl p)))})"

definition body :: "(byte list \<Rightarrow> hash) \<Rightarrow> corpus \<Rightarrow> hash \<Rightarrow> hash option" where
  "body H all eid = map_option projr (while_loop isl (body_step H all) (Inl eid))"

end
