(* ===== verification/Admission.thy ===== *)
theory Admission
  imports Revisions
begin

text \<open>
  Branch-local admission of subject events (\<open>classify\<close> of \<^verbatim>\<open>crates/cc-ledger/src/v1.rs\<close>): the
  status of one event given the statuses of its parents, and the scheduling loop over the
  candidates. The early returns of the closure in \<open>evaluate\<close> are the branches of
  \<open>evaluate\<close>, \<open>check_lineage\<close>, \<open>check_decision\<close>, \<open>check_authority\<close> and
  \<open>check_payload\<close>, which run in this order. \<open>key_ok\<close> is the parser of Ed25519 public keys.
\<close>

section \<open>Statuses\<close>

datatype state = Valid | Pending | Invalid

record status =
  st_state :: state
  st_reason :: string
  st_missing :: "hash list"

definition valid_status :: status where
  "valid_status = \<lparr>st_state = Valid, st_reason = [], st_missing = []\<rparr>"

definition invalid :: "string \<Rightarrow> status" where
  "invalid reason = \<lparr>st_state = Invalid, st_reason = reason, st_missing = []\<rparr>"

definition pending :: "string \<Rightarrow> hash list \<Rightarrow> status" where
  "pending reason missing = \<lparr>st_state = Pending, st_reason = reason, st_missing = missing\<rparr>"

type_synonym statuses = "(hash, status) fmap"

definition is_subject :: "signed \<Rightarrow> bool" where
  "is_subject ev \<longleftrightarrow> payload_kind (payload_of ev) \<notin> {K_EdgeAssert, K_EdgeReaffirm, K_Attestation}"

section \<open>Payload checks\<close>

definition check_correction :: "(byte list \<Rightarrow> hash) \<Rightarrow> corpus \<Rightarrow> hash \<Rightarrow> hash \<Rightarrow> decision \<Rightarrow> status option" where
  "check_correction H all parent b d = do {
     old \<leftarrow> body H all parent;
     Some (if dec_old d \<noteq> V_Body old \<or> dec_new d \<noteq> V_Body b then invalid ''decision_mismatch''
       else valid_status)}"

definition holds_key :: "authority \<Rightarrow> hash \<Rightarrow> bool" where
  "holds_key view k \<longleftrightarrow> list_ex (\<lambda>g. map_option g_holder (fmlookup (au_grants view) g) = Some k) (keys (au_grants view))"

definition check_delegate :: "(hash \<Rightarrow> bool) \<Rightarrow> authority \<Rightarrow> hash \<Rightarrow> hash \<Rightarrow> hash \<Rightarrow> decision \<Rightarrow> status" where
  "check_delegate kok view grant grantee issuer d =
     (if issuer \<noteq> grant then invalid ''issuer_grant_mismatch''
      else if \<not> kok grantee then invalid ''key''
      else if holds_key view grantee then invalid ''key_not_fresh''
      else if dec_old d \<noteq> V_None \<or> dec_new d \<noteq> V_Grant issuer grantee then invalid ''decision_mismatch''
      else valid_status)"

definition check_revoke :: "authority \<Rightarrow> hash \<Rightarrow> hash \<Rightarrow> bool \<Rightarrow> decision \<Rightarrow> status option" where
  "check_revoke view grant target cascade d =
     (if target \<notin> au_active view then Some (invalid ''revocation_scope'')
      else do {
        ok \<leftarrow> in_scope view grant target;
        Some (if \<not> ok then invalid ''revocation_scope''
          else if dec_old d \<noteq> V_ActiveGrant target \<or> dec_new d \<noteq> V_RevokedGrant target cascade
          then invalid ''decision_mismatch''
          else valid_status)})"

definition selects_outside :: "corpus \<Rightarrow> revision \<Rightarrow> disposition \<Rightarrow> bool option" where
  "selects_outside past r disp =
     (if disp_action disp = Selected
      then do {c \<leftarrow> cone past (disp_parent disp); Some (\<not> has c (rv_creating_event r))}
      else Some False)"

definition check_selection :: "(byte list \<Rightarrow> hash) \<Rightarrow> corpus \<Rightarrow> authority \<Rightarrow> envelope \<Rightarrow> hash \<Rightarrow>
    disposition list \<Rightarrow> status option" where
  "check_selection H past view e rid disps = (case fmlookup (revisions H past) rid of
     None \<Rightarrow> Some (invalid ''revision_unreachable'')
   | Some r \<Rightarrow> do {
       ef \<leftarrow> fmlookup (au_effects view) (rv_creating_event r);
       if ef_reason ef \<noteq> [] then Some (invalid ''revision_ineligible'')
       else if env_asserted_time e \<noteq> None then Some (invalid ''selection_time_edit'')
       else if list_ex (\<lambda>d. disp_action d = Merged) disps \<or> \<not> list_ex (\<lambda>d. disp_action d = Selected) disps
       then Some (invalid ''disposition_mismatch'')
       else do {
         bad \<leftarrow> anyM (selects_outside past r) disps;
         Some (if bad then invalid ''disposition_mismatch'' else valid_status)}})"

definition check_resolve :: "(byte list \<Rightarrow> hash) \<Rightarrow> corpus \<Rightarrow> authority \<Rightarrow> envelope \<Rightarrow> selection \<Rightarrow>
    disposition list \<Rightarrow> decision \<Rightarrow> status option" where
  "check_resolve H past view e sel disps d =
     (if dec_old d \<noteq> V_Heads (env_parents e)
        \<or> dec_new d \<noteq> (case sel of S_MergedBody b \<Rightarrow> V_Body b | S_Revision r \<Rightarrow> V_Revision r)
        \<or> map disp_parent disps \<noteq> env_parents e \<or> list_ex (\<lambda>d. disp_rationale d = []) disps
      then Some (invalid ''decision_mismatch'')
      else case sel of
        S_MergedBody _ \<Rightarrow> Some
          (if list_ex (\<lambda>d. disp_action d = Selected) disps \<or> \<not> list_ex (\<lambda>d. disp_action d = Merged) disps
           then invalid ''disposition_mismatch'' else valid_status)
      | S_Revision rid \<Rightarrow> check_selection H past view e rid disps)"

definition check_payload :: "(byte list \<Rightarrow> hash) \<Rightarrow> (hash \<Rightarrow> bool) \<Rightarrow> corpus \<Rightarrow> corpus \<Rightarrow> authority \<Rightarrow>
    envelope \<Rightarrow> hash \<Rightarrow> hash \<Rightarrow> status option" where
  "check_payload H kok all past view e parent grant = (case env_payload e of
     Correction b d \<Rightarrow> check_correction H all parent b d
   | Delegate grantee issuer d \<Rightarrow> Some (check_delegate kok view grant grantee issuer d)
   | Revoke target cascade d \<Rightarrow> check_revoke view grant target cascade d
   | Resolve sel disps d \<Rightarrow> check_resolve H past view e sel disps d
   | _ \<Rightarrow> None)"

section \<open>Authority, decision and lineage checks\<close>

definition comparable :: "hash list \<Rightarrow> corpus \<Rightarrow> bool" where
  "comparable ps c \<longleftrightarrow> length (filter (has c) ps) > 1"

definition inactive_in :: "(byte list \<Rightarrow> hash) \<Rightarrow> hash \<Rightarrow> corpus \<Rightarrow> bool option" where
  "inactive_in H grant c = do {a \<leftarrow> derive H c; Some (grant \<notin> au_active a)}"

definition check_authority :: "(byte list \<Rightarrow> hash) \<Rightarrow> (hash \<Rightarrow> bool) \<Rightarrow> corpus \<Rightarrow> envelope \<Rightarrow> status option" where
  "check_authority H kok all e = (case env_parents e of [] \<Rightarrow> None | parent # _ \<Rightarrow> do {
     cones \<leftarrow> mapM (cone all) (env_parents e);
     if payload_kind (env_payload e) = K_Resolve \<and> list_ex (comparable (env_parents e)) cones
     then Some (invalid ''comparable_parents'')
     else do {
       let past = foldl fmadd fmempty cones;
       view \<leftarrow> derive H past;
       grant \<leftarrow> env_grant e;
       if grant \<notin> au_active view then Some (invalid ''parent_authority'')
       else do {
         g \<leftarrow> fmlookup (au_grants view) grant;
         if g_holder g \<noteq> env_author e then Some (invalid ''parent_authority'')
         else do {
           bad \<leftarrow> anyM (inactive_in H grant) cones;
           if bad then Some (invalid ''parent_authority'')
           else check_payload H kok all past view e parent grant}}}})"

definition check_decision :: "(byte list \<Rightarrow> hash) \<Rightarrow> (hash \<Rightarrow> bool) \<Rightarrow> corpus \<Rightarrow> envelope \<Rightarrow> status option" where
  "check_decision H kok all e = (case payload_decision (env_payload e) of
     None \<Rightarrow> Some (invalid ''decision_missing'')
   | Some d \<Rightarrow>
       if dec_kind d \<noteq> payload_kind (env_payload e) \<or> dec_parents d \<noteq> env_parents e \<or> dec_rationale d = []
          \<or> dec_evidence d = []
       then Some (invalid ''decision_mismatch'')
       else if payload_kind (env_payload e) \<in> {K_Delegate, K_Revoke} \<and> env_asserted_time e \<noteq> None
       then Some (invalid ''authority_time_edit'')
       else check_authority H kok all e)"

text \<open>The first parent of another subject or another subject key, if there is one.\<close>

fun parent_mismatch :: "hash \<Rightarrow> subject_key option \<Rightarrow> (hash \<times> signed) list \<Rightarrow> string option" where
  "parent_mismatch subject key [] = None"
| "parent_mismatch subject key ((p, pev) # rest) =
     (if (if payload_kind (payload_of pev) = K_Genesis then Some p else env_subject (envelope_of pev)) \<noteq> Some subject
      then Some ''wrong_subject''
      else if env_subject_key (envelope_of pev) \<noteq> key then Some ''subject_key_changed''
      else parent_mismatch subject key rest)"

definition check_lineage :: "(byte list \<Rightarrow> hash) \<Rightarrow> (hash \<Rightarrow> bool) \<Rightarrow> corpus \<Rightarrow> statuses \<Rightarrow> envelope \<Rightarrow> status option" where
  "check_lineage H kok all out e = do {
     pevs \<leftarrow> mapM (fmlookup all) (env_parents e);
     if list_ex (\<lambda>pev. \<not> is_subject pev) pevs then Some (invalid ''wrong_subject'')
     else do {
       parent_states \<leftarrow> mapM (fmlookup out) (env_parents e);
       if list_ex (\<lambda>s. st_state s = Invalid) parent_states then Some (invalid ''ancestor'')
       else do {
         subject \<leftarrow> env_subject e;
         (case parent_mismatch subject (env_subject_key e) (zip (env_parents e) pevs) of
            Some reason \<Rightarrow> Some (invalid reason)
          | None \<Rightarrow>
              if list_ex (\<lambda>s. st_state s = Pending) parent_states then Some (pending ''ancestor'' [])
              else (case fmlookup all subject of
                  None \<Rightarrow> Some (pending ''subject_missing'' [subject])
                | Some genesis \<Rightarrow>
                    if payload_kind (payload_of genesis) \<noteq> K_Genesis then Some (invalid ''wrong_subject'')
                    else check_decision H kok all e))}}}"

definition imprecise :: "envelope \<Rightarrow> bool" where
  "imprecise e \<longleftrightarrow> (case env_asserted_time e of None \<Rightarrow> False | Some t \<Rightarrow> at_precision t = [])"

definition genesis_header :: "envelope \<Rightarrow> bool" where
  "genesis_header e \<longleftrightarrow> env_subject e = None \<and> env_grant e = None \<and> env_parents e = [] \<and> env_subject_key e \<noteq> None"

definition evaluate :: "(byte list \<Rightarrow> hash) \<Rightarrow> (hash \<Rightarrow> bool) \<Rightarrow> corpus \<Rightarrow> statuses \<Rightarrow> hash \<Rightarrow> status option" where
  "evaluate H kok all out eid = do {
     ev \<leftarrow> fmlookup all eid;
     let e = envelope_of ev;
     let kind = payload_kind (env_payload e);
     if imprecise e
     then Some (invalid ''precision'')
     else if kind = K_Genesis then Some (if genesis_header e then valid_status else invalid ''genesis'')
     else if env_parents e = [] \<or> (kind \<noteq> K_Resolve \<and> length (env_parents e) \<noteq> 1)
       \<or> (kind = K_Resolve \<and> length (env_parents e) < 2)
     then Some (invalid ''parents'')
     else if env_subject e = None \<or> env_subject_key e = None \<or> env_grant e = None
     then Some (invalid ''subject_header'')
     else if filter (\<lambda>p. \<not> has all p) (env_parents e) \<noteq> []
     then Some (pending ''parent_missing'' (filter (\<lambda>p. \<not> has all p) (env_parents e)))
     else check_lineage H kok all out e}"

section \<open>The scheduling loop\<close>

definition schedulable :: "corpus \<Rightarrow> statuses \<Rightarrow> signed \<Rightarrow> bool" where
  "schedulable candidates out ev \<longleftrightarrow> payload_kind (payload_of ev) = K_Genesis
     \<or> list_ex (\<lambda>p. \<not> (case fmlookup candidates p of Some c \<Rightarrow> is_subject c | None \<Rightarrow> False)) (parents_of ev)
     \<or> list_all (has out) (parents_of ev)"

definition classify_step :: "(byte list \<Rightarrow> hash) \<Rightarrow> (hash \<Rightarrow> bool) \<Rightarrow> corpus \<Rightarrow> hash \<Rightarrow> statuses \<Rightarrow> statuses option" where
  "classify_step H kok candidates eid out = do {
     ev \<leftarrow> fmlookup candidates eid;
     if has out eid \<or> \<not> is_subject ev then Some out
     else if schedulable candidates out ev then do {
       s \<leftarrow> evaluate H kok candidates out eid;
       Some (fmupd eid s out)}
     else Some out}"

definition subject_ids :: "corpus \<Rightarrow> hash list" where
  "subject_ids candidates = filter (\<lambda>eid. case fmlookup candidates eid of Some ev \<Rightarrow> is_subject ev | None \<Rightarrow> False) (keys candidates)"

text \<open>\<open>out.entry(id).or_insert_with(...)\<close>: the ids left over are on a cycle or behind one.\<close>

definition or_insert :: "status \<Rightarrow> hash \<Rightarrow> statuses \<Rightarrow> statuses" where
  "or_insert s eid out = (if has out eid then out else fmupd eid s out)"

definition classify_round :: "(byte list \<Rightarrow> hash) \<Rightarrow> (hash \<Rightarrow> bool) \<Rightarrow> corpus \<Rightarrow> statuses \<Rightarrow> statuses option" where
  "classify_round H kok candidates out = do {
     out' \<leftarrow> for_each (classify_step H kok candidates) (keys candidates) out;
     Some (if fm_len out' = fm_len out
       then fold (or_insert (invalid ''cycle'')) (subject_ids candidates) out' else out')}"

definition classify_subjects :: "(byte list \<Rightarrow> hash) \<Rightarrow> (hash \<Rightarrow> bool) \<Rightarrow> corpus \<Rightarrow> statuses option" where
  "classify_subjects H kok candidates =
     while_loop (\<lambda>out. fm_len out < length (subject_ids candidates)) (classify_round H kok candidates) fmempty"

end
