(* ===== verification/Edges.thy ===== *)
theory Edges
  imports Admission
begin

text \<open>
  Admission of edges and attestations (\<open>Subjects\<close>, \<open>check_pin\<close>, \<open>evaluate\<close> and
  \<open>classify\<close> of \<^verbatim>\<open>crates/cc-ledger/src/v1/edges.rs\<close>), and the whole classifier
  (\<open>classify\<close> and \<open>analyze\<close> of \<^verbatim>\<open>crates/cc-ledger/src/v1.rs\<close>).
\<close>

definition RELATIONS :: "string list" where
  "RELATIONS = [''causation'', ''co_occurrence'', ''disputes'', ''influence'', ''participation'']"

section \<open>Subjects\<close>

record subjects =
  su_valid :: corpus
  su_selected :: "(hash, hash) fmap"
  su_revisions :: "(hash, revision) fmap"

text \<open>The valid subject events; a subject event without a status would be a panic.\<close>

definition valid_subjects :: "corpus \<Rightarrow> statuses \<Rightarrow> corpus option" where
  "valid_subjects cands out =
     (if list_all (has out) (subject_ids cands)
      then Some (fmfilter (\<lambda>eid. eid \<in> set (subject_ids cands)
        \<and> (case fmlookup out eid of Some s \<Rightarrow> st_state s = Valid | None \<Rightarrow> False)) cands)
      else None)"

definition subjects_new :: "(byte list \<Rightarrow> hash) \<Rightarrow> corpus \<Rightarrow> statuses \<Rightarrow> subjects option" where
  "subjects_new H cands out = do {
     valid \<leftarrow> valid_subjects cands out;
     selected \<leftarrow> selections H valid;
     Some \<lparr>su_valid = valid, su_selected = selected, su_revisions = revisions H valid\<rparr>}"

definition pins_of :: "signed \<Rightarrow> pins option" where
  "pins_of ev = (case payload_of ev of EdgeAssert _ ps _ \<Rightarrow> Some ps | EdgeReaffirm _ _ new _ \<Rightarrow> Some new | _ \<Rightarrow> None)"

definition edge_of :: "hash \<Rightarrow> signed \<Rightarrow> hash option" where
  "edge_of eid ev = (case payload_of ev of EdgeAssert _ _ _ \<Rightarrow> Some eid | EdgeReaffirm edge _ _ _ \<Rightarrow> Some edge | _ \<Rightarrow> None)"

section \<open>Pins\<close>

definition check_pin :: "corpus \<Rightarrow> statuses \<Rightarrow> subjects \<Rightarrow> pin \<Rightarrow> status option" where
  "check_pin all out s pn =
     (let missing = remdups_adj (filter (\<lambda>r. \<not> has all r) [pin_subject pn, pin_basis pn]) in
      if missing \<noteq> [] then Some (pending ''pin_missing'' missing)
      else do {
        basis \<leftarrow> fmlookup all (pin_basis pn);
        subject \<leftarrow> fmlookup all (pin_subject pn);
        if payload_kind (payload_of subject) \<noteq> K_Genesis \<or> \<not> is_subject basis
           \<or> subject_or basis (pin_basis pn) \<noteq> pin_subject pn
        then Some (invalid ''pin_subject'')
        else do {
          st \<leftarrow> fmlookup out (pin_basis pn);
          (case st_state st of
             Invalid \<Rightarrow> Some (invalid ''pin_invalid'')
           | Pending \<Rightarrow> Some (pending ''pin_pending'' [])
           | Valid \<Rightarrow> do {
               sel \<leftarrow> fmlookup (su_selected s) (pin_basis pn);
               if sel \<noteq> pin_revision pn then Some (invalid ''pin_revision'')
               else do {
                 rev \<leftarrow> fmlookup (su_revisions s) (pin_revision pn);
                 Some (if rv_body rev \<noteq> pin_body pn then invalid ''pin_body'' else valid_status)}})}})"

definition check_pins :: "corpus \<Rightarrow> statuses \<Rightarrow> subjects \<Rightarrow> pins \<Rightarrow> status option" where
  "check_pins all out s ps = do {
     a \<leftarrow> check_pin all out s (pins_source ps);
     b \<leftarrow> check_pin all out s (pins_target ps);
     let results = [a, b];
     Some (case find (\<lambda>r. st_state r = Invalid) results of
         Some bad \<Rightarrow> bad
       | None \<Rightarrow>
           let missing = remdups_adj (sort (concat (map st_missing results))) in
           if missing \<noteq> [] then pending ''pin_missing'' missing
           else case find (\<lambda>r. st_state r = Pending) results of Some r \<Rightarrow> r | None \<Rightarrow> valid_status)}"

section \<open>Evaluation of an edge or attestation\<close>

definition check_assert :: "corpus \<Rightarrow> statuses \<Rightarrow> subjects \<Rightarrow> envelope \<Rightarrow> string \<Rightarrow> pins \<Rightarrow> decision \<Rightarrow> status option" where
  "check_assert all out s e relation ps d =
     (if env_parents e \<noteq> [] then Some (invalid ''parents'')
      else if dec_kind d \<noteq> K_EdgeAssert \<or> dec_parents d \<noteq> env_parents e \<or> dec_rationale d = []
        \<or> dec_evidence d = [] \<or> dec_old d \<noteq> V_None \<or> dec_new d \<noteq> V_Pins ps
      then Some (invalid ''decision_mismatch'')
      else if \<not> List.member RELATIONS relation then Some (invalid ''relation'')
      else do {
        st \<leftarrow> check_pins all out s ps;
        if st_state st \<noteq> Valid then Some st
        else if relation \<noteq> ''disputes'' then Some valid_status
        else if pin_subject (pins_source ps) = pin_subject (pins_target ps) then Some (invalid ''dispute_counterclaim'')
        else do {
          source \<leftarrow> fmlookup all (pin_subject (pins_source ps));
          Some (if env_author (envelope_of source) \<noteq> env_author e then invalid ''dispute_counterclaim''
            else valid_status)}})"

definition old_pins_differ :: "corpus \<Rightarrow> parent_pins \<Rightarrow> bool option" where
  "old_pins_differ all pp = do {
     ev \<leftarrow> fmlookup all (pp_parent pp);
     ps \<leftarrow> pins_of ev;
     Some (pp_pins pp \<noteq> ps)}"

definition edge_comparable :: "corpus \<Rightarrow> hash list \<Rightarrow> hash \<Rightarrow> bool option" where
  "edge_comparable all ps p = do {c \<leftarrow> cone all p; Some (comparable ps c)}"

definition reaffirm_decision :: "corpus \<Rightarrow> statuses \<Rightarrow> subjects \<Rightarrow> envelope \<Rightarrow> parent_pins list \<Rightarrow> pins \<Rightarrow>
    decision \<Rightarrow> status option" where
  "reaffirm_decision all out s e old new d =
     (if map pp_parent old \<noteq> env_parents e then Some (invalid ''decision_mismatch'')
      else do {
        differ \<leftarrow> anyM (old_pins_differ all) old;
        if differ \<or> dec_kind d \<noteq> K_EdgeReaffirm \<or> dec_parents d \<noteq> env_parents e \<or> dec_rationale d = []
          \<or> dec_evidence d = [] \<or> dec_old d \<noteq> V_ParentPins old \<or> dec_new d \<noteq> V_Pins new
        then Some (invalid ''decision_mismatch'')
        else check_pins all out s new})"

definition check_reaffirm :: "corpus \<Rightarrow> statuses \<Rightarrow> subjects \<Rightarrow> envelope \<Rightarrow> hash \<Rightarrow> parent_pins list \<Rightarrow> pins \<Rightarrow>
    decision \<Rightarrow> status option" where
  "check_reaffirm all out s e edge old new d =
     (if env_parents e = [] then Some (invalid ''parents'')
      else let missing = remdups_adj (sort (filter (\<lambda>r. \<not> has all r) (env_parents e @ [edge]))) in
      if missing \<noteq> [] then Some (pending ''parent_missing'' missing)
      else do {
        base \<leftarrow> fmlookup all edge;
        pevs \<leftarrow> mapM (fmlookup all) (env_parents e);
        if payload_kind (payload_of base) \<noteq> K_EdgeAssert
           \<or> list_ex (\<lambda>(p, pev). edge_of p pev \<noteq> Some edge) (zip (env_parents e) pevs)
        then Some (invalid ''wrong_edge'')
        else do {
          states \<leftarrow> mapM (fmlookup out) (env_parents e @ [edge]);
          if list_ex (\<lambda>s. st_state s = Invalid) states then Some (invalid ''ancestor'')
          else if env_author e \<noteq> env_author (envelope_of base) then Some (invalid ''edge_author'')
          else if list_ex (\<lambda>s. st_state s = Pending) states then Some (pending ''ancestor'' [])
          else do {
            cmp \<leftarrow> (if length (env_parents e) > 1 then anyM (edge_comparable all (env_parents e)) (env_parents e)
              else Some False);
            if cmp then Some (invalid ''comparable_parents'')
            else do {
              base_pins \<leftarrow> pins_of base;
              if pin_subject (pins_source new) \<noteq> pin_subject (pins_source base_pins)
                 \<or> pin_subject (pins_target new) \<noteq> pin_subject (pins_target base_pins)
              then Some (invalid ''endpoint_changed'')
              else reaffirm_decision all out s e old new d}}}})"

definition check_attestation :: "corpus \<Rightarrow> statuses \<Rightarrow> subjects \<Rightarrow> envelope \<Rightarrow> target_kind \<Rightarrow> hash \<Rightarrow> string \<Rightarrow> status" where
  "check_attestation all out s e tk target artifact_kind =
     (if env_parents e \<noteq> [] then invalid ''parents''
      else if artifact_kind = [] then invalid ''artifact_kind''
      else case tk of
        T_Revision \<Rightarrow> if has (su_revisions s) target then valid_status else pending ''revision_missing'' [target]
      | T_Event \<Rightarrow> (case fmlookup all target of
          None \<Rightarrow> pending ''target_missing'' [target]
        | Some t \<Rightarrow>
            if payload_kind (payload_of t) = K_Attestation then invalid ''attestation_target''
            else (case fmlookup out target of
              Some st \<Rightarrow> (case st_state st of
                  Invalid \<Rightarrow> invalid ''target_invalid''
                | Pending \<Rightarrow> pending ''target_pending'' []
                | Valid \<Rightarrow> valid_status)
            | None \<Rightarrow> valid_status)))"

definition evaluate_edge :: "corpus \<Rightarrow> statuses \<Rightarrow> subjects \<Rightarrow> hash \<Rightarrow> status option" where
  "evaluate_edge all out s eid = do {
     ev \<leftarrow> fmlookup all eid;
     let e = envelope_of ev;
     if env_subject e \<noteq> None \<or> env_subject_key e \<noteq> None \<or> env_grant e \<noteq> None \<or> env_asserted_time e \<noteq> None
     then Some (invalid ''non_subject_header'')
     else case env_payload e of
       EdgeAssert relation ps d \<Rightarrow> check_assert all out s e relation ps d
     | EdgeReaffirm edge old new d \<Rightarrow> check_reaffirm all out s e edge old new d
     | Attestation tk target artifact_kind _ \<Rightarrow> Some (check_attestation all out s e tk target artifact_kind)
     | _ \<Rightarrow> None}"

section \<open>Scheduling\<close>

definition edge_deps :: "signed \<Rightarrow> hash list" where
  "edge_deps ev = parents_of ev @ (case payload_of ev of EdgeReaffirm edge _ _ _ \<Rightarrow> [edge] | _ \<Rightarrow> [])"

definition edge_ready :: "corpus \<Rightarrow> statuses \<Rightarrow> signed \<Rightarrow> bool" where
  "edge_ready cands out ev \<longleftrightarrow> list_all (\<lambda>d. has out d \<or> (case fmlookup cands d of None \<Rightarrow> True
     | Some c \<Rightarrow> payload_kind (payload_of c) = K_Attestation)) (edge_deps ev)"

definition edge_step :: "corpus \<Rightarrow> subjects \<Rightarrow> hash \<Rightarrow> statuses \<times> bool \<Rightarrow> (statuses \<times> bool) option" where
  "edge_step cands s eid = (\<lambda>(out, changed).
     if has out eid then Some (out, changed)
     else do {
       ev \<leftarrow> fmlookup cands eid;
       if edge_ready cands out ev then do {
         st \<leftarrow> evaluate_edge cands out s eid;
         Some (fmupd eid st out, True)}
       else Some (out, changed)})"

definition edge_ids :: "corpus \<Rightarrow> bool \<Rightarrow> hash list" where
  "edge_ids cands media = filter (\<lambda>eid. case fmlookup cands eid of None \<Rightarrow> False
     | Some ev \<Rightarrow> \<not> is_subject ev \<and> (payload_kind (payload_of ev) = K_Attestation) = media) (keys cands)"

definition edge_phase :: "corpus \<Rightarrow> subjects \<Rightarrow> bool \<Rightarrow> statuses \<Rightarrow> statuses option" where
  "edge_phase cands s media out = do {
     (out, _) \<leftarrow> while_loop snd (\<lambda>(out, _). for_each (edge_step cands s) (edge_ids cands media) (out, False)) (out, True);
     Some (fold (or_insert (invalid ''cycle'')) (edge_ids cands media) out)}"

definition classify_edges :: "(byte list \<Rightarrow> hash) \<Rightarrow> corpus \<Rightarrow> statuses \<Rightarrow> statuses option" where
  "classify_edges H cands out = do {
     s \<leftarrow> subjects_new H cands out;
     for_each (edge_phase cands s) [False, True] out}"

definition classify :: "(byte list \<Rightarrow> hash) \<Rightarrow> (hash \<Rightarrow> bool) \<Rightarrow> corpus \<Rightarrow> statuses option" where
  "classify H kok cands = do {
     out \<leftarrow> classify_subjects H kok cands;
     classify_edges H cands out}"

record analysis =
  an_admission :: statuses
  an_authority :: authority

definition analyze :: "(byte list \<Rightarrow> hash) \<Rightarrow> (hash \<Rightarrow> bool) \<Rightarrow> corpus \<Rightarrow> analysis option" where
  "analyze H kok cands = do {
     admission \<leftarrow> classify H kok cands;
     if list_all (has admission) (keys cands) then do {
       valid \<leftarrow> valid_subjects cands admission;
       a \<leftarrow> derive H valid;
       Some \<lparr>an_admission = admission, an_authority = a\<rparr>}
     else None}"

end
