(* ===== verification/Lineage.thy ===== *)
theory Lineage
  imports Authority
begin

text \<open>
  The scheduling loop of \<open>derive\<close> on a well-formed set of valid events: it ends without a panic,
  computes the causal past of every event, and gives every grant the chain of grants it was
  issued under.
\<close>

section \<open>Well-formed sets of valid events\<close>

definition keys_issued :: "(byte list \<Rightarrow> hash) \<Rightarrow> hash \<Rightarrow> signed \<Rightarrow> hash set" where
  "keys_issued H eid ev = (case payload_of ev of
     Genesis _ _ _ \<Rightarrow> {root_grant H eid} | Delegate _ _ _ \<Rightarrow> {eid} | _ \<Rightarrow> {})"

definition grant_keys :: "(byte list \<Rightarrow> hash) \<Rightarrow> corpus \<Rightarrow> hash set \<Rightarrow> hash set" where
  "grant_keys H valid S = (\<Union>x\<in>S. case fmlookup valid x of Some ev \<Rightarrow> keys_issued H x ev | None \<Rightarrow> {})"

definition past_of :: "corpus \<Rightarrow> signed \<Rightarrow> hash set" where
  "past_of valid ev = (\<Union>p\<in>set (parents_of ev). anc valid p)"

text \<open>No SHA-256 collision between root grants, or between a root grant and an event id.\<close>

definition distinct_ids :: "(byte list \<Rightarrow> hash) \<Rightarrow> hash set \<Rightarrow> bool" where
  "distinct_ids H ids \<longleftrightarrow> inj_on (root_grant H) ids \<and> root_grant H ` ids \<inter> ids = {}"

text \<open>
  What \<open>derive\<close> relies on of one event: a delegation names a subject and an issuer grant of its
  past, every signer is a grant of its past, a revocation has a parent.
\<close>

definition event_wf :: "(byte list \<Rightarrow> hash) \<Rightarrow> corpus \<Rightarrow> hash \<Rightarrow> signed \<Rightarrow> bool" where
  "event_wf H valid eid ev \<longleftrightarrow>
     signer H eid ev \<in> grant_keys H valid (past_of valid ev) \<union> keys_issued H eid ev \<and>
     (case payload_of ev of
        Delegate _ issuer _ \<Rightarrow> env_subject (envelope_of ev) \<noteq> None \<and> issuer \<in> grant_keys H valid (past_of valid ev)
      | Revoke _ _ _ \<Rightarrow> parents_of ev \<noteq> []
      | _ \<Rightarrow> True)"

definition authority_wf :: "(byte list \<Rightarrow> hash) \<Rightarrow> corpus \<Rightarrow> bool" where
  "authority_wf H valid \<longleftrightarrow> causally_closed valid \<and> wf (parent_rel valid) \<and>
     distinct_ids H (fmdom' valid) \<and> (\<forall>eid ev. fmlookup valid eid = Some ev \<longrightarrow> event_wf H valid eid ev)"

lemma authority_wfD:
  assumes "authority_wf H valid"
  shows "causally_closed valid" "wf (parent_rel valid)" "distinct_ids H (fmdom' valid)"
    "fmlookup valid eid = Some ev \<Longrightarrow> event_wf H valid eid ev"
  using assms by (simp_all add: authority_wf_def)

lemma distinct_ids_mono: "distinct_ids H ids \<Longrightarrow> ids' \<subseteq> ids \<Longrightarrow> distinct_ids H ids'"
  unfolding distinct_ids_def by (blast intro: inj_on_subset)

lemma grant_keys_mono: "S \<subseteq> T \<Longrightarrow> grant_keys H valid S \<subseteq> grant_keys H valid T"
  by (auto simp: grant_keys_def)

lemma grant_keys_insert:
  "fmlookup valid x = Some ev \<Longrightarrow> grant_keys H valid (insert x S) = keys_issued H x ev \<union> grant_keys H valid S"
  by (simp add: grant_keys_def)

lemma keys_issued_cases: "keys_issued H eid ev \<subseteq> {root_grant H eid, eid}"
  by (auto simp: keys_issued_def split: payload.splits)

lemma issued_fresh:
  assumes "distinct_ids H ids" "S \<subseteq> ids" "eid \<in> ids" "eid \<notin> S" "g \<in> keys_issued H eid ev"
  shows "g \<notin> grant_keys H valid S"
proof
  assume "g \<in> grant_keys H valid S"
  then obtain x where x: "x \<in> S" "g = root_grant H x \<or> g = x"
    using keys_issued_cases by (fastforce simp: grant_keys_def split: option.splits)
  moreover have "g = root_grant H eid \<or> g = eid" using assms(5) keys_issued_cases by blast
  ultimately show False using assms(1-4) unfolding distinct_ids_def inj_on_def by blast
qed

section \<open>The invariant of the scheduling loop\<close>

definition ancestors_ok :: "corpus \<Rightarrow> (hash, hash set) fmap \<Rightarrow> bool" where
  "ancestors_ok valid A \<longleftrightarrow> fmdom' A \<subseteq> fmdom' valid \<and>
     (\<forall>x past. fmlookup A x = Some past \<longrightarrow> past = anc valid x \<and> anc valid x \<subseteq> fmdom' A)"

definition step_lineage :: "(hash, hash set) fmap \<Rightarrow> hash \<Rightarrow> hash option \<Rightarrow> hash set \<Rightarrow> bool" where
  "step_lineage L g issuer path \<longleftrightarrow> (case issuer of None \<Rightarrow> path = {g}
     | Some i \<Rightarrow> (\<exists>up. fmlookup L i = Some up \<and> g \<notin> up \<and> path = insert g up))"

definition lineage_ok :: "(hash, hash set) fmap \<Rightarrow> (hash, grant) fmap \<Rightarrow> bool" where
  "lineage_ok L G \<longleftrightarrow> fmdom' L = fmdom' G \<and>
     (\<forall>g gr path. fmlookup G g = Some gr \<longrightarrow> fmlookup L g = Some path \<longrightarrow>
        path \<subseteq> fmdom' G \<and> step_lineage L g (g_issuer gr) path)"

definition issued_ok :: "(byte list \<Rightarrow> hash) \<Rightarrow> corpus \<Rightarrow> (hash, grant) fmap \<Rightarrow> bool" where
  "issued_ok H valid G \<longleftrightarrow> (\<forall>g gr. fmlookup G g = Some gr \<longrightarrow>
     (\<exists>ev. fmlookup valid (g_issued_by_event gr) = Some ev \<and>
        issued H (g_issued_by_event gr) (envelope_of ev) = Some (Some (g, gr))))"

definition index_ok :: "(byte list \<Rightarrow> hash) \<Rightarrow> corpus \<Rightarrow> index \<Rightarrow> bool" where
  "index_ok H valid ix \<longleftrightarrow> ancestors_ok valid (ix_ancestors ix) \<and>
     fmdom' (ix_grants ix) = grant_keys H valid (fmdom' (ix_ancestors ix)) \<and>
     lineage_ok (ix_lineage ix) (ix_grants ix) \<and> issued_ok H valid (ix_grants ix)"

lemma index_ok_init:
  "index_ok H valid \<lparr>ix_ancestors = fmempty, ix_lineage = fmempty, ix_grants = fmempty\<rparr>"
  by (simp add: index_ok_def ancestors_ok_def lineage_ok_def issued_ok_def grant_keys_def)

lemma lineage_okD:
  assumes "lineage_ok L G" "fmlookup L g = Some path"
  shows "path \<subseteq> fmdom' G" "g \<in> path" "g \<in> fmdom' G"
proof -
  show g: "g \<in> fmdom' G" using assms fmdom'I [OF assms(2)] by (simp add: lineage_ok_def)
  then obtain gr where "fmlookup G g = Some gr" by (rule in_domE)
  with assms have "path \<subseteq> fmdom' G \<and> step_lineage L g (g_issuer gr) path"
    unfolding lineage_ok_def by blast
  then show "path \<subseteq> fmdom' G" "g \<in> path" by (auto simp: step_lineage_def split: option.splits)
qed

lemma lineage_ok_path:
  assumes "lineage_ok L G" "fmlookup G g = Some gr"
  obtains path where "fmlookup L g = Some path" "path \<subseteq> fmdom' G" "step_lineage L g (g_issuer gr) path"
proof -
  from assms have "g \<in> fmdom' L" by (simp add: lineage_ok_def fmdom'I)
  then obtain path where path: "fmlookup L g = Some path" by (rule in_domE)
  with assms have "path \<subseteq> fmdom' G \<and> step_lineage L g (g_issuer gr) path" by (simp add: lineage_ok_def)
  with path that show thesis by blast
qed

text \<open>Adding a fresh grant keeps the lineages.\<close>

lemma step_lineage_upd:
  assumes "step_lineage L h iss p" "g \<notin> fmdom' L"
  shows "step_lineage (fmupd g q L) h iss p"
proof (cases iss)
  case (Some i)
  with assms(1) obtain up where "fmlookup L i = Some up" "h \<notin> up" "p = insert h up"
    by (auto simp: step_lineage_def)
  moreover from this assms(2) have "i \<noteq> g" using fmdom'I by metis
  ultimately show ?thesis using Some by (simp add: step_lineage_def)
qed (use assms(1) in \<open>simp add: step_lineage_def\<close>)

lemma lineage_ok_add:
  assumes ok: "lineage_ok L G" and fresh: "g \<notin> fmdom' G"
    and path: "(case g_issuer gr of None \<Rightarrow> Some {} | Some i \<Rightarrow> fmlookup L i) = Some path"
  shows "lineage_ok (fmupd g (insert g path) L) (fmupd g gr G)"
proof -
  have dom: "fmdom' L = fmdom' G" using ok by (simp add: lineage_ok_def)
  have sub: "path \<subseteq> fmdom' G"
    using path lineage_okD(1) [OF ok] by (cases "g_issuer gr") auto
  have "step_lineage L g (g_issuer gr) (insert g path)"
    using path sub fresh by (auto simp: step_lineage_def split: option.splits)
  then have new: "step_lineage (fmupd g (insert g path) L) g (g_issuer gr) (insert g path)"
    using fresh dom by (intro step_lineage_upd) auto
  show ?thesis unfolding lineage_ok_def
  proof (intro conjI allI impI)
    fix h hr p
    assume h: "fmlookup (fmupd g gr G) h = Some hr" "fmlookup (fmupd g (insert g path) L) h = Some p"
    show "p \<subseteq> fmdom' (fmupd g gr G)"
      using h lineage_okD(1) [OF ok] sub by (cases "h = g") auto
    show "step_lineage (fmupd g (insert g path) L) h (g_issuer hr) p"
    proof (cases "h = g")
      case True
      with h new show ?thesis by simp
    next
      case False
      with h ok have "step_lineage L h (g_issuer hr) p" by (auto simp: lineage_ok_def)
      then show ?thesis using fresh dom by (intro step_lineage_upd) auto
    qed
  qed (simp add: dom)
qed

lemma issued_total:
  assumes "event_wf H valid eid ev"
  shows "\<exists>x. issued H eid (envelope_of ev) = Some x \<and>
    keys_issued H eid ev = (case x of None \<Rightarrow> {} | Some (g, gr) \<Rightarrow> {g}) \<and>
    (case x of None \<Rightarrow> True | Some (g, gr) \<Rightarrow> g_issued_by_event gr = eid \<and>
      (case g_issuer gr of None \<Rightarrow> True | Some i \<Rightarrow> i \<in> grant_keys H valid (past_of valid ev)))"
  using assms by (auto simp: issued_def event_wf_def keys_issued_def split: payload.splits)

lemma ancestors_ok_lookup:
  assumes "ancestors_ok valid A" "p \<in> fmdom' A"
  shows "fmlookup A p = Some (anc valid p)" "anc valid p \<subseteq> fmdom' A"
  using assms by (auto simp: ancestors_ok_def elim!: in_domE)

lemma ancestors_ok_add:
  assumes "ancestors_ok valid A" "fmlookup valid eid = Some ev" "set (parents_of ev) \<subseteq> fmdom' A"
  shows "ancestors_ok valid (fmupd eid (anc valid eid) A)"
proof -
  have "anc valid eid \<subseteq> insert eid (fmdom' A)"
    using anc_unfold [OF assms(2)] ancestors_ok_lookup(2) [OF assms(1)] assms(3) by auto
  moreover have "past = anc valid x \<and> anc valid x \<subseteq> insert eid (fmdom' A)"
    if "fmlookup A x = Some past" for x past
    using that assms(1) unfolding ancestors_ok_def by blast
  ultimately show ?thesis
    using assms(1) fmdom'I [OF assms(2)] unfolding ancestors_ok_def by simp
qed

lemma index_event_fresh:
  assumes wf: "authority_wf H valid" and ok: "index_ok H valid ix" and ev: "fmlookup valid eid = Some ev"
    and new: "eid \<notin> fmdom' (ix_ancestors ix)" and ps: "set (parents_of ev) \<subseteq> fmdom' (ix_ancestors ix)"
  shows "\<exists>ix'. index_event H valid eid ix = Some ix' \<and> index_ok H valid ix' \<and>
    fmdom' (ix_ancestors ix') = insert eid (fmdom' (ix_ancestors ix))"
proof -
  let ?A = "ix_ancestors ix"
  have ok': "ancestors_ok valid ?A" "fmdom' (ix_grants ix) = grant_keys H valid (fmdom' ?A)"
    "lineage_ok (ix_lineage ix) (ix_grants ix)" "issued_ok H valid (ix_grants ix)"
    using ok by (simp_all add: index_ok_def)
  note new_anc = ancestors_ok_add [OF ok'(1) ev ps]
  have "mapM (fmlookup ?A) (parents_of ev) = Some (map (anc valid) (parents_of ev))"
    using ps by (intro mapM_Some ancestors_ok_lookup(1) [OF ok'(1)]) auto
  moreover have "insert eid (\<Union>(set (map (anc valid) (parents_of ev)))) = anc valid eid"
    using anc_unfold [OF ev] by simp
  moreover have "\<not> (has ?A eid \<or> list_ex (\<lambda>p. \<not> has ?A p) (parents_of ev))"
    using new ps by (auto simp: has_iff list_ex_iff)
  ultimately have run: "index_event H valid eid ix = do {
      let st = ix\<lparr>ix_ancestors := fmupd eid (anc valid eid) ?A\<rparr>;
      grant \<leftarrow> issued H eid (envelope_of ev);
      (case grant of None \<Rightarrow> Some st
       | Some (g, grant) \<Rightarrow> do {
           path \<leftarrow> (case g_issuer grant of None \<Rightarrow> Some {} | Some i \<Rightarrow> fmlookup (ix_lineage st) i);
           Some (st\<lparr>ix_lineage := fmupd g (insert g path) (ix_lineage st),
             ix_grants := fmupd g grant (ix_grants st)\<rparr>)})}"
    by (simp add: index_event_def ev del: set_map)
  from issued_total [OF authority_wfD(4) [OF wf ev]] obtain x where
    x: "issued H eid (envelope_of ev) = Some x" "keys_issued H eid ev = (case x of None \<Rightarrow> {} | Some (g, gr) \<Rightarrow> {g})"
    and gr: "case x of None \<Rightarrow> True | Some (g, gr) \<Rightarrow> g_issued_by_event gr = eid \<and>
      (case g_issuer gr of None \<Rightarrow> True | Some i \<Rightarrow> i \<in> grant_keys H valid (past_of valid ev))" by blast
  show ?thesis
  proof (cases x)
    case None
    with run x ok' ev new_anc show ?thesis by (simp add: index_ok_def grant_keys_insert)
  next
    case (Some y)
    then obtain g gr where y: "x = Some (g, gr)" by (cases y) auto
    have keys: "keys_issued H eid ev = {g}" using x(2) y by simp
    have "fmdom' ?A \<subseteq> fmdom' valid" "eid \<in> fmdom' valid"
      using ok'(1) ev by (auto simp: ancestors_ok_def intro: fmdom'I)
    then have fresh: "g \<notin> fmdom' (ix_grants ix)"
      using issued_fresh [OF authority_wfD(3) [OF wf], of "fmdom' ?A" eid g ev valid] new keys ok'(2) by simp
    have "past_of valid ev \<subseteq> fmdom' ?A"
      using ps ancestors_ok_lookup(2) [OF ok'(1)] by (auto simp: past_of_def)
    then have up: "grant_keys H valid (past_of valid ev) \<subseteq> fmdom' (ix_lineage ix)"
      using grant_keys_mono [of "past_of valid ev" "fmdom' ?A" H valid] ok'(2,3) by (simp add: lineage_ok_def)
    obtain path where path: "(case g_issuer gr of None \<Rightarrow> Some {} | Some i \<Rightarrow> fmlookup (ix_lineage ix) i) = Some path"
      using gr y up by (cases "g_issuer gr") (auto elim: in_domE)
    have iss: "issued_ok H valid (fmupd g gr (ix_grants ix))"
      using ok'(4) x(1) y gr ev by (auto simp: issued_ok_def)
    show ?thesis
      using run x(1) y path keys ok'(2) ev new_anc iss lineage_ok_add [OF ok'(3) fresh path]
      by (simp add: index_ok_def grant_keys_insert Let_def cong: option.case_cong)
  qed
qed

section \<open>The loop ends with the index of all events\<close>

abbreviation index_deps :: "(byte list \<Rightarrow> hash) \<Rightarrow> corpus \<Rightarrow> (hash \<times> hash) set" where
  "index_deps H valid \<equiv> (if authority_wf H valid then parent_rel valid else {})"

interpretation ix: scheduler "keys valid" "index_event H valid" "\<lambda>st. fmdom' (ix_ancestors st)"
    "\<lambda>st. authority_wf H valid \<and> index_ok H valid st" "index_deps H valid" for H valid
proof
  fix eid st
  assume "eid \<in> set (keys valid)" and st: "authority_wf H valid \<and> index_ok H valid st"
  then obtain ev where ev: "fmlookup valid eid = Some ev" by (auto elim: in_domE)
  show "\<exists>s'. index_event H valid eid st = Some s' \<and> (authority_wf H valid \<and> index_ok H valid s') \<and>
      fmdom' (ix_ancestors st) \<subseteq> fmdom' (ix_ancestors s') \<and>
      fmdom' (ix_ancestors s') \<subseteq> insert eid (fmdom' (ix_ancestors st))"
  proof (cases "has (ix_ancestors st) eid \<or> list_ex (\<lambda>p. \<not> has (ix_ancestors st) p) (parents_of ev)")
    case True
    with ev st show ?thesis by (auto simp: index_event_def)
  next
    case False
    then have "eid \<notin> fmdom' (ix_ancestors st)" "set (parents_of ev) \<subseteq> fmdom' (ix_ancestors st)"
      by (auto simp: has_iff list_ex_iff)
    with index_event_fresh [of H valid st eid ev] st ev show ?thesis by auto
  qed
  fix st'
  assume run: "index_event H valid eid st = Some st'"
    and deps: "\<And>p. (p, eid) \<in> index_deps H valid \<Longrightarrow> p \<in> fmdom' (ix_ancestors st)"
  have ps: "set (parents_of ev) \<subseteq> fmdom' (ix_ancestors st)"
    using deps st ev by (auto simp: parent_rel_def)
  show "eid \<in> fmdom' (ix_ancestors st')"
  proof (cases "eid \<in> fmdom' (ix_ancestors st)")
    case True
    with run ev show ?thesis by (simp add: index_event_def has_iff)
  next
    case False
    with index_event_fresh [of H valid st eid ev] st ev ps run show ?thesis by auto
  qed
next
  show "wf (index_deps H valid)" by (auto dest: authority_wfD(2))
  show "p \<in> set (keys valid)" if "(p, eid) \<in> index_deps H valid" for p eid
    using that by (auto simp: parent_rel_def dest: authority_wfD(1) causally_closedD split: if_splits)
qed

lemma fm_len_card: "fm_len m = card (fmdom' m)"
  by (simp add: fm_len_def fmdom'_alt_def fcard.rep_eq)

lemma fm_len_less:
  "fmdom' m \<subseteq> fmdom' n \<Longrightarrow> fm_len m < fm_len n \<longleftrightarrow> \<not> fmdom' n \<subseteq> fmdom' m"
  by (metis card_mono card_subset_eq finite_fmdom' fm_len_card le_neq_implies_less not_le subset_antisym)

lemma index_events_total:
  assumes "authority_wf H valid"
  shows "\<exists>ix. index_events H valid = Some ix \<and> index_ok H valid ix \<and> fmdom' (ix_ancestors ix) = fmdom' valid"
proof -
  have "\<exists>ix. index_events H valid = Some ix \<and> (authority_wf H valid \<and> index_ok H valid ix) \<and>
      fmdom' (ix_ancestors ix) = set (keys valid)"
    unfolding index_events_def
    by (rule ix.schedule_all [of H valid])
      (simp_all add: assms index_ok_init fm_len_less)
  then show ?thesis by auto
qed

end
