(* ===== verification/Revocation.thy ===== *)
theory Revocation
  imports Lineage
begin

text \<open>
  What \<open>derive\<close> computes on a well-formed set of valid events: it returns, the lineage of a
  grant is its chain of issuers, a grant is canceled exactly when an effective revocation reaches
  the grant it was issued under, the effective revocations are the fixed point of the
  shallower-signer-first rule, and suppression propagates to exactly the dependent events.
\<close>

section \<open>Lineage is the chain of issuers\<close>

definition issuer_rel :: "(hash, grant) fmap \<Rightarrow> (hash \<times> hash) set" where
  "issuer_rel G = {(i, g). \<exists>gr. fmlookup G g = Some gr \<and> g_issuer gr = Some i}"

definition issuers :: "(hash, grant) fmap \<Rightarrow> hash \<Rightarrow> hash set" where
  "issuers G g = {t. (t, g) \<in> (issuer_rel G)\<^sup>*}"

lemma issuers_unfold:
  assumes "fmlookup G g = Some gr"
  shows "issuers G g = (case g_issuer gr of None \<Rightarrow> {g} | Some i \<Rightarrow> insert g (issuers G i))"
proof -
  have rel: "(i, g) \<in> issuer_rel G \<longleftrightarrow> g_issuer gr = Some i" for i
    using assms by (simp add: issuer_rel_def)
  have "(t, g) \<in> (issuer_rel G)\<^sup>* \<longleftrightarrow> t = g \<or> (\<exists>i. g_issuer gr = Some i \<and> (t, i) \<in> (issuer_rel G)\<^sup>*)" for t
    by (auto simp: rel elim: rtranclE intro: rtrancl_into_rtrancl)
  then show ?thesis by (auto simp: issuers_def split: option.splits)
qed

lemma finite_path [simp]: "finite (path :: hash set)"
  by (rule finite)

lemma lineage_issuers:
  assumes ok: "lineage_ok L G"
  shows "fmlookup L g = Some path \<Longrightarrow> path = issuers G g"
proof (induction "card path" arbitrary: g path rule: less_induct)
  case less
  from lineage_okD(3) [OF ok less.prems] obtain gr where gr: "fmlookup G g = Some gr" by (rule in_domE)
  from lineage_ok_path [OF ok gr] less.prems have step: "step_lineage L g (g_issuer gr) path" by auto
  show ?case
  proof (cases "g_issuer gr")
    case None
    with step issuers_unfold [OF gr] show ?thesis by (simp add: step_lineage_def)
  next
    case (Some i)
    with step obtain up where up: "fmlookup L i = Some up" "g \<notin> up" "path = insert g up"
      by (auto simp: step_lineage_def)
    then have "card up < card path" by simp
    from less.hyps [OF this up(1)] up Some issuers_unfold [OF gr] show ?thesis by simp
  qed
qed

lemma lineage_len_issuer:
  assumes ok: "lineage_ok (ix_lineage ix) (ix_grants ix)" and gr: "fmlookup (ix_grants ix) g = Some gr"
    and "g_issuer gr = Some i"
  shows "i \<in> fmdom' (ix_grants ix)" "lineage_len ix g = Suc (lineage_len ix i)"
proof -
  obtain path where path: "fmlookup (ix_lineage ix) g = Some path"
    "step_lineage (ix_lineage ix) g (g_issuer gr) path" using lineage_ok_path [OF ok gr] by blast
  with assms(3) obtain up where up: "fmlookup (ix_lineage ix) i = Some up"
    "g \<notin> up" "path = insert g up" by (auto simp: step_lineage_def)
  with path show "lineage_len ix g = Suc (lineage_len ix i)" by (simp add: lineage_len_def)
  from lineage_okD(3) [OF ok up(1)] show "i \<in> fmdom' (ix_grants ix)" .
qed

section \<open>Coverage\<close>

definition covered :: "corpus \<Rightarrow> (hash, grant) fmap \<Rightarrow> hash \<Rightarrow> hash \<Rightarrow> bool" where
  "covered valid G r g \<longleftrightarrow> (case revoke_of valid r of None \<Rightarrow> False
     | Some (target, cascade) \<Rightarrow> target = g \<or> cascade \<and> target \<in> issuers G g)"

definition concurrent :: "corpus \<Rightarrow> hash \<Rightarrow> hash \<Rightarrow> bool" where
  "concurrent valid e r \<longleftrightarrow> (case fmlookup valid r of None \<Rightarrow> False
     | Some ev \<Rightarrow> (case parents_of ev of [] \<Rightarrow> False | p # _ \<Rightarrow> e \<notin> anc valid p))"

definition controlled :: "corpus \<Rightarrow> (hash, grant) fmap \<Rightarrow> hash \<Rightarrow> hash \<Rightarrow> hash \<Rightarrow> bool" where
  "controlled valid G g e r \<longleftrightarrow> covered valid G r g \<and> concurrent valid e r"

text \<open>The index after the scheduling loop.\<close>

definition full_index :: "(byte list \<Rightarrow> hash) \<Rightarrow> corpus \<Rightarrow> index \<Rightarrow> bool" where
  "full_index H valid ix \<longleftrightarrow> authority_wf H valid \<and> index_ok H valid ix \<and>
     fmdom' (ix_ancestors ix) = fmdom' valid"

lemma full_indexD:
  assumes "full_index H valid ix"
  shows "authority_wf H valid" "ancestors_ok valid (ix_ancestors ix)"
    "lineage_ok (ix_lineage ix) (ix_grants ix)" "fmdom' (ix_grants ix) = grant_keys H valid (fmdom' valid)"
    "fmdom' (ix_ancestors ix) = fmdom' valid" "issued_ok H valid (ix_grants ix)"
  using assms by (simp_all add: full_index_def index_ok_def)

lemma revokesE:
  assumes "r \<in> set (revokes valid)"
  obtains ev t c d where "fmlookup valid r = Some ev" "payload_of ev = Revoke t c d" "revoke_of valid r = Some (t, c)"
  using assms by (cases "fmlookup valid r") (auto simp: revokes_def revoke_of_def split: payload.splits)

lemma covers_Some:
  assumes ix: "full_index H valid ix" and r: "r \<in> set (revokes valid)" and g: "g \<in> fmdom' (ix_grants ix)"
  shows "covers valid ix r g = Some (covered valid (ix_grants ix) r g)"
proof -
  from g full_indexD(3) [OF ix] have "g \<in> fmdom' (ix_lineage ix)" by (simp add: lineage_ok_def)
  then obtain path where path: "fmlookup (ix_lineage ix) g = Some path" by (rule in_domE)
  obtain t c where "revoke_of valid r = Some (t, c)" using r by (rule revokesE)
  with lineage_issuers [OF full_indexD(3) [OF ix] path] path show ?thesis
    by (auto simp: covers_def covered_def)
qed

lemma outside_Some:
  assumes ix: "full_index H valid ix" and r: "r \<in> set (revokes valid)"
  shows "outside valid ix e r = Some (concurrent valid e r)"
proof -
  obtain ev t c d where ev: "fmlookup valid r = Some ev" "payload_of ev = Revoke t c d"
    using r by (rule revokesE)
  with authority_wfD(4) [OF full_indexD(1) [OF ix] ev(1)] obtain p ps where ps: "parents_of ev = p # ps"
    by (cases "parents_of ev") (auto simp: event_wf_def)
  then have "p \<in> fmdom' valid"
    using causally_closedD [OF authority_wfD(1) [OF full_indexD(1) [OF ix]] ev(1)] by simp
  then have "fmlookup (ix_ancestors ix) p = Some (anc valid p)"
    using ancestors_ok_lookup(1) [OF full_indexD(2) [OF ix]] full_indexD(5) [OF ix] by simp
  with ev ps show ?thesis by (simp add: outside_def concurrent_def)
qed

lemma controls_Some:
  assumes "full_index H valid ix" "r \<in> set (revokes valid)" "g \<in> fmdom' (ix_grants ix)"
  shows "controls valid ix g e r = Some (controlled valid (ix_grants ix) g e r)"
  by (simp add: controls_def controlled_def covers_Some [OF assms] outside_Some [OF assms(1,2)])

lemma signer_granted:
  assumes "full_index H valid ix" "fmlookup valid eid = Some ev"
  shows "signer H eid ev \<in> fmdom' (ix_grants ix)"
proof -
  note wf = full_indexD(1) [OF assms(1)]
  have "eid \<in> fmdom' valid" using assms(2) by (rule fmdom'I)
  moreover have "past_of valid ev \<subseteq> fmdom' valid"
    using anc_closed [OF authority_wfD(1) [OF wf]] causally_closedD [OF authority_wfD(1) [OF wf] assms(2)]
    by (auto simp: past_of_def)
  ultimately have "grant_keys H valid (insert eid (past_of valid ev)) \<subseteq> grant_keys H valid (fmdom' valid)"
    by (intro grant_keys_mono) auto
  then have "grant_keys H valid (past_of valid ev) \<union> keys_issued H eid ev \<subseteq> grant_keys H valid (fmdom' valid)"
    by (auto simp: grant_keys_insert [OF assms(2)])
  with authority_wfD(4) [OF wf assms(2)] full_indexD(4) [OF assms(1)] show ?thesis
    by (auto simp: event_wf_def)
qed

section \<open>Cancellations\<close>

text \<open>
  \<open>cancel_ctl G eff r g\<close>: the revocation \<open>r\<close> cancels the grant \<open>g\<close>, because it controls the
  issuing of \<open>g\<close> under its issuer, or because it cancels the issuer.
\<close>

inductive cancel_ctl :: "corpus \<Rightarrow> (hash, grant) fmap \<Rightarrow> hash set \<Rightarrow> hash \<Rightarrow> hash \<Rightarrow> bool"
  for valid G eff r where
  direct: "fmlookup G g = Some gr \<Longrightarrow> g_issuer gr = Some i \<Longrightarrow> r \<in> eff \<Longrightarrow>
     controlled valid G i (g_issued_by_event gr) r \<Longrightarrow> cancel_ctl valid G eff r g"
| inherit: "fmlookup G g = Some gr \<Longrightarrow> g_issuer gr = Some i \<Longrightarrow> cancel_ctl valid G eff r i \<Longrightarrow>
     cancel_ctl valid G eff r g"

inductive_cases cancel_ctlE: "cancel_ctl valid G eff r g"

lemma cancel_ctl_unfold:
  assumes "fmlookup G g = Some gr"
  shows "{r. cancel_ctl valid G eff r g} = (case g_issuer gr of None \<Rightarrow> {}
    | Some i \<Rightarrow> {r. cancel_ctl valid G eff r i} \<union> {r \<in> eff. controlled valid G i (g_issued_by_event gr) r})"
  using assms by (auto split: option.splits intro: cancel_ctl.intros elim: cancel_ctlE)

definition cancel_map :: "corpus \<Rightarrow> (hash, grant) fmap \<Rightarrow> hash set \<Rightarrow> hash \<Rightarrow> hash set option" where
  "cancel_map valid G eff g =
     (if {r. cancel_ctl valid G eff r g} = {} then None else Some {r. cancel_ctl valid G eff r g})"

lemma order_issuer_first:
  assumes ix: "full_index H valid ix" and order: "grant_order ix = Some order"
    and split: "order = pre @ g # post" and gr: "fmlookup (ix_grants ix) g = Some gr" "g_issuer gr = Some i"
  shows "i \<in> set pre"
proof -
  note len = lineage_len_issuer [OF full_indexD(3) [OF ix] gr]
  have srt: "sorted (map (lineage_len ix) order)" and "set order = fmdom' (ix_grants ix)"
    using order by (auto simp: grant_order_def split: if_splits)
  then have "i \<in> set order" using len(1) by simp
  moreover have "lineage_len ix g \<le> lineage_len ix h" if "h \<in> set (g # post)" for h
    using srt that by (auto simp: split sorted_append)
  then have "i \<notin> set (g # post)" using len(2) by fastforce
  ultimately show ?thesis by (simp add: split)
qed

lemma grant_order_Some:
  assumes "full_index H valid ix"
  shows "\<exists>order. grant_order ix = Some order \<and> set order = fmdom' (ix_grants ix) \<and> distinct order"
  using full_indexD(3) [OF assms]
  by (auto simp: grant_order_def list_all_iff has_iff lineage_ok_def)

lemma cancellations_spec:
  assumes ix: "full_index H valid ix" and order: "grant_order ix = Some order" and eff: "eff \<subseteq> set (revokes valid)"
  shows "\<exists>C. cancellations valid ix order eff = Some C \<and> fmlookup C = cancel_map valid (ix_grants ix) eff"
proof -
  let ?G = "ix_grants ix"
  let ?I = "\<lambda>pre C. \<forall>g. fmlookup C g = (if g \<in> set pre then cancel_map valid ?G eff g else None)"
  have dom: "set order = fmdom' ?G" and dist: "distinct order"
    using grant_order_Some [OF ix] order by auto
  have "\<exists>C. for_each (cancel_step valid ix eff) order fmempty = Some C \<and> ?I order C"
  proof (rule for_each_rule)
    fix pre g post C
    assume split: "order = pre @ g # post" and I: "?I pre C"
    then have "g \<in> fmdom' ?G" "g \<notin> set pre" using dom dist by auto
    then obtain gr where gr: "fmlookup ?G g = Some gr" by (auto elim: in_domE)
    show "\<exists>C'. cancel_step valid ix eff g C = Some C' \<and> ?I (pre @ [g]) C'"
    proof (cases "g_issuer gr")
      case None
      with gr I \<open>g \<notin> set pre\<close> show ?thesis
        using cancel_ctl_unfold [OF gr, of valid eff] by (auto simp: cancel_step_def cancel_map_def)
    next
      case (Some i)
      have "i \<in> set pre" by (rule order_issuer_first [OF ix order split gr Some])
      with I have "fmlookup C i = cancel_map valid ?G eff i" by simp
      then have up: "(case fmlookup C i of Some s \<Rightarrow> s | None \<Rightarrow> {}) = {r. cancel_ctl valid ?G eff r i}"
        by (simp add: cancel_map_def)
      have "i \<in> fmdom' ?G" by (rule lineage_len_issuer [OF full_indexD(3) [OF ix] gr Some])
      define K where "K = {r. cancel_ctl valid ?G eff r g}"
      define found where "found = filter (controlled valid ?G i (g_issued_by_event gr)) (sorted_list_of_set eff)"
      have "filterM (controls valid ix i (g_issued_by_event gr)) (sorted_list_of_set eff) = Some found"
        unfolding found_def using eff \<open>i \<in> fmdom' ?G\<close> by (intro filterM_Some controls_Some [OF ix]) auto
      moreover have "{r. cancel_ctl valid ?G eff r i} \<union> set found = K"
        using cancel_ctl_unfold [OF gr, of valid eff] Some by (auto simp: K_def found_def)
      ultimately have "cancel_step valid ix eff g C = Some (if K = {} then C else fmupd g K C)"
        using gr Some by (auto simp: cancel_step_def Let_def up)
      moreover have "?I (pre @ [g]) (if K = {} then C else fmupd g K C)"
        using I \<open>g \<notin> set pre\<close> by (auto simp: cancel_map_def K_def)
      ultimately show ?thesis by blast
    qed
  qed simp
  moreover have "cancel_map valid ?G eff g = None" if "g \<notin> fmdom' ?G" for g
  proof -
    have "fmlookup ?G g = None" using that by (simp add: fmdom'_notD)
    then have "\<not> cancel_ctl valid ?G eff r g" for r by (auto elim: cancel_ctlE)
    then show ?thesis by (simp add: cancel_map_def)
  qed
  ultimately show ?thesis using dom by (auto simp: cancellations_def fun_eq_iff)
qed

section \<open>Effective revocations\<close>

lemma relinquishments_Some:
  assumes ix: "full_index H valid ix"
  shows "\<exists>R. relinquishments H valid ix = Some R \<and> R \<subseteq> set (revokes valid) \<and>
    (\<forall>r ev t c. fmlookup valid r = Some ev \<longrightarrow> revoke_of valid r = Some (t, c) \<longrightarrow>
       (r \<in> R \<longleftrightarrow> signer H r ev = t \<and> (\<exists>gr. fmlookup (ix_grants ix) t = Some gr \<and> g_issuer gr = None)))"
proof -
  let ?f = "\<lambda>r. (case revoke_of valid r of None \<Rightarrow> False | Some (t, c) \<Rightarrow>
    (case fmlookup valid r of None \<Rightarrow> False | Some ev \<Rightarrow> signer H r ev = t \<and>
      (\<exists>gr. fmlookup (ix_grants ix) t = Some gr \<and> g_issuer gr = None)))"
  have "relinquished H valid ix r = Some (?f r)" if r: "r \<in> set (revokes valid)" for r
  proof -
    obtain ev t c d where ev: "fmlookup valid r = Some ev" "revoke_of valid r = Some (t, c)"
      using r by (rule revokesE)
    obtain gr where "fmlookup (ix_grants ix) (signer H r ev) = Some gr"
      using signer_granted [OF ix ev(1)] by (rule in_domE)
    with ev show ?thesis by (auto simp: relinquished_def)
  qed
  then have "relinquishments H valid ix = Some (set (filter ?f (revokes valid)))"
    by (simp add: relinquishments_def filterM_Some del: set_filter)
  moreover have "r \<in> set (revokes valid)" if "fmlookup valid r = Some ev" "revoke_of valid r = Some (t, c)" for r ev t c
    using that by (auto simp: revokes_def intro: fmdom'I)
  ultimately show ?thesis by auto
qed

text \<open>
  The rule of one depth: a revocation whose signing grant has this lineage length is effective
  unless its signer is canceled or an already effective revocation controls it.
\<close>

definition stands :: "(byte list \<Rightarrow> hash) \<Rightarrow> corpus \<Rightarrow> (hash, grant) fmap \<Rightarrow> hash set \<Rightarrow> hash \<Rightarrow> bool" where
  "stands H valid G eff r \<longleftrightarrow> (case fmlookup valid r of None \<Rightarrow> False
     | Some ev \<Rightarrow> (\<nexists>q. cancel_ctl valid G eff q (signer H r ev)) \<and>
         (\<nexists>q. q \<in> eff \<and> controlled valid G (signer H r ev) r q))"

definition sign_depth :: "(byte list \<Rightarrow> hash) \<Rightarrow> corpus \<Rightarrow> index \<Rightarrow> hash \<Rightarrow> nat" where
  "sign_depth H valid ix r = (case fmlookup valid r of None \<Rightarrow> 0 | Some ev \<Rightarrow> lineage_len ix (signer H r ev))"

lemma lineage_lookup:
  assumes "full_index H valid ix" "g \<in> fmdom' (ix_grants ix)"
  obtains path where "fmlookup (ix_lineage ix) g = Some path" "lineage_len ix g = card path"
proof -
  from assms full_indexD(3) [OF assms(1)] have "g \<in> fmdom' (ix_lineage ix)" by (simp add: lineage_ok_def)
  then obtain path where "fmlookup (ix_lineage ix) g = Some path" by (rule in_domE)
  with that show thesis by (simp add: lineage_len_def)
qed

lemma revoke_depth_Some:
  assumes ix: "full_index H valid ix" and order: "grant_order ix = Some order" and eff: "eff \<subseteq> set (revokes valid)"
  shows "revoke_depth H valid ix order R d eff = Some (eff \<union> {r \<in> set (revokes valid).
    sign_depth H valid ix r = d \<and> r \<notin> R \<and> stands H valid (ix_grants ix) eff r})"
proof -
  obtain C where C: "cancellations valid ix order eff = Some C"
    "fmlookup C = cancel_map valid (ix_grants ix) eff"
    using cancellations_spec [OF ix order eff] by blast
  let ?f = "\<lambda>r. sign_depth H valid ix r = d \<and> r \<notin> R \<and> stands H valid (ix_grants ix) eff r"
  have "in_batch H valid ix R C eff d r = Some (?f r)" if r: "r \<in> set (revokes valid)" for r
  proof -
    obtain ev where ev: "fmlookup valid r = Some ev" using r by (rule revokesE)
    note g = signer_granted [OF ix ev]
    obtain path where path: "fmlookup (ix_lineage ix) (signer H r ev) = Some path"
      "lineage_len ix (signer H r ev) = card path" using ix g by (rule lineage_lookup)
    have "anyM (controls valid ix (signer H r ev) r) (sorted_list_of_set eff) =
        Some (\<exists>q\<in>set (sorted_list_of_set eff). controlled valid (ix_grants ix) (signer H r ev) r q)"
      using eff by (intro anyM_Some controls_Some [OF ix _ g]) auto
    moreover have "has C (signer H r ev) \<longleftrightarrow> (\<exists>q. cancel_ctl valid (ix_grants ix) eff q (signer H r ev))"
      by (auto simp: has_def C(2) cancel_map_def)
    ultimately show ?thesis using ev path
      by (auto simp: in_batch_def stands_def sign_depth_def Let_def)
  qed
  then show ?thesis by (simp add: revoke_depth_def C(1) filterM_Some)
qed

text \<open>The effective revocations after the first \<open>d\<close> depths.\<close>

primrec eff_at :: "(byte list \<Rightarrow> hash) \<Rightarrow> corpus \<Rightarrow> index \<Rightarrow> hash set \<Rightarrow> nat \<Rightarrow> hash set" where
  "eff_at H valid ix R 0 = R"
| "eff_at H valid ix R (Suc d) = eff_at H valid ix R d \<union> {r \<in> set (revokes valid).
     sign_depth H valid ix r = Suc d \<and> r \<notin> R \<and> stands H valid (ix_grants ix) (eff_at H valid ix R d) r}"

lemma eff_at_revokes: "R \<subseteq> set (revokes valid) \<Longrightarrow> eff_at H valid ix R d \<subseteq> set (revokes valid)"
  by (induction d) auto

lemma depth_loop:
  assumes "full_index H valid ix" "grant_order ix = Some order" "R \<subseteq> set (revokes valid)"
  shows "for_each (revoke_depth H valid ix order R) [1..<Suc d] R = Some (eff_at H valid ix R d)"
proof (induction d)
  case (Suc d)
  have "[1..<Suc (Suc d)] = [1..<Suc d] @ [Suc d]" by simp
  with Suc revoke_depth_Some [OF assms(1,2) eff_at_revokes [OF assms(3)]] show ?case
    by (simp add: for_each_append del: upt_Suc)
qed simp

lemma eff_at_depth: "r \<in> eff_at H valid ix R d \<Longrightarrow> r \<in> R \<or> sign_depth H valid ix r \<le> d"
  by (induction d) auto

lemma eff_at_shallow:
  "d \<le> D \<Longrightarrow> eff_at H valid ix R d = {q \<in> eff_at H valid ix R D. q \<in> R \<or> sign_depth H valid ix q \<le> d}"
proof (induction D)
  case 0
  then show ?case by auto
next
  case (Suc D)
  show ?case
  proof (cases "d = Suc D")
    case True
    then show ?thesis using eff_at_depth by blast
  next
    case False
    then have "d \<le> D" using Suc.prems by simp
    then have "{q \<in> eff_at H valid ix R (Suc D). q \<in> R \<or> sign_depth H valid ix q \<le> d} =
        {q \<in> eff_at H valid ix R D. q \<in> R \<or> sign_depth H valid ix q \<le> d}" by auto
    with Suc.IH [OF \<open>d \<le> D\<close>] show ?thesis by (simp only:)
  qed
qed

lemma max_depth_ge: "g \<in> fmdom' (ix_lineage ix) \<Longrightarrow> lineage_len ix g \<le> max_depth ix"
proof -
  have "g \<in> set gs \<Longrightarrow> lineage_len ix g \<le> foldr (\<lambda>g. max (lineage_len ix g)) gs 0" for gs
    by (induction gs) auto
  from this [of "keys (ix_lineage ix)"] show "g \<in> fmdom' (ix_lineage ix) \<Longrightarrow> ?thesis"
    by (simp add: max_depth_def)
qed

lemma sign_depth_bounds:
  assumes ix: "full_index H valid ix" and r: "r \<in> set (revokes valid)"
  shows "1 \<le> sign_depth H valid ix r" "sign_depth H valid ix r \<le> max_depth ix"
proof -
  obtain ev where ev: "fmlookup valid r = Some ev" using r by (rule revokesE)
  obtain path where path: "fmlookup (ix_lineage ix) (signer H r ev) = Some path"
    "lineage_len ix (signer H r ev) = card path"
    using ix signer_granted [OF ix ev] by (rule lineage_lookup)
  have "path \<noteq> {}" using lineage_okD(2) [OF full_indexD(3) [OF ix] path(1)] by auto
  then show "1 \<le> sign_depth H valid ix r" using ev path by (simp add: sign_depth_def card_gt_0_iff Suc_le_eq)
  show "sign_depth H valid ix r \<le> max_depth ix"
    using ev max_depth_ge [OF fmdom'I [OF path(1)]] by (simp add: sign_depth_def)
qed

text \<open>
  The fixed point: a revocation that is not a relinquishment is effective exactly when it stands
  against the effective revocations with a shallower signer and the relinquishments.
\<close>

lemma eff_at_fixpoint:
  assumes ix: "full_index H valid ix" and r: "r \<in> set (revokes valid)" "r \<notin> R"
  defines "E \<equiv> eff_at H valid ix R (max_depth ix)"
  shows "r \<in> E \<longleftrightarrow> stands H valid (ix_grants ix)
    {q \<in> E. q \<in> R \<or> sign_depth H valid ix q < sign_depth H valid ix r} r"
proof -
  obtain d where d: "sign_depth H valid ix r = Suc d" "Suc d \<le> max_depth ix"
    using sign_depth_bounds [OF ix r(1)] by (cases "sign_depth H valid ix r") auto
  have "{q \<in> E. q \<in> R \<or> sign_depth H valid ix q < Suc d} = eff_at H valid ix R d"
    using eff_at_shallow [of d "max_depth ix" H valid ix R] d(2) by (simp add: E_def less_Suc_eq_le)
  moreover have "r \<in> E \<longleftrightarrow> r \<in> eff_at H valid ix R (Suc d)"
    unfolding eff_at_shallow [OF d(2), of H valid ix R] using d(1) by (simp add: E_def)
  moreover have "r \<notin> eff_at H valid ix R d" using eff_at_depth d(1) r(2) by fastforce
  then have "r \<in> eff_at H valid ix R (Suc d) \<longleftrightarrow> stands H valid (ix_grants ix) (eff_at H valid ix R d) r"
    using d(1) r by simp
  ultimately show ?thesis by (simp only: d(1))
qed

section \<open>Effects\<close>

definition base_effect :: "(byte list \<Rightarrow> hash) \<Rightarrow> corpus \<Rightarrow> (hash, grant) fmap \<Rightarrow> hash set \<Rightarrow> hash set \<Rightarrow>
    hash \<Rightarrow> signed \<Rightarrow> effect" where
  "base_effect H valid G R eff eid ev =
     (if eid \<in> R then \<lparr>ef_reason = ''root_relinquished'', ef_controlling_revokes = {eid}\<rparr>
      else if {r \<in> eff. controlled valid G (signer H eid ev) eid r} \<noteq> {} then
        \<lparr>ef_reason = ''revoked_concurrent'',
         ef_controlling_revokes = {r \<in> eff. controlled valid G (signer H eid ev) eid r}\<rparr>
      else case cancel_map valid G eff eid of
        Some cs \<Rightarrow> \<lparr>ef_reason = ''canceled_grant'', ef_controlling_revokes = cs\<rparr>
      | None \<Rightarrow> (case cancel_map valid G eff (signer H eid ev) of
          Some cs \<Rightarrow> \<lparr>ef_reason = ''canceled_authority'', ef_controlling_revokes = cs\<rparr>
        | None \<Rightarrow> \<lparr>ef_reason = [], ef_controlling_revokes = {}\<rparr>))"

lemma base_effect_controls: "ef_reason (base_effect H valid G R eff eid ev) \<noteq> [] \<Longrightarrow>
    ef_controlling_revokes (base_effect H valid G R eff eid ev) \<noteq> {}"
  by (auto simp: base_effect_def cancel_map_def split: if_splits)

lemma event_effect_Some:
  assumes ix: "full_index H valid ix" and eff: "eff \<subseteq> set (revokes valid)" and ev: "fmlookup valid eid = Some ev"
    and C: "fmlookup C = cancel_map valid (ix_grants ix) eff"
  shows "event_effect H valid ix R C eff eid = Some (base_effect H valid (ix_grants ix) R eff eid ev)"
proof -
  define found where "found = filter (controlled valid (ix_grants ix) (signer H eid ev) eid) (sorted_list_of_set eff)"
  have "filterM (controls valid ix (signer H eid ev) eid) (sorted_list_of_set eff) = Some found"
    unfolding found_def using eff by (intro filterM_Some controls_Some [OF ix _ signer_granted [OF ix ev]]) auto
  moreover have found: "set found = {r \<in> eff. controlled valid (ix_grants ix) (signer H eid ev) eid r}"
    by (auto simp: found_def)
  then have "found \<noteq> [] \<longleftrightarrow> {r \<in> eff. controlled valid (ix_grants ix) (signer H eid ev) eid r} \<noteq> {}"
    by (metis set_empty)
  ultimately show ?thesis using ev unfolding event_effect_def Let_def base_effect_def
    by (simp only: C found bind.bind_lunit)
qed

lemma initial_effects_Some:
  assumes ix: "full_index H valid ix" and eff: "eff \<subseteq> set (revokes valid)"
    and C: "fmlookup C = cancel_map valid (ix_grants ix) eff"
  shows "\<exists>F. initial_effects H valid ix R C eff = Some F \<and>
    (\<forall>eid. fmlookup F eid = map_option (base_effect H valid (ix_grants ix) R eff eid) (fmlookup valid eid))"
proof -
  let ?I = "\<lambda>pre F. \<forall>eid. fmlookup F eid = (if eid \<in> set pre
    then map_option (base_effect H valid (ix_grants ix) R eff eid) (fmlookup valid eid) else None)"
  have "\<exists>F. initial_effects H valid ix R C eff = Some F \<and> ?I (keys valid) F"
    unfolding initial_effects_def
  proof (rule for_each_rule)
    fix pre eid post F
    assume split: "keys valid = pre @ eid # post" and I: "?I pre F"
    from split have "eid \<in> set (keys valid)" by simp
    then obtain ev where ev: "fmlookup valid eid = Some ev" by (auto elim: in_domE)
    with I event_effect_Some [OF ix eff ev C] show "\<exists>F'. do {
        ef \<leftarrow> event_effect H valid ix R C eff eid; Some (fmupd eid ef F)} = Some F' \<and> ?I (pre @ [eid]) F'"
      by auto
  qed simp
  then obtain F where F: "initial_effects H valid ix R C eff = Some F" "?I (keys valid) F" by blast
  have "fmlookup F eid = map_option (base_effect H valid (ix_grants ix) R eff eid) (fmlookup valid eid)" for eid
    using F(2) [rule_format, of eid] by (cases "eid \<in> fmdom' valid") (auto dest: fmdom'_notD)
  with F(1) show ?thesis by blast
qed

end
