(* ===== verification/Effects.thy ===== *)
theory Effects
  imports Revocation
begin

text \<open>
  The closing loop of \<open>derive\<close>, which carries a suppression to every event that builds on a
  suppressed one, and the summary of \<open>derive\<close> on a well-formed set of valid events.
\<close>

section \<open>Suppression\<close>

definition suppressed :: "(hash, effect) fmap \<Rightarrow> hash \<Rightarrow> bool" where
  "suppressed F p \<longleftrightarrow> (case fmlookup F p of None \<Rightarrow> False
     | Some ef \<Rightarrow> ef_reason ef \<noteq> [] \<and> ef_reason ef \<noteq> ''root_relinquished'')"

definition eligible :: "(hash, effect) fmap \<Rightarrow> hash \<Rightarrow> bool" where
  "eligible F p \<longleftrightarrow> (\<exists>ef. fmlookup F p = Some ef \<and> ef_reason ef = [])"

text \<open>
  Effects on the way from \<open>F0\<close>: a suppression keeps its reason and controls; an event that was
  eligible may have become suppressed, but only under a suppressed parent.
\<close>

definition effects_ok :: "corpus \<Rightarrow> (hash, effect) fmap \<Rightarrow> (hash, effect) fmap \<Rightarrow> bool" where
  "effects_ok valid F0 F \<longleftrightarrow> fmdom' F0 = fmdom' valid \<and> fmdom' F = fmdom' valid \<and>
     (\<forall>eid ef. fmlookup F eid = Some ef \<longrightarrow> ef_reason ef \<noteq> [] \<longrightarrow> ef_controlling_revokes ef \<noteq> {}) \<and>
     (\<forall>eid. \<not> eligible F0 eid \<longrightarrow> fmlookup F eid = fmlookup F0 eid) \<and>
     (\<forall>eid. eligible F eid \<longrightarrow> fmlookup F eid = fmlookup F0 eid) \<and>
     (\<forall>eid ev. fmlookup valid eid = Some ev \<longrightarrow> eligible F0 eid \<longrightarrow> \<not> eligible F eid \<longrightarrow>
        (\<exists>ef. fmlookup F eid = Some ef \<and> ef_reason ef = ''revoked_ancestor'') \<and>
        (\<exists>p\<in>set (parents_of ev). suppressed F p))"

lemma effects_okD:
  assumes "effects_ok valid F0 F"
  shows "fmdom' F = fmdom' valid" "fmlookup F eid = Some ef \<Longrightarrow> ef_reason ef \<noteq> [] \<Longrightarrow> ef_controlling_revokes ef \<noteq> {}"
  using assms by (auto simp: effects_ok_def)

lemma inherited_Some:
  assumes ok: "effects_ok valid F0 F" and ps: "set ps \<subseteq> fmdom' valid"
  shows "\<exists>cs. inherited F ps = Some cs \<and> (cs = {} \<longleftrightarrow> (\<forall>p\<in>set ps. \<not> suppressed F p))"
proof -
  define t where "t = (\<lambda>p. the (fmlookup F p))"
  have lookup: "fmlookup F p = Some (t p)" if "p \<in> set ps" for p
  proof -
    have "p \<in> fmdom' F" using that ps effects_okD(1) [OF ok] by blast
    then obtain ef where "fmlookup F p = Some ef" by (rule in_domE)
    then show ?thesis by (simp add: t_def)
  qed
  then have run: "mapM (fmlookup F) ps = Some (map t ps)" by (rule mapM_Some)
  let ?bad = "\<lambda>ef. ef_reason ef \<noteq> [] \<and> ef_reason ef \<noteq> ''root_relinquished''"
  let ?cs = "\<Union>(set (map ef_controlling_revokes (filter ?bad (map t ps))))"
  have "suppressed F p \<longleftrightarrow> ?bad (t p)" if "p \<in> set ps" for p
    by (simp add: suppressed_def lookup [OF that])
  moreover have "?bad (t p) \<Longrightarrow> ef_controlling_revokes (t p) \<noteq> {}" if "p \<in> set ps" for p
    using effects_okD(2) [OF ok lookup [OF that]] by blast
  ultimately have "?cs = {} \<longleftrightarrow> (\<forall>p\<in>set ps. \<not> suppressed F p)" by auto
  with run show ?thesis by (simp add: inherited_def)
qed

lemma suppressed_upd:
  "suppressed F p \<Longrightarrow> eligible F eid \<Longrightarrow> suppressed (fmupd eid ef F) p"
  by (auto simp: suppressed_def eligible_def split: option.splits)

lemma effects_ok_upd:
  assumes ok: "effects_ok valid F0 F" and el: "eligible F eid" and ev: "fmlookup valid eid = Some ev"
    and p: "p \<in> set (parents_of ev)" "suppressed F p" and cs: "cs \<noteq> {}"
  shows "effects_ok valid F0 (fmupd eid \<lparr>ef_reason = ''revoked_ancestor'', ef_controlling_revokes = cs\<rparr> F)"
    (is "effects_ok valid F0 ?F")
proof -
  have "fmlookup F eid = fmlookup F0 eid" using ok el unfolding effects_ok_def by blast
  with el have el0: "eligible F0 eid" by (simp add: eligible_def)
  have noteid: "\<not> eligible ?F eid" by (simp add: eligible_def)
  have same: "eligible ?F x \<longleftrightarrow> eligible F x" if "x \<noteq> eid" for x using that by (simp add: eligible_def)
  show ?thesis unfolding effects_ok_def
  proof (intro conjI allI impI)
    show "fmdom' F0 = fmdom' valid" using ok by (simp add: effects_ok_def)
    show "fmdom' ?F = fmdom' valid" using effects_okD(1) [OF ok] fmdom'I [OF ev] by auto
  next
    fix x ef assume "fmlookup ?F x = Some ef" "ef_reason ef \<noteq> []"
    then show "ef_controlling_revokes ef \<noteq> {}"
      using cs effects_okD(2) [OF ok, of x ef] by (auto split: if_splits)
  next
    fix x assume "\<not> eligible F0 x"
    then show "fmlookup ?F x = fmlookup F0 x" using ok el0 by (auto simp: effects_ok_def)
  next
    fix x assume "eligible ?F x"
    then show "fmlookup ?F x = fmlookup F0 x" using ok noteid same by (cases "x = eid") (auto simp: effects_ok_def)
  next
    fix x ev' assume x: "fmlookup valid x = Some ev'" "eligible F0 x" "\<not> eligible ?F x"
    show "\<exists>ef. fmlookup ?F x = Some ef \<and> ef_reason ef = ''revoked_ancestor''"
      using x ok same by (cases "x = eid") (auto simp: effects_ok_def)
    have "\<exists>q\<in>set (parents_of ev'). suppressed F q"
      using x ok same p ev by (cases "x = eid") (auto simp: effects_ok_def)
    then show "\<exists>q\<in>set (parents_of ev'). suppressed ?F q" using suppressed_upd [OF _ el] by blast
  qed
qed

definition empties :: "(hash, effect) fmap \<Rightarrow> nat" where
  "empties F = card {eid \<in> fmdom' F. eligible F eid}"

lemma empties_upd:
  assumes "eligible F eid" "ef_reason ef \<noteq> []"
  shows "empties (fmupd eid ef F) < empties F"
proof -
  have "eid \<in> fmdom' F" using assms(1) by (auto simp: eligible_def intro: fmdom'I)
  then have "{x \<in> fmdom' (fmupd eid ef F). eligible (fmupd eid ef F) x} \<subset> {x \<in> fmdom' F. eligible F x}"
    using assms by (auto simp: eligible_def split: if_splits)
  then show ?thesis unfolding empties_def by (intro psubset_card_mono) simp_all
qed

section \<open>One sweep\<close>

definition settled :: "corpus \<Rightarrow> (hash, effect) fmap \<Rightarrow> hash \<Rightarrow> bool" where
  "settled valid F eid \<longleftrightarrow> (\<forall>ev. fmlookup valid eid = Some ev \<longrightarrow> eligible F eid \<longrightarrow>
     (\<forall>p\<in>set (parents_of ev). \<not> suppressed F p))"

lemma suppress_sweep:
  assumes closed: "causally_closed valid" and ok: "effects_ok valid F0 F"
  shows "\<exists>F' ch. for_each (suppress_step valid) (keys valid) (F, False) = Some (F', ch) \<and>
    effects_ok valid F0 F' \<and> (if ch then empties F' < empties F else F' = F \<and> (\<forall>eid\<in>fmdom' valid. settled valid F eid))"
proof -
  let ?I = "\<lambda>pre (F', ch). effects_ok valid F0 F' \<and>
    (if ch then empties F' < empties F else F' = F \<and> (\<forall>eid\<in>set pre. settled valid F eid))"
  have "\<exists>s. for_each (suppress_step valid) (keys valid) (F, False) = Some s \<and> ?I (keys valid) s"
  proof (rule for_each_rule)
    fix pre eid post s
    assume split: "keys valid = pre @ eid # post" and I: "?I pre s"
    obtain F' ch where s: "s = (F', ch)" by (cases s)
    have ok': "effects_ok valid F0 F'" using I s by simp
    have "eid \<in> set (keys valid)" by (simp add: split)
    then obtain ev where ev: "fmlookup valid eid = Some ev" by (auto elim: in_domE)
    obtain ef where ef: "fmlookup F' eid = Some ef"
      using effects_okD(1) [OF ok'] fmdom'I [OF ev] by (auto elim: in_domE)
    have "set (parents_of ev) \<subseteq> fmdom' valid" using causally_closedD [OF closed ev] by blast
    from inherited_Some [OF ok' this] obtain cs where cs: "inherited F' (parents_of ev) = Some cs"
      "cs = {} \<longleftrightarrow> (\<forall>p\<in>set (parents_of ev). \<not> suppressed F' p)" by blast
    consider "ef_reason ef \<noteq> []" | "ef_reason ef = []" "cs = {}" | "ef_reason ef = []" "cs \<noteq> {}" by blast
    then show "\<exists>s'. suppress_step valid eid s = Some s' \<and> ?I (pre @ [eid]) s'"
    proof cases
      case 1
      with ef I s show ?thesis by (auto simp: suppress_step_def settled_def eligible_def)
    next
      case 2
      with ef ev cs I s show ?thesis by (auto simp: suppress_step_def settled_def)
    next
      case 3
      let ?F = "fmupd eid \<lparr>ef_reason = ''revoked_ancestor'', ef_controlling_revokes = cs\<rparr> F'"
      from 3 cs obtain p where p: "p \<in> set (parents_of ev)" "suppressed F' p" by blast
      have el: "eligible F' eid" using 3 ef by (simp add: eligible_def)
      have "suppress_step valid eid s = Some (?F, True)" using 3 ef ev cs s by (simp add: suppress_step_def)
      moreover have "effects_ok valid F0 ?F" using ok' el ev p 3(2) by (rule effects_ok_upd)
      moreover have "empties ?F < empties F'" by (rule empties_upd [OF el]) simp
      then have "empties ?F < empties F" using I s by (auto split: if_splits)
      ultimately show ?thesis by auto
    qed
  qed (simp add: ok)
  then obtain s where s: "for_each (suppress_step valid) (keys valid) (F, False) = Some s" "?I (keys valid) s"
    by blast
  obtain F' ch where "s = (F', ch)" by (cases s)
  with s show ?thesis by (intro exI [of _ F'] exI [of _ ch]) simp
qed

lemma suppress_Some:
  assumes closed: "causally_closed valid" and ok: "effects_ok valid F0 F0"
  shows "\<exists>F. suppress valid F0 = Some F \<and> effects_ok valid F0 F \<and> (\<forall>eid\<in>fmdom' valid. settled valid F eid)"
proof -
  let ?I = "\<lambda>(F, ch). effects_ok valid F0 F \<and> (ch \<or> (\<forall>eid\<in>fmdom' valid. settled valid F eid))"
  have "\<exists>s. while_loop snd (\<lambda>(ef, _). for_each (suppress_step valid) (keys valid) (ef, False)) (F0, True) = Some s
      \<and> ?I s \<and> \<not> snd s"
  proof (rule while_loop_rule [where m = "\<lambda>(F, ch). 2 * empties F + (if ch then 1 else 0)"])
    fix s assume I: "?I s" and c: "snd s"
    obtain F where s: "s = (F, True)" using c by (cases s) auto
    from suppress_sweep [OF closed] I s obtain F' ch where
      "for_each (suppress_step valid) (keys valid) (F, False) = Some (F', ch)" "effects_ok valid F0 F'"
      "if ch then empties F' < empties F else F' = F \<and> (\<forall>eid\<in>fmdom' valid. settled valid F eid)" by blast
    then show "\<exists>s'. (case s of (ef, _) \<Rightarrow> for_each (suppress_step valid) (keys valid) (ef, False)) = Some s' \<and>
        ?I s' \<and> (case s' of (F, ch) \<Rightarrow> 2 * empties F + (if ch then 1 else 0)) <
          (case s of (F, ch) \<Rightarrow> 2 * empties F + (if ch then 1 else 0))"
      by (auto simp: s split: if_splits)
  qed (simp add: ok)
  then show ?thesis by (auto simp: suppress_def)
qed

section \<open>What \<open>derive\<close> returns\<close>

text \<open>
  The specification of \<open>derive\<close>: \<open>R\<close> are the relinquishments, \<open>E\<close> the effective revocations
  and \<open>F\<close> the effects before suppression is carried on.
\<close>

definition authority_spec :: "(byte list \<Rightarrow> hash) \<Rightarrow> corpus \<Rightarrow> index \<Rightarrow> hash set \<Rightarrow> authority \<Rightarrow> bool" where
  "authority_spec H valid ix R a \<longleftrightarrow>
     au_grants a = ix_grants ix \<and>
     au_effective_revokes a = eff_at H valid ix R (max_depth ix) \<and>
     au_canceled a = {g. \<exists>r. cancel_ctl valid (au_grants a) (au_effective_revokes a) r g} \<and>
     au_tombstones a = {g \<in> fmdom' (au_grants a). \<exists>r\<in>au_effective_revokes a. covered valid (au_grants a) r g} \<and>
     au_active a = fmdom' (au_grants a) - au_canceled a - au_tombstones a \<and>
     (\<exists>F. (\<forall>eid. fmlookup F eid = map_option (base_effect H valid (au_grants a) R (au_effective_revokes a) eid)
             (fmlookup valid eid)) \<and>
          effects_ok valid F (au_effects a) \<and> (\<forall>eid\<in>fmdom' valid. settled valid (au_effects a) eid))"

lemma derive_total:
  assumes wf: "authority_wf H valid"
  obtains a ix R where "derive H valid = Some a" "full_index H valid ix" "index_events H valid = Some ix"
    "relinquishments H valid ix = Some R" "R \<subseteq> set (revokes valid)" "authority_spec H valid ix R a"
proof -
  obtain ix where run: "index_events H valid = Some ix" and ix: "full_index H valid ix"
    using index_events_total [OF wf] wf by (auto simp: full_index_def)
  obtain order where order: "grant_order ix = Some order" using grant_order_Some [OF ix] by blast
  obtain R where R: "relinquishments H valid ix = Some R" "R \<subseteq> set (revokes valid)"
    using relinquishments_Some [OF ix] by blast
  define E where "E = eff_at H valid ix R (max_depth ix)"
  note loop = depth_loop [OF ix order R(2), of "max_depth ix", folded E_def]
  have E: "E \<subseteq> set (revokes valid)" unfolding E_def by (rule eff_at_revokes [OF R(2)])
  obtain C where C: "cancellations valid ix order E = Some C" "fmlookup C = cancel_map valid (ix_grants ix) E"
    using cancellations_spec [OF ix order E] by blast
  have any: "anyM (\<lambda>r. covers valid ix r g) (sorted_list_of_set E) =
      Some (\<exists>r\<in>E. covered valid (ix_grants ix) r g)" if "g \<in> set (keys (ix_grants ix))" for g
    using anyM_Some [of "sorted_list_of_set E" "\<lambda>r. covers valid ix r g" "\<lambda>r. covered valid (ix_grants ix) r g"]
      covers_Some [OF ix] E that by auto
  have tomb: "filterM (\<lambda>g. anyM (\<lambda>r. covers valid ix r g) (sorted_list_of_set E)) (keys (ix_grants ix)) =
      Some (filter (\<lambda>g. \<exists>r\<in>E. covered valid (ix_grants ix) r g) (keys (ix_grants ix)))"
    using any by (rule filterM_Some)
  obtain F where F: "initial_effects H valid ix R C E = Some F"
    "\<forall>eid. fmlookup F eid = map_option (base_effect H valid (ix_grants ix) R E eid) (fmlookup valid eid)"
    using initial_effects_Some [OF ix E C(2)] by blast
  have "fmdom' F = fmdom' valid" using F(2) by (auto simp: fmlookup_dom'_iff)
  moreover have "ef_controlling_revokes ef \<noteq> {}" if "fmlookup F eid = Some ef" "ef_reason ef \<noteq> []" for eid ef
    using that F(2) base_effect_controls by fastforce
  ultimately have "effects_ok valid F F" by (auto simp: effects_ok_def)
  from suppress_Some [OF authority_wfD(1) [OF wf] this] obtain F' where
    F': "suppress valid F = Some F'" "effects_ok valid F F'" "\<forall>eid\<in>fmdom' valid. settled valid F' eid" by blast
  have dom: "fmdom' C = {g. \<exists>r. cancel_ctl valid (ix_grants ix) E r g}"
    by (auto simp: fmlookup_dom'_iff C(2) cancel_map_def split: if_splits)
  define a where "a = \<lparr>au_grants = ix_grants ix, au_active = fmdom' (ix_grants ix) - fmdom' C -
      {g \<in> fmdom' (ix_grants ix). \<exists>r\<in>E. covered valid (ix_grants ix) r g},
    au_tombstones = {g \<in> fmdom' (ix_grants ix). \<exists>r\<in>E. covered valid (ix_grants ix) r g},
    au_effective_revokes = E, au_canceled = fmdom' C, au_effects = F'\<rparr>"
  have "derive H valid = Some a"
    by (auto simp: derive_def run order R(1) loop C(1) tomb F(1) F'(1) a_def has_iff simp del: upt_Suc One_nat_def)
  moreover have "authority_spec H valid ix R a"
    using F(2) F'(2,3) by (auto simp: authority_spec_def a_def E_def dom)
  ultimately show thesis using that ix run R by blast
qed

end
