(* ===== verification/Extension.thy ===== *)
theory Extension
  imports Effects
begin

text \<open>
  Well-formed sets of valid events as they grow: a causally closed part of one is well-formed
  with the same causal past, and an event whose parents are already in it can be added. Together
  with the scope check of a revocation.
\<close>

section \<open>Parts of a corpus\<close>

definition sub_corpus :: "corpus \<Rightarrow> corpus \<Rightarrow> bool" where
  "sub_corpus sub all \<longleftrightarrow> (\<forall>x ev. fmlookup sub x = Some ev \<longrightarrow> fmlookup all x = Some ev)"

lemma sub_corpusD: "sub_corpus sub all \<Longrightarrow> fmlookup sub x = Some ev \<Longrightarrow> fmlookup all x = Some ev"
  by (simp add: sub_corpus_def)

lemma sub_corpus_dom: "sub_corpus sub all \<Longrightarrow> fmdom' sub \<subseteq> fmdom' all"
  by (auto simp: sub_corpus_def elim!: in_domE intro: fmdom'I)

lemma sub_corpus_refl [simp]: "sub_corpus m m"
  by (simp add: sub_corpus_def)

lemma sub_corpus_trans: "sub_corpus a b \<Longrightarrow> sub_corpus b c \<Longrightarrow> sub_corpus a c"
  by (simp add: sub_corpus_def)

lemma sub_corpus_restrict [simp]: "sub_corpus (fmrestrict_set S m) m"
  by (simp add: sub_corpus_def)

lemma parent_rel_sub: "sub_corpus sub all \<Longrightarrow> parent_rel sub \<subseteq> parent_rel all"
  by (auto simp: sub_corpus_def parent_rel_def)

lemma anc_sub:
  assumes sub: "sub_corpus sub all" and closed: "causally_closed sub" and h: "h \<in> fmdom' sub"
  shows "anc all h = anc sub h"
proof
  show "anc sub h \<subseteq> anc all h"
    using rtrancl_mono [OF parent_rel_sub [OF sub]] by (auto simp: anc_def)
  show "anc all h \<subseteq> anc sub h"
  proof
    fix x assume "x \<in> anc all h"
    then have "x \<in> anc sub h \<and> x \<in> fmdom' sub"
    proof (induction rule: anc_induct)
      case (step c ev p)
      then obtain ev' where ev': "fmlookup sub c = Some ev'" by (auto elim: in_domE)
      with sub_corpusD [OF sub ev'] step have p: "p \<in> set (parents_of ev')" by simp
      with anc_parent [OF ev' p] step have "p \<in> anc sub h" by (meson anc_refl anc_trans subsetD)
      with causally_closedD [OF closed ev' p] show ?case by simp
    qed (simp add: h)
    then show "x \<in> anc sub h" ..
  qed
qed

lemma past_of_sub:
  assumes "sub_corpus sub all" "causally_closed sub" "set (parents_of ev) \<subseteq> fmdom' sub"
  shows "past_of all ev = past_of sub ev" "past_of sub ev \<subseteq> fmdom' sub"
proof -
  have "anc all p = anc sub p" if "p \<in> set (parents_of ev)" for p
    using anc_sub [OF assms(1,2)] that assms(3) by blast
  then show "past_of all ev = past_of sub ev" by (simp add: past_of_def)
  show "past_of sub ev \<subseteq> fmdom' sub" using anc_closed [OF assms(2)] assms(3) by (auto simp: past_of_def)
qed

lemma grant_keys_sub:
  assumes "sub_corpus sub all" "S \<subseteq> fmdom' sub"
  shows "grant_keys H all S = grant_keys H sub S"
proof -
  have "fmlookup all x = fmlookup sub x" if x: "x \<in> S" for x
  proof -
    from x assms(2) have "x \<in> fmdom' sub" by blast
    then obtain ev where "fmlookup sub x = Some ev" by (rule in_domE)
    with sub_corpusD [OF assms(1)] show ?thesis by simp
  qed
  then show ?thesis by (simp add: grant_keys_def)
qed

lemma event_wf_sub:
  assumes "sub_corpus sub all" "causally_closed sub" "set (parents_of ev) \<subseteq> fmdom' sub"
  shows "event_wf H all eid ev \<longleftrightarrow> event_wf H sub eid ev"
  using past_of_sub [OF assms] grant_keys_sub [OF assms(1)] by (simp add: event_wf_def split: payload.split)

lemma causally_closed_parents: "causally_closed sub \<Longrightarrow> fmlookup sub x = Some ev \<Longrightarrow> set (parents_of ev) \<subseteq> fmdom' sub"
  by (simp add: causally_closed_def)

lemma authority_wf_sub:
  assumes wf: "authority_wf H all" and sub: "sub_corpus sub all" and closed: "causally_closed sub"
  shows "authority_wf H sub"
  unfolding authority_wf_def
proof (intro conjI allI impI)
  show "wf (parent_rel sub)" using authority_wfD(2) [OF wf] parent_rel_sub [OF sub] by (rule wf_subset)
  show "distinct_ids H (fmdom' sub)"
    using authority_wfD(3) [OF wf] sub_corpus_dom [OF sub] by (rule distinct_ids_mono)
  fix eid ev assume ev: "fmlookup sub eid = Some ev"
  from event_wf_sub [OF sub closed causally_closed_parents [OF closed ev]]
    authority_wfD(4) [OF wf sub_corpusD [OF sub ev]] show "event_wf H sub eid ev" by simp
qed (fact closed)

text \<open>A past-closed part, and its cones.\<close>

lemma dom_restrict_Int [simp]: "fmdom' (fmrestrict_set S m) = S \<inter> fmdom' m"
  by (auto simp: fmlookup_dom'_iff split: if_splits)

lemma dom_restrict: "S \<subseteq> fmdom' m \<Longrightarrow> fmdom' (fmrestrict_set S m) = S"
  by auto

lemma closed_restrict:
  assumes "causally_closed m" "\<And>x. x \<in> S \<Longrightarrow> anc m x \<subseteq> S"
  shows "causally_closed (fmrestrict_set S m)"
proof -
  have "set (parents_of ev) \<subseteq> fmdom' (fmrestrict_set S m)" if "fmlookup (fmrestrict_set S m) x = Some ev" for x ev
  proof -
    from that have x: "x \<in> S" "fmlookup m x = Some ev" by (auto split: if_splits)
    have "p \<in> S" if "p \<in> set (parents_of ev)" for p
      using anc_parent [OF x(2) that] assms(2) [OF x(1)] anc_refl [of p m] by blast
    with causally_closed_parents [OF assms(1) x(2)] show ?thesis by auto
  qed
  then show ?thesis by (simp add: causally_closed_def)
qed

lemma restrict_anc_closed: "causally_closed m \<Longrightarrow> causally_closed (fmrestrict_set (anc m h) m)"
  by (rule closed_restrict) (auto intro: anc_trans)

lemma restrict_past_closed: "causally_closed m \<Longrightarrow> causally_closed (fmrestrict_set (past_of m ev) m)"
  by (rule closed_restrict) (auto simp: past_of_def intro: anc_trans)

lemma restrict_sub:
  assumes "sub_corpus sub all" "S \<subseteq> fmdom' sub"
  shows "fmrestrict_set S all = fmrestrict_set S sub"
proof (rule fmap_ext)
  fix x
  show "fmlookup (fmrestrict_set S all) x = fmlookup (fmrestrict_set S sub) x"
    using assms sub_corpusD [OF assms(1), of x] by (cases "x \<in> S") (auto elim!: in_domE [of x])
qed

lemma cone_sub:
  assumes "sub_corpus sub all" "causally_closed sub" "h \<in> fmdom' sub"
  shows "cone all h = Some (fmrestrict_set (anc sub h) sub)"
  using anc_sub [OF assms] anc_closed [OF assms(2,3)] sub_corpus_dom [OF assms(1)] restrict_sub [OF assms(1)]
  by (simp add: cone_eq subset_trans)

section \<open>Adding an event\<close>

lemma authority_wf_add:
  assumes wf: "authority_wf H V" and new: "eid \<notin> fmdom' V" and ps: "set (parents_of ev) \<subseteq> fmdom' V"
    and ids: "distinct_ids H (insert eid (fmdom' V))" and ev: "event_wf H V eid ev"
  shows "authority_wf H (fmupd eid ev V)"
proof -
  let ?V = "fmupd eid ev V"
  have none: "fmlookup V eid = None" using new by (rule fmdom'_notD)
  then have sub: "sub_corpus V ?V" by (auto simp: sub_corpus_def)
  have closed: "causally_closed V" using wf by (rule authority_wfD(1))
  have rel: "parent_rel ?V = parent_rel V \<union> {(p, eid) | p. p \<in> set (parents_of ev)}"
    using none by (auto simp: parent_rel_def)
  have "Domain (parent_rel V) \<inter> Range {(p, eid) | p. p \<in> set (parents_of ev)} = {}"
    using new causally_closedD [OF closed] by (auto simp: parent_rel_def)
  moreover have "wf {(p, eid) | p. p \<in> set (parents_of ev)}"
    by (rule wf_subset [OF wf_measure [of "\<lambda>x. if x = eid then 1 else 0"]]) (use new ps in \<open>auto simp: subset_iff\<close>)
  ultimately have "wf (parent_rel ?V)" unfolding rel using authority_wfD(2) [OF wf] by (intro wf_Un) auto
  moreover have "causally_closed ?V"
    using causally_closed_parents [OF closed] ps by (fastforce simp: causally_closed_def)
  moreover have "event_wf H ?V x ev'" if "fmlookup ?V x = Some ev'" for x ev'
  proof -
    have "set (parents_of ev') \<subseteq> fmdom' V" "event_wf H V x ev'"
      using that ps ev causally_closed_parents [OF closed, of x ev'] authority_wfD(4) [OF wf, of x ev']
      by (auto split: if_splits)
    with event_wf_sub [OF sub closed] show ?thesis by simp
  qed
  ultimately show ?thesis using ids by (simp add: authority_wf_def)
qed

section \<open>The scope of a revocation\<close>

lemma scope_loop:
  assumes ix: "full_index H valid ix" and g: "target \<in> fmdom' (ix_grants ix)" "who \<noteq> target"
    and a: "au_grants a = ix_grants ix"
  shows "\<exists>s. while_loop isl (scope_step a who) (Inl target) = Some s \<and>
    s = Inr (who \<in> issuers (ix_grants ix) target)"
proof -
  let ?G = "ix_grants ix"
  let ?I = "\<lambda>s. case s of Inr b \<Rightarrow> b \<longleftrightarrow> who \<in> issuers ?G target
    | Inl g \<Rightarrow> g \<in> fmdom' ?G \<and> who \<noteq> g \<and> (who \<in> issuers ?G target \<longleftrightarrow> who \<in> issuers ?G g)"
  have "\<exists>s. while_loop isl (scope_step a who) (Inl target) = Some s \<and> ?I s \<and> \<not> isl s"
  proof (rule while_loop_rule [where m = "\<lambda>s. case s of Inl g \<Rightarrow> Suc (lineage_len ix g) | Inr _ \<Rightarrow> 0"])
    fix s assume I: "?I s" and "isl s"
    then obtain g where s: "s = Inl g" by (auto simp: isl_def)
    then have "g \<in> fmdom' ?G" using I by simp
    then obtain gr where gr: "fmlookup ?G g = Some gr" by (rule in_domE)
    have self: "i \<in> issuers ?G i" for i by (simp add: issuers_def)
    show "\<exists>s'. scope_step a who s = Some s' \<and> ?I s' \<and>
        (case s' of Inl g \<Rightarrow> Suc (lineage_len ix g) | Inr _ \<Rightarrow> 0) <
        (case s of Inl g \<Rightarrow> Suc (lineage_len ix g) | Inr _ \<Rightarrow> 0)"
    proof (cases "g_issuer gr")
      case None
      then show ?thesis using I issuers_unfold [OF gr] by (simp add: scope_step_def s a gr)
    next
      case (Some i)
      note len = lineage_len_issuer [OF full_indexD(3) [OF ix] gr Some]
      show ?thesis using I issuers_unfold [OF gr] Some len self [of i]
        by (cases "i = who") (auto simp: scope_step_def s a gr)
    qed
  qed (use g in simp)
  then obtain s where s: "while_loop isl (scope_step a who) (Inl target) = Some s" "?I s" "\<not> isl s" by blast
  then show ?thesis by (cases s) auto
qed

lemma in_scope_Some:
  assumes ix: "full_index H valid ix" and g: "target \<in> fmdom' (ix_grants ix)" and a: "au_grants a = ix_grants ix"
  shows "in_scope a who target = Some (if who = target then issuers (au_grants a) target = {target}
    else who \<in> issuers (au_grants a) target)"
proof (cases "who = target")
  case True
  obtain gr where gr: "fmlookup (ix_grants ix) target = Some gr" using g by (rule in_domE)
  have "issuers (ix_grants ix) target = {target} \<longleftrightarrow> g_issuer gr = None"
  proof (cases "g_issuer gr")
    case (Some i)
    obtain path where path: "fmlookup (ix_lineage ix) target = Some path"
      "step_lineage (ix_lineage ix) target (g_issuer gr) path"
      using lineage_ok_path [OF full_indexD(3) [OF ix] gr] by blast
    with Some obtain up where up: "fmlookup (ix_lineage ix) i = Some up" "target \<notin> up"
      by (auto simp: step_lineage_def)
    then have "i \<noteq> target" "i \<in> issuers (ix_grants ix) target"
      using lineage_okD(2) [OF full_indexD(3) [OF ix] up(1)] issuers_unfold [OF gr] Some
      by (auto simp: issuers_def)
    with Some show ?thesis by auto
  qed (use issuers_unfold [OF gr] in simp)
  with True gr show ?thesis by (simp add: in_scope_def a)
next
  case False
  with scope_loop [OF ix g _ a, of who] show ?thesis by (auto simp: in_scope_def a)
qed

end
