(* ===== verification/Evaluation.thy ===== *)
theory Evaluation
  imports Admission Extension
begin

text \<open>
  One evaluation of \<open>classify\<close>, on candidates whose parents are classified: it never panics,
  and what a valid status says about the event.
\<close>

section \<open>Revision records\<close>

lemma revisions_fold:
  "fmlookup (fold (revisions_step H V) xs m) r = Some rv \<Longrightarrow>
     fmlookup m r = Some rv \<or> (\<exists>eid ev. fmlookup V eid = Some ev \<and> revision_of H eid ev = Some rv \<and> rv_id rv = r)"
proof (induction xs arbitrary: m)
  case (Cons x xs)
  have "fmlookup (revisions_step H V x m) r = Some rv \<Longrightarrow>
      fmlookup m r = Some rv \<or> (\<exists>eid ev. fmlookup V eid = Some ev \<and> revision_of H eid ev = Some rv \<and> rv_id rv = r)"
    by (auto simp: revisions_step_def split: option.splits if_splits)
  with Cons.IH [of "revisions_step H V x m"] Cons.prems show ?case by auto
qed simp

lemma revisions_lookup:
  assumes "fmlookup (revisions H V) r = Some rv"
  obtains eid ev where "fmlookup V eid = Some ev" "revision_of H eid ev = Some rv" "rv_id rv = r"
    "rv_creating_event rv = eid"
proof -
  from revisions_fold [OF assms [unfolded revisions_def]] obtain eid ev where
    *: "fmlookup V eid = Some ev" "revision_of H eid ev = Some rv" "rv_id rv = r" by auto
  then have "rv_creating_event rv = eid" by (auto simp: revision_of_def split: option.splits)
  with * that show thesis by blast
qed

lemma revisions_fold_dom:
  "fmdom' m \<subseteq> fmdom' (fold (revisions_step H V) xs m)"
proof (induction xs arbitrary: m)
  case (Cons x xs)
  have "fmdom' m \<subseteq> fmdom' (revisions_step H V x m)"
    by (auto simp: revisions_step_def split: option.splits)
  with Cons.IH [of "revisions_step H V x m"] show ?case by simp
qed simp

lemma revisions_dom:
  assumes "fmlookup V eid = Some ev" "revision_of H eid ev = Some rv"
  shows "rv_id rv \<in> fmdom' (revisions H V)"
proof -
  have "eid \<in> set (keys V)" using assms(1) by (simp add: fmdom'I)
  then obtain pre post where "keys V = pre @ eid # post" by (meson split_list)
  moreover have "rv_id rv \<in> fmdom' (revisions_step H V eid m)" for m
    using assms by (simp add: revisions_step_def)
  ultimately show ?thesis
    using revisions_fold_dom [of "revisions_step H V eid (fold (revisions_step H V) pre fmempty)" H V post]
    by (auto simp: revisions_def)
qed

lemma revisions_mono:
  assumes "sub_corpus V W"
  shows "fmdom' (revisions H V) \<subseteq> fmdom' (revisions H W)"
proof
  fix r assume "r \<in> fmdom' (revisions H V)"
  then obtain rv where "fmlookup (revisions H V) r = Some rv" by (rule in_domE)
  then show "r \<in> fmdom' (revisions H W)"
    by (rule revisions_lookup) (use sub_corpusD [OF assms] revisions_dom in blast)
qed

section \<open>Well-formed sets of valid subject events\<close>

definition select_wf :: "(byte list \<Rightarrow> hash) \<Rightarrow> corpus \<Rightarrow> signed \<Rightarrow> bool" where
  "select_wf H V ev \<longleftrightarrow> is_subject ev \<and> (payload_kind (payload_of ev) = K_Genesis \<or> parents_of ev \<noteq> []) \<and>
     (\<forall>r ds d. payload_of ev = Resolve (S_Revision r) ds d \<longrightarrow> r \<in> fmdom' (revisions H V))"

definition subject_wf :: "(byte list \<Rightarrow> hash) \<Rightarrow> corpus \<Rightarrow> bool" where
  "subject_wf H V \<longleftrightarrow> authority_wf H V \<and> (\<forall>eid ev. fmlookup V eid = Some ev \<longrightarrow> select_wf H V ev)"

lemma subject_wfD:
  assumes "subject_wf H V"
  shows "authority_wf H V" "causally_closed V" "wf (parent_rel V)" "fmlookup V eid = Some ev \<Longrightarrow> select_wf H V ev"
  using assms by (auto simp: subject_wf_def authority_wf_def)

lemma subject_wf_empty: "subject_wf H fmempty"
  by (simp add: subject_wf_def authority_wf_def causally_closed_def parent_rel_def distinct_ids_def)

lemma subject_wf_add:
  assumes "subject_wf H V" "eid \<notin> fmdom' V" "set (parents_of ev) \<subseteq> fmdom' V"
    "distinct_ids H (insert eid (fmdom' V))" "event_wf H V eid ev" "select_wf H V ev"
  shows "subject_wf H (fmupd eid ev V)"
proof -
  have "fmlookup V eid = None" using assms(2) by (rule fmdom'_notD)
  then have sub: "sub_corpus V (fmupd eid ev V)" by (auto simp: sub_corpus_def)
  have "select_wf H (fmupd eid ev V) ev'" if "fmlookup (fmupd eid ev V) x = Some ev'" for x ev'
  proof -
    have "select_wf H V ev'" using that subject_wfD(4) [OF assms(1)] assms(6) by (auto split: if_splits)
    then show ?thesis using revisions_mono [OF sub, of H] by (auto simp: select_wf_def)
  qed
  moreover have "authority_wf H (fmupd eid ev V)"
    using authority_wf_add [OF subject_wfD(1) [OF assms(1)] assms(2-5)] .
  ultimately show ?thesis by (simp add: subject_wf_def)
qed

lemma anc_parent_less:
  assumes "wf (parent_rel V)" "fmlookup V c = Some ev" "p \<in> set (parents_of ev)"
  shows "card (anc V p) < card (anc V c)"
proof -
  have rel: "(p, c) \<in> parent_rel V" using assms(2,3) by (auto simp: parent_rel_def)
  have "c \<notin> anc V p"
  proof
    assume "c \<in> anc V p"
    then have "(c, c) \<in> (parent_rel V)\<^sup>+" using rel by (auto simp: anc_def)
    with wf_acyclic [OF assms(1)] show False by (simp add: acyclic_def)
  qed
  with anc_parent [OF assms(2,3)] have "anc V p \<subset> anc V c" using anc_refl [of c V] by blast
  then show ?thesis by (intro psubset_card_mono) simp_all
qed

lemma body_step_cases:
  assumes sel: "select_wf H V ev" and sub: "sub_corpus V all" and ev: "fmlookup all x = Some ev"
  shows "(\<exists>b. body_step H all (Inl x) = Some (Inr b)) \<or> (\<exists>p\<in>set (parents_of ev). body_step H all (Inl x) = Some (Inl p))"
proof -
  have ps: "\<exists>p\<in>set (parents_of ev). (case parents_of ev of [] \<Rightarrow> None | p # _ \<Rightarrow> Some (Inl p)) = Some (Inl p)"
    if "payload_kind (payload_of ev) \<noteq> K_Genesis"
    using sel that by (auto simp: select_wf_def split: list.splits)
  have rev: "\<exists>b. map_option (\<lambda>r. Inr (rv_body r)) (fmlookup (revisions H all) r) = Some (Inr b)"
    if "payload_of ev = Resolve (S_Revision r) ds d" for r ds d
    using sel that revisions_mono [OF sub, of H] by (fastforce simp: select_wf_def elim: in_domE)
  show ?thesis
  proof (cases "payload_of ev")
    case (Resolve sel ds d)
    then show ?thesis using rev ev by (cases sel) (auto simp: body_step_def)
  qed (use ps ev in \<open>auto simp: body_step_def\<close>)
qed

lemma body_total:
  assumes wf: "subject_wf H V" and sub: "sub_corpus V all" and eid: "eid \<in> fmdom' V"
  shows "\<exists>b. body H all eid = Some b"
proof -
  let ?I = "\<lambda>s :: hash + hash. case s of Inl x \<Rightarrow> x \<in> fmdom' V | Inr _ \<Rightarrow> True"
  have "\<exists>s. while_loop isl (body_step H all) (Inl eid) = Some s \<and> ?I s \<and> \<not> isl s"
  proof (rule while_loop_rule [where m = "\<lambda>s. case s of Inl x \<Rightarrow> Suc (card (anc V x)) | Inr _ \<Rightarrow> 0"])
    fix s assume I: "?I s" and "isl s"
    then obtain x where s: "s = Inl x" and "x \<in> fmdom' V" by (auto simp: isl_def)
    then obtain ev where ev: "fmlookup V x = Some ev" by (auto elim: in_domE)
    from body_step_cases [OF subject_wfD(4) [OF wf ev] sub sub_corpusD [OF sub ev]] s
    consider b where "body_step H all s = Some (Inr b)"
      | p where "p \<in> set (parents_of ev)" "body_step H all s = Some (Inl p)" by blast
    then show "\<exists>s'. body_step H all s = Some s' \<and> ?I s' \<and>
        (case s' of Inl x \<Rightarrow> Suc (card (anc V x)) | Inr _ \<Rightarrow> 0) < (case s of Inl x \<Rightarrow> Suc (card (anc V x)) | Inr _ \<Rightarrow> 0)"
    proof cases
      case 2
      then show ?thesis
        using s causally_closedD [OF subject_wfD(2) [OF wf] ev] anc_parent_less [OF subject_wfD(3) [OF wf] ev] by simp
    qed (simp add: s)
  qed (simp add: eid)
  then show ?thesis by (auto simp: body_def)
qed

section \<open>The authority check\<close>

lemma fold_cones:
  assumes "set ps \<subseteq> fmdom' V"
  shows "foldl fmadd (fmrestrict_set S V) (map (\<lambda>p. fmrestrict_set (anc V p) V) ps) =
    fmrestrict_set (S \<union> (\<Union>p\<in>set ps. anc V p)) V"
  using assms
proof (induction ps arbitrary: S)
  case (Cons p ps)
  have "fmrestrict_set S V ++\<^sub>f fmrestrict_set (anc V p) V = fmrestrict_set (S \<union> anc V p) V"
    by (rule fmap_ext) (auto simp: fmlookup_dom'_iff split: option.splits)
  with Cons show ?case by (simp add: Un_assoc)
qed simp

lemma cones_Some:
  assumes "causally_closed V" "sub_corpus V all" "set (parents_of ev) \<subseteq> fmdom' V"
  shows "mapM (cone all) (parents_of ev) = Some (map (\<lambda>p. fmrestrict_set (anc V p) V) (parents_of ev))"
    "foldl fmadd fmempty (map (\<lambda>p. fmrestrict_set (anc V p) V) (parents_of ev)) = fmrestrict_set (past_of V ev) V"
proof -
  show "mapM (cone all) (parents_of ev) = Some (map (\<lambda>p. fmrestrict_set (anc V p) V) (parents_of ev))"
    using assms cone_sub by (intro mapM_Some) blast
  have "fmempty = fmrestrict_set {} V" by simp
  then show "foldl fmadd fmempty (map (\<lambda>p. fmrestrict_set (anc V p) V) (parents_of ev)) = fmrestrict_set (past_of V ev) V"
    using fold_cones [OF assms(3), of "{}"] by (simp add: past_of_def)
qed

text \<open>The authority of a past, and what the checks read from it.\<close>

lemma derive_past:
  assumes wf: "authority_wf H V" and ps: "set (parents_of ev) \<subseteq> fmdom' V"
  obtains a ix where "derive H (fmrestrict_set (past_of V ev) V) = Some a"
    "full_index H (fmrestrict_set (past_of V ev) V) ix" "au_grants a = ix_grants ix"
    "fmdom' (au_grants a) = grant_keys H V (past_of V ev)" "au_active a \<subseteq> fmdom' (au_grants a)"
    "fmdom' (au_effects a) = past_of V ev"
proof -
  let ?P = "fmrestrict_set (past_of V ev) V"
  have closed: "causally_closed V" using wf by (rule authority_wfD(1))
  have dom: "fmdom' ?P = past_of V ev" using past_of_sub(2) [OF sub_corpus_refl closed ps] by auto
  have P: "authority_wf H ?P"
    using wf sub_corpus_restrict restrict_past_closed [OF closed] by (rule authority_wf_sub)
  obtain a ix R where a: "derive H ?P = Some a" "full_index H ?P ix" "authority_spec H ?P ix R a"
    by (rule derive_total [OF P])
  have "fmdom' (ix_grants ix) = grant_keys H V (past_of V ev)"
    using full_indexD(4) [OF a(2)] grant_keys_sub [OF sub_corpus_restrict, of "past_of V ev" "past_of V ev" V H] dom
    by auto
  moreover have "fmdom' (au_effects a) = past_of V ev"
    using a(3) dom by (auto simp: authority_spec_def effects_ok_def)
  moreover have "au_grants a = ix_grants ix" "au_active a \<subseteq> fmdom' (au_grants a)"
    using a(3) by (auto simp: authority_spec_def)
  ultimately show thesis using that a(1,2) by simp
qed

lemma derive_cone:
  assumes wf: "authority_wf H V" and p: "p \<in> fmdom' V"
  shows "\<exists>a. derive H (fmrestrict_set (anc V p) V) = Some a"
proof -
  have "authority_wf H (fmrestrict_set (anc V p) V)"
    using wf sub_corpus_restrict restrict_anc_closed [OF authority_wfD(1) [OF wf]] by (rule authority_wf_sub)
  then show ?thesis by (rule derive_total) blast
qed

lemma check_selection_total:
  assumes P: "P = fmrestrict_set (past_of V ev) V" "causally_closed V" "set (parents_of ev) \<subseteq> fmdom' V"
    and eff: "fmdom' (au_effects a) = past_of V ev" and ds: "map disp_parent ds = parents_of ev"
  shows "\<exists>s. check_selection H P a (envelope_of ev) r ds = Some s \<and>
    (st_state s = Valid \<longrightarrow> r \<in> fmdom' (revisions H V))"
proof (cases "fmlookup (revisions H P) r")
  case None
  then show ?thesis by (simp add: check_selection_def invalid_def)
next
  case (Some rv)
  have dom: "fmdom' P = past_of V ev" using past_of_sub(2) [OF sub_corpus_refl P(2,3)] P(1) by auto
  obtain x ex where x: "fmlookup P x = Some ex" "rv_creating_event rv = x" using Some by (rule revisions_lookup)
  then have "rv_creating_event rv \<in> fmdom' (au_effects a)" using fmdom'I [OF x(1)] dom eff by simp
  then obtain ef where ef: "fmlookup (au_effects a) (rv_creating_event rv) = Some ef" by (rule in_domE)
  have closed: "causally_closed P" unfolding P(1) by (rule restrict_past_closed [OF P(2)])
  have "selects_outside P rv d = Some (disp_action d = Selected \<and>
      rv_creating_event rv \<notin> anc P (disp_parent d))" if "d \<in> set ds" for d
  proof -
    have "disp_parent d \<in> set (parents_of ev)" using that ds [symmetric] by simp
    then have "disp_parent d \<in> past_of V ev" unfolding past_of_def using anc_refl by blast
    then have "disp_parent d \<in> fmdom' P" using dom by simp
    from cone_sub [OF sub_corpus_refl closed this] show ?thesis
      using x fmdom'I [OF x(1)] by (auto simp: selects_outside_def has_iff)
  qed
  then have "anyM (selects_outside P rv) ds = Some (\<exists>d\<in>set ds. disp_action d = Selected \<and>
      rv_creating_event rv \<notin> anc P (disp_parent d))" by (rule anyM_Some)
  moreover have "r \<in> fmdom' (revisions H V)"
    using fmdom'I [OF Some] revisions_mono [of P V H] P(1) by auto
  ultimately show ?thesis using Some ef by (simp add: check_selection_def)
qed

lemma check_payload_total:
  assumes wf: "subject_wf H V" and sub: "sub_corpus V all" and ps: "set (parents_of ev) \<subseteq> fmdom' V"
    and parent: "parent \<in> set (parents_of ev)" and kind: "is_subject ev" "payload_kind (payload_of ev) \<noteq> K_Genesis"
    and ix: "full_index H P ix" "au_grants a = ix_grants ix" "au_active a \<subseteq> fmdom' (au_grants a)"
    and P: "P = fmrestrict_set (past_of V ev) V" and eff: "fmdom' (au_effects a) = past_of V ev"
  shows "\<exists>s. check_payload H kok all P a (envelope_of ev) parent g = Some s \<and>
    (st_state s = Valid \<longrightarrow> (\<forall>grantee issuer d. payload_of ev = Delegate grantee issuer d \<longrightarrow> issuer = g) \<and>
       (\<forall>r ds d. payload_of ev = Resolve (S_Revision r) ds d \<longrightarrow> r \<in> fmdom' (revisions H V)))"
proof (cases "payload_of ev")
  case (Correction b d)
  obtain old where "body H all parent = Some old" using body_total [OF wf sub] parent ps by blast
  with Correction show ?thesis by (simp add: check_payload_def check_correction_def)
next
  case (Delegate grantee issuer d)
  then show ?thesis by (simp add: check_payload_def check_delegate_def invalid_def)
next
  case (Revoke target cascade d)
  then show ?thesis
  proof (cases "target \<in> au_active a")
    case True
    then have "target \<in> fmdom' (ix_grants ix)" using ix by auto
    from in_scope_Some [OF ix(1) this ix(2), of g] Revoke True show ?thesis
      by (simp add: check_payload_def check_revoke_def)
  qed (simp add: check_payload_def check_revoke_def)
next
  case (Resolve sel ds d)
  show ?thesis
  proof (cases sel)
    case (S_Revision r)
    show ?thesis
    proof (cases "map disp_parent ds = parents_of ev")
      case True
      from check_selection_total [OF P subject_wfD(2) [OF wf] ps eff True, of H r] Resolve S_Revision show ?thesis
        by (auto simp: check_payload_def check_resolve_def invalid_def)
    qed (simp add: check_payload_def check_resolve_def Resolve S_Revision invalid_def)
  qed (simp add: check_payload_def check_resolve_def Resolve)
qed (use kind in \<open>simp_all add: is_subject_def\<close>)

lemma check_authority_total:
  assumes wf: "subject_wf H V" and sub: "sub_corpus V all" and ps: "set (parents_of ev) \<subseteq> fmdom' V" "parents_of ev \<noteq> []"
    and kind: "is_subject ev" "payload_kind (payload_of ev) \<noteq> K_Genesis" and g: "env_grant (envelope_of ev) = Some g"
  shows "\<exists>s. check_authority H kok all (envelope_of ev) = Some s \<and>
    (st_state s = Valid \<longrightarrow> g \<in> grant_keys H V (past_of V ev) \<and>
       (\<forall>grantee issuer d. payload_of ev = Delegate grantee issuer d \<longrightarrow> issuer = g) \<and>
       (\<forall>r ds d. payload_of ev = Resolve (S_Revision r) ds d \<longrightarrow> r \<in> fmdom' (revisions H V)))"
proof -
  define P where "P = fmrestrict_set (past_of V ev) V"
  obtain parent rest where parents: "parents_of ev = parent # rest" using ps(2) by (cases "parents_of ev") auto
  obtain a ix where a: "derive H P = Some a" "full_index H P ix" "au_grants a = ix_grants ix"
    "fmdom' (au_grants a) = grant_keys H V (past_of V ev)" "au_active a \<subseteq> fmdom' (au_grants a)"
    "fmdom' (au_effects a) = past_of V ev"
    unfolding P_def by (rule derive_past [OF subject_wfD(1) [OF wf] ps(1)])
  note cones = cones_Some [OF subject_wfD(2) [OF wf] sub ps(1), folded P_def]
  have one: "inactive_in H g c = Some (g \<notin> au_active (the (derive H c)))"
    if "c \<in> set (map (\<lambda>p. fmrestrict_set (anc V p) V) (parents_of ev))" for c
  proof -
    from that ps(1) obtain p where "p \<in> fmdom' V" "c = fmrestrict_set (anc V p) V" by auto
    with derive_cone [OF subject_wfD(1) [OF wf]] obtain b where "derive H c = Some b" by blast
    then show ?thesis by (simp add: inactive_in_def)
  qed
  have any: "anyM (inactive_in H g) (map (\<lambda>p. fmrestrict_set (anc V p) V) (parents_of ev)) =
      Some (\<exists>c\<in>set (map (\<lambda>p. fmrestrict_set (anc V p) V) (parents_of ev)). g \<notin> au_active (the (derive H c)))"
    using one by (rule anyM_Some)
  obtain s where s: "check_payload H kok all P a (envelope_of ev) parent g = Some s"
    "st_state s = Valid \<Longrightarrow> (\<forall>grantee issuer d. payload_of ev = Delegate grantee issuer d \<longrightarrow> issuer = g) \<and>
       (\<forall>r ds d. payload_of ev = Resolve (S_Revision r) ds d \<longrightarrow> r \<in> fmdom' (revisions H V))"
    using check_payload_total [OF wf sub ps(1) _ kind a(2,3,5) P_def a(6), of parent kok g] parents by auto
  have inv: "st_state (invalid reason) \<noteq> Valid" for reason by (simp add: invalid_def)
  show ?thesis
  proof (cases "g \<in> au_active a")
    case True
    then obtain gr where gr: "fmlookup (au_grants a) g = Some gr" using a(5) by (auto elim: in_domE)
    show ?thesis
      using cones a True gr g any s inv parents a(4,5)
      by (auto simp: check_authority_def split: list.split)
  next
    case False
    then show ?thesis using cones a(1) g inv parents by (auto simp: check_authority_def split: list.split)
  qed
qed

end
