(* ===== verification/Classification.thy ===== *)
theory Classification
  imports Evaluation
begin

text \<open>
  The scheduling loop of \<open>classify\<close> over the subject events: on every corpus without SHA-256
  collisions among its identifiers it ends, panics nowhere, and gives every subject event a
  status; the valid ones form a well-formed set.
\<close>

section \<open>The valid part of a classified corpus\<close>

definition is_valid :: "statuses \<Rightarrow> hash \<Rightarrow> bool" where
  "is_valid out eid \<longleftrightarrow> (\<exists>s. fmlookup out eid = Some s \<and> st_state s = Valid)"

definition valid_part :: "corpus \<Rightarrow> statuses \<Rightarrow> corpus" where
  "valid_part cands out = fmfilter (\<lambda>eid. case fmlookup out eid of Some s \<Rightarrow> st_state s = Valid | None \<Rightarrow> False) cands"

lemma valid_part_lookup:
  "fmlookup (valid_part cands out) eid = Some ev \<longleftrightarrow>
     fmlookup cands eid = Some ev \<and> (\<exists>s. fmlookup out eid = Some s \<and> st_state s = Valid)"
  by (auto simp: valid_part_def split: option.splits)

lemma valid_part_sub: "sub_corpus (valid_part cands out) cands"
  by (simp add: sub_corpus_def valid_part_lookup)

lemma valid_part_dom: "eid \<in> fmdom' (valid_part cands out) \<longleftrightarrow>
    eid \<in> fmdom' cands \<and> (\<exists>s. fmlookup out eid = Some s \<and> st_state s = Valid)"
  by (auto simp: fmlookup_dom'_iff valid_part_lookup)

lemma valid_part_upd:
  assumes "fmlookup cands eid = Some ev" "\<not> has out eid"
  shows "valid_part cands (fmupd eid s out) =
    (if st_state s = Valid then fmupd eid ev (valid_part cands out) else valid_part cands out)"
proof (rule fmap_ext)
  fix x
  show "fmlookup (valid_part cands (fmupd eid s out)) x = fmlookup (if st_state s = Valid
      then fmupd eid ev (valid_part cands out) else valid_part cands out) x"
    using assms by (cases "x = eid") (auto simp: valid_part_def has_def)
qed

lemma subject_ids_iff:
  "eid \<in> set (subject_ids cands) \<longleftrightarrow> (\<exists>ev. fmlookup cands eid = Some ev \<and> is_subject ev)"
  by (auto simp: subject_ids_def fmlookup_dom'_iff split: option.splits)

definition class_wf :: "(byte list \<Rightarrow> hash) \<Rightarrow> corpus \<Rightarrow> statuses \<Rightarrow> bool" where
  "class_wf H cands out \<longleftrightarrow> distinct_ids H (fmdom' cands) \<and> fmdom' out \<subseteq> set (subject_ids cands) \<and>
     subject_wf H (valid_part cands out)"

lemma class_wfD:
  assumes "class_wf H cands out"
  shows "distinct_ids H (fmdom' cands)" "fmdom' out \<subseteq> set (subject_ids cands)"
    "subject_wf H (valid_part cands out)"
  using assms by (simp_all add: class_wf_def)

lemma class_wf_init: "distinct_ids H (fmdom' cands) \<Longrightarrow> class_wf H cands fmempty"
proof -
  have "valid_part cands fmempty = fmempty" by (rule fmap_ext) (simp add: valid_part_def)
  then show "distinct_ids H (fmdom' cands) \<Longrightarrow> ?thesis" by (simp add: class_wf_def subject_wf_empty)
qed

section \<open>Evaluation of one event\<close>

text \<open>What the checks before the authority check accept of an event with parents.\<close>

definition lineage_accepts :: "corpus \<Rightarrow> corpus \<Rightarrow> envelope \<Rightarrow> bool" where
  "lineage_accepts cands V e \<longleftrightarrow> set (env_parents e) \<subseteq> fmdom' V \<and>
     (\<exists>subject genesis d. env_subject e = Some subject \<and> fmlookup cands subject = Some genesis \<and>
        payload_kind (payload_of genesis) = K_Genesis \<and>
        (\<forall>p pev. p \<in> set (env_parents e) \<longrightarrow> fmlookup cands p = Some pev \<longrightarrow>
           (if payload_kind (payload_of pev) = K_Genesis then Some p else env_subject (envelope_of pev)) = Some subject \<and>
           env_subject_key (envelope_of pev) = env_subject_key e) \<and>
        payload_decision (env_payload e) = Some d \<and> dec_kind d = payload_kind (env_payload e) \<and>
        dec_parents d = env_parents e \<and> dec_rationale d \<noteq> [] \<and> dec_evidence d \<noteq> []) \<and>
     (payload_kind (env_payload e) \<in> {K_Delegate, K_Revoke} \<longrightarrow> env_asserted_time e = None)"

lemma parent_mismatch_None:
  "parent_mismatch subject key pevs = None \<longleftrightarrow> (\<forall>(p, pev)\<in>set pevs.
     (if payload_kind (payload_of pev) = K_Genesis then Some p else env_subject (envelope_of pev)) = Some subject \<and>
     env_subject_key (envelope_of pev) = key)"
  by (induction subject key pevs rule: parent_mismatch.induct) auto

lemma zip_map_same: "zip xs (map f xs) = map (\<lambda>x. (x, f x)) xs"
  by (induction xs) auto

text \<open>A status is valid only as \<open>Status::valid()\<close>, with no reason and nothing missing.\<close>

lemma status_of_invalid [simp]:
  "st_state (invalid r) = Invalid" "st_state (pending r m) = Pending" "st_state valid_status = Valid"
  by (simp_all add: invalid_def pending_def valid_status_def)

lemma check_payload_status:
  "check_payload H kok all P a e parent g = Some s \<Longrightarrow> st_state s = Valid \<Longrightarrow> s = valid_status"
  by (auto simp: check_payload_def check_correction_def check_delegate_def check_revoke_def check_resolve_def
      check_selection_def split: payload.splits if_splits option.splits selection.splits bind_splits)

lemma check_authority_status:
  "check_authority H kok all e = Some s \<Longrightarrow> st_state s = Valid \<Longrightarrow> s = valid_status"
  by (auto simp: check_authority_def Let_def split: list.splits if_splits bind_splits dest: check_payload_status)

lemma check_lineage_total:
  assumes inv: "class_wf H cands out" and ev: "fmlookup cands eid = Some ev" "is_subject ev"
    and kind: "payload_kind (payload_of ev) \<noteq> K_Genesis"
    and hd: "parents_of ev \<noteq> []" "env_subject (envelope_of ev) = Some subject" "env_grant (envelope_of ev) = Some g"
    and present: "set (parents_of ev) \<subseteq> fmdom' cands" and ready: "schedulable cands out ev"
  shows "\<exists>s. check_lineage H kok cands out (envelope_of ev) = Some s \<and> (st_state s = Valid \<longleftrightarrow>
    lineage_accepts cands (valid_part cands out) (envelope_of ev) \<and>
    check_authority H kok cands (envelope_of ev) = Some valid_status)"
proof -
  let ?V = "valid_part cands out"
  have nv [simp]: "st_state (invalid r) \<noteq> Valid" "st_state (pending r m) \<noteq> Valid" for r m
    by (simp_all add: invalid_def pending_def)
  define f where "f = (\<lambda>p. the (fmlookup cands p))"
  have f: "fmlookup cands p = Some (f p)" if "p \<in> set (parents_of ev)" for p
    using present that by (auto simp: f_def elim!: in_domE)
  have pevs: "mapM (fmlookup cands) (parents_of ev) = Some (map f (parents_of ev))" using f by (rule mapM_Some)
  have V_sub: "p \<in> set (subject_ids cands) \<and> is_valid out p" if "p \<in> fmdom' ?V" for p
    using that class_wfD(2) [OF inv] by (auto simp: valid_part_dom is_valid_def dest: fmdom'I)
  show ?thesis
  proof (cases "list_ex (\<lambda>pev. \<not> is_subject pev) (map f (parents_of ev))")
    case True
    then obtain p where "p \<in> set (parents_of ev)" "p \<notin> set (subject_ids cands)"
      using f by (auto simp: list_ex_iff subject_ids_iff)
    then have "\<not> lineage_accepts cands ?V (envelope_of ev)" using V_sub by (auto simp: lineage_accepts_def)
    with True show ?thesis by (simp add: check_lineage_def pevs)
  next
    case False
    then have "list_all (has out) (parents_of ev)"
      using ready kind f by (auto simp: schedulable_def list_ex_iff list_all_iff)
    define st where "st = (\<lambda>p. the (fmlookup out p))"
    have st: "fmlookup out p = Some (st p)" if "p \<in> set (parents_of ev)" for p
      using \<open>list_all (has out) (parents_of ev)\<close> that by (auto simp: st_def list_all_iff has_def)
    then have states: "mapM (fmlookup out) (parents_of ev) = Some (map st (parents_of ev))" by (rule mapM_Some)
    show ?thesis
    proof (cases "(\<exists>p\<in>set (parents_of ev). st_state (st p) \<noteq> Valid) \<or>
        parent_mismatch subject (env_subject_key (envelope_of ev)) (zip (parents_of ev) (map f (parents_of ev))) \<noteq> None")
      case True
      have "\<not> lineage_accepts cands ?V (envelope_of ev)"
      proof
        assume acc: "lineage_accepts cands ?V (envelope_of ev)"
        have "st_state (st p) = Valid" if p: "p \<in> set (parents_of ev)" for p
        proof -
          have "is_valid out p" using acc p V_sub by (auto simp: lineage_accepts_def)
          with st [OF p] show ?thesis by (simp add: is_valid_def)
        qed
        moreover have "parent_mismatch subject (env_subject_key (envelope_of ev))
            (zip (parents_of ev) (map f (parents_of ev))) = None"
          using acc f hd(2) by (auto simp: lineage_accepts_def parent_mismatch_None zip_map_same)
        ultimately show False using True by auto
      qed
      moreover have "\<exists>s. check_lineage H kok cands out (envelope_of ev) = Some s \<and> st_state s \<noteq> Valid"
        using True False by (auto simp: check_lineage_def pevs states hd(2) list_ex_iff split: option.split)
          (metis state.exhaust)
      ultimately show ?thesis by blast
    next
      case ok: False
      then have V: "set (parents_of ev) \<subseteq> fmdom' ?V" using present st by (auto simp: valid_part_dom)
      have "list_ex (\<lambda>s. st_state s = Invalid) (map st (parents_of ev)) = False"
        "list_ex (\<lambda>s. st_state s = Pending) (map st (parents_of ev)) = False"
        using ok by (auto simp: list_ex_iff)
      then have run: "check_lineage H kok cands out (envelope_of ev) = (case fmlookup cands subject of
          None \<Rightarrow> Some (pending ''subject_missing'' [subject])
        | Some genesis \<Rightarrow> if payload_kind (payload_of genesis) \<noteq> K_Genesis then Some (invalid ''wrong_subject'')
            else check_decision H kok cands (envelope_of ev))"
        using False ok by (simp add: check_lineage_def pevs states hd(2))
      obtain s where s: "check_authority H kok cands (envelope_of ev) = Some s"
        using check_authority_total [OF class_wfD(3) [OF inv] valid_part_sub V hd(1) ev(2) kind hd(3)] by blast
      have same: "\<forall>p pev. p \<in> set (parents_of ev) \<longrightarrow> fmlookup cands p = Some pev \<longrightarrow>
           (if payload_kind (payload_of pev) = K_Genesis then Some p else env_subject (envelope_of pev)) = Some subject \<and>
           env_subject_key (envelope_of pev) = env_subject_key (envelope_of ev)"
        using ok f by (auto simp: parent_mismatch_None zip_map_same)
      have sv: "st_state s = Valid \<longleftrightarrow> s = valid_status" using check_authority_status [OF s] by auto
      show ?thesis
        using run s V same hd(2) sv
        by (auto simp: check_decision_def lineage_accepts_def split: option.split)
    qed
  qed
qed

text \<open>What makes a subject event valid, relative to the valid events it is judged against.\<close>

definition admissible :: "(byte list \<Rightarrow> hash) \<Rightarrow> (hash \<Rightarrow> bool) \<Rightarrow> corpus \<Rightarrow> corpus \<Rightarrow> signed \<Rightarrow> bool" where
  "admissible H kok cands V ev \<longleftrightarrow> (let e = envelope_of ev in \<not> imprecise e \<and>
     (if payload_kind (env_payload e) = K_Genesis then genesis_header e
      else env_parents e \<noteq> [] \<and> (payload_kind (env_payload e) \<noteq> K_Resolve \<longrightarrow> length (env_parents e) = 1) \<and>
        (payload_kind (env_payload e) = K_Resolve \<longrightarrow> 2 \<le> length (env_parents e)) \<and>
        env_subject_key e \<noteq> None \<and> env_grant e \<noteq> None \<and> lineage_accepts cands V e \<and>
        check_authority H kok cands e = Some valid_status))"

lemma evaluate_total:
  assumes inv: "class_wf H cands out" and ev: "fmlookup cands eid = Some ev" "is_subject ev"
    and ready: "schedulable cands out ev"
  shows "\<exists>s. evaluate H kok cands out eid = Some s \<and>
    (st_state s = Valid \<longleftrightarrow> admissible H kok cands (valid_part cands out) ev)"
proof -
  let ?e = "envelope_of ev"
  consider "imprecise ?e" | "\<not> imprecise ?e" "payload_kind (payload_of ev) = K_Genesis"
    | "\<not> imprecise ?e" "payload_kind (payload_of ev) \<noteq> K_Genesis"
      "env_parents ?e = [] \<or> (payload_kind (payload_of ev) \<noteq> K_Resolve \<and> length (env_parents ?e) \<noteq> 1)
       \<or> (payload_kind (payload_of ev) = K_Resolve \<and> length (env_parents ?e) < 2)
       \<or> env_subject ?e = None \<or> env_subject_key ?e = None \<or> env_grant ?e = None
       \<or> filter (\<lambda>p. \<not> has cands p) (env_parents ?e) \<noteq> []"
    | subject g where "\<not> imprecise ?e" "payload_kind (payload_of ev) \<noteq> K_Genesis" "env_parents ?e \<noteq> []"
      "payload_kind (payload_of ev) \<noteq> K_Resolve \<longrightarrow> length (env_parents ?e) = 1"
      "payload_kind (payload_of ev) = K_Resolve \<longrightarrow> 2 \<le> length (env_parents ?e)"
      "env_subject ?e = Some subject" "env_subject_key ?e \<noteq> None" "env_grant ?e = Some g"
      "filter (\<lambda>p. \<not> has cands p) (env_parents ?e) = []"
    by fastforce
  then show ?thesis
  proof cases
    case 4
    then have "set (parents_of ev) \<subseteq> fmdom' cands" by (auto simp: filter_empty_conv has_iff)
    from check_lineage_total [OF inv ev 4(2,3,6,8) this ready] obtain s where
      s: "check_lineage H kok cands out ?e = Some s"
      "st_state s = Valid \<longleftrightarrow> lineage_accepts cands (valid_part cands out) ?e \<and>
         check_authority H kok cands ?e = Some valid_status"
      by blast
    have "evaluate H kok cands out eid = Some s"
      using s(1) 4 ev by (auto simp: evaluate_def Let_def not_less)
    moreover have "st_state s = Valid \<longleftrightarrow> admissible H kok cands (valid_part cands out) ev"
      using s(2) 4 by (simp add: admissible_def Let_def)
    ultimately show ?thesis by blast
  next
    case 3
    then have "\<not> admissible H kok cands (valid_part cands out) ev"
      using sub_corpus_dom [OF valid_part_sub, of cands out]
      by (auto simp: admissible_def Let_def lineage_accepts_def filter_empty_conv has_iff)
    with 3 show ?thesis by (auto simp: evaluate_def Let_def ev)
  qed (auto simp: evaluate_def admissible_def Let_def ev)
qed

text \<open>An admissible event can join the valid ones.\<close>

lemma admissible_wf:
  assumes inv: "class_wf H cands out" and ev: "fmlookup cands eid = Some ev" "is_subject ev"
    and adm: "admissible H kok cands (valid_part cands out) ev"
  shows "set (parents_of ev) \<subseteq> fmdom' (valid_part cands out)" "event_wf H (valid_part cands out) eid ev"
    "select_wf H (valid_part cands out) ev"
proof -
  let ?V = "valid_part cands out"
  have all: "set (parents_of ev) \<subseteq> fmdom' ?V \<and> event_wf H ?V eid ev \<and> select_wf H ?V ev"
  proof (cases "payload_kind (payload_of ev) = K_Genesis")
    case True
    then obtain n b x where g: "payload_of ev = Genesis n b x" by (cases "payload_of ev") auto
    then show ?thesis using adm ev(2)
      by (simp add: admissible_def Let_def genesis_header_def event_wf_def select_wf_def signer_def keys_issued_def)
  next
    case False
    then obtain g subject where h: "parents_of ev \<noteq> []" "env_grant (envelope_of ev) = Some g"
      "set (parents_of ev) \<subseteq> fmdom' ?V" "env_subject (envelope_of ev) = Some subject"
      "check_authority H kok cands (envelope_of ev) = Some valid_status"
      using adm by (auto simp: admissible_def Let_def lineage_accepts_def)
    from check_authority_total [OF class_wfD(3) [OF inv] valid_part_sub h(3,1) ev(2) False h(2), of kok] h(5)
    have "g \<in> grant_keys H ?V (past_of ?V ev)"
      "\<forall>grantee issuer d. payload_of ev = Delegate grantee issuer d \<longrightarrow> issuer = g"
      "\<forall>r ds d. payload_of ev = Resolve (S_Revision r) ds d \<longrightarrow> r \<in> fmdom' (revisions H ?V)" by auto
    with h ev(2) show ?thesis
      by (auto simp: event_wf_def select_wf_def signer_def split: payload.split)
  qed
  then show "set (parents_of ev) \<subseteq> fmdom' ?V" "event_wf H ?V eid ev" "select_wf H ?V ev" by auto
qed

text \<open>
  Every status given so far is the verdict of \<open>admissible\<close>, and later statuses do not change it: an
  event is judged only when all its parents are, or when one of them can never be valid.
\<close>

definition judged :: "(byte list \<Rightarrow> hash) \<Rightarrow> (hash \<Rightarrow> bool) \<Rightarrow> corpus \<Rightarrow> statuses \<Rightarrow> bool" where
  "judged H kok cands out \<longleftrightarrow> (\<forall>eid ev. has out eid \<longrightarrow> fmlookup cands eid = Some ev \<longrightarrow>
     schedulable cands out ev \<and> (is_valid out eid \<longleftrightarrow> admissible H kok cands (valid_part cands out) ev))"

definition extends :: "statuses \<Rightarrow> statuses \<Rightarrow> bool" where
  "extends out out' \<longleftrightarrow> (\<forall>x. has out x \<longrightarrow> fmlookup out' x = fmlookup out x)"

lemma extendsD:
  assumes "extends out out'" "has out x"
  shows "has out' x" "is_valid out' x \<longleftrightarrow> is_valid out x"
proof -
  have "fmlookup out' x = fmlookup out x" using assms unfolding extends_def by blast
  then show "has out' x" "is_valid out' x \<longleftrightarrow> is_valid out x" using assms(2) by (auto simp: has_def is_valid_def)
qed

lemma extends_schedulable:
  "extends out out' \<Longrightarrow> schedulable cands out ev \<Longrightarrow> schedulable cands out' ev"
  by (auto simp: schedulable_def list_all_iff dest: extendsD)

lemma valid_part_iff: "eid \<in> fmdom' (valid_part cands out) \<longleftrightarrow> eid \<in> fmdom' cands \<and> is_valid out eid"
  by (simp add: valid_part_dom is_valid_def)

lemma admissible_stable:
  assumes ext: "extends out out'" and dom: "fmdom' out' \<subseteq> set (subject_ids cands)" "fmdom' out \<subseteq> set (subject_ids cands)"
    and ready: "schedulable cands out ev"
  shows "admissible H kok cands (valid_part cands out') ev \<longleftrightarrow> admissible H kok cands (valid_part cands out) ev"
proof (cases "payload_kind (payload_of ev) = K_Genesis")
  case False
  consider p where "p \<in> set (parents_of ev)" "p \<notin> set (subject_ids cands)"
    | "\<forall>p\<in>set (parents_of ev). has out p"
    using ready False by (auto simp: schedulable_def list_ex_iff list_all_iff subject_ids_iff split: option.splits)
  then have "set (parents_of ev) \<subseteq> fmdom' (valid_part cands out') \<longleftrightarrow> set (parents_of ev) \<subseteq> fmdom' (valid_part cands out)"
  proof cases
    case 1
    then have "\<not> is_valid out' p" "\<not> is_valid out p" using dom by (auto simp: is_valid_def dest: fmdom'I)
    with 1 show ?thesis by (auto simp: valid_part_iff)
  next
    case 2
    then show ?thesis using extendsD(2) [OF ext] by (auto simp: valid_part_iff)
  qed
  then show ?thesis by (simp add: admissible_def lineage_accepts_def Let_def)
qed (simp add: admissible_def Let_def)

lemma judged_extend:
  assumes j: "judged H kok cands out" and ext: "extends out out'"
    and dom: "fmdom' out' \<subseteq> set (subject_ids cands)" "fmdom' out \<subseteq> set (subject_ids cands)"
    and new: "\<And>eid ev. has out' eid \<Longrightarrow> \<not> has out eid \<Longrightarrow> fmlookup cands eid = Some ev \<Longrightarrow>
      schedulable cands out' ev \<and> (is_valid out' eid \<longleftrightarrow> admissible H kok cands (valid_part cands out') ev)"
  shows "judged H kok cands out'"
  unfolding judged_def
proof (intro allI impI)
  fix eid ev assume eid: "has out' eid" "fmlookup cands eid = Some ev"
  show "schedulable cands out' ev \<and> (is_valid out' eid \<longleftrightarrow> admissible H kok cands (valid_part cands out') ev)"
  proof (cases "has out eid")
    case True
    with j eid(2) have "schedulable cands out ev"
      "is_valid out eid \<longleftrightarrow> admissible H kok cands (valid_part cands out) ev" by (auto simp: judged_def)
    with True show ?thesis
      using extends_schedulable [OF ext] extendsD(2) [OF ext] admissible_stable [OF ext dom] by blast
  qed (use new eid in blast)
qed

definition class_inv :: "(byte list \<Rightarrow> hash) \<Rightarrow> (hash \<Rightarrow> bool) \<Rightarrow> corpus \<Rightarrow> statuses \<Rightarrow> bool" where
  "class_inv H kok cands out \<longleftrightarrow> class_wf H cands out \<and> judged H kok cands out"

lemma class_invD:
  assumes "class_inv H kok cands out"
  shows "distinct_ids H (fmdom' cands)" "fmdom' out \<subseteq> set (subject_ids cands)"
    "subject_wf H (valid_part cands out)" "class_wf H cands out" "judged H kok cands out"
  using assms by (simp_all add: class_inv_def class_wf_def)

lemma class_inv_init: "distinct_ids H (fmdom' cands) \<Longrightarrow> class_inv H kok cands fmempty"
  by (simp add: class_inv_def class_wf_init judged_def has_def)

lemma classify_step_total:
  assumes inv: "class_inv H kok cands out" and eid: "eid \<in> fmdom' cands"
  shows "\<exists>out'. classify_step H kok cands eid out = Some out' \<and> class_inv H kok cands out' \<and>
    fmdom' out \<subseteq> fmdom' out' \<and> fmdom' out' \<subseteq> insert eid (fmdom' out) \<and>
    (\<forall>ev. fmlookup cands eid = Some ev \<longrightarrow> is_subject ev \<longrightarrow> schedulable cands out ev \<longrightarrow> has out' eid)"
proof -
  obtain ev where ev: "fmlookup cands eid = Some ev" using eid by (rule in_domE)
  show ?thesis
  proof (cases "has out eid \<or> \<not> is_subject ev \<or> \<not> schedulable cands out ev")
    case True
    with ev inv show ?thesis by (auto simp: classify_step_def)
  next
    case False
    then have ready: "schedulable cands out ev" by simp
    obtain s where s: "evaluate H kok cands out eid = Some s"
      "st_state s = Valid \<longleftrightarrow> admissible H kok cands (valid_part cands out) ev"
      using evaluate_total [OF class_invD(4) [OF inv] ev, of kok] False by blast
    let ?out = "fmupd eid s out"
    have new: "eid \<notin> fmdom' (valid_part cands out)" using False by (auto simp: valid_part_dom has_def)
    have ids: "distinct_ids H (insert eid (fmdom' (valid_part cands out)))"
      using class_invD(1) [OF inv] eid sub_corpus_dom [OF valid_part_sub] by (auto intro: distinct_ids_mono)
    have "subject_wf H (valid_part cands ?out)"
    proof (cases "st_state s = Valid")
      case True
      note wf = admissible_wf [OF class_invD(4) [OF inv] ev _ iffD1 [OF s(2) True]]
      show ?thesis using True False valid_part_upd [OF ev, of out s]
          subject_wf_add [OF class_invD(3) [OF inv] new wf(1) ids wf(2,3)] by simp
    qed (use class_invD(3) [OF inv] valid_part_upd [OF ev, of out s] False in simp)
    moreover have dom: "fmdom' ?out \<subseteq> set (subject_ids cands)"
      using class_invD(2) [OF inv] ev False by (auto simp: subject_ids_iff)
    ultimately have wf: "class_wf H cands ?out" using class_invD(1) [OF inv] by (simp add: class_wf_def)
    have ext: "extends out ?out" using False by (auto simp: extends_def has_def)
    have "judged H kok cands ?out"
    proof (rule judged_extend [OF class_invD(5) [OF inv] ext dom class_invD(2) [OF inv]])
      fix x xev assume x: "has ?out x" "\<not> has out x" "fmlookup cands x = Some xev"
      then have "x = eid" "xev = ev" using ev by (auto simp: has_def split: if_splits)
      then show "schedulable cands ?out xev \<and> (is_valid ?out x \<longleftrightarrow> admissible H kok cands (valid_part cands ?out) xev)"
        using extends_schedulable [OF ext ready] admissible_stable [OF ext dom class_invD(2) [OF inv] ready] s(2)
        by (simp add: is_valid_def)
    qed
    moreover have "classify_step H kok cands eid out = Some ?out"
      using False s(1) ev by (simp add: classify_step_def)
    ultimately show ?thesis using wf by (auto simp: class_inv_def has_def)
  qed
qed

interpretation cl: sweep "keys cands" "classify_step H kok cands" fmdom' "class_inv H kok cands" for H kok cands
proof unfold_locales
  fix eid out assume "eid \<in> set (keys cands)" "class_inv H kok cands out"
  with classify_step_total [of H kok cands out eid]
  show "\<exists>out'. classify_step H kok cands eid out = Some out' \<and> class_inv H kok cands out' \<and>
      fmdom' out \<subseteq> fmdom' out' \<and> fmdom' out' \<subseteq> insert eid (fmdom' out)"
    unfolding set_keys by blast
qed

section \<open>The loop\<close>

lemma or_insert_dom: "fmdom' (fold (or_insert s) xs out) = fmdom' out \<union> set xs"
  by (induction xs arbitrary: out) (auto simp: or_insert_def has_iff)

lemma or_insert_lookup:
  "fmlookup (fold (or_insert s) xs out) x = (case fmlookup out x of Some t \<Rightarrow> Some t
     | None \<Rightarrow> if x \<in> set xs then Some s else None)"
  by (induction xs arbitrary: out) (auto simp: or_insert_def has_def split: option.splits)

lemma valid_part_fill:
  "st_state s \<noteq> Valid \<Longrightarrow> valid_part cands (fold (or_insert s) xs out) = valid_part cands out"
  by (rule fmap_ext) (auto simp: valid_part_def or_insert_lookup split: option.splits)

lemma length_subject_ids: "length (subject_ids cands) = card (set (subject_ids cands))"
  by (rule distinct_card [symmetric]) (simp add: subject_ids_def)

lemma schedulable_dom: "fmdom' out = fmdom' out' \<Longrightarrow> schedulable cands out ev = schedulable cands out' ev"
  by (simp add: schedulable_def has_iff list_all_iff)

text \<open>A sweep that gives no status leaves only events that wait for a parent.\<close>

lemma classify_stuck:
  assumes inv: "class_inv H kok cands out" and t: "for_each (classify_step H kok cands) (keys cands) out = Some t"
    and dom: "fmdom' t = fmdom' out" and eid: "fmlookup cands eid = Some ev" "is_subject ev" "\<not> has t eid"
  shows "\<not> schedulable cands t ev"
proof
  assume ready: "schedulable cands t ev"
  have mem: "eid \<in> set (keys cands)" "eid \<in> fmdom' cands" using eid(1) by (auto intro: fmdom'I)
  obtain u u' t' where u: "class_inv H kok cands u" "fmdom' out \<subseteq> fmdom' u" "classify_step H kok cands eid u = Some u'"
    "class_inv H kok cands u'" "fmdom' u' \<subseteq> fmdom' t'" "for_each (classify_step H kok cands) (keys cands) out = Some t'"
    using inv mem(1) by (rule cl.sweep_visit)
  have u': "fmdom' u \<subseteq> fmdom' u'" "schedulable cands u ev \<Longrightarrow> has u' eid"
    using classify_step_total [OF u(1) mem(2)] u(3) eid by auto
  have "fmdom' u = fmdom' t" using u u' t dom by auto
  then have "has u' eid" using u'(2) ready schedulable_dom by blast
  then have "has t eid" using u(5,6) t by (auto simp: has_iff)
  with eid(3) show False by simp
qed

text \<open>The rest is on a cycle or behind one, and none of it is admissible.\<close>

lemma cycle_fill:
  assumes inv: "class_inv H kok cands t"
    and stuck: "\<And>eid ev. fmlookup cands eid = Some ev \<Longrightarrow> is_subject ev \<Longrightarrow> \<not> has t eid \<Longrightarrow> \<not> schedulable cands t ev"
  shows "class_inv H kok cands (fold (or_insert (invalid ''cycle'')) (subject_ids cands) t)"
proof -
  let ?t = "fold (or_insert (invalid ''cycle'')) (subject_ids cands) t"
  have dom: "fmdom' ?t = set (subject_ids cands)" using class_invD(2) [OF inv] by (auto simp: or_insert_dom)
  have V: "valid_part cands ?t = valid_part cands t" by (simp add: valid_part_fill)
  have ext: "extends t ?t" by (auto simp: extends_def has_def or_insert_lookup)
  have "judged H kok cands ?t"
  proof (rule judged_extend [OF class_invD(5) [OF inv] ext _ class_invD(2) [OF inv]])
    fix eid ev assume eid: "has ?t eid" "\<not> has t eid" "fmlookup cands eid = Some ev"
    have new: "is_subject ev" using eid dom by (auto simp: has_iff subject_ids_iff)
    from stuck [OF eid(3) new eid(2)] obtain p where
      p: "p \<in> set (parents_of ev)" "\<not> has t p" "payload_kind (payload_of ev) \<noteq> K_Genesis"
      and all: "set (parents_of ev) \<subseteq> set (subject_ids cands)"
      by (fastforce simp: schedulable_def list_all_iff list_ex_iff subject_ids_iff split: option.splits)
    have "\<not> admissible H kok cands (valid_part cands ?t) ev"
      unfolding V using p by (auto simp: admissible_def Let_def lineage_accepts_def valid_part_dom has_def)
    moreover have "\<not> is_valid ?t eid" using eid(2) by (auto simp: is_valid_def or_insert_lookup has_def)
    moreover have "schedulable cands ?t ev" using all dom by (auto simp: schedulable_def list_all_iff has_iff)
    ultimately show "schedulable cands ?t ev \<and> (is_valid ?t eid \<longleftrightarrow> admissible H kok cands (valid_part cands ?t) ev)"
      by blast
  qed (simp add: dom)
  with inv dom V show ?thesis by (simp add: class_inv_def class_wf_def)
qed

lemma classify_round_total:
  assumes inv: "class_inv H kok cands out" and more: "fm_len out < length (subject_ids cands)"
  shows "\<exists>out'. classify_round H kok cands out = Some out' \<and> class_inv H kok cands out' \<and> fm_len out < fm_len out'"
proof -
  obtain t where t: "for_each (classify_step H kok cands) (keys cands) out = Some t" "class_inv H kok cands t"
    "fmdom' out \<subseteq> fmdom' t" using cl.sweep_all [OF inv] by blast
  show ?thesis
  proof (cases "fm_len t = fm_len out")
    case True
    let ?t = "fold (or_insert (invalid ''cycle'')) (subject_ids cands) t"
    have "fmdom' t = fmdom' out"
      using card_subset_eq [OF _ t(3)] True by (simp add: fm_len_card)
    then have "class_inv H kok cands ?t" using cycle_fill [OF t(2)] classify_stuck [OF inv t(1)] by blast
    moreover have "fmdom' ?t = set (subject_ids cands)" using class_invD(2) [OF t(2)] by (auto simp: or_insert_dom)
    then have "fm_len ?t = length (subject_ids cands)" by (simp add: fm_len_card length_subject_ids)
    ultimately show ?thesis using t(1) True more by (simp add: classify_round_def)
  next
    case False
    then have "fm_len out < fm_len t" using t(3) by (simp add: fm_len_card card_mono le_neq_implies_less)
    then show ?thesis using t False by (simp add: classify_round_def)
  qed
qed

lemma classify_subjects_total:
  assumes "distinct_ids H (fmdom' cands)"
  shows "\<exists>out. classify_subjects H kok cands = Some out \<and> class_inv H kok cands out \<and>
    fmdom' out = set (subject_ids cands)"
proof -
  have "\<exists>out. classify_subjects H kok cands = Some out \<and> class_inv H kok cands out \<and>
      \<not> fm_len out < length (subject_ids cands)"
    unfolding classify_subjects_def
  proof (rule while_loop_rule [where m = "\<lambda>out. length (subject_ids cands) - fm_len out"])
    fix out assume "class_inv H kok cands out" "fm_len out < length (subject_ids cands)"
    with classify_round_total [of H kok cands out] show "\<exists>out'. classify_round H kok cands out = Some out' \<and>
        class_inv H kok cands out' \<and> length (subject_ids cands) - fm_len out' < length (subject_ids cands) - fm_len out"
      by (meson diff_less_mono2)
  qed (rule class_inv_init [OF assms])
  then obtain out where out: "classify_subjects H kok cands = Some out" "class_inv H kok cands out"
    "\<not> fm_len out < length (subject_ids cands)" by blast
  then have "fmdom' out = set (subject_ids cands)"
    using class_invD(2) [OF out(2)] by (intro card_seteq) (auto simp: fm_len_card length_subject_ids)
  with out show ?thesis by blast
qed

end
