(* ===== verification/Edge_Admission.thy ===== *)
theory Edge_Admission
  imports Edges Classification
begin

text \<open>
  Selections on a well-formed set of valid subject events, and admission of edges and
  attestations: the classifier as a whole returns a status for exactly the candidates.
\<close>

section \<open>Selections\<close>

text \<open>
  Every event selects a revision that exists: its own, the one it names, or that of its parent.
\<close>

definition selected_ok :: "(byte list \<Rightarrow> hash) \<Rightarrow> corpus \<Rightarrow> (hash, hash) fmap \<Rightarrow> hash \<Rightarrow> hash \<Rightarrow> bool" where
  "selected_ok H V out x r \<longleftrightarrow> r \<in> fmdom' (revisions H V) \<and> (\<exists>ev. fmlookup V x = Some ev \<and>
     (case payload_of ev of
        Genesis _ _ _ \<Rightarrow> r = revision_id H (subject_or ev x) x
      | Correction _ _ \<Rightarrow> r = revision_id H (subject_or ev x) x
      | Resolve (S_MergedBody _) _ _ \<Rightarrow> r = revision_id H (subject_or ev x) x
      | Resolve (S_Revision q) _ _ \<Rightarrow> r = q
      | _ \<Rightarrow> (\<exists>p ps. parents_of ev = p # ps \<and> fmlookup out p = Some r)))"

definition selections_ok :: "(byte list \<Rightarrow> hash) \<Rightarrow> corpus \<Rightarrow> (hash, hash) fmap \<Rightarrow> bool" where
  "selections_ok H V out \<longleftrightarrow> (\<forall>x r. fmlookup out x = Some r \<longrightarrow> selected_ok H V out x r)"

lemma selected_ok_upd:
  assumes "selected_ok H V out x r" "eid \<notin> fmdom' out"
  shows "selected_ok H V (fmupd eid q out) x r"
proof -
  have keep: "eid \<noteq> p" if "fmlookup out p = Some r" for p
    using that fmdom'_notD [OF assms(2)] by auto
  obtain ev where ev: "fmlookup V x = Some ev" using assms(1) by (auto simp: selected_ok_def)
  show ?thesis
  proof (cases "payload_of ev")
    case (Resolve s ds d)
    with assms(1) ev show ?thesis by (cases s) (auto simp: selected_ok_def)
  qed (use assms(1) ev keep in \<open>auto simp: selected_ok_def\<close>)
qed

lemma created_revision:
  assumes "fmlookup V x = Some ev" "created_body (payload_of ev) \<noteq> None"
  shows "revision_id H (subject_or ev x) x \<in> fmdom' (revisions H V)"
proof -
  from assms(2) obtain b where "created_body (payload_of ev) = Some b" by blast
  then have "\<exists>rv. revision_of H x ev = Some rv \<and> rv_id rv = revision_id H (subject_or ev x) x"
    by (simp add: revision_of_def)
  with revisions_dom [OF assms(1)] show ?thesis by metis
qed

lemma select_step_fresh:
  assumes wf: "subject_wf H V" and ok: "selections_ok H V out" and ev: "fmlookup V eid = Some ev"
    and new: "eid \<notin> fmdom' out" and ps: "set (parents_of ev) \<subseteq> fmdom' out"
  shows "\<exists>q. select_step H V eid out = Some (fmupd eid q out) \<and> selections_ok H V (fmupd eid q out)"
proof -
  have guard: "\<not> (has out eid \<or> list_ex (\<lambda>p. \<not> has out p) (parents_of ev))"
    using new ps by (auto simp: has_iff list_ex_iff)
  note sel = subject_wfD(4) [OF wf ev]
  have parent: "\<exists>p ps' r. parents_of ev = p # ps' \<and> fmlookup out p = Some r \<and> r \<in> fmdom' (revisions H V)"
    if kind: "payload_kind (payload_of ev) \<noteq> K_Genesis"
  proof -
    obtain p ps' where p: "parents_of ev = p # ps'" using sel kind by (cases "parents_of ev") (auto simp: select_wf_def)
    then have "p \<in> fmdom' out" using ps by simp
    then obtain r where "fmlookup out p = Some r" by (rule in_domE)
    with ok p show ?thesis by (auto simp: selections_ok_def selected_ok_def)
  qed
  have "\<exists>q. select_step H V eid out = Some (fmupd eid q out) \<and> selected_ok H V out eid q"
  proof (cases "payload_of ev")
    case (Resolve s ds d)
    then show ?thesis using guard ev sel created_revision [OF ev, of H]
      by (cases s) (auto simp: select_step_def selected_ok_def select_wf_def)
  qed (use guard ev sel parent created_revision [OF ev, of H] in
      \<open>auto simp: select_step_def selected_ok_def select_wf_def is_subject_def\<close>)
  then obtain q where q: "select_step H V eid out = Some (fmupd eid q out)" "selected_ok H V out eid q" by blast
  have "selections_ok H V (fmupd eid q out)"
    unfolding selections_ok_def
  proof (intro allI impI selected_ok_upd [OF _ new])
    fix x r assume "fmlookup (fmupd eid q out) x = Some r"
    then show "selected_ok H V out x r" using q(2) ok by (auto simp: selections_ok_def split: if_splits)
  qed
  with q(1) show ?thesis by blast
qed

abbreviation select_deps :: "(byte list \<Rightarrow> hash) \<Rightarrow> corpus \<Rightarrow> (hash \<times> hash) set" where
  "select_deps H V \<equiv> (if subject_wf H V then parent_rel V else {})"

interpretation se: scheduler "keys V" "select_step H V" fmdom' "\<lambda>out. subject_wf H V \<and> selections_ok H V out"
    "select_deps H V" for H V
proof
  fix eid out
  assume "eid \<in> set (keys V)" and inv: "subject_wf H V \<and> selections_ok H V out"
  then obtain ev where ev: "fmlookup V eid = Some ev" by (auto elim: in_domE)
  show "\<exists>out'. select_step H V eid out = Some out' \<and> (subject_wf H V \<and> selections_ok H V out') \<and>
      fmdom' out \<subseteq> fmdom' out' \<and> fmdom' out' \<subseteq> insert eid (fmdom' out)"
  proof (cases "has out eid \<or> list_ex (\<lambda>p. \<not> has out p) (parents_of ev)")
    case True
    with ev inv show ?thesis by (auto simp: select_step_def)
  next
    case False
    then have "eid \<notin> fmdom' out" "set (parents_of ev) \<subseteq> fmdom' out" by (auto simp: has_iff list_ex_iff)
    with select_step_fresh [of H V out eid ev] inv ev show ?thesis by auto
  qed
  fix out'
  assume run: "select_step H V eid out = Some out'"
    and deps: "\<And>p. (p, eid) \<in> select_deps H V \<Longrightarrow> p \<in> fmdom' out"
  have ps: "set (parents_of ev) \<subseteq> fmdom' out" using deps inv ev by (auto simp: parent_rel_def)
  show "eid \<in> fmdom' out'"
  proof (cases "eid \<in> fmdom' out")
    case True
    with run ev show ?thesis by (simp add: select_step_def has_iff)
  next
    case False
    with select_step_fresh [of H V out eid ev] inv ev ps run show ?thesis by auto
  qed
next
  show "wf (select_deps H V)" by (auto dest: subject_wfD(3))
  show "p \<in> set (keys V)" if "(p, eid) \<in> select_deps H V" for p eid
    using that by (auto simp: parent_rel_def dest: subject_wfD(2) causally_closedD split: if_splits)
qed

lemma selections_total:
  assumes "subject_wf H V"
  shows "\<exists>sel. selections H V = Some sel \<and> fmdom' sel = fmdom' V \<and> selections_ok H V sel"
proof -
  have "\<exists>sel. selections H V = Some sel \<and> (subject_wf H V \<and> selections_ok H V sel) \<and> fmdom' sel = set (keys V)"
    unfolding selections_def
    by (rule se.schedule_all [of H V]) (simp_all add: assms selections_ok_def fm_len_less)
  then show ?thesis by auto
qed

section \<open>Edges\<close>

definition edge_event :: "corpus \<Rightarrow> hash \<Rightarrow> bool" where
  "edge_event cands eid \<longleftrightarrow> (\<exists>ev. fmlookup cands eid = Some ev \<and>
     payload_kind (payload_of ev) \<in> {K_EdgeAssert, K_EdgeReaffirm})"

text \<open>
  The invariant of the two phases: the subject events are classified, their selections exist, the
  parents of a valid edge are valid edges, and the valid edges have no cycle.
\<close>

definition edge_ranked :: "corpus \<Rightarrow> statuses \<Rightarrow> bool" where
  "edge_ranked cands out \<longleftrightarrow> (\<exists>rank :: hash \<Rightarrow> nat. \<forall>eid ev p. fmlookup cands eid = Some ev \<longrightarrow> edge_event cands eid \<longrightarrow>
     is_valid out eid \<longrightarrow> p \<in> set (parents_of ev) \<longrightarrow> rank p < rank eid)"

definition edge_inv :: "corpus \<Rightarrow> subjects \<Rightarrow> statuses \<Rightarrow> bool" where
  "edge_inv cands s out \<longleftrightarrow> set (subject_ids cands) \<subseteq> fmdom' out \<and> fmdom' out \<subseteq> fmdom' cands \<and>
     (\<forall>eid\<in>set (subject_ids cands). is_valid out eid \<longrightarrow> eid \<in> fmdom' (su_selected s)) \<and>
     (\<forall>x r. fmlookup (su_selected s) x = Some r \<longrightarrow> r \<in> fmdom' (su_revisions s)) \<and>
     (\<forall>eid ev p. fmlookup cands eid = Some ev \<longrightarrow> edge_event cands eid \<longrightarrow> is_valid out eid \<longrightarrow>
        p \<in> set (parents_of ev) \<longrightarrow> edge_event cands p \<and> is_valid out p) \<and> edge_ranked cands out"

lemma edge_invD:
  assumes "edge_inv cands s out"
  shows "eid \<in> set (subject_ids cands) \<Longrightarrow> eid \<in> fmdom' out"
    "eid \<in> set (subject_ids cands) \<Longrightarrow> is_valid out eid \<Longrightarrow> eid \<in> fmdom' (su_selected s)"
    "fmlookup (su_selected s) x = Some r \<Longrightarrow> r \<in> fmdom' (su_revisions s)"
    "fmlookup cands eid = Some ev \<Longrightarrow> edge_event cands eid \<Longrightarrow> is_valid out eid \<Longrightarrow>
       p \<in> set (parents_of ev) \<Longrightarrow> edge_event cands p \<and> is_valid out p"
    "edge_ranked cands out"
  using assms unfolding edge_inv_def by blast+

lemma edge_invI:
  assumes "set (subject_ids cands) \<subseteq> fmdom' out" "fmdom' out \<subseteq> fmdom' cands"
    "\<And>eid. eid \<in> set (subject_ids cands) \<Longrightarrow> is_valid out eid \<Longrightarrow> eid \<in> fmdom' (su_selected s)"
    "\<And>x r. fmlookup (su_selected s) x = Some r \<Longrightarrow> r \<in> fmdom' (su_revisions s)"
    "\<And>eid ev p. fmlookup cands eid = Some ev \<Longrightarrow> edge_event cands eid \<Longrightarrow> is_valid out eid \<Longrightarrow>
       p \<in> set (parents_of ev) \<Longrightarrow> edge_event cands p \<and> is_valid out p"
    "edge_ranked cands out"
  shows "edge_inv cands s out"
  using assms unfolding edge_inv_def by blast

lemma edge_inv_doms:
  assumes "edge_inv cands s out"
  shows "set (subject_ids cands) \<subseteq> fmdom' out" "fmdom' out \<subseteq> fmdom' cands"
  using assms unfolding edge_inv_def by blast+

lemma edge_cone:
  assumes inv: "edge_inv cands s out" and p: "edge_event cands p" "is_valid out p"
  shows "\<exists>c. cone cands p = Some c"
proof -
  have "x \<in> fmdom' cands" if "x \<in> anc cands p" for x
  proof -
    from that have "edge_event cands x \<and> is_valid out x"
      by (induction rule: anc_induct) (use p edge_invD(4) [OF inv] in blast)+
    then show ?thesis by (auto simp: edge_event_def intro: fmdom'I)
  qed
  then show ?thesis by (auto simp: cone_eq)
qed

lemma check_pin_total:
  assumes inv: "edge_inv cands s out"
  shows "\<exists>st. check_pin cands out s pn = Some st"
proof (cases "has cands (pin_subject pn) \<and> has cands (pin_basis pn)")
  case True
  then obtain ev ev' where ev: "fmlookup cands (pin_basis pn) = Some ev" "fmlookup cands (pin_subject pn) = Some ev'"
    by (auto simp: has_def)
  show ?thesis
  proof (cases "is_subject ev")
    case sub: True
    then have ids: "pin_basis pn \<in> set (subject_ids cands)" using ev by (simp add: subject_ids_iff)
    then obtain st where st: "fmlookup out (pin_basis pn) = Some st"
      using edge_invD(1) [OF inv] by (blast elim: in_domE)
    show ?thesis
    proof (cases "st_state st = Valid")
      case v: True
      then obtain r where r: "fmlookup (su_selected s) (pin_basis pn) = Some r"
        using edge_invD(2) [OF inv ids] st by (auto simp: is_valid_def elim: in_domE)
      then obtain rv where "fmlookup (su_revisions s) r = Some rv"
        using edge_invD(3) [OF inv] by (blast elim: in_domE)
      with True ev st v r show ?thesis by (auto simp: check_pin_def)
    qed (use True ev st in \<open>auto simp: check_pin_def split: state.split\<close>)
  qed (use True ev in \<open>simp add: check_pin_def\<close>)
qed (auto simp: check_pin_def Let_def)

lemma check_pins_total:
  assumes "edge_inv cands s out"
  shows "\<exists>st. check_pins cands out s ps = Some st"
  using check_pin_total [OF assms, of "pins_source ps"] check_pin_total [OF assms, of "pins_target ps"]
  by (auto simp: check_pins_def Let_def)

lemma check_pin_subject:
  assumes "check_pin cands out s pn = Some st" "st_state st = Valid"
  shows "\<exists>ev. fmlookup cands (pin_subject pn) = Some ev \<and> payload_kind (payload_of ev) = K_Genesis"
  using assms by (auto simp: check_pin_def Let_def split: if_splits bind_splits)

lemma check_pins_valid:
  assumes "check_pins cands out s ps = Some st" "st_state st = Valid"
  shows "\<exists>a b. check_pin cands out s (pins_source ps) = Some a \<and> st_state a = Valid \<and>
    check_pin cands out s (pins_target ps) = Some b \<and> st_state b = Valid"
proof -
  from assms(1) obtain a b where ab: "check_pin cands out s (pins_source ps) = Some a"
    "check_pin cands out s (pins_target ps) = Some b" by (auto simp: check_pins_def split: bind_splits)
  with assms have "st_state a = Valid \<and> st_state b = Valid"
    by (cases "st_state a"; cases "st_state b") (auto simp: check_pins_def Let_def split: if_splits)
  with ab show ?thesis by blast
qed

lemma check_assert_total:
  assumes inv: "edge_inv cands s out"
  shows "\<exists>st. check_assert cands out s e rel ps d = Some st"
proof -
  obtain st where st: "check_pins cands out s ps = Some st" using check_pins_total [OF inv] by blast
  show ?thesis
  proof (cases "st_state st = Valid")
    case True
    then obtain src where "fmlookup cands (pin_subject (pins_source ps)) = Some src"
      using check_pins_valid [OF st] check_pin_subject by blast
    with st True show ?thesis by (auto simp: check_assert_def)
  qed (use st in \<open>auto simp: check_assert_def\<close>)
qed

lemma edge_of_event: "fmlookup cands p = Some ev \<Longrightarrow> edge_of p ev \<noteq> None \<longleftrightarrow> edge_event cands p"
  by (cases "payload_of ev") (auto simp: edge_of_def edge_event_def)

lemma pins_of_edge: "fmlookup cands p = Some ev \<Longrightarrow> edge_event cands p \<Longrightarrow> \<exists>ps. pins_of ev = Some ps"
  by (cases "payload_of ev") (auto simp: pins_of_def edge_event_def)

lemma reaffirm_decision_total:
  assumes inv: "edge_inv cands s out" and ps: "\<And>p. p \<in> set (env_parents e) \<Longrightarrow> edge_event cands p"
  shows "\<exists>st. reaffirm_decision cands out s e old new d = Some st"
proof (cases "map pp_parent old = env_parents e")
  case True
  define f where "f = (\<lambda>pp. the (old_pins_differ cands pp))"
  have "old_pins_differ cands pp = Some (f pp)" if "pp \<in> set old" for pp
  proof -
    have "pp_parent pp \<in> set (env_parents e)" using that True [symmetric] by simp
    then have edge: "edge_event cands (pp_parent pp)" by (rule ps)
    then obtain ev where ev: "fmlookup cands (pp_parent pp) = Some ev" by (auto simp: edge_event_def)
    from pins_of_edge [OF ev edge] obtain q where "pins_of ev = Some q" ..
    with ev show ?thesis by (simp add: old_pins_differ_def f_def)
  qed
  then have "anyM (old_pins_differ cands) old = Some (\<exists>pp\<in>set old. f pp)" by (rule anyM_Some)
  with True check_pins_total [OF inv, of new] show ?thesis by (auto simp: reaffirm_decision_def)
qed (simp add: reaffirm_decision_def)

lemma check_reaffirm_total:
  assumes inv: "edge_inv cands s out" and ready: "edge_ready cands out ev"
    and ev: "payload_of ev = EdgeReaffirm edge old new d"
  shows "\<exists>st. check_reaffirm cands out s (envelope_of ev) edge old new d = Some st \<and>
    (st_state st = Valid \<longrightarrow> (\<forall>p\<in>set (parents_of ev). edge_event cands p \<and> is_valid out p))"
proof -
  let ?ps = "parents_of ev"
  note nv [simp] = status_of_invalid
  let ?c = "\<lambda>p. the (fmlookup cands p)" and ?o = "\<lambda>p. the (fmlookup out p)"
  define base where "base = the (fmlookup cands edge)"
  have lk: "fmlookup cands edge = Some base" if "has cands edge"
    using that by (auto simp: base_def has_def)
  consider "?ps = []" | "?ps \<noteq> []" "\<exists>r\<in>set (?ps @ [edge]). \<not> has cands r"
    | "?ps \<noteq> []" "\<forall>r\<in>set (?ps @ [edge]). has cands r" "fmlookup cands edge = Some base"
      "payload_kind (payload_of base) \<noteq> K_EdgeAssert \<or> (\<exists>p\<in>set ?ps. edge_of p (?c p) \<noteq> Some edge)"
    | "?ps \<noteq> []" "\<forall>r\<in>set (?ps @ [edge]). has cands r" "fmlookup cands edge = Some base"
      "payload_kind (payload_of base) = K_EdgeAssert" "\<forall>p\<in>set ?ps. edge_of p (?c p) = Some edge"
    using lk by (metis in_set_conv_decomp)
  then show ?thesis
  proof cases
    case 1
    then show ?thesis by (simp add: check_reaffirm_def)
  next
    case 2
    then have "filter (\<lambda>r. \<not> has cands r) (?ps @ [edge]) \<noteq> []" by (auto simp: filter_empty_conv)
    then have "remdups_adj (sort (filter (\<lambda>r. \<not> has cands r) (?ps @ [edge]))) \<noteq> []"
      by (metis remdups_adj_Nil_iff set_empty set_sort)
    with 2 show ?thesis by (simp add: check_reaffirm_def Let_def)
  next
    case 3
    then have pevs: "mapM (fmlookup cands) ?ps = Some (map ?c ?ps)"
      by (intro mapM_Some) (auto simp: has_def)
    from 3 have miss: "filter (\<lambda>r. \<not> has cands r) (?ps @ [edge]) = []" by (auto simp: filter_empty_conv)
    from 3 show ?thesis
      by (simp add: check_reaffirm_def Let_def miss pevs zip_map_same list_ex_iff del: filter_append)
  next
    case 4
    then have pevs: "mapM (fmlookup cands) ?ps = Some (map ?c ?ps)"
      by (intro mapM_Some) (auto simp: has_def)
    from 4 have miss: "filter (\<lambda>r. \<not> has cands r) (?ps @ [edge]) = []" by (auto simp: filter_empty_conv)
    have edges: "edge_event cands p" if pp: "p \<in> set ?ps" for p
    proof -
      obtain pev where "fmlookup cands p = Some pev" using 4(2) pp by (auto simp: has_def)
      with edge_of_event [of cands p pev] 4(5) pp show ?thesis by fastforce
    qed
    have base: "edge_event cands edge" using 4(3,4) by (simp add: edge_event_def)
    have "has out p" if "p \<in> set (?ps @ [edge])" for p
    proof -
      from that edges base obtain pev where "fmlookup cands p = Some pev"
        "payload_kind (payload_of pev) \<noteq> K_Attestation" by (fastforce simp: edge_event_def)
      with ready that ev show ?thesis by (auto simp: edge_ready_def edge_deps_def list_all_iff)
    qed
    then have states: "mapM (fmlookup out) (?ps @ [edge]) = Some (map ?o (?ps @ [edge]))"
      by (intro mapM_Some) (auto simp: has_def)
    have run: "check_reaffirm cands out s (envelope_of ev) edge old new d =
      (if list_ex (\<lambda>s. st_state s = Invalid) (map ?o (?ps @ [edge])) then Some (invalid ''ancestor'')
       else if env_author (envelope_of ev) \<noteq> env_author (envelope_of base) then Some (invalid ''edge_author'')
       else if list_ex (\<lambda>s. st_state s = Pending) (map ?o (?ps @ [edge])) then Some (pending ''ancestor'' [])
       else do {
         cmp \<leftarrow> (if length ?ps > 1 then anyM (edge_comparable cands ?ps) ?ps else Some False);
         if cmp then Some (invalid ''comparable_parents'')
         else do {
           base_pins \<leftarrow> pins_of base;
           if pin_subject (pins_source new) \<noteq> pin_subject (pins_source base_pins)
              \<or> pin_subject (pins_target new) \<noteq> pin_subject (pins_target base_pins)
           then Some (invalid ''endpoint_changed'')
           else reaffirm_decision cands out s (envelope_of ev) old new d}})"
      using 4 by (simp add: check_reaffirm_def Let_def miss pevs states zip_map_same list_ex_iff del: filter_append map_append)
    show ?thesis
    proof (cases "\<forall>p\<in>set (?ps @ [edge]). st_state (?o p) = Valid")
      case True
      then have valid: "is_valid out p" if "p \<in> set ?ps" for p
        using that \<open>\<And>p. p \<in> set (?ps @ [edge]) \<Longrightarrow> has out p\<close> by (fastforce simp: is_valid_def has_def)
      have cone: "\<exists>c. cone cands p = Some c" if "p \<in> set ?ps" for p
        by (rule edge_cone [OF inv edges [OF that] valid [OF that]])
      have "anyM (edge_comparable cands ?ps) ?ps = Some (\<exists>p\<in>set ?ps. comparable ?ps (the (cone cands p)))"
      proof (rule anyM_Some)
        fix p assume "p \<in> set ?ps"
        with cone show "edge_comparable cands ?ps p = Some (comparable ?ps (the (cone cands p)))"
          by (fastforce simp: edge_comparable_def)
      qed
      moreover obtain bp where "pins_of base = Some bp" using pins_of_edge [OF 4(3) base] by blast
      moreover obtain st where "reaffirm_decision cands out s (envelope_of ev) old new d = Some st"
        using reaffirm_decision_total [OF inv edges] by blast
      moreover have "\<not> list_ex (\<lambda>s. st_state s = Invalid) (map ?o (?ps @ [edge]))"
        "\<not> list_ex (\<lambda>s. st_state s = Pending) (map ?o (?ps @ [edge]))" using True by (auto simp: list_ex_iff)
      ultimately show ?thesis using edges valid by (simp add: run)
    next
      case False
      then have "list_ex (\<lambda>s. st_state s = Invalid) (map ?o (?ps @ [edge])) \<or>
          list_ex (\<lambda>s. st_state s = Pending) (map ?o (?ps @ [edge]))"
        by (auto simp: list_ex_iff) (metis state.exhaust)+
      then show ?thesis unfolding run by auto
    qed
  qed
qed

lemma evaluate_edge_total:
  assumes inv: "edge_inv cands s out" and ev: "fmlookup cands eid = Some ev" "\<not> is_subject ev"
    and ready: "edge_ready cands out ev"
  shows "\<exists>st. evaluate_edge cands out s eid = Some st \<and> (st_state st = Valid \<longrightarrow> edge_event cands eid \<longrightarrow>
    (\<forall>p\<in>set (parents_of ev). edge_event cands p \<and> is_valid out p))"
proof (cases "payload_of ev")
  case (EdgeAssert rel ps d)
  obtain st where st: "check_assert cands out s (envelope_of ev) rel ps d = Some st"
    using check_assert_total [OF inv] by blast
  moreover have "parents_of ev = []" if "st_state st = Valid"
    using st that by (auto simp: check_assert_def split: if_splits)
  ultimately show ?thesis using ev EdgeAssert by (auto simp: evaluate_edge_def Let_def)
next
  case (EdgeReaffirm edge old new d)
  from check_reaffirm_total [OF inv ready EdgeReaffirm] ev EdgeReaffirm show ?thesis
    by (auto simp: evaluate_edge_def Let_def)
next
  case (Attestation tk target ak art)
  then show ?thesis using ev by (auto simp: evaluate_edge_def Let_def edge_event_def)
qed (use ev in \<open>simp_all add: is_subject_def\<close>)

lemma edge_ranked_add:
  assumes inv: "edge_inv cands s out" and new: "\<not> is_valid out eid" and ev: "fmlookup cands eid = Some ev"
    and keep: "\<And>x. x \<noteq> eid \<Longrightarrow> is_valid out' x \<longleftrightarrow> is_valid out x"
    and ps: "is_valid out' eid \<Longrightarrow> edge_event cands eid \<Longrightarrow> \<forall>p\<in>set (parents_of ev). edge_event cands p \<and> is_valid out p"
  shows "edge_ranked cands out'"
proof -
  obtain rank :: "hash \<Rightarrow> nat" where rank: "\<And>c e p. fmlookup cands c = Some e \<Longrightarrow> edge_event cands c \<Longrightarrow>
      is_valid out c \<Longrightarrow> p \<in> set (parents_of e) \<Longrightarrow> rank p < rank c"
    using edge_invD(5) [OF inv] unfolding edge_ranked_def by blast
  let ?rank = "rank(eid := Suc (sum_list (map rank (parents_of ev))))"
  have "?rank p < ?rank c" if c: "fmlookup cands c = Some e" "edge_event cands c" "is_valid out' c" "p \<in> set (parents_of e)" for c e p
  proof (cases "c = eid")
    case True
    then have "e = ev" "p \<noteq> eid" using c ev ps new by auto
    with c(4) True show ?thesis by (simp add: member_le_sum_list less_Suc_eq_le)
  next
    case False
    then have "is_valid out c" using keep c(3) by simp
    then have "p \<noteq> eid" "rank p < rank c" using edge_invD(4) [OF inv c(1,2)] rank c new by blast+
    with False show ?thesis by simp
  qed
  then show ?thesis unfolding edge_ranked_def by blast
qed

lemma edge_inv_add:
  assumes inv: "edge_inv cands s out" and ev: "fmlookup cands eid = Some ev" "\<not> is_subject ev" and new: "\<not> has out eid"
    and st: "st_state st = Valid \<Longrightarrow> edge_event cands eid \<Longrightarrow> \<forall>p\<in>set (parents_of ev). edge_event cands p \<and> is_valid out p"
  shows "edge_inv cands s (fmupd eid st out)"
proof -
  have keep: "is_valid (fmupd eid st out) x \<longleftrightarrow> (if x = eid then st_state st = Valid else is_valid out x)" for x
    by (simp add: is_valid_def)
  have notsub: "eid \<notin> set (subject_ids cands)" using ev by (simp add: subject_ids_iff)
  have fresh: "\<not> is_valid out eid" using new by (simp add: is_valid_def has_def)
  have "edge_event cands p \<and> is_valid (fmupd eid st out) p"
    if x: "fmlookup cands x = Some ev'" "edge_event cands x" "is_valid (fmupd eid st out) x" "p \<in> set (parents_of ev')" for x ev' p
  proof -
    have "edge_event cands p \<and> is_valid out p"
      using x ev(1) st keep edge_invD(4) [OF inv x(1,2) _ x(4)] by (cases "x = eid") auto
    with fresh keep show ?thesis by (cases "p = eid") auto
  qed
  moreover have "fmdom' (fmupd eid st out) \<subseteq> fmdom' cands"
    using inv fmdom'I [OF ev(1)] by (simp add: edge_inv_def)
  moreover have "set (subject_ids cands) \<subseteq> fmdom' (fmupd eid st out)"
    using edge_inv_doms(1) [OF inv] by auto
  moreover have "x \<in> fmdom' (su_selected s)"
    if "x \<in> set (subject_ids cands)" "is_valid (fmupd eid st out) x" for x
    using that keep [of x] notsub edge_invD(2) [OF inv, of x] by (auto split: if_splits)
  moreover have "edge_ranked cands (fmupd eid st out)"
    using inv fresh ev(1) by (rule edge_ranked_add) (use keep st in auto)
  ultimately show ?thesis using edge_invD(3) [OF inv] by (intro edge_invI) blast+
qed

lemma edge_round:
  assumes inv: "edge_inv cands s out" and ids: "ids = edge_ids cands media"
  shows "\<exists>out' ch. for_each (edge_step cands s) ids (out, False) = Some (out', ch) \<and> edge_inv cands s out' \<and>
    fmdom' out \<subseteq> fmdom' out' \<and> fmdom' out' \<subseteq> fmdom' out \<union> set ids \<and> (ch \<longrightarrow> fm_len out < fm_len out')"
proof -
  let ?I = "\<lambda>pre (out', ch). edge_inv cands s out' \<and> fmdom' out \<subseteq> fmdom' out' \<and>
    fmdom' out' \<subseteq> fmdom' out \<union> set pre \<and> (ch \<longrightarrow> fm_len out < fm_len out')"
  have "\<exists>r. for_each (edge_step cands s) ids (out, False) = Some r \<and> ?I ids r"
  proof (rule for_each_rule)
    fix pre eid post r
    assume split: "ids = pre @ eid # post" and I: "?I pre r"
    obtain o1 ch where r: "r = (o1, ch)" by (cases r)
    have "eid \<in> set (edge_ids cands media)" using split ids by simp
    then obtain ev where ev: "fmlookup cands eid = Some ev" "\<not> is_subject ev"
      by (auto simp: edge_ids_def split: option.splits)
    show "\<exists>r'. edge_step cands s eid r = Some r' \<and> ?I (pre @ [eid]) r'"
    proof (cases "has o1 eid \<or> \<not> edge_ready cands o1 ev")
      case True
      with ev I r show ?thesis by (auto simp: edge_step_def)
    next
      case False
      have inv1: "edge_inv cands s o1" using I r by simp
      obtain st where st: "evaluate_edge cands o1 s eid = Some st"
        "st_state st = Valid \<Longrightarrow> edge_event cands eid \<Longrightarrow> \<forall>p\<in>set (parents_of ev). edge_event cands p \<and> is_valid o1 p"
        using evaluate_edge_total [OF inv1 ev] False by blast
      have "edge_inv cands s (fmupd eid st o1)" using edge_inv_add [OF inv1 ev _ st(2)] False by blast
      moreover have "fm_len out < fm_len (fmupd eid st o1)"
      proof -
        have "fmdom' out \<subset> fmdom' (fmupd eid st o1)" using I r False by (auto simp: has_iff)
        then show ?thesis unfolding fm_len_card by (intro psubset_card_mono) simp
      qed
      ultimately show ?thesis using st(1) ev I r False by (auto simp: edge_step_def)
    qed
  qed (use inv in auto)
  then show ?thesis by auto
qed

lemma edge_phase_total:
  assumes inv: "edge_inv cands s out"
  shows "\<exists>out'. edge_phase cands s media out = Some out' \<and> edge_inv cands s out' \<and>
    fmdom' out' = fmdom' out \<union> set (edge_ids cands media)"
proof -
  let ?ids = "edge_ids cands media"
  let ?I = "\<lambda>(o1, ch). edge_inv cands s o1 \<and> fmdom' out \<subseteq> fmdom' o1 \<and> fmdom' o1 \<subseteq> fmdom' out \<union> set ?ids"
  let ?m = "\<lambda>(o1, ch). 2 * (fm_len cands - fm_len o1) + (if ch then 1 else 0)"
  have "\<exists>r. while_loop snd (\<lambda>(out, _). for_each (edge_step cands s) ?ids (out, False)) (out, True) = Some r \<and> ?I r \<and> \<not> snd r"
  proof (rule while_loop_rule [where m = ?m])
    fix r assume I: "?I r" and c: "snd r"
    obtain o1 where r: "r = (o1, True)" using c by (cases r) auto
    obtain o2 ch where o2: "for_each (edge_step cands s) ?ids (o1, False) = Some (o2, ch)" "edge_inv cands s o2"
      "fmdom' o1 \<subseteq> fmdom' o2" "fmdom' o2 \<subseteq> fmdom' o1 \<union> set ?ids" "ch \<longrightarrow> fm_len o1 < fm_len o2"
      using edge_round [of cands s o1 ?ids media] I r by blast
    have "fm_len o2 \<le> fm_len cands" using o2(2) by (auto simp: fm_len_card edge_inv_def intro: card_mono)
    moreover have "fm_len o1 \<le> fm_len o2" using o2(3) by (simp add: fm_len_card card_mono)
    ultimately have "?m (o2, ch) < ?m r" using o2(5) r by auto
    moreover have "?I (o2, ch)" using I r o2 by auto
    ultimately show "\<exists>r'. (case r of (out, _) \<Rightarrow> for_each (edge_step cands s) ?ids (out, False)) = Some r' \<and>
        ?I r' \<and> ?m r' < ?m r" using o2(1) r by auto
  qed (use inv in auto)
  then obtain o1 ch where o1: "while_loop snd (\<lambda>(out, _). for_each (edge_step cands s) ?ids (out, False)) (out, True)
      = Some (o1, ch)" "edge_inv cands s o1" "fmdom' out \<subseteq> fmdom' o1" "fmdom' o1 \<subseteq> fmdom' out \<union> set ?ids" by auto
  let ?out = "fold (or_insert (invalid ''cycle'')) ?ids o1"
  have dom: "fmdom' ?out = fmdom' out \<union> set ?ids" using o1(3,4) by (auto simp: or_insert_dom)
  have same: "is_valid ?out x \<longleftrightarrow> is_valid o1 x" for x
    by (auto simp: is_valid_def or_insert_lookup split: option.splits)
  have "set ?ids \<subseteq> fmdom' cands" by (auto simp: edge_ids_def)
  then have "fmdom' ?out \<subseteq> fmdom' cands" "set (subject_ids cands) \<subseteq> fmdom' ?out"
    using edge_inv_doms [OF inv] dom by auto
  then have "edge_inv cands s ?out"
    using edge_invD(2-5) [OF o1(2)] by (intro edge_invI) (simp_all only: same edge_ranked_def)
  with o1(1) dom show ?thesis by (simp add: edge_phase_def)
qed

section \<open>The whole classifier\<close>

lemma valid_subjects_part:
  assumes "fmdom' out = set (subject_ids cands)"
  shows "valid_subjects cands out = Some (valid_part cands out)"
proof -
  have "fmfilter (\<lambda>eid. eid \<in> set (subject_ids cands)
        \<and> (case fmlookup out eid of Some s \<Rightarrow> st_state s = Valid | None \<Rightarrow> False)) cands = valid_part cands out"
  proof (rule fmap_ext)
    fix x
    show "fmlookup (fmfilter (\<lambda>eid. eid \<in> set (subject_ids cands)
        \<and> (case fmlookup out eid of Some s \<Rightarrow> st_state s = Valid | None \<Rightarrow> False)) cands) x =
        fmlookup (valid_part cands out) x"
    proof (cases "fmlookup out x")
      case (Some s)
      then have "x \<in> set (subject_ids cands)" using assms fmdom'I [OF Some] by simp
      with Some show ?thesis by (simp add: valid_part_def)
    qed (simp add: valid_part_def)
  qed
  then show ?thesis using assms by (simp add: valid_subjects_def list_all_iff has_iff)
qed

lemma candidate_ids:
  "fmdom' cands = set (subject_ids cands) \<union> set (edge_ids cands False) \<union> set (edge_ids cands True)"
  by (auto simp: subject_ids_def edge_ids_def elim!: in_domE intro: fmdom'I)

lemma subjects_new_total:
  assumes "class_inv H kok cands out" "fmdom' out = set (subject_ids cands)"
  shows "\<exists>s. subjects_new H cands out = Some s \<and> su_valid s = valid_part cands out \<and>
    su_revisions s = revisions H (valid_part cands out) \<and> fmdom' (su_selected s) = fmdom' (valid_part cands out) \<and>
    selections_ok H (valid_part cands out) (su_selected s)"
  using selections_total [OF class_invD(3) [OF assms(1)]] valid_subjects_part [OF assms(2)]
  by (auto simp: subjects_new_def)

lemma edge_inv_init:
  assumes "class_inv H kok cands out" "fmdom' out = set (subject_ids cands)" "subjects_new H cands out = Some s"
  shows "edge_inv cands s out"
proof -
  from subjects_new_total [OF assms(1,2)] assms(3) have s: "su_revisions s = revisions H (valid_part cands out)"
    "fmdom' (su_selected s) = fmdom' (valid_part cands out)" "selections_ok H (valid_part cands out) (su_selected s)"
    by auto
  have "\<not> is_valid out eid" if "edge_event cands eid" for eid
  proof -
    from that have "eid \<notin> set (subject_ids cands)" by (auto simp: edge_event_def subject_ids_iff is_subject_def)
    then have "fmlookup out eid = None" using assms(2) by (simp add: fmdom'_notD)
    then show ?thesis by (simp add: is_valid_def)
  qed
  then show ?thesis using assms(2) s candidate_ids [of cands]
    by (auto simp: edge_inv_def edge_ranked_def selections_ok_def selected_ok_def valid_part_dom is_valid_def)
qed

lemma classify_total:
  assumes "distinct_ids H (fmdom' cands)"
  shows "\<exists>out. classify H kok cands = Some out \<and> fmdom' out = fmdom' cands"
proof -
  obtain o1 where o1: "classify_subjects H kok cands = Some o1" "class_inv H kok cands o1"
    "fmdom' o1 = set (subject_ids cands)" using classify_subjects_total [OF assms] by blast
  obtain s where s: "subjects_new H cands o1 = Some s" using subjects_new_total [OF o1(2,3)] by blast
  obtain o2 where o2: "edge_phase cands s False o1 = Some o2" "edge_inv cands s o2"
    "fmdom' o2 = fmdom' o1 \<union> set (edge_ids cands False)"
    using edge_phase_total [OF edge_inv_init [OF o1(2,3) s]] by blast
  obtain o3 where "edge_phase cands s True o2 = Some o3" "fmdom' o3 = fmdom' o2 \<union> set (edge_ids cands True)"
    using edge_phase_total [OF o2(2)] by blast
  with o1 s o2 candidate_ids [of cands] show ?thesis
    by (auto simp: classify_def classify_edges_def)
qed

end
