(* ===== verification/Ledger.thy ===== *)
theory Ledger
  imports Edge_Admission
begin

text \<open>
  The classifier and the authority derived from its result, on an arbitrary corpus: which subject
  events are valid, what the edge phases keep of them, and what \<open>analyze\<close> returns. These lemmas
  carry the properties of the ledger.
\<close>

section \<open>Statuses are final\<close>

lemma extends_refl: "extends out out"
  by (simp add: extends_def)

lemma extends_trans: "extends a b \<Longrightarrow> extends b c \<Longrightarrow> extends a c"
  unfolding extends_def has_def by metis

lemma extends_upd: "\<not> has out x \<Longrightarrow> extends out (fmupd x s out)"
  by (auto simp: extends_def has_def)

lemma extends_fill: "extends out (fold (or_insert s) xs out)"
  by (auto simp: extends_def has_def or_insert_lookup)

text \<open>
  Where an edge or attestation got its status: from the cycle fill, or by evaluation against an
  earlier table of statuses, all of which are final.
\<close>

definition traced :: "corpus \<Rightarrow> subjects \<Rightarrow> statuses \<Rightarrow> statuses \<Rightarrow> bool" where
  "traced cands s o1 out \<longleftrightarrow> extends o1 out \<and> (\<forall>x st. fmlookup out x = Some st \<longrightarrow> \<not> has o1 x \<longrightarrow>
     st = invalid ''cycle'' \<or> (\<exists>o'. extends o1 o' \<and> extends o' out \<and> evaluate_edge cands o' s x = Some st))"

lemma tracedD:
  assumes "traced cands s o1 out"
  shows "extends o1 out"
    "fmlookup out x = Some st \<Longrightarrow> \<not> has o1 x \<Longrightarrow> st_state st = Valid \<Longrightarrow>
       \<exists>o'. extends o1 o' \<and> extends o' out \<and> evaluate_edge cands o' s x = Some st"
proof -
  show "extends o1 out" using assms by (simp add: traced_def)
  assume "fmlookup out x = Some st" "\<not> has o1 x" "st_state st = Valid"
  moreover from this(3) have "st \<noteq> invalid ''cycle''" by auto
  ultimately show "\<exists>o'. extends o1 o' \<and> extends o' out \<and> evaluate_edge cands o' s x = Some st"
    using assms unfolding traced_def by blast
qed

lemma traced_refl: "traced cands s o1 o1"
  by (auto simp: traced_def extends_refl has_def)

lemma traced_extend:
  assumes t: "traced cands s o1 out" and ext: "extends out out'"
    and new: "\<And>x st. fmlookup out' x = Some st \<Longrightarrow> \<not> has out x \<Longrightarrow>
      st = invalid ''cycle'' \<or> evaluate_edge cands out s x = Some st"
  shows "traced cands s o1 out'"
  unfolding traced_def
proof (intro conjI allI impI)
  show "extends o1 out'" using extends_trans [OF tracedD(1) [OF t] ext] .
  fix x st assume x: "fmlookup out' x = Some st" "\<not> has o1 x"
  show "st = invalid ''cycle'' \<or> (\<exists>o'. extends o1 o' \<and> extends o' out' \<and> evaluate_edge cands o' s x = Some st)"
  proof (cases "has out x")
    case True
    then have "fmlookup out x = Some st" using ext x by (simp add: extends_def)
    with t x(2) have "st = invalid ''cycle'' \<or>
        (\<exists>o'. extends o1 o' \<and> extends o' out \<and> evaluate_edge cands o' s x = Some st)" by (auto simp: traced_def)
    then show ?thesis using extends_trans [OF _ ext] by blast
  next
    case False
    with new x ext tracedD(1) [OF t] show ?thesis by blast
  qed
qed

lemma traced_step:
  assumes "edge_step cands s eid (out, ch) = Some (out', ch')" "traced cands s o1 out"
  shows "traced cands s o1 out'"
proof (cases "out' = out")
  case False
  then obtain st where st: "\<not> has out eid" "evaluate_edge cands out s eid = Some st" "out' = fmupd eid st out"
    using assms(1) by (auto simp: edge_step_def split: if_splits bind_splits)
  show ?thesis
    using assms(2)
  proof (rule traced_extend)
    show "extends out out'" using st by (simp add: extends_upd)
    fix x t assume "fmlookup out' x = Some t" "\<not> has out x"
    then show "t = invalid ''cycle'' \<or> evaluate_edge cands out s x = Some t"
      using st by (cases "x = eid") (auto simp: has_def)
  qed
qed (use assms in simp)

lemma traced_phase:
  assumes run: "edge_phase cands s media out = Some out'" and t: "traced cands s o1 out"
  shows "traced cands s o1 out'"
proof -
  let ?I = "\<lambda>(o2, ch :: bool). traced cands s o1 o2"
  have round: "?I r'" if "for_each (edge_step cands s) (edge_ids cands media) r = Some r'" "?I r" for r r'
  proof (rule for_each_invar [where I = ?I, OF that])
    fix x r r' assume "?I r" "edge_step cands s x r = Some r'"
    then show "?I r'" using traced_step by (cases r; cases r') auto
  qed
  from run obtain r where r: "while_loop snd (\<lambda>(out, _). for_each (edge_step cands s) (edge_ids cands media) (out, False))
      (out, True) = Some r" "out' = fold (or_insert (invalid ''cycle'')) (edge_ids cands media) (fst r)"
    by (auto simp: edge_phase_def split: bind_splits)
  have "?I r \<and> \<not> snd r"
    using r(1) by (rule while_loop_invar) (use t round in auto)
  then have "traced cands s o1 (fst r)" by (cases r) simp
  then show ?thesis
    unfolding r(2)
  proof (rule traced_extend [OF _ extends_fill])
    fix x st assume "fmlookup (fold (or_insert (invalid ''cycle'')) (edge_ids cands media) (fst r)) x = Some st"
      "\<not> has (fst r) x"
    then show "st = invalid ''cycle'' \<or> evaluate_edge cands (fst r) s x = Some st"
      by (auto simp: or_insert_lookup has_def split: if_splits)
  qed
qed

section \<open>The result of the classifier\<close>

text \<open>What the classifier leaves: the valid subject events \<open>V\<close>, and the origin of every other status.\<close>

definition classified :: "(byte list \<Rightarrow> hash) \<Rightarrow> (hash \<Rightarrow> bool) \<Rightarrow> corpus \<Rightarrow> statuses \<Rightarrow> corpus \<Rightarrow> statuses \<Rightarrow> subjects \<Rightarrow> bool" where
  "classified H kok cands out V o1 s \<longleftrightarrow> fmdom' out = fmdom' cands \<and> fmdom' o1 = set (subject_ids cands) \<and>
     V = valid_part cands o1 \<and> subject_wf H V \<and> class_inv H kok cands o1 \<and> subjects_new H cands o1 = Some s \<and>
     su_valid s = V \<and> su_revisions s = revisions H V \<and> selections H V = Some (su_selected s) \<and> traced cands s o1 out \<and>
     (\<exists>o2. fmdom' o2 = set (subject_ids cands) \<union> set (edge_ids cands False) \<and> traced cands s o2 out) \<and> edge_inv cands s out"

lemma classify_cases:
  assumes "distinct_ids H (fmdom' cands)"
  obtains out V o1 s where "classify H kok cands = Some out" "classified H kok cands out V o1 s"
proof -
  obtain o1 where o1: "classify_subjects H kok cands = Some o1" "class_inv H kok cands o1"
    "fmdom' o1 = set (subject_ids cands)" using classify_subjects_total [OF assms] by blast
  obtain s where s: "subjects_new H cands o1 = Some s" "su_valid s = valid_part cands o1"
    "su_revisions s = revisions H (valid_part cands o1)" using subjects_new_total [OF o1(2,3)] by blast
  have sel: "selections H (valid_part cands o1) = Some (su_selected s)"
    using s(1) valid_subjects_part [OF o1(3)] by (auto simp: subjects_new_def split: bind_splits)
  obtain out where out: "classify H kok cands = Some out" "fmdom' out = fmdom' cands"
    using classify_total [OF assms] by blast
  then obtain o2 where o2: "edge_phase cands s False o1 = Some o2" "edge_phase cands s True o2 = Some out"
    using o1(1) s(1) by (auto simp: classify_def classify_edges_def split: bind_splits)
  then have dom: "fmdom' o2 = set (subject_ids cands) \<union> set (edge_ids cands False)" and inv: "edge_inv cands s o2"
    using edge_phase_total [OF edge_inv_init [OF o1(2,3) s(1)], of False] o1(3) by auto
  moreover have "edge_inv cands s out" using edge_phase_total [OF inv, of True] o2(2) by auto
  moreover have "traced cands s o1 out" "traced cands s o2 out" using o2 traced_phase traced_refl by blast+
  ultimately have "classified H kok cands out (valid_part cands o1) o1 s"
    using out o1 s sel class_invD(3) [OF o1(2)] by (auto simp: classified_def)
  with out(1) that show thesis by blast
qed

lemma classifiedD:
  assumes "classified H kok cands out V o1 s"
  shows "fmdom' out = fmdom' cands" "fmdom' o1 = set (subject_ids cands)" "V = valid_part cands o1" "subject_wf H V"
    "judged H kok cands o1" "subjects_new H cands o1 = Some s" "su_valid s = V" "su_revisions s = revisions H V"
    "selections H V = Some (su_selected s)" "traced cands s o1 out" "extends o1 out"
    "\<exists>o2. fmdom' o2 = set (subject_ids cands) \<union> set (edge_ids cands False) \<and> traced cands s o2 out"
    "edge_inv cands s out"
  using assms by (auto simp: classified_def class_inv_def traced_def)

lemma classified_subject:
  assumes c: "classified H kok cands out V o1 s" and ev: "fmlookup cands eid = Some ev" "is_subject ev"
  shows "is_valid out eid \<longleftrightarrow> eid \<in> fmdom' V" "eid \<in> fmdom' V \<longleftrightarrow> admissible H kok cands V ev"
proof -
  have has: "has o1 eid" using ev classifiedD(2) [OF c] by (auto simp: has_iff subject_ids_iff)
  then show "is_valid out eid \<longleftrightarrow> eid \<in> fmdom' V"
    using extendsD(2) [OF classifiedD(11) [OF c] has] ev by (auto simp: classifiedD(3) [OF c] valid_part_iff intro: fmdom'I)
  show "eid \<in> fmdom' V \<longleftrightarrow> admissible H kok cands V ev"
    using has ev classifiedD(5) [OF c] by (auto simp: classifiedD(3) [OF c] valid_part_iff judged_def intro: fmdom'I)
qed

lemma classified_valid_subjects:
  assumes c: "classified H kok cands out V o1 s"
  shows "valid_subjects cands out = Some V"
proof -
  have "list_all (has out) (subject_ids cands)"
    using classifiedD(1) [OF c] by (auto simp: list_all_iff has_iff subject_ids_def)
  moreover have "fmfilter (\<lambda>eid. eid \<in> set (subject_ids cands)
        \<and> (case fmlookup out eid of Some s \<Rightarrow> st_state s = Valid | None \<Rightarrow> False)) cands = V"
  proof (rule fmap_ext)
    fix x
    have "(case fmlookup t x of Some s \<Rightarrow> st_state s = Valid | None \<Rightarrow> False) \<longleftrightarrow> is_valid t x" for t
      by (auto simp: is_valid_def split: option.splits)
    moreover have "is_valid o1 x \<Longrightarrow> x \<in> set (subject_ids cands)"
      using classifiedD(2) [OF c] by (auto simp: is_valid_def dest: fmdom'I)
    moreover have "x \<in> set (subject_ids cands) \<Longrightarrow> is_valid out x = is_valid o1 x"
      using extendsD(2) [OF classifiedD(11) [OF c]] classifiedD(2) [OF c] by (simp add: has_iff)
    ultimately show "fmlookup (fmfilter (\<lambda>eid. eid \<in> set (subject_ids cands)
        \<and> (case fmlookup out eid of Some s \<Rightarrow> st_state s = Valid | None \<Rightarrow> False)) cands) x = fmlookup V x"
      unfolding classifiedD(3) [OF c] valid_part_def by auto
  qed
  ultimately show ?thesis by (simp add: valid_subjects_def)
qed

lemma analyze_cases:
  assumes "distinct_ids H (fmdom' cands)"
  obtains an V o1 s ix R where "analyze H kok cands = Some an" "classify H kok cands = Some (an_admission an)"
    "classified H kok cands (an_admission an) V o1 s" "derive H V = Some (an_authority an)" "full_index H V ix"
    "relinquishments H V ix = Some R" "R \<subseteq> set (revokes V)" "authority_spec H V ix R (an_authority an)"
proof -
  obtain out V o1 s where c: "classify H kok cands = Some out" "classified H kok cands out V o1 s"
    using assms by (rule classify_cases)
  obtain a ix R where a: "derive H V = Some a" "full_index H V ix" "index_events H V = Some ix"
    "relinquishments H V ix = Some R" "R \<subseteq> set (revokes V)" "authority_spec H V ix R a"
    by (rule derive_total [OF subject_wfD(1) [OF classifiedD(4) [OF c(2)]]])
  have "list_all (has out) (keys cands)" using classifiedD(1) [OF c(2)] by (simp add: list_all_iff has_iff)
  then have "analyze H kok cands = Some \<lparr>an_admission = out, an_authority = a\<rparr>"
    using c(1) a(1) classified_valid_subjects [OF c(2)] by (simp add: analyze_def)
  with that [of "\<lparr>an_admission = out, an_authority = a\<rparr>"] c a show thesis by simp
qed

end
