(* ===== verification/Valid_Events.thy ===== *)
theory Valid_Events
  imports Ledger
begin

text \<open>
  What a valid status means: the authority of a subject event, the pins of an edge, the target of an
  attestation, and the derived authority in terms of the valid events alone.
\<close>

section \<open>Authority of a valid subject event\<close>

text \<open>The authority \<open>view\<close> that the causal past of an event gives, and the event's right to act on it.\<close>

definition authorized :: "(byte list \<Rightarrow> hash) \<Rightarrow> corpus \<Rightarrow> signed \<Rightarrow> hash \<Rightarrow> authority \<Rightarrow> bool" where
  "authorized H V ev g view \<longleftrightarrow> env_grant (envelope_of ev) = Some g \<and> set (parents_of ev) \<subseteq> fmdom' V \<and>
     derive H (fmrestrict_set (past_of V ev) V) = Some view \<and> g \<in> au_active view \<and>
     map_option g_holder (fmlookup (au_grants view) g) = Some (env_author (envelope_of ev)) \<and>
     (\<forall>p\<in>set (parents_of ev). \<exists>a. derive H (fmrestrict_set (anc V p) V) = Some a \<and> g \<in> au_active a)"

lemma anyM_False: "anyM f xs = Some False \<Longrightarrow> x \<in> set xs \<Longrightarrow> f x = Some False"
  by (induction xs) (auto split: bind_splits if_splits)

lemma check_authority_valid:
  assumes wf: "subject_wf H V" and sub: "sub_corpus V cands" and ps: "set (parents_of ev) \<subseteq> fmdom' V"
    and run: "check_authority H kok cands (envelope_of ev) = Some valid_status"
  shows "\<exists>g view. authorized H V ev g view \<and>
    check_payload H kok cands (fmrestrict_set (past_of V ev) V) view (envelope_of ev) (hd (parents_of ev)) g = Some valid_status"
proof -
  note cones = cones_Some [OF subject_wfD(2) [OF wf] sub ps]
  from run cones obtain parent rest view g where v: "parents_of ev = parent # rest"
    "derive H (fmrestrict_set (past_of V ev) V) = Some view" "env_grant (envelope_of ev) = Some g" "g \<in> au_active view"
    "map_option g_holder (fmlookup (au_grants view) g) = Some (env_author (envelope_of ev))"
    "anyM (inactive_in H g) (map (\<lambda>p. fmrestrict_set (anc V p) V) (parents_of ev)) = Some False"
    "check_payload H kok cands (fmrestrict_set (past_of V ev) V) view (envelope_of ev) parent g = Some valid_status"
    by (auto simp: check_authority_def Let_def invalid_def valid_status_def split: list.splits if_splits bind_splits)
  have "\<exists>a. derive H (fmrestrict_set (anc V p) V) = Some a \<and> g \<in> au_active a" if "p \<in> set (parents_of ev)" for p
    using anyM_False [OF v(6), of "fmrestrict_set (anc V p) V"] that
    by (auto simp: inactive_in_def split: bind_splits)
  with v ps show ?thesis by (auto simp: authorized_def)
qed

lemma valid_subject:
  assumes c: "classified H kok cands out V o1 s" and ev: "fmlookup cands eid = Some ev" "is_subject ev"
    and valid: "is_valid out eid" and kind: "payload_kind (payload_of ev) \<noteq> K_Genesis"
  shows "\<exists>g view. authorized H V ev g view \<and>
    check_payload H kok cands (fmrestrict_set (past_of V ev) V) view (envelope_of ev) (hd (parents_of ev)) g = Some valid_status"
proof -
  have "admissible H kok cands V ev" using classified_subject [OF c ev] valid by blast
  then have "set (parents_of ev) \<subseteq> fmdom' V" "check_authority H kok cands (envelope_of ev) = Some valid_status"
    using kind by (auto simp: admissible_def Let_def lineage_accepts_def)
  moreover have "sub_corpus V cands" using classifiedD(3) [OF c] valid_part_sub by simp
  ultimately show ?thesis using check_authority_valid classifiedD(4) [OF c] by blast
qed

lemma holds_key_iff: "holds_key view k \<longleftrightarrow> (\<exists>g gr. fmlookup (au_grants view) g = Some gr \<and> g_holder gr = k)"
  by (auto simp: holds_key_def list_ex_iff fmlookup_dom'_iff)

lemma past_index:
  assumes wf: "subject_wf H V" and a: "authorized H V ev g view"
  obtains ix where "full_index H (fmrestrict_set (past_of V ev) V) ix" "au_grants view = ix_grants ix"
    "au_active view \<subseteq> fmdom' (au_grants view)"
proof -
  have ps: "set (parents_of ev) \<subseteq> fmdom' V" using a by (simp add: authorized_def)
  obtain b ix where "derive H (fmrestrict_set (past_of V ev) V) = Some b" "full_index H (fmrestrict_set (past_of V ev) V) ix"
    "au_grants b = ix_grants ix" "au_active b \<subseteq> fmdom' (au_grants b)"
    by (rule derive_past [OF subject_wfD(1) [OF wf] ps])
  with a that show thesis by (simp add: authorized_def)
qed

lemma check_revoke_valid:
  assumes run: "check_revoke view g t c d = Some valid_status"
    and ix: "full_index H P ix" "au_grants view = ix_grants ix" "au_active view \<subseteq> fmdom' (au_grants view)"
  shows "t \<in> au_active view" "if g = t then issuers (au_grants view) t = {t} else g \<in> issuers (au_grants view) t"
proof -
  show t: "t \<in> au_active view"
    using run by (auto simp: check_revoke_def valid_status_def invalid_def split: if_splits)
  then have "t \<in> fmdom' (ix_grants ix)" using ix(2,3) by auto
  from in_scope_Some [OF ix(1) this ix(2), of g] run t
  show "if g = t then issuers (au_grants view) t = {t} else g \<in> issuers (au_grants view) t"
    by (auto simp: check_revoke_def valid_status_def invalid_def split: if_splits)
qed

section \<open>Pins of a valid edge\<close>

text \<open>
  A pin is good when its basis is a valid event of the pinned subject, and the pinned revision is
  the one that the basis selects, with the pinned body.
\<close>

definition pin_ok :: "(byte list \<Rightarrow> hash) \<Rightarrow> corpus \<Rightarrow> pin \<Rightarrow> bool" where
  "pin_ok H V pn \<longleftrightarrow> (\<exists>ev sel rv. fmlookup V (pin_basis pn) = Some ev \<and>
     subject_or ev (pin_basis pn) = pin_subject pn \<and> selections H V = Some sel \<and>
     fmlookup sel (pin_basis pn) = Some (pin_revision pn) \<and>
     fmlookup (revisions H V) (pin_revision pn) = Some rv \<and> rv_body rv = pin_body pn)"

lemma is_valid_earlier:
  assumes "extends o' out" "fmlookup o' x = Some st" "st_state st = Valid"
  shows "is_valid out x"
  using assms extendsD(2) [OF assms(1), of x] by (auto simp: has_def is_valid_def)

lemma check_pin_valid:
  assumes c: "classified H kok cands out V o1 s" and ext: "extends o' out"
    and run: "check_pin cands o' s pn = Some st" "st_state st = Valid"
  shows "pin_ok H V pn"
proof -
  from run obtain basis subj t rv where p: "fmlookup cands (pin_basis pn) = Some basis" "is_subject basis"
    "fmlookup cands (pin_subject pn) = Some subj" "subject_or basis (pin_basis pn) = pin_subject pn"
    "fmlookup o' (pin_basis pn) = Some t" "st_state t = Valid" "fmlookup (su_selected s) (pin_basis pn) = Some (pin_revision pn)"
    "fmlookup (su_revisions s) (pin_revision pn) = Some rv" "rv_body rv = pin_body pn"
    by (auto simp: check_pin_def Let_def split: if_splits bind_splits state.splits)
  have "is_valid out (pin_basis pn)" using is_valid_earlier [OF ext p(5,6)] .
  then have "pin_basis pn \<in> fmdom' V" using classified_subject(1) [OF c p(1,2)] by simp
  then have "fmlookup V (pin_basis pn) = Some basis"
    using p(1) by (auto simp: classifiedD(3) [OF c] valid_part_lookup valid_part_dom)
  with p classifiedD(8,9) [OF c] show ?thesis by (simp add: pin_ok_def)
qed

lemma check_pins_ok:
  assumes c: "classified H kok cands out V o1 s" and ext: "extends o' out"
    and run: "check_pins cands o' s ps = Some st" "st_state st = Valid"
  shows "pin_ok H V (pins_source ps)" "pin_ok H V (pins_target ps)"
  using check_pins_valid [OF run] check_pin_valid [OF c ext] by blast+

lemma valid_non_subject:
  assumes c: "classified H kok cands out V o1 s" and ev: "fmlookup cands eid = Some ev" "\<not> is_subject ev"
    and valid: "is_valid out eid"
  obtains o' st where "extends o' out" "evaluate_edge cands o' s eid = Some st" "st_state st = Valid"
proof -
  have "\<not> has o1 eid" using ev classifiedD(2) [OF c] by (auto simp: has_iff subject_ids_iff)
  moreover obtain st where "fmlookup out eid = Some st" "st_state st = Valid" using valid by (auto simp: is_valid_def)
  ultimately show thesis using that tracedD(2) [OF classifiedD(10) [OF c]] by blast
qed

lemma valid_assert:
  assumes c: "classified H kok cands out V o1 s" and ev: "fmlookup cands eid = Some ev"
    and p: "payload_of ev = EdgeAssert relation ps d" and valid: "is_valid out eid"
  shows "relation \<in> set RELATIONS" "parents_of ev = []" "dec_new d = V_Pins ps" "dec_rationale d \<noteq> []" "dec_evidence d \<noteq> []"
    "pin_ok H V (pins_source ps)" "pin_ok H V (pins_target ps)"
    "relation = ''disputes'' \<Longrightarrow> pin_subject (pins_source ps) \<noteq> pin_subject (pins_target ps) \<and>
      (\<exists>src. fmlookup cands (pin_subject (pins_source ps)) = Some src \<and> env_author (envelope_of src) = env_author (envelope_of ev))"
proof -
  obtain o' st where o': "extends o' out" "evaluate_edge cands o' s eid = Some st" "st_state st = Valid"
    using c ev _ valid by (rule valid_non_subject) (simp add: p is_subject_def)
  then have run: "check_assert cands o' s (envelope_of ev) relation ps d = Some st"
    using ev p by (auto simp: evaluate_edge_def Let_def split: if_splits)
  with o'(3) show "relation \<in> set RELATIONS" "parents_of ev = []" "dec_new d = V_Pins ps" "dec_rationale d \<noteq> []"
    "dec_evidence d \<noteq> []"
    by (auto simp: check_assert_def split: if_splits bind_splits)
  from run o'(3) obtain st' where "check_pins cands o' s ps = Some st'" "st_state st' = Valid"
    by (auto simp: check_assert_def split: if_splits bind_splits)
  with check_pins_ok [OF c o'(1)] show "pin_ok H V (pins_source ps)" "pin_ok H V (pins_target ps)" by blast+
  show "pin_subject (pins_source ps) \<noteq> pin_subject (pins_target ps) \<and>
      (\<exists>src. fmlookup cands (pin_subject (pins_source ps)) = Some src \<and> env_author (envelope_of src) = env_author (envelope_of ev))"
    if "relation = ''disputes''"
    using run o'(3) that by (auto simp: check_assert_def split: if_splits bind_splits)
qed

lemma mapM_lookup: "mapM f xs = Some ys \<Longrightarrow> x \<in> set xs \<Longrightarrow> \<exists>y\<in>set ys. f x = Some y \<and> (x, y) \<in> set (zip xs ys)"
  by (induction xs arbitrary: ys) (auto split: bind_splits)

lemma valid_reaffirm:
  assumes c: "classified H kok cands out V o1 s" and ev: "fmlookup cands eid = Some ev"
    and p: "payload_of ev = EdgeReaffirm edge old new d" and valid: "is_valid out eid"
  shows "\<exists>base bps. fmlookup cands edge = Some base \<and> is_valid out edge \<and> pins_of base = Some bps \<and>
      payload_kind (payload_of base) = K_EdgeAssert \<and> env_author (envelope_of base) = env_author (envelope_of ev) \<and>
      pin_subject (pins_source new) = pin_subject (pins_source bps) \<and>
      pin_subject (pins_target new) = pin_subject (pins_target bps)"
    "\<forall>q\<in>set (parents_of ev). is_valid out q \<and> (\<exists>pev. fmlookup cands q = Some pev \<and> edge_of q pev = Some edge)"
    "parents_of ev \<noteq> []" "pin_ok H V (pins_source new)" "pin_ok H V (pins_target new)"
proof -
  obtain o' st where o': "extends o' out" "evaluate_edge cands o' s eid = Some st" "st_state st = Valid"
    using c ev _ valid by (rule valid_non_subject) (simp add: p is_subject_def)
  then have "check_reaffirm cands o' s (envelope_of ev) edge old new d = Some st"
    using ev p by (auto simp: evaluate_edge_def Let_def split: if_splits)
  then obtain base pevs sts bps where r: "parents_of ev \<noteq> []" "fmlookup cands edge = Some base"
    "payload_kind (payload_of base) = K_EdgeAssert" "mapM (fmlookup cands) (parents_of ev) = Some pevs"
    "\<not> list_ex (\<lambda>(p, pev). edge_of p pev \<noteq> Some edge) (zip (parents_of ev) pevs)"
    "mapM (fmlookup o') (parents_of ev @ [edge]) = Some sts"
    "\<not> list_ex (\<lambda>s. st_state s = Invalid) sts" "\<not> list_ex (\<lambda>s. st_state s = Pending) sts"
    "env_author (envelope_of base) = env_author (envelope_of ev)" "pins_of base = Some bps"
    "pin_subject (pins_source new) = pin_subject (pins_source bps)"
    "pin_subject (pins_target new) = pin_subject (pins_target bps)"
    "reaffirm_decision cands o' s (envelope_of ev) old new d = Some st"
    using o'(3) unfolding check_reaffirm_def Let_def by (clarsimp split: if_splits bind_splits)
  have ok: "is_valid out q" if q: "q \<in> set (parents_of ev @ [edge])" for q
  proof -
    obtain t where t: "t \<in> set sts" "fmlookup o' q = Some t" using mapM_lookup [OF r(6) q] by blast
    then have "st_state t = Valid" using r(7,8) by (cases "st_state t") (auto simp: list_ex_iff)
    with is_valid_earlier [OF o'(1) t(2)] show ?thesis by simp
  qed
  show "parents_of ev \<noteq> []" by (rule r(1))
  show "\<exists>base bps. fmlookup cands edge = Some base \<and> is_valid out edge \<and> pins_of base = Some bps \<and>
      payload_kind (payload_of base) = K_EdgeAssert \<and> env_author (envelope_of base) = env_author (envelope_of ev) \<and>
      pin_subject (pins_source new) = pin_subject (pins_source bps) \<and>
      pin_subject (pins_target new) = pin_subject (pins_target bps)"
    using r ok by auto
  show "\<forall>q\<in>set (parents_of ev). is_valid out q \<and> (\<exists>pev. fmlookup cands q = Some pev \<and> edge_of q pev = Some edge)"
    using ok mapM_lookup [OF r(4)] r(5) by (fastforce simp: list_ex_iff)
  have "check_pins cands o' s new = Some st"
    using r(13) o'(3) by (auto simp: reaffirm_decision_def split: if_splits bind_splits)
  with check_pins_ok [OF c o'(1)] o'(3) show "pin_ok H V (pins_source new)" "pin_ok H V (pins_target new)" by blast+
qed

section \<open>Attestations\<close>

lemma valid_attestation:
  assumes c: "classified H kok cands out V o1 s" and ev: "fmlookup cands eid = Some ev"
    and p: "payload_of ev = Attestation tk target artifact h" and valid: "is_valid out eid"
  shows "case tk of T_Revision \<Rightarrow> target \<in> fmdom' (revisions H V)
    | T_Event \<Rightarrow> is_valid out target \<and> (\<exists>t. fmlookup cands target = Some t \<and> payload_kind (payload_of t) \<noteq> K_Attestation)"
proof -
  obtain o2 where o2: "fmdom' o2 = set (subject_ids cands) \<union> set (edge_ids cands False)" "traced cands s o2 out"
    using classifiedD(12) [OF c] by blast
  have "eid \<notin> fmdom' o2" using ev p by (auto simp: o2(1) subject_ids_iff edge_ids_def is_subject_def)
  then obtain o' st where o': "extends o2 o'" "extends o' out" "evaluate_edge cands o' s eid = Some st" "st_state st = Valid"
    using tracedD(2) [OF o2(2)] valid unfolding is_valid_def has_iff by blast
  then have run: "st_state (check_attestation cands o' s (envelope_of ev) tk target artifact) = Valid"
    using ev p by (auto simp: evaluate_edge_def Let_def split: if_splits)
  show ?thesis
  proof (cases tk)
    case T_Revision
    with run classifiedD(8) [OF c] show ?thesis by (auto simp: check_attestation_def has_iff split: if_splits)
  next
    case T_Event
    with run obtain t where t: "fmlookup cands target = Some t" "payload_kind (payload_of t) \<noteq> K_Attestation"
      by (auto simp: check_attestation_def split: if_splits option.splits)
    then have "target \<in> fmdom' o2" by (auto simp: o2(1) subject_ids_iff edge_ids_def intro: fmdom'I)
    then obtain tst where tst: "fmlookup o' target = Some tst"
      using extendsD(1) [OF o'(1)] by (auto simp: has_iff elim: in_domE)
    then have "st_state tst = Valid"
      using run t T_Event by (auto simp: check_attestation_def split: if_splits state.splits)
    with is_valid_earlier [OF o'(2) tst] t T_Event show ?thesis by simp
  qed
qed

section \<open>The derived authority\<close>

text \<open>The lineage depth of the grant that signs a revocation, and a root holder giving up its own grant.\<close>

definition signer_depth :: "(byte list \<Rightarrow> hash) \<Rightarrow> corpus \<Rightarrow> (hash, grant) fmap \<Rightarrow> hash \<Rightarrow> nat" where
  "signer_depth H V G r = (case fmlookup V r of None \<Rightarrow> 0 | Some ev \<Rightarrow> card (issuers G (signer H r ev)))"

definition relinquishes :: "(byte list \<Rightarrow> hash) \<Rightarrow> corpus \<Rightarrow> (hash, grant) fmap \<Rightarrow> hash \<Rightarrow> bool" where
  "relinquishes H V G r \<longleftrightarrow> (\<exists>ev t c gr. fmlookup V r = Some ev \<and> revoke_of V r = Some (t, c) \<and> signer H r ev = t \<and>
     fmlookup G t = Some gr \<and> g_issuer gr = None)"

lemma signer_depth_eq:
  assumes ix: "full_index H V ix"
  shows "sign_depth H V ix r = signer_depth H V (ix_grants ix) r"
proof (cases "fmlookup V r")
  case (Some ev)
  obtain path where path: "fmlookup (ix_lineage ix) (signer H r ev) = Some path" "lineage_len ix (signer H r ev) = card path"
    using ix signer_granted [OF ix Some] by (rule lineage_lookup)
  with lineage_issuers [OF full_indexD(3) [OF ix] path(1)] Some show ?thesis
    by (simp add: sign_depth_def signer_depth_def)
qed (simp add: sign_depth_def signer_depth_def)

lemma relinquishes_eq:
  assumes ix: "full_index H V ix" and R: "relinquishments H V ix = Some R"
  shows "r \<in> R \<longleftrightarrow> relinquishes H V (ix_grants ix) r"
proof -
  from relinquishments_Some [OF ix] R have sub: "R \<subseteq> set (revokes V)"
    and eq: "\<And>r ev t c. fmlookup V r = Some ev \<Longrightarrow> revoke_of V r = Some (t, c) \<Longrightarrow>
       (r \<in> R \<longleftrightarrow> signer H r ev = t \<and> (\<exists>gr. fmlookup (ix_grants ix) t = Some gr \<and> g_issuer gr = None))" by auto
  show ?thesis
  proof
    assume r: "r \<in> R"
    then obtain ev t c where "fmlookup V r = Some ev" "revoke_of V r = Some (t, c)" using sub by (blast elim: revokesE)
    with eq r show "relinquishes H V (ix_grants ix) r" by (auto simp: relinquishes_def)
  qed (use eq in \<open>auto simp: relinquishes_def\<close>)
qed

lemma effective_iff:
  assumes ix: "full_index H V ix" and R: "relinquishments H V ix = Some R" "R \<subseteq> set (revokes V)"
    and spec: "authority_spec H V ix R a" and r: "r \<in> set (revokes V)"
  shows "r \<in> au_effective_revokes a \<longleftrightarrow> relinquishes H V (au_grants a) r \<or>
    stands H V (au_grants a) {q \<in> au_effective_revokes a. relinquishes H V (au_grants a) q \<or>
      signer_depth H V (au_grants a) q < signer_depth H V (au_grants a) r} r"
proof (cases "r \<in> R")
  case True
  have "R \<subseteq> eff_at H V ix R d" for d by (induction d) auto
  with True spec relinquishes_eq [OF ix R(1)] show ?thesis by (auto simp: authority_spec_def)
next
  case False
  with eff_at_fixpoint [OF ix r False] spec relinquishes_eq [OF ix R(1)] signer_depth_eq [OF ix] show ?thesis
    by (simp add: authority_spec_def)
qed

lemma eligible_iff:
  assumes ix: "full_index H V ix" and R: "relinquishments H V ix = Some R"
    and spec: "authority_spec H V ix R a" and ev: "fmlookup V eid = Some ev"
  shows "eligible (au_effects a) eid \<longleftrightarrow> \<not> relinquishes H V (au_grants a) eid \<and>
    (\<nexists>r. r \<in> au_effective_revokes a \<and> controlled V (au_grants a) (signer H eid ev) eid r) \<and>
    eid \<notin> au_canceled a \<and> signer H eid ev \<notin> au_canceled a \<and>
    (\<forall>p\<in>set (parents_of ev). \<not> suppressed (au_effects a) p)"
proof -
  from spec obtain F where F: "\<And>x. fmlookup F x = map_option (base_effect H V (au_grants a) R (au_effective_revokes a) x)
      (fmlookup V x)" "effects_ok V F (au_effects a)" "settled V (au_effects a) eid"
    using fmdom'I [OF ev] unfolding authority_spec_def by blast
  have can: "g \<in> au_canceled a \<longleftrightarrow> cancel_map V (au_grants a) (au_effective_revokes a) g \<noteq> None" for g
    using spec by (simp add: authority_spec_def cancel_map_def)
  have rel: "eid \<in> R \<longleftrightarrow> relinquishes H V (au_grants a) eid"
    using relinquishes_eq [OF ix R] spec by (simp add: authority_spec_def)
  have base: "eligible F eid \<longleftrightarrow> \<not> relinquishes H V (au_grants a) eid \<and>
    (\<nexists>r. r \<in> au_effective_revokes a \<and> controlled V (au_grants a) (signer H eid ev) eid r) \<and>
    eid \<notin> au_canceled a \<and> signer H eid ev \<notin> au_canceled a"
    unfolding can rel [symmetric]
    by (auto simp: eligible_def F(1) ev base_effect_def split: option.splits)
  have "eligible (au_effects a) eid \<longleftrightarrow> eligible F eid \<and> (\<forall>p\<in>set (parents_of ev). \<not> suppressed (au_effects a) p)"
  proof
    assume el: "eligible (au_effects a) eid"
    then have "fmlookup (au_effects a) eid = fmlookup F eid" using F(2) unfolding effects_ok_def by blast
    with el F(3) ev show "eligible F eid \<and> (\<forall>p\<in>set (parents_of ev). \<not> suppressed (au_effects a) p)"
      unfolding settled_def by (simp add: eligible_def)
  next
    assume "eligible F eid \<and> (\<forall>p\<in>set (parents_of ev). \<not> suppressed (au_effects a) p)"
    with F(2) ev show "eligible (au_effects a) eid" unfolding effects_ok_def by blast
  qed
  with base show ?thesis by blast
qed

end
