(* ===== verification/Run.thy ===== *)
theory Run
  imports Valid_Events
begin

text \<open>
  Running the model inside the simplifier: the collection \<open>run\<close> evaluates the operations on
  concrete corpora, and a small sample ledger. The sample hash function keeps the last 32 bytes
  of its input and adds 1000, so the root grant of event \<open>g\<close> is \<open>g + 1000\<close> and so is the id of
  the revision that event \<open>g\<close> creates.
\<close>

named_theorems run \<open>definitions and rewrite rules that run the model on concrete data\<close>

section \<open>Maps and loops on concrete data\<close>

lemma keys_empty [run]: "keys fmempty = []"
  by (simp add: keys_def sorted_list_of_fset.rep_eq)

lemma keys_upd [run]: "keys (fmupd k v m) = insort k (remove1 k (keys m))"
  by (simp add: keys_def sorted_list_of_fset.rep_eq)
    (metis finite_fset sorted_list_of_set.sorted_key_list_of_set_remove)

lemma fm_len_empty [run]: "fm_len fmempty = 0"
  by (simp add: fm_len_card)

lemma fm_len_upd [run]: "fm_len (fmupd k v m) = (if has m k then fm_len m else Suc (fm_len m))"
  by (simp add: fm_len_card has_iff insert_absorb)

lemma while_unroll [run]:
  "c s \<Longrightarrow> while_loop c f s = f s \<bind> while_loop c f"
  "\<not> c s \<Longrightarrow> while_loop c f s = Some s"
  by (simp_all add: while_loop.simps)

lemmas [run] = has_def fmdom'_fmupd fmfilter_upd fmdrop_fmupd upt_rec Let_def or_insert_def

lemmas [run] = cone_def signer_def issued_def index_event_def index_events_def revoke_of_def revokes_def
  covers_def outside_def controls_def lineage_len_def grant_order_def cancel_step_def cancellations_def
  relinquished_def relinquishments_def max_depth_def in_batch_def revoke_depth_def event_effect_def
  initial_effects_def inherited_def suppress_step_def suppress_def derive_def scope_step_def in_scope_def

lemmas [run] = subject_or_def revision_of_def revisions_step_def revisions_def select_step_def selections_def
  body_step_def body_def

lemmas [run] = valid_status_def invalid_def pending_def is_subject_def check_correction_def holds_key_def
  check_delegate_def check_revoke_def selects_outside_def check_selection_def check_resolve_def check_payload_def
  comparable_def inactive_in_def check_authority_def check_decision_def check_lineage_def imprecise_def
  genesis_header_def evaluate_def schedulable_def classify_step_def subject_ids_def classify_round_def
  classify_subjects_def

lemmas [run] = RELATIONS_def valid_subjects_def subjects_new_def pins_of_def edge_of_def check_pin_def check_pins_def
  check_assert_def old_pins_differ_def edge_comparable_def reaffirm_decision_def check_reaffirm_def
  check_attestation_def evaluate_edge_def edge_deps_def edge_ready_def edge_step_def edge_ids_def edge_phase_def
  classify_edges_def classify_def analyze_def

section \<open>A sample ledger\<close>

definition sample_H :: "byte list \<Rightarrow> hash" where
  "sample_H bs = from_be_bytes (drop (length bs - 32) bs) + 1000"

lemma sample_domain_hash: "domain_hash sample_H nm (xs @ [h]) = h + 1000"
proof -
  have "drop (length (p @ hash_bytes h) - 32) (p @ hash_bytes h) = hash_bytes h" for p
    by (simp add: hash_bytes_def)
  from this [of "to_be_bytes 4 (word_of_nat (length nm) :: u32) @ as_bytes nm @ concat (map hash_bytes xs)"]
  show ?thesis by (simp add: domain_hash_def sample_H_def hash_bytes_def from_to_be_bytes)
qed

lemma sample_ids [run]: "root_grant sample_H g = g + 1000" "revision_id sample_H s e = e + 1000"
  using sample_domain_hash [of _ "[]" g] sample_domain_hash [of _ "[s]" e]
  by (simp_all add: root_grant_def revision_id_def)

definition sample_key :: subject_key where
  "sample_key = \<lparr>key_kind = ''person'', key_namespace = ''wikidata'', key_value = ''Q7251''\<rparr>"

text \<open>An event of subject \<open>s\<close> by author 7.\<close>

definition sample_event :: "hash option \<Rightarrow> hash option \<Rightarrow> hash list \<Rightarrow> payload \<Rightarrow> signed" where
  "sample_event s g ps p = \<lparr>sg_envelope = \<lparr>env_instance = 9, env_author = 7, env_subject = s,
     env_subject_key = (if payload_kind p \<in> {K_EdgeAssert, K_EdgeReaffirm, K_Attestation} then None else Some sample_key),
     env_grant = g, env_parents = ps, env_asserted_time = None, env_payload = p\<rparr>, sg_id = 0, sg_bytes = []\<rparr>"

definition sample_decision :: "kind \<Rightarrow> hash list \<Rightarrow> val \<Rightarrow> val \<Rightarrow> decision" where
  "sample_decision k ps old new = \<lparr>dec_kind = k, dec_rationale = ''r'', dec_evidence = [8], dec_parents = ps,
     dec_old = old, dec_new = new\<rparr>"

definition sample_pins :: pins where
  "sample_pins = \<lparr>pins_source = \<lparr>pin_subject = 1, pin_basis = 2, pin_revision = 1002, pin_body = 52\<rparr>,
     pins_target = \<lparr>pin_subject = 3, pin_basis = 3, pin_revision = 1003, pin_body = 53\<rparr>\<rparr>"

text \<open>Subject 1 with a correction 2, subject 3, and an edge 4 between them.\<close>

definition sample_corpus :: corpus where
  "sample_corpus = fmap_of_list
     [(1, sample_event None None [] (Genesis 0 51 [])),
      (2, sample_event (Some 1) (Some 1001) [1] (Correction 52 (sample_decision K_Correction [1] (V_Body 51) (V_Body 52)))),
      (3, sample_event None None [] (Genesis 0 53 [])),
      (4, sample_event None None [] (EdgeAssert ''influence'' sample_pins
         (sample_decision K_EdgeAssert [] V_None (V_Pins sample_pins))))]"

lemmas [run] = sample_key_def sample_event_def sample_decision_def sample_pins_def sample_corpus_def

lemma sample_classified: "classify sample_H (\<lambda>_. True) sample_corpus =
    Some (fmap_of_list [(4, valid_status), (3, valid_status), (2, valid_status), (1, valid_status)])"
  by (simp add: run)

lemma sample_distinct: "distinct_ids sample_H (fmdom' sample_corpus)"
  by (simp add: distinct_ids_def run)

text \<open>
  Subject 1 delegates to key 8 (grant 2) and revokes it again (3); an edge 5 from subject 1 to
  subject 4 is asserted, reaffirmed (6) and attested (7).
\<close>

definition edge_pins :: pins where
  "edge_pins = \<lparr>pins_source = \<lparr>pin_subject = 1, pin_basis = 1, pin_revision = 1001, pin_body = 51\<rparr>,
     pins_target = \<lparr>pin_subject = 4, pin_basis = 4, pin_revision = 1004, pin_body = 54\<rparr>\<rparr>"

definition moved_pins :: pins where
  "moved_pins = \<lparr>pins_source = \<lparr>pin_subject = 1, pin_basis = 2, pin_revision = 1001, pin_body = 51\<rparr>,
     pins_target = \<lparr>pin_subject = 4, pin_basis = 4, pin_revision = 1004, pin_body = 54\<rparr>\<rparr>"

definition edge_corpus :: corpus where
  "edge_corpus = fmap_of_list
     [(1, sample_event None None [] (Genesis 0 51 [])),
      (2, sample_event (Some 1) (Some 1001) [1] (Delegate 8 1001 (sample_decision K_Delegate [1] V_None (V_Grant 1001 8)))),
      (3, sample_event (Some 1) (Some 1001) [2] (Revoke 2 False
         (sample_decision K_Revoke [2] (V_ActiveGrant 2) (V_RevokedGrant 2 False)))),
      (4, sample_event None None [] (Genesis 0 54 [])),
      (5, sample_event None None [] (EdgeAssert ''disputes'' edge_pins
         (sample_decision K_EdgeAssert [] V_None (V_Pins edge_pins)))),
      (6, sample_event None None [5] (EdgeReaffirm 5 [\<lparr>pp_parent = 5, pp_pins = edge_pins\<rparr>] moved_pins
         (sample_decision K_EdgeReaffirm [5] (V_ParentPins [\<lparr>pp_parent = 5, pp_pins = edge_pins\<rparr>]) (V_Pins moved_pins)))),
      (7, sample_event None None [] (Attestation T_Event 5 ''scan'' 77))]"

lemmas [run] = edge_pins_def moved_pins_def edge_corpus_def

lemma edge_classified: "classify sample_H (\<lambda>_. True) edge_corpus =
    Some (fmap_of_list (map (\<lambda>n. (n, valid_status)) [7, 6, 5, 4, 3, 2, 1]))"
  by (simp add: run)

lemma edge_distinct: "distinct_ids sample_H (fmdom' edge_corpus)"
  by (simp add: distinct_ids_def run)

end
