(* ===== verification/Ledger_Properties.thy ===== *)
theory Ledger_Properties
  imports Run
begin

text \<open>
  The properties of the ledger's classifier and authority: admission of subject events, edges and
  attestations, and the authority that the valid events give. Every theorem has one standing
  hypothesis, that SHA-256 gives the root grants of the corpus identifiers of their own.
\<close>

lemma classified_result:
  assumes "distinct_ids H (fmdom' cands)" "classify H kok cands = Some out" "valid_subjects cands out = Some V"
  obtains o1 s where "classified H kok cands out V o1 s"
proof -
  obtain out' V' o1 s where c: "classify H kok cands = Some out'" "classified H kok cands out' V' o1 s"
    using assms(1) by (rule classify_cases)
  then have "out' = out" "V' = V" using assms(2,3) classified_valid_subjects [OF c(2)] by auto
  with c that show thesis by blast
qed

section \<open>Causal past\<close>

text \<open>
  \<open>cone\<close> returns exactly the events reachable from a head over parent links, with their
  envelopes, and reports a panic exactly when one of them is not in the corpus; it always ends.
\<close>

theorem cone_causal_past:
  "cone all h = (if anc all h \<subseteq> fmdom' all then Some (fmrestrict_set (anc all h) all) else None)"
  by (rule cone_eq)

section \<open>Admission of subject events\<close>

text \<open>
  C32: on every corpus \<open>classify\<close> ends without a panic and gives every candidate, and nothing else,
  a status.
\<close>

theorem classify_returns:
  "distinct_ids H (fmdom' cands) \<Longrightarrow> \<exists>out. classify H kok cands = Some out \<and> fmdom' out = fmdom' cands"
  by (rule classify_total)

theorem classify_returns_witness:
  "distinct_ids sample_H (fmdom' sample_corpus) \<and>
   (\<exists>out. classify sample_H (\<lambda>_. True) sample_corpus = Some out \<and> fmdom' out = fmdom' sample_corpus)"
  using classify_returns [of sample_H sample_corpus] sample_distinct by blast

text \<open>
  C1: a subject event is valid exactly when it is admissible against the valid subject events of the
  final result (its parents are valid, subject and subject key agree with them, its decision
  matches its kind and parents, and the authority check accepts it), whatever the order in which
  the loop reached it.
\<close>

theorem classify_valid_iff_admissible:
  assumes "distinct_ids H (fmdom' cands)" "classify H kok cands = Some out" "valid_subjects cands out = Some V"
    "fmlookup cands eid = Some ev" "is_subject ev"
  shows "is_valid out eid \<longleftrightarrow> admissible H kok cands V ev"
proof -
  obtain o1 s where "classified H kok cands out V o1 s" using assms(1-3) by (rule classified_result)
  with classified_subject [OF this assms(4,5)] show ?thesis by blast
qed

theorem classify_valid_iff_admissible_witness:
  "is_valid (fmap_of_list [(4, valid_status), (3, valid_status), (2, valid_status), (1, valid_status)]) 2 \<longleftrightarrow>
   admissible sample_H (\<lambda>_. True) sample_corpus (fmdrop 4 sample_corpus)
     (sample_event (Some 1) (Some 1001) [1] (Correction 52 (sample_decision K_Correction [1] (V_Body 51) (V_Body 52))))"
proof (rule classify_valid_iff_admissible [OF sample_distinct sample_classified])
  show "valid_subjects sample_corpus (fmap_of_list [(4, valid_status), (3, valid_status), (2, valid_status),
      (1, valid_status)]) = Some (fmdrop 4 sample_corpus)" by (simp add: run)
qed (simp_all add: run)

text \<open>
  The valid subject events contain the parents of each of them and have no cycle.
\<close>

theorem valid_events_closed:
  assumes "distinct_ids H (fmdom' cands)" "classify H kok cands = Some out" "valid_subjects cands out = Some V"
  shows "causally_closed V \<and> wf (parent_rel V)"
proof -
  obtain o1 s where "classified H kok cands out V o1 s" using assms by (rule classified_result)
  from subject_wfD(2,3) [OF classifiedD(4) [OF this]] show ?thesis by blast
qed

theorem valid_events_closed_witness:
  "causally_closed (fmdrop 4 sample_corpus) \<and> wf (parent_rel (fmdrop 4 sample_corpus))"
  by (rule valid_events_closed [OF sample_distinct sample_classified]) (simp add: run)

text \<open>
  C33: every valid event after genesis is signed under a grant that is active in the authority
  derived from its whole causal past, is held by its author there, and is active in the past of
  each single parent.
\<close>

theorem valid_event_authorized:
  assumes "distinct_ids H (fmdom' cands)" "classify H kok cands = Some out" "valid_subjects cands out = Some V"
    "fmlookup cands eid = Some ev" "is_subject ev" "payload_kind (payload_of ev) \<noteq> K_Genesis" "is_valid out eid"
  shows "\<exists>g view. authorized H V ev g view"
proof -
  obtain o1 s where "classified H kok cands out V o1 s" using assms(1-3) by (rule classified_result)
  from valid_subject [OF this assms(4,5,7,6)] show ?thesis by blast
qed

theorem valid_event_authorized_witness:
  "\<exists>g view. authorized sample_H (fmdrop 4 sample_corpus)
     (sample_event (Some 1) (Some 1001) [1] (Correction 52 (sample_decision K_Correction [1] (V_Body 51) (V_Body 52)))) g view"
proof (rule valid_event_authorized [OF sample_distinct sample_classified])
  show "fmlookup sample_corpus 2 = Some (sample_event (Some 1) (Some 1001) [1]
      (Correction 52 (sample_decision K_Correction [1] (V_Body 51) (V_Body 52))))" by (simp add: run)
  show "is_valid (fmap_of_list [(4, valid_status), (3, valid_status), (2, valid_status), (1, valid_status)]) 2"
    by (simp add: is_valid_def run)
qed (simp_all add: run)

text \<open>
  A valid revocation targets a grant that is active in its causal past, and its signing
  grant is an ancestor of the target in the chain of issuers, or is the target itself when
  that is a root grant.
\<close>

theorem valid_revoke_in_scope:
  assumes "distinct_ids H (fmdom' cands)" "classify H kok cands = Some out" "valid_subjects cands out = Some V"
    "fmlookup cands eid = Some ev" "payload_of ev = Revoke t c d" "is_valid out eid"
  shows "\<exists>g view. authorized H V ev g view \<and> t \<in> au_active view \<and>
    (if g = t then issuers (au_grants view) t = {t} else g \<in> issuers (au_grants view) t)"
proof -
  obtain o1 s where cl: "classified H kok cands out V o1 s" using assms(1-3) by (rule classified_result)
  have "is_subject ev" "payload_kind (payload_of ev) \<noteq> K_Genesis" using assms(5) by (simp_all add: is_subject_def)
  from valid_subject [OF cl assms(4) this(1) assms(6) this(2)] assms(5) obtain g view where
    a: "authorized H V ev g view" "check_revoke view g t c d = Some valid_status" by (auto simp: check_payload_def)
  obtain ix where "full_index H (fmrestrict_set (past_of V ev) V) ix" "au_grants view = ix_grants ix"
    "au_active view \<subseteq> fmdom' (au_grants view)" using classifiedD(4) [OF cl] a(1) by (rule past_index)
  with check_revoke_valid [OF a(2)] a(1) show ?thesis by blast
qed

text \<open>
  A valid delegation hands a grant to a parseable key that no grant of its causal past has, and
  names as issuer the very grant it is signed under.
\<close>

theorem valid_delegate_fresh_key:
  assumes "distinct_ids H (fmdom' cands)" "classify H kok cands = Some out" "valid_subjects cands out = Some V"
    "fmlookup cands eid = Some ev" "payload_of ev = Delegate grantee issuer d" "is_valid out eid"
  shows "\<exists>view. authorized H V ev issuer view \<and> kok grantee \<and>
    (\<nexists>g gr. fmlookup (au_grants view) g = Some gr \<and> g_holder gr = grantee)"
proof -
  obtain o1 s where cl: "classified H kok cands out V o1 s" using assms(1-3) by (rule classified_result)
  have "is_subject ev" "payload_kind (payload_of ev) \<noteq> K_Genesis" using assms(5) by (simp_all add: is_subject_def)
  from valid_subject [OF cl assms(4) this(1) assms(6) this(2)] assms(5) obtain g view where
    a: "authorized H V ev g view" "check_delegate kok view g grantee issuer d = valid_status" by (auto simp: check_payload_def)
  then have "issuer = g" "kok grantee" "\<not> holds_key view grantee"
    by (auto simp: check_delegate_def valid_status_def invalid_def split: if_splits)
  with a(1) show ?thesis by (auto simp: holds_key_iff)
qed

lemma edge_valid: "valid_subjects edge_corpus (fmap_of_list (map (\<lambda>n. (n, valid_status)) [7, 6, 5, 4, 3, 2, 1])) =
    Some (fmdrop 5 (fmdrop 6 (fmdrop 7 edge_corpus)))"
  by (simp add: run)

theorem valid_revoke_in_scope_witness:
  "\<exists>g view. authorized sample_H (fmdrop 5 (fmdrop 6 (fmdrop 7 edge_corpus))) (the (fmlookup edge_corpus 3)) g view \<and>
     2 \<in> au_active view \<and> (if g = 2 then issuers (au_grants view) 2 = {2} else g \<in> issuers (au_grants view) 2)"
  by (rule valid_revoke_in_scope [OF edge_distinct edge_classified edge_valid, where eid = 3
      and c = False and d = "sample_decision K_Revoke [2] (V_ActiveGrant 2) (V_RevokedGrant 2 False)"])
    (simp_all add: run is_valid_def)

theorem valid_delegate_fresh_key_witness:
  "\<exists>view. authorized sample_H (fmdrop 5 (fmdrop 6 (fmdrop 7 edge_corpus))) (the (fmlookup edge_corpus 2)) 1001 view \<and>
     True \<and> (\<nexists>g gr. fmlookup (au_grants view) g = Some gr \<and> g_holder gr = 8)"
  by (rule valid_delegate_fresh_key [OF edge_distinct edge_classified edge_valid, where eid = 2
      and d = "sample_decision K_Delegate [1] V_None (V_Grant 1001 8)"])
    (simp_all add: run is_valid_def)

section \<open>Edges and attestations\<close>

text \<open>
  A valid edge has a known relation and no parents, its decision records its pins with a
  rationale and evidence, and both pins name a valid basis of the pinned subject with the revision that
  the basis selects and its body; a dispute runs between two subjects and is signed by the author
  of the disputing one.
\<close>

theorem valid_edge_pinned:
  assumes "distinct_ids H (fmdom' cands)" "classify H kok cands = Some out" "valid_subjects cands out = Some V"
    "fmlookup cands eid = Some ev" "payload_of ev = EdgeAssert relation ps d" "is_valid out eid"
  shows "relation \<in> set RELATIONS \<and> parents_of ev = [] \<and> dec_new d = V_Pins ps \<and> dec_rationale d \<noteq> [] \<and>
    dec_evidence d \<noteq> [] \<and> pin_ok H V (pins_source ps) \<and> pin_ok H V (pins_target ps) \<and>
    (relation = ''disputes'' \<longrightarrow> pin_subject (pins_source ps) \<noteq> pin_subject (pins_target ps) \<and>
      (\<exists>src. fmlookup cands (pin_subject (pins_source ps)) = Some src \<and>
        env_author (envelope_of src) = env_author (envelope_of ev)))"
proof -
  obtain o1 s where cl: "classified H kok cands out V o1 s" using assms(1-3) by (rule classified_result)
  note valid_assert [OF cl assms(4-6)]
  then show ?thesis by blast
qed

theorem valid_edge_pinned_witness:
  "pin_ok sample_H (fmdrop 5 (fmdrop 6 (fmdrop 7 edge_corpus))) (pins_source edge_pins)"
  using valid_edge_pinned [OF edge_distinct edge_classified edge_valid, of 5 "the (fmlookup edge_corpus 5)"
      "''disputes''" edge_pins "sample_decision K_EdgeAssert [] V_None (V_Pins edge_pins)"]
  by (simp add: run is_valid_def)

text \<open>
  A valid reaffirmation belongs to the author of a valid edge, keeps the subjects at both ends,
  builds on valid events of the same edge only, and its new pins are good.
\<close>

theorem valid_reaffirm_same_edge:
  assumes "distinct_ids H (fmdom' cands)" "classify H kok cands = Some out" "valid_subjects cands out = Some V"
    "fmlookup cands eid = Some ev" "payload_of ev = EdgeReaffirm edge old new d" "is_valid out eid"
  shows "parents_of ev \<noteq> [] \<and> pin_ok H V (pins_source new) \<and> pin_ok H V (pins_target new) \<and>
    (\<exists>base bps. fmlookup cands edge = Some base \<and> is_valid out edge \<and> pins_of base = Some bps \<and>
       payload_kind (payload_of base) = K_EdgeAssert \<and> env_author (envelope_of base) = env_author (envelope_of ev) \<and>
       pin_subject (pins_source new) = pin_subject (pins_source bps) \<and>
       pin_subject (pins_target new) = pin_subject (pins_target bps)) \<and>
    (\<forall>q\<in>set (parents_of ev). is_valid out q \<and> (\<exists>pev. fmlookup cands q = Some pev \<and> edge_of q pev = Some edge))"
proof -
  obtain o1 s where cl: "classified H kok cands out V o1 s" using assms(1-3) by (rule classified_result)
  note valid_reaffirm [OF cl assms(4-6)]
  then show ?thesis by blast
qed

theorem valid_reaffirm_same_edge_witness:
  "pin_ok sample_H (fmdrop 5 (fmdrop 6 (fmdrop 7 edge_corpus))) (pins_source moved_pins)"
  using valid_reaffirm_same_edge [OF edge_distinct edge_classified edge_valid, of 6 "the (fmlookup edge_corpus 6)"
      5 "[\<lparr>pp_parent = 5, pp_pins = edge_pins\<rparr>]" moved_pins
      "sample_decision K_EdgeReaffirm [5] (V_ParentPins [\<lparr>pp_parent = 5, pp_pins = edge_pins\<rparr>]) (V_Pins moved_pins)"]
  by (simp add: run is_valid_def)

text \<open>
  A valid attestation is about an existing revision of a valid event, or about a valid event
  that is not itself an attestation.
\<close>

theorem valid_attestation_target:
  assumes "distinct_ids H (fmdom' cands)" "classify H kok cands = Some out" "valid_subjects cands out = Some V"
    "fmlookup cands eid = Some ev" "payload_of ev = Attestation tk target artifact h" "is_valid out eid"
  shows "case tk of T_Revision \<Rightarrow> target \<in> fmdom' (revisions H V)
    | T_Event \<Rightarrow> is_valid out target \<and> (\<exists>t. fmlookup cands target = Some t \<and> payload_kind (payload_of t) \<noteq> K_Attestation)"
proof -
  obtain o1 s where cl: "classified H kok cands out V o1 s" using assms(1-3) by (rule classified_result)
  from valid_attestation [OF cl assms(4-6)] show ?thesis .
qed

theorem valid_attestation_target_witness:
  "\<exists>t. fmlookup edge_corpus 5 = Some t \<and> payload_kind (payload_of t) \<noteq> K_Attestation"
  using valid_attestation_target [OF edge_distinct edge_classified edge_valid, of 7 "the (fmlookup edge_corpus 7)"
      T_Event 5 "''scan''" 77] by (simp add: run is_valid_def)

section \<open>The derived authority\<close>

lemma analyzed:
  assumes "distinct_ids H (fmdom' cands)" "analyze H kok cands = Some an" "valid_subjects cands (an_admission an) = Some V"
  obtains ix R where "derive H V = Some (an_authority an)" "full_index H V ix" "relinquishments H V ix = Some R"
    "R \<subseteq> set (revokes V)" "authority_spec H V ix R (an_authority an)"
proof -
  obtain an' V' o1 s ix R where *: "analyze H kok cands = Some an'" "classify H kok cands = Some (an_admission an')"
    "classified H kok cands (an_admission an') V' o1 s" "derive H V' = Some (an_authority an')" "full_index H V' ix"
    "relinquishments H V' ix = Some R" "R \<subseteq> set (revokes V')" "authority_spec H V' ix R (an_authority an')"
    using assms(1) by (rule analyze_cases)
  then have "an' = an" "V' = V" using assms(2,3) classified_valid_subjects [OF *(3)] by auto
  with * that show thesis by blast
qed

text \<open>
  \<open>analyze\<close> ends without a panic on every corpus.
\<close>

theorem analyze_returns:
  "distinct_ids H (fmdom' cands) \<Longrightarrow> \<exists>an. analyze H kok cands = Some an \<and> classify H kok cands = Some (an_admission an)"
  using analyze_cases by blast

theorem analyze_returns_witness:
  "\<exists>an. analyze sample_H (\<lambda>_. True) edge_corpus = Some an \<and> classify sample_H (\<lambda>_. True) edge_corpus = Some (an_admission an)"
  by (rule analyze_returns [OF edge_distinct])

text \<open>
  The derived authority knows exactly the grants that valid events issue; a grant is a
  tombstone exactly when an effective revocation targets it, or cascades from a grant above it; a
  grant is active exactly when it is neither a tombstone nor canceled.
\<close>

theorem authority_partition:
  assumes "distinct_ids H (fmdom' cands)" "analyze H kok cands = Some an" "valid_subjects cands (an_admission an) = Some V"
  shows "fmdom' (au_grants (an_authority an)) = grant_keys H V (fmdom' V) \<and>
    au_tombstones (an_authority an) = {g \<in> fmdom' (au_grants (an_authority an)).
      \<exists>r\<in>au_effective_revokes (an_authority an). covered V (au_grants (an_authority an)) r g} \<and>
    au_active (an_authority an) = fmdom' (au_grants (an_authority an)) - au_canceled (an_authority an) - au_tombstones (an_authority an)"
proof -
  obtain ix R where *: "full_index H V ix" "authority_spec H V ix R (an_authority an)" using assms by (rule analyzed)
  then show ?thesis using full_indexD(4) [OF *(1)] by (simp add: authority_spec_def)
qed

lemma edge_analyzed:
  obtains an where "analyze sample_H (\<lambda>_. True) edge_corpus = Some an"
    "valid_subjects edge_corpus (an_admission an) = Some (fmdrop 5 (fmdrop 6 (fmdrop 7 edge_corpus)))"
proof -
  obtain an where "analyze sample_H (\<lambda>_. True) edge_corpus = Some an"
    "classify sample_H (\<lambda>_. True) edge_corpus = Some (an_admission an)"
    using edge_distinct by (rule analyze_cases)
  with that edge_valid edge_classified show thesis by (metis option.inject)
qed

theorem authority_partition_witness:
  "\<exists>an. analyze sample_H (\<lambda>_. True) edge_corpus = Some an \<and>
     au_active (an_authority an) = fmdom' (au_grants (an_authority an)) - au_canceled (an_authority an) - au_tombstones (an_authority an)"
proof -
  obtain an where "analyze sample_H (\<lambda>_. True) edge_corpus = Some an"
    "valid_subjects edge_corpus (an_admission an) = Some (fmdrop 5 (fmdrop 6 (fmdrop 7 edge_corpus)))" by (rule edge_analyzed)
  with authority_partition [OF edge_distinct this] show ?thesis by blast
qed

text \<open>
  C4: a revocation is effective exactly when it is a root holder giving up its own grant, or it
  stands against the relinquishments and the effective revocations whose signing grant is closer
  to its root: its signer is not canceled by them, and none of them reaches its signer
  concurrently.
\<close>

theorem effective_revokes_fixpoint:
  assumes "distinct_ids H (fmdom' cands)" "analyze H kok cands = Some an" "valid_subjects cands (an_admission an) = Some V"
    "a = an_authority an" "revoke_of V r = Some (t, c)"
  shows "r \<in> au_effective_revokes a \<longleftrightarrow> relinquishes H V (au_grants a) r \<or>
    stands H V (au_grants a) {q \<in> au_effective_revokes a. relinquishes H V (au_grants a) q \<or>
      signer_depth H V (au_grants a) q < signer_depth H V (au_grants a) r} r"
proof -
  obtain ix R where *: "full_index H V ix" "relinquishments H V ix = Some R" "R \<subseteq> set (revokes V)"
    "authority_spec H V ix R a" unfolding assms(4) using assms(1-3) by (rule analyzed)
  have "r \<in> set (revokes V)" using assms(5) by (auto simp: revokes_def revoke_of_def fmlookup_dom'_iff split: bind_splits)
  with effective_iff [OF *] show ?thesis .
qed

text \<open>
  A valid event stays eligible exactly when it is no relinquishment, no effective revocation
  reaches its signing grant concurrently, neither the grant it issues nor the one it is signed under is
  canceled, and no parent is suppressed.
\<close>

theorem eligible_events:
  assumes "distinct_ids H (fmdom' cands)" "analyze H kok cands = Some an" "valid_subjects cands (an_admission an) = Some V"
    "a = an_authority an" "fmlookup V eid = Some ev"
  shows "eligible (au_effects a) eid \<longleftrightarrow> \<not> relinquishes H V (au_grants a) eid \<and>
    (\<nexists>r. r \<in> au_effective_revokes a \<and> controlled V (au_grants a) (signer H eid ev) eid r) \<and>
    eid \<notin> au_canceled a \<and> signer H eid ev \<notin> au_canceled a \<and>
    (\<forall>p. p \<in> set (parents_of ev) \<longrightarrow> \<not> suppressed (au_effects a) p)"
proof -
  obtain ix R where *: "full_index H V ix" "relinquishments H V ix = Some R" "authority_spec H V ix R a"
    unfolding assms(4) using assms(1-3) by (rule analyzed)
  from eligible_iff [OF * assms(5)] show ?thesis by blast
qed

theorem effective_revokes_fixpoint_witness:
  "\<exists>an V. analyze sample_H (\<lambda>_. True) edge_corpus = Some an \<and> (let a = an_authority an in
     3 \<in> au_effective_revokes a \<longleftrightarrow> relinquishes sample_H V (au_grants a) 3 \<or>
       stands sample_H V (au_grants a) {q \<in> au_effective_revokes a. relinquishes sample_H V (au_grants a) q \<or>
         signer_depth sample_H V (au_grants a) q < signer_depth sample_H V (au_grants a) 3} 3)"
proof -
  obtain an where an: "analyze sample_H (\<lambda>_. True) edge_corpus = Some an"
    "valid_subjects edge_corpus (an_admission an) = Some (fmdrop 5 (fmdrop 6 (fmdrop 7 edge_corpus)))" by (rule edge_analyzed)
  have "revoke_of (fmdrop 5 (fmdrop 6 (fmdrop 7 edge_corpus))) 3 = Some (2, False)" by (simp add: run)
  from effective_revokes_fixpoint [OF edge_distinct an refl this] an(1) show ?thesis unfolding Let_def by blast
qed

theorem eligible_events_witness:
  "\<exists>an V ev. analyze sample_H (\<lambda>_. True) edge_corpus = Some an \<and> fmlookup edge_corpus 2 = Some ev \<and>
     (let a = an_authority an in eligible (au_effects a) 2 \<longleftrightarrow> \<not> relinquishes sample_H V (au_grants a) 2 \<and>
       (\<nexists>r. r \<in> au_effective_revokes a \<and> controlled V (au_grants a) (signer sample_H 2 ev) 2 r) \<and>
       2 \<notin> au_canceled a \<and> signer sample_H 2 ev \<notin> au_canceled a \<and>
       (\<forall>p. p \<in> set (parents_of ev) \<longrightarrow> \<not> suppressed (au_effects a) p))"
proof -
  obtain an where an: "analyze sample_H (\<lambda>_. True) edge_corpus = Some an"
    "valid_subjects edge_corpus (an_admission an) = Some (fmdrop 5 (fmdrop 6 (fmdrop 7 edge_corpus)))" by (rule edge_analyzed)
  obtain ev where ev: "fmlookup edge_corpus 2 = Some ev" by (simp add: run)
  then have "fmlookup (fmdrop 5 (fmdrop 6 (fmdrop 7 edge_corpus))) 2 = Some ev" by simp
  from eligible_events [OF edge_distinct an refl this] an(1) ev show ?thesis unfolding Let_def by blast
qed

end
