(* ===== verification/Projection.thy ===== *)
theory Projection
  imports Edges
begin

text \<open>
  The readings of a corpus: \<open>project\<close> of \<^verbatim>\<open>crates/cc-ledger/src/v1/projection.rs\<close> and of
  \<^verbatim>\<open>crates/cc-ledger/src/v1/edges.rs\<close>. Frontiers are sets, so \<open>BTreeSet::len\<close> is the
  cardinality and iteration is over \<open>sorted_list_of_set\<close>.
\<close>

section \<open>Readings\<close>

datatype projection_state = PS_Head | PS_Superseded | PS_Branch | PS_Pending | PS_Invalid

record event_reading =
  er_event :: hash
  er_envelope :: envelope
  er_state :: projection_state
  er_reason :: string
  er_missing :: "hash list"
  er_frontier :: bool
  er_revision :: "hash option"
  er_controlling_revokes :: "hash set"

record subject_reading =
  sr_subject :: hash
  sr_frontier :: "hash set"
  sr_state :: string
  sr_frozen :: bool

record edge_reading =
  ed_edge :: hash
  ed_author :: hash
  ed_relation :: string
  ed_evidence :: "hash list"
  ed_heads :: "hash set"
  ed_pins :: "pins list"
  ed_history :: "hash set"
  ed_status :: string
  ed_reasons :: "string list"

record media_reading =
  me_attestation :: hash
  me_author :: hash
  me_target_kind :: target_kind
  me_target :: hash
  me_revision :: "hash option"
  me_body :: "hash option"
  me_artifact_kind :: string
  me_artifact :: hash

record projection =
  pj_rows :: "event_reading list"
  pj_revisions :: "revision list"
  pj_subjects :: "subject_reading list"
  pj_authority :: authority
  pj_edges :: "edge_reading list"
  pj_media :: "media_reading list"

type_synonym row_state = "projection_state \<times> string \<times> bool"
type_synonym row_states = "(hash, row_state) fmap"
type_synonym ancestors = "(hash, hash set) fmap"

section \<open>Maximal events of a set\<close>

text \<open>
  The same steps serve subjects and edges: the cones of some events, what they consume, the
  frontier they leave, and the events that all of the frontier has in common.
\<close>

definition cone_step :: "corpus \<Rightarrow> hash \<Rightarrow> ancestors \<Rightarrow> ancestors option" where
  "cone_step all eid m = do {c \<leftarrow> cone all eid; Some (fmupd eid (fmdom' c) m)}"

definition cone_table :: "corpus \<Rightarrow> hash list \<Rightarrow> ancestors option" where
  "cone_table all ids = for_each (cone_step all) ids fmempty"

definition strict_past :: "ancestors \<Rightarrow> hash \<Rightarrow> hash set option" where
  "strict_past ancestors eid = do {c \<leftarrow> fmlookup ancestors eid; Some (c - {eid})}"

definition consumed :: "ancestors \<Rightarrow> hash list \<Rightarrow> hash set option" where
  "consumed ancestors ids = do {cs \<leftarrow> mapM (strict_past ancestors) ids; Some (\<Union>(set cs))}"

definition common_past :: "ancestors \<Rightarrow> hash set \<Rightarrow> hash set option" where
  "common_past ancestors frontier = do {
     cs \<leftarrow> mapM (fmlookup ancestors) (sorted_list_of_set frontier);
     Some (case cs of [] \<Rightarrow> {} | c # rest \<Rightarrow> foldl (\<inter>) c rest)}"

definition chain_state :: "string \<Rightarrow> hash set \<Rightarrow> hash set \<Rightarrow> hash \<Rightarrow> projection_state \<times> string" where
  "chain_state conflict frontier common eid =
     (if card frontier = 1 \<and> eid \<in> frontier then (PS_Head, [])
      else if card frontier > 1 \<and> (eid \<in> frontier \<or> eid \<notin> common) then (PS_Branch, conflict)
      else (PS_Superseded, []))"

section \<open>Subjects\<close>

definition subject_events :: "corpus \<Rightarrow> hash \<Rightarrow> hash list" where
  "subject_events valid subject = filter (\<lambda>eid. case fmlookup valid eid of
     Some ev \<Rightarrow> subject_or ev eid = subject | None \<Rightarrow> False) (keys valid)"

definition no_reason :: "authority \<Rightarrow> hash \<Rightarrow> bool option" where
  "no_reason a eid = do {ef \<leftarrow> fmlookup (au_effects a) eid; Some (ef_reason ef = [])}"

definition subject_frontier :: "authority \<Rightarrow> ancestors \<Rightarrow> hash list \<Rightarrow> hash set option" where
  "subject_frontier a ancestors ids = do {
     eligible \<leftarrow> filterM (no_reason a) ids;
     used \<leftarrow> consumed ancestors (eligible @ filter (\<lambda>r. List.member ids r) (sorted_list_of_set (au_effective_revokes a)));
     Some (set eligible - used)}"

definition subject_row :: "authority \<Rightarrow> hash set \<Rightarrow> hash set \<Rightarrow> hash \<Rightarrow> row_states \<Rightarrow> row_states option" where
  "subject_row a frontier common eid states = do {
     ef \<leftarrow> fmlookup (au_effects a) eid;
     let (state, reason) =
       (if ef_reason ef = ''root_relinquished'' then (PS_Superseded, ef_reason ef)
        else if ef_reason ef \<noteq> [] then (PS_Branch, ef_reason ef)
        else chain_state ''contested'' frontier common eid);
     Some (fmupd eid (state, reason, eid \<in> frontier) states)}"

definition grants_subject :: "authority \<Rightarrow> hash \<Rightarrow> hash \<Rightarrow> bool option" where
  "grants_subject a subject g = do {gr \<leftarrow> fmlookup (au_grants a) g; Some (g_subject gr = subject)}"

definition frontier_state :: "hash set \<Rightarrow> string" where
  "frontier_state frontier = (if card frontier = 0 then ''no_current_body''
     else if card frontier = 1 then ''resolved'' else ''contested'')"

definition subject_step :: "corpus \<Rightarrow> authority \<Rightarrow> ancestors \<Rightarrow> hash \<Rightarrow> subject_reading list \<times> row_states \<Rightarrow>
    (subject_reading list \<times> row_states) option" where
  "subject_step valid a ancestors subject = (\<lambda>(subjects, states). do {
     ev \<leftarrow> fmlookup valid subject;
     if payload_kind (payload_of ev) \<noteq> K_Genesis then Some (subjects, states)
     else do {
       let ids = subject_events valid subject;
       frontier \<leftarrow> subject_frontier a ancestors ids;
       common \<leftarrow> common_past ancestors frontier;
       states' \<leftarrow> for_each (subject_row a frontier common) ids states;
       live \<leftarrow> anyM (grants_subject a subject) (sorted_list_of_set (au_active a));
       Some (subjects @ [\<lparr>sr_subject = subject, sr_frontier = frontier, sr_state = frontier_state frontier,
         sr_frozen = (\<not> live)\<rparr>], states')}})"

section \<open>Edges\<close>

definition creates_revision :: "corpus \<Rightarrow> hash \<Rightarrow> bool option" where
  "creates_revision valid eid = do {
     ev \<leftarrow> fmlookup valid eid;
     Some (case payload_of ev of Correction _ _ \<Rightarrow> True | Resolve (S_MergedBody _) _ _ \<Rightarrow> True | _ \<Rightarrow> False)}"

definition endpoint :: "(hash, subject_reading) fmap \<Rightarrow> subjects \<Rightarrow> ancestors \<Rightarrow> pin \<Rightarrow> string option option" where
  "endpoint readings s ancestors pn = do {
     reading \<leftarrow> fmlookup readings (pin_subject pn);
     if sr_state reading = ''contested'' then Some (Some ''subject_contested'')
     else if sr_state reading = ''no_current_body'' then Some (Some ''no_current_body'')
     else do {
       head \<leftarrow> (case sorted_list_of_set (sr_frontier reading) of [] \<Rightarrow> None | h # _ \<Rightarrow> Some h);
       past \<leftarrow> fmlookup ancestors head;
       if pin_basis pn \<notin> past then Some (Some ''basis_not_ancestor'')
       else do {
         sel \<leftarrow> fmlookup (su_selected s) head;
         if sel \<noteq> pin_revision pn then Some (Some ''revision_changed'')
         else do {
           basis_past \<leftarrow> fmlookup ancestors (pin_basis pn);
           created \<leftarrow> anyM (creates_revision (su_valid s)) (sorted_list_of_set (past - basis_past));
           Some (if created then Some ''revision_created_since_basis'' else None)}}}}"

definition valid_at :: "statuses \<Rightarrow> hash \<Rightarrow> bool option" where
  "valid_at admission eid = do {st \<leftarrow> fmlookup admission eid; Some (st_state st = Valid)}"

definition edge_member :: "corpus \<Rightarrow> statuses \<Rightarrow> hash \<Rightarrow> hash \<Rightarrow> bool option" where
  "edge_member cands admission edge c = do {
     ev \<leftarrow> fmlookup cands c;
     ok \<leftarrow> valid_at admission c;
     Some (ok \<and> edge_of c ev = Some edge)}"

definition edge_row :: "hash set \<Rightarrow> hash set \<Rightarrow> hash \<Rightarrow> row_states \<Rightarrow> row_states" where
  "edge_row heads common c rows =
     (let (state, reason) = chain_state ''edge_conflict'' heads common c in fmupd c (state, reason, c \<in> heads) rows)"

text \<open>The reasons why a pin is not current, each with its side.\<close>

definition side_reason :: "(hash, subject_reading) fmap \<Rightarrow> subjects \<Rightarrow> ancestors \<Rightarrow> string \<times> pin \<Rightarrow> (string \<times> string) list option" where
  "side_reason readings s ancestors = (\<lambda>(side, pn). do {
     r \<leftarrow> endpoint readings s ancestors pn;
     Some (case r of None \<Rightarrow> [] | Some why \<Rightarrow> [(side, why)])})"

definition edge_status :: "(hash, subject_reading) fmap \<Rightarrow> subjects \<Rightarrow> ancestors \<Rightarrow> hash set \<Rightarrow> pins list \<Rightarrow>
    (string \<times> string list) option" where
  "edge_status readings s ancestors heads ps =
     (if card heads > 1 then Some (''edge_conflict'', [''edge_conflict''])
      else case ps of [] \<Rightarrow> None | p # _ \<Rightarrow> do {
        found \<leftarrow> map_option concat (mapM (side_reason readings s ancestors)
          [(''source'', pins_source p), (''target'', pins_target p)]);
        Some (if found = [] then ''current''
          else if list_ex (\<lambda>(_, r). r = ''subject_contested'') found then ''endpoint_contested'' else ''stale'',
          map (\<lambda>(side, r). side @ '':'' @ r) found)})"

definition edge_reading_step :: "corpus \<Rightarrow> statuses \<Rightarrow> subjects \<Rightarrow> (hash, subject_reading) fmap \<Rightarrow> ancestors \<Rightarrow>
    hash \<Rightarrow> edge_reading list \<times> row_states \<Rightarrow> (edge_reading list \<times> row_states) option" where
  "edge_reading_step cands admission s readings ancestors eid = (\<lambda>(edges, rows). do {
     ev \<leftarrow> fmlookup cands eid;
     (case payload_of ev of
        EdgeAssert relation _ d \<Rightarrow> do {
          ok \<leftarrow> valid_at admission eid;
          if \<not> ok then Some (edges, rows)
          else do {
            history \<leftarrow> filterM (edge_member cands admission eid) (keys cands);
            cones \<leftarrow> cone_table cands history;
            used \<leftarrow> consumed cones history;
            let heads = set history - used;
            common \<leftarrow> common_past cones heads;
            let rows' = fold (edge_row heads common) history rows;
            ps \<leftarrow> mapM (\<lambda>h. fmlookup cands h \<bind> pins_of) (sorted_list_of_set heads);
            (status, reasons) \<leftarrow> edge_status readings s ancestors heads ps;
            Some (edges @ [\<lparr>ed_edge = eid, ed_author = env_author (envelope_of ev), ed_relation = relation,
              ed_evidence = dec_evidence d, ed_heads = heads, ed_pins = ps, ed_history = set history,
              ed_status = status, ed_reasons = reasons\<rparr>], rows')}}
      | _ \<Rightarrow> Some (edges, rows))})"

section \<open>Media\<close>

definition media_revision :: "(byte list \<Rightarrow> hash) \<Rightarrow> subjects \<Rightarrow> target_kind \<Rightarrow> hash \<Rightarrow> hash option" where
  "media_revision H s tk target = (case tk of
     T_Revision \<Rightarrow> Some target
   | T_Event \<Rightarrow> do {
       ev \<leftarrow> fmlookup (su_valid s) target;
       let r = revision_id H (subject_or ev target) target;
       if has (su_revisions s) r then Some r else None})"

definition media_step :: "(byte list \<Rightarrow> hash) \<Rightarrow> corpus \<Rightarrow> statuses \<Rightarrow> subjects \<Rightarrow> hash \<Rightarrow>
    media_reading list \<times> row_states \<Rightarrow> (media_reading list \<times> row_states) option" where
  "media_step H cands admission s eid = (\<lambda>(media, rows). do {
     ev \<leftarrow> fmlookup cands eid;
     (case payload_of ev of
        Attestation tk target artifact_kind artifact \<Rightarrow> do {
          ok \<leftarrow> valid_at admission eid;
          if \<not> ok then Some (media, rows)
          else do {
            let revision = media_revision H s tk target;
            b \<leftarrow> (case revision of None \<Rightarrow> Some None
              | Some r \<Rightarrow> map_option (\<lambda>rv. Some (rv_body rv)) (fmlookup (su_revisions s) r));
            Some (media @ [\<lparr>me_attestation = eid, me_author = env_author (envelope_of ev), me_target_kind = tk,
                me_target = target, me_revision = revision, me_body = b, me_artifact_kind = artifact_kind,
                me_artifact = artifact\<rparr>],
              fmupd eid (PS_Head, [], False) rows)}}
      | _ \<Rightarrow> Some (media, rows))})"

definition project_edges :: "(byte list \<Rightarrow> hash) \<Rightarrow> corpus \<Rightarrow> statuses \<Rightarrow> subject_reading list \<Rightarrow> ancestors \<Rightarrow>
    (edge_reading list \<times> media_reading list \<times> row_states) option" where
  "project_edges H cands admission subject_readings ancestors = do {
     s \<leftarrow> subjects_new H cands admission;
     let readings = fmap_of_list (rev (map (\<lambda>r. (sr_subject r, r)) subject_readings));
     (edges, rows) \<leftarrow> for_each (edge_reading_step cands admission s readings ancestors) (keys cands) ([], fmempty);
     (media, rows') \<leftarrow> for_each (media_step H cands admission s) (keys cands) ([], rows);
     Some (edges, media, rows')}"

section \<open>The projection\<close>

definition event_row :: "statuses \<Rightarrow> authority \<Rightarrow> (hash, hash) fmap \<Rightarrow> row_states \<Rightarrow> hash \<Rightarrow> signed \<Rightarrow> event_reading option" where
  "event_row admission a selected states eid ev = do {
     s \<leftarrow> fmlookup admission eid;
     let (state, reason, frontier) = (case fmlookup states eid of
         Some row \<Rightarrow> row
       | None \<Rightarrow> (if st_state s = Invalid then PS_Invalid else PS_Pending, st_reason s, False));
     Some \<lparr>er_event = eid, er_envelope = envelope_of ev, er_state = state, er_reason = reason,
       er_missing = st_missing s, er_frontier = frontier, er_revision = fmlookup selected eid,
       er_controlling_revokes = (case fmlookup (au_effects a) eid of None \<Rightarrow> {} | Some ef \<Rightarrow> ef_controlling_revokes ef)\<rparr>}"

definition project :: "(byte list \<Rightarrow> hash) \<Rightarrow> (hash \<Rightarrow> bool) \<Rightarrow> corpus \<Rightarrow> projection option" where
  "project H kok cands = do {
     an \<leftarrow> analyze H kok cands;
     valid \<leftarrow> valid_subjects cands (an_admission an);
     selected \<leftarrow> selections H valid;
     ancestors \<leftarrow> cone_table valid (keys valid);
     (subjects, states) \<leftarrow> for_each (subject_step valid (an_authority an) ancestors) (keys valid) ([], fmempty);
     (edges, media, edge_states) \<leftarrow> project_edges H cands (an_admission an) subjects ancestors;
     rows \<leftarrow> mapM (\<lambda>eid. fmlookup cands eid \<bind>
       event_row (an_admission an) (an_authority an) selected (states ++\<^sub>f edge_states) eid) (keys cands);
     Some \<lparr>pj_rows = rows, pj_revisions = map (\<lambda>r. the (fmlookup (revisions H valid) r)) (keys (revisions H valid)),
       pj_subjects = subjects, pj_authority = an_authority an, pj_edges = edges, pj_media = media\<rparr>}"

end
