(* ===== verification/Frontiers.thy ===== *)
theory Frontiers
  imports Valid_Events Projection
begin

text \<open>
  What the projection computes of the subjects: the frontier of a subject is the set of its
  eligible events that no other eligible event and no effective revocation of the subject builds
  on. The projection of subjects ends without a panic.
\<close>

section \<open>Cones, consumed events and common past\<close>

lemma cone_table_Some:
  assumes "\<And>x. x \<in> set ids \<Longrightarrow> cone all x = Some (c x)"
  shows "\<exists>T. cone_table all ids = Some T \<and> (\<forall>x. fmlookup T x = (if x \<in> set ids then Some (fmdom' (c x)) else None))"
  unfolding cone_table_def
proof (rule for_each_rule)
  fix pre x post T
  assume "ids = pre @ x # post" and T: "\<forall>y. fmlookup T y = (if y \<in> set pre then Some (fmdom' (c y)) else None)"
  then have "cone_step all x T = Some (fmupd x (fmdom' (c x)) T)" using assms by (simp add: cone_step_def)
  with T show "\<exists>T'. cone_step all x T = Some T' \<and>
      (\<forall>y. fmlookup T' y = (if y \<in> set (pre @ [x]) then Some (fmdom' (c y)) else None))" by auto
qed simp

lemma consumed_Some:
  assumes "\<And>x. x \<in> set ids \<Longrightarrow> fmlookup T x = Some (past x)"
  shows "consumed T ids = Some (\<Union>x\<in>set ids. past x - {x})"
proof -
  have "mapM (strict_past T) ids = Some (map (\<lambda>x. past x - {x}) ids)"
    using assms by (intro mapM_Some) (simp add: strict_past_def)
  then show ?thesis by (simp add: consumed_def)
qed

lemma common_past_Some:
  assumes "\<And>x. x \<in> F \<Longrightarrow> fmlookup T x = Some (past x)"
  shows "common_past T F = Some (if F = {} then {} else \<Inter>x\<in>F. past x)"
proof -
  have fold: "foldl (\<inter>) c cs = c \<inter> \<Inter>(set cs)" for c :: "hash set" and cs by (induction cs arbitrary: c) auto
  have set: "set (sorted_list_of_set F) = F" by simp
  have "mapM (fmlookup T) (sorted_list_of_set F) = Some (map past (sorted_list_of_set F))"
    using assms by (intro mapM_Some) simp
  moreover have "(case map past (sorted_list_of_set F) of [] \<Rightarrow> {} | c # rest \<Rightarrow> foldl (\<inter>) c rest) =
      (if F = {} then {} else \<Inter>x\<in>F. past x)"
    using set by (cases "sorted_list_of_set F") (auto simp: fold)
  ultimately show ?thesis by (simp add: common_past_def)
qed

section \<open>The frontier of a subject\<close>

text \<open>The valid events of a subject, and those of them that nothing live builds on.\<close>

definition events_of :: "corpus \<Rightarrow> hash \<Rightarrow> hash set" where
  "events_of V sub = {eid. \<exists>ev. fmlookup V eid = Some ev \<and> subject_or ev eid = sub}"

definition frontier_of :: "corpus \<Rightarrow> authority \<Rightarrow> hash \<Rightarrow> hash set" where
  "frontier_of V a sub = {e \<in> events_of V sub. eligible (au_effects a) e \<and>
     (\<nexists>x. x \<in> events_of V sub \<and> x \<noteq> e \<and> (eligible (au_effects a) x \<or> x \<in> au_effective_revokes a) \<and> e \<in> anc V x)}"

definition live_grant :: "authority \<Rightarrow> hash \<Rightarrow> bool" where
  "live_grant a sub \<longleftrightarrow> (\<exists>g gr. g \<in> au_active a \<and> fmlookup (au_grants a) g = Some gr \<and> g_subject gr = sub)"

definition subject_view :: "corpus \<Rightarrow> authority \<Rightarrow> hash \<Rightarrow> subject_reading" where
  "subject_view V a sub = \<lparr>sr_subject = sub, sr_frontier = frontier_of V a sub,
     sr_state = frontier_state (frontier_of V a sub), sr_frozen = (\<not> live_grant a sub)\<rparr>"

definition event_view :: "corpus \<Rightarrow> authority \<Rightarrow> hash \<Rightarrow> hash \<Rightarrow> row_state" where
  "event_view V a sub eid = (let F = frontier_of V a sub; r = (case fmlookup (au_effects a) eid of None \<Rightarrow> [] | Some ef \<Rightarrow> ef_reason ef);
     (state, reason) = (if r = ''root_relinquished'' then (PS_Superseded, r) else if r \<noteq> [] then (PS_Branch, r)
       else chain_state ''contested'' F (if F = {} then {} else \<Inter>x\<in>F. anc V x) eid) in (state, reason, eid \<in> F))"

lemma subject_events_set: "set (subject_events V sub) = events_of V sub"
  by (auto simp: subject_events_def events_of_def fmlookup_dom'_iff split: option.splits)

lemma events_of_dom: "events_of V sub \<subseteq> fmdom' V"
  by (auto simp: events_of_def intro: fmdom'I)

text \<open>What the projection needs of the derived authority and the table of cones.\<close>

definition readable :: "corpus \<Rightarrow> authority \<Rightarrow> ancestors \<Rightarrow> bool" where
  "readable V a T \<longleftrightarrow> fmdom' (au_effects a) = fmdom' V \<and> au_active a \<subseteq> fmdom' (au_grants a) \<and>
     (\<forall>x. fmlookup T x = (if x \<in> fmdom' V then Some (anc V x) else None))"

lemma readableD:
  assumes "readable V a T"
  shows "x \<in> fmdom' V \<Longrightarrow> fmlookup T x = Some (anc V x)"
    "x \<in> fmdom' V \<Longrightarrow> \<exists>ef. fmlookup (au_effects a) x = Some ef \<and> (eligible (au_effects a) x \<longleftrightarrow> ef_reason ef = [])"
    "g \<in> au_active a \<Longrightarrow> g \<in> fmdom' (au_grants a)"
proof -
  show "x \<in> fmdom' V \<Longrightarrow> fmlookup T x = Some (anc V x)" "g \<in> au_active a \<Longrightarrow> g \<in> fmdom' (au_grants a)"
    using assms by (auto simp: readable_def)
  assume "x \<in> fmdom' V"
  then have "x \<in> fmdom' (au_effects a)" using assms by (simp add: readable_def)
  then obtain ef where "fmlookup (au_effects a) x = Some ef" by (rule in_domE)
  then show "\<exists>ef. fmlookup (au_effects a) x = Some ef \<and> (eligible (au_effects a) x \<longleftrightarrow> ef_reason ef = [])"
    by (simp add: eligible_def)
qed

lemma readable_table:
  assumes wf: "subject_wf H V" and spec: "authority_spec H V ix R a"
  shows "\<exists>T. cone_table V (keys V) = Some T \<and> readable V a T"
proof -
  have closed: "causally_closed V" using wf by (rule subject_wfD(2))
  have "cone V x = Some (fmrestrict_set (anc V x) V)" if "x \<in> set (keys V)" for x
    using anc_closed [OF closed] that by (simp add: cone_eq)
  from cone_table_Some [of "keys V", OF this] obtain T where
    T: "cone_table V (keys V) = Some T" "\<And>x. fmlookup T x = (if x \<in> fmdom' V then Some (fmdom' (fmrestrict_set (anc V x) V)) else None)"
    by auto
  have "fmdom' (fmrestrict_set (anc V x) V) = anc V x" if "x \<in> fmdom' V" for x
    using anc_closed [OF closed that] by auto
  moreover have "fmdom' (au_effects a) = fmdom' V" using spec effects_okD(1) by (auto simp: authority_spec_def)
  moreover have "au_active a \<subseteq> fmdom' (au_grants a)" using spec by (auto simp: authority_spec_def)
  ultimately have "readable V a T" using T(2) by (simp add: readable_def)
  with T(1) show ?thesis by blast
qed

lemma subject_frontier_Some:
  assumes r: "readable V a T"
  shows "subject_frontier a T (subject_events V sub) = Some (frontier_of V a sub)"
proof -
  let ?ids = "subject_events V sub" let ?el = "eligible (au_effects a)"
  have dom: "x \<in> fmdom' V" if "x \<in> set ?ids" for x using that events_of_dom subject_events_set by blast
  have "no_reason a x = Some (?el x)" if "x \<in> set ?ids" for x
    using readableD(2) [OF r dom [OF that]] by (auto simp: no_reason_def)
  then have el: "filterM (no_reason a) ?ids = Some (filter ?el ?ids)" by (rule filterM_Some)
  let ?live = "filter ?el ?ids @ filter (\<lambda>r. List.member ?ids r) (sorted_list_of_set (au_effective_revokes a))"
  have live: "set ?live = {x \<in> events_of V sub. ?el x \<or> x \<in> au_effective_revokes a}"
    by (auto simp: subject_events_set)
  then have "consumed T ?live = Some (\<Union>x\<in>set ?live. anc V x - {x})"
    using events_of_dom [of V sub] by (intro consumed_Some readableD(1) [OF r]) auto
  moreover have "set (filter ?el ?ids) - (\<Union>x\<in>set ?live. anc V x - {x}) = frontier_of V a sub"
    unfolding live by (auto simp: frontier_of_def subject_events_set)
  ultimately show ?thesis by (simp add: subject_frontier_def el)
qed

lemma subject_rows_Some:
  assumes r: "readable V a T" and F: "F = frontier_of V a sub" and C: "C = (if F = {} then {} else \<Inter>x\<in>F. anc V x)"
    and ids: "set ids \<subseteq> fmdom' V"
  shows "\<exists>st'. for_each (subject_row a F C) ids st = Some st' \<and>
    (\<forall>x. fmlookup st' x = (if x \<in> set ids then Some (event_view V a sub x) else fmlookup st x))"
proof (rule for_each_rule)
  fix pre x post s
  assume split: "ids = pre @ x # post"
    and I: "\<forall>y. fmlookup s y = (if y \<in> set pre then Some (event_view V a sub y) else fmlookup st y)"
  have "x \<in> fmdom' V" using split ids by auto
  then obtain ef where ef: "fmlookup (au_effects a) x = Some ef" using readableD(2) [OF r] by blast
  have "subject_row a F C x s = Some (fmupd x (event_view V a sub x) s)"
    unfolding subject_row_def event_view_def F [symmetric] C [symmetric] Let_def by (simp add: ef split: prod.split)
  with I show "\<exists>s'. subject_row a F C x s = Some s' \<and>
      (\<forall>y. fmlookup s' y = (if y \<in> set (pre @ [x]) then Some (event_view V a sub y) else fmlookup st y))" by auto
qed simp

section \<open>All subjects\<close>

definition is_genesis :: "corpus \<Rightarrow> hash \<Rightarrow> bool" where
  "is_genesis V sub \<longleftrightarrow> (\<exists>ev. fmlookup V sub = Some ev \<and> payload_kind (payload_of ev) = K_Genesis)"

lemma subject_step_Some:
  assumes r: "readable V a T" and sub: "sub \<in> fmdom' V"
  shows "\<exists>states'. subject_step V a T sub (subs, states) =
      Some (if is_genesis V sub then subs @ [subject_view V a sub] else subs, states') \<and>
    (\<forall>x. fmlookup states' x = (if is_genesis V sub \<and> x \<in> events_of V sub then Some (event_view V a sub x)
      else fmlookup states x))"
proof -
  obtain ev where ev: "fmlookup V sub = Some ev" using sub by (rule in_domE)
  show ?thesis
  proof (cases "is_genesis V sub")
    case True
    define F where "F = frontier_of V a sub"
    define C where "C = (if F = {} then {} else \<Inter>x\<in>F. anc V x)"
    have "F \<subseteq> fmdom' V" using events_of_dom by (auto simp: F_def frontier_of_def)
    then have C: "common_past T F = Some C"
      unfolding C_def by (intro common_past_Some readableD(1) [OF r]) auto
    obtain states' where st: "for_each (subject_row a F C) (subject_events V sub) states = Some states'"
      "\<forall>x. fmlookup states' x = (if x \<in> events_of V sub then Some (event_view V a sub x) else fmlookup states x)"
      using subject_rows_Some [OF r F_def C_def, of "subject_events V sub" states] events_of_dom [of V sub]
      by (auto simp: subject_events_set)
    have "grants_subject a sub g = Some (\<exists>gr. fmlookup (au_grants a) g = Some gr \<and> g_subject gr = sub)"
      if "g \<in> set (sorted_list_of_set (au_active a))" for g
      using that readableD(3) [OF r] by (fastforce simp: grants_subject_def elim: in_domE)
    from anyM_Some [of "sorted_list_of_set (au_active a)", OF this] have "anyM (grants_subject a sub) (sorted_list_of_set (au_active a)) = Some (live_grant a sub)"
      by (auto simp: live_grant_def)
    with True ev C st show ?thesis
      by (auto simp: subject_step_def is_genesis_def subject_frontier_Some [OF r] F_def [symmetric] subject_view_def)
  qed (use ev in \<open>auto simp: subject_step_def is_genesis_def\<close>)
qed

text \<open>The rows of the subject events: every event whose subject is a valid genesis has one.\<close>

lemma subjects_total:
  assumes r: "readable V a T"
  shows "\<exists>states. for_each (subject_step V a T) (keys V) ([], fmempty) =
      Some (map (subject_view V a) (filter (is_genesis V) (keys V)), states) \<and>
    (\<forall>x ev. fmlookup V x = Some ev \<longrightarrow> is_genesis V (subject_or ev x) \<longrightarrow>
      fmlookup states x = Some (event_view V a (subject_or ev x) x)) \<and> fmdom' states \<subseteq> fmdom' V"
proof -
  let ?I = "\<lambda>pre (subs, states). subs = map (subject_view V a) (filter (is_genesis V) pre) \<and>
    (\<forall>x ev. fmlookup V x = Some ev \<longrightarrow> is_genesis V (subject_or ev x) \<longrightarrow> subject_or ev x \<in> set pre \<longrightarrow>
      fmlookup states x = Some (event_view V a (subject_or ev x) x)) \<and> fmdom' states \<subseteq> fmdom' V"
  have "\<exists>s. for_each (subject_step V a T) (keys V) ([], fmempty) = Some s \<and> ?I (keys V) s"
  proof (rule for_each_rule)
    fix pre sub post s
    assume split: "keys V = pre @ sub # post" and I: "?I pre s"
    obtain subs states where s: "s = (subs, states)" by (cases s)
    have "sub \<in> set (keys V)" by (simp add: split)
    then have "sub \<in> fmdom' V" by simp
    from subject_step_Some [OF r this, of subs states] obtain states' where
      run: "subject_step V a T sub (subs, states) =
        Some (if is_genesis V sub then subs @ [subject_view V a sub] else subs, states')"
      and look: "\<And>x. fmlookup states' x = (if is_genesis V sub \<and> x \<in> events_of V sub then Some (event_view V a sub x)
        else fmlookup states x)" by blast
    have "x \<in> fmdom' V" if "x \<in> fmdom' states'" for x
    proof -
      from that obtain v where "fmlookup states' x = Some v" by (rule in_domE)
      then have "x \<in> events_of V sub \<or> x \<in> fmdom' states" using look [of x] fmdom'I by (fastforce split: if_splits)
      then show ?thesis using I s events_of_dom by auto
    qed
    then have "fmdom' states' \<subseteq> fmdom' V" by blast
    moreover have "fmlookup states' x = Some (event_view V a (subject_or ev x) x)"
      if x: "fmlookup V x = Some ev" "is_genesis V (subject_or ev x)" "subject_or ev x \<in> set (pre @ [sub])" for x ev
      using x I s look [of x] by (cases "subject_or ev x = sub") (auto simp: events_of_def)
    ultimately show "\<exists>s'. subject_step V a T sub s = Some s' \<and> ?I (pre @ [sub]) s'"
      using run I s by auto
  qed simp
  then obtain s where s: "for_each (subject_step V a T) (keys V) ([], fmempty) = Some s" "?I (keys V) s" by blast
  obtain subs states where "s = (subs, states)" by (cases s)
  with s show ?thesis by (intro exI [of _ states]) (auto simp: is_genesis_def dest: fmdom'I)
qed

end
