(* ===== verification/Edge_Readings.thy ===== *)
theory Edge_Readings
  imports Frontiers
begin

text \<open>
  What the projection computes of edges and media, and that \<open>project\<close> as a whole ends without a
  panic on every corpus.
\<close>

section \<open>Every valid event belongs to a valid genesis\<close>

lemma classified_lookup:
  assumes c: "classified H kok cands out V o1 s" and ev: "fmlookup V eid = Some ev"
  shows "fmlookup cands eid = Some ev" "is_subject ev"
proof -
  from ev obtain st where st: "fmlookup cands eid = Some ev" "fmlookup o1 eid = Some st"
    unfolding classifiedD(3) [OF c] valid_part_lookup by blast
  then have "eid \<in> set (subject_ids cands)" using fmdom'I [OF st(2)] classifiedD(2) [OF c] by simp
  with st show "fmlookup cands eid = Some ev" "is_subject ev" by (auto simp: subject_ids_iff)
qed

lemma subject_root:
  assumes c: "classified H kok cands out V o1 s" and ev: "fmlookup V eid = Some ev"
  shows "is_genesis V (subject_or ev eid)"
  using ev
proof (induction eid arbitrary: ev rule: wf_induct_rule [OF subject_wfD(3) [OF classifiedD(4) [OF c]]])
  case (1 eid)
  have ev: "fmlookup cands eid = Some ev" "is_subject ev" using classified_lookup [OF c "1.prems"] .
  then have adm: "admissible H kok cands V ev" using classified_subject(2) [OF c ev] fmdom'I [OF "1.prems"] by blast
  show ?case
  proof (cases "payload_kind (payload_of ev) = K_Genesis")
    case True
    then have "subject_or ev eid = eid" using adm by (simp add: admissible_def Let_def genesis_header_def subject_or_def)
    with True "1.prems" show ?thesis by (simp add: is_genesis_def)
  next
    case False
    then have acc: "lineage_accepts cands V (envelope_of ev)" "parents_of ev \<noteq> []"
      using adm by (simp_all add: admissible_def Let_def)
    then obtain p ps where p: "parents_of ev = p # ps" by (cases "parents_of ev") auto
    obtain sub where sub: "env_subject (envelope_of ev) = Some sub"
      and same: "\<And>pev. fmlookup cands p = Some pev \<Longrightarrow>
        (if payload_kind (payload_of pev) = K_Genesis then Some p else env_subject (envelope_of pev)) = Some sub"
      using acc(1) p unfolding lineage_accepts_def by (metis list.set_intros(1))
    have acc: "set (parents_of ev) \<subseteq> fmdom' V" using acc(1) unfolding lineage_accepts_def by blast
    have "p \<in> fmdom' V" using acc p by simp
    then obtain pev where pev: "fmlookup V p = Some pev" by (rule in_domE)
    then have cands: "fmlookup cands p = Some pev" using classifiedD(3) [OF c] by (simp add: valid_part_lookup)
    have "(p, eid) \<in> parent_rel V" using "1.prems" p by (auto simp: parent_rel_def)
    from "1.IH" [OF this pev] same [OF cands] pev sub show ?thesis
      by (auto simp: subject_or_def is_genesis_def split: if_splits)
  qed
qed

section \<open>The history and the heads of an edge\<close>

definition edge_history :: "corpus \<Rightarrow> statuses \<Rightarrow> hash \<Rightarrow> hash set" where
  "edge_history cands out edge = {c. \<exists>ev. fmlookup cands c = Some ev \<and> is_valid out c \<and> edge_of c ev = Some edge}"

definition edge_heads :: "corpus \<Rightarrow> statuses \<Rightarrow> hash \<Rightarrow> hash set" where
  "edge_heads cands out edge = {c \<in> edge_history cands out edge.
     \<nexists>x. x \<in> edge_history cands out edge \<and> x \<noteq> c \<and> c \<in> anc cands x}"

lemma history_edge_event: "c \<in> edge_history cands out edge \<Longrightarrow> edge_event cands c \<and> is_valid out c"
  using edge_of_event by (fastforce simp: edge_history_def)

lemma history_parents:
  assumes c: "classified H kok cands out V o1 s" and x: "x \<in> edge_history cands out edge"
    and ev: "fmlookup cands x = Some ev" and p: "p \<in> set (parents_of ev)"
  shows "p \<in> edge_history cands out edge"
proof (cases "payload_of ev")
  case (EdgeAssert rel ps d)
  have "is_valid out x" using x by (auto simp: edge_history_def)
  with valid_assert(2) [OF c ev EdgeAssert] p show ?thesis by simp
next
  case (EdgeReaffirm e old new d)
  then have "e = edge" "is_valid out x" using x ev by (auto simp: edge_history_def edge_of_def)
  with valid_reaffirm(2) [OF c ev EdgeReaffirm] p show ?thesis by (auto simp: edge_history_def)
qed (use x ev in \<open>auto simp: edge_history_def edge_of_def\<close>)

lemma history_anc:
  assumes c: "classified H kok cands out V o1 s" and x: "x \<in> edge_history cands out edge"
  shows "anc cands x \<subseteq> edge_history cands out edge"
proof
  fix y assume "y \<in> anc cands x"
  then show "y \<in> edge_history cands out edge"
    by (induction rule: anc_induct) (use x history_parents [OF c] in blast)+
qed

lemma history_cone:
  assumes c: "classified H kok cands out V o1 s" and x: "x \<in> edge_history cands out edge"
  shows "cone cands x = Some (fmrestrict_set (anc cands x) cands)" "fmdom' (fmrestrict_set (anc cands x) cands) = anc cands x"
proof -
  have "anc cands x \<subseteq> fmdom' cands" using history_anc [OF c x] by (auto simp: edge_history_def intro: fmdom'I)
  then show "cone cands x = Some (fmrestrict_set (anc cands x) cands)" "fmdom' (fmrestrict_set (anc cands x) cands) = anc cands x"
    by (auto simp: cone_eq)
qed

lemma edge_heads_nonempty:
  assumes c: "classified H kok cands out V o1 s" and x: "x \<in> edge_history cands out edge"
  shows "edge_heads cands out edge \<noteq> {}"
proof -
  obtain rank :: "hash \<Rightarrow> nat" where rank: "\<And>e ev p. fmlookup cands e = Some ev \<Longrightarrow> edge_event cands e \<Longrightarrow>
      is_valid out e \<Longrightarrow> p \<in> set (parents_of ev) \<Longrightarrow> rank p < rank e"
    using edge_invD(5) [OF classifiedD(13) [OF c]] unfolding edge_ranked_def by blast
  let ?hist = "edge_history cands out edge"
  have strict: "y = z \<or> rank y < rank z" if z: "z \<in> ?hist" and y: "y \<in> anc cands z" for y z
    using y
  proof (induction rule: anc_induct)
    case (step y ev p)
    then have "y \<in> ?hist" using history_anc [OF c z] by blast
    then have "rank p < rank y" using rank [OF step(2) _ _ step(3)] history_edge_event by blast
    with step(4) show ?case by auto
  qed simp
  define m where "m = Max (rank ` ?hist)"
  have "m \<in> rank ` ?hist" unfolding m_def using x by (intro Max_in) auto
  then obtain h where h: "h \<in> ?hist" "rank h = m" by blast
  have top: "rank y \<le> rank h" if "y \<in> ?hist" for y unfolding h(2) m_def using that by (intro Max_ge) auto
  have "h \<in> edge_heads cands out edge" using h(1) strict top by (fastforce simp: edge_heads_def)
  then show ?thesis by blast
qed

lemma history_pins:
  assumes c: "classified H kok cands out V o1 s" and x: "x \<in> edge_history cands out edge"
  shows "\<exists>ev ps. fmlookup cands x = Some ev \<and> pins_of ev = Some ps \<and> pin_ok H V (pins_source ps) \<and> pin_ok H V (pins_target ps)"
proof -
  from x obtain ev where ev: "fmlookup cands x = Some ev" "is_valid out x" "edge_of x ev = Some edge"
    by (auto simp: edge_history_def)
  show ?thesis
  proof (cases "payload_of ev")
    case (EdgeAssert rel ps d)
    with valid_assert(6,7) [OF c ev(1) EdgeAssert ev(2)] ev show ?thesis by (simp add: pins_of_def)
  next
    case (EdgeReaffirm e old new d)
    with valid_reaffirm(4,5) [OF c ev(1) EdgeReaffirm ev(2)] ev show ?thesis by (simp add: pins_of_def)
  qed (use ev in \<open>auto simp: edge_of_def\<close>)
qed

section \<open>Pins against the current reading\<close>

text \<open>
  A pin is current when its subject has a single frontier event which builds on the pinned basis
  and selects the pinned revision, and no revision was created since the basis.
\<close>

definition creates :: "corpus \<Rightarrow> hash \<Rightarrow> bool" where
  "creates V eid \<longleftrightarrow> (\<exists>ev. fmlookup V eid = Some ev \<and> payload_kind (payload_of ev) \<noteq> K_Genesis \<and>
     created_body (payload_of ev) \<noteq> None)"

definition pin_current :: "(byte list \<Rightarrow> hash) \<Rightarrow> corpus \<Rightarrow> authority \<Rightarrow> pin \<Rightarrow> bool" where
  "pin_current H V a pn \<longleftrightarrow> (\<exists>h sel. frontier_of V a (pin_subject pn) = {h} \<and> pin_basis pn \<in> anc V h \<and>
     selections H V = Some sel \<and> fmlookup sel h = Some (pin_revision pn) \<and>
     (\<forall>x. x \<in> anc V h \<longrightarrow> x \<notin> anc V (pin_basis pn) \<longrightarrow> \<not> creates V x))"

lemma creates_revision_Some: "x \<in> fmdom' V \<Longrightarrow> creates_revision V x = Some (creates V x)"
proof -
  assume "x \<in> fmdom' V"
  then obtain ev where ev: "fmlookup V x = Some ev" by (rule in_domE)
  show ?thesis
  proof (cases "payload_of ev")
    case (Resolve s ds d)
    with ev show ?thesis by (cases s) (simp_all add: creates_revision_def creates_def)
  qed (use ev in \<open>simp_all add: creates_revision_def creates_def\<close>)
qed

lemma endpoint_Some:
  assumes r: "readable V a T" and closed: "causally_closed V" and s: "su_valid s = V" "selections H V = Some (su_selected s)"
    and sel: "fmdom' (su_selected s) = fmdom' V" and pn: "pin_ok H V pn"
    and look: "fmlookup readings (pin_subject pn) = Some (subject_view V a (pin_subject pn))"
  shows "\<exists>r. endpoint readings s T pn = Some r \<and> (r = None \<longleftrightarrow> pin_current H V a pn)"
proof -
  let ?F = "frontier_of V a (pin_subject pn)"
  have basis: "pin_basis pn \<in> fmdom' V" using pn by (auto simp: pin_ok_def intro: fmdom'I)
  consider "card ?F = 0" | "card ?F > 1" | h where "?F = {h}" by (metis card_1_singletonE less_one linorder_neqE_nat)
  then show ?thesis
  proof cases
    case 3
    then have "h \<in> frontier_of V a (pin_subject pn)" by simp
    then have h: "h \<in> fmdom' V" using events_of_dom unfolding frontier_of_def by blast
    then have past: "anc V h \<subseteq> fmdom' V" using anc_closed [OF closed] by blast
    obtain q where q: "fmlookup (su_selected s) h = Some q" using h sel by (auto elim: in_domE)
    have "creates_revision (su_valid s) x = Some (creates V x)"
      if "x \<in> set (sorted_list_of_set (anc V h - anc V (pin_basis pn)))" for x
      using that past s(1) creates_revision_Some by auto
    from anyM_Some [of "sorted_list_of_set (anc V h - anc V (pin_basis pn))", OF this]
    have created: "anyM (creates_revision (su_valid s)) (sorted_list_of_set (anc V h - anc V (pin_basis pn))) =
        Some (\<exists>x. x \<in> anc V h \<and> x \<notin> anc V (pin_basis pn) \<and> creates V x)" by auto
    show ?thesis using 3 q created s(2) look readableD(1) [OF r h] readableD(1) [OF r basis]
      by (auto simp: endpoint_def subject_view_def frontier_state_def pin_current_def)
  qed (use look in \<open>auto simp: endpoint_def subject_view_def frontier_state_def pin_current_def\<close>)
qed

section \<open>Edge readings\<close>

definition edge_view :: "(byte list \<Rightarrow> hash) \<Rightarrow> corpus \<Rightarrow> statuses \<Rightarrow> corpus \<Rightarrow> authority \<Rightarrow> edge_reading \<Rightarrow> bool" where
  "edge_view H cands out V a e \<longleftrightarrow> (\<exists>ev rel ps d. fmlookup cands (ed_edge e) = Some ev \<and> is_valid out (ed_edge e) \<and>
     payload_of ev = EdgeAssert rel ps d \<and> ed_author e = env_author (envelope_of ev) \<and> ed_relation e = rel \<and>
     ed_evidence e = dec_evidence d \<and> ed_heads e = edge_heads cands out (ed_edge e) \<and>
     ed_history e = edge_history cands out (ed_edge e) \<and>
     mapM (\<lambda>h. fmlookup cands h \<bind> pins_of) (sorted_list_of_set (ed_heads e)) = Some (ed_pins e) \<and> ed_pins e \<noteq> [] \<and>
     (\<forall>p\<in>set (ed_pins e). pin_ok H V (pins_source p) \<and> pin_ok H V (pins_target p)) \<and>
     (ed_status e = ''current'' \<longleftrightarrow> (\<exists>p. ed_pins e = [p] \<and> pin_current H V a (pins_source p) \<and> pin_current H V a (pins_target p))))"

text \<open>What the edge loop reads: the subjects, their readings and the cones.\<close>

definition edge_context :: "(byte list \<Rightarrow> hash) \<Rightarrow> (hash \<Rightarrow> bool) \<Rightarrow> corpus \<Rightarrow> statuses \<Rightarrow> corpus \<Rightarrow> authority \<Rightarrow> subjects \<Rightarrow>
    (hash, subject_reading) fmap \<Rightarrow> ancestors \<Rightarrow> bool" where
  "edge_context H kok cands out V a s readings T \<longleftrightarrow> (\<exists>o1. classified H kok cands out V o1 s) \<and> readable V a T \<and>
     fmdom' (su_selected s) = fmdom' V \<and>
     (\<forall>sub. is_genesis V sub \<longrightarrow> fmlookup readings sub = Some (subject_view V a sub))"

lemma edge_status_Some:
  assumes ctx: "edge_context H kok cands out V a s readings T" and ps: "ps \<noteq> []" "length ps = card heads"
    and ok: "\<And>p. p \<in> set ps \<Longrightarrow> pin_ok H V (pins_source p) \<and> pin_ok H V (pins_target p)"
  shows "\<exists>status reasons. edge_status readings s T heads ps = Some (status, reasons) \<and> (status = ''current'' \<longleftrightarrow>
    (\<exists>p. ps = [p] \<and> pin_current H V a (pins_source p) \<and> pin_current H V a (pins_target p)))"
proof (cases "card heads > 1")
  case True
  with ps show ?thesis by (auto simp: edge_status_def)
next
  case False
  then obtain p where p: "ps = [p]" using ps by (cases ps; cases "tl ps") auto
  from ctx obtain o1 where c: "classified H kok cands out V o1 s" and r: "readable V a T"
    and sel: "fmdom' (su_selected s) = fmdom' V"
    and look: "\<And>sub. is_genesis V sub \<Longrightarrow> fmlookup readings sub = Some (subject_view V a sub)"
    by (auto simp: edge_context_def)
  have end_ok: "\<exists>r. endpoint readings s T pn = Some r \<and> (r = None \<longleftrightarrow> pin_current H V a pn)" if pn: "pin_ok H V pn" for pn
  proof -
    from pn obtain ev where "fmlookup V (pin_basis pn) = Some ev" "subject_or ev (pin_basis pn) = pin_subject pn"
      by (auto simp: pin_ok_def)
    then have "is_genesis V (pin_subject pn)" using subject_root [OF c] by metis
    from endpoint_Some [OF r subject_wfD(2) [OF classifiedD(4) [OF c]] classifiedD(7,9) [OF c] sel pn look [OF this]]
    show ?thesis .
  qed
  obtain a1 a2 where "endpoint readings s T (pins_source p) = Some a1" "a1 = None \<longleftrightarrow> pin_current H V a (pins_source p)"
    "endpoint readings s T (pins_target p) = Some a2" "a2 = None \<longleftrightarrow> pin_current H V a (pins_target p)"
    using end_ok ok p by (metis list.set_intros(1))
  then show ?thesis using False p by (auto simp: edge_status_def side_reason_def split: option.splits)
qed

lemma valid_at_Some: "eid \<in> fmdom' out \<Longrightarrow> valid_at out eid = Some (is_valid out eid)"
  by (auto simp: valid_at_def is_valid_def elim!: in_domE)

text \<open>The values that the loop body computes for a valid assertion.\<close>

lemma edge_parts:
  assumes c: "classified H kok cands out V o1 s" and eid: "eid \<in> edge_history cands out eid"
  obtains hist C used common ps where "filterM (edge_member cands out eid) (keys cands) = Some hist"
    "set hist = edge_history cands out eid" "cone_table cands hist = Some C" "consumed C hist = Some used"
    "set hist - used = edge_heads cands out eid" "common_past C (edge_heads cands out eid) = Some common"
    "mapM (\<lambda>h. fmlookup cands h \<bind> pins_of) (sorted_list_of_set (edge_heads cands out eid)) = Some ps"
    "ps \<noteq> []" "length ps = card (edge_heads cands out eid)"
    "\<forall>p\<in>set ps. pin_ok H V (pins_source p) \<and> pin_ok H V (pins_target p)"
proof -
  let ?hist = "edge_history cands out eid" and ?heads = "edge_heads cands out eid"
  define hist where "hist = filter (\<lambda>c. c \<in> ?hist) (keys cands)"
  have set_hist: "set hist = ?hist" by (auto simp: hist_def edge_history_def intro: fmdom'I)
  have "edge_member cands out eid x = Some (x \<in> ?hist)" if "x \<in> set (keys cands)" for x
    using that classifiedD(1) [OF c] by (auto simp: edge_member_def valid_at_Some edge_history_def elim!: in_domE)
  then have hist: "filterM (edge_member cands out eid) (keys cands) = Some hist"
    unfolding hist_def by (rule filterM_Some)
  have "cone cands x = Some (fmrestrict_set (anc cands x) cands)" if "x \<in> set hist" for x
    using that history_cone(1) [OF c] set_hist by blast
  from cone_table_Some [of hist, OF this] obtain C where C: "cone_table cands hist = Some C"
    "\<And>x. fmlookup C x = (if x \<in> set hist then Some (fmdom' (fmrestrict_set (anc cands x) cands)) else None)"
    by auto
  then have look: "fmlookup C x = Some (anc cands x)" if "x \<in> set hist" for x
    using that history_cone(2) [OF c] set_hist by simp
  then have used: "consumed C hist = Some (\<Union>x\<in>set hist. anc cands x - {x})" by (rule consumed_Some)
  have heads: "set hist - (\<Union>x\<in>set hist. anc cands x - {x}) = ?heads"
    unfolding set_hist by (auto simp: edge_heads_def)
  then have sub: "?heads \<subseteq> set hist" by blast
  then obtain common where common: "common_past C ?heads = Some common"
    using common_past_Some [of ?heads C "anc cands"] look by auto
  define f where "f h = the (fmlookup cands h \<bind> pins_of)" for h
  have f: "fmlookup cands h \<bind> pins_of = Some (f h) \<and> pin_ok H V (pins_source (f h)) \<and> pin_ok H V (pins_target (f h))"
    if "h \<in> ?heads" for h
  proof -
    have "h \<in> ?hist" using that sub set_hist by blast
    from history_pins [OF c this] show ?thesis by (auto simp: f_def)
  qed
  have "mapM (\<lambda>h. fmlookup cands h \<bind> pins_of) (sorted_list_of_set ?heads) = Some (map f (sorted_list_of_set ?heads))"
    using f by (intro mapM_Some) simp
  with hist set_hist C(1) used heads common f edge_heads_nonempty [OF c eid] show thesis
    by (intro that [of hist C _ common "map f (sorted_list_of_set ?heads)"]) auto
qed

definition valid_edge :: "corpus \<Rightarrow> statuses \<Rightarrow> hash \<Rightarrow> bool" where
  "valid_edge cands out eid \<longleftrightarrow> is_valid out eid \<and>
     (\<exists>ev. fmlookup cands eid = Some ev \<and> payload_kind (payload_of ev) = K_EdgeAssert)"

lemma edge_reading_step_Some:
  assumes ctx: "edge_context H kok cands out V a s readings T" and eid: "eid \<in> fmdom' cands"
    and I: "\<forall>e\<in>set edges. edge_view H cands out V a e"
  shows "\<exists>edges' rows'. edge_reading_step cands out s readings T eid (edges, rows) = Some (edges', rows') \<and>
    (\<forall>e\<in>set edges'. edge_view H cands out V a e) \<and>
    map ed_edge edges' = map ed_edge edges @ (if valid_edge cands out eid then [eid] else [])"
proof -
  obtain ev where ev: "fmlookup cands eid = Some ev" using eid by (rule in_domE)
  from ctx obtain o1 where c: "classified H kok cands out V o1 s" by (auto simp: edge_context_def)
  note dom = classifiedD(1) [OF c]
  show ?thesis
  proof (cases "\<exists>rel ps d. payload_of ev = EdgeAssert rel ps d \<and> is_valid out eid")
    case True
    then obtain rel ps d where p: "payload_of ev = EdgeAssert rel ps d" and valid: "is_valid out eid" by blast
    then have mem: "eid \<in> edge_history cands out eid" using ev by (simp add: edge_history_def edge_of_def)
    obtain hist C used common pl where h: "filterM (edge_member cands out eid) (keys cands) = Some hist"
      "set hist = edge_history cands out eid" "cone_table cands hist = Some C" "consumed C hist = Some used"
      "set hist - used = edge_heads cands out eid" "common_past C (edge_heads cands out eid) = Some common"
      "mapM (\<lambda>h. fmlookup cands h \<bind> pins_of) (sorted_list_of_set (edge_heads cands out eid)) = Some pl"
      "pl \<noteq> []" "length pl = card (edge_heads cands out eid)"
      "\<forall>p\<in>set pl. pin_ok H V (pins_source p) \<and> pin_ok H V (pins_target p)"
      using c mem by (rule edge_parts)
    obtain st rs where st: "edge_status readings s T (edge_heads cands out eid) pl = Some (st, rs)"
      "st = ''current'' \<longleftrightarrow> (\<exists>p. pl = [p] \<and> pin_current H V a (pins_source p) \<and> pin_current H V a (pins_target p))"
      using edge_status_Some [OF ctx h(8,9)] h(10) by blast
    define e where "e = \<lparr>ed_edge = eid, ed_author = env_author (envelope_of ev), ed_relation = rel,
      ed_evidence = dec_evidence d, ed_heads = edge_heads cands out eid, ed_pins = pl,
      ed_history = edge_history cands out eid, ed_status = st, ed_reasons = rs\<rparr>"
    have "edge_view H cands out V a e"
      unfolding edge_view_def e_def edge_reading.simps using ev valid p h(7,8,10) st(2) by blast
    moreover have "valid_at out eid = Some True" using valid_at_Some eid dom valid by simp
    then have "edge_reading_step cands out s readings T eid (edges, rows) =
        Some (edges @ [e], fold (edge_row (edge_heads cands out eid) common) hist rows)"
      using h(2) by (simp add: edge_reading_step_def ev p h(1,3,4,6,7) h(5) [unfolded h(2)] st(1) Let_def e_def)
    ultimately show ?thesis using I ev p valid by (simp add: valid_edge_def e_def)
  next
    case False
    then have "\<not> valid_edge cands out eid" using ev by (cases "payload_of ev") (auto simp: valid_edge_def)
    with False ev I eid dom show ?thesis by (cases "payload_of ev") (auto simp: edge_reading_step_def valid_at_Some)
  qed
qed

section \<open>Media readings\<close>

text \<open>A media reading names the attested revision or the revision that the attested event created, and its body.\<close>

definition media_view :: "(byte list \<Rightarrow> hash) \<Rightarrow> corpus \<Rightarrow> statuses \<Rightarrow> corpus \<Rightarrow> media_reading \<Rightarrow> bool" where
  "media_view H cands out V m \<longleftrightarrow> is_valid out (me_attestation m) \<and>
     (\<exists>ev. fmlookup cands (me_attestation m) = Some ev \<and> me_author m = env_author (envelope_of ev) \<and>
        payload_of ev = Attestation (me_target_kind m) (me_target m) (me_artifact_kind m) (me_artifact m)) \<and>
     (case me_revision m of None \<Rightarrow> me_target_kind m = T_Event \<and> me_body m = None
      | Some r \<Rightarrow> (\<exists>rv. fmlookup (revisions H V) r = Some rv \<and> me_body m = Some (rv_body rv)) \<and>
          (if me_target_kind m = T_Revision then r = me_target m
           else \<exists>ev. fmlookup V (me_target m) = Some ev \<and> r = revision_id H (subject_or ev (me_target m)) (me_target m)))"

definition valid_media :: "corpus \<Rightarrow> statuses \<Rightarrow> hash \<Rightarrow> bool" where
  "valid_media cands out eid \<longleftrightarrow> is_valid out eid \<and>
     (\<exists>ev. fmlookup cands eid = Some ev \<and> payload_kind (payload_of ev) = K_Attestation)"

lemma media_step_Some:
  assumes c: "classified H kok cands out V o1 s" and eid: "eid \<in> fmdom' cands"
    and I: "\<forall>m\<in>set media. media_view H cands out V m"
  shows "\<exists>media' rows'. media_step H cands out s eid (media, rows) = Some (media', rows') \<and>
    (\<forall>m\<in>set media'. media_view H cands out V m) \<and>
    map me_attestation media' = map me_attestation media @ (if valid_media cands out eid then [eid] else [])"
proof -
  obtain ev where ev: "fmlookup cands eid = Some ev" using eid by (rule in_domE)
  have at: "valid_at out eid = Some (is_valid out eid)" using valid_at_Some eid classifiedD(1) [OF c] by simp
  show ?thesis
  proof (cases "\<exists>tk t ak h. payload_of ev = Attestation tk t ak h \<and> is_valid out eid")
    case True
    then obtain tk t ak h where p: "payload_of ev = Attestation tk t ak h" and valid: "is_valid out eid" by blast
    note tgt = valid_attestation [OF c ev p valid]
    have vm: "valid_media cands out eid" using ev p valid by (simp add: valid_media_def)
    show ?thesis
    proof (cases "media_revision H s tk t")
      case None
      then have "tk = T_Event" by (cases tk) (auto simp: media_revision_def)
      with None show ?thesis using I ev at p valid vm by (auto simp: media_step_def media_view_def)
    next
      case (Some r)
      then have "r \<in> fmdom' (revisions H V) \<and> (if tk = T_Revision then r = t
          else \<exists>ev. fmlookup V t = Some ev \<and> r = revision_id H (subject_or ev t) t)"
        using tgt classifiedD(7,8) [OF c]
        by (cases tk) (auto simp: media_revision_def has_iff Let_def split: bind_splits if_splits)
      moreover from this obtain rv where "fmlookup (revisions H V) r = Some rv" by (auto elim: in_domE)
      ultimately show ?thesis using I ev at p valid vm Some classifiedD(8) [OF c]
        by (auto simp: media_step_def media_view_def)
    qed
  next
    case False
    then have "\<not> valid_media cands out eid" using ev by (cases "payload_of ev") (auto simp: valid_media_def)
    with False ev I at show ?thesis by (cases "payload_of ev") (auto simp: media_step_def)
  qed
qed

section \<open>The whole projection\<close>

lemma subjects_new_out:
  assumes c: "classified H kok cands out V o1 s"
  shows "subjects_new H cands out = Some s"
proof -
  have "s = \<lparr>su_valid = su_valid s, su_selected = su_selected s, su_revisions = su_revisions s\<rparr>" by (cases s) simp
  then show ?thesis
    using classified_valid_subjects [OF c] classifiedD(7,8,9) [OF c] by (simp add: subjects_new_def)
qed

lemma readings_lookup:
  assumes "is_genesis V sub"
  shows "fmlookup (fmap_of_list (rev (map (\<lambda>r. (sr_subject r, r)) (map (subject_view V a) (filter (is_genesis V) (keys V)))))) sub =
    Some (subject_view V a sub)"
proof -
  have "sub \<in> set (filter (is_genesis V) (keys V))" using assms by (auto simp: is_genesis_def intro: fmdom'I)
  moreover have "rev (map (\<lambda>r. (sr_subject r, r)) (map (subject_view V a) ks)) = map (\<lambda>k. (k, subject_view V a k)) (rev ks)" for ks
    by (simp add: rev_map subject_view_def comp_def)
  ultimately show ?thesis by (simp add: fmap_of_list.rep_eq map_of_map_restrict)
qed

lemma project_edges_Some:
  assumes c: "classified H kok cands out V o1 s" and r: "readable V a T"
  shows "\<exists>edges media rows. project_edges H cands out (map (subject_view V a) (filter (is_genesis V) (keys V))) T =
      Some (edges, media, rows) \<and> (\<forall>e\<in>set edges. edge_view H cands out V a e) \<and>
    map ed_edge edges = filter (valid_edge cands out) (keys cands) \<and> (\<forall>m\<in>set media. media_view H cands out V m) \<and>
    map me_attestation media = filter (valid_media cands out) (keys cands)"
proof -
  define readings where "readings = fmap_of_list (rev (map (\<lambda>r. (sr_subject r, r))
    (map (subject_view V a) (filter (is_genesis V) (keys V)))))"
  have sel: "fmdom' (su_selected s) = fmdom' V"
    using selections_total [OF classifiedD(4) [OF c]] classifiedD(9) [OF c] by auto
  have ctx: "edge_context H kok cands out V a s readings T"
    unfolding edge_context_def using c r sel readings_lookup by (auto simp: readings_def)
  let ?I = "\<lambda>pre (edges, rows :: row_states). (\<forall>e\<in>set edges. edge_view H cands out V a e) \<and>
    map ed_edge edges = filter (valid_edge cands out) pre"
  have "\<exists>st. for_each (edge_reading_step cands out s readings T) (keys cands) ([], fmempty) = Some st \<and> ?I (keys cands) st"
  proof (rule for_each_rule)
    fix pre eid post st assume split: "keys cands = pre @ eid # post" and I: "?I pre st"
    obtain edges rows where st: "st = (edges, rows)" by (cases st)
    have "eid \<in> set (keys cands)" by (simp add: split)
    then have "eid \<in> fmdom' cands" by simp
    from edge_reading_step_Some [OF ctx this, of edges rows] I st obtain edges' rows' where
      run: "edge_reading_step cands out s readings T eid st = Some (edges', rows')"
      and ok: "\<forall>e\<in>set edges'. edge_view H cands out V a e"
        "map ed_edge edges' = map ed_edge edges @ (if valid_edge cands out eid then [eid] else [])" by blast
    have "?I (pre @ [eid]) (edges', rows')" using ok I st by simp
    with run show "\<exists>st'. edge_reading_step cands out s readings T eid st = Some st' \<and> ?I (pre @ [eid]) st'" by blast
  qed simp
  then obtain st where st: "for_each (edge_reading_step cands out s readings T) (keys cands) ([], fmempty) = Some st"
    "?I (keys cands) st" by blast
  obtain edges rows where "st = (edges, rows)" by (cases st)
  with st have e: "for_each (edge_reading_step cands out s readings T) (keys cands) ([], fmempty) = Some (edges, rows)"
    "?I (keys cands) (edges, rows)" by simp_all
  let ?J = "\<lambda>pre (media, rows :: row_states). (\<forall>m\<in>set media. media_view H cands out V m) \<and>
    map me_attestation media = filter (valid_media cands out) pre"
  have "\<exists>st. for_each (media_step H cands out s) (keys cands) ([], rows) = Some st \<and> ?J (keys cands) st"
  proof (rule for_each_rule)
    fix pre eid post st assume split: "keys cands = pre @ eid # post" and I: "?J pre st"
    obtain media rows where st: "st = (media, rows)" by (cases st)
    have "eid \<in> set (keys cands)" by (simp add: split)
    then have "eid \<in> fmdom' cands" by simp
    from media_step_Some [OF c this, of media rows] I st obtain media' rows' where
      run: "media_step H cands out s eid st = Some (media', rows')" and ok: "\<forall>m\<in>set media'. media_view H cands out V m"
        "map me_attestation media' = map me_attestation media @ (if valid_media cands out eid then [eid] else [])" by blast
    have "?J (pre @ [eid]) (media', rows')" using ok I st by simp
    with run show "\<exists>st'. media_step H cands out s eid st = Some st' \<and> ?J (pre @ [eid]) st'" by blast
  qed simp
  then obtain st' where st': "for_each (media_step H cands out s) (keys cands) ([], rows) = Some st'"
    "?J (keys cands) st'" by blast
  obtain media rows' where "st' = (media, rows')" by (cases st')
  with st' e subjects_new_out [OF c] show ?thesis
    unfolding project_edges_def Let_def readings_def [symmetric] by simp
qed

lemma project_cases:
  assumes "distinct_ids H (fmdom' cands)"
  obtains p an V o1 s ix R where "project H kok cands = Some p" "analyze H kok cands = Some an"
    "classified H kok cands (an_admission an) V o1 s" "authority_spec H V ix R (an_authority an)"
    "pj_authority p = an_authority an"
    "pj_subjects p = map (subject_view V (an_authority an)) (filter (is_genesis V) (keys V))"
    "\<forall>e\<in>set (pj_edges p). edge_view H cands (an_admission an) V (an_authority an) e"
    "map ed_edge (pj_edges p) = filter (valid_edge cands (an_admission an)) (keys cands)"
    "\<forall>m\<in>set (pj_media p). media_view H cands (an_admission an) V m"
    "map me_attestation (pj_media p) = filter (valid_media cands (an_admission an)) (keys cands)"
    "map (\<lambda>r. (er_event r, er_envelope r)) (pj_rows p) = map (\<lambda>eid. (eid, envelope_of (the (fmlookup cands eid)))) (keys cands)"
proof -
  obtain an V o1 s ix R where an: "analyze H kok cands = Some an" "classified H kok cands (an_admission an) V o1 s"
    "authority_spec H V ix R (an_authority an)" using assms by (rule analyze_cases)
  let ?out = "an_admission an" and ?a = "an_authority an"
  note c = an(2)
  obtain T where T: "cone_table V (keys V) = Some T" "readable V ?a T"
    using readable_table [OF classifiedD(4) [OF c] an(3)] by blast
  obtain states where sub: "for_each (subject_step V ?a T) (keys V) ([], fmempty) =
      Some (map (subject_view V ?a) (filter (is_genesis V) (keys V)), states)" using subjects_total [OF T(2)] by blast
  obtain edges media rows where e: "project_edges H cands ?out (map (subject_view V ?a) (filter (is_genesis V) (keys V))) T =
      Some (edges, media, rows)" "\<forall>e\<in>set edges. edge_view H cands ?out V ?a e"
    "map ed_edge edges = filter (valid_edge cands ?out) (keys cands)" "\<forall>m\<in>set media. media_view H cands ?out V m"
    "map me_attestation media = filter (valid_media cands ?out) (keys cands)"
    using project_edges_Some [OF c T(2)] by blast
  define row where "row eid = the (fmlookup cands eid \<bind>
    event_row ?out ?a (su_selected s) (states ++\<^sub>f rows) eid)" for eid
  have row: "fmlookup cands eid \<bind> event_row ?out ?a (su_selected s) (states ++\<^sub>f rows) eid = Some (row eid) \<and>
      er_event (row eid) = eid \<and> er_envelope (row eid) = envelope_of (the (fmlookup cands eid))"
    if "eid \<in> set (keys cands)" for eid
  proof -
    have "eid \<in> fmdom' cands" "eid \<in> fmdom' ?out" using that classifiedD(1) [OF c] by simp_all
    then obtain ev st where "fmlookup cands eid = Some ev" "fmlookup ?out eid = Some st" by (meson in_domE)
    then show ?thesis by (simp add: row_def event_row_def split: prod.split)
  qed
  then have rows: "mapM (\<lambda>eid. fmlookup cands eid \<bind> event_row ?out ?a (su_selected s) (states ++\<^sub>f rows) eid) (keys cands) =
      Some (map row (keys cands))" by (intro mapM_Some) blast
  show thesis
  proof (rule that [OF _ an])
    show "project H kok cands = Some \<lparr>pj_rows = map row (keys cands),
        pj_revisions = map (\<lambda>r. the (fmlookup (revisions H V) r)) (keys (revisions H V)),
        pj_subjects = map (subject_view V ?a) (filter (is_genesis V) (keys V)), pj_authority = ?a,
        pj_edges = edges, pj_media = media\<rparr>"
      unfolding project_def by (simp add: an(1) classified_valid_subjects [OF c] classifiedD(9) [OF c] T(1) sub e(1) rows)
  qed (use e row in simp_all)
qed

end
