(* ===== verification/Support.thy ===== *)
theory Support
  imports Projection "HOL-Library.Product_Lexorder" "HOL-Library.List_Lexorder" "HOL-Library.Char_ord"
begin

text \<open>
  The support graph over the current, trusted edges and its bounded path query
  (\<open>support_graph\<close>, \<open>SupportGraph::neighbors\<close> and \<open>SupportGraph::query\<close> of
  \<^verbatim>\<open>crates/cc-ledger/src/v1/edges.rs\<close>).
\<close>

section \<open>Neighbors\<close>

text \<open>The derived order of \<open>Neighbor\<close> compares the fields in turn.\<close>

datatype neighbor = Neighbor (nb_subject: hash) (nb_edge: hash) (nb_relation: string)

definition neighbor_key :: "neighbor \<Rightarrow> hash \<times> hash \<times> string" where
  "neighbor_key n = (nb_subject n, nb_edge n, nb_relation n)"

instantiation neighbor :: linorder
begin
definition less_eq_neighbor_eq: "a \<le> b \<longleftrightarrow> neighbor_key a \<le> neighbor_key b"
definition less_neighbor_eq: "a < b \<longleftrightarrow> neighbor_key a < neighbor_key b"
instance
proof
  fix a b :: neighbor
  show "a \<le> b \<Longrightarrow> b \<le> a \<Longrightarrow> a = b"
    by (cases a; cases b) (auto simp: less_eq_neighbor_eq neighbor_key_def dest: antisym)
qed (auto simp: less_eq_neighbor_eq less_neighbor_eq)
end

record exclusion =
  ex_edge :: hash
  ex_event :: hash
  ex_source :: hash
  ex_target :: hash
  ex_reasons :: "string list"

record reason =
  re_code :: string
  re_subject :: "hash option"
  re_edge :: "hash option"

datatype support = Supported "hash list" "reason list" | Unsupported "reason list"

record support_graph =
  gr_neighbors :: "(hash, neighbor fset) fmap"
  gr_excluded :: "exclusion list"
  gr_subjects :: "(hash, string) fmap"

section \<open>Building the graph\<close>

definition graph_authors :: "projection \<Rightarrow> (hash, hash) fmap" where
  "graph_authors p = fold (\<lambda>r. fmupd (er_event r) (env_author (er_envelope r))) (pj_rows p) fmempty"

definition graph_subject :: "hash set \<Rightarrow> (hash, hash) fmap \<Rightarrow> subject_reading \<Rightarrow> (hash, string) fmap \<Rightarrow> (hash, string) fmap option" where
  "graph_subject curators authors s m = do {
     author \<leftarrow> fmlookup authors (sr_subject s);
     Some (fmupd (sr_subject s) (if author \<in> curators then sr_state s else ''untrusted_origin'') m)}"

definition origin_reason :: "hash set \<Rightarrow> (hash, hash) fmap \<Rightarrow> string \<times> hash \<Rightarrow> string list option" where
  "origin_reason curators authors = (\<lambda>(side, subject). do {
     author \<leftarrow> fmlookup authors subject;
     Some (if author \<notin> curators then [side @ '':untrusted_origin''] else [])})"

definition edge_reasons :: "hash set \<Rightarrow> (hash, hash) fmap \<Rightarrow> edge_reading \<Rightarrow> hash \<times> hash \<Rightarrow> string list option" where
  "edge_reasons curators authors e ends = do {
     origins \<leftarrow> mapM (origin_reason curators authors) [(''source'', fst ends), (''target'', snd ends)];
     Some ((if ed_status e \<noteq> ''current'' then ed_status e # filter (\<lambda>r. r \<noteq> ed_status e) (ed_reasons e) else []) @
       (if ed_relation e = ''disputes'' then [''disputes_not_support''] else []) @
       (if ed_author e \<notin> curators then [''untrusted_edge_author''] else []) @ concat origins)}"

definition neighbors_at :: "(hash, neighbor fset) fmap \<Rightarrow> hash \<Rightarrow> neighbor fset" where
  "neighbors_at m a = (case fmlookup m a of None \<Rightarrow> {||} | Some ns \<Rightarrow> ns)"

definition add_neighbor :: "edge_reading \<Rightarrow> hash \<times> hash \<Rightarrow> (hash, neighbor fset) fmap \<Rightarrow> (hash, neighbor fset) fmap" where
  "add_neighbor e = (\<lambda>(a, b) m. fmupd a (finsert (Neighbor b (ed_edge e) (ed_relation e)) (neighbors_at m a)) m)"

definition graph_edge :: "hash set \<Rightarrow> (hash, hash) fmap \<Rightarrow> edge_reading \<Rightarrow> support_graph \<Rightarrow> support_graph option" where
  "graph_edge curators authors e g = (case ed_pins e of [] \<Rightarrow> None | p # _ \<Rightarrow> do {
     let ends = (pin_subject (pins_source p), pin_subject (pins_target p));
     reasons \<leftarrow> edge_reasons curators authors e ends;
     Some (if reasons = []
       then g\<lparr>gr_neighbors := fold (add_neighbor e) [ends, (snd ends, fst ends)] (gr_neighbors g)\<rparr>
       else g\<lparr>gr_excluded := gr_excluded g @ [\<lparr>ex_edge = ed_edge e, ex_event = ed_edge e, ex_source = fst ends,
         ex_target = snd ends, ex_reasons = reasons\<rparr>]\<rparr>)})"

definition row_exclusion :: "event_reading \<Rightarrow> exclusion list" where
  "row_exclusion r =
     (let excl = (\<lambda>state edge ps. [\<lparr>ex_edge = edge, ex_event = er_event r, ex_source = pin_subject (pins_source ps),
        ex_target = pin_subject (pins_target ps), ex_reasons = [state @ '':'' @ er_reason r]\<rparr>]);
      of_state = (\<lambda>state. case env_payload (er_envelope r) of
        EdgeAssert _ ps _ \<Rightarrow> excl state (er_event r) ps
      | EdgeReaffirm edge _ new _ \<Rightarrow> excl state edge new
      | _ \<Rightarrow> []) in
      case er_state r of PS_Pending \<Rightarrow> of_state ''pending'' | PS_Invalid \<Rightarrow> of_state ''invalid'' | _ \<Rightarrow> [])"

definition support_graph_of :: "projection \<Rightarrow> hash set \<Rightarrow> support_graph option" where
  "support_graph_of p curators = do {
     let authors = graph_authors p;
     subjects \<leftarrow> for_each (graph_subject curators authors) (pj_subjects p) fmempty;
     g \<leftarrow> for_each (graph_edge curators authors) (pj_edges p)
       \<lparr>gr_neighbors = fmempty, gr_excluded = [], gr_subjects = subjects\<rparr>;
     Some (g\<lparr>gr_excluded := sort_key (\<lambda>x. (ex_edge x, ex_event x))
       (gr_excluded g @ concat (map row_exclusion (pj_rows p)))\<rparr>)}"

section \<open>The query\<close>

definition neighbors :: "support_graph \<Rightarrow> hash \<Rightarrow> neighbor list" where
  "neighbors g subject = sorted_list_of_fset (neighbors_at (gr_neighbors g) subject)"

definition subject_reason :: "support_graph \<Rightarrow> hash \<Rightarrow> reason list" where
  "subject_reason g s =
     (let why = (\<lambda>code. [\<lparr>re_code = code, re_subject = Some s, re_edge = None\<rparr>]) in
      case fmlookup (gr_subjects g) s of
        None \<Rightarrow> why ''subject_unknown''
      | Some st \<Rightarrow>
          if st = ''resolved'' then []
          else if st = ''contested'' then why ''subject_contested''
          else if st = ''no_current_body'' then why ''subject_no_current_body''
          else why st)"

definition excluded_reasons :: "support_graph \<Rightarrow> hash \<Rightarrow> hash \<Rightarrow> reason list" where
  "excluded_reasons g from to = concat (map (\<lambda>x. map (\<lambda>r. \<lparr>re_code = ''excluded_edge:'' @ r, re_subject = None,
       re_edge = Some (ex_event x)\<rparr>) (ex_reasons x))
     (filter (\<lambda>x. list_ex (\<lambda>s. s = ex_source x \<or> s = ex_target x) [from, to]) (gr_excluded g)))"

type_synonym visited = "(hash, (hash \<times> hash) option) fmap"

definition visit_neighbor :: "hash \<Rightarrow> neighbor \<Rightarrow> visited \<times> hash list \<Rightarrow> visited \<times> hash list" where
  "visit_neighbor s n = (\<lambda>(previous, next).
     if has previous (nb_subject n) then (previous, next)
     else (fmupd (nb_subject n) (Some (s, nb_edge n)) previous, next @ [nb_subject n]))"

definition visit_level :: "support_graph \<Rightarrow> hash list \<Rightarrow> visited \<Rightarrow> visited \<times> hash list" where
  "visit_level g level previous =
     fold (\<lambda>s. fold (visit_neighbor s) (neighbors g s)) level (previous, [])"

text \<open>The hops of the search, at most \<open>max_hops\<close> of them: the table of predecessors when \<open>to\<close> is found.\<close>

fun search :: "support_graph \<Rightarrow> hash \<Rightarrow> nat \<Rightarrow> hash list \<Rightarrow> visited \<Rightarrow> visited option" where
  "search g to 0 level previous = None"
| "search g to (Suc hops) level previous =
     (if level = [] then None
      else let (previous', next) = visit_level g level previous in
        if has previous' to then Some previous' else search g to hops next previous')"

definition path_step :: "visited \<Rightarrow> hash list \<times> hash \<Rightarrow> (hash list \<times> hash) option" where
  "path_step previous = (\<lambda>(path, at). case fmlookup previous at of
     Some (Some (prior, edge)) \<Rightarrow> Some (path @ [edge], prior) | _ \<Rightarrow> None)"

definition path_back :: "visited \<Rightarrow> hash \<Rightarrow> hash list option" where
  "path_back previous to = map_option (rev \<circ> fst)
     (while_loop (\<lambda>(_, at). case fmlookup previous at of Some (Some _) \<Rightarrow> True | _ \<Rightarrow> False)
       (path_step previous) ([], to))"

definition query :: "support_graph \<Rightarrow> hash \<Rightarrow> hash \<Rightarrow> nat \<Rightarrow> support option" where
  "query g from to max_hops =
     (let reasons = subject_reason g from @ subject_reason g to;
          reasons' = (if reasons = [] \<and> from = to
            then [\<lparr>re_code = ''same_subject'', re_subject = Some from, re_edge = None\<rparr>] else reasons);
          excluded = excluded_reasons g from to in
      if reasons' \<noteq> [] then Some (Unsupported (reasons' @ excluded))
      else (case search g to max_hops [from] (fmupd from None fmempty) of
          Some previous \<Rightarrow> map_option (\<lambda>path. Supported path excluded) (path_back previous to)
        | None \<Rightarrow> Some (Unsupported (\<lparr>re_code = ''no_current_support_path'', re_subject = None, re_edge = None\<rparr> # excluded))))"

end
