(* ===== verification/Search.thy ===== *)
theory Search
  imports Support
begin

text \<open>
  Correctness of the support query: the breadth-first search finds a path exactly when there is
  one within the hop bound, and the path read back from the table of predecessors is a shortest one.
\<close>

section \<open>Chains of edges\<close>

inductive chain :: "support_graph \<Rightarrow> hash \<Rightarrow> hash list \<Rightarrow> hash \<Rightarrow> bool" for g a where
  chain_Nil: "chain g a [] a"
| chain_snoc: "chain g a es b \<Longrightarrow> n \<in> set (neighbors g b) \<Longrightarrow> chain g a (es @ [nb_edge n]) (nb_subject n)"

inductive_cases chain_NilE: "chain g a [] b"
inductive_cases chain_snocE: "chain g a (es @ [e]) b"

definition within :: "support_graph \<Rightarrow> hash \<Rightarrow> nat \<Rightarrow> hash \<Rightarrow> bool" where
  "within g a d b \<longleftrightarrow> (\<exists>es. chain g a es b \<and> length es \<le> d)"

lemma within_0 [simp]: "within g a 0 b \<longleftrightarrow> b = a"
  by (auto simp: within_def intro: chain_Nil elim: chain_NilE)

lemma within_Suc: "within g a (Suc d) b \<longleftrightarrow>
    within g a d b \<or> (\<exists>c n. within g a d c \<and> n \<in> set (neighbors g c) \<and> nb_subject n = b)"
proof
  assume "within g a (Suc d) b"
  then obtain es where es: "chain g a es b" "length es \<le> Suc d" by (auto simp: within_def)
  from es show "within g a d b \<or> (\<exists>c n. within g a d c \<and> n \<in> set (neighbors g c) \<and> nb_subject n = b)"
    by cases (auto simp: within_def intro: chain_Nil)
next
  assume "within g a d b \<or> (\<exists>c n. within g a d c \<and> n \<in> set (neighbors g c) \<and> nb_subject n = b)"
  then show "within g a (Suc d) b"
  proof (elim disjE exE conjE)
    fix c n assume "within g a d c" and n: "n \<in> set (neighbors g c)" "nb_subject n = b"
    then obtain es where es: "chain g a es c" "length es \<le> d" by (auto simp: within_def)
    then have "chain g a (es @ [nb_edge n]) b" using chain_snoc [OF es(1) n(1)] n(2) by simp
    with es(2) show ?thesis unfolding within_def by (intro exI [of _ "es @ [nb_edge n]"]) simp
  qed (auto simp: within_def)
qed

lemma within_mono: "within g a d b \<Longrightarrow> d \<le> d' \<Longrightarrow> within g a d' b"
  by (auto simp: within_def)

section \<open>One level\<close>

text \<open>The result of visiting the pairs of a subject and one of its neighbors in \<open>ps\<close>.\<close>

definition visits :: "(hash \<times> neighbor) list \<Rightarrow> visited \<times> hash list \<Rightarrow> visited \<times> hash list" where
  "visits = fold (\<lambda>(s, n). visit_neighbor s n)"

lemma visit_level_visits:
  "visit_level g level previous = visits (concat (map (\<lambda>s. map (Pair s) (neighbors g s)) level)) (previous, [])"
proof -
  have "fold (visit_neighbor s) ns st = visits (map (Pair s) ns) st" for s ns st
    by (simp add: visits_def fold_map comp_def)
  then have "fold (\<lambda>s. fold (visit_neighbor s) (neighbors g s)) level st =
      visits (concat (map (\<lambda>s. map (Pair s) (neighbors g s)) level)) st" for st
    by (induction level arbitrary: st) (simp_all add: visits_def)
  then show ?thesis by (simp add: visit_level_def)
qed

definition visited_by :: "(hash \<times> neighbor) set \<Rightarrow> visited \<Rightarrow> hash list \<Rightarrow> visited \<Rightarrow> hash list \<Rightarrow> bool" where
  "visited_by P prev next prev' next' \<longleftrightarrow>
     (\<forall>x. has prev x \<longrightarrow> fmlookup prev' x = fmlookup prev x) \<and>
     (\<forall>x. has prev' x \<longleftrightarrow> has prev x \<or> (\<exists>s n. (s, n) \<in> P \<and> nb_subject n = x)) \<and>
     (\<forall>x v. fmlookup prev' x = Some v \<longrightarrow> \<not> has prev x \<longrightarrow> (\<exists>s n. (s, n) \<in> P \<and> nb_subject n = x \<and> v = Some (s, nb_edge n))) \<and>
     set next' = set next \<union> {x. has prev' x \<and> \<not> has prev x}"

lemma visited_byD:
  assumes "visited_by P prev next prev' next'"
  shows "has prev x \<Longrightarrow> fmlookup prev' x = fmlookup prev x"
    "has prev' x \<longleftrightarrow> has prev x \<or> (\<exists>s n. (s, n) \<in> P \<and> nb_subject n = x)"
    "fmlookup prev' x = Some v \<Longrightarrow> \<not> has prev x \<Longrightarrow> \<exists>s n. (s, n) \<in> P \<and> nb_subject n = x \<and> v = Some (s, nb_edge n)"
    "set next' = set next \<union> {x. has prev' x \<and> \<not> has prev x}"
proof -
  from assms have 1: "\<forall>x. has prev x \<longrightarrow> fmlookup prev' x = fmlookup prev x"
    and 2: "\<forall>x. has prev' x \<longleftrightarrow> has prev x \<or> (\<exists>s n. (s, n) \<in> P \<and> nb_subject n = x)"
    and 3: "\<forall>x v. fmlookup prev' x = Some v \<longrightarrow> \<not> has prev x \<longrightarrow>
      (\<exists>s n. (s, n) \<in> P \<and> nb_subject n = x \<and> v = Some (s, nb_edge n))"
    and 4: "set next' = set next \<union> {x. has prev' x \<and> \<not> has prev x}"
    unfolding visited_by_def by iprover+
  show "has prev x \<Longrightarrow> fmlookup prev' x = fmlookup prev x" using 1 by iprover
  show "has prev' x \<longleftrightarrow> has prev x \<or> (\<exists>s n. (s, n) \<in> P \<and> nb_subject n = x)" using 2 by (rule spec)
  show "fmlookup prev' x = Some v \<Longrightarrow> \<not> has prev x \<Longrightarrow> \<exists>s n. (s, n) \<in> P \<and> nb_subject n = x \<and> v = Some (s, nb_edge n)"
    using 3 by iprover
  show "set next' = set next \<union> {x. has prev' x \<and> \<not> has prev x}" by (rule 4)
qed

lemma visited_by_step:
  assumes "visited_by P prev next prev1 next1" "visit_neighbor s n (prev1, next1) = (prev2, next2)"
  shows "visited_by (insert (s, n) P) prev next prev2 next2"
proof (cases "has prev1 (nb_subject n)")
  case True
  with assms show ?thesis by (fastforce simp: visited_by_def visit_neighbor_def)
next
  case False
  then have eq: "prev2 = fmupd (nb_subject n) (Some (s, nb_edge n)) prev1" "next2 = next1 @ [nb_subject n]"
    using assms(2) by (auto simp: visit_neighbor_def)
  have "\<not> has prev (nb_subject n)" using assms(1) False by (auto simp: visited_by_def)
  note D = visited_byD [OF assms(1)]
  show ?thesis unfolding visited_by_def eq
  proof (intro conjI allI impI)
    show "fmlookup (fmupd (nb_subject n) (Some (s, nb_edge n)) prev1) x = fmlookup prev x" if "has prev x" for x
      using that D(1) \<open>\<not> has prev (nb_subject n)\<close> by auto
    show "has (fmupd (nb_subject n) (Some (s, nb_edge n)) prev1) x \<longleftrightarrow>
        has prev x \<or> (\<exists>sa na. (sa, na) \<in> insert (s, n) P \<and> nb_subject na = x)" for x
      using D(2) by auto
    show "set (next1 @ [nb_subject n]) = set next \<union> {x. has (fmupd (nb_subject n) (Some (s, nb_edge n)) prev1) x \<and> \<not> has prev x}"
      using D(4) \<open>\<not> has prev (nb_subject n)\<close> by auto
    fix x v assume x: "fmlookup (fmupd (nb_subject n) (Some (s, nb_edge n)) prev1) x = Some v" "\<not> has prev x"
    show "\<exists>sa na. (sa, na) \<in> insert (s, n) P \<and> nb_subject na = x \<and> v = Some (sa, nb_edge na)"
    proof (cases "x = nb_subject n")
      case False
      then show ?thesis using D(3) [of x v] x by auto
    qed (use x in auto)
  qed
qed

lemma visits_spec: "visits ps (prev, next) = (prev', next') \<Longrightarrow> visited_by (set ps) prev next prev' next'"
proof (induction ps arbitrary: prev' next' rule: rev_induct)
  case Nil
  then show ?case by (auto simp: visits_def visited_by_def has_def)
next
  case (snoc p ps)
  obtain s n where p: "p = (s, n)" by (cases p)
  obtain prev1 next1 where 1: "visits ps (prev, next) = (prev1, next1)" by fastforce
  with snoc.prems p have "visit_neighbor s n (prev1, next1) = (prev', next')" by (simp add: visits_def)
  from visited_by_step [OF snoc.IH [OF 1] this] show ?case by (simp add: p)
qed

section \<open>The search\<close>

text \<open>
  The table after \<open>d\<close> hops: it holds the subjects within \<open>d\<close> hops, those outside \<open>level\<close> are
  expanded, and every entry was reached from a subject one hop closer.
\<close>

definition reached :: "support_graph \<Rightarrow> hash \<Rightarrow> nat \<Rightarrow> hash list \<Rightarrow> visited \<Rightarrow> bool" where
  "reached g a d level previous \<longleftrightarrow>
     (\<forall>x. has previous x \<longleftrightarrow> within g a d x) \<and>
     (\<forall>x n. has previous x \<longrightarrow> x \<notin> set level \<longrightarrow> n \<in> set (neighbors g x) \<longrightarrow> has previous (nb_subject n)) \<and>
     (\<forall>x\<in>set level. has previous x \<and> (\<forall>k<d. \<not> within g a k x)) \<and>
     fmlookup previous a = Some None \<and>
     (\<forall>x s e. fmlookup previous x = Some (Some (s, e)) \<longrightarrow> (\<exists>k n. within g a k s \<and> n \<in> set (neighbors g s) \<and>
        nb_subject n = x \<and> nb_edge n = e \<and> \<not> within g a k x \<and> (\<forall>j<k. \<not> within g a j s))) \<and>
     (\<forall>x. fmlookup previous x = Some None \<longrightarrow> x = a)"

lemma reachedD:
  assumes "reached g a d level previous"
  shows "has previous x \<longleftrightarrow> within g a d x"
    "has previous x \<Longrightarrow> x \<notin> set level \<Longrightarrow> n \<in> set (neighbors g x) \<Longrightarrow> has previous (nb_subject n)"
    "x \<in> set level \<Longrightarrow> has previous x" "x \<in> set level \<Longrightarrow> k < d \<Longrightarrow> \<not> within g a k x"
    "fmlookup previous x = Some (Some (s, e)) \<Longrightarrow> \<exists>k n. within g a k s \<and> n \<in> set (neighbors g s) \<and>
        nb_subject n = x \<and> nb_edge n = e \<and> \<not> within g a k x \<and> (\<forall>j<k. \<not> within g a j s)"
    "fmlookup previous x = Some None \<Longrightarrow> x = a" "fmlookup previous a = Some None"
  using assms unfolding reached_def by blast+

lemma reached_init: "reached g a 0 [a] (fmupd a None fmempty)"
  by (auto simp: reached_def)

lemma reached_step:
  assumes r: "reached g a d level prev" and run: "visit_level g level prev = (prev', next)"
  shows "reached g a (Suc d) next prev'"
proof -
  let ?P = "set (concat (map (\<lambda>s. map (Pair s) (neighbors g s)) level))"
  have P: "(s, n) \<in> ?P \<longleftrightarrow> s \<in> set level \<and> n \<in> set (neighbors g s)" for s n by auto
  have v: "visited_by ?P prev [] prev' next" using visits_spec [OF run [unfolded visit_level_visits]] .
  note keep = visited_byD(1) [OF v] and dom = visited_byD(2) [OF v, unfolded P]
    and new = visited_byD(3) [OF v, unfolded P]
  have nxt: "set next = {x. has prev' x \<and> \<not> has prev x}" using visited_byD(4) [OF v] by simp
  have all: "has prev' x \<longleftrightarrow> within g a (Suc d) x" for x
    using reachedD(1,2,3) [OF r] unfolding dom within_Suc by blast
  show ?thesis unfolding reached_def
  proof (intro conjI allI impI ballI)
    show "has prev' x \<longleftrightarrow> within g a (Suc d) x" for x by (rule all)
    show "has prev' (nb_subject n)" if "has prev' x" "x \<notin> set next" "n \<in> set (neighbors g x)" for x n
      using that nxt dom reachedD(2) [OF r] by blast
    show "has prev' x" if "x \<in> set next" for x using that nxt by blast
    show "\<not> within g a k x" if "x \<in> set next" "k < Suc d" for x k
      using that nxt reachedD(1) [OF r] within_mono [of g a k x d] by auto
    have "has prev a" using reachedD(7) [OF r] by (simp add: has_def)
    then show "fmlookup prev' a = Some None" using keep reachedD(7) [OF r] by simp
    show "x = a" if "fmlookup prev' x = Some None" for x
      using that keep [of x] new [of x None] reachedD(6) [OF r, of x] by fastforce
  next
    fix x s e assume x: "fmlookup prev' x = Some (Some (s, e))"
    show "\<exists>k n. within g a k s \<and> n \<in> set (neighbors g s) \<and> nb_subject n = x \<and> nb_edge n = e \<and>
        \<not> within g a k x \<and> (\<forall>j<k. \<not> within g a j s)"
    proof (cases "has prev x")
      case True
      with x keep reachedD(5) [OF r] show ?thesis by simp
    next
      case False
      with new [OF x] obtain n where n: "s \<in> set level" "n \<in> set (neighbors g s)" "nb_subject n = x" "nb_edge n = e" by auto
      then show ?thesis using False reachedD(1,3,4) [OF r] by blast
    qed
  qed
qed

lemma search_Some:
  assumes "reached g a d level prev" "search g to hops level prev = Some prev'" "\<not> has prev to"
  shows "\<exists>d' level'. d < d' \<and> d' \<le> d + hops \<and> reached g a d' level' prev' \<and> has prev' to \<and> \<not> within g a (d' - 1) to"
  using assms
proof (induction g to hops level prev arbitrary: d rule: search.induct)
  case (2 g to hops level prev)
  obtain prev1 nxt where 1: "visit_level g level prev = (prev1, nxt)" by fastforce
  note r = reached_step [OF "2.prems"(1) 1]
  have nil: "level \<noteq> []" using "2.prems"(2) by auto
  show ?case
  proof (cases "has prev1 to")
    case True
    then show ?thesis using "2.prems" 1 nil r reachedD(1) [OF "2.prems"(1)] by (intro exI [of _ "Suc d"]) auto
  next
    case False
    then have "search g to hops nxt prev1 = Some prev'" using "2.prems"(2) 1 nil by simp
    from "2.IH" [OF nil 1 [symmetric] refl False r this False] show ?thesis by (metis Suc_lessD add_Suc_shift)
  qed
qed simp

lemma search_None:
  assumes "reached g a d level prev" "search g to hops level prev = None" "\<not> has prev to"
  shows "\<not> within g a (d + hops) to"
  using assms
proof (induction g to hops level prev arbitrary: d rule: search.induct)
  case (1 g to level previous)
  then show ?case using reachedD(1) by auto
next
  case (2 g to hops level prev)
  show ?case
  proof (cases "level = []")
    case True
    have stop: "within g a (d + k) x \<Longrightarrow> has prev x" for k x
    proof (induction k arbitrary: x)
      case 0
      then show ?case using reachedD(1) [OF "2.prems"(1)] by simp
    next
      case (Suc k)
      then show ?case using reachedD(2) [OF "2.prems"(1)] True unfolding add_Suc_right within_Suc by auto
    qed
    with "2.prems"(3) show ?thesis by blast
  next
    case False
    obtain prev1 nxt where 1: "visit_level g level prev = (prev1, nxt)" by fastforce
    have no: "\<not> has prev1 to" using "2.prems"(2) 1 False by auto
    then have "search g to hops nxt prev1 = None" using "2.prems"(2) 1 False by simp
    from "2.IH" [OF False 1 [symmetric] refl no reached_step [OF "2.prems"(1) 1] this no] show ?thesis by simp
  qed
qed

section \<open>The path\<close>

lemma path_back_chain:
  assumes r: "reached g a d level prev" and to: "has prev to"
  shows "\<exists>path. path_back prev to = Some path \<and> chain g a path to \<and> (\<forall>k < length path. \<not> within g a k to)"
proof -
  define dist where "dist x = (LEAST k. within g a k x)" for x
  have dist: "within g a (dist x) x" "\<And>k. within g a k x \<Longrightarrow> dist x \<le> k" if "has prev x" for x
    using that reachedD(1) [OF r, of x] unfolding dist_def by (auto intro: LeastI Least_le)
  have step: "has prev s \<and> dist x = Suc (dist s) \<and> (\<exists>n \<in> set (neighbors g s). nb_subject n = x \<and> nb_edge n = e)"
    if x: "fmlookup prev x = Some (Some (s, e))" for x s e
  proof -
    obtain k n where k: "within g a k s" "n \<in> set (neighbors g s)" "nb_subject n = x" "nb_edge n = e"
      "\<not> within g a k x" "\<forall>j<k. \<not> within g a j s" using reachedD(5) [OF r x] by blast
    have px: "has prev x" using x by (simp add: has_def)
    then have "within g a d x" using reachedD(1) [OF r] by simp
    then have "k < d" using k(5) within_mono [of g a d x k] by (meson not_le)
    then have ps: "has prev s" using k(1) reachedD(1) [OF r] within_mono [of g a k s d] by simp
    have ds: "dist s = k" using dist(1) [OF ps] dist(2) [OF ps k(1)] k(6) by (metis le_neq_implies_less)
    have "within g a (Suc k) x" using k within_Suc by blast
    then have "dist x \<le> Suc k" using dist(2) [OF px] by blast
    moreover have "\<not> dist x \<le> k" using dist(1) [OF px] k(5) within_mono by blast
    ultimately show ?thesis using ps ds k by auto
  qed
  let ?c = "\<lambda>(path :: hash list, at). case fmlookup prev at of Some (Some _) \<Rightarrow> True | _ \<Rightarrow> False"
  let ?I = "\<lambda>(path, at). has prev at \<and> dist to = length path + dist at \<and>
    (\<forall>es. chain g a es at \<longrightarrow> chain g a (es @ rev path) to)"
  have "\<exists>st. while_loop ?c (path_step prev) ([], to) = Some st \<and> ?I st \<and> \<not> ?c st"
  proof (rule while_loop_rule [where m = "\<lambda>(_, at). dist at"])
    fix st assume I: "?I st" and c: "?c st"
    obtain path x where st: "st = (path, x)" by (cases st)
    from c st obtain s e where x: "fmlookup prev x = Some (Some (s, e))" by (auto split: option.splits)
    obtain n where n: "n \<in> set (neighbors g s)" "nb_subject n = x" "nb_edge n = e" using step [OF x] by blast
    have "chain g a (es @ rev (path @ [e])) to" if "chain g a es s" for es
      using I st chain_snoc [OF that n(1)] n by auto
    with step [OF x] I st x show "\<exists>st'. path_step prev st = Some st' \<and> ?I st' \<and>
        (case st' of (_, at) \<Rightarrow> dist at) < (case st of (_, at) \<Rightarrow> dist at)"
      by (auto simp: path_step_def)
  qed (use to in auto)
  then obtain path x where p: "while_loop ?c (path_step prev) ([], to) = Some (path, x)" "?I (path, x)" "\<not> ?c (path, x)"
    by auto
  have "fmlookup prev x = Some None" using p(2,3) by (auto simp: has_def split: option.splits)
  then have x: "x = a" by (rule reachedD(6) [OF r])
  have "dist a = 0" using dist(2) [of a 0] p(2) x by simp
  then have len: "length path = dist to" using p(2) x by simp
  have "chain g a (rev path) to" using p(2) x chain_Nil by fastforce
  moreover have "\<not> within g a k to" if "k < length (rev path)" for k
    using that len dist(2) [OF to, of k] by auto
  ultimately show ?thesis using p(1) by (auto simp: path_back_def)
qed

lemma query_spec:
  assumes "subject_reason g from = []" "subject_reason g to = []" "from \<noteq> to"
  shows "\<exists>r. query g from to hops = Some r \<and> (case r of
      Supported path excluded \<Rightarrow> chain g from path to \<and> length path \<le> hops \<and> (\<forall>k < length path. \<not> within g from k to) \<and>
        excluded = excluded_reasons g from to
    | Unsupported reasons \<Rightarrow> \<not> within g from hops to)"
proof (cases "search g to hops [from] (fmupd from None fmempty)")
  case None
  have "\<not> has (fmupd from None fmempty :: visited) to" using assms(3) by simp
  from search_None [OF reached_init None this] None assms show ?thesis by (simp add: query_def)
next
  case (Some prev)
  have "\<not> has (fmupd from None fmempty :: visited) to" using assms(3) by simp
  from search_Some [OF reached_init Some this] obtain d level where
    d: "d \<le> hops" "reached g from d level prev" "has prev to" by auto
  obtain path where path: "path_back prev to = Some path" "chain g from path to" "\<forall>k < length path. \<not> within g from k to"
    using path_back_chain [OF d(2,3)] by blast
  have "within g from d to" using reachedD(1) [OF d(2)] d(3) by simp
  then have "length path \<le> d" using path(3) by (meson not_le)
  then show ?thesis using Some assms path d(1) by (simp add: query_def)
qed

end
