(* ===== verification/Trust.thy ===== *)
theory Trust
  imports Edge_Readings Search
begin

text \<open>
  The support graph of a projection: it exists for every corpus, its neighbors are exactly the two
  ends of the current edges that are no disputes and whose author and end subjects are all by
  curators, and every other edge is excluded with a reason.
\<close>

section \<open>Authors\<close>

lemma fold_fmupd_lookup:
  "fmlookup (fold (\<lambda>r. fmupd (k r) (v r)) rs m) x = (case map_of (rev (map (\<lambda>r. (k r, v r)) rs)) x of
     Some y \<Rightarrow> Some y | None \<Rightarrow> fmlookup m x)"
  by (induction rs arbitrary: m) (auto simp: map_add_def split: option.splits)

lemma graph_authors_lookup:
  assumes "map (\<lambda>r. (er_event r, er_envelope r)) (pj_rows p) = map (\<lambda>eid. (eid, envelope_of (the (fmlookup cands eid)))) (keys cands)"
    and ev: "fmlookup cands eid = Some ev"
  shows "fmlookup (graph_authors p) eid = Some (env_author (envelope_of ev))"
proof -
  have "map (\<lambda>r. (er_event r, env_author (er_envelope r))) (pj_rows p) =
      map (\<lambda>(e, x). (e, env_author x)) (map (\<lambda>r. (er_event r, er_envelope r)) (pj_rows p))" by simp
  also have "\<dots> = map (\<lambda>eid. (eid, env_author (envelope_of (the (fmlookup cands eid))))) (keys cands)"
    unfolding assms(1) by simp
  finally have "rev (map (\<lambda>r. (er_event r, env_author (er_envelope r))) (pj_rows p)) =
      map (\<lambda>eid. (eid, env_author (envelope_of (the (fmlookup cands eid))))) (rev (keys cands))" by (simp add: rev_map)
  moreover have "eid \<in> fmdom' cands" using ev by (rule fmdom'I)
  ultimately show ?thesis
    using ev by (simp add: graph_authors_def fold_fmupd_lookup map_of_map_restrict)
qed

section \<open>One edge\<close>

text \<open>The subjects at the ends of the first pins of a reading, and what admits the edge to the graph.\<close>

definition ends_of :: "edge_reading \<Rightarrow> hash \<times> hash" where
  "ends_of e = (pin_subject (pins_source (hd (ed_pins e))), pin_subject (pins_target (hd (ed_pins e))))"

definition usable :: "corpus \<Rightarrow> hash set \<Rightarrow> edge_reading \<Rightarrow> bool" where
  "usable cands curators e \<longleftrightarrow> ed_status e = ''current'' \<and> ed_relation e \<noteq> ''disputes'' \<and> ed_author e \<in> curators \<and>
     (\<forall>sub \<in> {fst (ends_of e), snd (ends_of e)}.
        \<exists>ev. fmlookup cands sub = Some ev \<and> env_author (envelope_of ev) \<in> curators)"

definition linked :: "corpus \<Rightarrow> hash set \<Rightarrow> edge_reading set \<Rightarrow> hash \<Rightarrow> neighbor \<Rightarrow> bool" where
  "linked cands curators E a n \<longleftrightarrow> (\<exists>e\<in>E. usable cands curators e \<and> n = Neighbor (nb_subject n) (ed_edge e) (ed_relation e) \<and>
     ((a, nb_subject n) = ends_of e \<or> (nb_subject n, a) = ends_of e))"

lemma add_neighbor_at: "n |\<in>| neighbors_at (add_neighbor e (x, y) m) a \<longleftrightarrow>
    n |\<in>| neighbors_at m a \<or> (a = x \<and> n = Neighbor y (ed_edge e) (ed_relation e))"
  by (auto simp: add_neighbor_def neighbors_at_def split: option.splits)

lemma graph_edge_Some:
  assumes authors: "\<And>sub. sub \<in> {fst (ends_of e), snd (ends_of e)} \<Longrightarrow>
      \<exists>ev. fmlookup cands sub = Some ev \<and> fmlookup authors sub = Some (env_author (envelope_of ev))"
    and pins: "ed_pins e \<noteq> []"
  shows "\<exists>g'. graph_edge curators authors e g = Some g' \<and> gr_subjects g' = gr_subjects g \<and>
    (\<forall>a n. n |\<in>| neighbors_at (gr_neighbors g') a \<longleftrightarrow>
       n |\<in>| neighbors_at (gr_neighbors g) a \<or> linked cands curators {e} a n) \<and>
    (\<exists>xs. gr_excluded g' = gr_excluded g @ xs \<and>
       (usable cands curators e \<longleftrightarrow> xs = []) \<and> (\<forall>x\<in>set xs. ex_edge x = ed_edge e \<and> ex_reasons x \<noteq> []))"
proof -
  obtain p ps where p: "ed_pins e = p # ps" using pins by (cases "ed_pins e") auto
  then have ends: "ends_of e = (pin_subject (pins_source p), pin_subject (pins_target p))" by (simp add: ends_of_def)
  obtain ev1 ev2 where au: "fmlookup cands (fst (ends_of e)) = Some ev1" "fmlookup cands (snd (ends_of e)) = Some ev2"
    "fmlookup authors (fst (ends_of e)) = Some (env_author (envelope_of ev1))"
    "fmlookup authors (snd (ends_of e)) = Some (env_author (envelope_of ev2))"
    using authors [of "fst (ends_of e)"] authors [of "snd (ends_of e)"] by auto
  then obtain rs where rs: "edge_reasons curators authors e (ends_of e) = Some rs" "rs = [] \<longleftrightarrow> usable cands curators e"
    by (auto simp: edge_reasons_def origin_reason_def usable_def)
  have run: "graph_edge curators authors e g = Some (if rs = []
      then g\<lparr>gr_neighbors := fold (add_neighbor e) [ends_of e, (snd (ends_of e), fst (ends_of e))] (gr_neighbors g)\<rparr>
      else g\<lparr>gr_excluded := gr_excluded g @ [\<lparr>ex_edge = ed_edge e, ex_event = ed_edge e, ex_source = fst (ends_of e),
        ex_target = snd (ends_of e), ex_reasons = rs\<rparr>]\<rparr>)"
    using rs(1) by (simp add: graph_edge_def p ends)
  show ?thesis
  proof (cases "rs = []")
    case True
    have "n |\<in>| neighbors_at (fold (add_neighbor e) [ends_of e, (snd (ends_of e), fst (ends_of e))] (gr_neighbors g)) a \<longleftrightarrow>
        n |\<in>| neighbors_at (gr_neighbors g) a \<or> linked cands curators {e} a n" for a n
      using True rs(2) unfolding linked_def by (cases n; cases "ends_of e") (auto simp: add_neighbor_at)
    with run True rs(2) show ?thesis by simp
  next
    case False
    then have "\<not> linked cands curators {e} a n" for a n using rs(2) by (simp add: linked_def)
    with run False rs(2) show ?thesis by simp
  qed
qed

section \<open>The graph\<close>

definition graph_ok :: "corpus \<Rightarrow> hash set \<Rightarrow> edge_reading list \<Rightarrow> support_graph \<Rightarrow> bool" where
  "graph_ok cands curators es g \<longleftrightarrow>
     (\<forall>a n. n |\<in>| neighbors_at (gr_neighbors g) a \<longleftrightarrow> linked cands curators (set es) a n) \<and>
     (\<forall>e\<in>set es. \<not> usable cands curators e \<longrightarrow> (\<exists>x\<in>set (gr_excluded g). ex_edge x = ed_edge e \<and> ex_reasons x \<noteq> []))"

lemma linked_insert: "linked cands curators (insert e E) a n \<longleftrightarrow> linked cands curators E a n \<or> linked cands curators {e} a n"
  by (auto simp: linked_def)

lemma graph_edges_Some:
  assumes "\<And>e sub. e \<in> set es \<Longrightarrow> sub \<in> {fst (ends_of e), snd (ends_of e)} \<Longrightarrow>
      \<exists>ev. fmlookup cands sub = Some ev \<and> fmlookup authors sub = Some (env_author (envelope_of ev))"
    and "\<And>e. e \<in> set es \<Longrightarrow> ed_pins e \<noteq> []"
  shows "\<exists>g. for_each (graph_edge curators authors) es \<lparr>gr_neighbors = fmempty, gr_excluded = [], gr_subjects = subs\<rparr> = Some g \<and>
    (graph_ok cands curators es g \<and> gr_subjects g = subs)"
proof (rule for_each_rule)
  show "graph_ok cands curators [] \<lparr>gr_neighbors = fmempty, gr_excluded = [], gr_subjects = subs\<rparr> \<and>
      gr_subjects \<lparr>gr_neighbors = fmempty, gr_excluded = [], gr_subjects = subs\<rparr> = subs"
    by (simp add: graph_ok_def linked_def neighbors_at_def)
next
  fix pre e post g assume split: "es = pre @ e # post" and I: "graph_ok cands curators pre g \<and> gr_subjects g = subs"
  have "e \<in> set es" by (simp add: split)
  then obtain g' xs where g': "graph_edge curators authors e g = Some g'" "gr_subjects g' = gr_subjects g"
    "\<And>a n. n |\<in>| neighbors_at (gr_neighbors g') a \<longleftrightarrow>
       n |\<in>| neighbors_at (gr_neighbors g) a \<or> linked cands curators {e} a n"
    "gr_excluded g' = gr_excluded g @ xs" "usable cands curators e \<longleftrightarrow> xs = []"
    "\<forall>x\<in>set xs. ex_edge x = ed_edge e \<and> ex_reasons x \<noteq> []"
    using graph_edge_Some [of e cands authors curators g] assms by blast
  have "\<exists>x\<in>set (gr_excluded g'). ex_edge x = ed_edge e \<and> ex_reasons x \<noteq> []" if "\<not> usable cands curators e"
    using that g'(4-6) by (cases xs) auto
  moreover have "graph_ok cands curators pre g" using I by simp
  ultimately have "graph_ok cands curators (pre @ [e]) g'"
    unfolding graph_ok_def using linked_insert [of cands curators e "set pre"] g'(3,4) by auto
  with g' I show "\<exists>g'. graph_edge curators authors e g = Some g' \<and>
      (graph_ok cands curators (pre @ [e]) g' \<and> gr_subjects g' = subs)" by auto
qed

lemma graph_ok_excluded:
  "graph_ok cands curators es g \<Longrightarrow> set (gr_excluded g) \<subseteq> set xs \<Longrightarrow> graph_ok cands curators es (g\<lparr>gr_excluded := xs\<rparr>)"
  by (fastforce simp: graph_ok_def)

lemma graph_subjects_Some:
  assumes "\<And>sub. sub \<in> set subs \<Longrightarrow> \<exists>author. fmlookup authors (sr_subject sub) = Some author"
  shows "\<exists>m. for_each (graph_subject curators authors) subs fmempty = Some m \<and>
    (\<forall>x. fmlookup m x = Some ''resolved'' \<longrightarrow>
      (\<exists>sub\<in>set subs. sr_subject sub = x \<and> sr_state sub = ''resolved'' \<and> (\<exists>author\<in>curators. fmlookup authors x = Some author)))"
proof (rule for_each_rule)
  fix pre sub post m
  assume split: "subs = pre @ sub # post" and I: "\<forall>x. fmlookup m x = Some ''resolved'' \<longrightarrow>
      (\<exists>sub\<in>set pre. sr_subject sub = x \<and> sr_state sub = ''resolved'' \<and> (\<exists>author\<in>curators. fmlookup authors x = Some author))"
  have "sub \<in> set subs" by (simp add: split)
  then obtain author where au: "fmlookup authors (sr_subject sub) = Some author" using assms by blast
  show "\<exists>m'. graph_subject curators authors sub m = Some m' \<and> (\<forall>x. fmlookup m' x = Some ''resolved'' \<longrightarrow>
      (\<exists>sub\<in>set (pre @ [sub]). sr_subject sub = x \<and> sr_state sub = ''resolved'' \<and>
        (\<exists>author\<in>curators. fmlookup authors x = Some author)))"
    using au I by (auto simp: graph_subject_def)
qed simp

lemma edge_view_ends:
  assumes c: "classified H kok cands out V o1 s" and e: "edge_view H cands out V a e"
    and sub: "sub \<in> {fst (ends_of e), snd (ends_of e)}"
  shows "is_genesis V sub"
proof -
  have "hd (ed_pins e) \<in> set (ed_pins e)" using e by (auto simp: edge_view_def)
  then have pins: "pin_ok H V (pins_source (hd (ed_pins e)))" "pin_ok H V (pins_target (hd (ed_pins e)))"
    using e unfolding edge_view_def by blast+
  have "is_genesis V (pin_subject pn)" if "pin_ok H V pn" for pn
    using that subject_root [OF c] unfolding pin_ok_def by metis
  with pins sub show ?thesis by (auto simp: ends_of_def)
qed

lemma support_graph_cases:
  assumes c: "classified H kok cands out V o1 s"
    and rows: "map (\<lambda>r. (er_event r, er_envelope r)) (pj_rows p) = map (\<lambda>eid. (eid, envelope_of (the (fmlookup cands eid)))) (keys cands)"
    and subjects: "pj_subjects p = map (subject_view V a) (filter (is_genesis V) (keys V))"
    and edges: "\<forall>e\<in>set (pj_edges p). edge_view H cands out V a e"
  obtains g where "support_graph_of p curators = Some g" "graph_ok cands curators (pj_edges p) g"
    "\<And>x. fmlookup (gr_subjects g) x = Some ''resolved'' \<Longrightarrow> \<exists>sub\<in>set (pj_subjects p). sr_subject sub = x \<and>
       sr_state sub = ''resolved'' \<and> (\<exists>ev. fmlookup cands x = Some ev \<and> env_author (envelope_of ev) \<in> curators)"
proof -
  have author: "\<exists>ev. fmlookup cands sub = Some ev \<and> fmlookup (graph_authors p) sub = Some (env_author (envelope_of ev))"
    if "is_genesis V sub" for sub
    using that classified_lookup(1) [OF c] graph_authors_lookup [OF rows] by (auto simp: is_genesis_def)
  have "\<exists>au. fmlookup (graph_authors p) (sr_subject sub) = Some au" if "sub \<in> set (pj_subjects p)" for sub
    using that author by (fastforce simp: subjects subject_view_def)
  from graph_subjects_Some [of "pj_subjects p", OF this] obtain m where
    m: "for_each (graph_subject curators (graph_authors p)) (pj_subjects p) fmempty = Some m"
    "\<And>x. fmlookup m x = Some ''resolved'' \<Longrightarrow> \<exists>sub\<in>set (pj_subjects p). sr_subject sub = x \<and>
       sr_state sub = ''resolved'' \<and> (\<exists>au\<in>curators. fmlookup (graph_authors p) x = Some au)" by blast
  have "\<exists>ev. fmlookup cands sub = Some ev \<and> fmlookup (graph_authors p) sub = Some (env_author (envelope_of ev))"
    if "e \<in> set (pj_edges p)" "sub \<in> {fst (ends_of e), snd (ends_of e)}" for e sub
    using that edges edge_view_ends [OF c] author by blast
  moreover have "ed_pins e \<noteq> []" if "e \<in> set (pj_edges p)" for e using that edges unfolding edge_view_def by blast
  ultimately obtain g where g: "for_each (graph_edge curators (graph_authors p)) (pj_edges p)
      \<lparr>gr_neighbors = fmempty, gr_excluded = [], gr_subjects = m\<rparr> = Some g" "graph_ok cands curators (pj_edges p) g" "gr_subjects g = m"
    using graph_edges_Some [of "pj_edges p" cands "graph_authors p"] by blast
  define g' where "g' = g\<lparr>gr_excluded := sort_key (\<lambda>x. (ex_edge x, ex_event x))
    (gr_excluded g @ concat (map row_exclusion (pj_rows p)))\<rparr>"
  show thesis
  proof (rule that [of g'])
    show "support_graph_of p curators = Some g'" using m(1) g(1) by (simp add: support_graph_of_def g'_def)
    show "graph_ok cands curators (pj_edges p) g'" unfolding g'_def using g(2) by (rule graph_ok_excluded) auto
    fix x assume "fmlookup (gr_subjects g') x = Some ''resolved''"
    then have "fmlookup m x = Some ''resolved''" using g(3) by (simp add: g'_def)
    then obtain sub au where x: "sub\<in>set (pj_subjects p)" "sr_subject sub = x" "sr_state sub = ''resolved''"
      "au \<in> curators" "fmlookup (graph_authors p) x = Some au" using m(2) by blast
    then have "is_genesis V x" by (auto simp: subjects subject_view_def)
    from author [OF this] x show "\<exists>sub\<in>set (pj_subjects p). sr_subject sub = x \<and> sr_state sub = ''resolved'' \<and>
        (\<exists>ev. fmlookup cands x = Some ev \<and> env_author (envelope_of ev) \<in> curators)" by auto
  qed
qed

lemma set_neighbors: "n \<in> set (neighbors g a) \<longleftrightarrow> n |\<in>| neighbors_at (gr_neighbors g) a"
  by (simp add: neighbors_def)

lemma chain_edges:
  assumes "chain g a es b" "graph_ok cands curators readings g" "e \<in> set es"
  shows "\<exists>r\<in>set readings. ed_edge r = e \<and> usable cands curators r"
  using assms
proof (induction rule: chain.induct)
  case (chain_snoc es b n)
  from chain_snoc.prems(1) chain_snoc.hyps(2) have "linked cands curators (set readings) b n"
    unfolding graph_ok_def set_neighbors by blast
  then have "\<exists>r\<in>set readings. ed_edge r = nb_edge n \<and> usable cands curators r"
    unfolding linked_def by (metis neighbor.sel(2))
  with chain_snoc show ?case by auto
qed simp

end
