(* ===== verification/Projection_Properties.thy ===== *)
theory Projection_Properties
  imports Trust Ledger_Properties
begin

text \<open>
  The properties of projections, frontiers, edge readings, media and support queries.
\<close>

section \<open>Projections\<close>

text \<open>
  \<open>project\<close> ends without a panic on every corpus, with one row for every candidate in
  ascending order, one subject reading for every valid genesis, one edge reading for every valid
  assertion, and the authority of the analysis.
\<close>

theorem project_returns:
  assumes "distinct_ids H (fmdom' cands)"
  shows "\<exists>p an V. project H kok cands = Some p \<and> analyze H kok cands = Some an \<and>
    valid_subjects cands (an_admission an) = Some V \<and> pj_authority p = an_authority an \<and>
    map er_event (pj_rows p) = keys cands \<and> map sr_subject (pj_subjects p) = filter (is_genesis V) (keys V) \<and>
    map ed_edge (pj_edges p) = filter (valid_edge cands (an_admission an)) (keys cands)"
proof -
  obtain p an V o1 s where p: "project H kok cands = Some p" "analyze H kok cands = Some an"
    "classified H kok cands (an_admission an) V o1 s" "pj_authority p = an_authority an"
    "pj_subjects p = map (subject_view V (an_authority an)) (filter (is_genesis V) (keys V))"
    "map ed_edge (pj_edges p) = filter (valid_edge cands (an_admission an)) (keys cands)"
    "map (\<lambda>r. (er_event r, er_envelope r)) (pj_rows p) = map (\<lambda>eid. (eid, envelope_of (the (fmlookup cands eid)))) (keys cands)"
    using assms by (rule project_cases)
  have "map er_event (pj_rows p) = map fst (map (\<lambda>r. (er_event r, er_envelope r)) (pj_rows p))" by simp
  also have "\<dots> = keys cands" unfolding p(7) by (simp add: comp_def)
  finally show ?thesis using p classified_valid_subjects [OF p(3)] by (simp add: subject_view_def comp_def)
qed

theorem project_returns_witness:
  "\<exists>p an V. project sample_H (\<lambda>_. True) edge_corpus = Some p \<and> analyze sample_H (\<lambda>_. True) edge_corpus = Some an \<and>
    valid_subjects edge_corpus (an_admission an) = Some V \<and> pj_authority p = an_authority an \<and>
    map er_event (pj_rows p) = keys edge_corpus \<and> map sr_subject (pj_subjects p) = filter (is_genesis V) (keys V) \<and>
    map ed_edge (pj_edges p) = filter (valid_edge edge_corpus (an_admission an)) (keys edge_corpus)"
  by (rule project_returns [OF edge_distinct])

lemma projected:
  assumes "distinct_ids H (fmdom' cands)" "project H kok cands = Some p"
  obtains an V o1 s where "analyze H kok cands = Some an" "valid_subjects cands (an_admission an) = Some V"
    "classified H kok cands (an_admission an) V o1 s" "pj_authority p = an_authority an"
    "pj_subjects p = map (subject_view V (an_authority an)) (filter (is_genesis V) (keys V))"
    "\<forall>e\<in>set (pj_edges p). edge_view H cands (an_admission an) V (an_authority an) e"
    "\<forall>m\<in>set (pj_media p). media_view H cands (an_admission an) V m"
    "map (\<lambda>r. (er_event r, er_envelope r)) (pj_rows p) = map (\<lambda>eid. (eid, envelope_of (the (fmlookup cands eid)))) (keys cands)"
proof -
  obtain p' an V o1 s where p: "project H kok cands = Some p'" "analyze H kok cands = Some an"
    "classified H kok cands (an_admission an) V o1 s" "pj_authority p' = an_authority an"
    "pj_subjects p' = map (subject_view V (an_authority an)) (filter (is_genesis V) (keys V))"
    "\<forall>e\<in>set (pj_edges p'). edge_view H cands (an_admission an) V (an_authority an) e"
    "\<forall>m\<in>set (pj_media p'). media_view H cands (an_admission an) V m"
    "map (\<lambda>r. (er_event r, er_envelope r)) (pj_rows p') = map (\<lambda>eid. (eid, envelope_of (the (fmlookup cands eid)))) (keys cands)"
    using assms(1) by (rule project_cases)
  moreover have "p' = p" using p(1) assms(2) by simp
  ultimately show thesis using that classified_valid_subjects [OF p(3)] by blast
qed

text \<open>The subjects, edges and media of the sample ledger's projection, by name.\<close>

lemma edge_projected:
  obtains p an where "project sample_H (\<lambda>_. True) edge_corpus = Some p" "analyze sample_H (\<lambda>_. True) edge_corpus = Some an"
    "valid_subjects edge_corpus (an_admission an) = Some (fmdrop 5 (fmdrop 6 (fmdrop 7 edge_corpus)))"
    "5 \<in> ed_edge ` set (pj_edges p)" "7 \<in> me_attestation ` set (pj_media p)" "4 \<in> sr_subject ` set (pj_subjects p)"
proof -
  obtain an where an: "analyze sample_H (\<lambda>_. True) edge_corpus = Some an"
    "valid_subjects edge_corpus (an_admission an) = Some (fmdrop 5 (fmdrop 6 (fmdrop 7 edge_corpus)))" by (rule edge_analyzed)
  obtain p an' V' o1 s where p: "project sample_H (\<lambda>_. True) edge_corpus = Some p"
    "analyze sample_H (\<lambda>_. True) edge_corpus = Some an'" "classified sample_H (\<lambda>_. True) edge_corpus (an_admission an') V' o1 s"
    "pj_subjects p = map (subject_view V' (an_authority an')) (filter (is_genesis V') (keys V'))"
    "map ed_edge (pj_edges p) = filter (valid_edge edge_corpus (an_admission an')) (keys edge_corpus)"
    "map me_attestation (pj_media p) = filter (valid_media edge_corpus (an_admission an')) (keys edge_corpus)"
    using edge_distinct by (rule project_cases)
  have eq: "an' = an" "V' = fmdrop 5 (fmdrop 6 (fmdrop 7 edge_corpus))"
    using an p(2) classified_valid_subjects [OF p(3)] by simp_all
  have out: "an_admission an = fmap_of_list (map (\<lambda>n. (n, valid_status)) [7, 6, 5, 4, 3, 2, 1])"
  proof -
    have "classify sample_H (\<lambda>_. True) edge_corpus = Some (an_admission an)"
      using an(1) by (auto simp: analyze_def split: bind_splits if_splits)
    then show ?thesis using edge_classified by simp
  qed
  have "5 \<in> set (filter (valid_edge edge_corpus (an_admission an)) (keys edge_corpus))"
    "7 \<in> set (filter (valid_media edge_corpus (an_admission an)) (keys edge_corpus))"
    unfolding out by (simp_all add: valid_edge_def valid_media_def is_valid_def run)
  moreover have "4 \<in> set (filter (is_genesis V') (keys V'))" unfolding eq by (simp add: is_genesis_def run)
  moreover have subj: "map sr_subject (pj_subjects p) = filter (is_genesis V') (keys V')"
    unfolding p(4) by (simp add: subject_view_def comp_def)
  ultimately have "5 \<in> ed_edge ` set (pj_edges p)" "7 \<in> me_attestation ` set (pj_media p)" "4 \<in> sr_subject ` set (pj_subjects p)"
    unfolding subj [symmetric] p(5,6) [unfolded eq, symmetric] by simp_all
  with p(1) an that show thesis by blast
qed

lemma frontier_state_iff:
  "frontier_state F = ''no_current_body'' \<longleftrightarrow> F = {}" "frontier_state F = ''resolved'' \<longleftrightarrow> (\<exists>h. F = {h})"
  by (auto simp: frontier_state_def card_1_singleton_iff)

text \<open>
  The frontier of a subject is exactly the set of its eligible valid events that no other
  eligible event and no effective revocation of the subject has in its past; the state of the
  subject says whether the frontier is empty, a single event or contested.
\<close>

theorem frontier_maximal:
  assumes "distinct_ids H (fmdom' cands)" "project H kok cands = Some p" "analyze H kok cands = Some an"
    "valid_subjects cands (an_admission an) = Some V" "r \<in> set (pj_subjects p)"
  shows "is_genesis V (sr_subject r) \<and> sr_frontier r = frontier_of V (an_authority an) (sr_subject r) \<and>
    (sr_state r = ''no_current_body'' \<longleftrightarrow> sr_frontier r = {}) \<and>
    (sr_state r = ''resolved'' \<longleftrightarrow> (\<exists>h. sr_frontier r = {h})) \<and>
    (sr_frozen r \<longleftrightarrow> \<not> live_grant (an_authority an) (sr_subject r))"
proof -
  obtain an' V' o1 s where p: "analyze H kok cands = Some an'" "valid_subjects cands (an_admission an') = Some V'"
    "classified H kok cands (an_admission an') V' o1 s"
    "pj_subjects p = map (subject_view V' (an_authority an')) (filter (is_genesis V') (keys V'))"
    using assms(1,2) by (rule projected)
  then have eq: "an' = an" "V' = V" using assms(3,4) by auto
  from p(4) assms(5) obtain x where x: "is_genesis V x" "r = subject_view V (an_authority an) x" unfolding eq by auto
  then show ?thesis by (simp add: subject_view_def frontier_state_iff)
qed

theorem frontier_maximal_witness:
  "\<exists>p an V. project sample_H (\<lambda>_. True) edge_corpus = Some p \<and> analyze sample_H (\<lambda>_. True) edge_corpus = Some an \<and>
     (\<exists>r\<in>set (pj_subjects p). sr_subject r = 4 \<and> sr_frontier r = frontier_of V (an_authority an) 4)"
proof -
  obtain p an where p: "project sample_H (\<lambda>_. True) edge_corpus = Some p" "analyze sample_H (\<lambda>_. True) edge_corpus = Some an"
    "valid_subjects edge_corpus (an_admission an) = Some (fmdrop 5 (fmdrop 6 (fmdrop 7 edge_corpus)))"
    "5 \<in> ed_edge ` set (pj_edges p)" "7 \<in> me_attestation ` set (pj_media p)" "4 \<in> sr_subject ` set (pj_subjects p)"
    by (rule edge_projected)
  then obtain r where r: "r \<in> set (pj_subjects p)" "sr_subject r = 4" by auto
  from frontier_maximal [OF edge_distinct p(1-3) r(1)] p(1,2) r show ?thesis by metis
qed

text \<open>
  Two events of a frontier never build on each other.
\<close>

theorem frontier_antichain:
  assumes "distinct_ids H (fmdom' cands)" "project H kok cands = Some p" "analyze H kok cands = Some an"
    "valid_subjects cands (an_admission an) = Some V" "r \<in> set (pj_subjects p)" "x \<in> sr_frontier r" "y \<in> sr_frontier r"
    "x \<in> anc V y"
  shows "x = y"
proof -
  obtain an' V' o1 s where p: "analyze H kok cands = Some an'" "valid_subjects cands (an_admission an') = Some V'"
    "pj_subjects p = map (subject_view V' (an_authority an')) (filter (is_genesis V') (keys V'))"
    using assms(1,2) by (rule projected)
  then have "an' = an" "V' = V" using assms(3,4) by auto
  with p(3) assms(5-8) show ?thesis by (auto simp: subject_view_def frontier_of_def)
qed

theorem frontier_antichain_witness:
  "\<exists>p an V r. project sample_H (\<lambda>_. True) edge_corpus = Some p \<and> analyze sample_H (\<lambda>_. True) edge_corpus = Some an \<and>
     r \<in> set (pj_subjects p) \<and> sr_subject r = 4 \<and>
     (\<forall>x y. x \<in> sr_frontier r \<longrightarrow> y \<in> sr_frontier r \<longrightarrow> x \<in> anc V y \<longrightarrow> x = y)"
proof -
  obtain p an where p: "project sample_H (\<lambda>_. True) edge_corpus = Some p" "analyze sample_H (\<lambda>_. True) edge_corpus = Some an"
    "valid_subjects edge_corpus (an_admission an) = Some (fmdrop 5 (fmdrop 6 (fmdrop 7 edge_corpus)))"
    "5 \<in> ed_edge ` set (pj_edges p)" "7 \<in> me_attestation ` set (pj_media p)" "4 \<in> sr_subject ` set (pj_subjects p)"
    by (rule edge_projected)
  then obtain r where r: "r \<in> set (pj_subjects p)" "sr_subject r = 4" by auto
  from frontier_antichain [OF edge_distinct p(1-3) r(1)] p(1,2) r show ?thesis by blast
qed

text \<open>
  An edge reading is current exactly when the edge has a single head and, at both of its ends, the
  pinned subject has a single frontier event that builds on the pinned basis, selects the pinned
  revision, and has no revision created since the basis.
\<close>

theorem edge_current_iff:
  assumes "distinct_ids H (fmdom' cands)" "project H kok cands = Some p" "analyze H kok cands = Some an"
    "valid_subjects cands (an_admission an) = Some V" "e \<in> set (pj_edges p)"
  shows "valid_edge cands (an_admission an) (ed_edge e) \<and> ed_heads e = edge_heads cands (an_admission an) (ed_edge e) \<and>
    (ed_status e = ''current'' \<longleftrightarrow> (\<exists>ps. ed_pins e = [ps] \<and>
       pin_current H V (an_authority an) (pins_source ps) \<and> pin_current H V (an_authority an) (pins_target ps)))"
proof -
  obtain an' V' o1 s where p: "analyze H kok cands = Some an'" "valid_subjects cands (an_admission an') = Some V'"
    "\<forall>e\<in>set (pj_edges p). edge_view H cands (an_admission an') V' (an_authority an') e"
    using assms(1,2) by (rule projected)
  then have "an' = an" "V' = V" using assms(3,4) by auto
  with p(3) assms(5) have "edge_view H cands (an_admission an) V (an_authority an) e" by simp
  then show ?thesis unfolding edge_view_def valid_edge_def by (elim exE conjE) simp
qed

theorem edge_current_iff_witness:
  "\<exists>p an V e. project sample_H (\<lambda>_. True) edge_corpus = Some p \<and> analyze sample_H (\<lambda>_. True) edge_corpus = Some an \<and> e \<in> set (pj_edges p) \<and> ed_edge e = 5 \<and>
     (ed_status e = ''current'' \<longleftrightarrow> (\<exists>ps. ed_pins e = [ps] \<and>
       pin_current sample_H V (an_authority an) (pins_source ps) \<and> pin_current sample_H V (an_authority an) (pins_target ps)))"
proof -
  obtain p an where p: "project sample_H (\<lambda>_. True) edge_corpus = Some p" "analyze sample_H (\<lambda>_. True) edge_corpus = Some an"
    "valid_subjects edge_corpus (an_admission an) = Some (fmdrop 5 (fmdrop 6 (fmdrop 7 edge_corpus)))"
    "5 \<in> ed_edge ` set (pj_edges p)" "7 \<in> me_attestation ` set (pj_media p)" "4 \<in> sr_subject ` set (pj_subjects p)"
    by (rule edge_projected)
  then obtain e where e: "e \<in> set (pj_edges p)" "ed_edge e = 5" by auto
  from edge_current_iff [OF edge_distinct p(1-3) e(1)] p(1,2) e show ?thesis by blast
qed

text \<open>
  Media stays with what it attests: the reading of an attestation names the attested revision,
  or the revision that the attested event created, with the body of that very revision.
\<close>

theorem media_bound:
  assumes "distinct_ids H (fmdom' cands)" "project H kok cands = Some p" "analyze H kok cands = Some an"
    "valid_subjects cands (an_admission an) = Some V" "m \<in> set (pj_media p)"
  shows "media_view H cands (an_admission an) V m"
proof -
  obtain an' V' o1 s where p: "analyze H kok cands = Some an'" "valid_subjects cands (an_admission an') = Some V'"
    "\<forall>m\<in>set (pj_media p). media_view H cands (an_admission an') V' m"
    using assms(1,2) by (rule projected)
  then have "an' = an" "V' = V" using assms(3,4) by auto
  with p(3) assms(5) show ?thesis by simp
qed

theorem media_bound_witness:
  "\<exists>p an V m. project sample_H (\<lambda>_. True) edge_corpus = Some p \<and> analyze sample_H (\<lambda>_. True) edge_corpus = Some an \<and> m \<in> set (pj_media p) \<and> me_attestation m = 7 \<and>
     media_view sample_H edge_corpus (an_admission an) V m"
proof -
  obtain p an where p: "project sample_H (\<lambda>_. True) edge_corpus = Some p" "analyze sample_H (\<lambda>_. True) edge_corpus = Some an"
    "valid_subjects edge_corpus (an_admission an) = Some (fmdrop 5 (fmdrop 6 (fmdrop 7 edge_corpus)))"
    "5 \<in> ed_edge ` set (pj_edges p)" "7 \<in> me_attestation ` set (pj_media p)" "4 \<in> sr_subject ` set (pj_subjects p)"
    by (rule edge_projected)
  then obtain m where m: "m \<in> set (pj_media p)" "me_attestation m = 7" by auto
  from media_bound [OF edge_distinct p(1-3) m(1)] p(1,2) m show ?thesis by blast
qed

section \<open>Support\<close>

lemma graphed:
  assumes "distinct_ids H (fmdom' cands)" "project H kok cands = Some p"
  obtains g where "support_graph_of p curators = Some g" "graph_ok cands curators (pj_edges p) g"
    "\<And>x. fmlookup (gr_subjects g) x = Some ''resolved'' \<Longrightarrow> \<exists>sub\<in>set (pj_subjects p). sr_subject sub = x \<and>
       sr_state sub = ''resolved'' \<and> (\<exists>ev. fmlookup cands x = Some ev \<and> env_author (envelope_of ev) \<in> curators)"
proof -
  obtain an V o1 s where an: "analyze H kok cands = Some an" and p: "classified H kok cands (an_admission an) V o1 s"
    "pj_subjects p = map (subject_view V (an_authority an)) (filter (is_genesis V) (keys V))"
    "\<forall>e\<in>set (pj_edges p). edge_view H cands (an_admission an) V (an_authority an) e"
    "map (\<lambda>r. (er_event r, er_envelope r)) (pj_rows p) = map (\<lambda>eid. (eid, envelope_of (the (fmlookup cands eid)))) (keys cands)"
    using assms by (rule projected)
  show thesis using p(1,4,2,3) by (rule support_graph_cases) (rule that)
qed

text \<open>
  The support graph exists for every projection and every set of curators; its neighbor sets
  hold exactly the edges that are current, are no disputes and have curators as author and as authors of
  both end subjects, seen from both ends; every other edge is listed as excluded with a reason.
\<close>

theorem support_graph_exact:
  assumes "distinct_ids H (fmdom' cands)" "project H kok cands = Some p"
  shows "\<exists>g. support_graph_of p curators = Some g \<and>
    (\<forall>a n. n \<in> set (neighbors g a) \<longleftrightarrow> linked cands curators (set (pj_edges p)) a n) \<and>
    (\<forall>e. e \<in> set (pj_edges p) \<and> \<not> usable cands curators e \<longrightarrow>
      (\<exists>x. x \<in> set (gr_excluded g) \<and> ex_edge x = ed_edge e \<and> ex_reasons x \<noteq> []))"
proof -
  obtain g where "support_graph_of p curators = Some g" "graph_ok cands curators (pj_edges p) g"
    using assms by (rule graphed)
  then show ?thesis unfolding graph_ok_def set_neighbors by blast
qed

theorem support_graph_exact_witness:
  "\<exists>p g. project sample_H (\<lambda>_. True) edge_corpus = Some p \<and> support_graph_of p {7} = Some g \<and>
     (\<forall>a n. n \<in> set (neighbors g a) \<longleftrightarrow> linked edge_corpus {7} (set (pj_edges p)) a n)"
proof -
  obtain p an where p: "project sample_H (\<lambda>_. True) edge_corpus = Some p" "analyze sample_H (\<lambda>_. True) edge_corpus = Some an"
    by (rule edge_projected)
  from support_graph_exact [OF edge_distinct p(1), of "{7}"] p(1) show ?thesis by blast
qed

text \<open>
  C5: a support query always returns. An unknown or unresolved end, and equal ends, are answered as unsupported
  with the reasons of that; for two resolved subjects that differ the answer is \<open>Supported\<close> exactly when a
  chain of neighbor edges of at most \<open>max_hops\<close> edges joins them, the path is such a chain of least length,
  and otherwise the one reason is that there is no path. The exclusions at both ends are always appended.
\<close>

theorem query_shortest_path:
  "\<exists>r. query g from to max_hops = Some r \<and>
    (if subject_reason g from @ subject_reason g to \<noteq> [] then
       r = Unsupported (subject_reason g from @ subject_reason g to @ excluded_reasons g from to)
     else if from = to then
       r = Unsupported (\<lparr>re_code = ''same_subject'', re_subject = Some from, re_edge = None\<rparr> # excluded_reasons g from to)
     else case r of
       Supported path excluded \<Rightarrow> chain g from path to \<and> length path \<le> max_hops \<and> (\<forall>k < length path. \<not> within g from k to) \<and>
         excluded = excluded_reasons g from to
     | Unsupported reasons \<Rightarrow> \<not> within g from max_hops to \<and>
         reasons = \<lparr>re_code = ''no_current_support_path'', re_subject = None, re_edge = None\<rparr> # excluded_reasons g from to)"
proof (cases "subject_reason g from @ subject_reason g to = [] \<and> from \<noteq> to")
  case True
  then obtain r where r: "query g from to max_hops = Some r" and spec: "case r of
      Supported path excluded \<Rightarrow> chain g from path to \<and> length path \<le> max_hops \<and> (\<forall>k < length path. \<not> within g from k to) \<and>
        excluded = excluded_reasons g from to
    | Unsupported reasons \<Rightarrow> \<not> within g from max_hops to" using query_spec [of g "from" to max_hops] by auto
  have "reasons = \<lparr>re_code = ''no_current_support_path'', re_subject = None, re_edge = None\<rparr> # excluded_reasons g from to"
    if "r = Unsupported reasons" for reasons
    using r that True by (auto simp: query_def Let_def split: option.splits)
  with r spec True show ?thesis by (cases r) simp_all
next
  case False
  then show ?thesis by (auto simp: query_def Let_def)
qed

text \<open>A graph with the single edge 5 between the subjects 1 and 4.\<close>

definition pair_graph :: support_graph where
  "pair_graph = \<lparr>gr_neighbors = fmap_of_list [(1, {|Neighbor 4 5 ''influence''|}), (4, {|Neighbor 1 5 ''influence''|})],
     gr_excluded = [], gr_subjects = fmap_of_list [(1, ''resolved''), (4, ''resolved'')]\<rparr>"

lemma pair_graph_query: "query pair_graph 1 4 3 = Some (Supported [5] [])"
proof -
  have "neighbors pair_graph 1 = [Neighbor 4 5 ''influence'']"
    by (simp add: neighbors_def neighbors_at_def pair_graph_def sorted_list_of_fset.rep_eq)
  then show ?thesis
    by (simp add: query_def subject_reason_def pair_graph_def excluded_reasons_def numeral_3_eq_3 visit_level_def
        visit_neighbor_def has_def path_back_def path_step_def while_loop.simps)
qed

theorem query_shortest_path_witness:
  "chain pair_graph 1 [5] 4 \<and> length [5 :: hash] \<le> 3 \<and> \<not> within pair_graph 1 0 4 \<and>
    query pair_graph 1 1 3 = Some (Unsupported [\<lparr>re_code = ''same_subject'', re_subject = Some 1, re_edge = None\<rparr>])"
proof -
  have "subject_reason pair_graph 1 = []" "subject_reason pair_graph 4 = []" "excluded_reasons pair_graph 1 1 = []"
    by (simp_all add: subject_reason_def pair_graph_def excluded_reasons_def)
  with query_shortest_path [of pair_graph 1 4 3] query_shortest_path [of pair_graph 1 1 3] show ?thesis
    by (simp add: pair_graph_query)
qed

text \<open>
  Whatever a query returns as \<open>Supported\<close> rests on usable edges only: both subjects are
  resolved subjects of curators, and every edge of the path is a current, undisputed, curated one.
\<close>

theorem supported_path_trusted:
  assumes "distinct_ids H (fmdom' cands)" "project H kok cands = Some p" "support_graph_of p curators = Some g"
    "query g from to max_hops = Some (Supported path excluded)"
  shows "chain g from path to \<and> length path \<le> max_hops \<and>
    (\<forall>e. e \<in> set path \<longrightarrow> (\<exists>r. r \<in> set (pj_edges p) \<and> ed_edge r = e \<and> usable cands curators r)) \<and>
    (\<forall>x. x = from \<or> x = to \<longrightarrow> (\<exists>sub ev. sub \<in> set (pj_subjects p) \<and> sr_subject sub = x \<and> sr_state sub = ''resolved'' \<and>
      fmlookup cands x = Some ev \<and> env_author (envelope_of ev) \<in> curators))"
proof -
  obtain g' where "support_graph_of p curators = Some g'" "graph_ok cands curators (pj_edges p) g'"
    "\<And>x. fmlookup (gr_subjects g') x = Some ''resolved'' \<Longrightarrow> \<exists>sub\<in>set (pj_subjects p). sr_subject sub = x \<and>
       sr_state sub = ''resolved'' \<and> (\<exists>ev. fmlookup cands x = Some ev \<and> env_author (envelope_of ev) \<in> curators)"
    using assms(1,2) by (rule graphed) blast
  then have g: "graph_ok cands curators (pj_edges p) g"
    "\<And>x. fmlookup (gr_subjects g) x = Some ''resolved'' \<Longrightarrow> \<exists>sub\<in>set (pj_subjects p). sr_subject sub = x \<and>
       sr_state sub = ''resolved'' \<and> (\<exists>ev. fmlookup cands x = Some ev \<and> env_author (envelope_of ev) \<in> curators)"
    using assms(3) by auto
  have no: "subject_reason g from = []" "subject_reason g to = []" "from \<noteq> to"
    using assms(4) by (auto simp: query_def Let_def split: if_splits)
  then have "fmlookup (gr_subjects g) from = Some ''resolved''" "fmlookup (gr_subjects g) to = Some ''resolved''"
    by (auto simp: subject_reason_def Let_def split: option.splits if_splits)
  moreover have path: "chain g from path to" "length path \<le> max_hops"
    using query_spec [OF no, of max_hops] assms(4) by auto
  ultimately show ?thesis using g chain_edges [OF path(1) g(1)] by blast
qed

section \<open>Running the projection\<close>

lemma collect_insert [run]: "{x. x = a \<or> P x} = insert a {x. P x}"
  by auto

lemmas [run] = cone_step_def cone_table_def strict_past_def consumed_def common_past_def chain_state_def
  subject_events_def no_reason_def subject_frontier_def subject_row_def grants_subject_def frontier_state_def
  subject_step_def creates_revision_def endpoint_def valid_at_def edge_member_def edge_row_def side_reason_def
  edge_status_def edge_reading_step_def media_revision_def media_step_def project_edges_def event_row_def project_def
  insert_Diff_if

lemmas [run] = graph_authors_def graph_subject_def origin_reason_def edge_reasons_def neighbors_at_def add_neighbor_def
  graph_edge_def row_exclusion_def support_graph_of_def neighbors_def subject_reason_def excluded_reasons_def
  visit_neighbor_def visit_level_def path_step_def path_back_def query_def sorted_list_of_fset.rep_eq

lemma sample_supported: "\<exists>p g. project sample_H (\<lambda>_. True) sample_corpus = Some p \<and> support_graph_of p {7} = Some g \<and>
    query g 1 3 (Suc (Suc 0)) = Some (Supported [4] [])"
  by (simp add: run)

theorem supported_path_trusted_witness:
  "\<exists>p g. project sample_H (\<lambda>_. True) sample_corpus = Some p \<and> support_graph_of p {7} = Some g \<and>
     query g 1 3 (Suc (Suc 0)) = Some (Supported [4] []) \<and> chain g 1 [4] 3 \<and>
     (\<exists>r. r \<in> set (pj_edges p) \<and> ed_edge r = 4 \<and> usable sample_corpus {7} r)"
proof -
  obtain p g where p: "project sample_H (\<lambda>_. True) sample_corpus = Some p" "support_graph_of p {7} = Some g"
    "query g 1 3 (Suc (Suc 0)) = Some (Supported [4] [])" using sample_supported by blast
  from supported_path_trusted [OF sample_distinct p] p show ?thesis by auto
qed

end
