(* ===== verification/Receipts.thy ===== *)
theory Receipts
  imports Signed_Events
begin

text \<open>
  Signed node observations: receipts (\<^verbatim>\<open>crates/cc-core/src/v1/receipt.rs\<close>) and seals
  (\<^verbatim>\<open>crates/cc-core/src/v1/seal.rs\<close>). Both follow the pattern of signed events: a framed domain,
  the canonical encoding of a record and 64 signature bytes. The pattern is the locale
  \<open>signed_message\<close>; events, receipts and seals are its three instances, and two instances with
  different domains accept no byte string in common.
\<close>

section \<open>Receipts and seals\<close>

record fold_ref =
  fr_version :: u16
  fr_manifest :: hash

datatype admission_result = R_Valid | R_Pending | R_Invalid

record initial_result =
  ir_state :: admission_result
  ir_reason :: string
  ir_missing :: "hash list"

record node_receipt =
  nr_instance :: hash
  nr_node_key :: hash
  nr_event :: hash
  nr_received_at :: u64
  nr_encoding_version :: u16
  nr_fold_version :: fold_ref
  nr_initial_admission_result :: initial_result

record seal_counts =
  sc_candidates :: u64

record node_seal =
  ns_instance :: hash
  ns_node_key :: hash
  ns_fold_version :: fold_ref
  ns_filter_version :: hash
  ns_corpus_digest :: hash
  ns_commitment :: hash
  ns_counts :: seal_counts
  ns_build :: string
  ns_sealed_at_us :: u64

section \<open>Codecs\<close>

definition put_u64 :: "u64 \<Rightarrow> byte list result" where
  "put_u64 v = Inr (to_be_bytes 8 v)"

definition get_u64 :: "(wire_error, u64) decoder" where
  "get_u64 = pbind (get_take 8) (\<lambda>b. pret (from_be_bytes b))"

fun admission_tag :: "admission_result \<Rightarrow> u16" where
  "admission_tag R_Valid = 1"
| "admission_tag R_Pending = 2"
| "admission_tag R_Invalid = 3"

definition put_admission :: "admission_result \<Rightarrow> byte list result" where
  "put_admission a = put_u16 (admission_tag a)"

definition get_admission :: "(wire_error, admission_result) decoder" where
  "get_admission = pbind get_u16 (\<lambda>t. if t = 1 then pret R_Valid else if t = 2 then pret R_Pending
     else if t = 3 then pret R_Invalid else pfail ''unknown_tag'')"

definition put_fold_ref :: "fold_ref \<Rightarrow> byte list result" where
  "put_fold_ref f = puts [put_u16 (fr_version f), put_hash (fr_manifest f)]"

definition get_fold_ref :: "(wire_error, fold_ref) decoder" where
  "get_fold_ref = pbind get_u16 (\<lambda>v. pbind get_hash (\<lambda>m. pret \<lparr>fr_version = v, fr_manifest = m\<rparr>))"

definition put_initial_result :: "initial_result \<Rightarrow> byte list result" where
  "put_initial_result r = puts [put_admission (ir_state r), put_string (ir_reason r), put_set id put_hash (ir_missing r)]"

definition get_initial_result :: "(wire_error, initial_result) decoder" where
  "get_initial_result = pbind get_admission (\<lambda>a. pbind get_string (\<lambda>s. pbind (get_set id get_hash) (\<lambda>m.
     pret \<lparr>ir_state = a, ir_reason = s, ir_missing = m\<rparr>)))"

definition put_receipt :: "node_receipt \<Rightarrow> byte list result" where
  "put_receipt r = puts [put_hash (nr_instance r), put_hash (nr_node_key r), put_hash (nr_event r),
     put_u64 (nr_received_at r), put_u16 (nr_encoding_version r), put_fold_ref (nr_fold_version r),
     put_initial_result (nr_initial_admission_result r)]"

definition get_receipt :: "(wire_error, node_receipt) decoder" where
  "get_receipt = pbind get_hash (\<lambda>i. pbind get_hash (\<lambda>k. pbind get_hash (\<lambda>e. pbind get_u64 (\<lambda>t.
     pbind get_u16 (\<lambda>v. pbind get_fold_ref (\<lambda>f. pbind get_initial_result (\<lambda>r.
       pret \<lparr>nr_instance = i, nr_node_key = k, nr_event = e, nr_received_at = t, nr_encoding_version = v,
         nr_fold_version = f, nr_initial_admission_result = r\<rparr>)))))))"

definition put_seal_counts :: "seal_counts \<Rightarrow> byte list result" where
  "put_seal_counts c = put_u64 (sc_candidates c)"

definition get_seal_counts :: "(wire_error, seal_counts) decoder" where
  "get_seal_counts = pbind get_u64 (\<lambda>c. pret \<lparr>sc_candidates = c\<rparr>)"

definition put_seal :: "node_seal \<Rightarrow> byte list result" where
  "put_seal s = puts [put_hash (ns_instance s), put_hash (ns_node_key s), put_fold_ref (ns_fold_version s),
     put_hash (ns_filter_version s), put_hash (ns_corpus_digest s), put_hash (ns_commitment s),
     put_seal_counts (ns_counts s), put_string (ns_build s), put_u64 (ns_sealed_at_us s)]"

definition get_seal :: "(wire_error, node_seal) decoder" where
  "get_seal = pbind get_hash (\<lambda>i. pbind get_hash (\<lambda>k. pbind get_fold_ref (\<lambda>f. pbind get_hash (\<lambda>v.
     pbind get_hash (\<lambda>d. pbind get_hash (\<lambda>c. pbind get_seal_counts (\<lambda>n. pbind get_string (\<lambda>b. pbind get_u64 (\<lambda>t.
       pret \<lparr>ns_instance = i, ns_node_key = k, ns_fold_version = f, ns_filter_version = v, ns_corpus_digest = d,
         ns_commitment = c, ns_counts = n, ns_build = b, ns_sealed_at_us = t\<rparr>)))))))))"

section \<open>Receipts\<close>

definition receipt_result_bad :: "initial_result \<Rightarrow> bool" where
  "receipt_result_bad r \<longleftrightarrow>
     (ir_state r = R_Valid \<and> (ir_reason r \<noteq> [] \<or> ir_missing r \<noteq> [])) \<or>
     (ir_state r \<noteq> R_Valid \<and> ir_reason r = []) \<or>
     (ir_state r \<noteq> R_Pending \<and> ir_missing r \<noteq> [])"

definition receipt_preimage :: "node_receipt \<Rightarrow> byte list result" where
  "receipt_preimage r = guard (nr_encoding_version r \<noteq> CANON_VERSION) ''unsupported_encoding''
     (guard (receipt_result_bad (nr_initial_admission_result r)) ''receipt_result''
     (rbind (puts [put_string ''cc.receipt.v1'', put_receipt r]) (\<lambda>w.
      guard (length w + 64 > MAX_ENVELOPE) ''envelope_too_large'' (Inr w))))"

record signed_receipt =
  rc_receipt :: node_receipt
  rc_bytes :: "byte list"

text \<open>\<open>!r.0.is_empty() || x.preimage()? != preimage\<close>: the preimage is computed only at the end of input.\<close>

definition exact_check :: "byte list \<Rightarrow> byte list result \<Rightarrow> byte list \<Rightarrow> unit result" where
  "exact_check rest again pre =
     (if rest \<noteq> [] then Inl ''noncanonical''
      else rbind again (\<lambda>p. if p \<noteq> pre then Inl ''noncanonical'' else Inr ()))"

definition receipt_decode :: "'sk crypto \<Rightarrow> byte list \<Rightarrow> signed_receipt result" where
  "receipt_decode C bytes = guard (length bytes > MAX_ENVELOPE) ''envelope_too_large''
     (guard (length bytes < 64) ''truncated''
     (let split = length bytes - 64; pre = take split bytes; sig = drop split bytes in
      rbind (get_string pre) (\<lambda>(domain, r).
      guard (domain \<noteq> ''cc.receipt.v1'') ''receipt_domain''
      (rbind (get_receipt r) (\<lambda>(receipt, rest).
      rbind (exact_check rest (receipt_preimage receipt) pre) (\<lambda>_.
      guard (\<not> key_ok C (nr_node_key receipt)) ''bad_signature''
      (guard (\<not> verify_strict C (nr_node_key receipt) pre sig) ''bad_signature''
      (Inr \<lparr>rc_receipt = receipt, rc_bytes = bytes\<rparr>))))))))"

definition receipt_sign :: "'sk crypto \<Rightarrow> 'sk \<Rightarrow> node_receipt \<Rightarrow> signed_receipt result" where
  "receipt_sign C key r0 =
     (let r = r0\<lparr>nr_node_key := public_key C key\<rparr> in
      rbind (receipt_preimage r) (\<lambda>bytes. receipt_decode C (bytes @ sign_message C key bytes)))"

section \<open>Seals\<close>

definition SEAL_DOMAIN :: string where
  "SEAL_DOMAIN = ''cc.seal.v1''"

definition MAX_BUILD :: nat where
  "MAX_BUILD = 64"

text \<open>\<open>u8::is_ascii_graphic\<close>: from \<open>'!'\<close> to \<open>'~'\<close>.\<close>

definition is_ascii_graphic :: "byte \<Rightarrow> bool" where
  "is_ascii_graphic b \<longleftrightarrow> 0x21 \<le> b \<and> b \<le> 0x7E"

definition seal_build_bad :: "string \<Rightarrow> bool" where
  "seal_build_bad b \<longleftrightarrow> b = [] \<or> length b > MAX_BUILD \<or> \<not> list_all is_ascii_graphic (as_bytes b)"

definition seal_preimage :: "node_seal \<Rightarrow> byte list result" where
  "seal_preimage s = guard (seal_build_bad (ns_build s)) ''seal_build'' (puts [put_string SEAL_DOMAIN, put_seal s])"

record signed_seal =
  ss_seal :: node_seal
  ss_bytes :: "byte list"

definition verify_seal :: "'sk crypto \<Rightarrow> node_seal \<Rightarrow> byte list \<Rightarrow> unit result" where
  "verify_seal C seal sig = rbind (seal_preimage seal) (\<lambda>pre.
     guard (\<not> key_ok C (ns_node_key seal)) ''bad_signature''
     (guard (\<not> verify_strict C (ns_node_key seal) pre sig) ''bad_signature'' (Inr ())))"

definition seal_decode :: "'sk crypto \<Rightarrow> byte list \<Rightarrow> signed_seal result" where
  "seal_decode C bytes = guard (length bytes > MAX_ENVELOPE) ''envelope_too_large''
     (guard (length bytes < 64) ''truncated''
     (let split = length bytes - 64; pre = take split bytes; sig = drop split bytes in
      rbind (get_string pre) (\<lambda>(domain, r).
      guard (domain \<noteq> SEAL_DOMAIN) ''seal_domain''
      (rbind (get_seal r) (\<lambda>(seal, rest).
      rbind (exact_check rest (seal_preimage seal) pre) (\<lambda>_.
      rbind (verify_seal C seal sig) (\<lambda>_.
      Inr \<lparr>ss_seal = seal, ss_bytes = bytes\<rparr>)))))))"

definition sign_seal :: "'sk crypto \<Rightarrow> 'sk \<Rightarrow> node_seal \<Rightarrow> signed_seal result" where
  "sign_seal C key s0 =
     (let s = s0\<lparr>ns_node_key := public_key C key\<rparr> in
      rbind (seal_preimage s) (\<lambda>bytes. seal_decode C (bytes @ sign_message C key bytes)))"

text \<open>\<open>self.bytes[self.bytes.len() - 64..]\<close>; a signed seal is never shorter than 64 bytes.\<close>

definition seal_signature :: "signed_seal \<Rightarrow> byte list" where
  "seal_signature s = drop (length (ss_bytes s) - 64) (ss_bytes s)"

section \<open>The codecs are exact\<close>

interpretation u64: wire put_u64 get_u64 "\<lambda>_. True"
  unfolding put_u64_def get_u64_def get_take_def
  by (rule wire_fixed) (simp_all add: from_to_be_bytes to_from_be_bytes_n)

interpretation wadmission: wire put_admission get_admission "\<lambda>_. True"
  unfolding put_admission_def get_admission_def
proof (rule wire_tag)
  fix k r
  show "(if admission_tag k = 1 then pret R_Valid else if admission_tag k = 2 then pret R_Pending
     else if admission_tag k = 3 then pret R_Invalid else pfail ''unknown_tag'') r = Inr (k, r)"
    by (cases k) simp_all
qed (auto split: if_splits)

lemmas note_puts = pbind_puts pbind_put [OF u64.wire_axioms] pbind_put [OF wadmission.wire_axioms]
lemmas note_gets = pbind_gets pbind_get [OF u64.wire_axioms] pbind_get [OF wadmission.wire_axioms]

interpretation wfold: wire put_fold_ref get_fold_ref "\<lambda>_. True"
proof
  fix x bs r
  show "put_fold_ref x = Inr bs \<Longrightarrow> True \<Longrightarrow> get_fold_ref (bs @ r) = Inr (x, r)"
    by (auto simp: put_fold_ref_def get_fold_ref_def cat2_eq_Inr note_puts)
  show "get_fold_ref bs = Inr (x, r) \<Longrightarrow> length bs \<le> MAX_ENVELOPE \<Longrightarrow> True \<and> (\<exists>b. put_fold_ref x = Inr b \<and> bs = b @ r)"
    unfolding get_fold_ref_def by (auto elim!: note_gets simp: put_fold_ref_def)
qed

interpretation wresult: wire put_initial_result get_initial_result "\<lambda>r. str_ok (ir_reason r)"
proof
  fix x bs r
  show "put_initial_result x = Inr bs \<Longrightarrow> str_ok (ir_reason x) \<Longrightarrow> get_initial_result (bs @ r) = Inr (x, r)"
    by (auto simp: put_initial_result_def get_initial_result_def cat2_eq_Inr note_puts)
  show "get_initial_result bs = Inr (x, r) \<Longrightarrow> length bs \<le> MAX_ENVELOPE \<Longrightarrow>
      str_ok (ir_reason x) \<and> (\<exists>b. put_initial_result x = Inr b \<and> bs = b @ r)"
    unfolding get_initial_result_def by (auto elim!: note_gets simp: put_initial_result_def)
qed

definition receipt_ok :: "node_receipt \<Rightarrow> bool" where
  "receipt_ok r \<longleftrightarrow> str_ok (ir_reason (nr_initial_admission_result r))"

definition seal_ok :: "node_seal \<Rightarrow> bool" where
  "seal_ok s \<longleftrightarrow> str_ok (ns_build s)"

interpretation wcounts: wire put_seal_counts get_seal_counts "\<lambda>_. True"
proof
  fix x bs r
  show "put_seal_counts x = Inr bs \<Longrightarrow> True \<Longrightarrow> get_seal_counts (bs @ r) = Inr (x, r)"
    by (simp add: put_seal_counts_def get_seal_counts_def note_puts)
  show "get_seal_counts bs = Inr (x, r) \<Longrightarrow> length bs \<le> MAX_ENVELOPE \<Longrightarrow> True \<and> (\<exists>b. put_seal_counts x = Inr b \<and> bs = b @ r)"
    unfolding get_seal_counts_def by (auto elim!: note_gets simp: put_seal_counts_def)
qed

lemmas message_puts = note_puts pbind_put [OF wfold.wire_axioms] pbind_put [OF wresult.wire_axioms]
  pbind_put [OF wcounts.wire_axioms]
lemmas message_gets = note_gets pbind_get [OF wfold.wire_axioms] pbind_get [OF wresult.wire_axioms]
  pbind_get [OF wcounts.wire_axioms]

interpretation wreceipt: wire put_receipt get_receipt receipt_ok
proof
  fix x bs r
  show "put_receipt x = Inr bs \<Longrightarrow> receipt_ok x \<Longrightarrow> get_receipt (bs @ r) = Inr (x, r)"
    by (auto simp: put_receipt_def get_receipt_def receipt_ok_def cat2_eq_Inr message_puts)
  show "get_receipt bs = Inr (x, r) \<Longrightarrow> length bs \<le> MAX_ENVELOPE \<Longrightarrow>
      receipt_ok x \<and> (\<exists>b. put_receipt x = Inr b \<and> bs = b @ r)"
    unfolding get_receipt_def by (auto elim!: message_gets simp: put_receipt_def receipt_ok_def)
qed

interpretation wseal: wire put_seal get_seal seal_ok
proof
  fix x bs r
  show "put_seal x = Inr bs \<Longrightarrow> seal_ok x \<Longrightarrow> get_seal (bs @ r) = Inr (x, r)"
    by (auto simp: put_seal_def get_seal_def seal_ok_def cat2_eq_Inr message_puts)
  show "get_seal bs = Inr (x, r) \<Longrightarrow> length bs \<le> MAX_ENVELOPE \<Longrightarrow> seal_ok x \<and> (\<exists>b. put_seal x = Inr b \<and> bs = b @ r)"
    unfolding get_seal_def by (auto elim!: message_gets simp: put_seal_def seal_ok_def)
qed

end
