(* ===== verification/Messages.thy ===== *)
theory Messages
  imports Receipts
begin

text \<open>
  What the three kinds of signed message promise. The locale \<open>signed_message\<close> states the common
  contract of events, receipts and seals; \<open>message_pair\<close> combines two kinds with different domains.
\<close>

section \<open>The contract\<close>

definition framed :: "string \<Rightarrow> byte list" where
  "framed domain = to_be_bytes 4 (word_of_nat (length domain) :: u32) @ as_bytes domain"

lemma put_string_framed: "put_string s = Inr w \<longleftrightarrow> length s \<le> MAX_ENVELOPE \<and> w = framed s"
  by (auto simp: put_string_def framed_def put_u32_def guard_eq_Inr not_less)

text \<open>A frame announces its own length, so no two short domains frame the same bytes.\<close>

lemma framed_inject:
  assumes "framed a @ r = framed b @ s" "length a \<le> MAX_ENVELOPE" "length b \<le> MAX_ENVELOPE"
  shows "a = b \<and> r = s"
proof -
  have "word_of_nat (length a) = (word_of_nat (length b) :: u32)"
    using assms(1) by (simp add: framed_def to_be_bytes_inject)
  then have "unat (word_of_nat (length a) :: u32) = unat (word_of_nat (length b) :: u32)" by simp
  then have "length a = length b" using assms(2,3) by (simp only: length_word32)
  with assms(1) show ?thesis by (simp add: framed_def)
qed

locale signed_message =
  fixes domain :: string
    and pre :: "'m \<Rightarrow> byte list result"
    and good :: "'m \<Rightarrow> bool"
    and signer :: "'m \<Rightarrow> hash"
    and accepts :: "'sk crypto \<Rightarrow> byte list \<Rightarrow> 'm \<Rightarrow> bool"
  assumes domain_short: "length domain \<le> MAX_ENVELOPE"
    and pre_framed: "\<And>m w. pre m = Inr w \<Longrightarrow> \<exists>r. w = framed domain @ r"
    and pre_inject: "\<And>m m' w. pre m = Inr w \<Longrightarrow> pre m' = Inr w \<Longrightarrow> good m \<Longrightarrow> good m' \<Longrightarrow> m = m'"
    and accepts_iff: "\<And>C bytes m. accepts C bytes m \<longleftrightarrow> (\<exists>w sig. bytes = w @ sig \<and> length sig = 64 \<and>
      length bytes \<le> MAX_ENVELOPE \<and> good m \<and> pre m = Inr w \<and> key_ok C (signer m) \<and>
      verify_strict C (signer m) w sig)"
begin

lemma accepts_unique: "accepts C bytes m \<Longrightarrow> accepts D bytes m' \<Longrightarrow> m = m'"
  unfolding accepts_iff using pre_inject by fastforce

lemma accepts_framed: "accepts C bytes m \<Longrightarrow> \<exists>r. bytes = framed domain @ r"
  unfolding accepts_iff using pre_framed by fastforce

lemma accepts_signed:
  assumes "crypto_laws C" "good m" "pre m = Inr w" "length w + 64 \<le> MAX_ENVELOPE" "signer m = public_key C sk"
  shows "accepts C (w @ sign_message C sk w) m"
  using assms unfolding accepts_iff crypto_laws_def by (metis length_append)

end

locale message_pair =
  a: signed_message domain pre good signer accepts + b: signed_message domain' pre' good' signer' accepts'
  for domain pre good signer and accepts :: "'sk crypto \<Rightarrow> byte list \<Rightarrow> 'm \<Rightarrow> bool"
    and domain' pre' good' signer' and accepts' :: "'tk crypto \<Rightarrow> byte list \<Rightarrow> 'n \<Rightarrow> bool" +
  assumes domains_differ: "domain \<noteq> domain'"
begin

lemma disjoint: "accepts C bytes m \<Longrightarrow> \<not> accepts' D bytes n"
  using a.accepts_framed b.accepts_framed a.domain_short b.domain_short domains_differ framed_inject by metis

end

section \<open>Events\<close>

definition event_accepts :: "'sk crypto \<Rightarrow> byte list \<Rightarrow> envelope \<Rightarrow> bool" where
  "event_accepts C bytes e \<longleftrightarrow> (\<exists>s. decode C bytes = Inr s \<and> sg_envelope s = e)"

interpretation events: signed_message "''cc.event.v1''" preimage envelope_ok env_author event_accepts
proof
  fix m w
  assume "preimage m = Inr w"
  then show "\<exists>r. w = framed ''cc.event.v1'' @ r"
    by (auto simp: preimage_Inr put_envelope_def cat2_eq_Inr put_string_framed)
next
  fix C :: "'a crypto" and bytes m
  show "event_accepts C bytes m \<longleftrightarrow> (\<exists>w sig. bytes = w @ sig \<and> length sig = 64 \<and> length bytes \<le> MAX_ENVELOPE \<and>
      envelope_ok m \<and> preimage m = Inr w \<and> key_ok C (env_author m) \<and> verify_strict C (env_author m) w sig)"
    unfolding event_accepts_def decode_Inr by fastforce
qed (auto simp: MAX_ENVELOPE_def intro: preimage_inject)

section \<open>Receipts\<close>

lemma exact_check_Inr: "exact_check rest again pre = Inr u \<longleftrightarrow> rest = [] \<and> again = Inr pre"
  by (auto simp: exact_check_def rbind_eq_Inr)

lemma str_ok_domains [simp]: "str_ok ''cc.receipt.v1''" "str_ok ''cc.seal.v1''"
  by code_simp+

lemma receipt_preimage_Inr:
  "receipt_preimage r = Inr w \<longleftrightarrow> nr_encoding_version r = CANON_VERSION \<and>
     \<not> receipt_result_bad (nr_initial_admission_result r) \<and> length w + 64 \<le> MAX_ENVELOPE \<and>
     (\<exists>b. put_receipt r = Inr b \<and> w = framed ''cc.receipt.v1'' @ b)"
  by (auto simp: receipt_preimage_def guard_eq_Inr rbind_eq_Inr cat2_eq_Inr put_string_framed not_less MAX_ENVELOPE_def)

lemma receipt_decode_Inr:
  "receipt_decode C bytes = Inr s \<longleftrightarrow> (\<exists>r pre sig. bytes = pre @ sig \<and> length sig = 64 \<and>
     length bytes \<le> MAX_ENVELOPE \<and> receipt_ok r \<and> receipt_preimage r = Inr pre \<and>
     key_ok C (nr_node_key r) \<and> verify_strict C (nr_node_key r) pre sig \<and>
     s = \<lparr>rc_receipt = r, rc_bytes = bytes\<rparr>)" (is "?l = ?r")
proof
  assume l: ?l
  define pre where "pre = take (length bytes - 64) bytes"
  define sig where "sig = drop (length bytes - 64) bytes"
  from l obtain m r where b: "64 \<le> length bytes" "length bytes \<le> MAX_ENVELOPE"
    and str: "get_string pre = Inr (''cc.receipt.v1'', m)" and get: "get_receipt m = Inr (r, [])"
    and "receipt_preimage r = Inr pre"
    and "key_ok C (nr_node_key r)" "verify_strict C (nr_node_key r) pre sig" "s = \<lparr>rc_receipt = r, rc_bytes = bytes\<rparr>"
    by (auto simp: receipt_decode_def Let_def guard_eq_Inr rbind_eq_Inr exact_check_Inr not_less
        pre_def sig_def split: prod.splits)
  moreover have "receipt_ok r"
    using wreceipt.put_get [OF get] str.get_shorter [OF str] b by (force simp: pre_def)
  moreover have "bytes = pre @ sig" "length sig = 64" using b by (simp_all add: pre_def sig_def)
  ultimately show ?r by blast
next
  assume ?r
  then obtain r pre sig where h: "bytes = pre @ sig" "length sig = 64" "length bytes \<le> MAX_ENVELOPE"
    "receipt_ok r" "receipt_preimage r = Inr pre" "key_ok C (nr_node_key r)" "verify_strict C (nr_node_key r) pre sig"
    "s = \<lparr>rc_receipt = r, rc_bytes = bytes\<rparr>" by blast
  from h(5) obtain b where b: "put_receipt r = Inr b" "pre = framed ''cc.receipt.v1'' @ b"
    unfolding receipt_preimage_Inr by blast
  have "get_string (framed ''cc.receipt.v1'' @ b) = Inr (''cc.receipt.v1'', b)"
    by (rule str.get_put) (simp_all add: put_string_framed MAX_ENVELOPE_def)
  moreover have "get_receipt b = Inr (r, [])" using wreceipt.get_put [OF b(1) h(4), of "[]"] by simp
  ultimately show ?l using h by (simp add: receipt_decode_def exact_check_def b(2))
qed

definition receipt_accepts :: "'sk crypto \<Rightarrow> byte list \<Rightarrow> node_receipt \<Rightarrow> bool" where
  "receipt_accepts C bytes r \<longleftrightarrow> (\<exists>s. receipt_decode C bytes = Inr s \<and> rc_receipt s = r)"

interpretation receipts: signed_message "''cc.receipt.v1''" receipt_preimage receipt_ok nr_node_key receipt_accepts
proof
  fix m m' w
  assume "receipt_preimage m = Inr w" "receipt_preimage m' = Inr w" "receipt_ok m" "receipt_ok m'"
  then show "m = m'" unfolding receipt_preimage_Inr by (auto intro: wreceipt.put_inject)
next
  fix C :: "'a crypto" and bytes m
  show "receipt_accepts C bytes m \<longleftrightarrow> (\<exists>w sig. bytes = w @ sig \<and> length sig = 64 \<and> length bytes \<le> MAX_ENVELOPE \<and>
      receipt_ok m \<and> receipt_preimage m = Inr w \<and> key_ok C (nr_node_key m) \<and> verify_strict C (nr_node_key m) w sig)"
    unfolding receipt_accepts_def receipt_decode_Inr by fastforce
qed (auto simp: MAX_ENVELOPE_def receipt_preimage_Inr)

section \<open>Seals\<close>

lemma byte_of_ascii: "is_ascii_graphic b \<Longrightarrow> b < 0x80"
  unfolding is_ascii_graphic_def by unat_arith

lemma seal_build_str_ok: "\<not> seal_build_bad b \<Longrightarrow> str_ok b"
  by (rule ascii_str_ok) (auto simp: seal_build_bad_def as_bytes_def list_all_iff dest: byte_of_ascii)

lemma seal_preimage_Inr:
  "seal_preimage s = Inr w \<longleftrightarrow> \<not> seal_build_bad (ns_build s) \<and>
     (\<exists>b. put_seal s = Inr b \<and> w = framed ''cc.seal.v1'' @ b)"
  by (auto simp: seal_preimage_def SEAL_DOMAIN_def guard_eq_Inr cat2_eq_Inr put_string_framed MAX_ENVELOPE_def)

text \<open>The bytes of a seal: 228 for the frame and the fixed fields, and the build.\<close>

lemma seal_preimage_total:
  "\<not> seal_build_bad (ns_build s) \<Longrightarrow> \<exists>w. seal_preimage s = Inr w \<and> length w = 228 + length (ns_build s)"
  by (simp add: seal_preimage_def SEAL_DOMAIN_def put_seal_def put_string_def put_u32_def put_hash_def put_fold_ref_def
      put_u16_def put_seal_counts_def put_u64_def hash_bytes_def guard_def MAX_ENVELOPE_def seal_build_bad_def MAX_BUILD_def)

lemma verify_seal_Inr:
  "verify_seal C s sig = Inr u \<longleftrightarrow>
     (\<exists>pre. seal_preimage s = Inr pre \<and> key_ok C (ns_node_key s) \<and> verify_strict C (ns_node_key s) pre sig)"
  by (auto simp: verify_seal_def rbind_eq_Inr guard_eq_Inr)

lemma seal_decode_Inr:
  "seal_decode C bytes = Inr s \<longleftrightarrow> (\<exists>x pre sig. bytes = pre @ sig \<and> length sig = 64 \<and>
     length bytes \<le> MAX_ENVELOPE \<and> seal_ok x \<and> seal_preimage x = Inr pre \<and>
     key_ok C (ns_node_key x) \<and> verify_strict C (ns_node_key x) pre sig \<and>
     s = \<lparr>ss_seal = x, ss_bytes = bytes\<rparr>)" (is "?l = ?r")
proof
  assume l: ?l
  define pre where "pre = take (length bytes - 64) bytes"
  define sig where "sig = drop (length bytes - 64) bytes"
  from l obtain m x where b: "64 \<le> length bytes" "length bytes \<le> MAX_ENVELOPE"
    and x: "seal_preimage x = Inr pre"
    and "key_ok C (ns_node_key x)" "verify_strict C (ns_node_key x) pre sig" "s = \<lparr>ss_seal = x, ss_bytes = bytes\<rparr>"
    by (auto simp: seal_decode_def Let_def guard_eq_Inr rbind_eq_Inr exact_check_Inr verify_seal_Inr not_less
        pre_def sig_def split: prod.splits)
  moreover have "seal_ok x" using x seal_build_str_ok by (simp add: seal_preimage_Inr seal_ok_def)
  moreover have "bytes = pre @ sig" "length sig = 64" using b by (simp_all add: pre_def sig_def)
  ultimately show ?r by blast
next
  assume ?r
  then obtain x pre sig where h: "bytes = pre @ sig" "length sig = 64" "length bytes \<le> MAX_ENVELOPE"
    "seal_ok x" "seal_preimage x = Inr pre" "key_ok C (ns_node_key x)" "verify_strict C (ns_node_key x) pre sig"
    "s = \<lparr>ss_seal = x, ss_bytes = bytes\<rparr>" by blast
  from h(5) obtain b where b: "put_seal x = Inr b" "pre = framed ''cc.seal.v1'' @ b"
    unfolding seal_preimage_Inr by blast
  have "get_string (framed ''cc.seal.v1'' @ b) = Inr (''cc.seal.v1'', b)"
    by (rule str.get_put) (simp_all add: put_string_framed MAX_ENVELOPE_def)
  moreover have "get_seal b = Inr (x, [])" using wseal.get_put [OF b(1) h(4), of "[]"] by simp
  ultimately show ?l using h by (simp add: seal_decode_def exact_check_def SEAL_DOMAIN_def verify_seal_def b(2))
qed

definition seal_accepts :: "'sk crypto \<Rightarrow> byte list \<Rightarrow> node_seal \<Rightarrow> bool" where
  "seal_accepts C bytes x \<longleftrightarrow> (\<exists>s. seal_decode C bytes = Inr s \<and> ss_seal s = x)"

interpretation seals: signed_message "''cc.seal.v1''" seal_preimage seal_ok ns_node_key seal_accepts
proof
  fix m m' w
  assume "seal_preimage m = Inr w" "seal_preimage m' = Inr w" "seal_ok m" "seal_ok m'"
  then show "m = m'" unfolding seal_preimage_Inr by (auto intro: wseal.put_inject)
next
  fix C :: "'a crypto" and bytes m
  show "seal_accepts C bytes m \<longleftrightarrow> (\<exists>w sig. bytes = w @ sig \<and> length sig = 64 \<and> length bytes \<le> MAX_ENVELOPE \<and>
      seal_ok m \<and> seal_preimage m = Inr w \<and> key_ok C (ns_node_key m) \<and> verify_strict C (ns_node_key m) w sig)"
    unfolding seal_accepts_def seal_decode_Inr by fastforce
qed (auto simp: MAX_ENVELOPE_def seal_preimage_Inr)

section \<open>Domain separation\<close>

interpretation event_receipt: message_pair "''cc.event.v1''" preimage envelope_ok env_author event_accepts
    "''cc.receipt.v1''" receipt_preimage receipt_ok nr_node_key receipt_accepts
  by unfold_locales simp

interpretation event_seal: message_pair "''cc.event.v1''" preimage envelope_ok env_author event_accepts
    "''cc.seal.v1''" seal_preimage seal_ok ns_node_key seal_accepts
  by unfold_locales simp

interpretation receipt_seal: message_pair "''cc.receipt.v1''" receipt_preimage receipt_ok nr_node_key receipt_accepts
    "''cc.seal.v1''" seal_preimage seal_ok ns_node_key seal_accepts
  by unfold_locales simp

text \<open>
  C38: the three kinds of signed message share no encoding: a byte string that one decoder accepts is
  refused by the two others, whatever keys and signature scheme they use.
\<close>

theorem signed_domains_disjoint:
  "\<not> (decode C bytes = Inr s \<and> receipt_decode D bytes = Inr r) \<and>
   \<not> (decode C bytes = Inr s \<and> seal_decode E bytes = Inr x) \<and>
   \<not> (receipt_decode D bytes = Inr r \<and> seal_decode E bytes = Inr x)"
  using event_receipt.disjoint [of C bytes "sg_envelope s" D "rc_receipt r"]
    event_seal.disjoint [of C bytes "sg_envelope s" E "ss_seal x"]
    receipt_seal.disjoint [of D bytes "rc_receipt r" E "ss_seal x"]
  unfolding event_accepts_def receipt_accepts_def seal_accepts_def by blast

text \<open>
  A receipt that names this encoding, whose result is consistent and whose preimage encodes is signed
  successfully; the signed receipt is the receipt under the signer's key with the bytes preimage and
  signature, and those bytes decode to it.
\<close>

theorem receipt_sign_roundtrip:
  assumes "crypto_laws C" "receipt_ok r" "receipt_preimage (r\<lparr>nr_node_key := public_key C sk\<rparr>) = Inr pre"
  shows "receipt_sign C sk r = Inr \<lparr>rc_receipt = r\<lparr>nr_node_key := public_key C sk\<rparr>, rc_bytes = pre @ sign_message C sk pre\<rparr> \<and>
    receipt_decode C (pre @ sign_message C sk pre) =
      Inr \<lparr>rc_receipt = r\<lparr>nr_node_key := public_key C sk\<rparr>, rc_bytes = pre @ sign_message C sk pre\<rparr>"
proof -
  let ?r = "r\<lparr>nr_node_key := public_key C sk\<rparr>"
  have "length pre + 64 \<le> MAX_ENVELOPE" using assms(3) by (simp add: receipt_preimage_Inr)
  then have "receipt_decode C (pre @ sign_message C sk pre) = Inr \<lparr>rc_receipt = ?r, rc_bytes = pre @ sign_message C sk pre\<rparr>"
    using assms unfolding receipt_decode_Inr crypto_laws_def by (auto simp: receipt_ok_def)
  then show ?thesis by (simp add: receipt_sign_def assms(3))
qed

text \<open>
  Signing a seal succeeds exactly when the build string is 1 to 64 graphic ASCII characters; the
  signed seal is then the seal under the signer's key, takes 292 bytes and the build, far below the
  largest envelope, and decodes to itself.
\<close>

theorem sign_seal_total:
  assumes "crypto_laws C"
  shows "if seal_build_bad (ns_build s) then sign_seal C sk s = Inl ''seal_build''
    else \<exists>x. sign_seal C sk s = Inr x \<and> seal_decode C (ss_bytes x) = Inr x \<and>
      ss_seal x = s\<lparr>ns_node_key := public_key C sk\<rparr> \<and> length (ss_bytes x) = 292 + length (ns_build s) \<and>
      length (ss_bytes x) \<le> 356"
proof (cases "seal_build_bad (ns_build s)")
  case True
  then show ?thesis by (simp add: sign_seal_def seal_preimage_def)
next
  case False
  let ?s = "s\<lparr>ns_node_key := public_key C sk\<rparr>"
  obtain pre where pre: "seal_preimage ?s = Inr pre" "length pre = 228 + length (ns_build s)"
    using seal_preimage_total [of ?s] False by auto
  have len: "length (ns_build s) \<le> 64" using False by (simp add: seal_build_bad_def MAX_BUILD_def)
  have "seal_ok ?s" using seal_build_str_ok [OF False] by (simp add: seal_ok_def)
  then have "seal_decode C (pre @ sign_message C sk pre) = Inr \<lparr>ss_seal = ?s, ss_bytes = pre @ sign_message C sk pre\<rparr>"
    using assms pre len unfolding seal_decode_Inr crypto_laws_def by (auto simp: MAX_ENVELOPE_def)
  then show ?thesis using False pre len assms
    by (simp add: sign_seal_def pre(1) crypto_laws_def)
qed

section \<open>A sample receipt and a sample seal\<close>

definition sample_fold :: fold_ref where
  "sample_fold = \<lparr>fr_version = 1, fr_manifest = 3\<rparr>"

definition sample_receipt :: node_receipt where
  "sample_receipt = \<lparr>nr_instance = 9, nr_node_key = 7, nr_event = 5, nr_received_at = 1000, nr_encoding_version = CANON_VERSION,
     nr_fold_version = sample_fold, nr_initial_admission_result = \<lparr>ir_state = R_Pending, ir_reason = ''missing'', ir_missing = [2, 4]\<rparr>\<rparr>"

definition sample_seal :: node_seal where
  "sample_seal = \<lparr>ns_instance = 9, ns_node_key = 0, ns_fold_version = sample_fold, ns_filter_version = 1, ns_corpus_digest = 2,
     ns_commitment = 3, ns_counts = \<lparr>sc_candidates = 1\<rparr>, ns_build = ''r1'', ns_sealed_at_us = 1000\<rparr>"

lemma sample_receipt_preimage: "\<exists>pre. receipt_preimage sample_receipt = Inr pre"
  by (simp add: receipt_preimage_def sample_receipt_def receipt_result_bad_def put_receipt_def put_string_def put_u16_def
      put_u32_def put_u64_def put_hash_def put_fold_ref_def put_initial_result_def put_admission_def put_set_def
      hash_bytes_def guard_def MAX_ENVELOPE_def MAX_SET_def)

theorem receipt_sign_roundtrip_witness:
  "\<exists>pre. receipt_preimage sample_receipt = Inr pre \<and>
    receipt_sign sample_crypto 7 sample_receipt = Inr \<lparr>rc_receipt = sample_receipt, rc_bytes = pre @ replicate 64 0\<rparr>"
proof -
  obtain pre where pre: "receipt_preimage sample_receipt = Inr pre" using sample_receipt_preimage by blast
  have upd: "sample_receipt\<lparr>nr_node_key := 7\<rparr> = sample_receipt" by (simp add: sample_receipt_def)
  have "receipt_ok sample_receipt" unfolding receipt_ok_def sample_receipt_def by code_simp
  then show ?thesis using receipt_sign_roundtrip [of sample_crypto sample_receipt 7 pre] sample_crypto_laws pre
    by (simp add: upd)
qed

theorem sign_seal_total_witness:
  "\<exists>x. sign_seal sample_crypto 7 sample_seal = Inr x \<and> seal_decode sample_crypto (ss_bytes x) = Inr x \<and> length (ss_bytes x) = 294"
proof -
  have "\<not> seal_build_bad (ns_build sample_seal)" by code_simp
  then show ?thesis using sign_seal_total [OF sample_crypto_laws, of sample_seal 7]
    by (auto simp: sample_seal_def)
qed

end
