(* ===== verification/Rule_Identity.thy ===== *)
theory Rule_Identity
  imports Messages
begin

text \<open>
  The rule identity and the commitments of \<^verbatim>\<open>crates/cc-core/src/v1/rule.rs\<close>, and the filter identity of
  \<^verbatim>\<open>crates/cc-filter/src/v1.rs\<close>. \<open>H\<close> is SHA-256. Every commitment hashes an injective encoding, so
  two commitments agree only for equal contents or a collision of \<open>H\<close>.
\<close>

section \<open>The governed fold\<close>

definition FOLD_NUMBER :: u16 where
  "FOLD_NUMBER = 1"

text \<open>The lines of \<^verbatim>\<open>crates/cc-core/src/v1/fold-manifest-v1.txt\<close>, each ended by a line feed.\<close>

definition FOLD_MANIFEST :: string where
  "FOLD_MANIFEST = concat (map (\<lambda>l. l @ [CHR 0x0A])
    [''cc.fold-manifest.v1'',
     ''fold.number=1'',
     ''encoding=cc.event.v1;canon_version=1;constants_version=0'',
     ''ancestry=reflexive'',
     ''admission=single_admit;branch_local_parent_cone;pending_missing;invalid_propagates'',
     ''authority.root_grant=sha256(cc.root-grant.v1|genesis)'',
     ''authority.delegate_key=fresh_in_parent_cone'',
     ''authority.revoke_scope=strict_issuer_descendant_or_root_self'',
     ''authority.revocation=issuer_stratified_effective_revokes'',
     ''authority.cut=reflexive_acknowledged_past_intersection'',
     ''authority.cascade=signed_bool_target_subtree'',
     ''visibility.suppressed=revoked_concurrent,revoked_ancestor,canceled_grant,canceled_authority'',
     ''visibility.root_relinquishment=superseded'',
     ''frontier=maximal_eligible;effective_revokes_consume_strict_past'',
     ''subject.reading=resolved,contested,no_current_body;frozen_separate'',
     ''subject.authority_only_fork=contested'',
     ''resolve.join=surviving_common_grant_every_parent_and_join;incomparable_parents'',
     ''resolve.selection=eligible_reachable_revision_or_merged_body;all_dispositions'',
     ''revision.id=sha256(cc.revision.v1|subject|creating_event)'',
     ''order.event_ids=display_only'',
     ''order.asserted_time=never_authority_frontier_precedence_or_revocation'',
     ''edge.pins=both_endpoints;subject,basis,revision,body'',
     ''edge.status_precedence=invalid_pending,edge_conflict,endpoint_contested,stale,current'',
     ''edge.stale=basis_not_ancestor,revision_changed,revision_created_since_basis'',
     ''edge.no_current_body=stale'',
     ''edge.reaffirm=original_author_only;sorted_parents;one_old_pin_pair_each;endpoints_fixed'',
     ''edge.reaffirm_basis=any_valid_basis'',
     ''edge.relations=causation,co_occurrence,disputes,influence,participation'',
     ''edge.self_edge=admitted'',
     ''edge.dispute_author=source_subject_creator'',
     ''support.relations=causation,co_occurrence,influence,participation'',
     ''support.adjacency=undirected'',
     ''support.hop_bound=filter_parameter_max_hops'',
     ''support.trust=edge_author_and_endpoint_genesis_creators_in_curator_set'',
     ''support.same_subject=unsupported'',
     ''support.verdicts=supported,unsupported'',
     ''media.targets=revision,subject_event,edge_event'',
     ''media.event_binding=creating_event_revision_only'',
     ''media.revision_missing=pending_with_revision_reference'',
     ''media.inference=none'',
     ''as_of=after_fold;current_revision_asserted_coordinate_le_as_of'',
     ''as_of.unknown_time=not_visible'',
     ''projection.rows=cc.view-rows.json.v1''])"

definition fold_v1 :: "(byte list \<Rightarrow> hash) \<Rightarrow> fold_ref" where
  "fold_v1 H = \<lparr>fr_version = FOLD_NUMBER, fr_manifest = H (as_bytes FOLD_MANIFEST)\<rparr>"

definition supported_fold :: "(byte list \<Rightarrow> hash) \<Rightarrow> fold_ref \<Rightarrow> bool" where
  "supported_fold H fr \<longleftrightarrow> fr = fold_v1 H"

section \<open>Commitments\<close>

text \<open>\<open>len() as u32\<close> keeps the low 32 bits.\<close>

definition corpus_bytes :: "hash set \<Rightarrow> byte list" where
  "corpus_bytes ids = framed ''cc.corpus.v1'' @ to_be_bytes 4 (word_of_nat (card ids) :: u32) @
     concat (map hash_bytes (sorted_list_of_set ids))"

definition corpus_digest :: "(byte list \<Rightarrow> hash) \<Rightarrow> hash set \<Rightarrow> hash" where
  "corpus_digest H ids = H (corpus_bytes ids)"

definition view_bytes :: "fold_ref \<Rightarrow> hash \<Rightarrow> hash \<Rightarrow> byte list \<Rightarrow> byte list" where
  "view_bytes fr filter_version corpus rows = framed ''cc.view.v1'' @ to_be_bytes 2 CANON_VERSION @
     to_be_bytes 2 (fr_version fr) @ hash_bytes (fr_manifest fr) @ hash_bytes filter_version @ hash_bytes corpus @
     to_be_bytes 8 (word_of_nat (length rows) :: u64) @ rows"

definition view_commitment :: "(byte list \<Rightarrow> hash) \<Rightarrow> fold_ref \<Rightarrow> hash \<Rightarrow> hash \<Rightarrow> byte list \<Rightarrow> hash" where
  "view_commitment H fr filter_version corpus rows = H (view_bytes fr filter_version corpus rows)"

definition cache_bytes :: "hash \<Rightarrow> hash \<Rightarrow> byte list \<Rightarrow> byte list" where
  "cache_bytes filter_version corpus q = framed ''cc.cache.v1'' @ hash_bytes filter_version @ hash_bytes corpus @
     to_be_bytes 8 (word_of_nat (length q) :: u64) @ q"

definition cache_key :: "(byte list \<Rightarrow> hash) \<Rightarrow> hash \<Rightarrow> hash \<Rightarrow> byte list \<Rightarrow> hash" where
  "cache_key H filter_version corpus q = H (cache_bytes filter_version corpus q)"

section \<open>The filter identity\<close>

definition TRUST_POLICY :: string where
  "TRUST_POLICY = ''cc.trust.curator-genesis-creator.v1''"

definition TT_TAXONOMY_SHA256 :: hash where
  "TT_TAXONOMY_SHA256 = 0x31ed385e26522a5b548f7404f7757ee370ed9783dbd550b05cd69e89e9462113"

record filter_identity =
  fi_fold :: fold_ref
  fi_encoding :: u16
  fi_constants :: u16
  fi_ontology :: hash
  fi_curators :: "hash list"
  fi_trust_policy :: string
  fi_max_hops :: u16

datatype identity_error = IE_CuratorSet | IE_MaxHops

text \<open>\<open>curators.windows(2).any(|p| p[0] >= p[1])\<close>.\<close>

fun windows_unsorted :: "hash list \<Rightarrow> bool" where
  "windows_unsorted (a # b # r) = (a \<ge> b \<or> windows_unsorted (b # r))"
| "windows_unsorted _ = False"

definition governed :: "(byte list \<Rightarrow> hash) \<Rightarrow> (hash \<Rightarrow> bool) \<Rightarrow> hash list \<Rightarrow> u16 \<Rightarrow> identity_error + filter_identity" where
  "governed H kok curators max_hops =
     guard (curators = [] \<or> windows_unsorted curators \<or> list_ex (\<lambda>k. \<not> kok k) curators) IE_CuratorSet
     (guard (max_hops = 0) IE_MaxHops
     (Inr \<lparr>fi_fold = fold_v1 H, fi_encoding = CANON_VERSION, fi_constants = CONSTANTS_VERSION,
       fi_ontology = TT_TAXONOMY_SHA256, fi_curators = curators, fi_trust_policy = TRUST_POLICY, fi_max_hops = max_hops\<rparr>))"

definition is_governed :: "(byte list \<Rightarrow> hash) \<Rightarrow> (hash \<Rightarrow> bool) \<Rightarrow> filter_identity \<Rightarrow> bool" where
  "is_governed H kok f \<longleftrightarrow> governed H kok (fi_curators f) (fi_max_hops f) = Inr f"

definition canonical :: "filter_identity \<Rightarrow> byte list" where
  "canonical f = framed ''cc.filter.v1'' @ to_be_bytes 2 (fr_version (fi_fold f)) @ hash_bytes (fr_manifest (fi_fold f)) @
     to_be_bytes 2 (fi_encoding f) @ to_be_bytes 2 (fi_constants f) @ hash_bytes (fi_ontology f) @
     to_be_bytes 4 (word_of_nat (length (fi_curators f)) :: u32) @ concat (map hash_bytes (fi_curators f)) @
     to_be_bytes 4 (word_of_nat (length (fi_trust_policy f)) :: u32) @ as_bytes (fi_trust_policy f) @
     to_be_bytes 2 (fi_max_hops f)"

definition filter_version :: "(byte list \<Rightarrow> hash) \<Rightarrow> filter_identity \<Rightarrow> hash" where
  "filter_version H f = H (canonical f)"

section \<open>Injectivity\<close>

lemma hash_bytes_inject [simp]: "hash_bytes a = hash_bytes b \<longleftrightarrow> a = b"
  by (simp add: hash_bytes_def to_be_bytes_inject)

lemma to_be_bytes_inject16 [simp]: "to_be_bytes 2 v = to_be_bytes 2 w \<longleftrightarrow> v = w" for v w :: u16
  by (simp add: to_be_bytes_inject)

lemma to_be_bytes_inject32 [simp]: "to_be_bytes 4 v = to_be_bytes 4 w \<longleftrightarrow> v = w" for v w :: u32
  by (simp add: to_be_bytes_inject)

lemma concat_hash_prefix:
  "length xs = length ys \<Longrightarrow> concat (map hash_bytes xs) @ r = concat (map hash_bytes ys) @ s \<Longrightarrow> xs = ys \<and> r = s"
  by (induction xs ys rule: list_induct2) auto

lemma length_concat_hashes [simp]: "length (concat (map hash_bytes xs)) = 32 * length xs"
  by (induction xs) auto

lemma concat_hash_inject: "concat (map hash_bytes xs) = concat (map hash_bytes ys) \<Longrightarrow> xs = ys"
  using concat_hash_prefix [of xs ys "[]" "[]"] length_concat_hashes [of xs] length_concat_hashes [of ys] by simp

lemma corpus_bytes_inject: "corpus_bytes a = corpus_bytes b \<Longrightarrow> a = b"
  by (auto simp: corpus_bytes_def dest!: concat_hash_inject) (metis finite_code set_sorted_list_of_set)+

lemma view_bytes_inject: "view_bytes f v c r = view_bytes f' v' c' r' \<Longrightarrow> f = f' \<and> v = v' \<and> c = c' \<and> r = r'"
  by (cases f; cases f') (simp add: view_bytes_def)

lemma cache_bytes_inject: "cache_bytes v c q = cache_bytes v' c' q' \<Longrightarrow> v = v' \<and> c = c' \<and> q = q'"
  by (simp add: cache_bytes_def)

lemma unat_len32: "n < 2 ^ 32 \<Longrightarrow> unat (word_of_nat n :: u32) = n"
  by (simp add: unsigned_of_nat take_bit_nat_eq_self)

lemma len32_inject: "m < 2 ^ 32 \<Longrightarrow> n < 2 ^ 32 \<Longrightarrow> (word_of_nat m :: u32) = word_of_nat n \<longleftrightarrow> m = n"
  by (metis unat_len32)

definition fits :: "filter_identity \<Rightarrow> bool" where
  "fits f \<longleftrightarrow> length (fi_curators f) < 2 ^ 32 \<and> length (fi_trust_policy f) < 2 ^ 32"

lemma canonical_inject:
  assumes eq: "canonical f = canonical g" and fit: "fits f" "fits g"
  shows "f = g"
proof -
  have head: "fi_fold f = fi_fold g" "fi_encoding f = fi_encoding g" "fi_constants f = fi_constants g"
    "fi_ontology f = fi_ontology g" and n: "(word_of_nat (length (fi_curators f)) :: u32) = word_of_nat (length (fi_curators g))"
    and rest: "concat (map hash_bytes (fi_curators f)) @ to_be_bytes 4 (word_of_nat (length (fi_trust_policy f)) :: u32) @
       as_bytes (fi_trust_policy f) @ to_be_bytes 2 (fi_max_hops f) =
     concat (map hash_bytes (fi_curators g)) @ to_be_bytes 4 (word_of_nat (length (fi_trust_policy g)) :: u32) @
       as_bytes (fi_trust_policy g) @ to_be_bytes 2 (fi_max_hops g)"
    using eq by (cases "fi_fold f"; cases "fi_fold g"; simp add: canonical_def)+
  have "length (fi_curators f) = length (fi_curators g)" using n fit by (simp add: fits_def len32_inject)
  from concat_hash_prefix [OF this rest] have cur: "fi_curators f = fi_curators g"
    and tail: "to_be_bytes 4 (word_of_nat (length (fi_trust_policy f)) :: u32) @ as_bytes (fi_trust_policy f) @ to_be_bytes 2 (fi_max_hops f) =
      to_be_bytes 4 (word_of_nat (length (fi_trust_policy g)) :: u32) @ as_bytes (fi_trust_policy g) @ to_be_bytes 2 (fi_max_hops g)"
    by simp_all
  then have "length (fi_trust_policy f) = length (fi_trust_policy g)" using fit by (simp add: fits_def len32_inject)
  with tail have "fi_trust_policy f = fi_trust_policy g" "fi_max_hops f = fi_max_hops g" by simp_all
  with head cur show ?thesis by simp
qed

section \<open>Governed identities\<close>

lemma windows_unsorted_iff: "windows_unsorted ks \<longleftrightarrow> \<not> sorted_wrt (<) ks"
  by (induction ks rule: windows_unsorted.induct) (auto simp: not_le intro: less_trans)

lemma is_governed_iff:
  "is_governed H kok f \<longleftrightarrow> fi_curators f \<noteq> [] \<and> sorted_wrt (<) (fi_curators f) \<and> list_all kok (fi_curators f) \<and>
     fi_max_hops f \<noteq> 0 \<and> fi_fold f = fold_v1 H \<and> fi_encoding f = CANON_VERSION \<and> fi_constants f = CONSTANTS_VERSION \<and>
     fi_ontology f = TT_TAXONOMY_SHA256 \<and> fi_trust_policy f = TRUST_POLICY"
  by (cases f) (auto simp: is_governed_def governed_def guard_eq_Inr windows_unsorted_iff list_ex_iff list_all_iff)

text \<open>
  The filter version commits to the whole identity. Two governed identities of fewer than
  \<open>2\<^sup>3\<^sup>2\<close> curators on whose canonical bytes SHA-256 does not collide have the same version exactly
  when they name the same curators and the same hop bound.
\<close>

theorem filter_version_commits:
  assumes "is_governed H kok f" "is_governed H kok' g"
    and "length (fi_curators f) < 2 ^ 32" "length (fi_curators g) < 2 ^ 32"
    and no_collision: "H (canonical f) = H (canonical g) \<Longrightarrow> canonical f = canonical g"
  shows "filter_version H f = filter_version H g \<longleftrightarrow> fi_curators f = fi_curators g \<and> fi_max_hops f = fi_max_hops g"
proof
  assume "filter_version H f = filter_version H g"
  then have "canonical f = canonical g" using no_collision by (simp add: filter_version_def)
  moreover have "fits f" "fits g" using assms(1-4) by (simp_all add: is_governed_iff fits_def TRUST_POLICY_def)
  ultimately show "fi_curators f = fi_curators g \<and> fi_max_hops f = fi_max_hops g" using canonical_inject by blast
next
  assume "fi_curators f = fi_curators g \<and> fi_max_hops f = fi_max_hops g"
  then have "f = g" using assms(1,2) by (simp add: is_governed_iff)
  then show "filter_version H f = filter_version H g" by simp
qed

section \<open>Sample identities\<close>

text \<open>The governed identity with curator 7 and the given hop bound, under a hash function \<open>H\<close>.\<close>

definition sample_filter :: "(byte list \<Rightarrow> hash) \<Rightarrow> u16 \<Rightarrow> filter_identity" where
  "sample_filter H hops = \<lparr>fi_fold = fold_v1 H, fi_encoding = CANON_VERSION, fi_constants = CONSTANTS_VERSION,
     fi_ontology = TT_TAXONOMY_SHA256, fi_curators = [7], fi_trust_policy = TRUST_POLICY, fi_max_hops = hops\<rparr>"

lemma sample_filter_governed: "hops \<noteq> 0 \<Longrightarrow> is_governed H (\<lambda>_. True) (sample_filter H hops)"
  by (simp add: is_governed_iff sample_filter_def)

text \<open>A hash function that keeps the last 32 bytes tells the two hop bounds apart.\<close>

theorem filter_version_commits_witness:
  "filter_version (sha256 sample_crypto) (sample_filter (sha256 sample_crypto) 3) \<noteq>
   filter_version (sha256 sample_crypto) (sample_filter (sha256 sample_crypto) 4)"
proof -
  let ?f = "sample_filter (sha256 sample_crypto)"
  have tail: "\<exists>pre. canonical (?f h) = pre @ as_bytes (drop 5 TRUST_POLICY) @ to_be_bytes 2 h" for h
    by (simp add: canonical_def sample_filter_def TRUST_POLICY_def as_bytes_def flip: append_assoc)
  have len: "length (as_bytes (drop 5 TRUST_POLICY)) = 30" by (simp add: TRUST_POLICY_def)
  have digest: "sha256 sample_crypto (canonical (?f h)) = from_be_bytes (as_bytes (drop 5 TRUST_POLICY) @ to_be_bytes 2 h) + 1" for h
    using tail [of h] len by auto
  have "canonical (?f 3) = canonical (?f 4)"
    if "sha256 sample_crypto (canonical (?f 3)) = sha256 sample_crypto (canonical (?f 4))"
  proof -
    have "to_be_bytes 32 (from_be_bytes (as_bytes (drop 5 TRUST_POLICY) @ to_be_bytes 2 h) :: hash) =
        as_bytes (drop 5 TRUST_POLICY) @ to_be_bytes 2 h" for h :: u16
      by (rule to_from_be_bytes_n) (simp_all add: TRUST_POLICY_def)
    then have "to_be_bytes 2 (3 :: u16) = to_be_bytes 2 (4 :: u16)"
      using that unfolding digest by (metis add_right_cancel same_append_eq)
    then show ?thesis by simp
  qed
  then show ?thesis
    using filter_version_commits [OF sample_filter_governed [of 3 "sha256 sample_crypto"] sample_filter_governed [of 4 "sha256 sample_crypto"]]
    by (simp add: sample_filter_def)
qed

end
