(* ===== verification/Snapshot.thy ===== *)
theory Snapshot
  imports Rule_Identity Support
begin

text \<open>
  Committed snapshots and the reads on them (\<open>Snapshot\<close> of \<^verbatim>\<open>crates/cc-ledger/src/v1/rule.rs\<close>).
  The serialization of the projection rows is the serde_json crate: it is the parameter \<open>json\<close>, a
  function of the record of rows that \<open>canonical_rows\<close> builds.
\<close>

section \<open>Rule identities\<close>

record rule_id =
  ri_fold_version :: u16
  ri_fold_manifest :: hash
  ri_filter_version :: hash

definition rule_of :: "(byte list \<Rightarrow> hash) \<Rightarrow> filter_identity \<Rightarrow> rule_id" where
  "rule_of H f = \<lparr>ri_fold_version = fr_version (fi_fold f), ri_fold_manifest = fr_manifest (fi_fold f),
     ri_filter_version = filter_version H f\<rparr>"

definition rule_fold :: "rule_id \<Rightarrow> fold_ref" where
  "rule_fold r = \<lparr>fr_version = ri_fold_version r, fr_manifest = ri_fold_manifest r\<rparr>"

section \<open>Committed snapshots\<close>

record view_rows =
  vr_schema :: string
  vr_rows :: "event_reading list"
  vr_revisions :: "revision list"
  vr_subjects :: "subject_reading list"
  vr_grants :: "(hash \<times> grant) list"
  vr_active :: "hash set"
  vr_tombstones :: "hash set"
  vr_effective_revokes :: "hash set"
  vr_canceled :: "hash set"
  vr_effects :: "(hash \<times> effect) list"
  vr_edges :: "edge_reading list"
  vr_media :: "media_reading list"

definition entries :: "(hash, 'v) fmap \<Rightarrow> (hash \<times> 'v) list" where
  "entries m = map (\<lambda>k. (k, the (fmlookup m k))) (keys m)"

definition view_rows_of :: "projection \<Rightarrow> view_rows" where
  "view_rows_of p = (let a = pj_authority p in
     \<lparr>vr_schema = ''cc.view-rows.json.v1'', vr_rows = pj_rows p, vr_revisions = pj_revisions p,
       vr_subjects = pj_subjects p, vr_grants = entries (au_grants a), vr_active = au_active a,
       vr_tombstones = au_tombstones a, vr_effective_revokes = au_effective_revokes a, vr_canceled = au_canceled a,
       vr_effects = entries (au_effects a), vr_edges = pj_edges p, vr_media = pj_media p\<rparr>)"

definition canonical_rows :: "(view_rows \<Rightarrow> byte list) \<Rightarrow> projection \<Rightarrow> byte list" where
  "canonical_rows json p = json (view_rows_of p)"

record snapshot =
  sn_rule :: rule_id
  sn_corpus_digest :: hash
  sn_commitment :: hash
  sn_projection :: projection
  sn_filter :: filter_identity

definition snapshot_of :: "(byte list \<Rightarrow> hash) \<Rightarrow> (hash \<Rightarrow> bool) \<Rightarrow> (view_rows \<Rightarrow> byte list) \<Rightarrow> filter_identity \<Rightarrow> corpus \<Rightarrow>
    snapshot option" where
  "snapshot_of H kok json f cands = do {
     p \<leftarrow> project H kok cands;
     let corpus = corpus_digest H (fmdom' cands);
     let commitment = view_commitment H (fi_fold f) (filter_version H f) corpus (canonical_rows json p);
     Some \<lparr>sn_rule = rule_of H f, sn_corpus_digest = corpus, sn_commitment = commitment, sn_projection = p, sn_filter = f\<rparr>}"

definition snapshot_cache_key :: "(byte list \<Rightarrow> hash) \<Rightarrow> snapshot \<Rightarrow> byte list \<Rightarrow> hash" where
  "snapshot_cache_key H s q = cache_key H (ri_filter_version (sn_rule s)) (sn_corpus_digest s) q"

section \<open>Visibility\<close>

definition as_of_state :: "hash option \<Rightarrow> asserted_time option \<Rightarrow> string" where
  "as_of_state as_of time = (case (as_of, time) of
     (None, _) \<Rightarrow> ''visible''
   | (Some _, None) \<Rightarrow> ''asserted_time_unknown''
   | (Some q, Some t) \<Rightarrow> if at_coordinate t > q then ''after_as_of'' else ''visible'')"

definition visibility :: "snapshot \<Rightarrow> hash \<Rightarrow> hash option \<Rightarrow> (string \<times> revision option) option" where
  "visibility sn subject as_of = (let p = sn_projection sn in
     case find (\<lambda>s. sr_subject s = subject) (pj_subjects p) of
       None \<Rightarrow> Some (''subject_unknown'', None)
     | Some s \<Rightarrow>
         if sr_state s \<noteq> ''resolved'' then Some (sr_state s, None)
         else do {
           head \<leftarrow> (case sorted_list_of_set (sr_frontier s) of [] \<Rightarrow> None | h # _ \<Rightarrow> Some h);
           row \<leftarrow> find (\<lambda>r. er_event r = head) (pj_rows p);
           let revision = find (\<lambda>r. Some (rv_id r) = er_revision row) (pj_revisions p);
           Some (as_of_state as_of (revision \<bind> rv_asserted_time), revision)})"

record entity_read =
  en_rule :: rule_id
  en_corpus_digest :: hash
  en_as_of :: "hash option"
  en_subject :: hash
  en_state :: string
  en_frontier :: "hash set"
  en_revision :: "revision option"
  en_visibility :: string

definition entity :: "snapshot \<Rightarrow> hash \<Rightarrow> hash option \<Rightarrow> entity_read option" where
  "entity sn subject as_of = do {
     (visible, revision) \<leftarrow> visibility sn subject as_of;
     let reading = find (\<lambda>s. sr_subject s = subject) (pj_subjects (sn_projection sn));
     Some \<lparr>en_rule = sn_rule sn, en_corpus_digest = sn_corpus_digest sn, en_as_of = as_of, en_subject = subject,
       en_state = (case reading of None \<Rightarrow> [] | Some s \<Rightarrow> sr_state s),
       en_frontier = (case reading of None \<Rightarrow> {} | Some s \<Rightarrow> sr_frontier s),
       en_revision = (if visible = ''visible'' then revision else None), en_visibility = visible\<rparr>}"

section \<open>Governed support\<close>

text \<open>The resolved subjects of the graph whose current revision is not visible, with the reason.\<close>

definition hidden_step :: "snapshot \<Rightarrow> hash option \<Rightarrow> support_graph \<Rightarrow> hash \<Rightarrow> (hash, string) fmap \<Rightarrow> (hash, string) fmap option" where
  "hidden_step sn as_of g s m = (if fmlookup (gr_subjects g) s = Some ''resolved''
     then do {(v, _) \<leftarrow> visibility sn s as_of; Some (if v \<noteq> ''visible'' then fmupd s v m else m)}
     else Some m)"

definition hidden :: "snapshot \<Rightarrow> hash option \<Rightarrow> support_graph \<Rightarrow> (hash, string) fmap option" where
  "hidden sn as_of g = for_each (hidden_step sn as_of g) (keys (gr_subjects g)) fmempty"

definition retain_at :: "hash \<Rightarrow> (neighbor \<Rightarrow> bool) \<Rightarrow> (hash, neighbor fset) fmap \<Rightarrow> (hash, neighbor fset) fmap" where
  "retain_at t keep m = (case fmlookup m t of None \<Rightarrow> m | Some ns \<Rightarrow> fmupd t (ffilter keep ns) m)"

text \<open>One neighbor of a hidden subject: the edge leaves the other end too and becomes an exclusion.\<close>

definition hide_edge :: "projection \<Rightarrow> string \<Rightarrow> neighbor \<Rightarrow> support_graph \<Rightarrow> support_graph option" where
  "hide_edge p reason n g = do {
     e \<leftarrow> find (\<lambda>e. ed_edge e = nb_edge n) (pj_edges p);
     pin0 \<leftarrow> (case ed_pins e of [] \<Rightarrow> None | x # _ \<Rightarrow> Some x);
     Some (g\<lparr>gr_neighbors := retain_at (nb_subject n) (\<lambda>m. nb_edge m \<noteq> nb_edge n) (gr_neighbors g),
       gr_excluded := gr_excluded g @ [\<lparr>ex_edge = nb_edge n, ex_event = nb_edge n,
         ex_source = pin_subject (pins_source pin0), ex_target = pin_subject (pins_target pin0),
         ex_reasons = [''as_of:'' @ reason]\<rparr>]\<rparr>)}"

definition hide_subject :: "projection \<Rightarrow> (hash, string) fmap \<Rightarrow> hash \<Rightarrow> support_graph \<Rightarrow> support_graph option" where
  "hide_subject p hid s g = do {
     reason \<leftarrow> fmlookup hid s;
     let ns = neighbors g s;
     for_each (hide_edge p reason) ns
       (g\<lparr>gr_subjects := fmupd s reason (gr_subjects g), gr_neighbors := fmdrop s (gr_neighbors g)\<rparr>)}"

definition governed_support :: "snapshot \<Rightarrow> hash option \<Rightarrow> support_graph option" where
  "governed_support sn as_of = do {
     g \<leftarrow> support_graph_of (sn_projection sn) (set (fi_curators (sn_filter sn)));
     hid \<leftarrow> hidden sn as_of g;
     g' \<leftarrow> for_each (hide_subject (sn_projection sn) hid) (keys hid) g;
     Some (g'\<lparr>gr_neighbors := fmfilter (\<lambda>s. neighbors_at (gr_neighbors g') s \<noteq> {||}) (gr_neighbors g'),
       gr_excluded := remdups_adj (sort_key (\<lambda>x. (ex_edge x, ex_event x)) (gr_excluded g'))\<rparr>)}"

record verdict =
  vd_rule :: rule_id
  vd_corpus_digest :: hash
  vd_as_of :: "hash option"
  vd_support :: support

definition verdict_of :: "snapshot \<Rightarrow> hash \<Rightarrow> hash \<Rightarrow> hash option \<Rightarrow> verdict option" where
  "verdict_of sn from to as_of = do {
     g \<leftarrow> governed_support sn as_of;
     s \<leftarrow> query g from to (unat (fi_max_hops (sn_filter sn)));
     Some \<lparr>vd_rule = sn_rule sn, vd_corpus_digest = sn_corpus_digest sn, vd_as_of = as_of, vd_support = s\<rparr>}"

end
