(* ===== verification/Store.thy ===== *)
theory Store
  imports Snapshot
begin

text \<open>
  The store of \<^verbatim>\<open>crates/cc-ledger/src/v1.rs\<close>, with the rule binding, export and restore of
  \<^verbatim>\<open>v1/rule.rs\<close> and the snapshot cache and receipts of \<^verbatim>\<open>v1/serving.rs\<close>.

  \<^item> The PostgreSQL database is the record \<open>db\<close>: its tables are finite maps by primary key. The schema
    checks make every key and every identity column 32 bytes, so these columns have type \<^typ>\<open>hash\<close>;
    the triggers of the schema refuse updates and deletes, so the only writes are inserts, and
    \<open>ON CONFLICT DO NOTHING\<close> keeps the first row. An operation that returns an error inside a
    transaction rolls it back. Lost connections are not modelled; \<open>E_Database\<close> is what a missing
    table, a missing row of \<open>fetch_one\<close> and a primary key conflict raise.
  \<^item> \<open>node\<close> is a \<open>Store\<close> with the database it is connected to.
  \<^item> What the build fixes is the record \<open>build\<close>: the cryptographic functions, the bytes of
    \<^verbatim>\<open>v1.sql\<close> (only their hash is used) and the row serialization.
  \<^item> \<^term>\<open>None\<close> is a panic of the fold.
\<close>

section \<open>Errors, tables and handles\<close>

datatype store_error = E_Database | E_NotEmpty | E_Identity | E_Corrupt | E_Unprovisioned
  | E_UnsupportedFoldVersion | E_RuleIdentity | E_Unbound | E_RootMismatch | E_Receipt | E_BodyHash

record 'sk build =
  bd_crypto :: "'sk crypto"
  bd_schema :: "byte list"
  bd_json :: "view_rows \<Rightarrow> byte list"

definition hash_of :: "'sk build \<Rightarrow> byte list \<Rightarrow> hash" where
  "hash_of B = sha256 (bd_crypto B)"

record identity_row =
  iw_instance :: hash
  iw_encoding :: u16
  iw_schema_hash :: hash

record rule_row =
  rw_fold_version :: u16
  rw_fold_manifest :: hash
  rw_filter_identity :: "byte list"

text \<open>\<open>db_foreign\<close> and \<open>db_relations\<close> count the relations outside and inside the schema \<open>cc_v1\<close>.\<close>

record db =
  db_foreign :: nat
  db_relations :: nat
  db_schema :: bool
  db_identity :: "identity_row option"
  db_candidates :: "(hash, byte list) fmap"
  db_rejections :: "(hash, string) fmap"
  db_receipts :: "(hash, hash \<times> byte list) fmap"
  db_bodies :: "(hash, byte list) fmap"
  db_rule :: "rule_row option"

record cache_id =
  ck_rule :: rule_id
  ck_corpus_digest :: hash
  ck_content :: hash

record inner =
  ic_generation :: u64
  ic_entry :: "(cache_id \<times> snapshot) option"
  ic_hits :: u64
  ic_misses :: u64

record node =
  nd_db :: db
  nd_instance :: hash
  nd_rule :: "filter_identity option"
  nd_cache :: "inner option"

definition inner_default :: inner where
  "inner_default = \<lparr>ic_generation = 0, ic_entry = None, ic_hits = 0, ic_misses = 0\<rparr>"

text \<open>\<open>INSERT ... ON CONFLICT DO NOTHING\<close>.\<close>

definition insert_new :: "'k \<Rightarrow> 'v \<Rightarrow> ('k, 'v) fmap \<Rightarrow> ('k, 'v) fmap" where
  "insert_new k v m = (if has m k then m else fmupd k v m)"

text \<open>A loop that stops at the first error.\<close>

fun fold_result :: "('a \<Rightarrow> 's \<Rightarrow> 'e + 's) \<Rightarrow> 'a list \<Rightarrow> 's \<Rightarrow> 'e + 's" where
  "fold_result f [] s = Inr s"
| "fold_result f (x # xs) s = rbind (f x s) (fold_result f xs)"

section \<open>Provisioning\<close>

definition create_schema :: "'sk build \<Rightarrow> hash \<Rightarrow> db \<Rightarrow> db" where
  "create_schema B inst d = d\<lparr>db_relations := 6, db_schema := True,
     db_identity := Some \<lparr>iw_instance = inst, iw_encoding = 1, iw_schema_hash = hash_of B (bd_schema B)\<rparr>,
     db_candidates := fmempty, db_rejections := fmempty, db_receipts := fmempty, db_bodies := fmempty, db_rule := None\<rparr>"

definition identity_differs :: "'sk build \<Rightarrow> hash \<Rightarrow> identity_row \<Rightarrow> bool" where
  "identity_differs B inst row \<longleftrightarrow> iw_instance row \<noteq> inst \<or> iw_encoding row \<noteq> 1 \<or> iw_schema_hash row \<noteq> hash_of B (bd_schema B)"

definition provision :: "'sk build \<Rightarrow> hash \<Rightarrow> db \<Rightarrow> store_error + node" where
  "provision B inst d = guard (db_foreign d \<noteq> 0) E_NotEmpty
     (rbind (if db_schema d then Inr d
        else guard (db_foreign d + db_relations d \<noteq> 0) E_NotEmpty (Inr (create_schema B inst d))) (\<lambda>d'.
      case db_identity d' of None \<Rightarrow> Inl E_Database
      | Some row \<Rightarrow> guard (identity_differs B inst row) E_Identity
          (Inr \<lparr>nd_db = d', nd_instance = inst, nd_rule = None, nd_cache = Some inner_default\<rparr>)))"

section \<open>Readiness\<close>

record readiness =
  rd_serving :: bool
  rd_semantic :: string
  rd_rule :: "rule_id option"

definition semantic_state :: "'sk build \<Rightarrow> filter_identity option \<Rightarrow> rule_row option \<Rightarrow> string" where
  "semantic_state B rule row = (case (rule, row) of
     (None, _) \<Rightarrow> ''rule_identity_unbound''
   | (Some _, None) \<Rightarrow> ''rule_identity_unrecorded''
   | (Some f, Some r) \<Rightarrow>
       if \<not> supported_fold (hash_of B) \<lparr>fr_version = rw_fold_version r, fr_manifest = rw_fold_manifest r\<rparr>
       then ''unsupported_fold_version''
       else if rw_filter_identity r \<noteq> canonical f then ''incompatible_rule_identity'' else ''ready'')"

definition semantic_readiness :: "'sk build \<Rightarrow> node \<Rightarrow> store_error + readiness" where
  "semantic_readiness B nd = guard (\<not> db_schema (nd_db nd)) E_Database
     (let semantic = semantic_state B (nd_rule nd) (db_rule (nd_db nd)) in
      Inr \<lparr>rd_serving = (semantic = ''ready''), rd_semantic = semantic, rd_rule = map_option (rule_of (hash_of B)) (nd_rule nd)\<rparr>)"

definition readiness_of :: "'sk build \<Rightarrow> node \<Rightarrow> store_error + rule_id" where
  "readiness_of B nd = rbind (semantic_readiness B nd) (\<lambda>r.
     if rd_semantic r = ''ready'' then (case rd_rule r of None \<Rightarrow> Inl E_Unbound | Some i \<Rightarrow> Inr i)
     else if rd_semantic r = ''rule_identity_unbound'' \<or> rd_semantic r = ''rule_identity_unrecorded'' then Inl E_Unbound
     else if rd_semantic r = ''unsupported_fold_version'' then Inl E_UnsupportedFoldVersion
     else Inl E_RuleIdentity)"

definition open_store :: "'sk build \<Rightarrow> hash \<Rightarrow> filter_identity \<Rightarrow> db \<Rightarrow> store_error + node" where
  "open_store B inst f d = guard (\<not> supported_fold (hash_of B) (fi_fold f)) E_UnsupportedFoldVersion
     (guard (\<not> is_governed (hash_of B) (key_ok (bd_crypto B)) f) E_RuleIdentity
     (guard (db_foreign d \<noteq> 0) E_NotEmpty
     (guard (\<not> db_schema d) E_Unprovisioned
     (case db_identity d of None \<Rightarrow> Inl E_Unprovisioned
      | Some row \<Rightarrow> guard (identity_differs B inst row) E_Identity
          (let nd = \<lparr>nd_db = d, nd_instance = inst, nd_rule = Some f, nd_cache = Some inner_default\<rparr> in
           rbind (readiness_of B nd) (\<lambda>_. Inr nd))))))"

text \<open>\<open>bind\<close> writes outside a transaction: the row it inserts stays whatever it returns.\<close>

definition record_rule :: "filter_identity \<Rightarrow> db \<Rightarrow> db" where
  "record_rule f d = (case db_rule d of Some _ \<Rightarrow> d
     | None \<Rightarrow> d\<lparr>db_rule := Some \<lparr>rw_fold_version = fr_version (fi_fold f), rw_fold_manifest = fr_manifest (fi_fold f),
         rw_filter_identity = canonical f\<rparr>\<rparr>)"

definition ready_error :: "string \<Rightarrow> 'a \<Rightarrow> store_error + 'a" where
  "ready_error semantic x = (if semantic = ''ready'' then Inr x
     else if semantic = ''unsupported_fold_version'' then Inl E_UnsupportedFoldVersion else Inl E_RuleIdentity)"

definition bind_rule :: "'sk build \<Rightarrow> filter_identity \<Rightarrow> node \<Rightarrow> (store_error + node) \<times> db" where
  "bind_rule B f nd =
     (if \<not> supported_fold (hash_of B) (fi_fold f) then (Inl E_UnsupportedFoldVersion, nd_db nd)
      else if \<not> is_governed (hash_of B) (key_ok (bd_crypto B)) f then (Inl E_RuleIdentity, nd_db nd)
      else if \<not> db_schema (nd_db nd) then (Inl E_Database, nd_db nd)
      else let d = record_rule f (nd_db nd); nd' = nd\<lparr>nd_db := d, nd_rule := Some f\<rparr> in
        (rbind (semantic_readiness B nd') (\<lambda>r. ready_error (rd_semantic r) nd'), d))"

definition bound :: "'sk build \<Rightarrow> fold_ref option \<Rightarrow> node \<Rightarrow> store_error + filter_identity" where
  "bound B requested nd = (case nd_rule nd of None \<Rightarrow> Inl E_Unbound
     | Some rule \<Rightarrow> guard (case requested of None \<Rightarrow> False | Some r \<Rightarrow> \<not> supported_fold (hash_of B) r \<or> r \<noteq> fi_fold rule)
         E_UnsupportedFoldVersion (Inr rule))"

definition ready :: "'sk build \<Rightarrow> fold_ref option \<Rightarrow> node \<Rightarrow> store_error + filter_identity" where
  "ready B requested nd = rbind (bound B requested nd) (\<lambda>rule.
     rbind (semantic_readiness B nd) (\<lambda>r. ready_error (rd_semantic r) rule))"

section \<open>Candidates\<close>

definition verify_row :: "'sk build \<Rightarrow> hash \<Rightarrow> db \<Rightarrow> hash \<Rightarrow> corpus \<Rightarrow> store_error + corpus" where
  "verify_row B inst d eid cands = (case fmlookup (db_candidates d) eid of None \<Rightarrow> Inr cands
     | Some w \<Rightarrow> (case decode (bd_crypto B) w of Inl _ \<Rightarrow> Inl E_Corrupt
         | Inr s \<Rightarrow> guard (env_instance (envelope_of s) \<noteq> inst \<or> eid \<noteq> sg_id s) E_Corrupt (Inr (fmupd (sg_id s) s cands))))"

definition verified_candidates :: "'sk build \<Rightarrow> hash \<Rightarrow> db \<Rightarrow> store_error + corpus" where
  "verified_candidates B inst d = guard (\<not> db_schema d) E_Database
     (fold_result (verify_row B inst d) (keys (db_candidates d)) fmempty)"

section \<open>The snapshot cache\<close>

definition content_bytes :: "(hash \<times> hash) list \<Rightarrow> byte list" where
  "content_bytes rows = concat (map (\<lambda>(eid, digest). hash_bytes eid @ hash_bytes digest) rows)"

definition key_of :: "'sk build \<Rightarrow> filter_identity \<Rightarrow> (hash \<times> hash) list \<Rightarrow> cache_id" where
  "key_of B f rows = \<lparr>ck_rule = rule_of (hash_of B) f, ck_corpus_digest = corpus_digest (hash_of B) (fst ` set rows),
     ck_content = hash_of B (content_bytes rows)\<rparr>"

definition invalidate :: "inner \<Rightarrow> inner" where
  "invalidate c = c\<lparr>ic_generation := ic_generation c + 1, ic_entry := None\<rparr>"

definition probe :: "'sk build \<Rightarrow> filter_identity \<Rightarrow> db \<Rightarrow> store_error + cache_id" where
  "probe B f d = guard (\<not> db_schema d) E_Database
     (Inr (key_of B f (map (\<lambda>(eid, w). (eid, hash_of B w)) (entries (db_candidates d)))))"

definition cache_look :: "cache_id \<Rightarrow> inner \<Rightarrow> snapshot option \<times> inner" where
  "cache_look key c =
     (let hit = (case ic_entry c of Some (cached, s) \<Rightarrow> if cached = key then Some s else None | None \<Rightarrow> None) in
      (hit, case hit of Some _ \<Rightarrow> c\<lparr>ic_hits := ic_hits c + 1\<rparr> | None \<Rightarrow> c\<lparr>ic_misses := ic_misses c + 1\<rparr>))"

definition fold_candidates :: "'sk build \<Rightarrow> hash \<Rightarrow> filter_identity \<Rightarrow> db \<Rightarrow> (store_error + corpus \<times> snapshot) option" where
  "fold_candidates B inst f d = (case verified_candidates B inst d of Inl e \<Rightarrow> Some (Inl e)
     | Inr cands \<Rightarrow> do {
         s \<leftarrow> snapshot_of (hash_of B) (key_ok (bd_crypto B)) (bd_json B) f cands;
         Some (Inr (cands, s))})"

definition cache_fill :: "'sk build \<Rightarrow> filter_identity \<Rightarrow> u64 \<Rightarrow> corpus \<Rightarrow> snapshot \<Rightarrow> inner \<Rightarrow> inner" where
  "cache_fill B f generation cands s c =
     (if ic_generation c = generation
      then c\<lparr>ic_entry := Some (key_of B f (map (\<lambda>(eid, e). (eid, hash_of B (sg_bytes e))) (entries cands)), s)\<rparr>
      else c)"

definition committed :: "'sk build \<Rightarrow> filter_identity \<Rightarrow> node \<Rightarrow> ((store_error + snapshot) \<times> node) option" where
  "committed B f nd = (case nd_cache nd of
     None \<Rightarrow> map_option (\<lambda>r. (map_sum id snd r, nd)) (fold_candidates B (nd_instance nd) f (nd_db nd))
   | Some c \<Rightarrow> (case probe B f (nd_db nd) of Inl e \<Rightarrow> Some (Inl e, nd)
       | Inr key \<Rightarrow> (let (hit, c') = cache_look key c in
           case hit of Some s \<Rightarrow> Some (Inr s, nd\<lparr>nd_cache := Some c'\<rparr>)
           | None \<Rightarrow> do {
               r \<leftarrow> fold_candidates B (nd_instance nd) f (nd_db nd);
               Some (case r of Inl e \<Rightarrow> (Inl e, nd\<lparr>nd_cache := Some c'\<rparr>)
                 | Inr (cands, s) \<Rightarrow> (Inr s, nd\<lparr>nd_cache := Some (cache_fill B f (ic_generation c) cands s c')\<rparr>))})))"

definition snapshot_read :: "'sk build \<Rightarrow> fold_ref option \<Rightarrow> node \<Rightarrow> ((store_error + snapshot) \<times> node) option" where
  "snapshot_read B requested nd = (case ready B requested nd of Inl e \<Rightarrow> Some (Inl e, nd) | Inr rule \<Rightarrow> committed B rule nd)"

section \<open>Receipts\<close>

text \<open>The microseconds since 1970, or none before; the value saturates at \<open>u64::MAX\<close>.\<close>

definition now_micros :: "nat option \<Rightarrow> u64" where
  "now_micros clock = (case clock of None \<Rightarrow> 0 | Some us \<Rightarrow> if us < 2 ^ 64 then word_of_nat us else - 1)"

fun admission_of :: "state \<Rightarrow> admission_result" where
  "admission_of Valid = R_Valid"
| "admission_of Pending = R_Pending"
| "admission_of Invalid = R_Invalid"

definition receipt_for :: "'sk build \<Rightarrow> 'sk \<Rightarrow> hash \<Rightarrow> filter_identity \<Rightarrow> hash \<Rightarrow> status \<Rightarrow> u64 \<Rightarrow> store_error + signed_receipt" where
  "receipt_for B key inst f event st received_at =
     (case receipt_sign (bd_crypto B) key \<lparr>nr_instance = inst, nr_node_key = 0, nr_event = event, nr_received_at = received_at,
        nr_encoding_version = CANON_VERSION, nr_fold_version = fi_fold f,
        nr_initial_admission_result = \<lparr>ir_state = admission_of (st_state st), ir_reason = st_reason st,
          ir_missing = sorted_list_of_set (set (st_missing st))\<rparr>\<rparr> of
      Inl _ \<Rightarrow> Inl E_Receipt | Inr r \<Rightarrow> Inr r)"

definition retain_receipt :: "'sk build \<Rightarrow> byte list \<Rightarrow> node \<Rightarrow> (store_error + unit) \<times> node" where
  "retain_receipt B bytes nd = (case receipt_decode (bd_crypto B) bytes of Inl _ \<Rightarrow> (Inl E_Receipt, nd)
     | Inr sr \<Rightarrow> (let r = rc_receipt sr; d = nd_db nd in
         if nr_instance r \<noteq> nd_instance nd then (Inl E_Receipt, nd)
         else if \<not> db_schema d then (Inl E_Database, nd)
         else if \<not> has (db_candidates d) (nr_event r) then (Inl E_Receipt, nd)
         else (Inr (), nd\<lparr>nd_db := d\<lparr>db_receipts := insert_new (hash_of B bytes) (nr_event r, bytes) (db_receipts d)\<rparr>\<rparr>)))"

definition check_receipt_row :: "'sk build \<Rightarrow> hash \<Rightarrow> hash \<Rightarrow> hash \<times> byte list \<Rightarrow> signed_receipt list \<Rightarrow> store_error + signed_receipt list" where
  "check_receipt_row B inst event row out = (case receipt_decode (bd_crypto B) (snd row) of Inl _ \<Rightarrow> Inl E_Corrupt
     | Inr r \<Rightarrow> guard (nr_instance (rc_receipt r) \<noteq> inst \<or> nr_event (rc_receipt r) \<noteq> event \<or> fst row \<noteq> hash_of B (snd row))
         E_Corrupt (Inr (out @ [r])))"

definition receipts :: "'sk build \<Rightarrow> hash \<Rightarrow> node \<Rightarrow> store_error + signed_receipt list" where
  "receipts B event nd = guard (\<not> db_schema (nd_db nd)) E_Database
     (fold_result (check_receipt_row B (nd_instance nd) event)
       (map (\<lambda>(digest, _, bytes). (digest, bytes)) (filter (\<lambda>(_, ev, _). ev = event) (entries (db_receipts (nd_db nd))))) [])"

section \<open>Admission\<close>

record outcome =
  oc_event :: "hash option"
  oc_input_digest :: hash
  oc_status :: status
  oc_authority :: "effect option"

definition reject :: "hash \<Rightarrow> string \<Rightarrow> db \<Rightarrow> db" where
  "reject digest reason d = d\<lparr>db_rejections := insert_new digest reason (db_rejections d)\<rparr>"

text \<open>The receipt of a first admission; a digest that is already taken is a primary key conflict.\<close>

definition insert_receipt :: "'sk build \<Rightarrow> hash \<Rightarrow> signed_receipt \<Rightarrow> db \<Rightarrow> store_error + db" where
  "insert_receipt B event r d = guard (has (db_receipts d) (hash_of B (rc_bytes r))) E_Database
     (Inr (d\<lparr>db_receipts := fmupd (hash_of B (rc_bytes r)) (event, rc_bytes r) (db_receipts d)\<rparr>))"

definition write_candidate :: "'sk build \<Rightarrow> ('sk \<times> filter_identity) option \<Rightarrow> nat option \<Rightarrow> byte list \<Rightarrow> hash \<Rightarrow> outcome \<Rightarrow> node \<Rightarrow>
    store_error + (outcome \<times> signed_receipt option) \<times> db" where
  "write_candidate B observer clock bytes eid out nd =
     (let d = nd_db nd; inserted = (\<not> has (db_candidates d) eid);
          d' = d\<lparr>db_candidates := insert_new eid bytes (db_candidates d)\<rparr> in
      case observer of
        Some (key, f) \<Rightarrow>
          if inserted then rbind (receipt_for B key (nd_instance nd) f eid (oc_status out) (now_micros clock)) (\<lambda>r.
            rbind (insert_receipt B eid r d') (\<lambda>d''. Inr ((out, Some r), d'')))
          else Inr ((out, None), d')
      | None \<Rightarrow> Inr ((out, None), d'))"

definition admit_signed :: "'sk build \<Rightarrow> ('sk \<times> filter_identity) option \<Rightarrow> nat option \<Rightarrow> byte list \<Rightarrow> signed \<Rightarrow> node \<Rightarrow>
    (store_error + (outcome \<times> signed_receipt option) \<times> db) option" where
  "admit_signed B observer clock bytes ev nd = (let eid = sg_id ev in
     case verified_candidates B (nd_instance nd) (nd_db nd) of Inl e \<Rightarrow> Some (Inl e)
     | Inr cands \<Rightarrow> do {
         an \<leftarrow> analyze (hash_of B) (key_ok (bd_crypto B)) (fmupd eid ev cands);
         Some (case fmlookup (an_admission an) eid of None \<Rightarrow> Inl E_Corrupt
           | Some st \<Rightarrow> write_candidate B observer clock bytes eid \<lparr>oc_event = Some eid, oc_input_digest = hash_of B bytes,
               oc_status = st, oc_authority = fmlookup (au_effects (an_authority an)) eid\<rparr> nd)})"

definition admit_once :: "'sk build \<Rightarrow> 'sk option \<Rightarrow> nat option \<Rightarrow> byte list \<Rightarrow> node \<Rightarrow>
    (store_error + (outcome \<times> signed_receipt option) \<times> db) option" where
  "admit_once B nkey clock bytes nd =
     (case (case nkey of None \<Rightarrow> Inr None | Some key \<Rightarrow> rbind (bound B None nd) (\<lambda>f. Inr (Some (key, f)))) of
        Inl e \<Rightarrow> Some (Inl e)
      | Inr observer \<Rightarrow>
          if \<not> db_schema (nd_db nd) \<or> db_identity (nd_db nd) = None then Some (Inl E_Database)
          else let digest = hash_of B bytes;
            refuse = (\<lambda>reason. Some (Inr ((\<lparr>oc_event = None, oc_input_digest = digest, oc_status = invalid reason,
              oc_authority = None\<rparr>, None), reject digest reason (nd_db nd)))) in
          case decode (bd_crypto B) bytes of
            Inl e \<Rightarrow> refuse e
          | Inr s \<Rightarrow> if env_instance (envelope_of s) \<noteq> nd_instance nd then refuse ''wrong_instance''
              else admit_signed B observer clock bytes s nd)"

text \<open>An error rolls the transaction back; the cache is invalidated in every case.\<close>

definition admit_observed :: "'sk build \<Rightarrow> 'sk option \<Rightarrow> nat option \<Rightarrow> byte list \<Rightarrow> node \<Rightarrow>
    ((store_error + outcome \<times> signed_receipt option) \<times> node) option" where
  "admit_observed B nkey clock bytes nd = do {
     result \<leftarrow> admit_once B nkey clock bytes nd;
     let d = (case result of Inl _ \<Rightarrow> nd_db nd | Inr (_, d) \<Rightarrow> d);
     Some (map_sum id fst result, nd\<lparr>nd_db := d, nd_cache := map_option invalidate (nd_cache nd)\<rparr>)}"

definition admit :: "'sk build \<Rightarrow> byte list \<Rightarrow> node \<Rightarrow> ((store_error + outcome) \<times> node) option" where
  "admit B bytes nd = map_option (\<lambda>(r, nd'). (map_sum id fst r, nd')) (admit_observed B None None bytes nd)"

fun admit_all :: "'sk build \<Rightarrow> byte list list \<Rightarrow> node \<Rightarrow> ((store_error + outcome list) \<times> node) option" where
  "admit_all B [] nd = Some (Inr [], nd)"
| "admit_all B (bytes # rest) nd = do {
     (r, nd') \<leftarrow> admit B bytes nd;
     (case r of Inl e \<Rightarrow> Some (Inl e, nd')
      | Inr out \<Rightarrow> map_option (\<lambda>(rs, nd''). (map_sum id (Cons out) rs, nd'')) (admit_all B rest nd'))}"

section \<open>Bodies\<close>

definition retain_body :: "'sk build \<Rightarrow> hash \<Rightarrow> byte list \<Rightarrow> node \<Rightarrow> (store_error + bool) \<times> node" where
  "retain_body B expected bytes nd =
     (let d = nd_db nd in
      if hash_of B bytes \<noteq> expected then (Inl E_BodyHash, nd)
      else if \<not> db_schema d then (Inl E_Database, nd)
      else (Inr (\<not> has (db_bodies d) expected), nd\<lparr>nd_db := d\<lparr>db_bodies := insert_new expected bytes (db_bodies d)\<rparr>\<rparr>))"

definition body_bytes :: "'sk build \<Rightarrow> hash \<Rightarrow> node \<Rightarrow> store_error + byte list option" where
  "body_bytes B expected nd = guard (\<not> db_schema (nd_db nd)) E_Database
     (let b = fmlookup (db_bodies (nd_db nd)) expected in
      guard (case b of None \<Rightarrow> False | Some x \<Rightarrow> hash_of B x \<noteq> expected) E_Corrupt (Inr b))"

section \<open>Export and restore\<close>

record export_manifest =
  em_encoding :: u16
  em_rule :: rule_id
  em_corpus_digest :: hash
  em_commitment :: hash
  em_envelopes :: "byte list list"

definition export :: "'sk build \<Rightarrow> fold_ref option \<Rightarrow> node \<Rightarrow> (store_error + export_manifest) option" where
  "export B requested nd = (case ready B requested nd of Inl e \<Rightarrow> Some (Inl e)
     | Inr rule \<Rightarrow> do {
         r \<leftarrow> fold_candidates B (nd_instance nd) rule (nd_db nd);
         Some (rbind r (\<lambda>(cands, s). Inr \<lparr>em_encoding = CANON_VERSION, em_rule = sn_rule s,
           em_corpus_digest = sn_corpus_digest s, em_commitment = sn_commitment s,
           em_envelopes = map (\<lambda>(_, e). sg_bytes e) (entries cands)\<rparr>))})"

definition read_envelope :: "'sk build \<Rightarrow> hash \<Rightarrow> byte list \<Rightarrow> corpus \<Rightarrow> store_error + corpus" where
  "read_envelope B inst bytes cands = (case decode (bd_crypto B) bytes of Inl _ \<Rightarrow> Inl E_Corrupt
     | Inr s \<Rightarrow> guard (env_instance (envelope_of s) \<noteq> inst) E_Corrupt (Inr (fmupd (sg_id s) s cands)))"

definition restore_checks :: "'sk build \<Rightarrow> export_manifest \<Rightarrow> node \<Rightarrow> store_error + filter_identity \<times> corpus" where
  "restore_checks B m nd =
     guard (em_encoding m \<noteq> CANON_VERSION \<or> \<not> supported_fold (hash_of B) (rule_fold (em_rule m))) E_UnsupportedFoldVersion
     (rbind (ready B (Some (rule_fold (em_rule m))) nd) (\<lambda>rule.
      guard (em_rule m \<noteq> rule_of (hash_of B) rule) E_RuleIdentity
      (rbind (fold_result (read_envelope B (nd_instance nd)) (em_envelopes m) fmempty) (\<lambda>cands. Inr (rule, cands)))))"

definition restore_export :: "'sk build \<Rightarrow> export_manifest \<Rightarrow> node \<Rightarrow> ((store_error + outcome list) \<times> node) option" where
  "restore_export B m nd = (case restore_checks B m nd of Inl e \<Rightarrow> Some (Inl e, nd)
     | Inr (rule, cands) \<Rightarrow> do {
         s \<leftarrow> snapshot_of (hash_of B) (key_ok (bd_crypto B)) (bd_json B) rule cands;
         if sn_corpus_digest s \<noteq> em_corpus_digest m \<or> sn_commitment s \<noteq> em_commitment m then Some (Inl E_RootMismatch, nd)
         else admit_all B (em_envelopes m) nd})"

text \<open>
  A restore is a sequence of transactions, one for each envelope. In \<open>restore_until\<close> the database takes the first
  \<open>k\<close> of them and fails the next: that one is rolled back, \<open>admit_all\<close> returns its error, and the envelopes before
  it stay admitted.
\<close>

fun admit_until :: "'sk build \<Rightarrow> nat \<Rightarrow> byte list list \<Rightarrow> node \<Rightarrow> ((store_error + outcome list) \<times> node) option" where
  "admit_until B k [] nd = Some (Inr [], nd)"
| "admit_until B 0 (bytes # rest) nd = Some (Inl E_Database, nd)"
| "admit_until B (Suc k) (bytes # rest) nd = do {
     (r, nd') \<leftarrow> admit B bytes nd;
     (case r of Inl e \<Rightarrow> Some (Inl e, nd')
      | Inr out \<Rightarrow> map_option (\<lambda>(rs, nd''). (map_sum id (Cons out) rs, nd'')) (admit_until B k rest nd'))}"

definition restore_until :: "'sk build \<Rightarrow> nat \<Rightarrow> export_manifest \<Rightarrow> node \<Rightarrow> ((store_error + outcome list) \<times> node) option" where
  "restore_until B k m nd = (case restore_checks B m nd of Inl e \<Rightarrow> Some (Inl e, nd)
     | Inr (rule, cands) \<Rightarrow> do {
         s \<leftarrow> snapshot_of (hash_of B) (key_ok (bd_crypto B)) (bd_json B) rule cands;
         if sn_corpus_digest s \<noteq> em_corpus_digest m \<or> sn_commitment s \<noteq> em_commitment m then Some (Inl E_RootMismatch, nd)
         else admit_until B k (em_envelopes m) nd})"

end
