(* ===== verification/As_Of.thy ===== *)
theory As_Of
  imports Snapshot Projection_Properties
begin

text \<open>
  Reads at a point of asserted time: an \<open>as_of\<close> coordinate hides subjects and the edges at them and
  nothing else. The pruning loop of \<open>Snapshot::support\<close> leaves exactly the edges between subjects
  that are not hidden, so support can only grow as \<open>as_of\<close> advances.
\<close>

section \<open>Graphs of identified edges\<close>

text \<open>
  The relation of a subject and a neighbor is undirected when every edge is seen from both ends and
  an edge id names one pair of ends.
\<close>

definition undirected :: "(hash \<Rightarrow> neighbor \<Rightarrow> bool) \<Rightarrow> bool" where
  "undirected R \<longleftrightarrow>
     (\<forall>a n. R a n \<longrightarrow> R (nb_subject n) (Neighbor a (nb_edge n) (nb_relation n))) \<and>
     (\<forall>a n b m. R a n \<longrightarrow> R b m \<longrightarrow> nb_edge n = nb_edge m \<longrightarrow> {a, nb_subject n} = {b, nb_subject m})"

lemma undirectedD:
  assumes "undirected R"
  shows "R a n \<Longrightarrow> R (nb_subject n) (Neighbor a (nb_edge n) (nb_relation n))"
    "R a n \<Longrightarrow> R b m \<Longrightarrow> nb_edge n = nb_edge m \<Longrightarrow> {a, nb_subject n} = {b, nb_subject m}"
  using assms unfolding undirected_def by blast+

lemma linked_undirected:
  assumes "distinct (map ed_edge es)"
  shows "undirected (linked cands curators (set es))"
proof -
  let ?R = "linked cands curators (set es)"
  have edge: "\<exists>e\<in>set es. ed_edge e = nb_edge n \<and> {a, nb_subject n} = {fst (ends_of e), snd (ends_of e)}" if "?R a n" for a n
  proof -
    from that obtain e where e: "e \<in> set es" "n = Neighbor (nb_subject n) (ed_edge e) (ed_relation e)"
      "(a, nb_subject n) = ends_of e \<or> (nb_subject n, a) = ends_of e" unfolding linked_def by blast
    then have "ed_edge e = nb_edge n" by (metis neighbor.sel(2))
    moreover have "{a, nb_subject n} = {fst (ends_of e), snd (ends_of e)}" using e(3) by (cases "ends_of e") auto
    ultimately show ?thesis using e(1) by blast
  qed
  have one: "e = e'" if "e \<in> set es" "e' \<in> set es" "ed_edge e = ed_edge e'" for e e'
    using assms that by (simp add: distinct_map inj_on_def)
  have "?R (nb_subject n) (Neighbor a (nb_edge n) (nb_relation n))" if "?R a n" for a n
  proof -
    from that obtain e where "e \<in> set es" "usable cands curators e" "n = Neighbor (nb_subject n) (ed_edge e) (ed_relation e)"
      "(a, nb_subject n) = ends_of e \<or> (nb_subject n, a) = ends_of e" unfolding linked_def by blast
    then show ?thesis unfolding linked_def by (intro bexI [of _ e]) (cases n; auto)+
  qed
  moreover have "{a, nb_subject n} = {b, nb_subject m}" if "?R a n" "?R b m" "nb_edge n = nb_edge m" for a n b m
  proof -
    from edge [OF that(1)] edge [OF that(2)] obtain e e' where e: "e \<in> set es" "e' \<in> set es" "ed_edge e = nb_edge n"
      "ed_edge e' = nb_edge m" "{a, nb_subject n} = {fst (ends_of e), snd (ends_of e)}"
      "{b, nb_subject m} = {fst (ends_of e'), snd (ends_of e')}" by blast
    have "e = e'" by (rule one [OF e(1,2)]) (simp add: e(3,4) that(3))
    with e(5,6) show ?thesis by simp
  qed
  ultimately show ?thesis unfolding undirected_def by blast
qed

section \<open>Hiding subjects\<close>

lemma retain_at_in: "m |\<in>| neighbors_at (retain_at t keep M) a \<longleftrightarrow> m |\<in>| neighbors_at M a \<and> (a = t \<longrightarrow> keep m)"
  by (auto simp: retain_at_def neighbors_at_def split: option.splits)

definition edges_known :: "projection \<Rightarrow> (hash \<Rightarrow> neighbor \<Rightarrow> bool) \<Rightarrow> bool" where
  "edges_known p R \<longleftrightarrow> (\<forall>a n. R a n \<longrightarrow> (\<exists>e. find (\<lambda>e. ed_edge e = nb_edge n) (pj_edges p) = Some e \<and> ed_pins e \<noteq> []))"

lemma hide_edge_Some:
  fixes g :: support_graph
  assumes "edges_known p R" "R a n"
  shows "\<exists>xs. hide_edge p reason n g = Some (g\<lparr>gr_neighbors := retain_at (nb_subject n) (\<lambda>m. nb_edge m \<noteq> nb_edge n) (gr_neighbors g),
    gr_excluded := gr_excluded g @ xs\<rparr>)"
  using assms unfolding edges_known_def hide_edge_def by (fastforce split: list.splits)

lemma hide_edges_Some:
  fixes g :: support_graph
  assumes known: "edges_known p R" and "\<And>n. n \<in> set ns \<Longrightarrow> R s n"
  shows "\<exists>g'. for_each (hide_edge p reason) ns g = Some g' \<and> gr_subjects g' = gr_subjects g \<and>
    (\<forall>a m. m |\<in>| neighbors_at (gr_neighbors g') a \<longleftrightarrow> m |\<in>| neighbors_at (gr_neighbors g) a \<and>
      (\<forall>n\<in>set ns. nb_subject n = a \<longrightarrow> nb_edge m \<noteq> nb_edge n))"
proof (rule for_each_rule)
  fix pre n post and g' :: support_graph
  assume split: "ns = pre @ n # post" and I: "gr_subjects g' = gr_subjects g \<and>
    (\<forall>a m. m |\<in>| neighbors_at (gr_neighbors g') a \<longleftrightarrow> m |\<in>| neighbors_at (gr_neighbors g) a \<and>
      (\<forall>n\<in>set pre. nb_subject n = a \<longrightarrow> nb_edge m \<noteq> nb_edge n))"
  have "R s n" using assms(2) by (simp add: split)
  from hide_edge_Some [OF known this, of reason g'] obtain xs where xs: "hide_edge p reason n g' =
    Some (g'\<lparr>gr_neighbors := retain_at (nb_subject n) (\<lambda>m. nb_edge m \<noteq> nb_edge n) (gr_neighbors g'),
    gr_excluded := gr_excluded g' @ xs\<rparr>)" by blast
  show "\<exists>g''. hide_edge p reason n g' = Some g'' \<and> (gr_subjects g'' = gr_subjects g \<and>
    (\<forall>a m. m |\<in>| neighbors_at (gr_neighbors g'') a \<longleftrightarrow> m |\<in>| neighbors_at (gr_neighbors g) a \<and>
      (\<forall>n\<in>set (pre @ [n]). nb_subject n = a \<longrightarrow> nb_edge m \<noteq> nb_edge n)))"
    unfolding xs using I by (auto simp: retain_at_in)
qed simp

text \<open>The graph after hiding the subjects \<open>D\<close>.\<close>

definition pruned :: "(hash \<Rightarrow> neighbor \<Rightarrow> bool) \<Rightarrow> hash set \<Rightarrow> support_graph \<Rightarrow> bool" where
  "pruned R D g \<longleftrightarrow> (\<forall>a n. n |\<in>| neighbors_at (gr_neighbors g) a \<longleftrightarrow> R a n \<and> a \<notin> D \<and> nb_subject n \<notin> D)"

lemma neighbors_at_drop: "neighbors_at (fmdrop s m) a = (if a = s then {||} else neighbors_at m a)"
  by (simp add: neighbors_at_def)

lemma hide_subject_Some:
  assumes R: "undirected R" and known: "edges_known p R" and pr: "pruned R D g" and s: "s \<notin> D" "fmlookup hid s = Some reason"
  shows "\<exists>g'. hide_subject p hid s g = Some g' \<and> pruned R (insert s D) g' \<and> gr_subjects g' = fmupd s reason (gr_subjects g)"
proof -
  let ?g = "g\<lparr>gr_subjects := fmupd s reason (gr_subjects g), gr_neighbors := fmdrop s (gr_neighbors g)\<rparr>"
  have in_nb: "n \<in> set (neighbors g s) \<longleftrightarrow> R s n \<and> nb_subject n \<notin> D" for n
    using pr s(1) unfolding pruned_def set_neighbors by blast
  then have nb: "R s n" if "n \<in> set (neighbors g s)" for n using that by blast
  obtain g' where g': "for_each (hide_edge p reason) (neighbors g s) ?g = Some g'"
    "gr_subjects g' = fmupd s reason (gr_subjects g)"
    "\<And>a m. m |\<in>| neighbors_at (gr_neighbors g') a \<longleftrightarrow> m |\<in>| neighbors_at (fmdrop s (gr_neighbors g)) a \<and>
      (\<forall>n\<in>set (neighbors g s). nb_subject n = a \<longrightarrow> nb_edge m \<noteq> nb_edge n)"
    using hide_edges_Some [OF known nb, of "neighbors g s" reason ?g] by auto
  have "m |\<in>| neighbors_at (gr_neighbors g') a \<longleftrightarrow> R a m \<and> a \<notin> insert s D \<and> nb_subject m \<notin> insert s D" for a m
  proof (cases "a = s \<or> \<not> R a m \<or> a \<in> D \<or> nb_subject m \<in> D")
    case True
    then show ?thesis using g'(3) [of m a] pr by (auto simp: neighbors_at_drop pruned_def)
  next
    case False
    have "(\<exists>n\<in>set (neighbors g s). nb_subject n = a \<and> nb_edge m = nb_edge n) \<longleftrightarrow> nb_subject m = s"
    proof
      assume "\<exists>n\<in>set (neighbors g s). nb_subject n = a \<and> nb_edge m = nb_edge n"
      then obtain n where "R s n" "nb_subject n = a" "nb_edge m = nb_edge n" using nb by blast
      with undirectedD(2) [OF R, of a m s n] False show "nb_subject m = s" by (auto simp: doubleton_eq_iff)
    next
      assume "nb_subject m = s"
      with undirectedD(1) [OF R, of a m] False have "Neighbor a (nb_edge m) (nb_relation m) \<in> set (neighbors g s)"
        unfolding in_nb by simp
      then show "\<exists>n\<in>set (neighbors g s). nb_subject n = a \<and> nb_edge m = nb_edge n"
        by (rule bexI [rotated]) simp
    qed
    with False show ?thesis using g'(3) [of m a] pr by (auto simp: neighbors_at_drop pruned_def)
  qed
  with g'(1,2) s(2) show ?thesis by (simp add: hide_subject_def pruned_def)
qed

lemma hide_subjects_Some:
  assumes "undirected R" "edges_known p R" "pruned R {} g"
  shows "\<exists>g'. for_each (hide_subject p hid) (keys hid) g = Some g' \<and> pruned R (fmdom' hid) g' \<and> gr_subjects g' = gr_subjects g ++\<^sub>f hid"
proof -
  have "\<exists>g'. for_each (hide_subject p hid) (keys hid) g = Some g' \<and> (pruned R (set (keys hid)) g' \<and>
    (\<forall>x. fmlookup (gr_subjects g') x = (if x \<in> set (keys hid) then fmlookup hid x else fmlookup (gr_subjects g) x)))"
  proof (rule for_each_rule)
    fix pre s post g' assume split: "keys hid = pre @ s # post" and I: "pruned R (set pre) g' \<and>
      (\<forall>x. fmlookup (gr_subjects g') x = (if x \<in> set pre then fmlookup hid x else fmlookup (gr_subjects g) x))"
    have "s \<in> set (keys hid)" by (simp add: split)
    then obtain reason where reason: "fmlookup hid s = Some reason" by (auto elim: in_domE)
    have "s \<notin> set pre" using distinct_keys [of hid] by (simp add: split)
    with hide_subject_Some [OF assms(1,2) _ _ reason, of "set pre" g'] I obtain g'' where
      "hide_subject p hid s g' = Some g''" "pruned R (insert s (set pre)) g''" "gr_subjects g'' = fmupd s reason (gr_subjects g')"
      by blast
    with I reason show "\<exists>g''. hide_subject p hid s g' = Some g'' \<and> (pruned R (set (pre @ [s])) g'' \<and>
      (\<forall>x. fmlookup (gr_subjects g'') x = (if x \<in> set (pre @ [s]) then fmlookup hid x else fmlookup (gr_subjects g) x)))"
      by auto
  qed (use assms(3) in simp)
  then obtain g' where g': "for_each (hide_subject p hid) (keys hid) g = Some g'" "pruned R (fmdom' hid) g'"
    "\<And>x. fmlookup (gr_subjects g') x = (if x \<in> fmdom' hid then fmlookup hid x else fmlookup (gr_subjects g) x)" by auto
  have "gr_subjects g' = gr_subjects g ++\<^sub>f hid"
    by (rule fmap_ext) (auto simp: g'(3) fmdom'_alt_def)
  with g' show ?thesis by blast
qed

section \<open>Visibility\<close>

text \<open>An \<open>as_of\<close> of \<open>None\<close> is the open end of time.\<close>

definition as_of_le :: "hash option \<Rightarrow> hash option \<Rightarrow> bool" where
  "as_of_le q q' \<longleftrightarrow> (case (q, q') of (_, None) \<Rightarrow> True | (None, Some _) \<Rightarrow> False | (Some a, Some b) \<Rightarrow> a \<le> b)"

lemma as_of_state_visible:
  "as_of_state q t = ''visible'' \<longleftrightarrow> q = None \<or> (\<exists>c at. q = Some c \<and> t = Some at \<and> at_coordinate at \<le> c)"
  by (auto simp: as_of_state_def split: option.splits)

lemma as_of_state_mono: "as_of_le q q' \<Longrightarrow> as_of_state q t = ''visible'' \<Longrightarrow> as_of_state q' t = ''visible''"
  unfolding as_of_state_visible by (auto simp: as_of_le_def split: option.splits)

text \<open>
  A subject is unreadable for a reason that \<open>as_of\<close> has no part in, or has a current revision.
\<close>

lemma visibility_cases:
  assumes "distinct_ids H (fmdom' cands)" "project H kok cands = Some (sn_projection sn)"
  obtains why where "why \<noteq> ''visible''" "why \<noteq> ''resolved''" "\<And>q. visibility sn x q = Some (why, None)"
    "\<And>s. s \<in> set (pj_subjects (sn_projection sn)) \<Longrightarrow> sr_subject s = x \<Longrightarrow> sr_state s \<noteq> ''resolved''"
  | rv where "\<And>q. visibility sn x q = Some (as_of_state q (rv \<bind> rv_asserted_time), rv)"
proof -
  let ?p = "sn_projection sn"
  obtain an V o1 s where an: "analyze H kok cands = Some an" and c: "classified H kok cands (an_admission an) V o1 s"
    and sub: "pj_subjects ?p = map (subject_view V (an_authority an)) (filter (is_genesis V) (keys V))"
    and rows: "map (\<lambda>r. (er_event r, er_envelope r)) (pj_rows ?p) = map (\<lambda>eid. (eid, envelope_of (the (fmlookup cands eid)))) (keys cands)"
    using assms by (rule projected)
  show thesis
  proof (cases "find (\<lambda>s. sr_subject s = x) (pj_subjects ?p)")
    case None
    then have "sr_subject s \<noteq> x" if "s \<in> set (pj_subjects ?p)" for s using that by (auto simp: find_None_iff)
    with None show thesis by (intro that(1) [of "''subject_unknown''"]) (auto simp: visibility_def)
  next
    case (Some r)
    then have r: "r \<in> set (pj_subjects ?p)" "sr_subject r = x" by (auto simp: find_Some_iff)
    then have view: "r = subject_view V (an_authority an) x" unfolding sub by (auto simp: subject_view_def)
    have one: "s = r" if "s \<in> set (pj_subjects ?p)" "sr_subject s = x" for s
      using that view unfolding sub by (auto simp: subject_view_def)
    show thesis
    proof (cases "sr_state r = ''resolved''")
      case False
      have "sr_state r \<noteq> ''visible''" by (simp add: view subject_view_def frontier_state_def)
      then show thesis using Some False one by (intro that(1) [of "sr_state r"]) (auto simp: visibility_def)
    next
      case True
      then obtain h where h: "sr_frontier r = {h}" by (auto simp: view subject_view_def frontier_state_iff)
      then have "h \<in> frontier_of V (an_authority an) x" by (simp add: view subject_view_def)
      then have "h \<in> fmdom' V" using events_of_dom unfolding frontier_of_def by blast
      then have "h \<in> fmdom' cands" using classified_lookup(1) [OF c] by (auto simp: fmlookup_dom'_iff)
      moreover have "map er_event (pj_rows ?p) = keys cands"
        using arg_cong [OF rows, of "map fst"] by (simp add: comp_def)
      ultimately have "h \<in> er_event ` set (pj_rows ?p)" by (metis set_keys set_map)
      then obtain row where "find (\<lambda>r. er_event r = h) (pj_rows ?p) = Some row"
        by (cases "find (\<lambda>r. er_event r = h) (pj_rows ?p)") (auto simp: find_None_iff)
      then show thesis
        using Some True h
        by (intro that(2) [of "find (\<lambda>r. Some (rv_id r) = er_revision row) (pj_revisions ?p)"]) (simp add: visibility_def Let_def)
    qed
  qed
qed

section \<open>The governed graph\<close>

lemma hidden_Some:
  assumes "\<And>x. \<exists>v r. visibility sn x q = Some (v, r)"
  shows "\<exists>hid. hidden sn q g = Some hid \<and> (\<forall>x. fmlookup hid x =
    (if fmlookup (gr_subjects g) x = Some ''resolved'' \<and> fst (the (visibility sn x q)) \<noteq> ''visible''
     then Some (fst (the (visibility sn x q))) else None))"
proof -
  let ?v = "\<lambda>x. fst (the (visibility sn x q))"
  have "\<exists>hid. for_each (hidden_step sn q g) (keys (gr_subjects g)) fmempty = Some hid \<and> (\<forall>x. fmlookup hid x =
    (if x \<in> set (keys (gr_subjects g)) \<and> fmlookup (gr_subjects g) x = Some ''resolved'' \<and> ?v x \<noteq> ''visible'' then Some (?v x) else None))"
  proof (rule for_each_rule)
    fix pre x post m
    assume I: "\<forall>y. fmlookup m y = (if y \<in> set pre \<and> fmlookup (gr_subjects g) y = Some ''resolved'' \<and> ?v y \<noteq> ''visible''
      then Some (?v y) else None)"
    obtain v r where "visibility sn x q = Some (v, r)" using assms by blast
    with I show "\<exists>m'. hidden_step sn q g x m = Some m' \<and> (\<forall>y. fmlookup m' y =
      (if y \<in> set (pre @ [x]) \<and> fmlookup (gr_subjects g) y = Some ''resolved'' \<and> ?v y \<noteq> ''visible'' then Some (?v y) else None))"
      by (auto simp: hidden_step_def)
  qed simp
  then show ?thesis unfolding hidden_def set_keys by (auto intro: fmdom'I)
qed

text \<open>The subjects that a read at \<open>q\<close> withholds.\<close>

definition withheld :: "snapshot \<Rightarrow> hash option \<Rightarrow> support_graph \<Rightarrow> hash set" where
  "withheld sn q g = {x. fmlookup (gr_subjects g) x = Some ''resolved'' \<and> fst (the (visibility sn x q)) \<noteq> ''visible''}"

lemma graph_ok_edges_known:
  assumes "graph_ok cands curators (pj_edges p) g" "\<forall>e\<in>set (pj_edges p). ed_pins e \<noteq> []"
  shows "edges_known p (linked cands curators (set (pj_edges p)))"
proof -
  have "\<exists>e. find (\<lambda>e. ed_edge e = nb_edge n) (pj_edges p) = Some e \<and> ed_pins e \<noteq> []"
    if "linked cands curators (set (pj_edges p)) a n" for a n
  proof -
    from that obtain e where "e \<in> set (pj_edges p)" "ed_edge e = nb_edge n" unfolding linked_def by (metis neighbor.sel(2))
    then have "find (\<lambda>e. ed_edge e = nb_edge n) (pj_edges p) \<noteq> None" by (auto simp: find_None_iff)
    with assms(2) show ?thesis by (auto simp: find_Some_iff)
  qed
  then show ?thesis by (simp add: edges_known_def)
qed

lemma governed_support_cases:
  assumes "distinct_ids H (fmdom' cands)" "project H kok cands = Some (sn_projection sn)"
  obtains g g' where "support_graph_of (sn_projection sn) (set (fi_curators (sn_filter sn))) = Some g"
    "graph_ok cands (set (fi_curators (sn_filter sn))) (pj_edges (sn_projection sn)) g"
    "governed_support sn q = Some g'"
    "\<And>a n. n \<in> set (neighbors g' a) \<longleftrightarrow> n \<in> set (neighbors g a) \<and> a \<notin> withheld sn q g \<and> nb_subject n \<notin> withheld sn q g"
    "\<And>x. fmlookup (gr_subjects g') x = (if x \<in> withheld sn q g then Some (fst (the (visibility sn x q))) else fmlookup (gr_subjects g) x)"
proof -
  let ?p = "sn_projection sn" and ?c = "set (fi_curators (sn_filter sn))"
  obtain g where g: "support_graph_of ?p ?c = Some g" "graph_ok cands ?c (pj_edges ?p) g" using assms by (rule graphed)
  obtain an V o1 s where an: "analyze H kok cands = Some an"
    and e: "\<forall>e\<in>set (pj_edges ?p). edge_view H cands (an_admission an) V (an_authority an) e" using assms by (rule projected)
  obtain p an' where p: "project H kok cands = Some p" "analyze H kok cands = Some an'"
    "map ed_edge (pj_edges p) = filter (valid_edge cands (an_admission an')) (keys cands)" using assms(1) by (rule project_cases)
  let ?R = "linked cands ?c (set (pj_edges ?p))"
  have "distinct (map ed_edge (pj_edges ?p))" using p assms(2) by simp
  then have R: "undirected ?R" by (rule linked_undirected)
  have "\<forall>e\<in>set (pj_edges ?p). ed_pins e \<noteq> []" using e unfolding edge_view_def by blast
  from graph_ok_edges_known [OF g(2) this] have known: "edges_known ?p ?R" .
  have total: "\<exists>v r. visibility sn x q = Some (v, r)" for x
    by (rule visibility_cases [OF assms, of x]) blast+
  from hidden_Some [of sn q, OF total] obtain hid where hid: "hidden sn q g = Some hid"
    "\<And>x. fmlookup hid x = (if x \<in> withheld sn q g then Some (fst (the (visibility sn x q))) else None)"
    unfolding withheld_def by auto
  have dom: "fmdom' hid = withheld sn q g" by (auto simp: fmlookup_dom'_iff hid(2) split: if_splits)
  have nb: "n \<in> set (neighbors g a) \<longleftrightarrow> ?R a n" for a n using g(2) unfolding graph_ok_def set_neighbors by blast
  then have "pruned ?R {} g" unfolding pruned_def set_neighbors by blast
  from hide_subjects_Some [OF R known this, of hid] obtain g1 where
    g1: "for_each (hide_subject ?p hid) (keys hid) g = Some g1" "pruned ?R (withheld sn q g) g1"
    "gr_subjects g1 = gr_subjects g ++\<^sub>f hid" unfolding dom by blast
  define g' where "g' = g1\<lparr>gr_neighbors := fmfilter (\<lambda>s. neighbors_at (gr_neighbors g1) s \<noteq> {||}) (gr_neighbors g1),
       gr_excluded := remdups_adj (sort_key (\<lambda>x. (ex_edge x, ex_event x)) (gr_excluded g1))\<rparr>"
  have keep: "neighbors_at (gr_neighbors g') a = neighbors_at (gr_neighbors g1) a" for a
    by (auto simp: g'_def neighbors_at_def split: option.splits)
  show thesis
  proof (rule that [OF g])
    show "governed_support sn q = Some g'" by (simp add: governed_support_def g(1) hid(1) g1(1) g'_def)
    show "n \<in> set (neighbors g' a) \<longleftrightarrow> n \<in> set (neighbors g a) \<and> a \<notin> withheld sn q g \<and> nb_subject n \<notin> withheld sn q g" for a n
      using g1(2) nb unfolding pruned_def set_neighbors keep by simp
    show "fmlookup (gr_subjects g') x = (if x \<in> withheld sn q g then Some (fst (the (visibility sn x q))) else fmlookup (gr_subjects g) x)" for x
      using hid(2) [of x] by (auto simp: g'_def g1(3) fmlookup_dom_iff)
  qed
qed

lemma governed_support_spec:
  assumes "distinct_ids H (fmdom' cands)" "project H kok cands = Some (sn_projection sn)"
  shows "\<exists>g g'. support_graph_of (sn_projection sn) (set (fi_curators (sn_filter sn))) = Some g \<and> governed_support sn q = Some g' \<and>
    (\<forall>a n. n \<in> set (neighbors g' a) \<longleftrightarrow>
      n \<in> set (neighbors g a) \<and> a \<notin> withheld sn q g \<and> nb_subject n \<notin> withheld sn q g) \<and>
    (\<forall>x. fmlookup (gr_subjects g') x =
      (if x \<in> withheld sn q g then Some (fst (the (visibility sn x q))) else fmlookup (gr_subjects g) x))"
  using assms by (rule governed_support_cases [of H cands kok sn q]) blast

lemma as_of_state_not_resolved [simp]: "as_of_state q t \<noteq> ''resolved''"
  by (simp add: as_of_state_def split: option.splits)

lemma withheld_reason:
  assumes "distinct_ids H (fmdom' cands)" "project H kok cands = Some (sn_projection sn)"
  shows "fst (the (visibility sn x q)) \<noteq> ''resolved''"
  using assms by (rule visibility_cases [of H cands kok sn x]) simp_all

lemma withheld_mono:
  assumes "distinct_ids H (fmdom' cands)" "project H kok cands = Some (sn_projection sn)" "as_of_le q q'"
  shows "withheld sn q' g \<subseteq> withheld sn q g"
proof -
  have "fst (the (visibility sn x q)) = ''visible'' \<Longrightarrow> fst (the (visibility sn x q')) = ''visible''" for x
    using assms(1,2) by (rule visibility_cases [of H cands kok sn x]) (auto intro: as_of_state_mono [OF assms(3)])
  then show ?thesis unfolding withheld_def by blast
qed

lemma chain_mono:
  assumes "chain g a es b" "\<And>a n. n \<in> set (neighbors g a) \<Longrightarrow> n \<in> set (neighbors g' a)"
  shows "chain g' a es b"
  using assms(1) by induction (auto intro: chain.intros assms(2))

end
