(* ===== verification/Snapshot_Properties.thy ===== *)
theory Snapshot_Properties
  imports As_Of
begin

text \<open>The properties of committed snapshots, of reads at a point of asserted time and of verdicts.\<close>

section \<open>Snapshots\<close>

lemma snapshot_of_Some:
  "snapshot_of H kok json f cands = Some sn \<longleftrightarrow> (\<exists>p. project H kok cands = Some p \<and>
     sn = \<lparr>sn_rule = rule_of H f, sn_corpus_digest = corpus_digest H (fmdom' cands),
       sn_commitment = view_commitment H (fi_fold f) (filter_version H f) (corpus_digest H (fmdom' cands)) (canonical_rows json p),
       sn_projection = p, sn_filter = f\<rparr>)"
  by (auto simp: snapshot_of_def Let_def split: bind_splits)

lemma entries_inject: "entries a = entries b \<Longrightarrow> a = b"
proof (rule fmap_ext)
  fix k assume eq: "entries a = entries b"
  have in_entries: "fmlookup m k = Some v \<longleftrightarrow> (k, v) \<in> set (entries m)" for m v
    by (auto simp: entries_def image_iff fmlookup_dom'_iff)
  show "fmlookup a k = fmlookup b k" using in_entries [of a] in_entries [of b] eq by (metis option.exhaust)
qed

lemma view_rows_of_inject: "view_rows_of p = view_rows_of p' \<Longrightarrow> p = p'"
  by (cases p; cases p'; cases "pj_authority p"; cases "pj_authority p'")
    (auto simp: view_rows_of_def dest!: entries_inject)

text \<open>
  C9: a commitment binds everything a snapshot shows. When SHA-256 does not collide on the bytes hashed
  for the two snapshots and the serialization tells their rows apart, snapshots with equal commitments have
  the same fold, the same filter, the same candidate ids and the same projection.
\<close>

theorem commitment_binds_snapshot:
  assumes "snapshot_of H kok json f cands = Some s" "snapshot_of H kok json f' cands' = Some s'"
    and "inj_on json {view_rows_of (sn_projection s), view_rows_of (sn_projection s')}" "fits f" "fits f'"
    and no_collision: "inj_on H {canonical f, canonical f', corpus_bytes (fmdom' cands), corpus_bytes (fmdom' cands'),
      view_bytes (fi_fold f) (filter_version H f) (corpus_digest H (fmdom' cands)) (canonical_rows json (sn_projection s)),
      view_bytes (fi_fold f') (filter_version H f') (corpus_digest H (fmdom' cands')) (canonical_rows json (sn_projection s'))}"
  shows "sn_commitment s = sn_commitment s' \<longleftrightarrow> s = s' \<and> f = f' \<and> fmdom' cands = fmdom' cands'"
proof
  obtain p p' where s: "s = \<lparr>sn_rule = rule_of H f, sn_corpus_digest = corpus_digest H (fmdom' cands),
       sn_commitment = view_commitment H (fi_fold f) (filter_version H f) (corpus_digest H (fmdom' cands)) (canonical_rows json p),
       sn_projection = p, sn_filter = f\<rparr>"
    and s': "s' = \<lparr>sn_rule = rule_of H f', sn_corpus_digest = corpus_digest H (fmdom' cands'),
       sn_commitment = view_commitment H (fi_fold f') (filter_version H f') (corpus_digest H (fmdom' cands')) (canonical_rows json p'),
       sn_projection = p', sn_filter = f'\<rparr>"
    using assms(1,2) unfolding snapshot_of_Some by blast
  define B where "B = {canonical f, canonical f', corpus_bytes (fmdom' cands), corpus_bytes (fmdom' cands'),
      view_bytes (fi_fold f) (filter_version H f) (corpus_digest H (fmdom' cands)) (canonical_rows json (sn_projection s)),
      view_bytes (fi_fold f') (filter_version H f') (corpus_digest H (fmdom' cands')) (canonical_rows json (sn_projection s'))}"
  have inj: "inj_on H B" using no_collision by (simp only: B_def)
  have same: "x = y" if "H x = H y" "x \<in> B" "y \<in> B" for x y using inj that by (rule inj_onD)
  assume "sn_commitment s = sn_commitment s'"
  then have "view_bytes (fi_fold f) (filter_version H f) (corpus_digest H (fmdom' cands)) (canonical_rows json p) =
      view_bytes (fi_fold f') (filter_version H f') (corpus_digest H (fmdom' cands')) (canonical_rows json p')"
    by (intro same) (simp_all add: B_def s s' view_commitment_def)
  then have "filter_version H f = filter_version H f'" "corpus_digest H (fmdom' cands) = corpus_digest H (fmdom' cands')"
    and p: "canonical_rows json p = canonical_rows json p'" using view_bytes_inject by blast+
  then have "canonical f = canonical f'" "corpus_bytes (fmdom' cands) = corpus_bytes (fmdom' cands')"
    by (intro same; simp add: B_def filter_version_def corpus_digest_def)+
  then have "f = f'" "fmdom' cands = fmdom' cands'" using canonical_inject assms(4,5) corpus_bytes_inject by blast+
  moreover have "view_rows_of p = view_rows_of p'"
    by (rule inj_onD [OF assms(3)]) (use p in \<open>simp_all add: s s' canonical_rows_def\<close>)
  then have "p = p'" by (rule view_rows_of_inject)
  ultimately show "s = s' \<and> f = f' \<and> fmdom' cands = fmdom' cands'" by (simp add: s s')
qed simp

lemma snapshot_projection:
  "snapshot_of H kok json f cands = Some sn \<Longrightarrow> project H kok cands = Some (sn_projection sn) \<and> sn_filter sn = f"
  by (auto simp: snapshot_of_Some)

section \<open>Reads at a point of asserted time\<close>

text \<open>
  C36: \<open>as_of\<close> hides and never rewrites. Every entity read returns; at every \<open>as_of\<close> it shows the state and
  the frontier of the unrestricted read, and the same current revision if that revision's asserted
  coordinate is known and not after \<open>as_of\<close>, and otherwise none.
\<close>

theorem entity_as_of:
  assumes "distinct_ids H (fmdom' cands)" "snapshot_of H kok json f cands = Some sn"
  shows "\<exists>r0 r. entity sn x None = Some r0 \<and> entity sn x q = Some r \<and> en_state r = en_state r0 \<and>
    en_frontier r = en_frontier r0 \<and> en_revision r = (case (q, en_revision r0) of
      (None, rv) \<Rightarrow> rv | (_, None) \<Rightarrow> None | (Some c, Some rv) \<Rightarrow> (case rv_asserted_time rv of
        None \<Rightarrow> None | Some t \<Rightarrow> if at_coordinate t \<le> c then Some rv else None))"
proof -
  have p: "project H kok cands = Some (sn_projection sn)" using snapshot_projection [OF assms(2)] by simp
  show ?thesis
    using assms(1) p
  proof (rule visibility_cases [of H cands kok sn x])
    fix why assume "why \<noteq> ''visible''" "\<And>q. visibility sn x q = Some (why, None)"
    then show ?thesis by (cases q) (simp_all add: entity_def Let_def)
  next
    fix rv assume rv: "\<And>q. visibility sn x q = Some (as_of_state q (rv \<bind> rv_asserted_time), rv)"
    then show ?thesis
      by (cases rv; cases q; cases "rv \<bind> rv_asserted_time")
        (simp_all add: entity_def Let_def as_of_state_def not_le)
  qed
qed

text \<open>
  The graph that answers a verdict at \<open>as_of\<close> is the full support graph without the withheld
  subjects: it always exists, an edge remains exactly when neither of its ends is withheld, a
  withheld subject carries the reason as its state and every other subject keeps its own.
\<close>

theorem governed_support_prunes:
  assumes "distinct_ids H (fmdom' cands)" "snapshot_of H kok json f cands = Some sn"
  shows "\<exists>g g'. support_graph_of (sn_projection sn) (set (fi_curators f)) = Some g \<and> governed_support sn q = Some g' \<and>
    (\<forall>a n. n \<in> set (neighbors g' a) \<longleftrightarrow>
      n \<in> set (neighbors g a) \<and> a \<notin> withheld sn q g \<and> nb_subject n \<notin> withheld sn q g) \<and>
    (\<forall>x. fmlookup (gr_subjects g') x =
      (if x \<in> withheld sn q g then Some (fst (the (visibility sn x q))) else fmlookup (gr_subjects g) x))"
proof -
  have p: "project H kok cands = Some (sn_projection sn)" "sn_filter sn = f" using snapshot_projection [OF assms(2)] by simp_all
  from governed_support_spec [OF assms(1) p(1), of q] show ?thesis by (simp only: p(2))
qed

lemma subject_reason_Nil: "subject_reason g x = [] \<longleftrightarrow> fmlookup (gr_subjects g) x = Some ''resolved''"
  by (auto simp: subject_reason_def Let_def split: option.splits)

lemma query_Supported:
  "query g from to hops = Some (Supported path ex) \<Longrightarrow> subject_reason g from = [] \<and> subject_reason g to = [] \<and> from \<noteq> to"
  by (auto simp: query_def Let_def split: if_splits)

text \<open>
  Support only grows with \<open>as_of\<close>. A verdict that is supported at one point of asserted time is
  supported at every later one, and without \<open>as_of\<close>, over a path that is not longer.
\<close>

theorem verdict_monotone:
  assumes "distinct_ids H (fmdom' cands)" "snapshot_of H kok json f cands = Some sn" "as_of_le q q'"
    "verdict_of sn from to q = Some v" "vd_support v = Supported path ex"
  shows "\<exists>v' path' ex'. verdict_of sn from to q' = Some v' \<and> vd_support v' = Supported path' ex' \<and> length path' \<le> length path"
proof -
  have p: "project H kok cands = Some (sn_projection sn)" using snapshot_projection [OF assms(2)] by simp
  let ?hops = "unat (fi_max_hops (sn_filter sn))"
  obtain g g1 where g: "support_graph_of (sn_projection sn) (set (fi_curators (sn_filter sn))) = Some g" "governed_support sn q = Some g1"
    "\<And>a n. n \<in> set (neighbors g1 a) \<longleftrightarrow> n \<in> set (neighbors g a) \<and> a \<notin> withheld sn q g \<and> nb_subject n \<notin> withheld sn q g"
    "\<And>x. fmlookup (gr_subjects g1) x = (if x \<in> withheld sn q g then Some (fst (the (visibility sn x q))) else fmlookup (gr_subjects g) x)"
    using governed_support_spec [OF assms(1) p, of q] by blast
  obtain g0 g2 where g2: "support_graph_of (sn_projection sn) (set (fi_curators (sn_filter sn))) = Some g0" "governed_support sn q' = Some g2"
    "\<And>a n. n \<in> set (neighbors g2 a) \<longleftrightarrow> n \<in> set (neighbors g0 a) \<and> a \<notin> withheld sn q' g0 \<and> nb_subject n \<notin> withheld sn q' g0"
    "\<And>x. fmlookup (gr_subjects g2) x = (if x \<in> withheld sn q' g0 then Some (fst (the (visibility sn x q'))) else fmlookup (gr_subjects g0) x)"
    using governed_support_spec [OF assms(1) p, of q'] by blast
  have g0: "g0 = g" using g(1) g2(1) by simp
  note sub = withheld_mono [OF assms(1) p assms(3), of g]
  have nb: "n \<in> set (neighbors g1 a) \<Longrightarrow> n \<in> set (neighbors g2 a)" for a n using g(3) g2(3) sub unfolding g0 by blast
  have res: "subject_reason g1 x = [] \<Longrightarrow> subject_reason g2 x = []" for x
    using g(4) [of x] g2(4) [of x] sub withheld_reason [OF assms(1) p, of x q] unfolding g0 subject_reason_Nil
    by (auto split: if_splits)
  have q1: "query g1 from to ?hops = Some (Supported path ex)"
    using assms(4,5) g(2) by (auto simp: verdict_of_def split: bind_splits)
  have no1: "subject_reason g1 from = []" "subject_reason g1 to = []" "from \<noteq> to" using query_Supported [OF q1] by simp_all
  have path: "chain g1 from path to" "length path \<le> ?hops" using query_spec [OF no1, of ?hops] q1 by auto
  have chain2: "chain g2 from path to" using path(1) nb by (rule chain_mono)
  then have w: "within g2 from (length path) to" "within g2 from ?hops to" using path(2) unfolding within_def by blast+
  obtain r where r: "query g2 from to ?hops = Some r" "case r of
      Supported path excluded \<Rightarrow> chain g2 from path to \<and> length path \<le> ?hops \<and> (\<forall>k < length path. \<not> within g2 from k to) \<and>
        excluded = excluded_reasons g2 from to
    | Unsupported reasons \<Rightarrow> \<not> within g2 from ?hops to"
    using query_spec [OF res [OF no1(1)] res [OF no1(2)] no1(3), of ?hops] by blast
  then obtain path' ex' where p': "r = Supported path' ex'" "\<forall>k < length path'. \<not> within g2 from k to"
    using w(2) by (cases r) auto
  then have "length path' \<le> length path" using w(1) by (meson not_le)
  with r(1) p'(1) g2(2) show ?thesis by (auto simp: verdict_of_def)
qed

section \<open>A dated sample ledger\<close>

definition dated :: "hash \<Rightarrow> signed \<Rightarrow> signed" where
  "dated t ev = ev\<lparr>sg_envelope := (sg_envelope ev)\<lparr>env_asserted_time := Some \<lparr>at_coordinate = t, at_precision = ''year''\<rparr>\<rparr>\<rparr>"

definition dated_pins :: pins where
  "dated_pins = \<lparr>pins_source = \<lparr>pin_subject = 1, pin_basis = 1, pin_revision = 1001, pin_body = 51\<rparr>,
     pins_target = \<lparr>pin_subject = 3, pin_basis = 3, pin_revision = 1003, pin_body = 53\<rparr>\<rparr>"

text \<open>Subject 1 asserted at 100, subject 3 asserted at 200, and an edge 4 between them.\<close>

definition dated_corpus :: corpus where
  "dated_corpus = fmap_of_list
     [(1, dated 100 (sample_event None None [] (Genesis 0 51 []))),
      (3, dated 200 (sample_event None None [] (Genesis 0 53 []))),
      (4, sample_event None None [] (EdgeAssert ''influence'' dated_pins
         (sample_decision K_EdgeAssert [] V_None (V_Pins dated_pins))))]"

lemmas [run] = dated_def dated_pins_def dated_corpus_def

lemmas [run] = as_of_state_def visibility_def entity_def hidden_step_def hidden_def retain_at_def hide_edge_def
  hide_subject_def governed_support_def verdict_of_def

lemma dated_distinct: "distinct_ids sample_H (fmdom' dated_corpus)"
  by (simp add: distinct_ids_def run)

definition dated_snapshot :: snapshot where
  "dated_snapshot = the (snapshot_of sample_H (\<lambda>_. True) (\<lambda>_. []) (sample_filter sample_H 1) dated_corpus)"

lemma dated_snapshot_of:
  "snapshot_of sample_H (\<lambda>_. True) (\<lambda>_. []) (sample_filter sample_H 1) dated_corpus = Some dated_snapshot"
proof -
  obtain p where "project sample_H (\<lambda>_. True) dated_corpus = Some p" using dated_distinct by (rule project_cases)
  then show ?thesis by (simp add: dated_snapshot_def snapshot_of_def Let_def)
qed

lemma dated_verdict: "\<exists>v. verdict_of dated_snapshot 1 3 (Some 250) = Some v \<and> vd_support v = Supported [4] []"
  by (simp add: dated_snapshot_def snapshot_of_def sample_filter_def run)

lemma dated_revision: "\<exists>r rv. entity dated_snapshot 3 None = Some r \<and> en_revision r = Some rv \<and>
    rv_asserted_time rv = Some \<lparr>at_coordinate = 200, at_precision = ''year''\<rparr> \<and> en_frontier r = {3}"
  by (simp add: dated_snapshot_def snapshot_of_def sample_filter_def run)

text \<open>Subject 3 is asserted at 200: a read at 150 keeps its frontier and shows no revision.\<close>

theorem entity_as_of_witness:
  "\<exists>r. entity dated_snapshot 3 (Some 150) = Some r \<and> en_frontier r = {3} \<and> en_revision r = None"
proof -
  obtain r0 rv where "entity dated_snapshot 3 None = Some r0" "en_revision r0 = Some rv"
    "rv_asserted_time rv = Some \<lparr>at_coordinate = 200, at_precision = ''year''\<rparr>" "en_frontier r0 = {3}"
    using dated_revision by blast
  with entity_as_of [OF dated_distinct dated_snapshot_of, of 3 "Some 150"] show ?thesis by auto
qed

theorem governed_support_prunes_witness:
  "\<exists>g g'. support_graph_of (sn_projection dated_snapshot) {7} = Some g \<and> governed_support dated_snapshot (Some 150) = Some g' \<and>
    (\<forall>a n. n \<in> set (neighbors g' a) \<longleftrightarrow> n \<in> set (neighbors g a) \<and> a \<notin> withheld dated_snapshot (Some 150) g \<and>
      nb_subject n \<notin> withheld dated_snapshot (Some 150) g)"
  using governed_support_prunes [OF dated_distinct dated_snapshot_of, of "Some 150"]
  by (fastforce simp: sample_filter_def)

theorem verdict_monotone_witness:
  "\<exists>v path ex. verdict_of dated_snapshot 1 3 (Some 300) = Some v \<and> vd_support v = Supported path ex \<and> length path \<le> 1"
proof -
  obtain v where v: "verdict_of dated_snapshot 1 3 (Some 250) = Some v" "vd_support v = Supported [4] []"
    using dated_verdict by blast
  have "as_of_le (Some 250) (Some 300)" by (simp add: as_of_le_def)
  from verdict_monotone [OF dated_distinct dated_snapshot_of this v] show ?thesis by simp
qed

section \<open>Two sample commitments\<close>

text \<open>
  A hash function that keeps the first 31 bytes and the last one, and a serialization that writes the
  number of rows: enough to tell the empty ledger from a ledger with one event.
\<close>

definition ends_H :: "byte list \<Rightarrow> hash" where
  "ends_H bs = from_be_bytes (take 31 (bs @ replicate 31 0) @ [last (0 # bs)])"

lemma ends_H_bytes: "to_be_bytes 32 (ends_H bs) = take 31 (bs @ replicate 31 0) @ [last (0 # bs)]"
  unfolding ends_H_def by (rule to_from_be_bytes_n) simp_all

lemma ends_H_nth:
  assumes "ends_H x = ends_H y" "i < 31" "i < length x" "i < length y"
  shows "x ! i = y ! i"
proof -
  have "take 31 (x @ replicate 31 0) = take 31 (y @ replicate 31 0)"
    using ends_H_bytes [of x] ends_H_bytes [of y] assms(1) by simp
  then have "take 31 (x @ replicate 31 0) ! i = take 31 (y @ replicate 31 0) ! i" by simp
  with assms(2-4) show ?thesis by (simp add: nth_append)
qed

lemma ends_H_last: "ends_H (x @ [a]) = ends_H (y @ [b]) \<Longrightarrow> a = b"
  using ends_H_bytes [of "x @ [a]"] ends_H_bytes [of "y @ [b]"] by simp

definition count_rows :: "view_rows \<Rightarrow> byte list" where
  "count_rows r = [word_of_nat (length (vr_rows r))]"

definition one_corpus :: corpus where
  "one_corpus = fmap_of_list [(1, sample_event None None [] (Genesis 0 51 []))]"

lemma be_list_numeral: "be_list (numeral k) x = word_of_nat (x div 256 ^ pred_numeral k mod 256) # be_list (pred_numeral k) x"
  by (simp only: numeral_eq_Suc [of k] be_list.simps)

lemma be4_small: "to_be_bytes 4 (12 :: u32) = [0, 0, 0, 12]" "to_be_bytes 4 (10 :: u32) = [0, 0, 0, 10]"
  "to_be_bytes 4 (16 :: u32) = [0, 0, 0, 16]" "to_be_bytes 4 (0 :: u32) = [0, 0, 0, 0]" "to_be_bytes 4 (1 :: u32) = [0, 0, 0, 1]"
  by (simp_all add: to_be_bytes_def be_list_numeral)

lemma frame_bytes:
  "canonical f ! 3 = 12" "canonical f ! 7 = byte_of (CHR ''f'')" "7 < length (canonical f)"
  "corpus_bytes I ! 3 = 12" "corpus_bytes I ! 7 = byte_of (CHR ''c'')" "19 < length (corpus_bytes I)"
  "view_bytes fr v c r ! 3 = 10" "7 < length (view_bytes fr v c r)"
  "corpus_bytes {} ! 19 = 0" "corpus_bytes {1} ! 19 = 1"
  by (simp_all add: canonical_def corpus_bytes_def view_bytes_def framed_def as_bytes_def be4_small)

lemma ends_H_domains:
  "ends_H (canonical f) \<noteq> ends_H (corpus_bytes I)" "ends_H (canonical f) \<noteq> ends_H (view_bytes fr v c r)"
  "ends_H (corpus_bytes I) \<noteq> ends_H (view_bytes fr v c r)" "ends_H (corpus_bytes {}) \<noteq> ends_H (corpus_bytes {1})"
proof -
  have "byte_of (CHR ''f'') \<noteq> byte_of (CHR ''c'')" by code_simp
  then show "ends_H (canonical f) \<noteq> ends_H (corpus_bytes I)"
    using ends_H_nth [of "canonical f" "corpus_bytes I" 7] frame_bytes(2,3) [of f] frame_bytes(5,6) [of I] by auto
  show "ends_H (canonical f) \<noteq> ends_H (view_bytes fr v c r)"
    using ends_H_nth [of "canonical f" "view_bytes fr v c r" 3] frame_bytes(1,3) [of f] frame_bytes(7,8) [of fr v c r] by auto
  show "ends_H (corpus_bytes I) \<noteq> ends_H (view_bytes fr v c r)"
    using ends_H_nth [of "corpus_bytes I" "view_bytes fr v c r" 3] frame_bytes(4,6) [of I] frame_bytes(7,8) [of fr v c r] by auto
  show "ends_H (corpus_bytes {}) \<noteq> ends_H (corpus_bytes {1})"
    using ends_H_nth [of "corpus_bytes {}" "corpus_bytes {1}" 19] frame_bytes(6,9,10) by auto
qed

lemma one_projection:
  obtains p where "project ends_H (\<lambda>_. True) one_corpus = Some p" "length (pj_rows p) = 1"
proof -
  have "root_grant ends_H 1 \<noteq> 1"
  proof
    assume "root_grant ends_H 1 = 1"
    then have "to_be_bytes 32 (1 :: hash) ! 3 = 16"
      using ends_H_bytes [of "framed ''cc.root-grant.v1'' @ hash_bytes 1"]
      by (simp add: root_grant_def domain_hash_def framed_def be4_small nth_append)
    moreover have "to_be_bytes 32 (1 :: hash) ! 3 = 0" by (simp add: to_be_bytes_def be_list_numeral)
    ultimately show False by simp
  qed
  then have "distinct_ids ends_H (fmdom' one_corpus)" by (simp add: distinct_ids_def one_corpus_def)
  then obtain p where p: "project ends_H (\<lambda>_. True) one_corpus = Some p"
    "map (\<lambda>r. (er_event r, er_envelope r)) (pj_rows p) = map (\<lambda>eid. (eid, envelope_of (the (fmlookup one_corpus eid)))) (keys one_corpus)"
    by (rule project_cases)
  from arg_cong [OF p(2), of length] have "length (pj_rows p) = 1" by (simp add: one_corpus_def run)
  with p(1) that show thesis by blast
qed

theorem commitment_binds_snapshot_witness:
  "\<exists>s s'. snapshot_of ends_H (\<lambda>_. True) count_rows (sample_filter ends_H 1) fmempty = Some s \<and>
    snapshot_of ends_H (\<lambda>_. True) count_rows (sample_filter ends_H 1) one_corpus = Some s' \<and> sn_commitment s \<noteq> sn_commitment s'"
proof -
  let ?f = "sample_filter ends_H 1"
  have "distinct_ids ends_H (fmdom' (fmempty :: corpus))" by (simp add: distinct_ids_def)
  then obtain p where p: "project ends_H (\<lambda>_. True) fmempty = Some p"
    "map (\<lambda>r. (er_event r, er_envelope r)) (pj_rows p) = map (\<lambda>eid. (eid, envelope_of (the (fmlookup (fmempty :: corpus) eid)))) (keys (fmempty :: corpus))"
    by (rule project_cases)
  then have rows: "pj_rows p = []" by (simp add: run)
  obtain p' where p': "project ends_H (\<lambda>_. True) one_corpus = Some p'" "length (pj_rows p') = 1" by (rule one_projection)
  obtain s s' where s: "snapshot_of ends_H (\<lambda>_. True) count_rows ?f fmempty = Some s" "sn_projection s = p"
    and s': "snapshot_of ends_H (\<lambda>_. True) count_rows ?f one_corpus = Some s'" "sn_projection s' = p'"
    using p(1) p'(1) unfolding snapshot_of_Some by force
  have dom: "fmdom' one_corpus = {1}" by (simp add: one_corpus_def)
  have json: "canonical_rows count_rows p = [0]" "canonical_rows count_rows p' = [1]"
    using rows p'(2) by (simp_all add: canonical_rows_def count_rows_def view_rows_of_def Let_def)
  have view: "ends_H (view_bytes a b c [0]) \<noteq> ends_H (view_bytes a b d [1])" for a b c d
  proof
    assume "ends_H (view_bytes a b c [0]) = ends_H (view_bytes a b d [1])"
    then have "(0 :: byte) = 1" unfolding view_bytes_def append_assoc [symmetric] by (rule ends_H_last)
    then show False by simp
  qed
  have "inj_on count_rows {view_rows_of p, view_rows_of p'}"
    using json by (auto simp: canonical_rows_def inj_on_def)
  moreover have "fits ?f" by (simp add: fits_def sample_filter_def TRUST_POLICY_def)
  moreover have "inj_on ends_H {canonical ?f, canonical ?f, corpus_bytes (fmdom' fmempty), corpus_bytes (fmdom' one_corpus),
      view_bytes (fi_fold ?f) (filter_version ends_H ?f) (corpus_digest ends_H (fmdom' fmempty)) (canonical_rows count_rows p),
      view_bytes (fi_fold ?f) (filter_version ends_H ?f) (corpus_digest ends_H (fmdom' one_corpus)) (canonical_rows count_rows p')}"
    unfolding dom json fmdom'_empty
    by (rule inj_onI) (auto simp: ends_H_domains view ends_H_domains [symmetric] view [symmetric])
  ultimately have "sn_commitment s = sn_commitment s' \<longleftrightarrow> s = s' \<and> ?f = ?f \<and> fmdom' (fmempty :: corpus) = fmdom' one_corpus"
    using commitment_binds_snapshot [OF s(1) s'(1)] unfolding s(2) s'(2) by blast
  with s(1) s'(1) dom show ?thesis by simp
qed

end
