(* ===== verification/Store_Invariant.thy ===== *)
theory Store_Invariant
  imports Store Snapshot_Properties
begin

text \<open>
  The invariant of a store, its preservation by every operation, and the append-only order of
  databases. What is retained was verified when it was admitted, so a reachable store never reads
  its own rows as corrupt.
\<close>

section \<open>The invariant\<close>

definition candidate_ok :: "'sk build \<Rightarrow> hash \<Rightarrow> hash \<Rightarrow> byte list \<Rightarrow> bool" where
  "candidate_ok B inst eid w \<longleftrightarrow> (\<exists>s. decode (bd_crypto B) w = Inr s \<and> env_instance (envelope_of s) = inst \<and> sg_id s = eid)"

definition receipt_row_ok :: "'sk build \<Rightarrow> hash \<Rightarrow> db \<Rightarrow> hash \<Rightarrow> hash \<times> byte list \<Rightarrow> bool" where
  "receipt_row_ok B inst d digest row \<longleftrightarrow> digest = hash_of B (snd row) \<and> has (db_candidates d) (fst row) \<and>
     (\<exists>r. receipt_decode (bd_crypto B) (snd row) = Inr r \<and> nr_instance (rc_receipt r) = inst \<and> nr_event (rc_receipt r) = fst row)"

definition row_of_rule :: "filter_identity \<Rightarrow> rule_row" where
  "row_of_rule f = \<lparr>rw_fold_version = fr_version (fi_fold f), rw_fold_manifest = fr_manifest (fi_fold f),
     rw_filter_identity = canonical f\<rparr>"

definition db_ok :: "'sk build \<Rightarrow> hash \<Rightarrow> db \<Rightarrow> bool" where
  "db_ok B inst d \<longleftrightarrow> db_schema d \<and> (\<exists>row. db_identity d = Some row \<and> \<not> identity_differs B inst row) \<and>
     fmpred (candidate_ok B inst) (db_candidates d) \<and> fmpred (receipt_row_ok B inst d) (db_receipts d) \<and>
     fmpred (\<lambda>h b. hash_of B b = h) (db_bodies d) \<and>
     (\<forall>row. db_rule d = Some row \<longrightarrow> (\<exists>f. is_governed (hash_of B) (key_ok (bd_crypto B)) f \<and> row = row_of_rule f))"

text \<open>Nothing that a database records is ever changed or removed.\<close>

definition db_extends :: "db \<Rightarrow> db \<Rightarrow> bool" where
  "db_extends d d' \<longleftrightarrow> db_foreign d' = db_foreign d \<and> db_identity d' = db_identity d \<and> db_candidates d \<subseteq>\<^sub>f db_candidates d' \<and>
     db_rejections d \<subseteq>\<^sub>f db_rejections d' \<and> db_receipts d \<subseteq>\<^sub>f db_receipts d' \<and> db_bodies d \<subseteq>\<^sub>f db_bodies d' \<and>
     (db_rule d \<noteq> None \<longrightarrow> db_rule d' = db_rule d)"

lemma db_okD:
  assumes "db_ok B inst d"
  shows "db_schema d" "db_identity d \<noteq> None"
    "fmlookup (db_candidates d) eid = Some w \<Longrightarrow> candidate_ok B inst eid w"
    "fmlookup (db_receipts d) dg = Some row \<Longrightarrow> receipt_row_ok B inst d dg row"
    "fmlookup (db_bodies d) h = Some b \<Longrightarrow> hash_of B b = h"
  using assms unfolding db_ok_def fmpred_iff by blast+

lemma fmsubset_refl [simp]: "m \<subseteq>\<^sub>f m"
  by (simp add: fmsubset.rep_eq)

lemma fmsubset_trans: "a \<subseteq>\<^sub>f b \<Longrightarrow> b \<subseteq>\<^sub>f c \<Longrightarrow> a \<subseteq>\<^sub>f c"
  unfolding fmsubset.rep_eq by (rule map_le_trans)

lemma db_extends_refl [simp]: "db_extends d d"
  by (simp add: db_extends_def)

lemma db_extends_trans: "db_extends a b \<Longrightarrow> db_extends b c \<Longrightarrow> db_extends a c"
  unfolding db_extends_def by (metis fmsubset_trans)

lemma insert_new_subset: "m \<subseteq>\<^sub>f insert_new k v m"
  by (auto simp: insert_new_def fmsubset_alt_def fmpred_iff has_def)

lemma insert_new_pred: "fmpred P m \<Longrightarrow> (\<not> has m k \<Longrightarrow> P k v) \<Longrightarrow> fmpred P (insert_new k v m)"
  by (auto simp: insert_new_def fmpred_iff)

lemma has_insert_new [simp]: "has (insert_new k v m) x \<longleftrightarrow> x = k \<or> has m x"
  by (auto simp: insert_new_def)

lemma fmpred_mono: "fmpred P m \<Longrightarrow> (\<And>k v. P k v \<Longrightarrow> Q k v) \<Longrightarrow> fmpred Q m"
  by (simp add: fmpred_iff)

section \<open>What a store reads back\<close>

text \<open>The decoded candidates of a database.\<close>

definition stored :: "'sk build \<Rightarrow> db \<Rightarrow> corpus" where
  "stored B d = fmmap (\<lambda>w. projr (decode (bd_crypto B) w)) (db_candidates d)"

lemma stored_lookup:
  assumes "db_ok B inst d"
  shows "fmlookup (stored B d) eid = Some s \<longleftrightarrow> (\<exists>w. fmlookup (db_candidates d) eid = Some w \<and> decode (bd_crypto B) w = Inr s)"
  using db_okD(3) [OF assms, of eid] by (auto simp: stored_def candidate_ok_def)

lemma stored_dom [simp]: "fmdom' (stored B d) = fmdom' (db_candidates d)"
  by (simp add: stored_def)

lemma verified_candidates_stored:
  assumes "db_ok B inst d"
  shows "verified_candidates B inst d = Inr (stored B d)"
proof -
  have run: "\<exists>m. fold_result (verify_row B inst d) ids m0 = Inr m \<and>
      (\<forall>x. fmlookup m x = (if x \<in> set ids then fmlookup (stored B d) x else fmlookup m0 x))"
    if "set ids \<subseteq> fmdom' (db_candidates d)" for ids m0
    using that
  proof (induction ids arbitrary: m0)
    case (Cons eid ids)
    then obtain w where w: "fmlookup (db_candidates d) eid = Some w" by (auto elim: in_domE)
    from db_okD(3) [OF assms w] obtain s where s: "decode (bd_crypto B) w = Inr s" "env_instance (envelope_of s) = inst" "sg_id s = eid"
      unfolding candidate_ok_def by blast
    have "fmlookup (stored B d) eid = Some s" using w s(1) by (simp add: stored_def)
    moreover have "verify_row B inst d eid m0 = Inr (fmupd eid s m0)" using w s by (simp add: verify_row_def)
    ultimately show ?case using Cons.IH [of "fmupd eid s m0"] Cons.prems by auto
  qed simp
  from run [of "keys (db_candidates d)" fmempty] obtain m where
    m: "fold_result (verify_row B inst d) (keys (db_candidates d)) fmempty = Inr m"
    "\<And>x. fmlookup m x = (if x \<in> fmdom' (db_candidates d) then fmlookup (stored B d) x else None)" by auto
  have "m = stored B d" by (rule fmap_ext) (auto simp: m(2) fmdom'_notD)
  with m(1) db_okD(1) [OF assms] show ?thesis by (simp add: verified_candidates_def)
qed

lemma decode_bytes: "decode C w = Inr s \<Longrightarrow> sg_bytes s = w"
  by (auto simp: decode_Inr)

section \<open>Writes\<close>

lemma db_ok_candidate:
  assumes "db_ok B inst d" "candidate_ok B inst eid w"
  shows "db_ok B inst (d\<lparr>db_candidates := insert_new eid w (db_candidates d)\<rparr>)"
proof -
  have "fmpred (candidate_ok B inst) (insert_new eid w (db_candidates d))"
    using assms by (intro insert_new_pred) (simp_all add: db_ok_def)
  moreover have "fmpred (receipt_row_ok B inst (d\<lparr>db_candidates := insert_new eid w (db_candidates d)\<rparr>)) (db_receipts d)"
    using assms(1) unfolding db_ok_def by (elim conjE fmpred_mono) (simp add: receipt_row_ok_def)
  ultimately show ?thesis using assms(1) by (simp add: db_ok_def)
qed

lemma receipt_row_ok_upd [simp]: "receipt_row_ok B inst (d\<lparr>db_receipts := x\<rparr>) = receipt_row_ok B inst d"
  "receipt_row_ok B inst (d\<lparr>db_bodies := y\<rparr>) = receipt_row_ok B inst d"
  "receipt_row_ok B inst (d\<lparr>db_rejections := z\<rparr>) = receipt_row_ok B inst d"
  "receipt_row_ok B inst (d\<lparr>db_rule := r\<rparr>) = receipt_row_ok B inst d"
  by (intro ext, simp add: receipt_row_ok_def)+

lemma db_ok_receipt:
  assumes "db_ok B inst d" "receipt_row_ok B inst d dg row"
  shows "db_ok B inst (d\<lparr>db_receipts := insert_new dg row (db_receipts d)\<rparr>)"
  using assms insert_new_pred [of "receipt_row_ok B inst d" "db_receipts d" dg row] by (simp add: db_ok_def)

lemma db_ok_body: "db_ok B inst d \<Longrightarrow> db_ok B inst (d\<lparr>db_bodies := insert_new (hash_of B b) b (db_bodies d)\<rparr>)"
  using insert_new_pred [of "\<lambda>h b. hash_of B b = h" "db_bodies d"] by (simp add: db_ok_def)

lemma db_ok_rejection: "db_ok B inst d \<Longrightarrow> db_ok B inst (reject dg reason d)"
  by (simp add: db_ok_def reject_def)

lemma reject_extends: "db_extends d (reject dg reason d)"
  by (simp add: db_extends_def reject_def insert_new_subset)

lemma db_ok_rule: "db_ok B inst d \<Longrightarrow> is_governed (hash_of B) (key_ok (bd_crypto B)) f \<Longrightarrow> db_ok B inst (record_rule f d)"
  by (auto simp: db_ok_def record_rule_def row_of_rule_def split: option.splits)

lemma record_rule_extends: "db_extends d (record_rule f d)"
  by (simp add: db_extends_def record_rule_def split: option.splits)

section \<open>Signed receipts\<close>

lemma put_receipt_head:
  "put_receipt r = Inr b \<Longrightarrow> \<exists>t. b = hash_bytes (nr_instance r) @ hash_bytes (nr_node_key r) @ hash_bytes (nr_event r) @ t"
  by (auto simp: put_receipt_def put_hash_def cat2_eq_Inr)

lemma receipt_sign_Inr:
  assumes "receipt_sign C key r0 = Inr r"
  shows "receipt_decode C (rc_bytes r) = Inr r \<and> nr_instance (rc_receipt r) = nr_instance r0 \<and> nr_event (rc_receipt r) = nr_event r0"
proof -
  let ?r = "r0\<lparr>nr_node_key := public_key C key\<rparr>"
  obtain pre where pre: "receipt_preimage ?r = Inr pre" and dec: "receipt_decode C (pre @ sign_message C key pre) = Inr r"
    using assms by (auto simp: receipt_sign_def Let_def rbind_eq_Inr)
  from dec obtain r' w sig where r': "pre @ sign_message C key pre = w @ sig" "receipt_preimage r' = Inr w"
    "r = \<lparr>rc_receipt = r', rc_bytes = pre @ sign_message C key pre\<rparr>" unfolding receipt_decode_Inr by blast
  obtain b where b: "put_receipt ?r = Inr b" "pre = framed ''cc.receipt.v1'' @ b" using pre unfolding receipt_preimage_Inr by blast
  obtain b' where b': "put_receipt r' = Inr b'" "w = framed ''cc.receipt.v1'' @ b'" using r'(2) unfolding receipt_preimage_Inr by blast
  from put_receipt_head [OF b(1)] put_receipt_head [OF b'(1)] obtain t t' where
    "b = hash_bytes (nr_instance ?r) @ hash_bytes (nr_node_key ?r) @ hash_bytes (nr_event ?r) @ t"
    "b' = hash_bytes (nr_instance r') @ hash_bytes (nr_node_key r') @ hash_bytes (nr_event r') @ t'" by blast
  note this b(2) b'(2)
  with r'(1) have "nr_instance r' = nr_instance r0 \<and> nr_event r' = nr_event r0" by simp
  with dec r'(3) show ?thesis by simp
qed

lemma receipt_for_Inr:
  assumes "receipt_for B key inst f eid st t = Inr r"
  shows "receipt_decode (bd_crypto B) (rc_bytes r) = Inr r \<and> nr_instance (rc_receipt r) = inst \<and> nr_event (rc_receipt r) = eid"
  using assms receipt_sign_Inr by (fastforce simp: receipt_for_def split: sum.splits)

section \<open>Operations\<close>

lemma insert_receipt_Inr:
  assumes ok: "db_ok B inst d" and r: "receipt_for B key inst f eid st t = Inr r" and ev: "has (db_candidates d) eid"
    and ins: "insert_receipt B eid r d = Inr d'"
  shows "db_ok B inst d' \<and> db_extends d d'"
proof -
  have free: "\<not> has (db_receipts d) (hash_of B (rc_bytes r))"
    and d': "d' = d\<lparr>db_receipts := insert_new (hash_of B (rc_bytes r)) (eid, rc_bytes r) (db_receipts d)\<rparr>"
    using ins by (auto simp: insert_receipt_def guard_eq_Inr insert_new_def)
  have "receipt_row_ok B inst d (hash_of B (rc_bytes r)) (eid, rc_bytes r)"
    using receipt_for_Inr [OF r] ev by (simp add: receipt_row_ok_def)
  with ok show ?thesis unfolding d' by (simp add: db_ok_receipt db_extends_def insert_new_subset)
qed

lemma write_candidate_Inr:
  assumes ok: "db_ok B (nd_instance nd) (nd_db nd)" and c: "candidate_ok B (nd_instance nd) eid bytes"
    and run: "write_candidate B observer clock bytes eid out nd = Inr (res, d')"
  shows "db_ok B (nd_instance nd) d' \<and> db_extends (nd_db nd) d'"
proof -
  let ?d = "nd_db nd"
  let ?d' = "?d\<lparr>db_candidates := insert_new eid bytes (db_candidates ?d)\<rparr>"
  have cand: "db_ok B (nd_instance nd) ?d'" "db_extends ?d ?d'" "has (db_candidates ?d') eid"
    using ok c by (auto simp: db_ok_candidate db_extends_def insert_new_subset)
  consider "d' = ?d'" | key f r where "receipt_for B key (nd_instance nd) f eid (oc_status out) (now_micros clock) = Inr r"
      "insert_receipt B eid r ?d' = Inr d'"
    using run by (auto simp: write_candidate_def Let_def rbind_eq_Inr split: option.splits prod.splits if_splits)
  then show ?thesis
  proof cases
    case 2
    from insert_receipt_Inr [OF cand(1) this(1) cand(3) this(2)] cand(2) show ?thesis using db_extends_trans by blast
  qed (use cand in simp)
qed

lemma admit_signed_Inr:
  assumes ok: "db_ok B (nd_instance nd) (nd_db nd)"
    and s: "decode (bd_crypto B) bytes = Inr s" "env_instance (envelope_of s) = nd_instance nd"
    and run: "admit_signed B observer clock bytes s nd = Some (Inr (res, d'))"
  shows "db_ok B (nd_instance nd) d' \<and> db_extends (nd_db nd) d'"
proof -
  have "candidate_ok B (nd_instance nd) (sg_id s) bytes" using s by (simp add: candidate_ok_def)
  moreover obtain out where "write_candidate B observer clock bytes (sg_id s) out nd = Inr (res, d')"
    using run by (auto simp: admit_signed_def Let_def split: sum.splits bind_splits option.splits)
  ultimately show ?thesis by (rule write_candidate_Inr [OF ok])
qed

lemma admit_once_Inr:
  assumes "db_ok B (nd_instance nd) (nd_db nd)" "admit_once B nkey clock bytes nd = Some (Inr (res, d'))"
  shows "db_ok B (nd_instance nd) d' \<and> db_extends (nd_db nd) d'"
proof -
  from assms(2) consider (rejected) reason where "d' = reject (hash_of B bytes) reason (nd_db nd)"
    | (signed) observer s where "decode (bd_crypto B) bytes = Inr s" "env_instance (envelope_of s) = nd_instance nd"
      "admit_signed B observer clock bytes s nd = Some (Inr (res, d'))"
    unfolding admit_once_def Let_def by (auto split: sum.splits if_splits option.splits)
  then show ?thesis
  proof cases
    case rejected
    with assms(1) show ?thesis by (simp add: db_ok_rejection reject_extends)
  next
    case signed
    from admit_signed_Inr [OF assms(1) signed] show ?thesis .
  qed
qed

lemma admit_observed_ok:
  assumes "db_ok B (nd_instance nd) (nd_db nd)" "admit_observed B nkey clock bytes nd = Some (r, nd')"
  shows "db_ok B (nd_instance nd) (nd_db nd') \<and> db_extends (nd_db nd) (nd_db nd') \<and> nd_instance nd' = nd_instance nd \<and>
    nd_rule nd' = nd_rule nd \<and> nd_cache nd' = map_option invalidate (nd_cache nd)"
proof -
  obtain result where r: "admit_once B nkey clock bytes nd = Some result"
    "nd' = nd\<lparr>nd_db := (case result of Inl _ \<Rightarrow> nd_db nd | Inr (_, d) \<Rightarrow> d), nd_cache := map_option invalidate (nd_cache nd)\<rparr>"
    using assms(2) by (auto simp: admit_observed_def Let_def split: bind_splits)
  show ?thesis
  proof (cases result)
    case (Inr x)
    obtain res d' where "x = (res, d')" by (cases x)
    with r Inr admit_once_Inr [OF assms(1), of nkey clock bytes res d'] show ?thesis by simp
  qed (use r assms(1) in simp)
qed

lemma admit_ok:
  assumes "db_ok B (nd_instance nd) (nd_db nd)" "admit B bytes nd = Some (r, nd')"
  shows "db_ok B (nd_instance nd) (nd_db nd') \<and> db_extends (nd_db nd) (nd_db nd') \<and> nd_instance nd' = nd_instance nd \<and>
    nd_rule nd' = nd_rule nd \<and> nd_cache nd' = map_option invalidate (nd_cache nd)"
  using admit_observed_ok [OF assms(1)] assms(2) unfolding admit_def by (auto split: prod.splits)

lemma admit_all_ok:
  assumes "admit_all B ws nd = Some (r, nd')" "db_ok B (nd_instance nd) (nd_db nd)"
  shows "db_ok B (nd_instance nd) (nd_db nd') \<and> db_extends (nd_db nd) (nd_db nd') \<and> nd_instance nd' = nd_instance nd \<and>
    nd_rule nd' = nd_rule nd"
  using assms
proof (induction ws arbitrary: r nd)
  case (Cons w ws)
  from Cons.prems(1) obtain r1 nd1 where 1: "admit B w nd = Some (r1, nd1)" by (auto split: bind_splits)
  note ok = admit_ok [OF Cons.prems(2) 1]
  show ?case
  proof (cases r1)
    case (Inl e)
    with Cons.prems(1) 1 ok show ?thesis by simp
  next
    case (Inr out)
    with Cons.prems(1) 1 obtain rs where "admit_all B ws nd1 = Some (rs, nd')" by (auto split: prod.splits)
    from Cons.IH [OF this] ok show ?thesis using db_extends_trans by metis
  qed
qed simp

lemma restore_export_cases:
  assumes "restore_export B m nd = Some (r, nd')"
  obtains (refused) e where "r = Inl e" "nd' = nd"
  | (admitted) f cands s where "restore_checks B m nd = Inr (f, cands)"
      "snapshot_of (hash_of B) (key_ok (bd_crypto B)) (bd_json B) f cands = Some s" "sn_corpus_digest s = em_corpus_digest m"
      "sn_commitment s = em_commitment m" "admit_all B (em_envelopes m) nd = Some (r, nd')"
  using assms by (auto simp: restore_export_def split: sum.splits prod.splits bind_splits if_splits)

lemma retain_receipt_ok:
  assumes "db_ok B (nd_instance nd) (nd_db nd)" "retain_receipt B bytes nd = (r, nd')"
  shows "db_ok B (nd_instance nd) (nd_db nd') \<and> db_extends (nd_db nd) (nd_db nd') \<and> nd_instance nd' = nd_instance nd \<and>
    nd_rule nd' = nd_rule nd \<and> nd_cache nd' = nd_cache nd"
proof -
  have "nd' = nd \<or> ?thesis"
  proof (cases "receipt_decode (bd_crypto B) bytes")
    case (Inl e)
    with assms(2) show ?thesis by (simp add: retain_receipt_def)
  next
    case (Inr sr)
    let ?ev = "nr_event (rc_receipt sr)" and ?d = "nd_db nd"
    show ?thesis
    proof (cases "nr_instance (rc_receipt sr) = nd_instance nd \<and> db_schema ?d \<and> has (db_candidates ?d) ?ev")
      case True
      then have "nd' = nd\<lparr>nd_db := ?d\<lparr>db_receipts := insert_new (hash_of B bytes) (?ev, bytes) (db_receipts ?d)\<rparr>\<rparr>"
        using assms(2) Inr by (simp add: retain_receipt_def Let_def)
      moreover have "receipt_row_ok B (nd_instance nd) ?d (hash_of B bytes) (?ev, bytes)"
        using True Inr by (simp add: receipt_row_ok_def)
      ultimately show ?thesis using db_ok_receipt [OF assms(1)] by (simp add: db_extends_def insert_new_subset)
    next
      case False
      then show ?thesis using assms(2) Inr unfolding retain_receipt_def Let_def by (simp split: if_splits)
    qed
  qed
  with assms(1) show ?thesis by auto
qed

lemma retain_body_ok:
  assumes "db_ok B (nd_instance nd) (nd_db nd)" "retain_body B expected bytes nd = (r, nd')"
  shows "db_ok B (nd_instance nd) (nd_db nd') \<and> db_extends (nd_db nd) (nd_db nd') \<and> nd_instance nd' = nd_instance nd \<and>
    nd_rule nd' = nd_rule nd \<and> nd_cache nd' = nd_cache nd"
proof -
  from assms(2) consider "nd' = nd" | "expected = hash_of B bytes"
      "nd' = nd\<lparr>nd_db := (nd_db nd)\<lparr>db_bodies := insert_new expected bytes (db_bodies (nd_db nd))\<rparr>\<rparr>"
    by (auto simp: retain_body_def Let_def split: if_splits)
  then show ?thesis
  proof cases
    case 2
    then show ?thesis using db_ok_body [OF assms(1), of bytes] by (simp add: db_extends_def insert_new_subset)
  qed (use assms(1) in simp)
qed

lemma bind_rule_db:
  assumes "db_ok B (nd_instance nd) (nd_db nd)" "bind_rule B f nd = (r, d)"
  shows "db_ok B (nd_instance nd) d \<and> db_extends (nd_db nd) d"
proof -
  from assms(2) consider "d = nd_db nd" | "is_governed (hash_of B) (key_ok (bd_crypto B)) f" "d = record_rule f (nd_db nd)"
    by (auto simp: bind_rule_def Let_def split: if_splits)
  then show ?thesis using assms(1) by cases (simp_all add: db_ok_rule record_rule_extends)
qed

lemma bind_rule_node:
  assumes "bind_rule B f nd = (Inr nd', d)"
  shows "nd' = nd\<lparr>nd_db := d, nd_rule := Some f\<rparr>"
  using assms by (auto simp: bind_rule_def Let_def rbind_eq_Inr ready_error_def split: if_splits)

lemma committed_frame:
  assumes "committed B f nd = Some (r, nd')"
  shows "nd_db nd' = nd_db nd \<and> nd_instance nd' = nd_instance nd \<and> nd_rule nd' = nd_rule nd"
  using assms by (auto simp: committed_def Let_def split: option.splits sum.splits prod.splits bind_splits)

lemma snapshot_read_cases:
  assumes "snapshot_read B requested nd = Some (r, nd')"
  obtains e where "r = Inl e" "nd' = nd" | f where "nd_rule nd = Some f" "committed B f nd = Some (r, nd')"
proof (cases "ready B requested nd")
  case (Inl e)
  with assms that(1) show thesis by (auto simp: snapshot_read_def)
next
  case (Inr f)
  then have "nd_rule nd = Some f"
    by (auto simp: ready_def bound_def rbind_eq_Inr guard_eq_Inr ready_error_def split: option.splits if_splits)
  with Inr assms that(2) show thesis by (auto simp: snapshot_read_def)
qed

section \<open>Runs of a store\<close>

text \<open>
  The operations of one handle, interleaved with those of any other handle on the same database.
\<close>

inductive store_step :: "'sk build \<Rightarrow> node \<Rightarrow> node \<Rightarrow> bool" for B where
  step_admit: "admit_observed B nkey clock bytes nd = Some (r, nd') \<Longrightarrow> store_step B nd nd'"
| step_restore: "restore_export B m nd = Some (r, nd') \<Longrightarrow> store_step B nd nd'"
| step_receipt: "retain_receipt B bytes nd = (r, nd') \<Longrightarrow> store_step B nd nd'"
| step_body: "retain_body B expected bytes nd = (r, nd') \<Longrightarrow> store_step B nd nd'"
| step_bind: "bind_rule B f nd = (Inr nd', d) \<Longrightarrow> fits f \<Longrightarrow> store_step B nd nd'"
| step_bind_refused: "bind_rule B f nd = (Inl e, d) \<Longrightarrow> store_step B nd (nd\<lparr>nd_db := d\<rparr>)"
| step_snapshot: "snapshot_read B requested nd = Some (r, nd') \<Longrightarrow> store_step B nd nd'"
| step_other: "store_step B other other' \<Longrightarrow> nd_db other = nd_db nd \<Longrightarrow> nd_instance other = nd_instance nd \<Longrightarrow>
    store_step B nd (nd\<lparr>nd_db := nd_db other'\<rparr>)"

lemma store_step_db:
  assumes "store_step B nd nd'" "db_ok B (nd_instance nd) (nd_db nd)"
  shows "db_ok B (nd_instance nd) (nd_db nd') \<and> db_extends (nd_db nd) (nd_db nd') \<and> nd_instance nd' = nd_instance nd"
  using assms
proof induction
  case (step_admit nkey clock bytes nd r nd')
  from admit_observed_ok [OF step_admit(2,1)] show ?case by blast
next
  case (step_restore m nd r nd')
  from step_restore(1) show ?case
  proof (cases rule: restore_export_cases)
    case admitted
    from admit_all_ok [OF admitted(5) step_restore(2)] show ?thesis by blast
  qed (use step_restore in simp)
next
  case (step_receipt bytes nd r nd')
  from retain_receipt_ok [OF step_receipt(2,1)] show ?case by blast
next
  case (step_body expected bytes nd r nd')
  from retain_body_ok [OF step_body(2,1)] show ?case by blast
next
  case (step_bind f nd nd' d)
  from bind_rule_db [OF step_bind(3,1)] bind_rule_node [OF step_bind(1)] show ?case by simp
next
  case (step_bind_refused f nd e d)
  from bind_rule_db [OF step_bind_refused(2,1)] show ?case by simp
next
  case (step_snapshot requested nd r nd')
  from step_snapshot(1) show ?case
  proof (cases rule: snapshot_read_cases)
    case (2 f)
    from committed_frame [OF 2(2)] step_snapshot(2) show ?thesis by simp
  qed (use step_snapshot in simp)
next
  case (step_other other other' nd)
  then show ?case by simp
qed

end
