(* ===== verification/Store_Cache.thy ===== *)
theory Store_Cache
  imports Store_Invariant
begin

text \<open>
  The snapshot cache: a cached snapshot is the fold of some verified corpus under the key of that
  corpus, whatever other operations run between the steps of a read, and a hit is the fold of the
  candidates the key was probed from.
\<close>

section \<open>What the cache holds\<close>

definition corpus_ok :: "'sk build \<Rightarrow> hash \<Rightarrow> corpus \<Rightarrow> bool" where
  "corpus_ok B inst cands \<longleftrightarrow> fmpred (\<lambda>eid e. decode (bd_crypto B) (sg_bytes e) = Inr e \<and> env_instance (envelope_of e) = inst \<and> sg_id e = eid) cands"

definition rows_of :: "'sk build \<Rightarrow> corpus \<Rightarrow> (hash \<times> hash) list" where
  "rows_of B cands = map (\<lambda>(eid, e). (eid, hash_of B (sg_bytes e))) (entries cands)"

definition cached_from :: "'sk build \<Rightarrow> hash \<Rightarrow> filter_identity \<Rightarrow> corpus \<Rightarrow> inner \<Rightarrow> bool" where
  "cached_from B inst f cands c \<longleftrightarrow> fits f \<and> corpus_ok B inst cands \<and>
     (\<exists>s. snapshot_of (hash_of B) (key_ok (bd_crypto B)) (bd_json B) f cands = Some s \<and>
       ic_entry c = Some (key_of B f (rows_of B cands), s))"

definition cache_ok :: "'sk build \<Rightarrow> hash \<Rightarrow> inner \<Rightarrow> bool" where
  "cache_ok B inst c \<longleftrightarrow> (ic_entry c \<noteq> None \<longrightarrow> (\<exists>f cands. cached_from B inst f cands c))"

lemma stored_corpus_ok:
  assumes "db_ok B inst d"
  shows "corpus_ok B inst (stored B d)"
  unfolding corpus_ok_def fmpred_iff
proof (intro allI impI)
  fix eid e assume "fmlookup (stored B d) eid = Some e"
  then obtain w where w: "fmlookup (db_candidates d) eid = Some w" "decode (bd_crypto B) w = Inr e"
    unfolding stored_lookup [OF assms] by blast
  with db_okD(3) [OF assms w(1)] decode_bytes [OF w(2)]
  show "decode (bd_crypto B) (sg_bytes e) = Inr e \<and> env_instance (envelope_of e) = inst \<and> sg_id e = eid"
    by (simp add: candidate_ok_def)
qed

lemma entries_stored:
  assumes "db_ok B inst d"
  shows "map (\<lambda>(eid, w). (eid, hash_of B w)) (entries (db_candidates d)) = rows_of B (stored B d)"
proof -
  have "keys (stored B d) = keys (db_candidates d)" by (simp add: keys_def stored_def)
  moreover have "the (fmlookup (db_candidates d) k) = sg_bytes (the (fmlookup (stored B d) k))" if "k \<in> set (keys (db_candidates d))" for k
  proof -
    from that obtain w where w: "fmlookup (db_candidates d) k = Some w" by (auto elim: in_domE)
    from db_okD(3) [OF assms this] obtain s where "decode (bd_crypto B) w = Inr s" by (auto simp: candidate_ok_def)
    with w show ?thesis by (simp add: stored_def decode_bytes)
  qed
  ultimately show ?thesis by (simp add: rows_of_def entries_def)
qed

lemma probe_stored: "db_ok B inst d \<Longrightarrow> probe B f d = Inr (key_of B f (rows_of B (stored B d)))"
  by (simp add: probe_def db_okD(1) entries_stored)

section \<open>A hit\<close>

lemma content_bytes_inject: "content_bytes xs = content_bytes ys \<Longrightarrow> xs = ys"
proof -
  have flat: "content_bytes rows = concat (map hash_bytes (concat (map (\<lambda>(a, b). [a, b]) rows)))" for rows
    by (induction rows) (auto simp: content_bytes_def)
  have inj: "concat (map (\<lambda>(a, b). [a, b]) xs) = concat (map (\<lambda>(a, b). [a, b]) ys) \<Longrightarrow> xs = ys" for xs ys :: "(hash \<times> hash) list"
  proof (induction xs arbitrary: ys)
    case Nil
    then show ?case by (cases ys) auto
  next
    case (Cons x xs)
    then show ?case by (cases ys; cases x) auto
  qed
  assume "content_bytes xs = content_bytes ys"
  then show "xs = ys" unfolding flat by (intro inj concat_hash_inject)
qed

text \<open>The byte strings whose hashes a comparison of two cache keys depends on.\<close>

definition key_inputs :: "'sk build \<Rightarrow> filter_identity \<Rightarrow> corpus \<Rightarrow> byte list set" where
  "key_inputs B f cands = {canonical f, content_bytes (rows_of B cands)} \<union> sg_bytes ` fmran' cands"

lemma rows_of_inject:
  assumes ok: "corpus_ok B inst a" "corpus_ok B inst b" and eq: "rows_of B a = rows_of B b"
    and inj: "inj_on (hash_of B) (sg_bytes ` fmran' a \<union> sg_bytes ` fmran' b)"
  shows "a = b"
proof -
  have lookup: "map_of (rows_of B m) k = map_option (\<lambda>e. hash_of B (sg_bytes e)) (fmlookup m k)" for m k
  proof -
    have "map_of (entries m) k = fmlookup m k"
    proof (cases "fmlookup m k")
      case (Some v)
      from fmdom'I [OF this] Some show ?thesis by (simp add: entries_def map_of_map_restrict restrict_map_def)
    next
      case None
      from fmdom'_notI [OF this] None show ?thesis by (simp add: entries_def map_of_map_restrict restrict_map_def)
    qed
    then show ?thesis by (simp add: rows_of_def map_of_map)
  qed
  show ?thesis
  proof (rule fmap_ext)
    fix k
    have eq': "map_option (\<lambda>e. hash_of B (sg_bytes e)) (fmlookup a k) = map_option (\<lambda>e. hash_of B (sg_bytes e)) (fmlookup b k)"
      using lookup [of a k] lookup [of b k] eq by simp
    show "fmlookup a k = fmlookup b k"
    proof (cases "fmlookup a k")
      case (Some e)
      with eq' obtain e' where e': "fmlookup b k = Some e'" "hash_of B (sg_bytes e) = hash_of B (sg_bytes e')"
        by (cases "fmlookup b k") auto
      have "sg_bytes e = sg_bytes e'"
        by (rule inj_onD [OF inj e'(2)]) (use fmran'I [OF Some] fmran'I [OF e'(1)] in \<open>simp_all\<close>)
      moreover have "decode (bd_crypto B) (sg_bytes e) = Inr e" "decode (bd_crypto B) (sg_bytes e') = Inr e'"
        using ok Some e'(1) unfolding corpus_ok_def fmpred_iff by blast+
      ultimately have "e = e'" by (metis sum.inject(2))
      then show ?thesis unfolding Some e'(1) by (rule arg_cong)
    qed (use eq' in simp)
  qed
qed

lemma key_of_inject:
  assumes ok: "corpus_ok B inst a" "corpus_ok B inst b" and "fits f" "fits g" and eq: "key_of B f (rows_of B a) = key_of B g (rows_of B b)"
    and inj: "inj_on (hash_of B) (key_inputs B f a \<union> key_inputs B g b)"
  shows "f = g \<and> a = b"
proof
  have "hash_of B (canonical f) = hash_of B (canonical g)" using eq by (simp add: key_of_def rule_of_def filter_version_def)
  then have "canonical f = canonical g" by (rule inj_onD [OF inj]) (simp_all add: key_inputs_def)
  then show "f = g" using assms(3,4) by (rule canonical_inject)
  have "hash_of B (content_bytes (rows_of B a)) = hash_of B (content_bytes (rows_of B b))" using eq by (simp add: key_of_def)
  then have "content_bytes (rows_of B a) = content_bytes (rows_of B b)" by (rule inj_onD [OF inj]) (simp_all add: key_inputs_def)
  then have "rows_of B a = rows_of B b" by (rule content_bytes_inject)
  then show "a = b" by (rule rows_of_inject [OF ok]) (rule inj_on_subset [OF inj], auto simp: key_inputs_def)
qed

lemma cache_look_hit: "cache_look key c = (Some s, c') \<Longrightarrow> ic_entry c = Some (key, s)"
  by (auto simp: cache_look_def Let_def split: option.splits prod.splits if_splits)

lemma cache_look_entry [simp]: "ic_entry (snd (cache_look key c)) = ic_entry c" "ic_generation (snd (cache_look key c)) = ic_generation c"
  by (simp_all add: cache_look_def Let_def split: option.splits)

lemma cached_hit:
  assumes c: "cached_from B inst f0 cands c" and ok: "db_ok B inst d" "fits f"
    and inj: "inj_on (hash_of B) (key_inputs B f0 cands \<union> key_inputs B f (stored B d))"
    and hit: "probe B f d = Inr key" "cache_look key c = (Some s, c')"
  shows "snapshot_of (hash_of B) (key_ok (bd_crypto B)) (bd_json B) f (stored B d) = Some s"
proof -
  from c obtain s' where s': "fits f0" "corpus_ok B inst cands" "ic_entry c = Some (key_of B f0 (rows_of B cands), s')"
    "snapshot_of (hash_of B) (key_ok (bd_crypto B)) (bd_json B) f0 cands = Some s'" unfolding cached_from_def by blast
  have "key_of B f0 (rows_of B cands) = key_of B f (rows_of B (stored B d))" "s = s'"
    using cache_look_hit [OF hit(2)] s'(3) hit(1) probe_stored [OF ok(1), of f] by simp_all
  with key_of_inject [OF s'(2) stored_corpus_ok [OF ok(1)] s'(1) ok(2)] inj s'(4) show ?thesis by blast
qed

section \<open>A miss\<close>

lemma fold_candidates_stored:
  assumes "db_ok B inst d"
  shows "fold_candidates B inst f d = (case snapshot_of (hash_of B) (key_ok (bd_crypto B)) (bd_json B) f (stored B d) of
    None \<Rightarrow> None | Some s \<Rightarrow> Some (Inr (stored B d, s)))"
  by (simp add: fold_candidates_def verified_candidates_stored [OF assms] split: option.splits)

lemma cache_fill_ok:
  assumes "cache_ok B inst c" "corpus_ok B inst cands" "fits f"
    "snapshot_of (hash_of B) (key_ok (bd_crypto B)) (bd_json B) f cands = Some s"
  shows "cache_ok B inst (cache_fill B f generation cands s c)"
proof (cases "ic_generation c = generation")
  case True
  then have "cached_from B inst f cands (cache_fill B f generation cands s c)"
    using assms(2-4) by (simp add: cached_from_def cache_fill_def rows_of_def)
  then show ?thesis unfolding cache_ok_def by blast
qed (use assms(1) in \<open>simp add: cache_fill_def\<close>)

lemma cache_ok_cong: "ic_entry c' = ic_entry c \<Longrightarrow> cache_ok B inst c \<Longrightarrow> cache_ok B inst c'"
  by (simp add: cache_ok_def cached_from_def)

lemma invalidate_ok [simp]: "cache_ok B inst (invalidate c)"
  by (simp add: cache_ok_def invalidate_def)

lemma committed_cache:
  assumes ok: "db_ok B (nd_instance nd) (nd_db nd)" "fits f" "\<And>c. nd_cache nd = Some c \<Longrightarrow> cache_ok B (nd_instance nd) c"
    and run: "committed B f nd = Some (r, nd')" "nd_cache nd' = Some c'"
  shows "cache_ok B (nd_instance nd) c'"
proof (cases "nd_cache nd")
  case None
  with run show ?thesis by (auto simp: committed_def)
next
  case (Some c)
  note c = ok(3) [OF Some]
  let ?key = "key_of B f (rows_of B (stored B (nd_db nd)))"
  obtain hit c1 where look: "cache_look ?key c = (hit, c1)" by (cases "cache_look ?key c")
  have c1: "cache_ok B (nd_instance nd) c1" using cache_ok_cong [OF _ c, of c1] cache_look_entry [of ?key c] look by simp
  show ?thesis
  proof (cases hit)
    case None
    then obtain s where s: "snapshot_of (hash_of B) (key_ok (bd_crypto B)) (bd_json B) f (stored B (nd_db nd)) = Some s"
      "c' = cache_fill B f (ic_generation c) (stored B (nd_db nd)) s c1"
      using run Some look
      by (auto simp: committed_def probe_stored [OF ok(1)] fold_candidates_stored [OF ok(1)] split: option.splits)
    show ?thesis unfolding s(2) by (rule cache_fill_ok [OF c1 stored_corpus_ok [OF ok(1)] ok(2) s(1)])
  next
    case (Some s)
    with run \<open>nd_cache nd = Some c\<close> look c1 show ?thesis
      by (auto simp: committed_def probe_stored [OF ok(1)])
  qed
qed

section \<open>The invariant of a handle\<close>

definition node_ok :: "'sk build \<Rightarrow> node \<Rightarrow> bool" where
  "node_ok B nd \<longleftrightarrow> db_ok B (nd_instance nd) (nd_db nd) \<and> (\<forall>c. nd_cache nd = Some c \<longrightarrow> cache_ok B (nd_instance nd) c) \<and>
     (\<forall>f. nd_rule nd = Some f \<longrightarrow> fits f)"

lemma node_okI:
  "db_ok B (nd_instance nd) (nd_db nd) \<Longrightarrow> (\<And>c. nd_cache nd = Some c \<Longrightarrow> cache_ok B (nd_instance nd) c) \<Longrightarrow>
    (\<And>f. nd_rule nd = Some f \<Longrightarrow> fits f) \<Longrightarrow> node_ok B nd"
  by (simp add: node_ok_def)

lemma node_okD:
  assumes "node_ok B nd"
  shows "db_ok B (nd_instance nd) (nd_db nd)" "nd_cache nd = Some c \<Longrightarrow> cache_ok B (nd_instance nd) c" "nd_rule nd = Some f \<Longrightarrow> fits f"
  using assms by (simp_all add: node_ok_def)

lemma admit_all_cache:
  assumes "admit_all B ws nd = Some (r, nd')" "\<And>c. nd_cache nd = Some c \<Longrightarrow> cache_ok B inst c" "nd_cache nd' = Some c'"
  shows "cache_ok B inst c'"
  using assms
proof (induction ws arbitrary: nd r)
  case (Cons w ws)
  from Cons.prems(1) obtain r1 nd1 where 1: "admit B w nd = Some (r1, nd1)" by (auto split: bind_splits)
  then have cache: "nd_cache nd1 = map_option invalidate (nd_cache nd)"
    by (auto simp: admit_def admit_observed_def Let_def split: bind_splits prod.splits)
  then have c1: "cache_ok B inst c" if "nd_cache nd1 = Some c" for c
    using that by (cases "nd_cache nd") auto
  show ?case
  proof (cases r1)
    case (Inl e)
    with Cons.prems(1,3) 1 c1 show ?thesis by simp
  next
    case (Inr out)
    with Cons.prems(1) 1 obtain rs where "admit_all B ws nd1 = Some (rs, nd')" by (auto split: prod.splits)
    from Cons.IH [OF this c1 Cons.prems(3)] show ?thesis by simp
  qed
qed simp

lemma store_step_node:
  assumes "store_step B nd nd'" "node_ok B nd"
  shows "node_ok B nd' \<and> db_extends (nd_db nd) (nd_db nd') \<and> nd_instance nd' = nd_instance nd"
proof -
  note D = node_okD [OF assms(2)]
  note db = store_step_db [OF assms(1) D(1)]
  have "(\<forall>c. nd_cache nd' = Some c \<longrightarrow> cache_ok B (nd_instance nd) c) \<and> (\<forall>f. nd_rule nd' = Some f \<longrightarrow> fits f)"
    using assms(1)
  proof cases
    case (step_admit nkey clock bytes r)
    from admit_observed_ok [OF D(1) this] D(3) show ?thesis by auto
  next
    case (step_restore m r)
    then show ?thesis
    proof (cases rule: restore_export_cases)
      case admitted
      from admit_all_ok [OF admitted(5) D(1)] admit_all_cache [OF admitted(5) D(2)] D(3) show ?thesis by simp
    qed (use D in simp)
  next
    case (step_receipt bytes r)
    from retain_receipt_ok [OF D(1) this] D(2,3) show ?thesis by simp
  next
    case (step_body expected bytes r)
    from retain_body_ok [OF D(1) this] D(2,3) show ?thesis by simp
  next
    case (step_bind f d)
    from bind_rule_node [OF this(1)] D(2) \<open>fits f\<close> show ?thesis by simp
  next
    case (step_bind_refused f e d)
    with D(2,3) show ?thesis by simp
  next
    case (step_snapshot requested r)
    then show ?thesis
    proof (cases rule: snapshot_read_cases)
      case (2 f)
      from committed_frame [OF 2(2)] committed_cache [OF D(1) D(3) [OF 2(1)] D(2) 2(2)] D(3) show ?thesis by simp
    qed (use D in simp)
  next
    case (step_other other other')
    with D(2,3) show ?thesis by simp
  qed
  with db show ?thesis by (simp add: node_ok_def)
qed

end
