(* ===== verification/Store_Properties.thy ===== *)
theory Store_Properties
  imports Store_Cache
begin

text \<open>The properties of the store: its invariant, admission, cached reads, rule binding, export and restore.\<close>

section \<open>Reachable stores\<close>

lemma provision_fresh:
  assumes "provision B inst d = Inr nd" "\<not> db_schema d"
  shows "nd = \<lparr>nd_db = create_schema B inst d, nd_instance = inst, nd_rule = None, nd_cache = Some inner_default\<rparr> \<and>
    db_foreign d = 0 \<and> node_ok B nd"
proof -
  have nd: "nd = \<lparr>nd_db = create_schema B inst d, nd_instance = inst, nd_rule = None, nd_cache = Some inner_default\<rparr>"
    and "db_foreign d = 0"
    using assms by (auto simp: provision_def guard_eq_Inr rbind_eq_Inr create_schema_def)
  moreover have "db_ok B inst (create_schema B inst d)"
    by (simp add: db_ok_def create_schema_def identity_differs_def)
  ultimately show ?thesis by (simp add: node_ok_def cache_ok_def inner_default_def)
qed

lemma store_steps_node:
  assumes "(store_step B)\<^sup>*\<^sup>* nd nd'" "node_ok B nd"
  shows "node_ok B nd' \<and> db_extends (nd_db nd) (nd_db nd') \<and> nd_instance nd' = nd_instance nd"
  using assms
proof induction
  case (step y z)
  then have "node_ok B y" "db_extends (nd_db nd) (nd_db y)" "nd_instance y = nd_instance nd" by auto
  with store_step_node [OF step(2)] show ?case using db_extends_trans by metis
qed simp

text \<open>
  C2: the store keeps its invariant and is append-only. In every state reachable from a freshly
  provisioned database, by any operations of any handles, each retained candidate and receipt is a verified
  canonical message of this instance under its own id or digest, receipts and rule rows refer to what
  exists, the cache holds a fold of a verified corpus, and so the candidates read back exactly; no row
  recorded at one moment is changed or missing at a later one.
\<close>

theorem store_invariant:
  assumes "provision B inst d = Inr nd0" "\<not> db_schema d" "(store_step B)\<^sup>*\<^sup>* nd0 nd1" "(store_step B)\<^sup>*\<^sup>* nd1 nd2"
  shows "node_ok B nd1 \<and> verified_candidates B inst (nd_db nd1) = Inr (stored B (nd_db nd1)) \<and> db_extends (nd_db nd1) (nd_db nd2)"
proof -
  from provision_fresh [OF assms(1,2)] have 0: "node_ok B nd0" "nd_instance nd0 = inst" by auto
  from store_steps_node [OF assms(3) 0(1)] 0(2) have 1: "node_ok B nd1" "nd_instance nd1 = inst" by auto
  from store_steps_node [OF assms(4) 1(1)] verified_candidates_stored [OF node_okD(1) [OF 1(1)]] 1 show ?thesis by simp
qed

section \<open>Admission\<close>

text \<open>The outcome the store reports for a decoded event, given the analysis with that event included.\<close>

definition admitted :: "'sk build \<Rightarrow> byte list \<Rightarrow> signed \<Rightarrow> analysis \<Rightarrow> outcome" where
  "admitted B bytes s an = \<lparr>oc_event = Some (sg_id s), oc_input_digest = hash_of B bytes,
     oc_status = the (fmlookup (an_admission an) (sg_id s)), oc_authority = fmlookup (au_effects (an_authority an)) (sg_id s)\<rparr>"

lemma insert_new_again: "insert_new k v (insert_new k w m) = insert_new k w m"
  by (simp add: insert_new_def)

lemma admit_signed_total:
  assumes ok: "db_ok B (nd_instance nd) (nd_db nd)" and s: "decode (bd_crypto B) bytes = Inr s" "env_instance (envelope_of s) = nd_instance nd"
    and ids: "distinct_ids (hash_of B) (insert (sg_id s) (fmdom' (db_candidates (nd_db nd))))"
  obtains an where "analyze (hash_of B) (key_ok (bd_crypto B)) (fmupd (sg_id s) s (stored B (nd_db nd))) = Some an"
    "sg_id s \<in> fmdom' (an_admission an)"
    "admit B bytes nd = Some (Inr (admitted B bytes s an), nd\<lparr>nd_db := (nd_db nd)\<lparr>db_candidates :=
      insert_new (sg_id s) bytes (db_candidates (nd_db nd))\<rparr>, nd_cache := map_option invalidate (nd_cache nd)\<rparr>)"
proof -
  let ?cands = "fmupd (sg_id s) s (stored B (nd_db nd))"
  have "distinct_ids (hash_of B) (fmdom' ?cands)" using ids by simp
  then obtain an V o1 ss ix R where an: "analyze (hash_of B) (key_ok (bd_crypto B)) ?cands = Some an"
    "classified (hash_of B) (key_ok (bd_crypto B)) ?cands (an_admission an) V o1 ss"
    by (rule analyze_cases)
  have dom: "sg_id s \<in> fmdom' (an_admission an)" using classifiedD(1) [OF an(2)] by simp
  then obtain st where st: "fmlookup (an_admission an) (sg_id s) = Some st" by (rule in_domE)
  have "admit_once B None None bytes nd = Some (Inr ((admitted B bytes s an, None),
      (nd_db nd)\<lparr>db_candidates := insert_new (sg_id s) bytes (db_candidates (nd_db nd))\<rparr>))"
    using s db_okD(1,2) [OF ok] an(1) st
    by (simp add: admit_once_def admit_signed_def verified_candidates_stored [OF ok] write_candidate_def admitted_def Let_def)
  then show thesis using that [OF an(1) dom] by (simp add: admit_def admit_observed_def)
qed

text \<open>
  C3: admission of an acceptable envelope always succeeds. The event is retained, nothing else in the
  database changes, and the reported status and effect are those of classifying the whole retained set
  with the event; admitting the same bytes again leaves the database as it is.
\<close>

theorem admit_retains:
  assumes "node_ok B nd" "decode (bd_crypto B) bytes = Inr s" "env_instance (envelope_of s) = nd_instance nd"
    and "distinct_ids (hash_of B) (insert (sg_id s) (fmdom' (db_candidates (nd_db nd))))"
  shows "\<exists>an nd'. analyze (hash_of B) (key_ok (bd_crypto B)) (fmupd (sg_id s) s (stored B (nd_db nd))) = Some an \<and>
    sg_id s \<in> fmdom' (an_admission an) \<and> admit B bytes nd = Some (Inr (admitted B bytes s an), nd') \<and>
    nd_db nd' = (nd_db nd)\<lparr>db_candidates := insert_new (sg_id s) bytes (db_candidates (nd_db nd))\<rparr> \<and>
    (\<exists>out nd''. admit B bytes nd' = Some (Inr out, nd'') \<and> nd_db nd'' = nd_db nd')"
proof -
  obtain an where an: "analyze (hash_of B) (key_ok (bd_crypto B)) (fmupd (sg_id s) s (stored B (nd_db nd))) = Some an"
    "sg_id s \<in> fmdom' (an_admission an)"
    "admit B bytes nd = Some (Inr (admitted B bytes s an), nd\<lparr>nd_db := (nd_db nd)\<lparr>db_candidates :=
      insert_new (sg_id s) bytes (db_candidates (nd_db nd))\<rparr>, nd_cache := map_option invalidate (nd_cache nd)\<rparr>)"
    using node_okD(1) [OF assms(1)] assms(2-4) by (rule admit_signed_total)
  let ?nd = "nd\<lparr>nd_db := (nd_db nd)\<lparr>db_candidates := insert_new (sg_id s) bytes (db_candidates (nd_db nd))\<rparr>,
    nd_cache := map_option invalidate (nd_cache nd)\<rparr>"
  have ok: "db_ok B (nd_instance ?nd) (nd_db ?nd)" using admit_ok [OF node_okD(1) [OF assms(1)] an(3)] by simp
  have "fmdom' (db_candidates (nd_db ?nd)) = insert (sg_id s) (fmdom' (db_candidates (nd_db nd)))"
    by (auto simp: insert_new_def has_iff)
  then have ids: "distinct_ids (hash_of B) (insert (sg_id s) (fmdom' (db_candidates (nd_db ?nd))))" using assms(4) by simp
  have inst: "env_instance (envelope_of s) = nd_instance ?nd" using assms(3) by simp
  obtain an2 where "admit B bytes ?nd = Some (Inr (admitted B bytes s an2), ?nd\<lparr>nd_db := (nd_db ?nd)\<lparr>db_candidates :=
      insert_new (sg_id s) bytes (db_candidates (nd_db ?nd))\<rparr>, nd_cache := map_option invalidate (nd_cache ?nd)\<rparr>)"
    using ok assms(2) inst ids by (rule admit_signed_total)
  then have "\<exists>out nd''. admit B bytes ?nd = Some (Inr out, nd'') \<and> nd_db nd'' = nd_db ?nd" by (simp add: insert_new_again)
  with an show ?thesis by (intro exI [of _ an] exI [of _ ?nd]) simp
qed

text \<open>
  Bytes that are no canonical signed event of this instance are refused with the decoder's reason and
  recorded as a rejection only; the candidates, and with them every later reading, are untouched.
\<close>

theorem admit_rejects:
  assumes "node_ok B nd" and "decode (bd_crypto B) bytes = Inl reason \<or>
    (\<exists>s. decode (bd_crypto B) bytes = Inr s \<and> env_instance (envelope_of s) \<noteq> nd_instance nd \<and> reason = ''wrong_instance'')"
  shows "\<exists>nd'. admit B bytes nd = Some (Inr \<lparr>oc_event = None, oc_input_digest = hash_of B bytes, oc_status = invalid reason,
      oc_authority = None\<rparr>, nd') \<and>
    nd_db nd' = (nd_db nd)\<lparr>db_rejections := insert_new (hash_of B bytes) reason (db_rejections (nd_db nd))\<rparr>"
proof -
  have "admit_once B None None bytes nd = Some (Inr ((\<lparr>oc_event = None, oc_input_digest = hash_of B bytes,
      oc_status = invalid reason, oc_authority = None\<rparr>, None), reject (hash_of B bytes) reason (nd_db nd)))"
    using assms(2) db_okD(1,2) [OF node_okD(1) [OF assms(1)]] by (auto simp: admit_once_def Let_def)
  then show ?thesis by (simp add: admit_def admit_observed_def reject_def)
qed

section \<open>Cached reads\<close>

text \<open>
  C7: the cache is transparent. A filled cache comes from some identity and corpus (\<open>node_ok\<close>); where SHA-256
  does not collide on the identities, the envelopes and the row digests behind the key of one such origin and the
  key that is probed, a committed read through the cache, hit or miss, returns the snapshot that the read
  without a cache returns, the fold of the retained candidates.
\<close>

theorem committed_equals_fold:
  assumes "node_ok B nd" "nd_cache nd = Some c" "fits f" "distinct_ids (hash_of B) (fmdom' (db_candidates (nd_db nd)))"
    and no_collision: "ic_entry c \<noteq> None \<Longrightarrow> \<exists>f0 cands. cached_from B (nd_instance nd) f0 cands c \<and>
      inj_on (hash_of B) (key_inputs B f0 cands \<union> key_inputs B f (stored B (nd_db nd)))"
  shows "\<exists>s nd'. snapshot_of (hash_of B) (key_ok (bd_crypto B)) (bd_json B) f (stored B (nd_db nd)) = Some s \<and>
    committed B f nd = Some (Inr s, nd') \<and> committed B f (nd\<lparr>nd_cache := None\<rparr>) = Some (Inr s, nd\<lparr>nd_cache := None\<rparr>)"
proof -
  note ok = node_okD(1) [OF assms(1)]
  have "distinct_ids (hash_of B) (fmdom' (stored B (nd_db nd)))" using assms(4) by simp
  then obtain p where "project (hash_of B) (key_ok (bd_crypto B)) (stored B (nd_db nd)) = Some p" by (rule project_cases)
  then obtain s where s: "snapshot_of (hash_of B) (key_ok (bd_crypto B)) (bd_json B) f (stored B (nd_db nd)) = Some s"
    by (auto simp: snapshot_of_Some)
  have uncached: "committed B f (nd\<lparr>nd_cache := None\<rparr>) = Some (Inr s, nd\<lparr>nd_cache := None\<rparr>)"
    by (simp add: committed_def fold_candidates_stored [OF ok] s)
  let ?key = "key_of B f (rows_of B (stored B (nd_db nd)))"
  obtain hit c' where look: "cache_look ?key c = (hit, c')" by (cases "cache_look ?key c")
  have "\<exists>nd'. committed B f nd = Some (Inr s, nd')"
  proof (cases hit)
    case None
    with look assms(2) s show ?thesis by (simp add: committed_def probe_stored [OF ok] fold_candidates_stored [OF ok])
  next
    case (Some s')
    with look have hit: "cache_look ?key c = (Some s', c')" by simp
    then have "ic_entry c \<noteq> None" using cache_look_hit by fastforce
    then obtain f0 cands where src: "cached_from B (nd_instance nd) f0 cands c"
      "inj_on (hash_of B) (key_inputs B f0 cands \<union> key_inputs B f (stored B (nd_db nd)))"
      using no_collision by blast
    have "s' = s" using cached_hit [OF src(1) ok assms(3) src(2) probe_stored [OF ok] hit] s by simp
    with hit assms(2) show ?thesis by (simp add: committed_def probe_stored [OF ok])
  qed
  with s uncached show ?thesis by blast
qed

end
