(* ===== verification/Store_Transfer.thy ===== *)
theory Store_Transfer
  imports Store_Properties
begin

text \<open>
  Rule binding, export and restore: a bound store reopens under its rule and under no other, an
  export restored into an empty store of the same rule reproduces it, a refused restore changes
  nothing, and one that the database interrupts is completed by restoring the same manifest again.
\<close>

section \<open>Readiness\<close>

lemma canonical_fold: "canonical f = canonical g \<Longrightarrow> fi_fold f = fi_fold g"
  by (cases "fi_fold f"; cases "fi_fold g") (simp add: canonical_def)

lemma fold_ref_row [simp]: "\<lparr>fr_version = rw_fold_version (row_of_rule f), fr_manifest = rw_fold_manifest (row_of_rule f)\<rparr> = fi_fold f"
  "rw_filter_identity (row_of_rule f) = canonical f"
  by (simp_all add: row_of_rule_def)

lemma rule_fold_of [simp]: "rule_fold (rule_of H f) = fi_fold f"
  by (simp add: rule_fold_def rule_of_def)

lemma ready_error_Inr: "ready_error semantic x = Inr y \<longleftrightarrow> semantic = ''ready'' \<and> y = x"
  by (auto simp: ready_error_def)

lemma semantic_state_ready:
  assumes "is_governed (hash_of B) kok f"
  shows "semantic_state B rule (Some (row_of_rule f)) = ''ready'' \<longleftrightarrow> (\<exists>g. rule = Some g \<and> canonical g = canonical f)"
  using assms by (auto simp: semantic_state_def supported_fold_def is_governed_iff row_of_rule_def fold_v1_def split: option.splits)

lemma ready_iff:
  assumes "db_ok B (nd_instance nd) (nd_db nd)"
  shows "ready B requested nd = Inr f \<longleftrightarrow> nd_rule nd = Some f \<and> (\<forall>r. requested = Some r \<longrightarrow> supported_fold (hash_of B) r \<and> r = fi_fold f) \<and>
    (\<exists>g. db_rule (nd_db nd) = Some (row_of_rule g) \<and> is_governed (hash_of B) (key_ok (bd_crypto B)) g \<and> canonical f = canonical g)"
proof -
  have rule: "\<exists>g. row = row_of_rule g \<and> is_governed (hash_of B) (key_ok (bd_crypto B)) g" if "db_rule (nd_db nd) = Some row" for row
    using assms that unfolding db_ok_def by blast
  have sem: "semantic_state B (Some f) (db_rule (nd_db nd)) = ''ready'' \<longleftrightarrow>
      (\<exists>g. db_rule (nd_db nd) = Some (row_of_rule g) \<and> is_governed (hash_of B) (key_ok (bd_crypto B)) g \<and> canonical f = canonical g)" for f
  proof (cases "db_rule (nd_db nd)")
    case None
    then show ?thesis by (simp add: semantic_state_def)
  next
    case (Some row)
    with rule obtain g where g: "row = row_of_rule g" "is_governed (hash_of B) (key_ok (bd_crypto B)) g" by blast
    have "canonical f = canonical g \<longleftrightarrow> (\<exists>h. row_of_rule g = row_of_rule h \<and> is_governed (hash_of B) (key_ok (bd_crypto B)) h \<and> canonical f = canonical h)"
      using g(2) by (auto simp: row_of_rule_def)
    then show ?thesis unfolding Some g(1) semantic_state_ready [OF g(2)] by auto
  qed
  show ?thesis
    using db_okD(1) [OF assms] sem
    by (auto simp: ready_def bound_def rbind_eq_Inr guard_eq_Inr ready_error_Inr semantic_readiness_def Let_def split: option.splits)
qed

text \<open>
  C35: a rule binding is permanent. Once a governed identity with fewer than \<open>2 ^ 32\<close> curators and bytes of policy is
  bound to a provisioned store, whatever was written before, then in every later state, whatever is written after,
  the database opens under that identity; a governed identity with other canonical bytes is refused, by \<open>bind\<close> and
  by \<open>open\<close>, with the error that names the rule.
\<close>

theorem rule_binding_permanent:
  assumes "provision B inst d = Inr nd0" "\<not> db_schema d" "(store_step B)\<^sup>*\<^sup>* nd0 nda"
    "bind_rule B f nda = (Inr nd1, d1)" "fits f" "(store_step B)\<^sup>*\<^sup>* nd1 nd2"
  shows "(\<exists>nd. open_store B inst f (nd_db nd2) = Inr nd) \<and>
    (\<forall>g. is_governed (hash_of B) (key_ok (bd_crypto B)) g \<and> canonical g \<noteq> canonical f \<longrightarrow>
      open_store B inst g (nd_db nd2) = Inl E_RuleIdentity \<and> bind_rule B g nd2 = (Inl E_RuleIdentity, nd_db nd2))"
proof -
  from provision_fresh [OF assms(1,2)] have nd0: "node_ok B nd0" "nd_instance nd0 = inst" "db_foreign (nd_db nd0) = 0"
    by (auto simp: create_schema_def)
  from store_steps_node [OF assms(3) nd0(1)] nd0 have nda: "node_ok B nda" "nd_instance nda = inst" "db_foreign (nd_db nda) = 0"
    by (auto simp: db_extends_def)
  have gov: "is_governed (hash_of B) (key_ok (bd_crypto B)) f" "supported_fold (hash_of B) (fi_fold f)"
    and d1: "d1 = record_rule f (nd_db nda)"
    and ready: "semantic_state B (Some f) (db_rule (record_rule f (nd_db nda))) = ''ready''"
    using assms(4) by (auto simp: bind_rule_def Let_def rbind_eq_Inr semantic_readiness_def guard_eq_Inr ready_error_Inr split: if_splits)
  have nd1: "nd1 = nda\<lparr>nd_db := d1, nd_rule := Some f\<rparr>" using bind_rule_node [OF assms(4)] .
  obtain r where r: "db_rule (nd_db nd1) = Some r" "rw_filter_identity r = canonical f"
    "supported_fold (hash_of B) \<lparr>fr_version = rw_fold_version r, fr_manifest = rw_fold_manifest r\<rparr>"
    using ready by (auto simp: nd1 d1 semantic_state_def split: option.splits if_splits)
  have ok1: "node_ok B nd1" using store_step_node [OF step_bind [OF assms(4,5)] nda(1)] by blast
  from store_steps_node [OF assms(6) ok1] have ok2: "node_ok B nd2" "db_extends (nd_db nd1) (nd_db nd2)" "nd_instance nd2 = inst"
    using nda(2) by (auto simp: nd1)
  have row2: "db_rule (nd_db nd2) = Some r" using ok2(2) r(1) by (simp add: db_extends_def)
  have foreign: "db_foreign (nd_db nd2) = 0"
    using ok2(2) nda(3) by (auto simp: db_extends_def nd1 d1 record_rule_def split: option.splits)
  obtain row where row: "db_schema (nd_db nd2)" "db_identity (nd_db nd2) = Some row" "\<not> identity_differs B inst row"
    using node_okD(1) [OF ok2(1)] ok2(3) unfolding db_ok_def by auto
  have state: "semantic_state B (Some g) (Some r) = (if canonical g = canonical f then ''ready'' else ''incompatible_rule_identity'')" for g
    using r(2,3) by (simp add: semantic_state_def)
  have "supported_fold (hash_of B) (fi_fold g)" if "is_governed (hash_of B) (key_ok (bd_crypto B)) g" for g
    using that by (simp add: is_governed_iff supported_fold_def)
  with row row2 foreign state gov show ?thesis
    by (auto simp: open_store_def bind_rule_def readiness_of_def semantic_readiness_def record_rule_def ready_error_def)
qed

section \<open>Admitting many envelopes\<close>

definition wire_ids :: "'sk build \<Rightarrow> byte list list \<Rightarrow> hash set" where
  "wire_ids B ws = {sg_id s | w s. w \<in> set ws \<and> decode (bd_crypto B) w = Inr s}"

definition insert_wire :: "'sk build \<Rightarrow> byte list \<Rightarrow> (hash, byte list) fmap \<Rightarrow> (hash, byte list) fmap" where
  "insert_wire B w = insert_new (sg_id (projr (decode (bd_crypto B) w))) w"

lemma insert_wire_decoded: "decode (bd_crypto B) w = Inr s \<Longrightarrow> insert_wire B w m = insert_new (sg_id s) w m"
  by (simp add: insert_wire_def)

lemma admit_all_total:
  assumes "db_ok B (nd_instance nd) (nd_db nd)" "distinct_ids (hash_of B) (fmdom' (db_candidates (nd_db nd)) \<union> wire_ids B ws)"
    and "\<And>w. w \<in> set ws \<Longrightarrow> \<exists>s. decode (bd_crypto B) w = Inr s \<and> env_instance (envelope_of s) = nd_instance nd"
  shows "\<exists>outs nd'. admit_all B ws nd = Some (Inr outs, nd') \<and> length outs = length ws \<and> nd_rule nd' = nd_rule nd \<and>
    nd_instance nd' = nd_instance nd \<and> nd_db nd' = (nd_db nd)\<lparr>db_candidates := fold (insert_wire B) ws (db_candidates (nd_db nd))\<rparr>"
  using assms
proof (induction ws arbitrary: nd)
  case (Cons w ws)
  from Cons.prems(3) obtain s where s: "decode (bd_crypto B) w = Inr s" "env_instance (envelope_of s) = nd_instance nd"
    by (metis list.set_intros(1))
  have "wire_ids B (w # ws) = insert (sg_id s) (wire_ids B ws)" using s(1) by (auto simp: wire_ids_def)
  then have ids: "distinct_ids (hash_of B) (insert (sg_id s) (fmdom' (db_candidates (nd_db nd))))"
    "distinct_ids (hash_of B) (insert (sg_id s) (fmdom' (db_candidates (nd_db nd))) \<union> wire_ids B ws)"
    using Cons.prems(2) by (auto elim: distinct_ids_mono)
  let ?nd = "nd\<lparr>nd_db := (nd_db nd)\<lparr>db_candidates := insert_new (sg_id s) w (db_candidates (nd_db nd))\<rparr>,
    nd_cache := map_option invalidate (nd_cache nd)\<rparr>"
  obtain out where run: "admit B w nd = Some (Inr out, ?nd)"
    using Cons.prems(1) s ids(1) by (rule admit_signed_total)
  have "db_ok B (nd_instance ?nd) (nd_db ?nd)" using admit_ok [OF Cons.prems(1) run] by simp
  moreover have "fmdom' (db_candidates (nd_db ?nd)) = insert (sg_id s) (fmdom' (db_candidates (nd_db nd)))"
    by (auto simp: insert_new_def has_iff)
  then have "distinct_ids (hash_of B) (fmdom' (db_candidates (nd_db ?nd)) \<union> wire_ids B ws)" using ids(2) by simp
  moreover have "\<exists>s. decode (bd_crypto B) w = Inr s \<and> env_instance (envelope_of s) = nd_instance ?nd" if "w \<in> set ws" for w
    using Cons.prems(3) that by simp
  ultimately obtain outs nd' where "admit_all B ws ?nd = Some (Inr outs, nd')" "length outs = length ws" "nd_rule nd' = nd_rule ?nd"
    "nd_instance nd' = nd_instance ?nd" "nd_db nd' = (nd_db ?nd)\<lparr>db_candidates := fold (insert_wire B) ws (db_candidates (nd_db ?nd))\<rparr>"
    using Cons.IH [of ?nd] by blast
  with run s(1) show ?case by (intro exI [of _ "out # outs"] exI [of _ nd']) (simp add: insert_wire_decoded)
qed simp

section \<open>Export and restore\<close>

lemma fold_result_ids:
  assumes "fold_result (read_envelope B inst) ws m = Inr cands" "w \<in> set ws"
  shows "\<exists>s. decode (bd_crypto B) w = Inr s \<and> env_instance (envelope_of s) = inst"
  using assms
  by (induction ws arbitrary: m) (auto simp: rbind_eq_Inr read_envelope_def guard_eq_Inr split: sum.splits)

lemma restore_checks_Inr:
  assumes "restore_checks B m nd = Inr (f, cands)"
  shows "ready B (Some (rule_fold (em_rule m))) nd = Inr f" "em_rule m = rule_of (hash_of B) f" "em_encoding m = CANON_VERSION"
    "fold_result (read_envelope B (nd_instance nd)) (em_envelopes m) fmempty = Inr cands"
  using assms by (auto simp: restore_checks_def guard_eq_Inr rbind_eq_Inr)

lemma read_domain:
  "fold_result (read_envelope B inst) ws m = Inr cands \<Longrightarrow> fmdom' cands = fmdom' m \<union> wire_ids B ws"
proof (induction ws arbitrary: m)
  case (Cons w ws)
  then obtain m' where "read_envelope B inst w m = Inr m'" "fold_result (read_envelope B inst) ws m' = Inr cands"
    by (auto simp: rbind_eq_Inr)
  moreover from this(1) obtain s where "decode (bd_crypto B) w = Inr s" "m' = fmupd (sg_id s) s m"
    by (auto simp: read_envelope_def guard_eq_Inr split: sum.splits)
  ultimately have "decode (bd_crypto B) w = Inr s" "fold_result (read_envelope B inst) ws (fmupd (sg_id s) s m) = Inr cands"
    by simp_all
  with Cons.IH [of "fmupd (sg_id s) s m"] show ?case by (auto simp: wire_ids_def)
qed (simp add: wire_ids_def)

text \<open>Admitting a prefix again changes nothing: the first envelope with an id stays.\<close>

lemma insert_wires_lookup:
  "fmlookup (fold (insert_wire B) ws m) i = (case fmlookup m i of Some v \<Rightarrow> Some v
     | None \<Rightarrow> List.find (\<lambda>w. sg_id (projr (decode (bd_crypto B) w)) = i) ws)"
  by (induction ws arbitrary: m) (auto simp: insert_wire_def insert_new_def has_def split: option.splits)

lemma find_prefix: "List.find P (take k xs) = Some x \<Longrightarrow> List.find P xs = Some x"
  by (induction xs arbitrary: k) (auto simp: take_Cons split: if_splits nat.splits)

lemma insert_wires_again: "fold (insert_wire B) ws (fold (insert_wire B) (take k ws) m) = fold (insert_wire B) ws m"
  by (rule fmap_ext) (auto simp: insert_wires_lookup dest: find_prefix split: option.splits)

lemma insert_wires_domain:
  assumes "\<And>w. w \<in> set ws \<Longrightarrow> \<exists>s. decode (bd_crypto B) w = Inr s"
  shows "fmdom' (fold (insert_wire B) ws m) = fmdom' m \<union> wire_ids B ws"
  using assms
proof (induction ws arbitrary: m)
  case (Cons w ws)
  from Cons.prems obtain s where "decode (bd_crypto B) w = Inr s" by auto
  with Cons.IH [of "insert_wire B w m"] Cons.prems show ?case
    by (auto simp: insert_wire_decoded wire_ids_def insert_new_def has_iff)
qed (simp add: wire_ids_def)

lemma wire_ids_prefix: "wire_ids B (take k ws) \<subseteq> wire_ids B ws"
  by (auto simp: wire_ids_def dest: in_set_takeD)

lemma map_sum_eq_Inr: "map_sum f g x = Inr z \<longleftrightarrow> (\<exists>y. x = Inr y \<and> z = g y)"
  by (cases x) auto

lemma admit_until_prefix:
  "admit_all B (take k ws) nd = Some (Inr outs, nd') \<Longrightarrow> k < length ws \<Longrightarrow> admit_until B k ws nd = Some (Inl E_Database, nd')"
proof (induction k ws nd arbitrary: outs rule: admit_until.induct)
  case (3 B k bytes rest nd)
  from "3.prems"(1) obtain r nd1 where one: "admit B bytes nd = Some (r, nd1)" by (auto simp: bind_eq_Some_conv)
  with "3.prems"(1) obtain out where r: "r = Inr out" by (cases r) auto
  with one "3.prems"(1) obtain outs' where "admit_all B (take k rest) nd1 = Some (Inr outs', nd')" by (auto simp: map_sum_eq_Inr)
  with one r 3 show ?case by simp
qed simp_all

lemma ready_same:
  assumes "ready B requested nd = Inr f" "db_ok B (nd_instance nd) (nd_db nd)" "db_ok B (nd_instance nd') (nd_db nd')"
    "nd_rule nd' = nd_rule nd" "db_rule (nd_db nd') = db_rule (nd_db nd)"
  shows "ready B requested nd' = Inr f"
  using assms(1,4,5) unfolding ready_iff [OF assms(2)] ready_iff [OF assms(3)] by simp

lemma restore_checks_same:
  assumes "restore_checks B m nd = Inr (f, cands)" "db_ok B (nd_instance nd) (nd_db nd)" "db_ok B (nd_instance nd') (nd_db nd')"
    "nd_rule nd' = nd_rule nd" "db_rule (nd_db nd') = db_rule (nd_db nd)" "nd_instance nd' = nd_instance nd"
  shows "restore_checks B m nd' = Inr (f, cands)"
  using assms(1,6) ready_same [OF restore_checks_Inr(1) [OF assms(1)] assms(2-5)]
  by (auto simp: restore_checks_def guard_eq_Inr rbind_eq_Inr)

text \<open>A restore that stops after \<open>k\<close> envelopes, and the one that completes it.\<close>

lemma restore_interrupted:
  assumes ok: "db_ok B (nd_instance nd) (nd_db nd)"
    and ids: "distinct_ids (hash_of B) (fmdom' (db_candidates (nd_db nd)) \<union> wire_ids B (em_envelopes m))"
    and checks: "restore_checks B m nd = Inr (f, cands)"
    and s: "snapshot_of (hash_of B) (key_ok (bd_crypto B)) (bd_json B) f cands = Some s"
      "sn_corpus_digest s = em_corpus_digest m" "sn_commitment s = em_commitment m"
    and k: "k < length (em_envelopes m)"
  shows "\<exists>ndk outs nd'. restore_until B k m nd = Some (Inl E_Database, ndk) \<and>
    nd_db ndk = (nd_db nd)\<lparr>db_candidates := fold (insert_wire B) (take k (em_envelopes m)) (db_candidates (nd_db nd))\<rparr> \<and>
    restore_export B m ndk = Some (Inr outs, nd') \<and>
    nd_db nd' = (nd_db nd)\<lparr>db_candidates := fold (insert_wire B) (em_envelopes m) (db_candidates (nd_db nd))\<rparr>"
proof -
  let ?ws = "em_envelopes m" and ?c = "db_candidates (nd_db nd)"
  note read = fold_result_ids [OF restore_checks_Inr(4) [OF checks]]
  have "distinct_ids (hash_of B) (fmdom' ?c \<union> wire_ids B (take k ?ws))"
    by (rule distinct_ids_mono [OF ids]) (use wire_ids_prefix [of B k ?ws] in auto)
  moreover have "\<exists>s. decode (bd_crypto B) w = Inr s \<and> env_instance (envelope_of s) = nd_instance nd" if "w \<in> set (take k ?ws)" for w
    using read [OF in_set_takeD [OF that]] .
  ultimately obtain outs' ndk where
    ndk: "admit_all B (take k ?ws) nd = Some (Inr outs', ndk)" "nd_rule ndk = nd_rule nd" "nd_instance ndk = nd_instance nd"
      "nd_db ndk = (nd_db nd)\<lparr>db_candidates := fold (insert_wire B) (take k ?ws) ?c\<rparr>"
    using admit_all_total [OF ok, of "take k ?ws"] by blast
  have okk: "db_ok B (nd_instance ndk) (nd_db ndk)" using admit_all_ok [OF ndk(1) ok] ndk(3) by simp
  have "restore_until B k m nd = Some (Inl E_Database, ndk)"
    using checks s admit_until_prefix [OF ndk(1) k] by (simp add: restore_until_def)
  moreover have "restore_checks B m ndk = Inr (f, cands)"
    by (rule restore_checks_same [OF checks ok okk]) (simp_all add: ndk)
  then have "restore_export B m ndk = admit_all B ?ws ndk" using s by (simp add: restore_export_def)
  moreover have "fmdom' (db_candidates (nd_db ndk)) = fmdom' ?c \<union> wire_ids B (take k ?ws)"
    unfolding ndk(4) using read by (simp, intro insert_wires_domain) (meson in_set_takeD)
  then have "distinct_ids (hash_of B) (fmdom' (db_candidates (nd_db ndk)) \<union> wire_ids B ?ws)"
    by (intro distinct_ids_mono [OF ids]) (use wire_ids_prefix [of B k ?ws] in auto)
  from admit_all_total [OF okk this] read ndk(3) obtain outs nd' where
    "admit_all B ?ws ndk = Some (Inr outs, nd')"
    "nd_db nd' = (nd_db ndk)\<lparr>db_candidates := fold (insert_wire B) ?ws (db_candidates (nd_db ndk))\<rparr>" by metis
  ultimately show ?thesis using ndk(4) by (intro exI [of _ ndk]) (simp add: insert_wires_again)
qed

text \<open>
  C34: a restore writes nothing unless the manifest's root verifies, and one that the database interrupts is
  completed by restoring the manifest again. A restore returns. If it is refused the store is as it was, and no
  failure of the database comes into it. If it succeeds, the fold of the envelopes under the bound rule has the
  corpus digest and the commitment of the manifest, and the envelopes are added to the candidates, the first with
  an id. Should the transaction of an envelope fail after \<open>k\<close> of them, the error is returned with exactly the first
  \<open>k\<close> added: a restore is not all or nothing. Restoring the manifest from that state succeeds and ends in the same
  database.
\<close>

theorem restore_resumes:
  assumes "node_ok B nd" "distinct_ids (hash_of B) (fmdom' (db_candidates (nd_db nd)) \<union> wire_ids B (em_envelopes m))"
  shows "\<exists>r nd'. restore_export B m nd = Some (r, nd') \<and> (case r of
      Inl e \<Rightarrow> nd' = nd \<and> (\<forall>k. restore_until B k m nd = Some (Inl e, nd))
    | Inr outs \<Rightarrow> length outs = length (em_envelopes m) \<and>
        (\<exists>f cands s. nd_rule nd = Some f \<and> em_rule m = rule_of (hash_of B) f \<and>
          fold_result (read_envelope B (nd_instance nd)) (em_envelopes m) fmempty = Inr cands \<and>
          snapshot_of (hash_of B) (key_ok (bd_crypto B)) (bd_json B) f cands = Some s \<and>
          sn_corpus_digest s = em_corpus_digest m \<and> sn_commitment s = em_commitment m) \<and>
        nd_db nd' = (nd_db nd)\<lparr>db_candidates := fold (insert_wire B) (em_envelopes m) (db_candidates (nd_db nd))\<rparr> \<and>
        (\<forall>k < length (em_envelopes m). \<exists>ndk outs' nd''. restore_until B k m nd = Some (Inl E_Database, ndk) \<and>
          nd_db ndk = (nd_db nd)\<lparr>db_candidates := fold (insert_wire B) (take k (em_envelopes m)) (db_candidates (nd_db nd))\<rparr> \<and>
          restore_export B m ndk = Some (Inr outs', nd'') \<and> nd_db nd'' = nd_db nd'))"
proof (cases "restore_checks B m nd")
  case (Inl e)
  then show ?thesis by (simp add: restore_export_def restore_until_def)
next
  case (Inr fc)
  obtain f cands where checks: "restore_checks B m nd = Inr (f, cands)" using Inr by (cases fc) auto
  note ok = node_okD(1) [OF assms(1)] and D = restore_checks_Inr [OF checks]
  let ?ws = "em_envelopes m" and ?c = "db_candidates (nd_db nd)"
  have "fmdom' cands = wire_ids B ?ws" using read_domain [OF D(4)] by simp
  then have "distinct_ids (hash_of B) (fmdom' cands)" using distinct_ids_mono [OF assms(2)] by simp
  then obtain p where "project (hash_of B) (key_ok (bd_crypto B)) cands = Some p" by (rule project_cases)
  then obtain s where s: "snapshot_of (hash_of B) (key_ok (bd_crypto B)) (bd_json B) f cands = Some s" by (auto simp: snapshot_of_Some)
  show ?thesis
  proof (cases "sn_corpus_digest s = em_corpus_digest m \<and> sn_commitment s = em_commitment m")
    case False
    with checks s show ?thesis by (auto simp: restore_export_def restore_until_def)
  next
    case True
    have run: "restore_export B m nd = admit_all B ?ws nd" using checks s True by (simp add: restore_export_def)
    obtain outs nd' where nd': "admit_all B ?ws nd = Some (Inr outs, nd')" "length outs = length ?ws"
      "nd_db nd' = (nd_db nd)\<lparr>db_candidates := fold (insert_wire B) ?ws ?c\<rparr>"
      using admit_all_total [OF ok assms(2) fold_result_ids [OF D(4)]] by blast
    note resume = restore_interrupted [OF ok assms(2) checks s conjunct1 [OF True] conjunct2 [OF True]]
    have "nd_rule nd = Some f" using D(1) unfolding ready_iff [OF ok] by blast
    then show ?thesis using run nd' D s True resume
      by (intro exI [of _ "Inr outs"] exI [of _ nd']) auto
  qed
qed

lemma fold_result_update:
  assumes "\<And>x m. x \<in> set xs \<Longrightarrow> f x m = Inr (fmupd (k x) (v x) m)"
  shows "fold_result f xs m = Inr (fold (\<lambda>x. fmupd (k x) (v x)) xs m)"
  using assms by (induction xs arbitrary: m) auto

lemma fold_result_map: "fold_result f (map g xs) m = fold_result (\<lambda>x. f (g x)) xs m"
  by (induction xs arbitrary: m) (simp_all add: rbind_def split: sum.splits)

lemma fold_fmupd_keys: "fold (\<lambda>k. fmupd k (the (fmlookup m k))) (keys m) fmempty = m"
proof (rule fmap_ext)
  fix x
  have "fmlookup (fold (\<lambda>k. fmupd k (the (fmlookup m k))) ks m0) x = (if x \<in> set ks then Some (the (fmlookup m x)) else fmlookup m0 x)" for ks m0
    by (induction ks arbitrary: m0) auto
  then show "fmlookup (fold (\<lambda>k. fmupd k (the (fmlookup m k))) (keys m) fmempty) x = fmlookup m x"
    by (cases "fmlookup m x") (auto simp: fmlookup_dom'_iff)
qed

definition wires :: "db \<Rightarrow> byte list list" where
  "wires d = map snd (entries (db_candidates d))"

lemma wires_row:
  assumes "db_ok B inst d" "k \<in> set (keys (db_candidates d))"
  obtains s where "decode (bd_crypto B) (the (fmlookup (db_candidates d) k)) = Inr s" "env_instance (envelope_of s) = inst"
    "sg_id s = k" "fmlookup (stored B d) k = Some s"
proof -
  from assms(2) obtain w where w: "fmlookup (db_candidates d) k = Some w" by (auto elim: in_domE)
  from db_okD(3) [OF assms(1) w] obtain s where "decode (bd_crypto B) w = Inr s" "env_instance (envelope_of s) = inst" "sg_id s = k"
    unfolding candidate_ok_def by blast
  with w that [of s] show thesis by (simp add: stored_def)
qed

lemma stored_wires:
  assumes "db_ok B inst d"
  shows "map (\<lambda>(_, e). sg_bytes e) (entries (stored B d)) = wires d"
proof -
  have "keys (stored B d) = keys (db_candidates d)" by (simp add: keys_def stored_def)
  moreover have "sg_bytes (the (fmlookup (stored B d) k)) = the (fmlookup (db_candidates d) k)" if "k \<in> set (keys (db_candidates d))" for k
    by (rule wires_row [OF assms that]) (simp add: decode_bytes)
  ultimately show ?thesis by (simp add: wires_def entries_def)
qed

lemma read_wires:
  assumes "db_ok B inst d"
  shows "fold_result (read_envelope B inst) (wires d) fmempty = Inr (stored B d)"
proof -
  let ?w = "\<lambda>k. the (fmlookup (db_candidates d) k)"
  have "read_envelope B inst (?w k) m = Inr (fmupd k (the (fmlookup (stored B d) k)) m)" if "k \<in> set (keys (db_candidates d))" for k m
    by (rule wires_row [OF assms that]) (simp add: read_envelope_def)
  then have "fold_result (\<lambda>k. read_envelope B inst (?w k)) (keys (db_candidates d)) fmempty =
      Inr (fold (\<lambda>k. fmupd k (the (fmlookup (stored B d) k))) (keys (db_candidates d)) fmempty)" by (rule fold_result_update)
  moreover have "keys (db_candidates d) = keys (stored B d)" by (simp add: keys_def stored_def)
  ultimately show ?thesis by (simp add: wires_def entries_def comp_def fold_fmupd_keys fold_result_map)
qed

lemma insert_wires:
  assumes "db_ok B inst d"
  shows "fold (insert_wire B) (wires d) fmempty = db_candidates d"
proof -
  let ?w = "\<lambda>k. the (fmlookup (db_candidates d) k)"
  have step: "insert_wire B (?w k) m = insert_new k (?w k) m" if "k \<in> set (keys (db_candidates d))" for k m
    by (rule wires_row [OF assms that]) (simp add: insert_wire_def)
  have "fold (\<lambda>k. insert_wire B (?w k)) ks m0 = fold (\<lambda>k. fmupd k (?w k)) ks m0"
    if "distinct ks" "set ks \<subseteq> set (keys (db_candidates d))" "\<forall>k\<in>set ks. \<not> has m0 k" for ks m0
    using that
  proof (induction ks arbitrary: m0)
    case (Cons k ks)
    then have "\<forall>j\<in>set ks. \<not> has (fmupd k (?w k) m0) j" by auto
    from Cons.IH [OF _ _ this] Cons.prems show ?case by (simp add: step insert_new_def)
  qed simp
  from this [of "keys (db_candidates d)" fmempty] show ?thesis by (simp add: wires_def entries_def fold_map comp_def fold_fmupd_keys)
qed

text \<open>What a ready store exports, and what admitting an export into an empty store leaves there.\<close>

definition manifest_of :: "db \<Rightarrow> snapshot \<Rightarrow> export_manifest" where
  "manifest_of d s = \<lparr>em_encoding = CANON_VERSION, em_rule = sn_rule s, em_corpus_digest = sn_corpus_digest s,
    em_commitment = sn_commitment s, em_envelopes = wires d\<rparr>"

lemma export_ready:
  assumes "db_ok B (nd_instance nd) (nd_db nd)" "ready B None nd = Inr f"
    "snapshot_of (hash_of B) (key_ok (bd_crypto B)) (bd_json B) f (stored B (nd_db nd)) = Some s"
  shows "export B None nd = Some (Inr (manifest_of (nd_db nd) s))"
  using assms by (simp add: export_def fold_candidates_stored stored_wires [OF assms(1)] manifest_of_def)

lemma ready_fold:
  assumes "db_ok B (nd_instance nd) (nd_db nd)" "ready B None nd = Inr f"
  shows "supported_fold (hash_of B) (fi_fold f)" "ready B (Some (fi_fold f)) nd = Inr f"
proof -
  from assms(2) obtain g where g: "is_governed (hash_of B) (key_ok (bd_crypto B)) g" "canonical f = canonical g"
    unfolding ready_iff [OF assms(1)] by blast
  show "supported_fold (hash_of B) (fi_fold f)"
    unfolding canonical_fold [OF g(2)] supported_fold_def using g(1) by (simp add: is_governed_iff)
  with assms(2) show "ready B (Some (fi_fold f)) nd = Inr f" unfolding ready_iff [OF assms(1)] by simp
qed

lemma admit_wires:
  assumes "db_ok B (nd_instance a) (nd_db a)" "db_ok B (nd_instance b) (nd_db b)" "nd_instance b = nd_instance a"
    "db_candidates (nd_db b) = fmempty" "distinct_ids (hash_of B) (fmdom' (db_candidates (nd_db a)))"
  shows "\<exists>outs b'. admit_all B (wires (nd_db a)) b = Some (Inr outs, b') \<and> nd_rule b' = nd_rule b \<and>
    nd_instance b' = nd_instance b \<and> nd_db b' = (nd_db b)\<lparr>db_candidates := db_candidates (nd_db a)\<rparr>"
proof -
  let ?d = "nd_db a"
  have decoded: "\<exists>s. decode (bd_crypto B) w = Inr s \<and> env_instance (envelope_of s) = nd_instance b \<and> sg_id s \<in> fmdom' (db_candidates ?d)"
    if "w \<in> set (wires ?d)" for w
  proof -
    from that obtain k where k: "k \<in> set (keys (db_candidates ?d))" "w = the (fmlookup (db_candidates ?d) k)"
      by (auto simp: wires_def entries_def)
    show ?thesis by (rule wires_row [OF assms(1) k(1)]) (use k assms(3) in simp)
  qed
  then have "wire_ids B (wires ?d) \<subseteq> fmdom' (db_candidates ?d)" by (fastforce simp: wire_ids_def)
  then have ids: "distinct_ids (hash_of B) (fmdom' (db_candidates (nd_db b)) \<union> wire_ids B (wires ?d))"
    using distinct_ids_mono [OF assms(5)] by (simp add: assms(4))
  have "\<exists>s. decode (bd_crypto B) w = Inr s \<and> env_instance (envelope_of s) = nd_instance b" if "w \<in> set (wires ?d)" for w
    using decoded [OF that] by blast
  from admit_all_total [OF assms(2) ids this] show ?thesis unfolding assms(4) insert_wires [OF assms(1)] by blast
qed

text \<open>
  C8: an export restores. A ready store exports; its manifest, restored into an empty store of the same
  instance and rule, is accepted and admits every envelope, and the restored store holds the same
  candidates byte for byte and exports the same manifest.
\<close>

theorem export_restore_roundtrip:
  assumes "node_ok B a" "node_ok B b" "nd_instance b = nd_instance a" "ready B None a = Inr f" "ready B None b = Inr f"
    "db_candidates (nd_db b) = fmempty" "distinct_ids (hash_of B) (fmdom' (db_candidates (nd_db a)))"
  shows "\<exists>m outs b'. export B None a = Some (Inr m) \<and> restore_export B m b = Some (Inr outs, b') \<and>
    db_candidates (nd_db b') = db_candidates (nd_db a) \<and> export B None b' = Some (Inr m)"
proof -
  let ?H = "hash_of B"
  note oka = node_okD(1) [OF assms(1)] and okb = node_okD(1) [OF assms(2)]
  have "distinct_ids ?H (fmdom' (stored B (nd_db a)))" using assms(7) by simp
  then obtain p where "project ?H (key_ok (bd_crypto B)) (stored B (nd_db a)) = Some p" by (rule project_cases)
  then obtain s where s: "snapshot_of ?H (key_ok (bd_crypto B)) (bd_json B) f (stored B (nd_db a)) = Some s" "sn_rule s = rule_of ?H f"
    by (auto simp: snapshot_of_Some)
  let ?m = "manifest_of (nd_db a) s"
  have checks: "restore_checks B ?m b = Inr (f, stored B (nd_db a))"
    using ready_fold [OF okb assms(5)] assms(3) read_wires [OF oka] by (simp add: restore_checks_def manifest_of_def s(2))
  obtain outs b' where b': "admit_all B (wires (nd_db a)) b = Some (Inr outs, b')" "nd_rule b' = nd_rule b"
    "nd_instance b' = nd_instance b" "nd_db b' = (nd_db b)\<lparr>db_candidates := db_candidates (nd_db a)\<rparr>"
    using admit_wires [OF oka okb assms(3,6,7)] by blast
  have ok': "db_ok B (nd_instance b') (nd_db b')" using admit_all_ok [OF b'(1) okb] b'(3) by simp
  have same: "stored B (nd_db b') = stored B (nd_db a)" "manifest_of (nd_db b') s = ?m"
    using b'(4) by (simp_all add: stored_def manifest_of_def wires_def)
  have "ready B None b' = Inr f" using assms(5) b'(2,4) unfolding ready_iff [OF okb] ready_iff [OF ok'] by simp
  from export_ready [OF ok' this, of s] have "export B None b' = Some (Inr ?m)" using s(1) by (simp only: same)
  moreover have "export B None a = Some (Inr ?m)" using oka assms(4) s(1) by (rule export_ready)
  moreover have "restore_export B ?m b = Some (Inr outs, b')" using checks s(1) b'(1) by (simp add: restore_export_def manifest_of_def)
  ultimately show ?thesis using b'(4) by auto
qed

end
