(* ===== verification/Store_Samples.thy ===== *)
theory Store_Samples
  imports Store_Transfer
begin

text \<open>
  A sample store, provisioned, bound to a rule and given one event, at which the properties of
  the store are applied.
\<close>

definition sample_build :: "hash build" where
  "sample_build = \<lparr>bd_crypto = sample_crypto, bd_schema = [], bd_json = (\<lambda>_. [])\<rparr>"

definition empty_db :: db where
  "empty_db = \<lparr>db_foreign = 0, db_relations = 0, db_schema = False, db_identity = None, db_candidates = fmempty,
     db_rejections = fmempty, db_receipts = fmempty, db_bodies = fmempty, db_rule = None\<rparr>"

definition sample_rule :: filter_identity where
  "sample_rule = sample_filter (sha256 sample_crypto) 3"

definition fresh_node :: node where
  "fresh_node = \<lparr>nd_db = create_schema sample_build 9 empty_db, nd_instance = 9, nd_rule = None, nd_cache = Some inner_default\<rparr>"

definition bound_node :: node where
  "bound_node = fresh_node\<lparr>nd_db := record_rule sample_rule (nd_db fresh_node), nd_rule := Some sample_rule\<rparr>"

lemma sample_build_simps [simp]: "bd_crypto sample_build = sample_crypto" "bd_json sample_build = (\<lambda>_. [])"
  "hash_of sample_build = sha256 sample_crypto" "key_ok sample_crypto = (\<lambda>_. True)"
  by (simp_all add: sample_build_def hash_of_def sample_crypto_def)

lemma sample_rule_governed: "is_governed (sha256 sample_crypto) (\<lambda>_. True) sample_rule" "fits sample_rule"
  "supported_fold (sha256 sample_crypto) (fi_fold sample_rule)"
  by (simp_all add: sample_rule_def sample_filter_governed) (simp_all add: sample_filter_def fits_def supported_fold_def TRUST_POLICY_def)

lemma fresh_provision: "provision sample_build 9 empty_db = Inr fresh_node"
  by (simp add: provision_def fresh_node_def create_schema_def empty_db_def identity_differs_def guard_def rbind_def)

lemma fresh_ok: "node_ok sample_build fresh_node"
  using provision_fresh [OF fresh_provision] by (simp add: empty_db_def)

lemma fresh_bind: "bind_rule sample_build sample_rule fresh_node = (Inr bound_node, nd_db bound_node)"
  using sample_rule_governed semantic_state_ready [of sample_build _ sample_rule "Some sample_rule"]
  by (simp add: bind_rule_def bound_node_def fresh_node_def create_schema_def record_rule_def empty_db_def semantic_readiness_def
      row_of_rule_def ready_error_def guard_def rbind_def Let_def)

lemma bound_ok: "node_ok sample_build bound_node" "store_step sample_build fresh_node bound_node"
  using step_bind [OF fresh_bind sample_rule_governed(2)] store_step_node [OF _ fresh_ok] by auto

lemma sample_wire_decode: "decode (bd_crypto sample_build) (sample_wire 4) = Inr (sample_signed 4)" "sg_id (sample_signed 4) = 5"
  "env_instance (envelope_of (sample_signed 4)) = 9"
  by (simp_all add: sample_decode sample_signed_def sample_genesis_def)

lemma sample_store_distinct: "distinct_ids (sha256 sample_crypto) {5}" "distinct_ids (sha256 sample_crypto) {}"
  by (simp_all add: distinct_ids_def root_grant_def domain_hash_def hash_bytes_def from_to_be_bytes)

lemma node_tables [simp]: "nd_instance bound_node = 9" "db_candidates (nd_db bound_node) = fmempty" "nd_instance fresh_node = 9"
  "db_candidates (nd_db fresh_node) = fmempty" "nd_cache bound_node = Some inner_default" "nd_cache fresh_node = Some inner_default"
  "nd_rule bound_node = Some sample_rule" "db_rejections (nd_db bound_node) = fmempty"
  by (simp_all add: bound_node_def fresh_node_def create_schema_def record_rule_def)

text \<open>The bound store with the sample event admitted.\<close>

lemma loaded_node:
  obtains out nd where "admit_observed sample_build None None (sample_wire 4) bound_node = Some (Inr out, nd)"
    "node_ok sample_build nd" "store_step sample_build bound_node nd" "nd_instance nd = 9" "nd_rule nd = Some sample_rule"
    "nd_cache nd = Some (invalidate inner_default)" "nd_db nd = (nd_db bound_node)\<lparr>db_candidates := fmupd 5 (sample_wire 4) fmempty\<rparr>"
proof -
  obtain an where "admit sample_build (sample_wire 4) bound_node = Some (Inr (admitted sample_build (sample_wire 4) (sample_signed 4) an),
      bound_node\<lparr>nd_db := (nd_db bound_node)\<lparr>db_candidates := insert_new 5 (sample_wire 4) fmempty\<rparr>, nd_cache := map_option invalidate (nd_cache bound_node)\<rparr>)"
    using admit_signed_total [OF node_okD(1) [OF bound_ok(1)], of "sample_wire 4" "sample_signed 4"] sample_wire_decode sample_store_distinct
    by auto
  then obtain r nd where run: "admit_observed sample_build None None (sample_wire 4) bound_node = Some (Inr r, nd)"
    "nd = bound_node\<lparr>nd_db := (nd_db bound_node)\<lparr>db_candidates := insert_new 5 (sample_wire 4) fmempty\<rparr>, nd_cache := map_option invalidate (nd_cache bound_node)\<rparr>"
    by (auto simp: admit_def map_sum_eq_Inr)
  moreover have "store_step sample_build bound_node nd" using run(1) by (rule step_admit)
  moreover from store_step_node [OF this bound_ok(1)] have "node_ok sample_build nd" by blast
  ultimately show thesis using that by (simp add: insert_new_def)
qed

section \<open>The properties at the sample store\<close>

lemma bound_ready: "ready sample_build None bound_node = Inr sample_rule" "ready sample_build (Some (fi_fold sample_rule)) bound_node = Inr sample_rule"
  using sample_rule_governed unfolding ready_iff [OF node_okD(1) [OF bound_ok(1)]]
  by (auto simp: bound_node_def fresh_node_def create_schema_def record_rule_def row_of_rule_def)

theorem store_invariant_witness:
  "\<exists>nd. (store_step sample_build)\<^sup>*\<^sup>* bound_node nd \<and> db_candidates (nd_db nd) = fmupd 5 (sample_wire 4) fmempty \<and> node_ok sample_build bound_node \<and>
     verified_candidates sample_build 9 (nd_db bound_node) = Inr (stored sample_build (nd_db bound_node)) \<and> db_extends (nd_db bound_node) (nd_db nd)"
proof -
  obtain out nd where nd: "admit_observed sample_build None None (sample_wire 4) bound_node = Some (Inr out, nd)"
    "store_step sample_build bound_node nd" "nd_db nd = (nd_db bound_node)\<lparr>db_candidates := fmupd 5 (sample_wire 4) fmempty\<rparr>"
    by (rule loaded_node)
  have "\<not> db_schema empty_db" by (simp add: empty_db_def)
  from store_invariant [OF fresh_provision this r_into_rtranclp r_into_rtranclp, OF bound_ok(2) nd(2)] nd show ?thesis
    by (intro exI [of _ nd]) auto
qed

theorem admit_retains_witness:
  "\<exists>an nd'. analyze (sha256 sample_crypto) (\<lambda>_. True) (fmupd 5 (sample_signed 4) (stored sample_build (nd_db bound_node))) = Some an \<and>
     5 \<in> fmdom' (an_admission an) \<and> admit sample_build (sample_wire 4) bound_node =
       Some (Inr (admitted sample_build (sample_wire 4) (sample_signed 4) an), nd') \<and>
     db_candidates (nd_db nd') = fmupd 5 (sample_wire 4) fmempty"
proof -
  have "insert_new (sg_id (sample_signed 4)) (sample_wire 4) fmempty = fmupd 5 (sample_wire 4) fmempty"
    by (simp add: insert_new_def sample_wire_decode)
  with admit_retains [OF bound_ok(1) sample_wire_decode(1)] sample_wire_decode(2,3) sample_store_distinct show ?thesis by auto
qed

lemma empty_input_decode: "decode sample_crypto [] = Inl ''truncated''"
  by (simp add: decode_def)

theorem admit_rejects_witness:
  "\<exists>nd'. admit sample_build [] bound_node = Some (Inr \<lparr>oc_event = None, oc_input_digest = 1, oc_status = invalid ''truncated'', oc_authority = None\<rparr>, nd') \<and>
    nd_db nd' = (nd_db bound_node)\<lparr>db_rejections := fmupd 1 ''truncated'' fmempty\<rparr>"
  using admit_rejects [OF bound_ok(1), of "[]" "''truncated''"] empty_input_decode by (simp add: insert_new_def from_be_bytes_def)

text \<open>A cache that a first read has filled, and the hit of a second.\<close>

lemma sample_rule_digest: "sha256 sample_crypto (canonical sample_rule) \<notin> {1, 2}"
proof -
  let ?t = "as_bytes (drop 5 TRUST_POLICY) @ to_be_bytes 2 (3 :: u16)"
  have "\<exists>pre. canonical sample_rule = pre @ ?t"
    by (simp add: canonical_def sample_rule_def sample_filter_def TRUST_POLICY_def as_bytes_def flip: append_assoc)
  moreover have len: "length ?t = 32" by (simp add: TRUST_POLICY_def)
  ultimately have digest: "sha256 sample_crypto (canonical sample_rule) = from_be_bytes ?t + 1" by (auto simp: sample_crypto_def)
  have reread: "to_be_bytes 32 (from_be_bytes ?t :: hash) = ?t" by (rule to_from_be_bytes_n) (simp_all add: TRUST_POLICY_def)
  have first: "hd ?t \<noteq> 0" by (simp add: TRUST_POLICY_def as_bytes_def byte_of_def)
  have "from_be_bytes ?t \<noteq> (0 :: hash)" "from_be_bytes ?t \<noteq> (1 :: hash)"
  proof -
    have "hd (to_be_bytes 32 w) = 0" if "unat w < 2" for w :: hash
    proof -
      have "unat w < 256 ^ 31" using that by simp
      moreover have "to_be_bytes 32 w = be_list (Suc 31) (unat w)" by (simp add: to_be_bytes_def del: be_list.simps)
      ultimately show ?thesis by (simp only: be_list.simps list.sel) simp
    qed
    then have "hd (to_be_bytes 32 (0 :: hash)) = 0" "hd (to_be_bytes 32 (1 :: hash)) = 0" by simp_all
    then show "from_be_bytes ?t \<noteq> (0 :: hash)" "from_be_bytes ?t \<noteq> (1 :: hash)" using reread first by metis+
  qed
  then show ?thesis using digest by (auto simp: eq_diff_eq [symmetric])
qed

lemma sample_wire_digest: "sha256 sample_crypto (sample_wire h) = 1"
proof -
  have "from_be_bytes (replicate 32 (0 :: byte)) = (0 :: hash)" by code_simp
  then show ?thesis by (simp add: sample_crypto_def sample_wire_def)
qed

lemma sample_key_inputs:
  assumes "stored sample_build d = fmupd 5 (sample_signed 4) fmempty"
  shows "inj_on (hash_of sample_build) (key_inputs sample_build sample_rule (stored sample_build d))"
proof -
  have "rows_of sample_build (stored sample_build d) = [(5, 1)]"
    using sample_wire_digest [of 4] by (simp add: assms rows_of_def entries_def keys_def sorted_list_of_fset.rep_eq sample_signed_def)
  moreover have "fmran' (fmupd (5 :: hash) (sample_signed 4) fmempty) = {sample_signed 4}"
    by (rule set_eqI) (simp add: fmlookup_ran'_iff, metis option.inject)
  ultimately have "key_inputs sample_build sample_rule (stored sample_build d) =
      {canonical sample_rule, hash_bytes 5 @ hash_bytes 1, sample_wire 4}"
    by (simp add: key_inputs_def assms content_bytes_def) (simp add: sample_signed_def insert_commute)
  moreover have "sha256 sample_crypto (hash_bytes 5 @ hash_bytes 1) = 2"
    by (simp add: sample_crypto_def hash_bytes_def from_to_be_bytes)
  ultimately show ?thesis using sample_rule_digest sample_wire_digest [of 4] by (auto simp: inj_on_def)
qed

theorem committed_equals_fold_witness:
  "\<exists>nd nd1 nd2 c c2 s. db_candidates (nd_db nd) = fmupd 5 (sample_wire 4) fmempty \<and>
     committed sample_build sample_rule nd = Some (Inr s, nd1) \<and> nd_cache nd1 = Some c \<and> ic_entry c \<noteq> None \<and>
     committed sample_build sample_rule nd1 = Some (Inr s, nd2) \<and> nd_cache nd2 = Some c2 \<and> ic_hits c2 = ic_hits c + 1 \<and>
     committed sample_build sample_rule (nd1\<lparr>nd_cache := None\<rparr>) = Some (Inr s, nd1\<lparr>nd_cache := None\<rparr>)"
proof -
  obtain out nd where nd: "node_ok sample_build nd" "nd_instance nd = 9" "nd_rule nd = Some sample_rule"
    "nd_cache nd = Some (invalidate inner_default)"
    "nd_db nd = (nd_db bound_node)\<lparr>db_candidates := fmupd 5 (sample_wire 4) fmempty\<rparr>" by (rule loaded_node) auto
  note ok = node_okD(1) [OF nd(1)]
  let ?f = sample_rule and ?d = "nd_db nd"
  let ?cands = "stored sample_build ?d"
  let ?key = "key_of sample_build ?f (rows_of sample_build ?cands)"
  have cands: "?cands = fmupd 5 (sample_signed 4) fmempty"
    by (rule fmap_ext) (simp add: stored_def nd(5) sample_wire_decode(1) [simplified] sample_decode)
  obtain p where "project (sha256 sample_crypto) (\<lambda>_. True) ?cands = Some p"
    by (rule project_cases [of "sha256 sample_crypto" ?cands]) (simp_all add: cands sample_store_distinct fmdom'_fmupd)
  then obtain s where s: "snapshot_of (sha256 sample_crypto) (\<lambda>_. True) (\<lambda>_. []) ?f ?cands = Some s" by (auto simp: snapshot_of_Some)
  let ?c = "(invalidate inner_default)\<lparr>ic_misses := 1, ic_entry := Some (?key, s)\<rparr>"
  let ?nd1 = "nd\<lparr>nd_cache := Some ?c\<rparr>"
  have fill: "committed sample_build ?f nd = Some (Inr s, ?nd1)"
    using s by (simp add: committed_def nd(4) probe_stored [OF ok] fold_candidates_stored [OF ok] cache_look_def cache_fill_def
      invalidate_def inner_default_def rows_of_def)
  have origin: "cached_from sample_build 9 ?f ?cands ?c"
    using s stored_corpus_ok [OF ok] nd(2) sample_rule_governed(2) by (simp add: cached_from_def)
  have "node_ok sample_build ?nd1"
    using nd(1-3) origin by (auto simp: node_ok_def cache_ok_def)
  note transparent = committed_equals_fold [OF this _ sample_rule_governed(2)]
  have "\<exists>f0 cands0. cached_from sample_build 9 f0 cands0 ?c \<and>
      inj_on (hash_of sample_build) (key_inputs sample_build f0 cands0 \<union> key_inputs sample_build ?f ?cands)"
    using origin sample_key_inputs [OF cands] by (intro exI [of _ ?f] exI [of _ ?cands]) simp
  moreover have "distinct_ids (hash_of sample_build) (fmdom' (db_candidates ?d))" using sample_store_distinct by (simp add: nd(5) fmdom'_fmupd)
  ultimately have uncached: "committed sample_build ?f (?nd1\<lparr>nd_cache := None\<rparr>) = Some (Inr s, ?nd1\<lparr>nd_cache := None\<rparr>)"
    using transparent [of ?c] s nd(2) by auto
  let ?c2 = "?c\<lparr>ic_hits := ic_hits ?c + 1\<rparr>"
  have "committed sample_build ?f ?nd1 = Some (Inr s, nd\<lparr>nd_cache := Some ?c2\<rparr>)"
    by (simp add: committed_def probe_stored [OF ok] cache_look_def)
  with fill uncached show ?thesis
    by (intro exI [of _ nd] exI [of _ ?nd1] exI [of _ "nd\<lparr>nd_cache := Some ?c2\<rparr>"] exI [of _ ?c] exI [of _ ?c2] exI [of _ s])
      (simp add: nd(5))
qed

text \<open>A rule bound after an event was admitted, and a body retained afterwards.\<close>

theorem rule_binding_permanent_witness:
  "\<exists>nda nd1 d1. \<exists>nd2 :: node. fmdom' (db_candidates (nd_db nda)) = {5} \<and> db_rule (nd_db nda) = None \<and>
     bind_rule sample_build sample_rule nda = (Inr nd1, d1) \<and> \<not> has (db_bodies (nd_db nd1)) 1 \<and> has (db_bodies (nd_db nd2)) 1 \<and>
     (\<exists>nd. open_store sample_build 9 sample_rule (nd_db nd2) = Inr nd) \<and>
     open_store sample_build 9 (sample_filter (sha256 sample_crypto) 4) (nd_db nd2) = Inl E_RuleIdentity"
proof -
  let ?g = "sample_filter (sha256 sample_crypto) 4"
  obtain an where "admit sample_build (sample_wire 4) fresh_node = Some (Inr (admitted sample_build (sample_wire 4) (sample_signed 4) an),
      fresh_node\<lparr>nd_db := (nd_db fresh_node)\<lparr>db_candidates := insert_new 5 (sample_wire 4) fmempty\<rparr>, nd_cache := map_option invalidate (nd_cache fresh_node)\<rparr>)"
    using admit_signed_total [OF node_okD(1) [OF fresh_ok], of "sample_wire 4" "sample_signed 4"] sample_wire_decode sample_store_distinct
    by auto
  then obtain r nda where run: "admit_observed sample_build None None (sample_wire 4) fresh_node = Some (Inr r, nda)"
    and nda: "nda = fresh_node\<lparr>nd_db := (nd_db fresh_node)\<lparr>db_candidates := insert_new 5 (sample_wire 4) fmempty\<rparr>, nd_cache := map_option invalidate (nd_cache fresh_node)\<rparr>"
    by (auto simp: admit_def map_sum_eq_Inr)
  let ?d1 = "record_rule sample_rule (nd_db nda)"
  let ?nd1 = "nda\<lparr>nd_db := ?d1, nd_rule := Some sample_rule\<rparr>"
  let ?nd2 = "?nd1\<lparr>nd_db := ?d1\<lparr>db_bodies := insert_new 1 [] (db_bodies ?d1)\<rparr>\<rparr>"
  have bind: "bind_rule sample_build sample_rule nda = (Inr ?nd1, ?d1)"
    using sample_rule_governed semantic_state_ready [of sample_build _ sample_rule "Some sample_rule"]
    by (simp add: bind_rule_def nda fresh_node_def create_schema_def record_rule_def empty_db_def semantic_readiness_def
        row_of_rule_def ready_error_def guard_def rbind_def Let_def)
  have rows: "db_schema ?d1" "db_bodies ?d1 = fmempty" "db_rule (nd_db nda) = None" "fmdom' (db_candidates (nd_db nda)) = {5}"
    by (simp_all add: nda fresh_node_def create_schema_def record_rule_def empty_db_def insert_new_def fmdom'_fmupd)
  have "retain_body sample_build 1 [] ?nd1 = (Inr True, ?nd2)"
    using rows by (simp add: retain_body_def from_be_bytes_def)
  then have later: "store_step sample_build ?nd1 ?nd2" by (rule step_body)
  have "\<not> db_schema empty_db" by (simp add: empty_db_def)
  have "(store_step sample_build)\<^sup>*\<^sup>* fresh_node nda" by (rule r_into_rtranclp) (rule step_admit [OF run])
  moreover have "(store_step sample_build)\<^sup>*\<^sup>* ?nd1 ?nd2" by (rule r_into_rtranclp) (rule later)
  note perm = rule_binding_permanent [OF fresh_provision \<open>\<not> db_schema empty_db\<close> \<open>(store_step sample_build)\<^sup>*\<^sup>* fresh_node nda\<close> bind
    sample_rule_governed(2) this]
  have "fits ?g" by (simp add: sample_filter_def fits_def TRUST_POLICY_def)
  then have "canonical ?g \<noteq> canonical sample_rule"
    using canonical_inject [of ?g sample_rule] sample_rule_governed(2) by (auto simp: sample_rule_def sample_filter_def)
  then have "open_store sample_build 9 ?g (nd_db ?nd2) = Inl E_RuleIdentity"
    using conjunct2 [OF perm] sample_filter_governed [of 4 "sha256 sample_crypto"] by simp
  moreover have body: "has (db_bodies (nd_db ?nd2)) 1" using rows(2) by (simp add: insert_new_def has_def)
  moreover have "\<not> has (db_bodies (nd_db ?nd1)) 1" using rows(2) by (simp add: has_def)
  ultimately have "fmdom' (db_candidates (nd_db nda)) = {5} \<and> db_rule (nd_db nda) = None \<and>
     bind_rule sample_build sample_rule nda = (Inr ?nd1, ?d1) \<and> \<not> has (db_bodies (nd_db ?nd1)) 1 \<and> has (db_bodies (nd_db ?nd2)) 1 \<and>
     (\<exists>nd. open_store sample_build 9 sample_rule (nd_db ?nd2) = Inr nd) \<and>
     open_store sample_build 9 ?g (nd_db ?nd2) = Inl E_RuleIdentity"
    using bind rows(3,4) conjunct1 [OF perm] by (intro conjI)
  then show ?thesis by (intro exI)
qed

text \<open>A restore of two events that stops after the first, and the restore that completes it.\<close>

theorem restore_resumes_witness:
  "\<exists>m nd1 outs nd2. length (em_envelopes m) = 2 \<and> restore_until sample_build 1 m bound_node = Some (Inl E_Database, nd1) \<and>
     db_candidates (nd_db nd1) = fmupd 5 (sample_wire 4) fmempty \<and>
     restore_export sample_build m nd1 = Some (Inr outs, nd2) \<and>
     db_candidates (nd_db nd2) = fmupd 9 (sample_wire 8) (fmupd 5 (sample_wire 4) fmempty)"
proof -
  let ?cands = "fmupd 9 (sample_signed 8) (fmupd 5 (sample_signed 4) fmempty)" and ?ws = "[sample_wire 4, sample_wire 8]"
  have dec: "decode (bd_crypto sample_build) (sample_wire h) = Inr (sample_signed h)" "env_instance (envelope_of (sample_signed h)) = 9"
    "sg_id (sample_signed h) = h + 1" for h
    by (simp_all add: sample_decode sample_signed_def sample_genesis_def)
  have ids: "distinct_ids (sha256 sample_crypto) {9, 5}"
    by (simp add: distinct_ids_def root_grant_def domain_hash_def hash_bytes_def from_to_be_bytes)
  have "distinct_ids (sha256 sample_crypto) (fmdom' ?cands)" using ids by (simp add: fmdom'_fmupd)
  then obtain p where "project (sha256 sample_crypto) (\<lambda>_. True) ?cands = Some p" by (rule project_cases)
  then obtain s where s: "snapshot_of (sha256 sample_crypto) (\<lambda>_. True) (\<lambda>_. []) sample_rule ?cands = Some s"
    by (auto simp: snapshot_of_Some)
  let ?m = "\<lparr>em_encoding = CANON_VERSION, em_rule = rule_of (sha256 sample_crypto) sample_rule, em_corpus_digest = sn_corpus_digest s,
    em_commitment = sn_commitment s, em_envelopes = ?ws\<rparr>"
  have "fold_result (read_envelope sample_build 9) ?ws fmempty = Inr ?cands"
    using dec by (simp add: read_envelope_def guard_def)
  then have "restore_checks sample_build ?m bound_node = Inr (sample_rule, ?cands)"
    using bound_ready(2) sample_rule_governed(3) by (simp add: restore_checks_def guard_def rbind_def)
  then have run: "restore_export sample_build ?m bound_node = admit_all sample_build ?ws bound_node"
    using s by (simp add: restore_export_def)
  have "wire_ids B (w # ws) = insert (sg_id x) (wire_ids B ws)" if "decode (bd_crypto B) w = Inr x" for B :: "hash build" and w ws x
    using that by (auto simp: wire_ids_def)
  note Cons = this [OF dec(1)]
  have wires: "wire_ids sample_build ?ws = {9, 5}" unfolding Cons using dec(3) by (simp add: wire_ids_def insert_commute)
  then have all: "distinct_ids (hash_of sample_build) (fmdom' (db_candidates (nd_db bound_node)) \<union> wire_ids sample_build (em_envelopes ?m))"
    using ids by simp
  obtain outs nd where "admit_all sample_build ?ws bound_node = Some (Inr outs, nd)"
    using admit_all_total [OF node_okD(1) [OF bound_ok(1)], of ?ws] all dec by force
  with run have "restore_export sample_build ?m bound_node = Some (Inr outs, nd)" by simp
  with restore_resumes [OF bound_ok(1) all] have final:
    "nd_db nd = (nd_db bound_node)\<lparr>db_candidates := fold (insert_wire sample_build) ?ws fmempty\<rparr>"
    and resume: "\<forall>k < length ?ws. \<exists>ndk outs' nd''. restore_until sample_build k ?m bound_node = Some (Inl E_Database, ndk) \<and>
      nd_db ndk = (nd_db bound_node)\<lparr>db_candidates := fold (insert_wire sample_build) (take k ?ws) fmempty\<rparr> \<and>
      restore_export sample_build ?m ndk = Some (Inr outs', nd'') \<and> nd_db nd'' = nd_db nd"
    unfolding export_manifest.simps node_tables(2) by auto
  from resume [rule_format, of 1] obtain nd1 outs' nd2 where until: "restore_until sample_build 1 ?m bound_node = Some (Inl E_Database, nd1)"
    and nd1: "nd_db nd1 = (nd_db bound_node)\<lparr>db_candidates := fold (insert_wire sample_build) (take 1 ?ws) fmempty\<rparr>"
    and again: "restore_export sample_build ?m nd1 = Some (Inr outs', nd2)" "nd_db nd2 = nd_db nd" by auto
  have step: "insert_wire sample_build (sample_wire h) m = insert_new (h + 1) (sample_wire h) m" for h m
    unfolding insert_wire_decoded [OF dec(1)] dec(3) ..
  have "db_candidates (nd_db nd1) = fmupd 5 (sample_wire 4) fmempty"
    "db_candidates (nd_db nd2) = fmupd 9 (sample_wire 8) (fmupd 5 (sample_wire 4) fmempty)"
    unfolding nd1 again(2) final by (simp_all add: step insert_new_def has_def)
  moreover have "length (em_envelopes ?m) = 2" by simp
  ultimately show ?thesis using until again(1) by blast
qed

theorem export_restore_roundtrip_witness:
  "\<exists>a m outs b'. db_candidates (nd_db a) = fmupd 5 (sample_wire 4) fmempty \<and> export sample_build None a = Some (Inr m) \<and>
     restore_export sample_build m bound_node = Some (Inr outs, b') \<and> db_candidates (nd_db b') = db_candidates (nd_db a)"
proof -
  obtain out nd where nd: "admit_observed sample_build None None (sample_wire 4) bound_node = Some (Inr out, nd)"
    "node_ok sample_build nd" "store_step sample_build bound_node nd" "nd_instance nd = 9" "nd_rule nd = Some sample_rule"
    "nd_db nd = (nd_db bound_node)\<lparr>db_candidates := fmupd 5 (sample_wire 4) fmempty\<rparr>"
    by (rule loaded_node)
  have "ready sample_build None nd = Inr sample_rule" using bound_ready(1) nd(5,6)
    unfolding ready_iff [OF node_okD(1) [OF nd(2)]] ready_iff [OF node_okD(1) [OF bound_ok(1)]] by simp
  from export_restore_roundtrip [OF nd(2) bound_ok(1) _ this bound_ready(1)] nd(4,6) sample_store_distinct show ?thesis
    by (intro exI [of _ nd]) auto
qed

end
