(* ===== verification/Merkle.thy ===== *)
theory Merkle
  imports Wire
begin

text \<open>
  The Merkle accumulator of \<^verbatim>\<open>crates/cc-anchor/src/merkle.rs\<close>: the tree hash of RFC 6962, audit
  paths, consistency proofs and their verifiers. Leaf and interior hashes are values of type
  \<^typ>\<open>hash\<close>; the sizes and indices, which the code only compares, halves, and decrements under a
  guard, are natural numbers; the slices of the code are \<^const>\<open>take\<close> and \<^const>\<open>drop\<close>, and a vector
  that a function extends is its result. The hash function is a parameter.
\<close>

section \<open>The tree hash\<close>

definition LEAF_PREFIX :: byte where
  "LEAF_PREFIX = 0x00"

definition NODE_PREFIX :: byte where
  "NODE_PREFIX = 0x01"

definition leaf_hash :: "(byte list \<Rightarrow> hash) \<Rightarrow> hash \<Rightarrow> hash" where
  "leaf_hash H eid = H (LEAF_PREFIX # hash_bytes eid)"

definition node_hash :: "(byte list \<Rightarrow> hash) \<Rightarrow> hash \<Rightarrow> hash \<Rightarrow> hash" where
  "node_hash H left right = H (NODE_PREFIX # hash_bytes left @ hash_bytes right)"

text \<open>\<open>usize::BITS - 1 - x.leading_zeros()\<close>, the position of the highest bit of a positive number.\<close>

fun high_bit :: "nat \<Rightarrow> nat" where
  "high_bit x = (if x < 2 then 0 else Suc (high_bit (x div 2)))"

declare high_bit.simps [simp del]

definition split_point :: "nat \<Rightarrow> nat" where
  "split_point n = 2 ^ high_bit (n - 1)"

lemma high_bit_bounds: "0 < x \<Longrightarrow> 2 ^ high_bit x \<le> x \<and> x < 2 * 2 ^ high_bit x"
proof (induction x rule: high_bit.induct)
  case (1 x)
  show ?case
  proof (cases "x < 2")
    case True
    with 1 show ?thesis by (simp add: high_bit.simps [of x])
  next
    case False
    with 1 have "2 ^ high_bit (x div 2) \<le> x div 2 \<and> x div 2 < 2 * 2 ^ high_bit (x div 2)" by simp
    then show ?thesis using False by (simp add: high_bit.simps [of x]) linarith
  qed
qed

lemma split_point_bounds:
  assumes "1 < n"
  shows "0 < split_point n" "split_point n < n" "n \<le> 2 * split_point n"
  using assms high_bit_bounds [of "n - 1"] by (auto simp: split_point_def)

function mth :: "(byte list \<Rightarrow> hash) \<Rightarrow> hash list \<Rightarrow> hash" where
  "mth H [] = H []"
| "mth H [x] = x"
| "mth H (x # y # zs) = (let leaves = x # y # zs; k = split_point (length leaves) in
     node_hash H (mth H (take k leaves)) (mth H (drop k leaves)))"
  by pat_completeness auto
termination
proof (relation "measure (length \<circ> snd)", goal_cases)
  case (2 H x y zs leaves k)
  then show ?case using split_point_bounds(2) [of "length leaves"] by simp
next
  case (3 H x y zs leaves k)
  then show ?case using split_point_bounds(1) [of "length leaves"] by simp
qed simp

definition merkle_root :: "(byte list \<Rightarrow> hash) \<Rightarrow> hash list \<Rightarrow> hash" where
  "merkle_root H leaves = mth H leaves"

datatype proof_error = IndexOutOfRange nat nat | OldSizeExceedsTree nat nat | EmptyOldTree | MalformedPath nat

section \<open>Inclusion\<close>

record inclusion_proof =
  ip_leaf_index :: nat
  ip_tree_size :: nat
  ip_path :: "hash list"

text \<open>The inner loop \<open>while fnode != 0 && fnode & 1 == 0\<close> of both verifiers.\<close>

fun climb :: "nat \<Rightarrow> nat \<Rightarrow> nat \<times> nat" where
  "climb f s = (if f \<noteq> 0 \<and> even f then climb (f div 2) (s div 2) else (f, s))"

declare climb.simps [simp del]

text \<open>The loop over the path: the last \<open>snode\<close> and the root it computes, \<^term>\<open>None\<close> for \<open>return false\<close>.\<close>

fun walk :: "(byte list \<Rightarrow> hash) \<Rightarrow> nat \<Rightarrow> nat \<Rightarrow> hash \<Rightarrow> hash list \<Rightarrow> (nat \<times> hash) option" where
  "walk H f s r [] = Some (s, r)"
| "walk H f s r (p # ps) =
     (if s = 0 then None
      else if odd f \<or> f = s then
        (let (f', s') = if even f then climb f s else (f, s) in walk H (f' div 2) (s' div 2) (node_hash H p r) ps)
      else walk H (f div 2) (s div 2) (node_hash H r p) ps)"

definition verify_inclusion :: "(byte list \<Rightarrow> hash) \<Rightarrow> inclusion_proof \<Rightarrow> hash \<Rightarrow> hash \<Rightarrow> bool" where
  "verify_inclusion H p leaf root \<longleftrightarrow> ip_leaf_index p < ip_tree_size p \<and>
     walk H (ip_leaf_index p) (ip_tree_size p - 1) leaf (ip_path p) = Some (0, root)"

function audit_path :: "(byte list \<Rightarrow> hash) \<Rightarrow> hash list \<Rightarrow> nat \<Rightarrow> hash list" where
  "audit_path H leaves m =
     (if length leaves \<le> 1 then []
      else let k = split_point (length leaves) in
        if m < k then audit_path H (take k leaves) m @ [mth H (drop k leaves)]
        else audit_path H (drop k leaves) (m - k) @ [mth H (take k leaves)])"
  by pat_completeness auto
termination
proof (relation "measure (\<lambda>(_, leaves, _). length leaves)", goal_cases)
  case (2 H leaves m k)
  then show ?case using split_point_bounds(2) [of "length leaves"] by simp
next
  case (3 H leaves m k)
  then show ?case using split_point_bounds(1) [of "length leaves"] by simp
qed simp

declare audit_path.simps [simp del]

definition prove_inclusion :: "(byte list \<Rightarrow> hash) \<Rightarrow> hash list \<Rightarrow> nat \<Rightarrow> proof_error + inclusion_proof" where
  "prove_inclusion H leaves index = guard (length leaves \<le> index) (IndexOutOfRange index (length leaves))
     (Inr \<lparr>ip_leaf_index = index, ip_tree_size = length leaves, ip_path = audit_path H leaves index\<rparr>)"

section \<open>Consistency\<close>

record consistency_proof =
  cp_old_size :: nat
  cp_new_size :: nat
  cp_path :: "hash list"

text \<open>\<open>while fnode & 1 == 1\<close>, which ends because an odd number is positive.\<close>

function skip_ones :: "nat \<Rightarrow> nat \<Rightarrow> nat \<times> nat" where
  "skip_ones f s = (if odd f then skip_ones (f div 2) (s div 2) else (f, s))"
  by pat_completeness auto
termination
  by (relation "measure fst") (auto elim: oddE)

declare skip_ones.simps [simp del]

fun walk2 :: "(byte list \<Rightarrow> hash) \<Rightarrow> nat \<Rightarrow> nat \<Rightarrow> hash \<Rightarrow> hash \<Rightarrow> hash list \<Rightarrow> (nat \<times> hash \<times> hash) option" where
  "walk2 H f s fr sr [] = Some (s, fr, sr)"
| "walk2 H f s fr sr (c # cs) =
     (if s = 0 then None
      else if odd f \<or> f = s then
        (let (f', s') = if even f then climb f s else (f, s) in
         walk2 H (f' div 2) (s' div 2) (node_hash H c fr) (node_hash H c sr) cs)
      else walk2 H (f div 2) (s div 2) fr (node_hash H sr c) cs)"

definition is_power_of_two :: "nat \<Rightarrow> bool" where
  "is_power_of_two n \<longleftrightarrow> 0 < n \<and> n = 2 ^ high_bit n"

definition verify_consistency :: "(byte list \<Rightarrow> hash) \<Rightarrow> consistency_proof \<Rightarrow> hash \<Rightarrow> hash \<Rightarrow> bool" where
  "verify_consistency H p old_root new_root =
     (if cp_new_size p < cp_old_size p \<or> cp_old_size p = 0 then False
      else if cp_old_size p = cp_new_size p then cp_path p = [] \<and> old_root = new_root
      else case (if is_power_of_two (cp_old_size p) then old_root # cp_path p else cp_path p) of
        [] \<Rightarrow> False
      | first # rest \<Rightarrow> (let (f, s) = skip_ones (cp_old_size p - 1) (cp_new_size p - 1) in
          walk2 H f s first first rest = Some (0, old_root, new_root)))"

text \<open>The recursion needs \<open>0 < m \<le> n\<close>, which the caller checks.\<close>

function subproof :: "(byte list \<Rightarrow> hash) \<Rightarrow> hash list \<Rightarrow> nat \<Rightarrow> bool \<Rightarrow> hash list" where
  "subproof H leaves m b =
     (if m = length leaves then (if b then [] else [mth H leaves])
      else if length leaves \<le> 1 then []
      else let k = split_point (length leaves) in
        if m \<le> k then subproof H (take k leaves) m b @ [mth H (drop k leaves)]
        else subproof H (drop k leaves) (m - k) False @ [mth H (take k leaves)])"
  by pat_completeness auto
termination
proof (relation "measure (\<lambda>(_, leaves, _). length leaves)", goal_cases)
  case (2 H leaves m b k)
  then show ?case using split_point_bounds(2) [of "length leaves"] by simp
next
  case (3 H leaves m b k)
  then show ?case using split_point_bounds(1) [of "length leaves"] by simp
qed simp

declare subproof.simps [simp del]

definition prove_consistency :: "(byte list \<Rightarrow> hash) \<Rightarrow> hash list \<Rightarrow> nat \<Rightarrow> proof_error + consistency_proof" where
  "prove_consistency H leaves old_size = guard (old_size = 0) EmptyOldTree
     (guard (length leaves < old_size) (OldSizeExceedsTree old_size (length leaves))
     (Inr \<lparr>cp_old_size = old_size, cp_new_size = length leaves, cp_path = subproof H leaves old_size True\<rparr>))"

section \<open>Stored paths\<close>

definition flatten :: "hash list \<Rightarrow> byte list" where
  "flatten path = concat (map hash_bytes path)"

fun chunks_exact :: "nat \<Rightarrow> byte list \<Rightarrow> byte list list" where
  "chunks_exact n bs = (if n = 0 \<or> length bs < n then [] else take n bs # chunks_exact n (drop n bs))"

declare chunks_exact.simps [simp del]

definition unflatten :: "byte list \<Rightarrow> proof_error + hash list" where
  "unflatten bytes = guard (length bytes mod 32 \<noteq> 0) (MalformedPath (length bytes))
     (Inr (map from_be_bytes (chunks_exact 32 bytes)))"

definition inclusion_path_bytes :: "inclusion_proof \<Rightarrow> byte list" where
  "inclusion_path_bytes p = flatten (ip_path p)"

definition inclusion_from_path_bytes :: "nat \<Rightarrow> nat \<Rightarrow> byte list \<Rightarrow> proof_error + inclusion_proof" where
  "inclusion_from_path_bytes leaf_index tree_size bytes = rbind (unflatten bytes) (\<lambda>path.
     Inr \<lparr>ip_leaf_index = leaf_index, ip_tree_size = tree_size, ip_path = path\<rparr>)"

definition consistency_path_bytes :: "consistency_proof \<Rightarrow> byte list" where
  "consistency_path_bytes p = flatten (cp_path p)"

definition consistency_from_path_bytes :: "nat \<Rightarrow> nat \<Rightarrow> byte list \<Rightarrow> proof_error + consistency_proof" where
  "consistency_from_path_bytes old_size new_size bytes = rbind (unflatten bytes) (\<lambda>path.
     Inr \<lparr>cp_old_size = old_size, cp_new_size = new_size, cp_path = path\<rparr>)"

end
