(* ===== verification/Merkle_Levels.thy ===== *)
theory Merkle_Levels
  imports Merkle
begin

text \<open>
  The Merkle tree by levels: node \<open>a\<close> of level \<open>l\<close> covers the leaves from \<open>a * 2 ^ l\<close> to
  \<open>(a + 1) * 2 ^ l\<close>. An audit path and a consistency proof are the siblings met while climbing from a
  node of some level to the root, which is what the two verifiers recompute.
\<close>

section \<open>Nodes\<close>

lemma mth_split:
  assumes "1 < length leaves"
  shows "mth H leaves = node_hash H (mth H (take (split_point (length leaves)) leaves)) (mth H (drop (split_point (length leaves)) leaves))"
  using assms by (cases "(H, leaves)" rule: mth.cases) (simp_all add: Let_def)

lemma high_bit_unique:
  assumes "2 ^ l \<le> x" "x < 2 * 2 ^ l"
  shows "high_bit x = l"
proof -
  have "0 < x" using assms(1) by (metis gr0I le_zero_eq power_not_zero zero_neq_numeral)
  from high_bit_bounds [OF this] have b: "2 ^ high_bit x < (2 :: nat) ^ Suc l" "(2 :: nat) ^ l < 2 ^ Suc (high_bit x)" using assms by auto
  from b(1) have "high_bit x < Suc l" by (rule power_less_imp_less_exp [rotated]) simp
  moreover from b(2) have "l < Suc (high_bit x)" by (rule power_less_imp_less_exp [rotated]) simp
  ultimately show ?thesis by simp
qed

lemma split_point_unique: "2 ^ l < n \<Longrightarrow> n \<le> 2 * 2 ^ l \<Longrightarrow> split_point n = 2 ^ l"
  unfolding split_point_def by (subst high_bit_unique [of l]) auto

definition node_at :: "(byte list \<Rightarrow> hash) \<Rightarrow> hash list \<Rightarrow> nat \<Rightarrow> nat \<Rightarrow> hash" where
  "node_at H leaves l a = mth H (take (2 ^ l) (drop (a * 2 ^ l) leaves))"

lemma node_at_0: "i < length leaves \<Longrightarrow> node_at H leaves 0 i = leaves ! i"
  by (simp add: node_at_def take_Suc hd_drop_conv_nth)

lemma node_at_root: "length leaves \<le> 2 ^ l \<Longrightarrow> node_at H leaves l 0 = mth H leaves"
  by (simp add: node_at_def)

text \<open>The last node of a level has index \<open>(n - 1) div 2 ^ l\<close>; the one above an even last node is that node.\<close>

lemma node_at_pair:
  assumes "(2 * a + 1) * 2 ^ l < length leaves"
  shows "node_at H leaves (Suc l) a = node_hash H (node_at H leaves l (2 * a)) (node_at H leaves l (2 * a + 1))"
proof -
  let ?c = "take (2 ^ Suc l) (drop (a * 2 ^ Suc l) leaves)"
  have len: "2 ^ l < length ?c" "length ?c \<le> 2 * 2 ^ l" using assms by (auto simp: algebra_simps)
  have "1 < length ?c" using len(1) by (metis less_one linorder_neqE_nat not_less_zero order.strict_trans zero_less_numeral zero_less_power)
  moreover have "take (2 ^ l) ?c = take (2 ^ l) (drop (2 * a * 2 ^ l) leaves)"
    by (simp add: min_def mult.assoc mult.commute mult.left_commute)
  moreover have "drop (2 ^ l) ?c = take (2 ^ l) (drop ((2 * a + 1) * 2 ^ l) leaves)"
    by (simp add: drop_take algebra_simps)
  ultimately show ?thesis
    unfolding node_at_def by (subst mth_split) (simp_all only: split_point_unique [OF len])
qed

lemma node_at_single:
  assumes "length leaves \<le> (2 * a + 1) * 2 ^ l"
  shows "node_at H leaves (Suc l) a = node_at H leaves l (2 * a)"
  using assms unfolding node_at_def by (intro arg_cong [of _ _ "mth H"]) (simp add: algebra_simps)

abbreviation last_at :: "hash list \<Rightarrow> nat \<Rightarrow> nat" where
  "last_at leaves l \<equiv> (length leaves - 1) div 2 ^ l"

lemma div_Suc_level: "x div 2 ^ Suc l = x div 2 ^ l div (2 :: nat)"
  by (metis div_mult2_eq power_Suc2)

lemma le_last_at: "0 < length leaves \<Longrightarrow> a \<le> last_at leaves l \<longleftrightarrow> a * 2 ^ l < length leaves"
  by (cases leaves) (auto simp: less_eq_div_iff_mult_less_eq)

text \<open>The pairs that \<^const>\<open>mth\<close> hashes: the children of the nodes that have two.\<close>

definition tree_inputs :: "(byte list \<Rightarrow> hash) \<Rightarrow> hash list \<Rightarrow> (hash \<times> hash) set" where
  "tree_inputs H leaves = {(node_at H leaves l (2 * a), node_at H leaves l (2 * a + 1)) | l a. (2 * a + 1) * 2 ^ l < length leaves}"

text \<open>The node above node \<open>f\<close>.\<close>

lemma node_at_odd:
  assumes "odd f" "f \<le> last_at leaves l" "leaves \<noteq> []"
  shows "node_at H leaves (Suc l) (f div 2) = node_hash H (node_at H leaves l (f - 1)) (node_at H leaves l f)"
    "(node_at H leaves l (f - 1), node_at H leaves l f) \<in> tree_inputs H leaves"
proof -
  obtain a where a: "f = 2 * a + 1" using assms(1) by (rule oddE)
  have less: "(2 * a + 1) * 2 ^ l < length leaves" using assms(2,3) unfolding a by (subst (asm) le_last_at) auto
  from node_at_pair [OF less] show "node_at H leaves (Suc l) (f div 2) = node_hash H (node_at H leaves l (f - 1)) (node_at H leaves l f)"
    by (simp add: a)
  from less show "(node_at H leaves l (f - 1), node_at H leaves l f) \<in> tree_inputs H leaves"
    unfolding tree_inputs_def a by auto
qed

lemma node_at_even:
  assumes "even f" "f < last_at leaves l" "leaves \<noteq> []"
  shows "node_at H leaves (Suc l) (f div 2) = node_hash H (node_at H leaves l f) (node_at H leaves l (f + 1))"
    "(node_at H leaves l f, node_at H leaves l (f + 1)) \<in> tree_inputs H leaves"
proof -
  obtain a where a: "f = 2 * a" using assms(1) by (rule evenE)
  have less: "(2 * a + 1) * 2 ^ l < length leaves"
    using assms(2,3) le_last_at [of leaves "2 * a + 1" l] unfolding a by simp
  from node_at_pair [OF less] show "node_at H leaves (Suc l) (f div 2) = node_hash H (node_at H leaves l f) (node_at H leaves l (f + 1))"
    by (simp add: a)
  from less show "(node_at H leaves l f, node_at H leaves l (f + 1)) \<in> tree_inputs H leaves"
    unfolding tree_inputs_def a by auto
qed

lemma node_at_last:
  assumes "even f" "f = last_at leaves l" "leaves \<noteq> []"
  shows "node_at H leaves (Suc l) (f div 2) = node_at H leaves l f"
proof -
  obtain a where a: "f = 2 * a" using assms(1) by (rule evenE)
  have "\<not> 2 * a + 1 \<le> last_at leaves l" using assms(2) a by simp
  then have "length leaves \<le> (2 * a + 1) * 2 ^ l" using assms(3) by (subst (asm) le_last_at) auto
  from node_at_single [OF this] show ?thesis by (simp add: a)
qed

section \<open>Siblings\<close>

text \<open>The siblings from node \<open>f\<close> of level \<open>l\<close> to the root; \<open>s\<close> is the last node of the level.\<close>

function siblings :: "(byte list \<Rightarrow> hash) \<Rightarrow> hash list \<Rightarrow> nat \<Rightarrow> nat \<Rightarrow> nat \<Rightarrow> hash list" where
  "siblings H leaves l f s =
     (if s = 0 then []
      else (if odd f then [node_at H leaves l (f - 1)] else if f < s then [node_at H leaves l (f + 1)] else [])
        @ siblings H leaves (Suc l) (f div 2) (s div 2))"
  by pat_completeness auto
termination
  by (relation "measure (\<lambda>(_, _, _, _, s). s)") auto

declare siblings.simps [simp del]

lemma siblings_0 [simp]: "siblings H leaves l f 0 = []"
  by (simp add: siblings.simps)

lemma climb_spec:
  "f \<noteq> 0 \<Longrightarrow> \<exists>d. climb f s = (f div 2 ^ d, s div 2 ^ d) \<and> odd (f div 2 ^ d) \<and> (\<forall>i<d. even (f div 2 ^ i))"
proof (induction f arbitrary: s rule: less_induct)
  case (less f)
  show ?case
  proof (cases "even f")
    case True
    then have half: "f div 2 < f" "f div 2 \<noteq> 0" using less.prems by (auto elim: evenE)
    from less.IH [OF half, of "s div 2"] obtain d where d: "climb (f div 2) (s div 2) = (f div 2 div 2 ^ d, s div 2 div 2 ^ d)"
      "odd (f div 2 div 2 ^ d)" "\<forall>i<d. even (f div 2 div 2 ^ i)" by blast
    have "\<forall>i<Suc d. even (f div 2 ^ i)" using d(3) True by (auto simp: less_Suc_eq_0_disj div_mult2_eq)
    with d True less.prems show ?thesis
      by (intro exI [of _ "Suc d"]) (simp add: climb.simps [of f s] div_mult2_eq)
  next
    case False
    then show ?thesis by (intro exI [of _ 0]) (simp add: climb.simps [of f s])
  qed
qed

lemma div_add_level: "x div 2 ^ (l + d) = x div 2 ^ l div (2 :: nat) ^ d"
  by (simp add: power_add div_mult2_eq)

lemma node_at_climb:
  assumes "f = last_at leaves l" "leaves \<noteq> []" "\<forall>i<d. even (f div 2 ^ i)"
  shows "node_at H leaves (l + d) (f div 2 ^ d) = node_at H leaves l f"
  using assms(3)
proof (induction d)
  case (Suc d)
  have "f div 2 ^ d = last_at leaves (l + d)" using assms(1) by (simp add: div_add_level)
  moreover have "even (f div 2 ^ d)" "\<forall>i<d. even (f div 2 ^ i)" using Suc.prems by auto
  ultimately have "node_at H leaves (Suc (l + d)) (f div 2 ^ d div 2) = node_at H leaves l f"
    using node_at_last [OF _ _ assms(2)] Suc.IH by simp
  then show ?case by (simp only: div_Suc_level add_Suc_right)
qed simp

lemma siblings_climb:
  assumes "\<forall>i<d. even (f div 2 ^ i)" "f div 2 ^ d \<noteq> 0"
  shows "siblings H leaves l f f = siblings H leaves (l + d) (f div 2 ^ d) (f div 2 ^ d)"
  using assms
proof (induction d)
  case (Suc d)
  let ?f = "f div 2 ^ d"
  have half: "f div 2 ^ Suc d = ?f div 2" by (rule div_Suc_level)
  then have "?f \<noteq> 0" "even ?f" using Suc.prems by auto
  then have "siblings H leaves (l + d) ?f ?f = siblings H leaves (l + Suc d) (?f div 2) (?f div 2)"
    by (subst siblings.simps) simp
  then show ?case using Suc \<open>?f \<noteq> 0\<close> half by simp
qed simp

text \<open>
  One step of the climb: at the root nothing is left; a node that is odd or last has its sibling on
  the left, at the level where the climb ends; any other node has its sibling on the right.
\<close>

lemma level_cases:
  assumes "leaves \<noteq> []" "s = last_at leaves l" "f \<le> s"
  obtains (root) "s = 0" "f = 0" "node_at H leaves l f = mth H leaves" "siblings H leaves l f s = []"
  | (left) d f' where "s \<noteq> 0" "odd f \<or> f = s" "(if even f then climb f s else (f, s)) = (f', s div 2 ^ d)" "f' = f div 2 ^ d" "odd f'"
      "\<forall>i<d. even (f div 2 ^ i)" "node_at H leaves (Suc (l + d)) (f' div 2) = node_hash H (node_at H leaves (l + d) (f' - 1)) (node_at H leaves l f)"
      "(node_at H leaves (l + d) (f' - 1), node_at H leaves l f) \<in> tree_inputs H leaves"
      "siblings H leaves l f s = node_at H leaves (l + d) (f' - 1) # siblings H leaves (Suc (l + d)) (f' div 2) (s div 2 ^ d div 2)"
      "s div 2 ^ d div 2 = last_at leaves (Suc (l + d))" "f' div 2 \<le> s div 2 ^ d div 2" "s div 2 ^ d div 2 < s"
  | (right) "s \<noteq> 0" "even f" "f < s" "node_at H leaves (Suc l) (f div 2) = node_hash H (node_at H leaves l f) (node_at H leaves l (f + 1))"
      "(node_at H leaves l f, node_at H leaves l (f + 1)) \<in> tree_inputs H leaves"
      "siblings H leaves l f s = node_at H leaves l (f + 1) # siblings H leaves (Suc l) (f div 2) (s div 2)"
      "s div 2 = last_at leaves (Suc l)" "f div 2 \<le> s div 2" "s div 2 < s"
proof -
  consider "s = 0" | "s \<noteq> 0" "odd f \<or> f = s" | "s \<noteq> 0" "even f" "f < s" using assms(3) by linarith
  then show thesis
  proof cases
    case 1
    then have "length leaves \<le> 2 ^ l" using assms(1,2) by (simp add: div_eq_0_iff Suc_le_eq [symmetric])
    then show ?thesis using 1 assms(3) by (intro root) (simp_all add: node_at_root)
  next
    case 2
    then have "f \<noteq> 0" by (cases f) auto
    then obtain d where d: "climb f s = (f div 2 ^ d, s div 2 ^ d)" "odd (f div 2 ^ d)" "\<forall>i<d. even (f div 2 ^ i)"
      using climb_spec by blast
    have eq: "d = 0 \<or> f = s" using 2(2) d(3) by (cases d) auto
    have cl: "(if even f then climb f s else (f, s)) = (f div 2 ^ d, s div 2 ^ d)" using d(1,3) eq by (cases "even f"; cases d) (auto simp: climb.simps [of f s])
    let ?f = "f div 2 ^ d" and ?s = "s div 2 ^ d"
    have le: "?f \<le> ?s" using assms(3) by (rule div_le_mono)
    have s: "?s = last_at leaves (l + d)" using assms(2) by (simp add: div_add_level)
    have up: "node_at H leaves (l + d) ?f = node_at H leaves l f" using eq node_at_climb [OF _ assms(1) d(3)] assms(2) by auto
    have sib: "siblings H leaves l f s = siblings H leaves (l + d) ?f ?s"
      using eq siblings_climb [OF d(3)] d(2) by (auto simp: odd_pos)
    have pos: "?s \<noteq> 0" using le d(2) by (cases ?f) auto
    have "?s \<le> s" by simp
    then have less: "?s div 2 < s" using pos by linarith
    show ?thesis
    proof (rule left [OF 2 cl refl d(2,3)])
      show "node_at H leaves (Suc (l + d)) (?f div 2) = node_hash H (node_at H leaves (l + d) (?f - 1)) (node_at H leaves l f)"
        using node_at_odd(1) [OF d(2) _ assms(1), of "l + d" H] le s by (simp add: up)
      show "(node_at H leaves (l + d) (?f - 1), node_at H leaves l f) \<in> tree_inputs H leaves"
        using node_at_odd(2) [OF d(2) _ assms(1), of "l + d" H] le s by (simp add: up)
      show "siblings H leaves l f s = node_at H leaves (l + d) (?f - 1) # siblings H leaves (Suc (l + d)) (?f div 2) (?s div 2)"
        unfolding sib using d(2) pos by (subst siblings.simps) simp
      show "?s div 2 = last_at leaves (Suc (l + d))" using s by (simp only: div_Suc_level)
    qed (use le less in \<open>simp_all add: div_le_mono\<close>)
  next
    case 3
    have "s div 2 < s" using 3 by simp
    moreover have "siblings H leaves l f s = node_at H leaves l (f + 1) # siblings H leaves (Suc l) (f div 2) (s div 2)"
      using 3 by (subst siblings.simps) simp
    moreover have "s div 2 = last_at leaves (Suc l)" using assms(2) by (simp only: div_Suc_level)
    ultimately show ?thesis using 3 node_at_even [OF 3(2) _ assms(1)] assms(2) by (intro right) (simp_all add: div_le_mono)
  qed
qed

end
