(* ===== verification/Merkle_Proofs.thy ===== *)
theory Merkle_Proofs
  imports Merkle_Levels
begin

text \<open>
  Inclusion and consistency proofs verify, have logarithmic length, and, where the hash function does
  not collide on the pairs that tree and verifier hash, only the proofs of the tree verify. Stored
  paths read back.
\<close>

section \<open>Subtrees\<close>

lemma pred_mult_div: "0 < a \<Longrightarrow> 0 < b \<Longrightarrow> (a * b - 1) div b = a - (1 :: nat)"
proof -
  assume "0 < a" "0 < b"
  then obtain c where "a = Suc c" by (cases a) auto
  moreover obtain d where "b = Suc d" using \<open>0 < b\<close> by (cases b) auto
  ultimately have "a * b - 1 = d + c * b" by simp
  then show ?thesis using \<open>b = Suc d\<close> \<open>a = Suc c\<close> by (simp only: div_mult_self1) simp
qed

lemma full_last_at: "l \<le> j \<Longrightarrow> (2 ^ j - 1) div 2 ^ l = (2 :: nat) ^ (j - l) - 1"
  using pred_mult_div [of "2 ^ (j - l)" "2 ^ l"] by (simp add: power_add [symmetric])

lemma node_at_take: "(a + 1) * 2 ^ l \<le> k \<Longrightarrow> node_at H (take k leaves) l a = node_at H leaves l a"
  by (simp add: node_at_def drop_take min_def)

lemma node_at_drop: "l \<le> j \<Longrightarrow> node_at H (drop (2 ^ j) leaves) l a = node_at H leaves l (a + 2 ^ (j - l))"
  by (simp add: node_at_def add_mult_distrib power_add [symmetric] add.commute)

lemma last_at_drop:
  assumes "2 ^ j < length leaves" "l \<le> j"
  shows "last_at leaves l = last_at (drop (2 ^ j) leaves) l + 2 ^ (j - l)"
proof -
  have "length leaves - 1 = length leaves - 2 ^ j - 1 + 2 ^ (j - l) * 2 ^ l"
    using assms by (simp add: power_add [symmetric])
  then show ?thesis by simp
qed

lemma siblings_left:
  assumes n: "2 ^ j < length leaves" "length leaves \<le> 2 * 2 ^ j" and "l \<le> j" "f < 2 ^ (j - l)"
  shows "siblings H leaves l f (last_at leaves l) =
    siblings H (take (2 ^ j) leaves) l f (last_at (take (2 ^ j) leaves) l) @ [mth H (drop (2 ^ j) leaves)]"
  using assms(3,4)
proof (induction "j - l" arbitrary: l f)
  case 0
  then have l: "l = j" "f = 0" by auto
  have "last_at leaves j = 1" using n by (intro div_nat_eqI) auto
  then have "siblings H leaves j 0 (last_at leaves j) = [node_at H leaves j 1]" by (simp add: siblings.simps [of H leaves j])
  also have "node_at H leaves j 1 = mth H (drop (2 ^ j) leaves)" using n by (simp add: node_at_def)
  finally show ?case using n by (simp add: l)
next
  case (Suc d)
  let ?t = "take (2 ^ j) leaves"
  have s': "last_at ?t l = 2 ^ (j - l) - 1" using n Suc.prems(1) full_last_at by simp
  have s: "last_at leaves l = last_at (drop (2 ^ j) leaves) l + 2 ^ (j - l)" using n Suc.prems by (intro last_at_drop) auto
  have pow: "(2 :: nat) ^ (j - l) = 2 * 2 ^ (j - Suc l)" using Suc.hyps(2) by (metis Suc_diff_Suc power_Suc zero_less_Suc zero_less_diff)
  have f: "f div 2 < 2 ^ (j - Suc l)" using Suc.prems(2) pow by linarith
  have IH: "siblings H leaves (Suc l) (f div 2) (last_at leaves l div 2) =
      siblings H ?t (Suc l) (f div 2) (last_at ?t l div 2) @ [mth H (drop (2 ^ j) leaves)]"
    using Suc.hyps(1) [of "Suc l" "f div 2"] Suc.hyps(2) Suc.prems f by (simp add: div_Suc_level del: power_Suc)
  have block: "node_at H ?t l a = node_at H leaves l a" if "a < 2 ^ (j - l)" for a
  proof (rule node_at_take)
    have "(a + 1) * 2 ^ l \<le> 2 ^ (j - l) * 2 ^ l" using that by (intro mult_le_mono1) simp
    then show "(a + 1) * 2 ^ l \<le> 2 ^ j" using Suc.prems(1) by (simp add: power_add [symmetric])
  qed
  have "0 < (2 :: nat) ^ (j - Suc l)" by simp
  then have pos: "last_at ?t l \<noteq> 0" "last_at leaves l \<noteq> 0" unfolding s' s pow by linarith+
  have even: "f < last_at ?t l \<and> f + 1 < 2 ^ (j - l)" if "even f" using that Suc.prems(2) unfolding s' pow by (auto elim!: evenE)
  show ?case
    unfolding siblings.simps [of H leaves l f] siblings.simps [of H ?t l f] using pos IH Suc.prems(2) even s s'
    block [OF less_imp_diff_less [OF Suc.prems(2)], of 1] block [of "f + 1"] by simp
qed

lemma siblings_right:
  assumes n: "2 ^ j < length leaves" "length leaves \<le> 2 * 2 ^ j" and "l \<le> j" "f \<le> last_at (drop (2 ^ j) leaves) l"
  shows "siblings H leaves l (f + 2 ^ (j - l)) (last_at leaves l) =
    siblings H (drop (2 ^ j) leaves) l f (last_at (drop (2 ^ j) leaves) l) @ [mth H (take (2 ^ j) leaves)]"
  using assms(3,4)
proof (induction "j - l" arbitrary: l f)
  case 0
  then have l: "l = j" by simp
  have "length (drop (2 ^ j) leaves) - 1 < 2 ^ j" using n by simp
  then have z: "last_at (drop (2 ^ j) leaves) j = 0" by simp
  then have f: "f = 0" using 0 l by simp
  have "last_at leaves j = 1" using last_at_drop [OF n(1), of j] z by simp
  then have "siblings H leaves j 1 (last_at leaves j) = [node_at H leaves j 0]" by (simp add: siblings.simps [of H leaves j])
  then show ?case using z by (simp add: l f node_at_def)
next
  case (Suc d)
  let ?r = "drop (2 ^ j) leaves"
  have s: "last_at leaves l = last_at ?r l + 2 ^ (j - l)" using n Suc.prems by (intro last_at_drop) auto
  have pow: "(2 :: nat) ^ (j - l) = 2 * 2 ^ (j - Suc l)" using Suc.hyps(2) by (metis Suc_diff_Suc power_Suc zero_less_Suc zero_less_diff)
  have half: "(f + 2 ^ (j - l)) div 2 = f div 2 + 2 ^ (j - Suc l)" unfolding pow by simp
  have IH: "siblings H leaves (Suc l) ((f + 2 ^ (j - l)) div 2) (last_at leaves l div 2) =
      siblings H ?r (Suc l) (f div 2) (last_at ?r l div 2) @ [mth H (take (2 ^ j) leaves)]"
    unfolding half using Suc.hyps(1) [of "Suc l" "f div 2"] Suc.hyps(2) Suc.prems
    by (simp add: div_Suc_level div_le_mono del: power_Suc)
  define c where "c = (2 :: nat) ^ (j - l)"
  have c: "even c" "0 < c" unfolding c_def pow by simp_all
  have block: "node_at H ?r l a = node_at H leaves l (a + c)" for a unfolding c_def using Suc.prems(1) by (rule node_at_drop)
  note IH = IH [folded c_def] and s = s [folded c_def]
  have low: "odd f \<Longrightarrow> node_at H ?r l (f - 1) = node_at H leaves l (f + c - 1)" by (cases f) (auto simp: block)
  show ?case
  proof (cases "last_at ?r l = 0")
    case True
    then have "f = 0" using Suc.prems(2) by simp
    then show ?thesis unfolding c_def [symmetric] using IH True s c by (subst siblings.simps [of H leaves l]) simp
  next
    case False
    have up: "node_at H ?r l (f + 1) = node_at H leaves l (f + c + 1)" by (simp add: block)
    show ?thesis unfolding c_def [symmetric] siblings.simps [of H leaves l] siblings.simps [of H ?r l f] low up
      using IH s c False low up by simp
  qed
qed

section \<open>The verifier of inclusion\<close>

lemma walk_siblings:
  assumes "leaves \<noteq> []" "s = last_at leaves l" "f \<le> s"
  shows "walk H f s (node_at H leaves l f) (siblings H leaves l f s) = Some (0, mth H leaves)"
  using assms(2,3)
proof (induction s arbitrary: l f rule: less_induct)
  case (less s)
  from assms(1) less.prems show ?case
  proof (cases rule: level_cases [where H = H])
    case (left d f')
    from less.IH [OF left(12,10,11)] left(1-3,7,9) show ?thesis by (simp del: One_nat_def)
  next
    case right
    from less.IH [OF right(9,7,8)] right(1-4,6) show ?thesis by (simp del: One_nat_def)
  qed simp
qed

text \<open>The pairs a verifier hashes along a path.\<close>

fun walk_inputs :: "(byte list \<Rightarrow> hash) \<Rightarrow> nat \<Rightarrow> nat \<Rightarrow> hash \<Rightarrow> hash list \<Rightarrow> (hash \<times> hash) set" where
  "walk_inputs H f s r [] = {}"
| "walk_inputs H f s r (p # ps) =
     (if s = 0 then {}
      else if odd f \<or> f = s then
        (let (f', s') = if even f then climb f s else (f, s) in
         insert (p, r) (walk_inputs H (f' div 2) (s' div 2) (node_hash H p r) ps))
      else insert (r, p) (walk_inputs H (f div 2) (s div 2) (node_hash H r p) ps))"

lemma walk_unique:
  assumes inj: "inj_on (\<lambda>(a, b). node_hash H a b) (X \<union> tree_inputs H leaves)" and "leaves \<noteq> []"
    and "walk_inputs H f s r ps \<subseteq> X" "walk H f s r ps = Some (0, mth H leaves)" "s = last_at leaves l" "f \<le> s"
  shows "r = node_at H leaves l f \<and> ps = siblings H leaves l f s"
  using assms(3-6)
proof (induction s arbitrary: l f r ps rule: less_induct)
  case (less s)
  have pair: "a = c \<and> b = d"
    if "node_hash H a b = node_hash H c d" "(a, b) \<in> X" "(c, d) \<in> tree_inputs H leaves" for a b c d
    using inj_onD [OF inj, of "(a, b)" "(c, d)"] that by auto
  from assms(2) less.prems(3,4) show ?case
  proof (cases rule: level_cases [where H = H])
    case root
    then show ?thesis using less.prems(2) by (cases ps) auto
  next
    case (left d f')
    obtain p ps' where ps: "ps = p # ps'" using less.prems(2) left(1) by (cases ps) auto
    have hashed: "(p, r) \<in> X" "walk_inputs H (f' div 2) (s div 2 ^ d div 2) (node_hash H p r) ps' \<subseteq> X"
      and run: "walk H (f' div 2) (s div 2 ^ d div 2) (node_hash H p r) ps' = Some (0, mth H leaves)"
      using less.prems(1,2) left(1-3) by (simp_all add: ps)
    from less.IH [OF left(12) hashed(2) run left(10,11)]
    have "node_hash H p r = node_at H leaves (Suc (l + d)) (f' div 2)" "ps' = siblings H leaves (Suc (l + d)) (f' div 2) (s div 2 ^ d div 2)" by auto
    with pair [OF _ hashed(1) left(8)] left(7,9) show ?thesis by (simp add: ps)
  next
    case right
    obtain p ps' where ps: "ps = p # ps'" using less.prems(2) right(1) by (cases ps) auto
    have hashed: "(r, p) \<in> X" "walk_inputs H (f div 2) (s div 2) (node_hash H r p) ps' \<subseteq> X"
      and run: "walk H (f div 2) (s div 2) (node_hash H r p) ps' = Some (0, mth H leaves)"
      using less.prems(1,2) right(1-3) by (simp_all add: ps)
    from less.IH [OF right(9) hashed(2) run right(7,8)]
    have "node_hash H r p = node_at H leaves (Suc l) (f div 2)" "ps' = siblings H leaves (Suc l) (f div 2) (s div 2)" by auto
    with pair [OF _ hashed(1) right(5)] right(4,6) show ?thesis by (simp add: ps)
  qed
qed

section \<open>Audit paths\<close>

lemma split_point_power: "1 < n \<Longrightarrow> \<exists>j. split_point n = 2 ^ j \<and> 2 ^ j < n \<and> n \<le> 2 * 2 ^ j"
  using split_point_bounds [of n] by (auto simp: split_point_def)

lemma audit_path_siblings:
  "i < length leaves \<Longrightarrow> audit_path H leaves i = siblings H leaves 0 i (last_at leaves 0)"
proof (induction "length leaves" arbitrary: leaves i rule: less_induct)
  case less
  show ?case
  proof (cases "length leaves \<le> 1")
    case True
    then show ?thesis using less.prems by (simp add: audit_path.simps siblings.simps)
  next
    case False
    then obtain j where j: "split_point (length leaves) = 2 ^ j" "2 ^ j < length leaves" "length leaves \<le> 2 * 2 ^ j"
      using split_point_power [of "length leaves"] by auto
    let ?l = "take (2 ^ j) leaves" and ?r = "drop (2 ^ j) leaves"
    show ?thesis
    proof (cases "i < 2 ^ j")
      case True
      have "audit_path H ?l i = siblings H ?l 0 i (last_at ?l 0)" using less.hyps [of ?l i] j True by simp
      with siblings_left [OF j(2,3), of 0 i H] True False j(1) show ?thesis by (simp add: audit_path.simps [of H leaves] Let_def)
    next
      case i: False
      have "audit_path H ?r (i - 2 ^ j) = siblings H ?r 0 (i - 2 ^ j) (last_at ?r 0)"
        using less.hyps [of ?r "i - 2 ^ j"] less.prems j i by simp
      with siblings_right [OF j(2,3), of 0 "i - 2 ^ j" H] i less.prems False j(1) show ?thesis
        by (simp add: audit_path.simps [of H leaves] Let_def)
    qed
  qed
qed

lemma length_siblings: "s \<noteq> 0 \<Longrightarrow> length (siblings H leaves l f s) \<le> Suc (high_bit s)"
proof (induction s arbitrary: l f rule: less_induct)
  case (less s)
  have "length (siblings H leaves (Suc l) (f div 2) (s div 2)) \<le> high_bit s"
    using less.IH [of "s div 2" "Suc l" "f div 2"] less.prems by (cases "s < 2") (auto simp: high_bit.simps [of s])
  then show ?case using less.prems by (subst siblings.simps) auto
qed

lemma siblings_short: "leaves \<noteq> [] \<Longrightarrow> 2 ^ length (siblings H leaves l f (last_at leaves 0)) < 2 * length leaves"
proof (cases "last_at leaves 0 = 0")
  case False
  let ?s = "last_at leaves 0"
  have "2 ^ length (siblings H leaves l f ?s) \<le> (2 :: nat) ^ Suc (high_bit ?s)"
    using length_siblings [OF False] by (rule power_increasing) simp
  also have "\<dots> \<le> 2 * ?s" using high_bit_bounds [of ?s] False by simp
  also have "\<dots> < 2 * length leaves" using False by simp
  finally show ?thesis .
next
  case True
  assume "leaves \<noteq> []"
  then show ?thesis unfolding True by (cases leaves) simp_all
qed

lemma inclusion_verifies:
  assumes "i < length leaves"
  shows "\<exists>p. prove_inclusion H leaves i = Inr p \<and> verify_inclusion H p (leaves ! i) (merkle_root H leaves) \<and>
    2 ^ length (ip_path p) < 2 * length leaves"
proof -
  have ne: "leaves \<noteq> []" using assms by auto
  have "walk H i (length leaves - 1) (leaves ! i) (audit_path H leaves i) = Some (0, mth H leaves)"
    using walk_siblings [OF ne, of "last_at leaves 0" 0 i H] assms
    by (simp add: node_at_0 audit_path_siblings)
  with siblings_short [OF ne, of H 0 i] assms show ?thesis
    by (simp add: prove_inclusion_def verify_inclusion_def merkle_root_def audit_path_siblings)
qed

text \<open>
  C10: every leaf of a log has an inclusion proof; it verifies against the root, and its path has at most
  the base-2 logarithm of the tree size, rounded up, many hashes.
\<close>

theorem inclusion_proof_verifies:
  assumes "i < length leaves"
  shows "\<exists>p. prove_inclusion H leaves i = Inr p \<and> verify_inclusion H p (leaves ! i) (merkle_root H leaves) \<and>
    2 ^ length (ip_path p) < 2 * length leaves"
  using assms by (rule inclusion_verifies)

text \<open>
  C11: an inclusion proof that verifies against the root of a log of the size it names is the proof of
  that position, and the leaf is the one the log has there, unless the hash function collides on
  the pairs that tree and verifier hash.
\<close>

theorem inclusion_proof_sound:
  assumes "verify_inclusion H p leaf (merkle_root H leaves)" "ip_tree_size p = length leaves"
    and no_collision: "inj_on (\<lambda>(a, b). node_hash H a b)
      (walk_inputs H (ip_leaf_index p) (ip_tree_size p - 1) leaf (ip_path p) \<union> tree_inputs H leaves)"
  shows "ip_leaf_index p < length leaves \<and> leaf = leaves ! ip_leaf_index p \<and> prove_inclusion H leaves (ip_leaf_index p) = Inr p"
proof -
  have i: "ip_leaf_index p < length leaves" "walk H (ip_leaf_index p) (last_at leaves 0) leaf (ip_path p) = Some (0, mth H leaves)"
    using assms(1,2) by (simp_all add: verify_inclusion_def merkle_root_def)
  then have ne: "leaves \<noteq> []" by auto
  have "leaf = node_at H leaves 0 (ip_leaf_index p) \<and> ip_path p = siblings H leaves 0 (ip_leaf_index p) (last_at leaves 0)"
    using no_collision ne _ i(2) by (rule walk_unique) (use i(1) assms(2) in simp_all)
  with i(1) assms(2) show ?thesis by (cases p) (simp add: prove_inclusion_def node_at_0 audit_path_siblings)
qed

end
