(* ===== verification/Merkle_Consistency.thy ===== *)
theory Merkle_Consistency
  imports Merkle_Proofs
begin

text \<open>
  Consistency proofs: the proof that a log extends one of its prefixes verifies, and a proof that
  verifies against the root of a log is about the prefix of that log. The stored form of a path
  reads back.
\<close>

section \<open>The first node of a consistency proof\<close>

text \<open>The number of trailing one bits.\<close>

function ones :: "nat \<Rightarrow> nat" where
  "ones f = (if odd f then Suc (ones (f div 2)) else 0)"
  by pat_completeness auto
termination
  by (relation "measure id") (auto elim: oddE)

declare ones.simps [simp del]

lemma skip_ones_eq: "skip_ones f s = (f div 2 ^ ones f, s div 2 ^ ones f)"
proof (induction f arbitrary: s rule: ones.induct)
  case (1 f)
  then show ?case
    by (cases "odd f") (simp_all add: skip_ones.simps [of f s] ones.simps [of f] div_mult2_eq)
qed

lemma ones_spec: "even (f div 2 ^ ones f) \<and> (f div 2 ^ ones f + 1) * 2 ^ ones f = f + 1"
proof (induction f rule: ones.induct)
  case (1 f)
  show ?case
  proof (cases "odd f")
    case True
    then obtain h where f: "f = 2 * h + 1" by (rule oddE)
    have "even (h div 2 ^ ones h)" "(h div 2 ^ ones h + 1) * 2 ^ ones h = h + 1" using 1 True by (simp_all add: f)
    moreover have "ones f = Suc (ones h)" "f div 2 ^ ones f = h div 2 ^ ones h" by (simp_all add: f ones.simps [of "Suc (2 * h)"] div_mult2_eq)
    moreover have "2 * ((h div 2 ^ ones h + 1) * 2 ^ ones h) = f + 1" unfolding calculation(2) f by simp
    ultimately show ?thesis by (simp add: algebra_simps)
  qed (simp add: ones.simps [of f])
qed

lemma ones_unique: "even q \<Longrightarrow> (q + 1) * 2 ^ t = f + 1 \<Longrightarrow> ones f = t"
proof (induction t arbitrary: f)
  case 0
  then show ?case by (simp add: ones.simps [of f])
next
  case (Suc t)
  then have eq: "2 * ((q + 1) * 2 ^ t) = f + 1" by (simp add: algebra_simps)
  then have "odd f" by (metis even_add even_mult_iff odd_one even_numeral)
  then obtain h where f: "f = 2 * h + 1" by (rule oddE)
  then have "ones h = t" using eq Suc.IH [OF Suc.prems(1)] by simp
  then show ?case by (simp add: ones.simps [of "Suc (2 * h)"] f)
qed

definition prefix_path :: "(byte list \<Rightarrow> hash) \<Rightarrow> hash list \<Rightarrow> nat \<Rightarrow> hash list" where
  "prefix_path H leaves m = (let t = ones (m - 1); f = (m - 1) div 2 ^ t in
     node_at H leaves t f # siblings H leaves t f (last_at leaves t))"

lemma le_block: "(f + 1) * w = m \<Longrightarrow> w \<le> (m :: nat)"
  by auto

lemma prefix_block:
  assumes "0 < m" "t = ones (m - 1)" "f = (m - 1) div 2 ^ t"
  shows "even f" "(f + 1) * 2 ^ t = m"
  using assms ones_spec [of "m - 1"] by auto

lemma prefix_path_full:
  assumes "length leaves = 2 ^ j"
  shows "prefix_path H leaves (length leaves) = [mth H leaves]"
proof -
  have "ones (2 ^ j - 1) = j" by (rule ones_unique [of 0]) simp_all
  then show ?thesis using assms by (simp add: prefix_path_def node_at_root)
qed

lemma prefix_path_left:
  assumes n: "2 ^ j < length leaves" "length leaves \<le> 2 * 2 ^ j" and m: "0 < m" "m \<le> 2 ^ j"
  shows "prefix_path H leaves m = prefix_path H (take (2 ^ j) leaves) m @ [mth H (drop (2 ^ j) leaves)]"
proof -
  define t f where "t = ones (m - 1)" "f = (m - 1) div 2 ^ t"
  note b = prefix_block [OF m(1) this]
  have "2 ^ t \<le> m" using le_block [OF b(2)] .
  then have "2 ^ t \<le> (2 :: nat) ^ j" using m(2) by (rule order_trans)
  then have t: "t \<le> j" by (rule power_le_imp_le_exp [rotated]) simp
  then have "(f + 1) * 2 ^ t \<le> 2 ^ (j - t) * 2 ^ t" using b(2) m(2) by (simp add: power_add [symmetric])
  then have "f < 2 ^ (j - t)" by (simp only: mult_le_cancel2) simp
  with siblings_left [OF n t, of f H] node_at_take [of f t "2 ^ j" H leaves] b(2) m(2) show ?thesis
    unfolding prefix_path_def Let_def t_f_def [symmetric] by simp
qed

lemma prefix_path_right:
  assumes n: "2 ^ j < length leaves" "length leaves \<le> 2 * 2 ^ j" and m: "2 ^ j < m" "m < length leaves"
  shows "prefix_path H leaves m = prefix_path H (drop (2 ^ j) leaves) (m - 2 ^ j) @ [mth H (take (2 ^ j) leaves)]"
proof -
  define t f where "t = ones (m - 2 ^ j - 1)" "f = (m - 2 ^ j - 1) div 2 ^ t"
  have b: "even f" "(f + 1) * 2 ^ t = m - 2 ^ j" using prefix_block [OF _ t_f_def] m(1) by simp_all
  have "2 ^ t \<le> m - 2 ^ j" using le_block [OF b(2)] .
  then have "2 ^ t < (2 :: nat) ^ j" using m(2) n(2) by linarith
  then have t: "t < j" by simp
  then have pow: "(2 :: nat) ^ (j - t) * 2 ^ t = 2 ^ j" "even ((2 :: nat) ^ (j - t))" by (simp_all add: power_add [symmetric])
  have whole: "(f + 2 ^ (j - t) + 1) * 2 ^ t = m - 1 + 1" using b(2) pow(1) m(1) by (simp add: add_mult_distrib)
  then have ones: "ones (m - 1) = t" using b(1) pow(2) by (intro ones_unique [of "f + 2 ^ (j - t)"]) simp_all
  have f: "(m - 1) div 2 ^ t = f + 2 ^ (j - t)" using ones_spec [of "m - 1"] whole unfolding ones
    by (metis add_right_cancel mult_cancel2 power_not_zero zero_neq_numeral)
  have "f \<le> last_at (drop (2 ^ j) leaves) t" unfolding t_f_def using m(2) by (intro div_le_mono) simp
  with siblings_right [OF n less_imp_le [OF t], of f H] node_at_drop [OF less_imp_le [OF t]] show ?thesis
    unfolding prefix_path_def Let_def ones f t_f_def [symmetric] by simp
qed

lemma power_of_two_between: "2 ^ j < m \<Longrightarrow> m < 2 * 2 ^ j \<Longrightarrow> \<not> is_power_of_two m"
  using high_bit_unique [of j m] by (auto simp: is_power_of_two_def)

lemma is_power_of_two_power [simp]: "is_power_of_two (2 ^ j)"
  by (simp add: is_power_of_two_def high_bit_unique [of j])

lemma subproof_prefix_path:
  assumes "0 < m" "m < length leaves \<or> m = length leaves \<and> (\<exists>j. m = 2 ^ j)"
  shows "subproof H leaves m False = prefix_path H leaves m \<and>
    (if is_power_of_two m then [mth H (take m leaves)] else []) @ subproof H leaves m True = prefix_path H leaves m"
  using assms
proof (induction "length leaves" arbitrary: leaves m rule: less_induct)
  case less
  show ?case
  proof (cases "m = length leaves")
    case True
    then show ?thesis using less.prems(2) prefix_path_full [of leaves _ H] by (auto simp: subproof.simps [of H leaves])
  next
    case False
    with less.prems have m: "0 < m" "m < length leaves" "1 < length leaves" by auto
    then obtain j where j: "split_point (length leaves) = 2 ^ j" "2 ^ j < length leaves" "length leaves \<le> 2 * 2 ^ j"
      using split_point_power by blast
    show ?thesis
    proof (cases "m \<le> 2 ^ j")
      case le: True
      have "subproof H (take (2 ^ j) leaves) m False = prefix_path H (take (2 ^ j) leaves) m"
        "(if is_power_of_two m then [mth H (take m (take (2 ^ j) leaves))] else []) @ subproof H (take (2 ^ j) leaves) m True =
          prefix_path H (take (2 ^ j) leaves) m"
        using less.hyps [of "take (2 ^ j) leaves" m] m(1) le j(2) by (auto simp: le_less)
      then show ?thesis unfolding subproof.simps [of H leaves] prefix_path_left [OF j(2,3) m(1) le, of H]
        using m le j(1) by (auto simp: min_def Let_def split: if_splits)
    next
      case gt: False
      have "subproof H (drop (2 ^ j) leaves) (m - 2 ^ j) False = prefix_path H (drop (2 ^ j) leaves) (m - 2 ^ j)"
      proof -
        have "m - 2 ^ j < length leaves - 2 ^ j" "0 < m - 2 ^ j" using m gt by simp_all
        moreover have "length leaves - 2 ^ j < length leaves" by (rule diff_less) (use m in auto)
        ultimately show ?thesis using less.hyps [of "drop (2 ^ j) leaves" "m - 2 ^ j"] by simp
      qed
      moreover have "\<not> is_power_of_two m" using gt m j(3) by (intro power_of_two_between [of j]) auto
      ultimately show ?thesis unfolding subproof.simps [of H leaves] using prefix_path_right [OF j(2,3) _ m(2), of H] m gt j(1)
        by (simp add: Let_def)
    qed
  qed
qed

section \<open>The verifier of consistency\<close>

lemma walk2_walk: "map_option (\<lambda>(s', fr', sr'). (s', sr')) (walk2 H f s fr sr cs) = walk H f s sr cs"
  by (induction cs arbitrary: f s fr sr) (auto split: prod.splits)

lemma walk2_siblings:
  assumes "0 < m" "m \<le> length leaves" "s = last_at leaves l" "f = (m - 1) div 2 ^ l"
  shows "walk2 H f s (node_at H (take m leaves) l f) (node_at H leaves l f) (siblings H leaves l f s) =
    Some (0, mth H (take m leaves), mth H leaves)"
  using assms(3,4)
proof (induction s arbitrary: l f rule: less_induct)
  case (less s)
  let ?old = "take m leaves"
  have ne: "leaves \<noteq> []" "?old \<noteq> []" using assms(1,2) by auto
  have last: "(m - 1) div 2 ^ i = last_at ?old i" for i using assms(2) by (simp add: min_def)
  have "f \<le> s" unfolding less.prems using assms(2) by (intro div_le_mono) simp
  from ne(1) less.prems(1) this show ?case
  proof (cases rule: level_cases [where H = H])
    case root
    then have "length leaves \<le> 2 ^ l" using ne(1) less.prems(1) by (simp add: div_eq_0_iff Suc_le_eq [symmetric])
    then show ?thesis using root assms(2) by (simp add: node_at_root)
  next
    case (left d f')
    have f': "f' = (m - 1) div 2 ^ (l + d)" using left(4) less.prems(2) by (simp add: div_add_level)
    have up: "node_at H ?old (l + d) f' = node_at H ?old l f"
      unfolding left(4) using less.prems(2) last ne(2) left(6) by (intro node_at_climb) simp_all
    have "f' * 2 ^ (l + d) \<le> m" unfolding f' by (rule order_trans [OF div_times_less_eq_dividend]) simp
    moreover have "f' - 1 + 1 = f'" using left(5) by (cases f') simp_all
    ultimately have low: "node_at H ?old (l + d) (f' - 1) = node_at H leaves (l + d) (f' - 1)" by (intro node_at_take) simp
    have old: "node_at H ?old (Suc (l + d)) (f' div 2) = node_hash H (node_at H leaves (l + d) (f' - 1)) (node_at H ?old l f)"
      using node_at_odd(1) [OF left(5) _ ne(2), of "l + d" H] f' last up low by simp
    have "f' div 2 = (m - 1) div 2 ^ Suc (l + d)" using f' by (simp only: div_Suc_level)
    from less.IH [OF left(12,10) this] left(1-3,7,9) old show ?thesis by (simp del: One_nat_def)
  next
    case right
    have old: "node_at H ?old (Suc l) (f div 2) = node_at H ?old l f"
      using less.prems(2) last ne(2) right(2) by (intro node_at_last) simp_all
    have "f div 2 = (m - 1) div 2 ^ Suc l" using less.prems(2) by (simp only: div_Suc_level)
    from less.IH [OF right(9,7) this] right(1-4,6) old show ?thesis by (simp del: One_nat_def)
  qed
qed

definition consistency_start :: "consistency_proof \<Rightarrow> hash \<Rightarrow> hash list" where
  "consistency_start p old_root = (if is_power_of_two (cp_old_size p) then old_root # cp_path p else cp_path p)"

lemma verify_consistency_walk:
  assumes "0 < cp_old_size p" "cp_old_size p < cp_new_size p"
  shows "verify_consistency H p old_root new_root \<longleftrightarrow> (let t = ones (cp_old_size p - 1) in
    \<exists>first rest. consistency_start p old_root = first # rest \<and>
      walk2 H ((cp_old_size p - 1) div 2 ^ t) ((cp_new_size p - 1) div 2 ^ t) first first rest = Some (0, old_root, new_root))"
  using assms by (cases "consistency_start p old_root")
    (simp_all add: verify_consistency_def consistency_start_def skip_ones_eq Let_def split: if_splits)

lemma prefix_first:
  assumes "0 < m" "t = ones (m - 1)" "f = (m - 1) div 2 ^ t"
  shows "node_at H (take m leaves) t f = node_at H leaves t f"
  using prefix_block(2) [OF assms] by (intro node_at_take) simp

lemma consistency_verifies:
  assumes "0 < m" "m \<le> length leaves"
  shows "\<exists>p. prove_consistency H leaves m = Inr p \<and> cp_old_size p = m \<and> cp_new_size p = length leaves \<and>
    verify_consistency H p (merkle_root H (take m leaves)) (merkle_root H leaves)"
proof -
  let ?p = "\<lparr>cp_old_size = m, cp_new_size = length leaves, cp_path = subproof H leaves m True\<rparr>"
  have "verify_consistency H ?p (mth H (take m leaves)) (mth H leaves)"
  proof (cases "m = length leaves")
    case True
    then show ?thesis using assms by (simp add: verify_consistency_def subproof.simps [of H leaves])
  next
    case False
    let ?t = "ones (m - 1)" and ?f = "(m - 1) div 2 ^ ones (m - 1)"
    have m: "m < length leaves" using False assms(2) by simp
    have "consistency_start ?p (mth H (take m leaves)) = prefix_path H leaves m"
      using subproof_prefix_path [OF assms(1), of leaves H] m by (auto simp: consistency_start_def)
    then show ?thesis using walk2_siblings [OF assms refl refl, of H ?t] prefix_first [OF assms(1) refl refl, of H leaves] assms(1) m
      by (simp add: verify_consistency_walk prefix_path_def Let_def)
  qed
  with assms show ?thesis by (simp add: prove_consistency_def merkle_root_def)
qed

text \<open>
  C12: a log proves that it extends each of its non-empty prefixes, and the proof verifies against the
  two roots.
\<close>

theorem consistency_proof_verifies:
  assumes "0 < m" "m \<le> length leaves"
  shows "\<exists>p. prove_consistency H leaves m = Inr p \<and> verify_consistency H p (merkle_root H (take m leaves)) (merkle_root H leaves)"
  using consistency_verifies [OF assms] by blast

text \<open>
  C13: no leaf is dropped or reordered. A consistency proof that verifies against the root of a log of the
  size it names has as its old root the root of the prefix of that log, unless the hash function
  collides on the pairs that tree and verifier hash.
\<close>

theorem consistency_proof_sound:
  assumes "verify_consistency H p old_root (merkle_root H leaves)" "cp_new_size p = length leaves"
    and no_collision: "\<And>first rest f s. consistency_start p old_root = first # rest \<Longrightarrow>
      skip_ones (cp_old_size p - 1) (cp_new_size p - 1) = (f, s) \<Longrightarrow>
      inj_on (\<lambda>(a, b). node_hash H a b) (walk_inputs H f s first rest \<union> tree_inputs H leaves)"
  shows "0 < cp_old_size p \<and> cp_old_size p \<le> length leaves \<and> old_root = merkle_root H (take (cp_old_size p) leaves)"
proof -
  let ?m = "cp_old_size p" and ?t = "ones (cp_old_size p - 1)"
  have m: "0 < ?m" "?m \<le> length leaves" using assms(1,2) by (auto simp: verify_consistency_def split: if_splits)
  show ?thesis
  proof (cases "?m = length leaves")
    case True
    then show ?thesis using assms(1,2) m by (simp add: verify_consistency_def)
  next
    case False
    with m have less: "?m < cp_new_size p" "leaves \<noteq> []" by (auto simp: assms(2))
    let ?f = "(?m - 1) div 2 ^ ?t"
    obtain first rest where start: "consistency_start p old_root = first # rest"
      and run: "walk2 H ?f (last_at leaves ?t) first first rest = Some (0, old_root, mth H leaves)"
      using assms(1,2) unfolding verify_consistency_walk [OF m(1) less(1)] merkle_root_def Let_def by auto
    have sub: "walk H ?f (last_at leaves ?t) first rest = Some (0, mth H leaves)"
      using walk2_walk [of H ?f "last_at leaves ?t" first first rest] run by simp
    have "inj_on (\<lambda>(a, b). node_hash H a b) (walk_inputs H ?f (last_at leaves ?t) first rest \<union> tree_inputs H leaves)"
      using no_collision [OF start skip_ones_eq] assms(2) by simp
    then have "first = node_at H leaves ?t ?f \<and> rest = siblings H leaves ?t ?f (last_at leaves ?t)"
      using less(2) order_refl sub refl by (rule walk_unique) (use m(2) in \<open>simp add: div_le_mono diff_le_mono\<close>)
    with walk2_siblings [OF m refl refl, of H ?t] prefix_first [OF m(1) refl refl, of H leaves] run m show ?thesis
      by (simp add: merkle_root_def)
  qed
qed

section \<open>Stored paths\<close>

lemma unflatten_flatten: "unflatten (flatten path) = Inr path"
proof -
  have "map from_be_bytes (chunks_exact 32 (flatten path)) = path"
    by (induction path) (simp_all add: flatten_def chunks_exact.simps hash_bytes_def from_to_be_bytes)
  moreover have "length (flatten path) = 32 * length path" by (induction path) (simp_all add: flatten_def hash_bytes_def)
  ultimately show ?thesis by (simp add: unflatten_def)
qed

lemma stored_path_roundtrip:
  "inclusion_from_path_bytes (ip_leaf_index p) (ip_tree_size p) (inclusion_path_bytes p) = Inr p"
  "consistency_from_path_bytes (cp_old_size q) (cp_new_size q) (consistency_path_bytes q) = Inr q"
  by (simp_all add: inclusion_from_path_bytes_def inclusion_path_bytes_def consistency_from_path_bytes_def
      consistency_path_bytes_def unflatten_flatten)

section \<open>A log of two leaves\<close>

definition pair_H :: "byte list \<Rightarrow> hash" where
  "pair_H bs = from_be_bytes (drop (length bs - 32) bs) + 1"

lemma pair_tree_inputs: "tree_inputs H [x, y] = {(x, y)}"
proof -
  have "(2 * a + 1) * 2 ^ l < length [x, y] \<longleftrightarrow> a = 0 \<and> l = 0" for a l :: nat
  proof
    assume "(2 * a + 1) * 2 ^ l < length [x, y]"
    moreover have "1 * 2 ^ l \<le> (2 * a + 1) * 2 ^ l" "(2 * a + 1) * 1 \<le> (2 * a + 1) * (2 :: nat) ^ l" by (intro mult_le_mono; simp)+
    ultimately have "2 ^ l < (2 :: nat) ^ 1" "a = 0" by simp_all
    then show "a = 0 \<and> l = 0" using power_less_imp_less_exp [of 2 l 1] by simp
  qed simp
  then show ?thesis unfolding tree_inputs_def by (auto simp: node_at_def)
qed

lemma mth_pair: "mth H [x, y] = node_hash H x y"
proof -
  have "split_point 2 = 1" using split_point_unique [of 0 2] by simp
  then show ?thesis by (simp add: numeral_2_eq_2)
qed

lemma first_of_pair: "is_power_of_two 1" "skip_ones 0 s = (0, s)"
  using is_power_of_two_power [of 0] by (simp_all add: skip_ones.simps)

theorem inclusion_proof_verifies_witness:
  "\<exists>p. prove_inclusion pair_H [3, 5, 9] 2 = Inr p \<and> verify_inclusion pair_H p 9 (merkle_root pair_H [3, 5, 9]) \<and>
     2 ^ length (ip_path p) < (6 :: nat)"
  using inclusion_proof_verifies [of 2 "[3, 5, 9]" pair_H] by simp

theorem inclusion_proof_sound_witness:
  "prove_inclusion pair_H [3, 5] 0 = Inr \<lparr>ip_leaf_index = 0, ip_tree_size = 2, ip_path = [5]\<rparr>"
  using inclusion_proof_sound [of pair_H "\<lparr>ip_leaf_index = 0, ip_tree_size = 2, ip_path = [5]\<rparr>" 3 "[3, 5]"]
  by (simp add: pair_tree_inputs verify_inclusion_def merkle_root_def mth_pair del: mth.simps(3))

theorem consistency_proof_verifies_witness:
  "\<exists>p. prove_consistency pair_H [3, 5, 9] 2 = Inr p \<and> verify_consistency pair_H p (merkle_root pair_H [3, 5]) (merkle_root pair_H [3, 5, 9])"
  using consistency_proof_verifies [of 2 "[3, 5, 9]" pair_H] by simp

theorem consistency_proof_sound_witness:
  "merkle_root pair_H [3] = merkle_root pair_H (take 1 [3, 5])"
proof -
  let ?p = "\<lparr>cp_old_size = 1, cp_new_size = 2, cp_path = [5]\<rparr>"
  have start: "consistency_start ?p 3 = [3, 5]" by (simp add: consistency_start_def first_of_pair(1) [simplified])
  have "verify_consistency pair_H ?p (merkle_root pair_H [3]) (merkle_root pair_H [3, 5])"
    by (simp add: verify_consistency_def merkle_root_def first_of_pair [simplified] mth_pair del: mth.simps(3))
  from consistency_proof_sound [OF this] start show ?thesis
    by (simp add: merkle_root_def first_of_pair(2) pair_tree_inputs)
qed

end
