(* ===== verification/Limiter.thy ===== *)
theory Limiter
  imports Prelude
begin

text \<open>
  The rate limiter of the gateway, \<^verbatim>\<open>crates/cc-gateway/src/limit.rs\<close>: per client, the theoretical
  arrival time of its next request. Instants and durations are numbers of nanoseconds; a check reads
  the clock once, holds the lock of the table for its whole length and is one step.
\<close>

section \<open>Clients\<close>

datatype ip_addr = V4 u32 | V6 u16 u16 u16 u16 u16 u16 u16 u16

fun to_ipv4_mapped :: "ip_addr \<Rightarrow> u32 option" where
  "to_ipv4_mapped (V6 a b c d e f g h) =
     (if a = 0 \<and> b = 0 \<and> c = 0 \<and> d = 0 \<and> e = 0 \<and> f = 0xffff then Some (word_cat g h) else None)"
| "to_ipv4_mapped (V4 a) = None"

fun client_key :: "ip_addr \<Rightarrow> ip_addr" where
  "client_key (V4 a) = V4 a"
| "client_key (V6 a b c d e f g h) = (case to_ipv4_mapped (V6 a b c d e f g h) of
     Some v4 \<Rightarrow> V4 v4 | None \<Rightarrow> V6 a b c d 0 0 0 0)"

section \<open>The limiter\<close>

record limiter =
  li_interval :: nat
  li_tolerance :: nat
  li_max_tracked :: nat
  li_tat :: "(ip_addr, nat) fmap"

definition MAX_TRACKED :: nat where
  "MAX_TRACKED = 100000"

definition MINUTE :: nat where
  "MINUTE = 60000000000"

definition div_ceil :: "nat \<Rightarrow> nat \<Rightarrow> nat" where
  "div_ceil a b = (if a mod b = 0 then a div b else a div b + 1)"

definition with_capacity :: "u32 \<Rightarrow> nat \<Rightarrow> limiter" where
  "with_capacity rate_per_minute max_tracked =
     (let rate = max (unat rate_per_minute) 1; interval = div_ceil MINUTE rate in
      \<lparr>li_interval = interval, li_tolerance = interval * (rate - 1), li_max_tracked = max_tracked, li_tat = fmempty\<rparr>)"

definition new_limiter :: "u32 \<Rightarrow> limiter" where
  "new_limiter rate_per_minute = with_capacity rate_per_minute MAX_TRACKED"

definition retain_after :: "nat \<Rightarrow> (ip_addr, nat) fmap \<Rightarrow> (ip_addr, nat) fmap" where
  "retain_after now table = fmfilter (\<lambda>k. case fmlookup table k of Some tat \<Rightarrow> now < tat | None \<Rightarrow> False) table"

definition check_key :: "limiter \<Rightarrow> (ip_addr, nat) fmap \<Rightarrow> ip_addr \<Rightarrow> nat \<Rightarrow> (nat + unit) \<times> limiter" where
  "check_key l table key now =
     (let tat = max (case fmlookup table key of Some t \<Rightarrow> t | None \<Rightarrow> now) now; ahead = tat - now in
      if li_tolerance l < ahead then (Inl (ahead - li_tolerance l), l\<lparr>li_tat := table\<rparr>)
      else (Inr (), l\<lparr>li_tat := fmupd key (tat + li_interval l) table\<rparr>))"

definition check_at :: "limiter \<Rightarrow> ip_addr \<Rightarrow> nat \<Rightarrow> (nat + unit) \<times> limiter" where
  "check_at l ip now = (let key = client_key ip; table = li_tat l in
     if \<not> has table key \<and> li_max_tracked l \<le> fcard (fmdom table) then
       let kept = retain_after now table in
       if li_max_tracked l \<le> fcard (fmdom kept) then (Inl (li_interval l), l\<lparr>li_tat := kept\<rparr>)
       else check_key l kept key now
     else check_key l table key now)"

text \<open>The requests that a sequence of checks admits, with their times.\<close>

fun admitted_by :: "limiter \<Rightarrow> (ip_addr \<times> nat) list \<Rightarrow> (ip_addr \<times> nat) list" where
  "admitted_by l [] = []"
| "admitted_by l ((ip, now) # reqs) = (case check_at l ip now of
     (Inr _, l') \<Rightarrow> (ip, now) # admitted_by l' reqs
   | (Inl _, l') \<Rightarrow> admitted_by l' reqs)"

fun checked :: "limiter \<Rightarrow> (ip_addr \<times> nat) list \<Rightarrow> limiter" where
  "checked l [] = l"
| "checked l ((ip, now) # reqs) = checked (snd (check_at l ip now)) reqs"

section \<open>One check\<close>

definition schedule :: "limiter \<Rightarrow> ip_addr \<Rightarrow> nat \<Rightarrow> nat" where
  "schedule l k now = max (case fmlookup (li_tat l) k of Some t \<Rightarrow> t | None \<Rightarrow> now) now"

lemma retain_after_lookup: "fmlookup (retain_after now m) k = (case fmlookup m k of Some t \<Rightarrow> if now < t then Some t else None | None \<Rightarrow> None)"
  by (simp add: retain_after_def split: option.splits)

lemma check_at_params:
  "li_interval (snd (check_at l ip now)) = li_interval l" "li_tolerance (snd (check_at l ip now)) = li_tolerance l"
  "li_max_tracked (snd (check_at l ip now)) = li_max_tracked l"
  by (simp_all add: check_at_def check_key_def Let_def)

lemma check_key_tat: "check_key (l\<lparr>li_tat := m\<rparr>) m' k now = check_key l m' k now"
  by (cases "fmlookup m' k") (simp_all add: check_key_def Let_def max_def)

lemma check_at_cases:
  obtains "check_at l ip now = (Inl (li_interval l), l\<lparr>li_tat := retain_after now (li_tat l)\<rparr>)"
  | "check_at l ip now = check_key (l\<lparr>li_tat := retain_after now (li_tat l)\<rparr>) (retain_after now (li_tat l)) (client_key ip) now"
  | "check_at l ip now = check_key l (li_tat l) (client_key ip) now"
proof (cases "\<not> has (li_tat l) (client_key ip) \<and> li_max_tracked l \<le> fcard (fmdom (li_tat l))")
  case True
  then show thesis using that(1,2)
    by (cases "li_max_tracked l \<le> fcard (fmdom (retain_after now (li_tat l)))") (simp_all add: check_at_def check_key_tat Let_def)
next
  case False
  then show thesis by (intro that(3)) (simp only: check_at_def Let_def if_False)
qed

lemma check_key_eq: "check_key l (li_tat l) k now = (if li_tolerance l < schedule l k now - now
    then (Inl (schedule l k now - now - li_tolerance l), l)
    else (Inr (), l\<lparr>li_tat := fmupd k (schedule l k now + li_interval l) (li_tat l)\<rparr>))"
  by (cases "fmlookup (li_tat l) k") (simp_all add: check_key_def schedule_def Let_def max_def)

text \<open>
  What a check does to the schedules: an admitted request moves its client's schedule on by one interval,
  and no schedule ever goes back, although idle clients are dropped from the table.
\<close>

lemma check_at_schedule:
  assumes "check_at l ip now = (r, l')"
  shows "isl r = False \<Longrightarrow> schedule l (client_key ip) now \<le> now + li_tolerance l \<and>
      (now \<le> t \<longrightarrow> schedule l (client_key ip) now + li_interval l \<le> schedule l' (client_key ip) t)"
    and "now \<le> t \<Longrightarrow> schedule l k now \<le> schedule l' k t"
proof -
  have kept: "schedule (l\<lparr>li_tat := retain_after now (li_tat l)\<rparr>) k now = schedule l k now" for k
    by (simp add: schedule_def retain_after_lookup split: option.splits)
  have later: "now \<le> t \<Longrightarrow> schedule l0 k now \<le> schedule l0 k t" for l0 k
    by (auto simp: schedule_def split: option.splits)
  have key: "(isl r' = False \<longrightarrow> schedule l0 k0 now \<le> now + li_tolerance l0 \<and>
        (now \<le> t \<longrightarrow> schedule l0 k0 now + li_interval l0 \<le> schedule l1 k0 t)) \<and>
      (now \<le> t \<longrightarrow> schedule l0 k now \<le> schedule l1 k t)"
    if "check_key l0 (li_tat l0) k0 now = (r', l1)" for l0 k0 r' l1 k
  proof (cases "li_tolerance l0 < schedule l0 k0 now - now")
    case True
    then show ?thesis using that later [of l0 k] by (auto simp: check_key_eq)
  next
    case False
    then have l1: "l1 = l0\<lparr>li_tat := fmupd k0 (schedule l0 k0 now + li_interval l0) (li_tat l0)\<rparr>" using that by (simp add: check_key_eq)
    have "schedule l1 k t = (if k = k0 then max (schedule l0 k0 now + li_interval l0) t else schedule l0 k t)" for k
      by (simp add: l1 schedule_def)
    then show ?thesis using False later [of l0 k] by auto
  qed
  let ?kept = "l\<lparr>li_tat := retain_after now (li_tat l)\<rparr>"
  have "(isl r = False \<longrightarrow> schedule l (client_key ip) now \<le> now + li_tolerance l \<and>
        (now \<le> t \<longrightarrow> schedule l (client_key ip) now + li_interval l \<le> schedule l' (client_key ip) t)) \<and>
      (now \<le> t \<longrightarrow> schedule l k now \<le> schedule l' k t)"
  proof (rule check_at_cases [of l ip now])
    assume "check_at l ip now = (Inl (li_interval l), ?kept)"
    then show ?thesis using assms later [of ?kept k] by (auto simp: kept)
  next
    assume "check_at l ip now = check_key ?kept (retain_after now (li_tat l)) (client_key ip) now"
    then have "check_key ?kept (li_tat ?kept) (client_key ip) now = (r, l')" using assms by simp
    from key [OF this, of k] show ?thesis by (simp add: kept)
  next
    assume "check_at l ip now = check_key l (li_tat l) (client_key ip) now"
    then show ?thesis using key [of l "client_key ip" r l' k] assms by simp
  qed
  then show "isl r = False \<Longrightarrow> schedule l (client_key ip) now \<le> now + li_tolerance l \<and>
      (now \<le> t \<longrightarrow> schedule l (client_key ip) now + li_interval l \<le> schedule l' (client_key ip) t)"
    and "now \<le> t \<Longrightarrow> schedule l k now \<le> schedule l' k t" by blast+
qed

section \<open>The rate\<close>

abbreviation in_window :: "ip_addr \<Rightarrow> nat \<Rightarrow> nat \<Rightarrow> (ip_addr \<times> nat) list \<Rightarrow> nat" where
  "in_window k w e xs \<equiv> length (filter (\<lambda>(ip, t). client_key ip = k \<and> w \<le> t \<and> t < e) xs)"

text \<open>While the schedule of \<open>k\<close> is at least \<open>b\<close>, each further request of the window pushes it on by one interval.\<close>

lemma in_window_bound:
  assumes "sorted (map snd reqs)" "\<forall>x\<in>set reqs. c \<le> snd x" "b \<le> schedule l k c" "in_window k w e (admitted_by l reqs) \<noteq> 0"
  shows "in_window k w e (admitted_by l reqs) * li_interval l + b < e + li_tolerance l + li_interval l"
  using assms
proof (induction reqs arbitrary: l c b)
  case (Cons x reqs)
  obtain ip t where x: "x = (ip, t)" by (cases x)
  obtain r l' where run: "check_at l ip t = (r, l')" by (cases "check_at l ip t")
  note params = check_at_params [of l ip t, unfolded run, simplified]
  note IH = Cons.IH [of t _ l', unfolded params]
  have later: "sorted (map snd reqs)" "\<forall>y\<in>set reqs. t \<le> snd y" "c \<le> t" using Cons.prems(1,2) by (auto simp: x)
  have "c \<le> t \<Longrightarrow> schedule l k c \<le> schedule l k t" by (auto simp: schedule_def split: option.splits)
  then have b: "b \<le> schedule l k t" using Cons.prems(3) later(3) by simp
  have next_b: "b \<le> schedule l' k t" using check_at_schedule(2) [OF run order_refl, of k] b by simp
  show ?case
  proof (cases "client_key ip = k \<and> w \<le> t \<and> t < e \<and> isl r = False")
    case True
    then have n: "in_window k w e (admitted_by l (x # reqs)) = Suc (in_window k w e (admitted_by l' reqs))"
      using run by (auto simp: x split: sum.splits)
    from check_at_schedule(1) [OF run, of t] True have up: "schedule l k t \<le> t + li_tolerance l" "b + li_interval l \<le> schedule l' k t"
      using b by auto
    show ?thesis
    proof (cases "in_window k w e (admitted_by l' reqs) = 0")
      case zero: True
      show ?thesis unfolding n zero using up(1) b True by simp
    next
      case False
      from IH [OF later(1,2) up(2) False] show ?thesis unfolding n by simp
    qed
  next
    case False
    then have "in_window k w e (admitted_by l (x # reqs)) = in_window k w e (admitted_by l' reqs)"
      using run by (cases r) (auto simp: x)
    with IH [OF later(1,2) next_b] Cons.prems(4) show ?thesis by simp
  qed
qed simp

lemma in_window_start:
  assumes "sorted (map snd reqs)" "in_window k w e (admitted_by l reqs) \<noteq> 0"
  shows "in_window k w e (admitted_by l reqs) * li_interval l + w < e + li_tolerance l + li_interval l"
  using assms
proof (induction reqs arbitrary: l)
  case (Cons x reqs)
  obtain ip t where x: "x = (ip, t)" by (cases x)
  show ?case
  proof (cases "w \<le> t")
    case True
    have "w \<le> schedule l k t" using True by (simp add: schedule_def)
    from in_window_bound [OF Cons.prems(1) _ this Cons.prems(2)] Cons.prems(1) show ?thesis by (auto simp: x)
  next
    case False
    obtain r l' where run: "check_at l ip t = (r, l')" by (cases "check_at l ip t")
    note params = check_at_params [of l ip t, unfolded run, simplified]
    have "in_window k w e (admitted_by l (x # reqs)) = in_window k w e (admitted_by l' reqs)"
      using run False by (cases r) (auto simp: x)
    with Cons.IH [of l'] Cons.prems params show ?thesis by simp
  qed
qed simp

lemma div_ceil_ge:
  assumes "0 < b"
  shows "a \<le> b * div_ceil a b"
proof -
  obtain q r where qr: "q = a div b" "r = a mod b" by simp
  have "a = b * q + r" "r < b" using assms by (simp_all add: qr)
  moreover have "div_ceil a b = (if r = 0 then q else q + 1)" by (simp add: qr div_ceil_def)
  ultimately show ?thesis by simp
qed

lemma div_ceil_pos: "0 < a \<Longrightarrow> 0 < b \<Longrightarrow> 0 < div_ceil a b"
  using mult_div_mod_eq [of b a] by (auto simp: div_ceil_def)

text \<open>
  C37: the rate is bounded. Whatever requests arrive, at times that do not go back, and however many other
  clients are tracked or dropped, a client has fewer than twice its rate admitted in any window of
  one minute.
\<close>

theorem limiter_window:
  assumes "sorted (map snd reqs)"
  shows "in_window k w (w + MINUTE) (admitted_by (with_capacity rpm cap) reqs) \<le> 2 * max (unat rpm) 1 - 1"
proof -
  let ?l = "with_capacity rpm cap" and ?n = "in_window k w (w + MINUTE) (admitted_by (with_capacity rpm cap) reqs)"
  define rate where "rate = max (unat rpm) 1"
  have rate: "0 < rate" by (simp add: rate_def)
  have l: "li_tolerance ?l = li_interval ?l * (rate - 1)" "li_interval ?l = div_ceil MINUTE rate"
    by (simp_all add: with_capacity_def rate_def Let_def)
  have I: "0 < li_interval ?l" "MINUTE \<le> rate * li_interval ?l"
    unfolding l(2) using div_ceil_ge [OF rate, of MINUTE] div_ceil_pos [OF _ rate, of MINUTE] by (simp_all add: MINUTE_def)
  have "?n < 2 * rate"
  proof (cases "?n = 0")
    case False
    from in_window_start [OF assms this] have "?n * li_interval ?l < MINUTE + li_interval ?l * (rate - 1) + li_interval ?l"
      unfolding l(1) by simp
    also have "MINUTE + li_interval ?l * (rate - 1) + li_interval ?l = MINUTE + rate * li_interval ?l"
      using rate by (cases rate) (simp_all add: algebra_simps)
    also have "\<dots> \<le> (2 * rate) * li_interval ?l" using I(2) by simp
    finally show ?thesis by simp
  qed (use rate in simp)
  then show ?thesis by (simp add: rate_def)
qed

section \<open>The table\<close>

lemma fcard_fmupd: "fcard (fmdom (fmupd k v m)) \<le> (if has m k then fcard (fmdom m) else Suc (fcard (fmdom m)))"
  by (auto simp: has_def fcard_finsert_if fmlookup_dom_iff finsert_absorb)

lemma check_at_tracked:
  assumes "fcard (fmdom (li_tat l)) \<le> li_max_tracked l"
  shows "fcard (fmdom (li_tat (snd (check_at l ip now)))) \<le> li_max_tracked l"
proof -
  have kept: "fcard (fmdom (retain_after now (li_tat l))) \<le> fcard (fmdom (li_tat l))"
    by (intro fcard_mono) (auto simp: fmlookup_dom_iff retain_after_lookup split: option.splits if_splits)
  have key: "fcard (fmdom (li_tat (snd (check_key l m k now)))) \<le> li_max_tracked l"
    if "fcard (fmdom m) \<le> li_max_tracked l" "has m k \<or> fcard (fmdom m) < li_max_tracked l" for m k
    using that fcard_fmupd [of k _ m] by (auto simp: check_key_def Let_def split: if_splits intro: order_trans)
  show ?thesis using assms kept key by (auto simp: check_at_def Let_def)
qed

text \<open>
  The table is bounded. Whatever requests arrive, and in whatever order of their times, a limiter
  never tracks more clients than its capacity.
\<close>

theorem limiter_table_bounded:
  "fcard (fmdom (li_tat (checked (with_capacity rpm cap) reqs))) \<le> cap"
proof -
  have "fcard (fmdom (li_tat (checked l reqs))) \<le> li_max_tracked l" if "fcard (fmdom (li_tat l)) \<le> li_max_tracked l" for l
    using that
  proof (induction l reqs rule: checked.induct)
    case (2 l ip now reqs)
    from 2(1) check_at_tracked [OF 2(2), of ip now] check_at_params(3) [of l ip now] show ?case by simp
  qed simp
  from this [of "with_capacity rpm cap"] show ?thesis by (simp add: with_capacity_def Let_def fcard.rep_eq)
qed

text \<open>Two requests of a client with a rate of one a minute: the second is refused.\<close>

theorem limiter_window_witness:
  "admitted_by (with_capacity 1 2) [(V4 7, 5), (V4 7, 6)] = [(V4 7, 5)] \<and>
   in_window (V4 7) 5 (5 + MINUTE) (admitted_by (with_capacity 1 2) [(V4 7, 5), (V4 7, 6)]) \<le> 1"
proof -
  have cap: "with_capacity 1 2 = \<lparr>li_interval = MINUTE, li_tolerance = 0, li_max_tracked = 2, li_tat = fmempty\<rparr>"
    by (simp add: with_capacity_def div_ceil_def)
  have minute: "1 < MINUTE" by (simp add: MINUTE_def)
  have one: "check_at (with_capacity 1 2) (V4 7) 5 = (Inr (), (with_capacity 1 2)\<lparr>li_tat := fmupd (V4 7) (5 + MINUTE) fmempty\<rparr>)"
    by (simp add: cap check_at_def check_key_def has_def fcard.rep_eq Let_def)
  have "fst (check_at ((with_capacity 1 2)\<lparr>li_tat := fmupd (V4 7) (5 + MINUTE) fmempty\<rparr>) (V4 7) 6) = Inl (MINUTE - 1)"
    using minute by (simp add: cap check_at_def check_key_def has_def Let_def)
  then obtain l where two: "check_at ((with_capacity 1 2)\<lparr>li_tat := fmupd (V4 7) (5 + MINUTE) fmempty\<rparr>) (V4 7) 6 = (Inl (MINUTE - 1), l)"
    by (metis prod.collapse)
  from limiter_window [of "[(V4 7, 5), (V4 7, 6)]" "V4 7" 5 1 2] show ?thesis by (simp add: one two)
qed

end
