(* ===== verification/Response_Cache.thy ===== *)
theory Response_Cache
  imports Prelude
begin

text \<open>
  The response cache of the gateway, \<^verbatim>\<open>crates/cc-gateway/src/cache.rs\<close>: the answers of one corpus
  digest, bounded in bytes, evicted least recently used first. Every operation holds the lock for
  its whole length and is one step. Instants and durations are numbers, a string has as many
  characters as the code counts bytes; the use counter keeps its width.
\<close>

section \<open>State\<close>

record cache_entry =
  ce_status :: u16
  ce_body :: "byte list"

record gw_inner =
  gi_generation :: "(string \<times> nat) option"
  gi_entries :: "(string, cache_entry \<times> u64) fmap"
  gi_order :: "(u64, string) fmap"
  gi_tick :: u64
  gi_bytes :: nat

record gw_cache =
  gc_freshness :: nat
  gc_max_bytes :: nat
  gc_inner :: gw_inner

definition gi_default :: gw_inner where
  "gi_default = \<lparr>gi_generation = None, gi_entries = fmempty, gi_order = fmempty, gi_tick = 0, gi_bytes = 0\<rparr>"

definition new_cache :: "nat \<Rightarrow> nat \<Rightarrow> gw_cache" where
  "new_cache freshness max_bytes = \<lparr>gc_freshness = freshness, gc_max_bytes = max_bytes, gc_inner = gi_default\<rparr>"

section \<open>Operations\<close>

definition clear_entries :: "gw_inner \<Rightarrow> gw_inner" where
  "clear_entries c = c\<lparr>gi_entries := fmempty, gi_order := fmempty, gi_bytes := 0\<rparr>"

definition touch :: "string \<Rightarrow> gw_inner \<Rightarrow> gw_inner" where
  "touch key c = (let tick = gi_tick c + 1;
     c' = (case fmlookup (gi_entries c) key of
         Some (e, used) \<Rightarrow> c\<lparr>gi_order := fmdrop used (gi_order c), gi_entries := fmupd key (e, tick) (gi_entries c)\<rparr>
       | None \<Rightarrow> c) in
     c'\<lparr>gi_tick := tick, gi_order := fmupd tick key (gi_order c')\<rparr>)"

definition fresh_digest :: "gw_cache \<Rightarrow> nat \<Rightarrow> string option" where
  "fresh_digest g now = (case gi_generation (gc_inner g) of
     Some (d, at) \<Rightarrow> if now - at < gc_freshness g then Some d else None | None \<Rightarrow> None)"

definition observe :: "string \<Rightarrow> nat \<Rightarrow> gw_inner \<Rightarrow> gw_inner" where
  "observe digest requested c = (case gi_generation c of
     Some (d, at) \<Rightarrow> if requested < at then c
       else if d = digest then c\<lparr>gi_generation := Some (d, requested)\<rparr>
       else clear_entries (c\<lparr>gi_generation := Some (digest, requested)\<rparr>)
   | None \<Rightarrow> clear_entries (c\<lparr>gi_generation := Some (digest, requested)\<rparr>))"

definition current :: "string \<Rightarrow> gw_inner \<Rightarrow> bool" where
  "current digest c \<longleftrightarrow> map_option fst (gi_generation c) = Some digest"

definition cache_get :: "string \<Rightarrow> string \<Rightarrow> gw_inner \<Rightarrow> cache_entry option \<times> gw_inner" where
  "cache_get digest key c = (if \<not> current digest c then (None, c)
     else case fmlookup (gi_entries c) key of None \<Rightarrow> (None, c) | Some (e, _) \<Rightarrow> (Some e, touch key c))"

definition pop_first :: "(u64, string) fmap \<Rightarrow> (string \<times> (u64, string) fmap) option" where
  "pop_first order = (case keys order of [] \<Rightarrow> None | u # _ \<Rightarrow> Some (the (fmlookup order u), fmdrop u order))"

definition evict_one :: "string \<Rightarrow> gw_inner \<Rightarrow> gw_inner" where
  "evict_one old c = (case fmlookup (gi_entries c) old of
     Some (e, _) \<Rightarrow> c\<lparr>gi_entries := fmdrop old (gi_entries c), gi_bytes := gi_bytes c - (length old + length (ce_body e))\<rparr>
   | None \<Rightarrow> c)"

lemma keys_Cons_in: "keys order = u # us \<Longrightarrow> u |\<in>| fmdom order"
  by (metis fmdom'_alt_def list.set_intros(1) set_keys)

function evict :: "nat \<Rightarrow> nat \<Rightarrow> gw_inner \<Rightarrow> gw_inner" where
  "evict max_bytes room c = (if max_bytes < gi_bytes c + room then
     (case pop_first (gi_order c) of None \<Rightarrow> c
      | Some (old, order) \<Rightarrow> evict max_bytes room (evict_one old (c\<lparr>gi_order := order\<rparr>)))
   else c)"
  by pat_completeness auto
termination
proof (relation "measure (\<lambda>(_, _, c). fcard (fmdom (gi_order c)))", goal_cases)
  case (2 max_bytes room c x old order)
  then obtain u where "u |\<in>| fmdom (gi_order c)" "order = fmdrop u (gi_order c)"
    by (auto simp: pop_first_def split: list.splits dest: keys_Cons_in)
  then have "fcard (fmdom order) < fcard (fmdom (gi_order c))" by (simp only: fmdom_drop fcard_fminus1_less)
  moreover have "gi_order (evict_one old (c\<lparr>gi_order := order\<rparr>)) = order" by (simp add: evict_one_def split: option.splits)
  ultimately show ?case by simp
qed simp

declare evict.simps [simp del]

definition cache_put :: "nat \<Rightarrow> string \<Rightarrow> string \<Rightarrow> cache_entry \<Rightarrow> gw_inner \<Rightarrow> gw_inner" where
  "cache_put max_bytes digest key e c = (let room = length key + length (ce_body e) in
     if \<not> current digest c \<or> has (gi_entries c) key \<or> max_bytes < room then c
     else let c' = evict max_bytes room c in
       touch key (c'\<lparr>gi_bytes := gi_bytes c' + room, gi_entries := fmupd key (e, 0) (gi_entries c')\<rparr>))"

section \<open>Runs\<close>

datatype gw_op = Observe string nat | Get string string | Put string string cache_entry

fun apply_op :: "nat \<Rightarrow> gw_op \<Rightarrow> gw_inner \<Rightarrow> gw_inner" where
  "apply_op mx (Observe d t) c = observe d t c"
| "apply_op mx (Get d k) c = snd (cache_get d k c)"
| "apply_op mx (Put d k e) c = cache_put mx d k e c"

definition run_ops :: "nat \<Rightarrow> gw_op list \<Rightarrow> gw_inner" where
  "run_ops mx ops = fold (apply_op mx) ops gi_default"

lemma run_ops_snoc [simp]: "run_ops mx [] = gi_default" "run_ops mx (ops @ [x]) = apply_op mx x (run_ops mx ops)"
  by (simp_all add: run_ops_def)

section \<open>The invariant\<close>

definition entry_bytes :: "(string, cache_entry \<times> u64) fmap \<Rightarrow> nat" where
  "entry_bytes m = (\<Sum>k\<in>fmdom' m. length k + length (ce_body (fst (the (fmlookup m k)))))"

text \<open>
  The byte count is that of the entries and within the bound; the use order lists every entry once, under
  the tick of its last use, and no tick lies ahead of the counter.
\<close>

definition inner_ok :: "nat \<Rightarrow> gw_inner \<Rightarrow> bool" where
  "inner_ok mx c \<longleftrightarrow> gi_bytes c = entry_bytes (gi_entries c) \<and> gi_bytes c \<le> mx \<and>
     (\<forall>u k. fmlookup (gi_order c) u = Some k \<longleftrightarrow> (\<exists>e. fmlookup (gi_entries c) k = Some (e, u))) \<and>
     (\<forall>u k. fmlookup (gi_order c) u = Some k \<longrightarrow> 0 < u \<and> u \<le> gi_tick c)"

lemma entry_bytes_drop:
  assumes "fmlookup m k = Some (e, u)"
  shows "entry_bytes m = length k + length (ce_body e) + entry_bytes (fmdrop k m)"
proof -
  have "fmdom' m = insert k (fmdom' (fmdrop k m))" "k \<notin> fmdom' (fmdrop k m)" using fmdom'I [OF assms] by auto
  then have "entry_bytes m = length k + length (ce_body e) + (\<Sum>j\<in>fmdom' (fmdrop k m). length j + length (ce_body (fst (the (fmlookup m j)))))"
    using assms unfolding entry_bytes_def by (metis (no_types, lifting) finite_fmdom' fst_conv option.sel sum.insert)
  also have "(\<Sum>j\<in>fmdom' (fmdrop k m). length j + length (ce_body (fst (the (fmlookup m j))))) = entry_bytes (fmdrop k m)"
    unfolding entry_bytes_def by (intro sum.cong) auto
  finally show ?thesis .
qed

lemma entry_bytes_empty [simp]: "entry_bytes fmempty = 0"
  by (simp add: entry_bytes_def)

lemma fmdrop_fmupd_fresh: "\<not> has m k \<Longrightarrow> fmdrop k (fmupd k v m) = m"
  by (rule fmap_ext) (auto simp: has_def)

lemma fmdrop_fmupd_again: "fmdrop k (fmupd k v m) = fmdrop k m"
  by (rule fmap_ext) auto

lemma entry_bytes_new: "\<not> has m k \<Longrightarrow> entry_bytes (fmupd k (e, u) m) = length k + length (ce_body e) + entry_bytes m"
  by (subst entry_bytes_drop [of _ k e u]) (simp_all add: fmdrop_fmupd_fresh)

lemma entry_bytes_again: "fmlookup m k = Some (e, u) \<Longrightarrow> entry_bytes (fmupd k (e, u') m) = entry_bytes m"
  using entry_bytes_drop [of m k e u] entry_bytes_drop [of "fmupd k (e, u') m" k e u'] by (simp add: fmdrop_fmupd_again)

section \<open>The operations keep it\<close>

lemma inner_okD:
  assumes "inner_ok mx c"
  shows "gi_bytes c = entry_bytes (gi_entries c)" "gi_bytes c \<le> mx"
    "fmlookup (gi_order c) u = Some k \<longleftrightarrow> (\<exists>e. fmlookup (gi_entries c) k = Some (e, u))"
    "fmlookup (gi_order c) u = Some k \<Longrightarrow> 0 < u \<and> u \<le> gi_tick c"
  using assms unfolding inner_ok_def by blast+

lemma inner_okI:
  assumes "gi_bytes c = entry_bytes (gi_entries c)" "gi_bytes c \<le> mx"
    "\<And>u k. fmlookup (gi_order c) u = Some k \<longleftrightarrow> (\<exists>e. fmlookup (gi_entries c) k = Some (e, u))"
    "\<And>u k. fmlookup (gi_order c) u = Some k \<Longrightarrow> 0 < u \<and> u \<le> gi_tick c"
  shows "inner_ok mx c"
  using assms by (simp add: inner_ok_def)

lemma observe_ok: "inner_ok mx c \<Longrightarrow> inner_ok mx (observe d t c)"
  by (auto simp: observe_def inner_ok_def clear_entries_def split: option.splits)

lemma tick_next:
  assumes "gi_tick c \<noteq> - 1"
  shows "gi_tick c < gi_tick c + 1"
  using assms by (simp add: not_le [symmetric] inc_less_eq_self_iff_eq)

text \<open>The tick of a touched entry is new, and its former one is freed.\<close>

lemma touch_ok:
  assumes ok: "inner_ok mx c" and e: "fmlookup (gi_entries c) key = Some (e, used)" and tick: "gi_tick c \<noteq> - 1"
  shows "inner_ok mx (touch key c)"
proof (rule inner_okI)
  note D = inner_okD [OF ok] and less = tick_next [OF tick]
  have t: "touch key c = c\<lparr>gi_tick := gi_tick c + 1, gi_entries := fmupd key (e, gi_tick c + 1) (gi_entries c),
      gi_order := fmupd (gi_tick c + 1) key (fmdrop used (gi_order c))\<rparr>"
    by (simp add: touch_def e Let_def)
  have fresh: "fmlookup (gi_order c) (gi_tick c + 1) = None" using D(4) less by (metis not_less option.exhaust)
  have nfresh: "fmlookup (gi_entries c) k \<noteq> Some (e', gi_tick c + 1)" for k e' using D(3) fresh by (metis option.distinct(1))
  show "gi_bytes (touch key c) = entry_bytes (gi_entries (touch key c))" "gi_bytes (touch key c) \<le> mx"
    using D(1,2) by (simp_all add: t entry_bytes_again [OF e])
  show "fmlookup (gi_order (touch key c)) u = Some k \<longleftrightarrow> (\<exists>e. fmlookup (gi_entries (touch key c)) k = Some (e, u))" for u k
    using D(3) [of u k] D(3) [of used key] D(3) [of u key] e nfresh by (auto simp: t)
  show "fmlookup (gi_order (touch key c)) u = Some k \<Longrightarrow> 0 < u \<and> u \<le> gi_tick (touch key c)" for u k
    using D(4) [of u k] less word_coorder.not_eq_extremum [of "gi_tick c"]
    by (auto simp: t split: if_splits intro: order.trans [OF _ less_imp_le] simp: word_neq_0_conv [symmetric])
qed

lemma pop_first_None: "pop_first order = None \<longleftrightarrow> order = fmempty"
  by (metis (no_types, lifting) fmap_ext fmdom'_empty fmdom'_notD fmempty_lookup keys_def list.case_eq_if list.set(1) option.distinct(1)
      pop_first_def set_empty set_keys empty_iff)

lemma pop_first_Some: "pop_first order = Some (old, rest) \<Longrightarrow> \<exists>u. fmlookup order u = Some old \<and> rest = fmdrop u order"
  by (auto simp: pop_first_def fmlookup_dom_iff split: list.splits dest!: keys_Cons_in)

lemma evict_one_ok:
  assumes ok: "inner_ok mx c" and pop: "pop_first (gi_order c) = Some (old, rest)"
  shows "inner_ok mx (evict_one old (c\<lparr>gi_order := rest\<rparr>))"
proof -
  note D = inner_okD [OF ok]
  from pop_first_Some [OF pop] obtain u where u: "fmlookup (gi_order c) u = Some old" "rest = fmdrop u (gi_order c)" by blast
  then obtain e where e: "fmlookup (gi_entries c) old = Some (e, u)" using D(3) by blast
  have t: "evict_one old (c\<lparr>gi_order := rest\<rparr>) = c\<lparr>gi_order := fmdrop u (gi_order c), gi_entries := fmdrop old (gi_entries c),
      gi_bytes := gi_bytes c - (length old + length (ce_body e))\<rparr>"
    by (simp add: evict_one_def e u(2))
  show ?thesis unfolding t
  proof (rule inner_okI, goal_cases)
    case (3 v k)
    show ?case using D(3) [of v k] D(3) [of u k] D(3) [of v old] e u(1) by auto
  qed (use D(1,2,4) entry_bytes_drop [OF e] in \<open>auto split: if_splits\<close>)
qed

lemma evict_one_frame: "gi_tick (evict_one old c) = gi_tick c" "gi_generation (evict_one old c) = gi_generation c"
  "fmlookup (gi_entries (evict_one old c)) k = Some v \<Longrightarrow> fmlookup (gi_entries c) k = Some v"
  by (auto simp: evict_one_def split: option.splits if_splits)

lemma evict_ok:
  assumes "inner_ok mx c" "room \<le> mx"
  shows "inner_ok mx (evict mx room c) \<and> gi_bytes (evict mx room c) + room \<le> mx \<and> gi_tick (evict mx room c) = gi_tick c \<and>
    gi_generation (evict mx room c) = gi_generation c \<and>
    (\<forall>k v. fmlookup (gi_entries (evict mx room c)) k = Some v \<longrightarrow> fmlookup (gi_entries c) k = Some v)"
  using assms
proof (induction mx room c rule: evict.induct)
  case (1 mx room c)
  show ?case
  proof (cases "mx < gi_bytes c + room")
    case full: True
    show ?thesis
    proof (cases "pop_first (gi_order c)")
      case None
      then have "gi_entries c = fmempty" using inner_okD(3) [OF 1(2)]
        by (intro fmap_ext) (metis fmempty_lookup not_None_eq pop_first_None surj_pair)
      then have "gi_bytes c = 0" using inner_okD(1) [OF 1(2)] by simp
      then show ?thesis using full 1(3) by simp
    next
      case (Some p)
      then obtain old rest where p: "pop_first (gi_order c) = Some (old, rest)" by (cases p) auto
      have ev: "evict mx room c = evict mx room (evict_one old (c\<lparr>gi_order := rest\<rparr>))"
        using full p by (subst evict.simps) simp
      from 1(1) [OF full p refl evict_one_ok [OF 1(2) p] 1(3)] show ?thesis
        unfolding ev evict_one_frame using evict_one_frame(3) [of old "c\<lparr>gi_order := rest\<rparr>"] by fastforce
    qed
  next
    case False
    then show ?thesis using 1(2) by (simp add: evict.simps [of mx room c])
  qed
qed

lemma put_cases:
  assumes ok: "inner_ok mx c" and tick: "gi_tick c \<noteq> - 1"
  obtains "cache_put mx d key e c = c"
  | c0 where "current d c" "\<not> has (gi_entries c) key" "length key + length (ce_body e) \<le> mx"
    "c0 = evict mx (length key + length (ce_body e)) c"
    "cache_put mx d key e c = c0\<lparr>gi_tick := gi_tick c + 1, gi_bytes := gi_bytes c0 + (length key + length (ce_body e)),
      gi_entries := fmupd key (e, gi_tick c + 1) (gi_entries c0), gi_order := fmupd (gi_tick c + 1) key (gi_order c0)\<rparr>"
proof (cases "\<not> current d c \<or> has (gi_entries c) key \<or> mx < length key + length (ce_body e)")
  case True
  then show thesis by (intro that(1)) (simp add: cache_put_def Let_def)
next
  case False
  let ?c = "evict mx (length key + length (ce_body e)) c"
  note E = evict_ok [OF ok, of "length key + length (ce_body e)"]
  have "fmlookup (gi_order ?c) 0 = None"
    using E False inner_okD(4) [of mx ?c 0] by (metis less_irrefl not_None_eq not_less)
  then have "fmdrop 0 (gi_order ?c) = gi_order ?c" by (intro fmap_ext) auto
  then show thesis using False E by (intro that(2) [of ?c]) (auto simp: cache_put_def Let_def touch_def)
qed

lemma put_ok:
  assumes ok: "inner_ok mx c" and tick: "gi_tick c \<noteq> - 1"
  shows "inner_ok mx (cache_put mx d key e c)"
  using ok tick
proof (rule put_cases [where d = d and key = key and e = e])
  fix c0
  let ?t = "gi_tick c + 1" and ?room = "length key + length (ce_body e)"
  assume room: "\<not> has (gi_entries c) key" "?room \<le> mx" "c0 = evict mx ?room c"
    and put: "cache_put mx d key e c = c0\<lparr>gi_tick := ?t, gi_bytes := gi_bytes c0 + ?room,
      gi_entries := fmupd key (e, ?t) (gi_entries c0), gi_order := fmupd ?t key (gi_order c0)\<rparr>"
  from evict_ok [OF ok room(2)] have E: "inner_ok mx c0" "gi_bytes c0 + ?room \<le> mx" "gi_tick c0 = gi_tick c"
    "\<And>k v. fmlookup (gi_entries c0) k = Some v \<Longrightarrow> fmlookup (gi_entries c) k = Some v" unfolding room(3) by auto
  note D = inner_okD [OF E(1)] and less = tick_next [OF tick]
  have new: "\<not> has (gi_entries c0) key" using E(4) room(1) by (metis has_def not_None_eq)
  have fresh: "fmlookup (gi_order c0) ?t = None" using D(4) less E(3) by (metis not_less option.exhaust)
  show ?thesis unfolding put
  proof (rule inner_okI, goal_cases)
    case 1
    show ?case using D(1) entry_bytes_new [OF new, of e ?t] by simp
  next
    case (3 u k)
    show ?case using D(3) [of u k] D(3) [of ?t k] D(3) [of u key] new fresh by (auto simp: has_def)
  next
    case (4 u k)
    then show ?case using D(4) [of u k] less E(3) by (auto split: if_splits simp: word_neq_0_conv [symmetric])
  qed (use E(2) in simp)
qed (use ok in simp)

lemma get_ok: "inner_ok mx c \<Longrightarrow> gi_tick c \<noteq> - 1 \<Longrightarrow> inner_ok mx (snd (cache_get d k c))"
  by (auto simp: cache_get_def touch_ok split: option.splits)

lemma apply_op_ok: "inner_ok mx c \<Longrightarrow> gi_tick c \<noteq> - 1 \<Longrightarrow> inner_ok mx (apply_op mx x c)"
  by (cases x) (simp_all add: observe_ok get_ok put_ok)

lemma evict_tick: "gi_tick (evict mx room c) = gi_tick c"
proof (induction mx room c rule: evict.induct)
  case (1 mx room c)
  then show ?case by (subst evict.simps) (auto split: option.splits simp: evict_one_frame)
qed

lemma apply_op_tick: "gi_tick (apply_op mx x c) = gi_tick c \<or> gi_tick (apply_op mx x c) = gi_tick c + 1"
  by (cases x) (auto simp: observe_def clear_entries_def cache_get_def cache_put_def touch_def evict_tick Let_def split: option.splits)

lemma run_ops_ok:
  assumes "length ops < 2 ^ 64"
  shows "inner_ok mx (run_ops mx ops) \<and> unat (gi_tick (run_ops mx ops)) \<le> length ops"
  using assms
proof (induction ops rule: rev_induct)
  case Nil
  then show ?case by (simp add: gi_default_def inner_ok_def)
next
  case (snoc x ops)
  then have IH: "inner_ok mx (run_ops mx ops)" "unat (gi_tick (run_ops mx ops)) \<le> length ops" by simp_all
  have "unat (- 1 :: u64) = 2 ^ 64 - 1" by (simp add: unsigned_minus_1_eq_mask mask_eq_exp_minus_1)
  then have "gi_tick (run_ops mx ops) \<noteq> - 1" using snoc.prems IH(2) by auto
  moreover have "unat (gi_tick (run_ops mx ops) + 1) \<le> Suc (unat (gi_tick (run_ops mx ops)))"
    by (metis add.commute le_refl unatSuc unat_eq_zero zero_le)
  ultimately show ?case using IH apply_op_ok [OF IH(1)] apply_op_tick [of mx x "run_ops mx ops"] by auto
qed

text \<open>
  The cache is bounded and its accounts balance. After any sequence of fewer than \<open>2\<^sup>6\<^sup>4\<close> operations the
  byte count is that of the entries, within the bound, and the use order lists exactly the entries,
  each under the tick of its last use.
\<close>

theorem response_cache_bounded:
  assumes "length ops < 2 ^ 64"
  shows "gi_bytes (run_ops mx ops) = entry_bytes (gi_entries (run_ops mx ops)) \<and> entry_bytes (gi_entries (run_ops mx ops)) \<le> mx \<and>
    (\<forall>u k. fmlookup (gi_order (run_ops mx ops)) u = Some k \<longleftrightarrow> (\<exists>e. fmlookup (gi_entries (run_ops mx ops)) k = Some (e, u)))"
  using run_ops_ok [OF assms, of mx] unfolding inner_ok_def by metis

section \<open>Answers belong to their digest\<close>

lemma evict_entries:
  "gi_generation (evict mx room c) = gi_generation c \<and>
   (\<forall>k v. fmlookup (gi_entries (evict mx room c)) k = Some v \<longrightarrow> fmlookup (gi_entries c) k = Some v)"
proof (induction mx room c rule: evict.induct)
  case (1 mx room c)
  show ?case
  proof (cases "mx < gi_bytes c + room \<and> pop_first (gi_order c) \<noteq> None")
    case True
    then obtain old rest where p: "mx < gi_bytes c + room" "pop_first (gi_order c) = Some (old, rest)" by auto
    have "evict mx room c = evict mx room (evict_one old (c\<lparr>gi_order := rest\<rparr>))" using p by (subst evict.simps) simp
    with 1 [OF p refl] evict_one_frame [of old "c\<lparr>gi_order := rest\<rparr>"] show ?thesis by fastforce
  next
    case False
    then have "evict mx room c = c" by (subst evict.simps) (auto split: option.splits)
    then show ?thesis by simp
  qed
qed

lemma touch_entries: "gi_generation (touch key c) = gi_generation c"
  "fmlookup (gi_entries (touch key c)) k = Some (e, u) \<Longrightarrow> \<exists>u'. fmlookup (gi_entries c) k = Some (e, u')"
  by (auto simp: touch_def Let_def split: option.splits if_splits)

lemma cache_put_entries:
  assumes "fmlookup (gi_entries (cache_put mx d key e c)) k = Some (e', u)"
  shows "(k = key \<and> e' = e \<and> current d c) \<or> (\<exists>u'. fmlookup (gi_entries c) k = Some (e', u'))"
proof (cases "\<not> current d c \<or> has (gi_entries c) key \<or> mx < length key + length (ce_body e)")
  case True
  then show ?thesis using assms by (auto simp: cache_put_def Let_def)
next
  case False
  let ?c = "evict mx (length key + length (ce_body e)) c"
  from False assms obtain u' where "fmlookup (fmupd key (e, 0) (gi_entries ?c)) k = Some (e', u')"
    by (auto simp: cache_put_def Let_def dest!: touch_entries(2))
  with False evict_entries [of mx "length key + length (ce_body e)" c] show ?thesis by (cases "k = key") auto
qed

text \<open>What one operation can leave in the cache: what it stores, or what was there for the same digest.\<close>

lemma apply_op_entries:
  assumes "fmlookup (gi_entries (apply_op mx x c)) k = Some (e, u)"
  shows "(\<exists>d. x = Put d k e \<and> current d (apply_op mx x c)) \<or>
    (\<exists>u'. fmlookup (gi_entries c) k = Some (e, u')) \<and> (\<forall>d. current d (apply_op mx x c) \<longleftrightarrow> current d c)"
proof (cases x)
  case (Observe d t)
  then show ?thesis using assms by (auto simp: observe_def clear_entries_def current_def split: option.splits if_splits)
next
  case (Get d key)
  then show ?thesis using assms touch_entries [of key c]
    by (auto simp: cache_get_def current_def split: option.splits if_splits)
next
  case (Put d key e')
  have "gi_generation (cache_put mx d key e' c) = gi_generation c"
    by (simp add: cache_put_def Let_def touch_entries evict_entries)
  then show ?thesis using assms cache_put_entries [of mx d key e' c k e u] Put by (auto simp: current_def)
qed

definition stored_for :: "nat \<Rightarrow> gw_op list \<Rightarrow> string \<Rightarrow> string \<Rightarrow> cache_entry \<Rightarrow> bool" where
  "stored_for mx ops d k e \<longleftrightarrow> (\<exists>before after. ops = before @ Put d k e # after \<and>
     (\<forall>i \<le> length after. current d (run_ops mx (before @ Put d k e # take i after))))"

lemma stored_for_snoc:
  assumes "stored_for mx ops d k e" "current d (run_ops mx (ops @ [x]))"
  shows "stored_for mx (ops @ [x]) d k e"
proof -
  obtain before after where ops: "ops = before @ Put d k e # after"
    and cur: "\<forall>i \<le> length after. current d (run_ops mx (before @ Put d k e # take i after))"
    using assms(1) unfolding stored_for_def by blast
  have "current d (run_ops mx (before @ Put d k e # take i (after @ [x])))" if "i \<le> length (after @ [x])" for i
    using that cur assms(2) ops by (cases "i \<le> length after") (auto simp: not_le Suc_le_eq [symmetric])
  then show ?thesis unfolding stored_for_def ops by (intro exI [of _ before] exI [of _ "after @ [x]"]) simp
qed

lemma answers_stored:
  "fmlookup (gi_entries (run_ops mx ops)) k = Some (e, u) \<Longrightarrow> \<exists>d. current d (run_ops mx ops) \<and> stored_for mx ops d k e"
proof (induction ops arbitrary: u rule: rev_induct)
  case Nil
  then show ?case by (simp add: gi_default_def)
next
  case (snoc x ops)
  from apply_op_entries [OF snoc.prems [unfolded run_ops_snoc]] show ?case
  proof
    assume "\<exists>d. x = Put d k e \<and> current d (apply_op mx x (run_ops mx ops))"
    then obtain d where d: "x = Put d k e" "current d (run_ops mx (ops @ [x]))" by auto
    then have "stored_for mx (ops @ [x]) d k e" unfolding stored_for_def by (intro exI [of _ ops] exI [of _ "[]"]) simp
    with d(2) show ?thesis by blast
  next
    assume old: "(\<exists>u'. fmlookup (gi_entries (run_ops mx ops)) k = Some (e, u')) \<and>
      (\<forall>d. current d (apply_op mx x (run_ops mx ops)) \<longleftrightarrow> current d (run_ops mx ops))"
    then obtain d where "current d (run_ops mx ops)" "stored_for mx ops d k e" using snoc.IH by blast
    with old stored_for_snoc [of mx ops d k e x] show ?thesis by auto
  qed
qed

text \<open>
  No stale answer. Whatever the order of observations, reads and writes, an answer served for a digest
  was stored under that digest and that key, and the cache has held that digest without
  interruption since.
\<close>

theorem response_cache_coherent:
  assumes "fst (cache_get d k (run_ops mx ops)) = Some e"
  shows "stored_for mx ops d k e"
proof -
  from assms obtain u where "current d (run_ops mx ops)" "fmlookup (gi_entries (run_ops mx ops)) k = Some (e, u)"
    by (auto simp: cache_get_def split: option.splits if_splits)
  with answers_stored [of mx ops k e u] show ?thesis by (auto simp: current_def)
qed

section \<open>A sample run\<close>

definition sample_ops :: "gw_op list" where
  "sample_ops = [Observe ''d1'' 1, Put ''d1'' ''/a'' \<lparr>ce_status = 200, ce_body = [1, 2]\<rparr>]"

lemma sample_run: "run_ops 8 sample_ops = \<lparr>gi_generation = Some (''d1'', 1), gi_entries = fmupd ''/a'' (\<lparr>ce_status = 200, ce_body = [1, 2]\<rparr>, 1) fmempty,
    gi_order = fmupd 1 ''/a'' fmempty, gi_tick = 1, gi_bytes = 4\<rparr>"
  by (simp add: run_ops_def sample_ops_def gi_default_def observe_def clear_entries_def cache_put_def current_def has_def
      evict.simps touch_def Let_def)

theorem response_cache_bounded_witness:
  "gi_bytes (run_ops 8 sample_ops) = 4 \<and> entry_bytes (gi_entries (run_ops 8 sample_ops)) \<le> 8"
  using response_cache_bounded [of sample_ops 8] by (simp add: sample_run) (simp add: sample_ops_def)

theorem response_cache_coherent_witness:
  "stored_for 8 sample_ops ''d1'' ''/a'' \<lparr>ce_status = 200, ce_body = [1, 2]\<rparr>"
  using response_cache_coherent [of "''d1''" "''/a''" 8 sample_ops] by (simp add: sample_run cache_get_def current_def)

end
