(* ===== verification/Filter_View.thy ===== *)
theory Filter_View
  imports Tick "HOL-Library.Product_Lexorder"
begin

text \<open>
  The vocabulary of the filter crate: identifiers (\<^verbatim>\<open>crates/cc-filter/src/ids.rs\<close>), the view a filter
  reads the corpus through (\<^verbatim>\<open>view.rs\<close>), supports (\<^verbatim>\<open>phi.rs\<close>) and verdicts
  (\<^verbatim>\<open>verdict.rs\<close>). The trait \<open>CorpusView\<close> is a record of its methods.
\<close>

section \<open>Identifiers\<close>

datatype entity_id = EntityId (to_i64: u64)

text \<open>The derived order of the newtype over \<open>i64\<close> is the signed order.\<close>

instantiation entity_id :: linorder
begin
definition less_eq_entity_id_eq: "a \<le> b \<longleftrightarrow> sint (to_i64 a) \<le> sint (to_i64 b)"
definition less_entity_id_eq: "a < b \<longleftrightarrow> sint (to_i64 a) < sint (to_i64 b)"
instance
proof
  fix a b :: entity_id
  show "a \<le> b \<Longrightarrow> b \<le> a \<Longrightarrow> a = b"
    by (metis antisym entity_id.expand less_eq_entity_id_eq signed_word_eqI)
qed (auto simp: less_eq_entity_id_eq less_entity_id_eq)
end

datatype claim_type = ClaimType (to_u32: u32)

instantiation claim_type :: linorder
begin
definition less_eq_claim_type_eq: "a \<le> b \<longleftrightarrow> to_u32 a \<le> to_u32 b"
definition less_claim_type_eq: "a < b \<longleftrightarrow> to_u32 a < to_u32 b"
instance
proof
  fix a b :: claim_type
  show "a \<le> b \<Longrightarrow> b \<le> a \<Longrightarrow> a = b"
    by (simp add: claim_type.expand less_eq_claim_type_eq)
qed (auto simp: less_eq_claim_type_eq less_claim_type_eq)
end

datatype hop_bound = HopBound (hops_get: byte)

text \<open>
  A measured walk length is at most the hop bound, so at most 255: the \<open>u16\<close> sums of the search never
  wrap, and lengths are natural numbers here.
\<close>

datatype walk_len = WalkLen (walk_get: nat)

section \<open>The view\<close>

datatype edge = CoEdge (other: entity_id) (via: hash)

definition edge_key :: "edge \<Rightarrow> entity_id \<times> hash" where
  "edge_key e = (other e, via e)"

instantiation edge :: linorder
begin
definition less_eq_edge_eq: "a \<le> b \<longleftrightarrow> edge_key a \<le> edge_key b"
definition less_edge_eq: "a < b \<longleftrightarrow> edge_key a < edge_key b"
instance
proof
  fix a b :: edge
  show "a \<le> b \<Longrightarrow> b \<le> a \<Longrightarrow> a = b"
    by (cases a; cases b) (auto simp: less_eq_edge_eq edge_key_def dest: antisym)
qed (auto simp: less_eq_edge_eq less_edge_eq)
end

record windowed =
  wd_start :: window_start
  wd_end :: window_end
  wd_derived_from :: "hash list"

definition windowed_unrecorded :: windowed where
  "windowed_unrecorded = \<lparr>wd_start = WS_Unknown, wd_end = WE_UnknownClosure, wd_derived_from = []\<rparr>"

definition windowed_from_core :: "existence_window \<Rightarrow> hash list \<Rightarrow> windowed" where
  "windowed_from_core w derived_from = \<lparr>wd_start = w_start w, wd_end = w_end w, wd_derived_from = derived_from\<rparr>"

datatype admitted = AD_Valid "hash list" | AD_Unrecorded | AD_OutsideValidity tick "hash list"

datatype view_error = VE_Backend string | VE_Decode string

record corpus_view =
  cv_neighbors :: "entity_id \<Rightarrow> tick \<Rightarrow> view_error + edge list"
  cv_neighbors_many :: "entity_id list \<Rightarrow> tick \<Rightarrow> view_error + (entity_id, edge list) fmap"
  cv_window :: "entity_id \<Rightarrow> tick \<Rightarrow> view_error + windowed"
  cv_admissibility :: "claim_type \<Rightarrow> tick \<Rightarrow> view_error + admitted"
  cv_digest :: hash

text \<open>The default method of the trait: one read per entity, stopping at the first error.\<close>

fun neighbors_each :: "(entity_id \<Rightarrow> view_error + edge list) \<Rightarrow> (entity_id, edge list) fmap \<Rightarrow> entity_id list
    \<Rightarrow> view_error + (entity_id, edge list) fmap" where
  "neighbors_each nb out [] = Inr out"
| "neighbors_each nb out (e # es) = rbind (nb e) (\<lambda>xs. neighbors_each nb (fmupd e xs out) es)"

definition default_neighbors_many :: "(entity_id \<Rightarrow> tick \<Rightarrow> view_error + edge list)
    \<Rightarrow> entity_id list \<Rightarrow> tick \<Rightarrow> view_error + (entity_id, edge list) fmap" where
  "default_neighbors_many nb es as_of = neighbors_each (\<lambda>e. nb e as_of) fmempty es"

section \<open>Supports\<close>

datatype walk_step = WalkStep (ws_entity: entity_id) (ws_via: hash)

definition step_key :: "walk_step \<Rightarrow> entity_id \<times> hash" where
  "step_key s = (ws_entity s, ws_via s)"

instantiation walk_step :: linorder
begin
definition less_eq_walk_step_eq: "a \<le> b \<longleftrightarrow> step_key a \<le> step_key b"
definition less_walk_step_eq: "a < b \<longleftrightarrow> step_key a < step_key b"
instance
proof
  fix a b :: walk_step
  show "a \<le> b \<Longrightarrow> b \<le> a \<Longrightarrow> a = b"
    by (cases a; cases b) (auto simp: less_eq_walk_step_eq step_key_def dest: antisym)
qed (auto simp: less_eq_walk_step_eq less_walk_step_eq)
end

record phi_support =
  ph_hops :: walk_len
  ph_witness :: "walk_step list"

definition phi_consulted :: "phi_support \<Rightarrow> hash list" where
  "phi_consulted s = map ws_via (ph_witness s)"

definition phi_reflexive :: phi_support where
  "phi_reflexive = \<lparr>ph_hops = WalkLen 0, ph_witness = []\<rparr>"

definition from_walk :: "walk_len \<Rightarrow> walk_step list \<Rightarrow> phi_support" where
  "from_walk hops witness = \<lparr>ph_hops = hops, ph_witness = witness\<rparr>"

section \<open>Verdicts\<close>

datatype absence_witness = AW_NoRecordedStart entity_id | AW_BeforeRecordedStart entity_id tick
  | AW_ClaimTypeUnrecorded claim_type | AW_NoEvidencedWalk entity_id entity_id hop_bound

datatype contrary_witness = CW_AfterRecordedCessation entity_id tick "hash list"
  | CW_ClaimTypeOutsideValidity claim_type tick "hash list"

datatype verdict = VD_Supported phi_support | VD_Unsupported "absence_witness list" | VD_Contradicted contrary_witness

datatype verdict_kind = VK_Supported | VK_Unsupported | VK_Contradicted

fun verdict_kind_of :: "verdict \<Rightarrow> verdict_kind" where
  "verdict_kind_of (VD_Supported _) = VK_Supported"
| "verdict_kind_of (VD_Unsupported _) = VK_Unsupported"
| "verdict_kind_of (VD_Contradicted _) = VK_Contradicted"

fun verdict_support :: "verdict \<Rightarrow> phi_support option" where
  "verdict_support (VD_Supported s) = Some s"
| "verdict_support _ = None"

record judgement =
  jd_verdict :: verdict
  jd_filter_version :: hash
  jd_corpus_digest :: hash

record consensus_projection =
  cp_kind :: verdict_kind
  cp_support :: "phi_support option"
  cp_filter_version :: hash

definition consensus_projection_of :: "judgement \<Rightarrow> consensus_projection" where
  "consensus_projection_of j = \<lparr>cp_kind = verdict_kind_of (jd_verdict j), cp_support = verdict_support (jd_verdict j),
     cp_filter_version = jd_filter_version j\<rparr>"

record certificate =
  ct_judgment :: judgement
  ct_consulted :: "hash list"
  ct_absences :: "absence_witness list"
  ct_contradictions :: "contrary_witness list"

datatype query_error = QE_HopBoundExceedsGoverned hop_bound hop_bound | QE_QueryTimeIsSentinel

datatype filter_error = FE_View view_error | FE_Malformed query_error

section \<open>The contract of a view\<close>

text \<open>
  What the trait asks of an implementation, at one coordinate: every read answers, the batched read agrees with the
  single one, and co-occurrence is symmetric. \<open>nb\<close> are the answers.
\<close>

definition answers :: "corpus_view \<Rightarrow> tick \<Rightarrow> (entity_id \<Rightarrow> edge list) \<Rightarrow> bool" where
  "answers v as_of nb \<longleftrightarrow> (\<forall>e. cv_neighbors v e as_of = Inr (nb e)) \<and>
     (\<forall>es. cv_neighbors_many v es as_of = Inr (fmap_of_list (map (\<lambda>e. (e, nb e)) es)))"

definition co_symmetric :: "(entity_id \<Rightarrow> edge list) \<Rightarrow> bool" where
  "co_symmetric nb \<longleftrightarrow> (\<forall>a b v. CoEdge b v \<in> set (nb a) \<longrightarrow> CoEdge a v \<in> set (nb b))"

lemma fmlookup_fmap_of_list_map: "fmlookup (fmap_of_list (map (\<lambda>e. (e, f e)) es)) e = (if e \<in> set es then Some (f e) else None)"
  by (simp add: fmap_of_list.rep_eq map_of_map_restrict restrict_map_def)

lemma neighbors_each_Inr:
  assumes "\<And>e. nb e = Inr (f e)"
  shows "neighbors_each nb out es = Inr (out ++\<^sub>f fmap_of_list (map (\<lambda>e. (e, f e)) es))"
  by (induction es arbitrary: out)
    (auto simp: assms fmlookup_fmap_of_list_map fset_of_list.rep_eq intro!: fmap_ext)

lemma default_neighbors_many_answers:
  assumes "\<And>e. nb e as_of = Inr (f e)"
  shows "default_neighbors_many nb es as_of = Inr (fmap_of_list (map (\<lambda>e. (e, f e)) es))"
  unfolding default_neighbors_many_def by (subst neighbors_each_Inr [where f = f]) (simp_all add: assms)

end
