(* ===== verification/Reach.thy ===== *)
theory Reach
  imports Filter_View
begin

text \<open>
  \<open>Known_k\<close>, the bounded reachability of \<^verbatim>\<open>crates/cc-filter/src/reach.rs\<close>: a bidirectional search that
  decides the distance of two entities, then backward labels and a greedy walk that select the witness. The loop of
  \<open>shortest_distance\<close> ends because every round raises the sum of the two depths below the bound.
\<close>

section \<open>Neighbours\<close>

datatype reachability = Within phi_support | Unreached absence_witness

text \<open>\<open>sort_unstable\<close> and \<open>dedup\<close>; equal edges are indistinguishable.\<close>

definition canonical_edges :: "edge list \<Rightarrow> edge list" where
  "canonical_edges es = remdups_adj (sort es)"

definition canonical_neighbors :: "corpus_view \<Rightarrow> entity_id \<Rightarrow> tick \<Rightarrow> view_error + edge list" where
  "canonical_neighbors v e as_of = rbind (cv_neighbors v e as_of) (\<lambda>es. Inr (canonical_edges es))"

section \<open>One level\<close>

type_synonym labels = "(entity_id, nat) fmap"

text \<open>Only a vacant entry is labelled.\<close>

definition label_edge :: "nat \<Rightarrow> edge \<Rightarrow> labels \<times> entity_id set \<Rightarrow> labels \<times> entity_id set" where
  "label_edge depth e st = (case st of (dist, next) \<Rightarrow>
     if has dist (other e) then (dist, next) else (fmupd (other e) depth dist, insert (other e) next))"

definition label_entity :: "(entity_id, edge list) fmap \<Rightarrow> nat \<Rightarrow> entity_id
    \<Rightarrow> labels \<times> entity_id set \<Rightarrow> labels \<times> entity_id set" where
  "label_entity fetched depth e st =
     fold (label_edge depth) (canonical_edges (case fmlookup fetched e of Some es \<Rightarrow> es | None \<Rightarrow> [])) st"

definition expand :: "corpus_view \<Rightarrow> entity_id set \<Rightarrow> labels \<Rightarrow> nat \<Rightarrow> tick \<Rightarrow> view_error + (labels \<times> entity_id set)" where
  "expand v frontier dist depth as_of = (let level = sorted_list_of_set frontier in
     rbind (cv_neighbors_many v level as_of) (\<lambda>fetched.
     Inr (fold (label_entity fetched depth) level (dist, {}))))"

section \<open>The distance\<close>

text \<open>One side of the search: its depth, its labels and its frontier.\<close>

record side =
  sd_depth :: nat
  sd_dist :: labels
  sd_frontier :: "entity_id set"

definition start_side :: "entity_id \<Rightarrow> side" where
  "start_side e = \<lparr>sd_depth = 0, sd_dist = fmupd e 0 fmempty, sd_frontier = {e}\<rparr>"

definition advance :: "corpus_view \<Rightarrow> tick \<Rightarrow> side \<Rightarrow> view_error + side" where
  "advance v as_of s = rbind (expand v (sd_frontier s) (sd_dist s) (Suc (sd_depth s)) as_of) (\<lambda>(dist, next).
     Inr \<lparr>sd_depth = Suc (sd_depth s), sd_dist = dist, sd_frontier = next\<rparr>)"

text \<open>The least sum of the two labels over the entities both sides have labelled.\<close>

definition met :: "labels \<Rightarrow> labels \<Rightarrow> nat option" where
  "met f b = (case List.map_filter (\<lambda>e. map_option (\<lambda>db. the (fmlookup f e) + db) (fmlookup b e)) (keys f) of
     [] \<Rightarrow> None | d # ds \<Rightarrow> Some (fold min ds d))"

text \<open>One round of the loop: the smaller frontier advances, the forward one on a tie.\<close>

definition advance_smaller :: "corpus_view \<Rightarrow> tick \<Rightarrow> side \<Rightarrow> side \<Rightarrow> view_error + (side \<times> side)" where
  "advance_smaller v as_of f b = (if card (sd_frontier f) \<le> card (sd_frontier b)
     then rbind (advance v as_of f) (\<lambda>f'. Inr (f', b))
     else rbind (advance v as_of b) (\<lambda>b'. Inr (f, b')))"

lemma rbind_cong [fundef_cong]:
  "m = m' \<Longrightarrow> (\<And>x. m' = Inr x \<Longrightarrow> f x = f' x) \<Longrightarrow> rbind m f = rbind m' f'"
  by (cases m') auto

lemma advance_depth: "advance v as_of s = Inr s' \<Longrightarrow> sd_depth s' = Suc (sd_depth s)"
  by (auto simp: advance_def rbind_eq_Inr split: prod.splits)

lemma advance_smaller_depth:
  "advance_smaller v as_of f b = Inr (f', b') \<Longrightarrow> sd_depth f' + sd_depth b' = Suc (sd_depth f + sd_depth b)"
  by (auto simp: advance_smaller_def rbind_eq_Inr dest: advance_depth split: if_splits)

function meet :: "corpus_view \<Rightarrow> nat \<Rightarrow> tick \<Rightarrow> side \<Rightarrow> side \<Rightarrow> view_error + nat option" where
  "meet v k as_of f b =
    (if sd_depth f + sd_depth b < k \<and> sd_frontier f \<noteq> {} \<and> sd_frontier b \<noteq> {} then
       rbind (advance_smaller v as_of f b) (\<lambda>(f', b').
       case met (sd_dist f') (sd_dist b') of
         Some d \<Rightarrow> Inr (if d \<le> k then Some d else None)
       | None \<Rightarrow> meet v k as_of f' b')
     else Inr None)"
  by pat_completeness auto

termination
  by (relation "measure (\<lambda>(v, k, as_of, f, b). k - (sd_depth f + sd_depth b))")
    (auto dest!: advance_smaller_depth)

declare meet.simps [simp del]

definition shortest_distance :: "corpus_view \<Rightarrow> entity_id \<Rightarrow> entity_id \<Rightarrow> nat \<Rightarrow> tick \<Rightarrow> view_error + nat option" where
  "shortest_distance v from to k_hops as_of = meet v k_hops as_of (start_side from) (start_side to)"

section \<open>The witness\<close>

fun label_levels :: "corpus_view \<Rightarrow> tick \<Rightarrow> nat list \<Rightarrow> labels \<Rightarrow> entity_id set \<Rightarrow> view_error + labels" where
  "label_levels v as_of [] dist frontier = Inr dist"
| "label_levels v as_of (level # ls) dist frontier = (if frontier = {} then Inr dist else
     rbind (expand v frontier dist level as_of) (\<lambda>(dist', frontier'). label_levels v as_of ls dist' frontier'))"

definition backward_labels :: "corpus_view \<Rightarrow> entity_id \<Rightarrow> nat \<Rightarrow> tick \<Rightarrow> view_error + labels" where
  "backward_labels v target depth as_of = label_levels v as_of [1..<Suc depth] (fmupd target 0 fmempty) {target}"

fun greedy_steps :: "corpus_view \<Rightarrow> labels \<Rightarrow> tick \<Rightarrow> nat list \<Rightarrow> entity_id \<Rightarrow> view_error + walk_step list" where
  "greedy_steps v back as_of [] cur = Inr []"
| "greedy_steps v back as_of (remaining # rs) cur = rbind (canonical_neighbors v cur as_of) (\<lambda>es.
     case find (\<lambda>e. fmlookup back (other e) = Some (remaining - 1)) es of
       None \<Rightarrow> Inl (VE_Decode ''backward distance labels are inconsistent with the neighbour relation'')
     | Some step \<Rightarrow> rbind (greedy_steps v back as_of rs (other step)) (\<lambda>steps.
         Inr (WalkStep (other step) (via step) # steps)))"

definition greedy_lex_min_walk :: "corpus_view \<Rightarrow> entity_id \<Rightarrow> nat \<Rightarrow> labels \<Rightarrow> tick \<Rightarrow> view_error + walk_step list" where
  "greedy_lex_min_walk v from d back as_of = greedy_steps v back as_of (rev [1..<Suc d]) from"

definition known_k :: "corpus_view \<Rightarrow> entity_id \<Rightarrow> entity_id \<Rightarrow> hop_bound \<Rightarrow> tick \<Rightarrow> view_error + reachability" where
  "known_k v from to k as_of =
    (if from = to then Inr (Within phi_reflexive) else
     let k_hops = unat (hops_get k); unreachable = Unreached (AW_NoEvidencedWalk from to k) in
     if k_hops = 0 then Inr unreachable else
     rbind (shortest_distance v from to k_hops as_of) (\<lambda>r. case r of
       None \<Rightarrow> Inr unreachable
     | Some d \<Rightarrow>
         rbind (backward_labels v to d as_of) (\<lambda>back.
         rbind (greedy_lex_min_walk v from d back as_of) (\<lambda>witness.
         Inr (Within (from_walk (WalkLen d) witness))))))"

end
