(* ===== verification/Reach_Properties.thy ===== *)
theory Reach_Properties
  imports Reach "HOL-Library.List_Lexorder"
begin

text \<open>
  The search of \<^verbatim>\<open>reach.rs\<close> against walks in the co-occurrence graph. The locale \<open>co_graph\<close> states what
  the search relies on from a view; in it the labels are exact distances, the two sides meet at the distance of the
  endpoints, and the greedy walk is the least of the shortest ones.
\<close>

section \<open>Walks and distances\<close>

fun evidenced :: "(entity_id \<Rightarrow> edge list) \<Rightarrow> entity_id \<Rightarrow> walk_step list \<Rightarrow> entity_id \<Rightarrow> bool" where
  "evidenced nb a [] b \<longleftrightarrow> a = b"
| "evidenced nb a (s # ss) b \<longleftrightarrow> CoEdge (ws_entity s) (ws_via s) \<in> set (nb a) \<and> evidenced nb (ws_entity s) ss b"

definition near :: "(entity_id \<Rightarrow> edge list) \<Rightarrow> nat \<Rightarrow> entity_id \<Rightarrow> entity_id \<Rightarrow> bool" where
  "near nb n a b \<longleftrightarrow> (\<exists>w. length w \<le> n \<and> evidenced nb a w b)"

definition distance_is :: "(entity_id \<Rightarrow> edge list) \<Rightarrow> entity_id \<Rightarrow> nat \<Rightarrow> entity_id \<Rightarrow> bool" where
  "distance_is nb a n b \<longleftrightarrow> near nb n a b \<and> (\<forall>m<n. \<not> near nb m a b)"

text \<open>The normative recurrence: \<open>T\<^sub>0 = I \<or> B\<close> and \<open>T\<^sub>j\<^sub>+\<^sub>1 = T\<^sub>j \<or> (T\<^sub>j \<circ> T\<^sub>j)\<close>.\<close>

fun doubling :: "(entity_id \<Rightarrow> edge list) \<Rightarrow> nat \<Rightarrow> entity_id \<Rightarrow> entity_id \<Rightarrow> bool" where
  "doubling nb 0 a b \<longleftrightarrow> a = b \<or> b \<in> other ` set (nb a)"
| "doubling nb (Suc j) a b \<longleftrightarrow> doubling nb j a b \<or> (\<exists>c. doubling nb j a c \<and> doubling nb j c b)"

lemma evidenced_append: "evidenced nb a (u @ w) b \<longleftrightarrow> (\<exists>c. evidenced nb a u c \<and> evidenced nb c w b)"
  by (induction u arbitrary: a) auto

lemma near_0 [simp]: "near nb 0 a b \<longleftrightarrow> a = b"
  by (auto simp: near_def)

lemma near_refl [simp]: "near nb n a a"
  unfolding near_def by (intro exI [of _ "[]"]) simp

lemma near_mono: "near nb m a b \<Longrightarrow> m \<le> n \<Longrightarrow> near nb n a b"
  unfolding near_def using order_trans by blast

lemma near_trans: "near nb m a b \<Longrightarrow> near nb n b c \<Longrightarrow> near nb (m + n) a c"
  unfolding near_def by (metis add_mono evidenced_append length_append)

lemma near_split: "near nb (m + n) a b \<Longrightarrow> \<exists>c. near nb m a c \<and> near nb n c b"
proof -
  assume "near nb (m + n) a b"
  then obtain w where w: "length w \<le> m + n" "evidenced nb a w b" by (auto simp: near_def)
  then obtain c where "evidenced nb a (take m w) c" "evidenced nb c (drop m w) b"
    by (metis append_take_drop_id evidenced_append)
  with w(1) show ?thesis unfolding near_def by (metis length_drop length_take le_diff_conv add.commute min.cobounded2)
qed

lemma near_1: "near nb (Suc 0) a b \<longleftrightarrow> a = b \<or> b \<in> other ` set (nb a)"
proof -
  have step: "(\<exists>s. evidenced nb a [s] b) \<longleftrightarrow> b \<in> other ` set (nb a)"
  proof
    show "\<exists>s. evidenced nb a [s] b \<Longrightarrow> b \<in> other ` set (nb a)"
      by (auto intro: rev_image_eqI)
    assume "b \<in> other ` set (nb a)"
    then obtain e where e: "e \<in> set (nb a)" "b = other e" by blast
    then show "\<exists>s. evidenced nb a [s] b" by (intro exI [of _ "WalkStep b (via e)"]) simp
  qed
  have "near nb (Suc 0) a b \<longleftrightarrow> a = b \<or> (\<exists>s. evidenced nb a [s] b)"
    unfolding near_def by (auto simp: le_Suc_eq length_Suc_conv)
  also have "\<dots> \<longleftrightarrow> a = b \<or> b \<in> other ` set (nb a)"
    using step by simp
  finally show ?thesis .
qed

lemma near_Suc: "near nb (Suc n) a b \<longleftrightarrow> near nb n a b \<or> (\<exists>c. near nb n a c \<and> b \<in> other ` set (nb c))"
  using near_split [of nb n 1 a b] near_trans [of nb n a _ 1 b] near_mono [of nb n a b "Suc n"] by (auto simp: near_1)

lemma doubling_near: "doubling nb j a b \<longleftrightarrow> near nb (2 ^ j) a b"
proof (induction j arbitrary: a b)
  case (Suc j)
  have "doubling nb (Suc j) a b \<longleftrightarrow> near nb (2 ^ j) a b \<or> near nb (2 ^ j + 2 ^ j) a b"
    using near_split near_trans by (auto simp: Suc.IH)
  also have "\<dots> \<longleftrightarrow> near nb (2 ^ Suc j) a b"
    using near_mono [of nb "2 ^ j" a b "2 ^ Suc j"] by (auto simp: mult_2)
  finally show ?case .
qed (simp add: near_1)

lemma distance_exists: "near nb n a b \<Longrightarrow> \<exists>m\<le>n. distance_is nb a m b"
  unfolding distance_is_def using LeastI [of "\<lambda>m. near nb m a b" n] Least_le [of "\<lambda>m. near nb m a b" n]
    not_less_Least [of _ "\<lambda>m. near nb m a b"] by blast

lemma distance_unique: "distance_is nb a m b \<Longrightarrow> distance_is nb a n b \<Longrightarrow> m = n"
  unfolding distance_is_def by (meson linorder_neqE_nat)

lemma distance_le: "distance_is nb a m b \<Longrightarrow> near nb n a b \<Longrightarrow> m \<le> n"
  unfolding distance_is_def by (meson not_le)

lemma distance_0 [simp]: "distance_is nb a 0 b \<longleftrightarrow> a = b"
  by (simp add: distance_is_def)

text \<open>A shortest walk passes every distance below its length.\<close>

lemma distance_split:
  assumes "distance_is nb a n b" "m \<le> n"
  obtains c where "distance_is nb a m c" "distance_is nb c (n - m) b"
proof -
  from assms near_split [of nb m "n - m" a b] obtain c where c: "near nb m a c" "near nb (n - m) c b"
    by (auto simp: distance_is_def)
  have "\<not> near nb i a c" if "i < m" for i
    using near_trans [OF _ c(2), of i a] assms that distance_le by (metis add_less_mono1 le_add_diff_inverse not_le)
  moreover have "\<not> near nb i c b" if "i < n - m" for i
    using near_trans [OF c(1), of i b] assms that distance_le by (metis less_diff_conv add.commute not_le)
  ultimately show thesis using c that by (auto simp: distance_is_def)
qed

lemma distance_Suc:
  "distance_is nb a (Suc n) b \<longleftrightarrow> \<not> near nb n a b \<and> (\<exists>c. distance_is nb a n c \<and> b \<in> other ` set (nb c))"
proof
  assume d: "distance_is nb a (Suc n) b"
  then obtain c where c: "distance_is nb a n c" "distance_is nb c 1 b"
    using distance_split [of nb a "Suc n" b n] by auto
  then have "b \<in> other ` set (nb c)" using near_1 [of nb c b] by (auto simp: distance_is_def)
  with c d show "\<not> near nb n a b \<and> (\<exists>c. distance_is nb a n c \<and> b \<in> other ` set (nb c))"
    by (auto simp: distance_is_def)
next
  assume "\<not> near nb n a b \<and> (\<exists>c. distance_is nb a n c \<and> b \<in> other ` set (nb c))"
  then show "distance_is nb a (Suc n) b"
    by (auto simp: distance_is_def near_Suc less_Suc_eq_le dest: near_mono)
qed

section \<open>Labelling\<close>

lemma set_canonical_edges [simp]: "set (canonical_edges es) = set es"
  by (simp add: canonical_edges_def)

lemma sorted_canonical_edges: "sorted (canonical_edges es)"
  by (simp add: canonical_edges_def sorted_remdups_adj)

lemma fold_label_edge:
  "fmlookup (fst (fold (label_edge d) es st)) e =
     (case fmlookup (fst st) e of Some n \<Rightarrow> Some n | None \<Rightarrow> if e \<in> other ` set es then Some d else None)"
  "snd (fold (label_edge d) es st) = snd st \<union> (other ` set es - fmdom' (fst st))"
  by (induction es arbitrary: st)
    (auto simp: label_edge_def has_iff fmlookup_dom'_iff split: prod.splits option.splits)

definition labelled :: "(entity_id \<Rightarrow> edge list) \<Rightarrow> entity_id \<Rightarrow> nat \<Rightarrow> labels \<Rightarrow> entity_id set \<Rightarrow> bool" where
  "labelled nb a d dist frontier \<longleftrightarrow> (\<forall>e n. fmlookup dist e = Some n \<longleftrightarrow> n \<le> d \<and> distance_is nb a n e) \<and>
     frontier = {e. distance_is nb a d e}"

lemma labelled_start: "labelled nb a 0 (fmupd a 0 fmempty) {a}"
  by (auto simp: labelled_def)

lemma labelled_dom: "labelled nb a d dist frontier \<Longrightarrow> e \<in> fmdom' dist \<longleftrightarrow> near nb d a e"
  unfolding labelled_def fmlookup_dom'_iff by (metis distance_exists distance_is_def near_mono)

lemma labelled_finite: "labelled nb a d dist frontier \<Longrightarrow> finite frontier"
  by (rule finite_subset [of _ "fmdom' dist"]) (auto simp: labelled_dom, auto simp: labelled_def distance_is_def)

lemma labelled_empty:
  assumes "labelled nb a d dist {}" "distance_is nb a n e"
  shows "n < d"
  using assms distance_split [of nb a n e d] by (force simp: labelled_def not_less)


lemma met_eq_Some:
  "met f b = Some d \<longleftrightarrow> (\<exists>e x y. fmlookup f e = Some x \<and> fmlookup b e = Some y \<and> d = x + y) \<and>
     (\<forall>e x y. fmlookup f e = Some x \<longrightarrow> fmlookup b e = Some y \<longrightarrow> d \<le> x + y)"
proof -
  define ds where "ds = List.map_filter (\<lambda>e. map_option (\<lambda>db. the (fmlookup f e) + db) (fmlookup b e)) (keys f)"
  have set_ds: "z \<in> set ds \<longleftrightarrow> (\<exists>e x y. fmlookup f e = Some x \<and> fmlookup b e = Some y \<and> z = x + y)" for z
    unfolding ds_def List.map_filter_def by (force simp: fmlookup_dom'_iff)
  have "met f b = (if set ds = {} then None else Some (Min (set ds)))"
    unfolding met_def ds_def [symmetric] by (cases ds) (simp_all add: Min.set_eq_fold [symmetric])
  then have "met f b = Some d \<longleftrightarrow> d \<in> set ds \<and> (\<forall>z\<in>set ds. d \<le> z)"
    by (auto simp: Min_eq_iff)
  moreover have "(\<forall>z\<in>set ds. d \<le> z) \<longleftrightarrow> (\<forall>e x y. fmlookup f e = Some x \<longrightarrow> fmlookup b e = Some y \<longrightarrow> d \<le> x + y)"
    by (auto simp: set_ds Ball_def)
  ultimately show ?thesis by (simp only: set_ds)
qed

section \<open>The search on a view that keeps its contract\<close>

locale co_graph =
  fixes v :: corpus_view and as_of :: tick and nb :: "entity_id \<Rightarrow> edge list"
  assumes answers: "answers v as_of nb"
    and symmetric: "co_symmetric nb"
begin

lemma expand_labelled:
  assumes l: "labelled nb a d dist frontier"
  obtains dist' frontier' where "expand v frontier dist (Suc d) as_of = Inr (dist', frontier')"
    "labelled nb a (Suc d) dist' frontier'"
proof -
  define level where "level = sorted_list_of_set frontier"
  define fetched where "fetched = fmap_of_list (map (\<lambda>e. (e, nb e)) level)"
  define es where "es = concat (map (\<lambda>e. canonical_edges (nb e)) level)"
  define r where "r = fold (label_edge (Suc d)) es (dist, {})"
  have set_level: "set level = {e. distance_is nb a d e}"
    using labelled_finite [OF l] l by (simp add: level_def labelled_def)
  have "fold (label_entity fetched (Suc d)) ls st = fold (label_edge (Suc d)) (concat (map (\<lambda>e. canonical_edges (nb e)) ls)) st"
    if "set ls \<subseteq> set level" for ls st
    using that by (induction ls arbitrary: st) (auto simp: label_entity_def fetched_def fmlookup_fmap_of_list_map)
  then have "expand v frontier dist (Suc d) as_of = Inr r"
    using answers by (simp add: expand_def answers_def Let_def level_def [symmetric] fetched_def [symmetric] r_def es_def)
  moreover have next_level: "other ` set es - fmdom' dist = {e. distance_is nb a (Suc d) e}"
    using set_level labelled_dom [OF l] by (auto simp: es_def distance_Suc)
  have "labelled nb a (Suc d) (fst r) (snd r)"
    unfolding labelled_def
  proof (intro conjI allI)
    show "snd r = {e. distance_is nb a (Suc d) e}" by (simp add: r_def fold_label_edge next_level)
    fix e n
    have old: "fmlookup dist e = Some n \<longleftrightarrow> n \<le> d \<and> distance_is nb a n e" using l by (simp add: labelled_def)
    show "fmlookup (fst r) e = Some n \<longleftrightarrow> n \<le> Suc d \<and> distance_is nb a n e"
    proof (cases "e \<in> fmdom' dist")
      case True
      then have "\<not> distance_is nb a (Suc d) e" using next_level by blast
      with True old show ?thesis
        by (auto simp: r_def fold_label_edge fmlookup_dom'_iff le_Suc_eq)
    next
      case False
      then have "e \<in> other ` set es \<longleftrightarrow> distance_is nb a (Suc d) e" using next_level by blast
      moreover have "\<not> (n \<le> d \<and> distance_is nb a n e)" using False old by (auto simp: fmlookup_dom'_iff)
      moreover have "fmlookup dist e = None" using False by (simp add: fmlookup_dom'_iff)
      ultimately show ?thesis by (auto simp: r_def fold_label_edge le_Suc_eq dest: distance_unique)
    qed
  qed
  ultimately show thesis using that by (metis prod.collapse)
qed

lemma evidenced_reverse: "evidenced nb a w b \<Longrightarrow> \<exists>w'. length w' = length w \<and> evidenced nb b w' a"
proof (induction w arbitrary: a)
  case (Cons s w)
  then obtain w' where w': "length w' = length w" "evidenced nb b w' (ws_entity s)" by auto
  have "CoEdge a (ws_via s) \<in> set (nb (ws_entity s))"
    using Cons.prems symmetric by (simp add: co_symmetric_def)
  then have "evidenced nb b (w' @ [WalkStep a (ws_via s)]) a" using w' by (auto simp: evidenced_append)
  with w'(1) show ?case by (metis length_append_singleton length_Cons)
qed simp

lemma near_sym: "near nb n a b \<longleftrightarrow> near nb n b a"
  unfolding near_def using evidenced_reverse by metis

lemma distance_sym: "distance_is nb a n b \<longleftrightarrow> distance_is nb b n a"
  by (simp add: distance_is_def near_sym [of _ a])

lemma met_distance:
  assumes f: "labelled nb a df f frf" and b: "labelled nb c db b frb"
  shows "met f b = Some d \<longleftrightarrow> d \<le> df + db \<and> distance_is nb a d c"
proof -
  have f_iff: "fmlookup f e = Some x \<longleftrightarrow> x \<le> df \<and> distance_is nb a x e" for e x using f by (simp add: labelled_def)
  have b_iff: "fmlookup b e = Some y \<longleftrightarrow> y \<le> db \<and> distance_is nb e y c" for e y
    using b by (simp add: labelled_def distance_sym [of c])
  have join: "near nb (x + y) a c" if "fmlookup f e = Some x" "fmlookup b e = Some y" for e x y
    using that near_trans by (auto simp: f_iff b_iff distance_is_def)
  have split: "\<exists>e x y. fmlookup f e = Some x \<and> fmlookup b e = Some y \<and> m = x + y"
    if m: "distance_is nb a m c" "m \<le> df + db" for m
  proof -
    obtain e where "distance_is nb a (min m df) e" "distance_is nb e (m - min m df) c"
      using distance_split [OF m(1), of "min m df"] by auto
    with m(2) have "fmlookup f e = Some (min m df)" "fmlookup b e = Some (m - min m df)" by (auto simp: f_iff b_iff)
    then show ?thesis by (intro exI conjI) auto
  qed
  show ?thesis
  proof
    assume met: "met f b = Some d"
    then obtain e x y where e: "fmlookup f e = Some x" "fmlookup b e = Some y" "d = x + y" by (auto simp: met_eq_Some)
    then have d: "d \<le> df + db" by (auto simp: f_iff b_iff)
    obtain m where m: "m \<le> d" "distance_is nb a m c" using join [OF e(1,2)] e(3) distance_exists by blast
    then obtain e' x' y' where "fmlookup f e' = Some x'" "fmlookup b e' = Some y'" "m = x' + y'"
      using split [of m] d by auto
    then have "d \<le> m" using met by (simp add: met_eq_Some)
    with m d show "d \<le> df + db \<and> distance_is nb a d c" by simp
  next
    assume d: "d \<le> df + db \<and> distance_is nb a d c"
    then show "met f b = Some d"
      using split [of d] join distance_le [of nb a d c] unfolding met_eq_Some by blast
  qed
qed

definition side_ok :: "entity_id \<Rightarrow> side \<Rightarrow> bool" where
  "side_ok a s \<longleftrightarrow> labelled nb a (sd_depth s) (sd_dist s) (sd_frontier s)"

lemma advance_ok: "side_ok a s \<Longrightarrow> \<exists>s'. advance v as_of s = Inr s' \<and> side_ok a s' \<and> sd_depth s' = Suc (sd_depth s)"
  using expand_labelled [of a "sd_depth s" "sd_dist s" "sd_frontier s"] by (fastforce simp: side_ok_def advance_def)

lemma advance_smaller_ok:
  assumes "side_ok a f" "side_ok c b"
  obtains f' b' where "advance_smaller v as_of f b = Inr (f', b')" "side_ok a f'" "side_ok c b'"
    "sd_depth f' + sd_depth b' = Suc (sd_depth f + sd_depth b)"
  using advance_ok [OF assms(1)] advance_ok [OF assms(2)] assms
  by (cases "card (sd_frontier f) \<le> card (sd_frontier b)") (auto simp: advance_smaller_def)

text \<open>An exhausted side bounds every distance from it.\<close>

lemma side_empty: "side_ok a s \<Longrightarrow> sd_frontier s = {} \<Longrightarrow> distance_is nb a n e \<Longrightarrow> n < sd_depth s"
  by (auto simp: side_ok_def intro: labelled_empty)

lemma meet_distance:
  "side_ok a f \<Longrightarrow> side_ok c b \<Longrightarrow> \<not> near nb (sd_depth f + sd_depth b) a c \<Longrightarrow>
    \<exists>r. meet v k as_of f b = Inr r \<and> (\<forall>d. r = Some d \<longleftrightarrow> d \<le> k \<and> distance_is nb a d c)"
proof (induction "k - (sd_depth f + sd_depth b)" arbitrary: f b)
  case 0
  then show ?case by (subst meet.simps) (auto simp: distance_is_def dest: near_mono)
next
  case (Suc m)
  have far: "sd_depth f + sd_depth b < d" if "distance_is nb a d c" for d
    using that Suc.prems(3) by (auto simp: distance_is_def not_less [symmetric] dest: near_mono)
  show ?case
  proof (cases "sd_frontier f = {} \<or> sd_frontier b = {}")
    case True
    then have "\<not> distance_is nb a d c" for d
      using far [of d] side_empty [OF Suc.prems(1), of d c] side_empty [OF Suc.prems(2), of d a]
      by (auto simp: distance_sym [of c])
    with True show ?thesis by (subst meet.simps) auto
  next
    case False
    obtain f' b' where step: "advance_smaller v as_of f b = Inr (f', b')" and ok: "side_ok a f'" "side_ok c b'"
      and depth: "sd_depth f' + sd_depth b' = Suc (sd_depth f + sd_depth b)"
      using advance_smaller_ok [OF Suc.prems(1,2)] .
    have met: "met (sd_dist f') (sd_dist b') = Some d \<longleftrightarrow> d \<le> sd_depth f' + sd_depth b' \<and> distance_is nb a d c" for d
      using met_distance ok unfolding side_ok_def .
    have below: "sd_depth f + sd_depth b < k" using Suc.hyps(2) by linarith
    have run: "meet v k as_of f b = (case met (sd_dist f') (sd_dist b') of
        Some d \<Rightarrow> Inr (if d \<le> k then Some d else None) | None \<Rightarrow> meet v k as_of f' b')"
      using False below by (subst meet.simps) (simp add: step)
    show ?thesis
    proof (cases "met (sd_dist f') (sd_dist b')")
      case None
      then have "\<not> near nb (sd_depth f' + sd_depth b') a c" using met distance_exists by (metis option.distinct(1))
      moreover have "m = k - (sd_depth f' + sd_depth b')" using Suc.hyps(2) depth by simp
      ultimately show ?thesis using Suc.hyps(1) [of f' b'] ok None run by simp
    next
      case (Some d)
      then have "d \<le> k" "distance_is nb a d c" using met [of d] depth Suc.hyps(2) by auto
      with Some run show ?thesis by (auto dest: distance_unique)
    qed
  qed
qed

lemma shortest_distance_exact:
  assumes "a \<noteq> c"
  obtains r where "shortest_distance v a c k as_of = Inr r" "\<And>d. r = Some d \<longleftrightarrow> d \<le> k \<and> distance_is nb a d c"
  using meet_distance [of a "start_side a" c "start_side c" k] assms
  by (auto simp: shortest_distance_def start_side_def side_ok_def labelled_start)

lemma label_levels_exact:
  "labelled nb a d dist frontier \<Longrightarrow> \<exists>back. label_levels v as_of [Suc d..<Suc n] dist frontier = Inr back \<and>
    (\<forall>e m. fmlookup back e = Some m \<longleftrightarrow> m \<le> max d n \<and> distance_is nb a m e)"
proof (induction "n - d" arbitrary: d dist frontier)
  case 0
  then show ?case by (simp add: labelled_def max_absorb1)
next
  case (Suc m)
  then have upt: "[Suc d..<Suc n] = Suc d # [Suc (Suc d)..<Suc n]" by (intro upt_conv_Cons) linarith
  show ?case
  proof (cases "frontier = {}")
    case True
    have small: "i < d" if "distance_is nb a i e" for i e
      using labelled_empty [OF Suc.prems [unfolded True] that] .
    have "fmlookup dist e = Some i \<longleftrightarrow> i \<le> max d n \<and> distance_is nb a i e" for e i
      using Suc.prems small [of i e] by (auto simp: labelled_def)
    with True show ?thesis unfolding upt by simp
  next
    case False
    obtain dist' frontier' where e: "expand v frontier dist (Suc d) as_of = Inr (dist', frontier')"
      "labelled nb a (Suc d) dist' frontier'" using expand_labelled [OF Suc.prems] .
    have "m = n - Suc d" "max (Suc d) n = max d n" using Suc.hyps(2) by auto
    with Suc.hyps(1) [OF _ e(2)] False e(1) show ?thesis unfolding upt by simp
  qed
qed

lemma backward_labels_exact:
  "\<exists>dist. backward_labels v a n as_of = Inr dist \<and> (\<forall>e m. fmlookup dist e = Some m \<longleftrightarrow> m \<le> n \<and> distance_is nb a m e)"
  using label_levels_exact [OF labelled_start [of nb a], of n] by (auto simp: backward_labels_def)

lemma walk_step_le: "CoEdge (ws_entity s) (ws_via s) \<le> CoEdge (ws_entity t) (ws_via t) \<longleftrightarrow> s \<le> t"
  by (simp add: less_eq_edge_eq less_eq_walk_step_eq edge_key_def step_key_def)

lemma find_sorted: "sorted xs \<Longrightarrow> x \<in> set xs \<Longrightarrow> P x \<Longrightarrow> \<exists>y. find P xs = Some y \<and> y \<in> set xs \<and> P y \<and> y \<le> x"
  by (induction xs) auto

text \<open>The greedy walk reaches the target, and no shortest walk precedes it.\<close>

lemma greedy_steps_least:
  assumes labels: "\<And>e m. fmlookup lab e = Some m \<longleftrightarrow> m \<le> n \<and> distance_is nb c m e"
  shows "distance_is nb cur r c \<Longrightarrow> r \<le> Suc n \<Longrightarrow> \<exists>w. greedy_steps v lab as_of (rev [1..<Suc r]) cur = Inr w \<and>
    length w = r \<and> evidenced nb cur w c \<and> (\<forall>w'. length w' = r \<longrightarrow> evidenced nb cur w' c \<longrightarrow> w \<le> w')"
proof (induction r arbitrary: cur)
  case (Suc r)
  let ?P = "\<lambda>e. fmlookup lab (other e) = Some r" and ?es = "canonical_edges (nb cur)"
  have labelled: "?P e" if "evidenced nb (other e) w c" "length w = r" "e \<in> set (nb cur)" for e w
  proof -
    have "near nb r (other e) c" using that by (auto simp: near_def)
    then obtain m where m: "m \<le> r" "distance_is nb (other e) m c" using distance_exists by blast
    moreover have "near nb (1 + m) cur c"
      using near_trans [of nb 1 cur "other e" m c] m that(3) by (auto simp: near_1 distance_is_def)
    ultimately have "m = r" using distance_le [OF Suc.prems(1)] by fastforce
    with m(2) Suc.prems(2) show ?thesis by (simp add: labels distance_sym [of c])
  qed
  obtain w where w: "length w \<le> Suc r" "evidenced nb cur w c" using Suc.prems by (auto simp: distance_is_def near_def)
  moreover have "length w = Suc r"
    using w distance_le [OF Suc.prems(1), of "length w"] unfolding near_def by (meson le_antisym le_refl)
  ultimately obtain s w1 where s: "w = s # w1" by (auto simp: length_Suc_conv)
  then have "CoEdge (ws_entity s) (ws_via s) \<in> set ?es" "?P (CoEdge (ws_entity s) (ws_via s))"
    using w labelled [of "CoEdge (ws_entity s) (ws_via s)" w1] \<open>length w = Suc r\<close> by auto
  then obtain e where e: "find ?P ?es = Some e" "e \<in> set (nb cur)" "?P e"
    using find_sorted [OF sorted_canonical_edges, of "CoEdge (ws_entity s) (ws_via s)" "nb cur" ?P] by (metis set_canonical_edges)
  have least: "e \<le> x" if "x \<in> set (nb cur)" "?P x" for x
    using find_sorted [OF sorted_canonical_edges, of x "nb cur" ?P] that e(1) by auto
  have "distance_is nb (other e) r c" "r \<le> Suc n" using e(3) labels by (auto simp: distance_sym [of c])
  then obtain u where u: "greedy_steps v lab as_of (rev [1..<Suc r]) (other e) = Inr u" "length u = r"
      "evidenced nb (other e) u c" "\<And>w'. length w' = r \<Longrightarrow> evidenced nb (other e) w' c \<Longrightarrow> u \<le> w'"
    using Suc.IH by blast
  let ?w = "WalkStep (other e) (via e) # u"
  have "greedy_steps v lab as_of (rev [1..<Suc (Suc r)]) cur = Inr ?w"
    using answers u(1) e(1) by (simp add: canonical_neighbors_def answers_def)
  moreover have "?w \<le> w'" if w': "length w' = Suc r" "evidenced nb cur w' c" for w'
  proof -
    from w' obtain t w2 where t: "w' = t # w2" "length w2 = r" by (auto simp: length_Suc_conv)
    then have "e \<le> CoEdge (ws_entity t) (ws_via t)"
      using w' labelled [of "CoEdge (ws_entity t) (ws_via t)" w2] by (intro least) auto
    then have "WalkStep (other e) (via e) \<le> t"
      using walk_step_le [of "WalkStep (other e) (via e)" t] by simp
    moreover have "u \<le> w2" if "WalkStep (other e) (via e) = t"
      using u(4) [of w2] w'(2) t that by auto
    ultimately show ?thesis unfolding t(1) by (auto simp: le_less)
  qed
  moreover have "evidenced nb cur ?w c" using e(2) u(3) by simp
  ultimately show ?case using u(2) by (intro exI [of _ ?w]) simp
qed simp

lemma known_k_exact_at:
  "(\<exists>d w. known_k v a c k as_of = Inr (Within \<lparr>ph_hops = WalkLen d, ph_witness = w\<rparr>) \<and> d \<le> unat (hops_get k) \<and>
      distance_is nb a d c \<and> length w = d \<and> evidenced nb a w c \<and>
      (\<forall>w'. evidenced nb a w' c \<longrightarrow> d < length w' \<or> d = length w' \<and> w \<le> w')) \<or>
    known_k v a c k as_of = Inr (Unreached (AW_NoEvidencedWalk a c k)) \<and> \<not> near nb (unat (hops_get k)) a c"
proof (cases "a = c \<or> unat (hops_get k) = 0")
  case True
  then show ?thesis by (auto simp: known_k_def phi_reflexive_def Let_def le_less)
next
  case False
  obtain r where r: "shortest_distance v a c (unat (hops_get k)) as_of = Inr r"
    "\<And>d. r = Some d \<longleftrightarrow> d \<le> unat (hops_get k) \<and> distance_is nb a d c" using False shortest_distance_exact by blast
  show ?thesis
  proof (cases r)
    case None
    then have "\<not> near nb (unat (hops_get k)) a c" using r(2) distance_exists by (metis option.distinct(1))
    with None r(1) False show ?thesis by (simp add: known_k_def Let_def)
  next
    case (Some d)
    obtain lab where lab: "backward_labels v c d as_of = Inr lab"
      "\<And>e m. fmlookup lab e = Some m \<longleftrightarrow> m \<le> d \<and> distance_is nb c m e" using backward_labels_exact [of c d] by blast
    obtain w where w: "greedy_lex_min_walk v a d lab as_of = Inr w" "length w = d" "evidenced nb a w c"
      "\<And>w'. length w' = d \<Longrightarrow> evidenced nb a w' c \<Longrightarrow> w \<le> w'"
      using greedy_steps_least [OF lab(2), of a d] Some r(2) by (auto simp: greedy_lex_min_walk_def)
    have far: "d \<le> length w'" if "evidenced nb a w' c" for w'
      using that Some r(2) distance_le [of nb a d c "length w'"] by (auto simp: near_def)
    have "known_k v a c k as_of = Inr (Within \<lparr>ph_hops = WalkLen d, ph_witness = w\<rparr>)"
      using False r(1) Some lab(1) w(1) by (simp add: known_k_def Let_def from_walk_def)
    then show ?thesis using w Some r(2) far by (metis le_neq_implies_less)
  qed
qed

end

text \<open>The outcome depends on the sets of neighbours only, whatever order or repetitions a view returns.\<close>

lemma evidenced_cong: "(\<And>e. set (nb e) = set (nb' e)) \<Longrightarrow> evidenced nb a w b \<longleftrightarrow> evidenced nb' a w b"
  by (induction w arbitrary: a) auto

lemma known_k_same_edges:
  assumes "co_graph v t nb" "co_graph v' t nb'" "\<And>e. set (nb e) = set (nb' e)"
  shows "known_k v a b k t = known_k v' a b k t"
proof -
  have same: "evidenced nb' x w y \<longleftrightarrow> evidenced nb x w y" for x w y using evidenced_cong [OF assms(3)] by simp
  then have "near nb' n x y \<longleftrightarrow> near nb n x y" for n x y by (simp add: near_def)
  with same co_graph.known_k_exact_at [OF assms(1), of a b k] co_graph.known_k_exact_at [OF assms(2), of a b k]
  show ?thesis by (auto simp: distance_is_def dest: near_mono) (metis antisym less_irrefl less_not_sym)+
qed

section \<open>Properties\<close>

text \<open>
  C26: on a view whose reads answer, whose batched read agrees with the single one and whose co-occurrence is symmetric,
  \<open>known_k\<close> returns. It finds a support exactly when an evidenced walk of at most \<open>k\<close> hops joins the two
  entities; the hops are then the length of a shortest walk, and the witness is the least of the shortest walks in the
  order of \<open>(entity, via)\<close> steps. The inconsistency error of the witness phase does not occur.
\<close>

theorem known_k_exact:
  assumes "answers v as_of nb" "co_symmetric nb"
  shows "(\<exists>d w. known_k v a b k as_of = Inr (Within \<lparr>ph_hops = WalkLen d, ph_witness = w\<rparr>) \<and>
      d = length w \<and> d \<le> unat (hops_get k) \<and> evidenced nb a w b \<and>
      (\<forall>w'. evidenced nb a w' b \<longrightarrow> d < length w' \<or> d = length w' \<and> w \<le> w')) \<or>
    known_k v a b k as_of = Inr (Unreached (AW_NoEvidencedWalk a b k)) \<and>
      (\<forall>w. evidenced nb a w b \<longrightarrow> unat (hops_get k) < length w)"
proof -
  have "co_graph v as_of nb" using assms by unfold_locales
  from co_graph.known_k_exact_at [OF this, of a b k] show ?thesis
    unfolding near_def by (meson not_le)
qed

text \<open>
  On such a view the bidirectional search decides the normative recurrence: under a bound of \<open>2^j\<close> hops it finds a
  support exactly when the \<open>j\<close>-th reflexive doubling of the co-occurrence relation relates the entities.
\<close>

theorem known_k_doubling:
  assumes "answers v as_of nb" "co_symmetric nb" "unat (hops_get k) = 2 ^ j"
  shows "(\<exists>s. known_k v a b k as_of = Inr (Within s)) \<longleftrightarrow> doubling nb j a b"
proof -
  have "co_graph v as_of nb" using assms by unfold_locales
  from co_graph.known_k_exact_at [OF this, of a b k] show ?thesis
    using assms(3) by (auto simp: doubling_near distance_is_def dest: near_mono)
qed

end
