(* ===== verification/Corpus_Properties.thy ===== *)
theory Corpus_Properties
  imports Corpus
begin

text \<open>
  A corpus against the set of its records: what each of its indexes holds, when its construction succeeds, and what its
  reads return.
\<close>

section \<open>What a corpus holds\<close>

definition co_edges :: "corpus_record set \<Rightarrow> (entity_id \<times> entity_id \<times> tick \<times> hash) set" where
  "co_edges S = {(min a b, max a b, at, v) | a b at v. CR_CoOccurrence a b at v \<in> S}"

definition adjacent :: "corpus_record set \<Rightarrow> entity_id \<Rightarrow> (entity_id \<times> hash \<times> tick) set" where
  "adjacent S e = {(x, v, at). CR_CoOccurrence e x at v \<in> S \<or> CR_CoOccurrence x e at v \<in> S}"

definition window_facts :: "corpus_record set \<Rightarrow> (entity_id \<times> (tick \<times> hash) \<times> window_start \<times> window_end) set" where
  "window_facts S = {(e, (t, v), (s, f)). CR_Window e t v s f \<in> S}"

definition ruling_facts :: "corpus_record set \<Rightarrow> (claim_type \<times> (tick \<times> hash) \<times> ruling) set" where
  "ruling_facts S = {(k, (t, v), r). CR_Admissibility k t v r \<in> S}"

definition functional_facts :: "('e \<times> 'k \<times> 'x) set \<Rightarrow> bool" where
  "functional_facts R \<longleftrightarrow> (\<forall>e k x y. (e, k, x) \<in> R \<longrightarrow> (e, k, y) \<in> R \<longrightarrow> x = y)"

text \<open>No entity co-occurs with itself, and records under one coordinate and event agree.\<close>

definition consistent :: "corpus_record set \<Rightarrow> bool" where
  "consistent S \<longleftrightarrow> (\<forall>a at v. CR_CoOccurrence a a at v \<notin> S) \<and> functional_facts (window_facts S) \<and> functional_facts (ruling_facts S)"

definition indexes :: "('e, 'x) timed_index \<Rightarrow> ('e \<times> (tick \<times> hash) \<times> 'x) set \<Rightarrow> bool" where
  "indexes m R \<longleftrightarrow> (\<forall>e k x. fmlookup (or_default fmempty m e) k = Some x \<longleftrightarrow> (e, k, x) \<in> R) \<and>
     (\<forall>e. fmlookup m e \<noteq> Some fmempty)"

definition represents :: "corpus_record set \<Rightarrow> snapshot_corpus \<Rightarrow> bool" where
  "represents S c \<longleftrightarrow> sc_cooccurrence c = co_edges S \<and>
     (\<forall>e. fmlookup (sc_adjacency c) e = (if adjacent S e = {} then None else Some (adjacent S e))) \<and>
     indexes (sc_windows c) (window_facts S) \<and> indexes (sc_admissibility c) (ruling_facts S)"

lemmas fact_defs = co_edges_def adjacent_def window_facts_def ruling_facts_def

lemma indexes_unique:
  assumes "indexes m R" "indexes m' R"
  shows "m = m'"
proof (rule fmap_ext)
  fix e
  have "or_default fmempty m e = or_default fmempty m' e"
    using assms by (intro fmap_ext) (metis indexes_def not_None_eq)
  then show "fmlookup m e = fmlookup m' e"
    using assms by (auto simp: indexes_def or_default_def split: option.splits)
qed

lemma represents_unique:
  assumes "represents S c" "represents S c'" "sc_digest c = sc_digest c'"
  shows "c = c'"
proof -
  have "sc_adjacency c = sc_adjacency c'" using assms by (intro fmap_ext) (simp add: represents_def)
  then show ?thesis using assms indexes_unique unfolding represents_def by (metis snapshot_corpus.equality old.unit.exhaust)
qed

section \<open>Construction\<close>

lemma or_default_fmupd [simp]: "or_default d (fmupd k x m) k' = (if k = k' then x else or_default d m k')"
  by (simp add: or_default_def)

lemma insert_timed_ok:
  assumes m: "indexes m R"
  shows "insert_timed e t v x m = Inr m' \<Longrightarrow> indexes m' (insert (e, (t, v), x) R)"
    and "(\<exists>m'. insert_timed e t v x m = Inr m') \<longleftrightarrow> functional_facts (insert (e, (t, v), x) R)"
proof -
  let ?per = "or_default fmempty m e"
  have look: "fmlookup (or_default fmempty m a) k = Some y \<longleftrightarrow> (a, k, y) \<in> R" for a k y using m unfolding indexes_def by blast
  have func: "functional_facts R" unfolding functional_facts_def using look by (metis option.inject)
  have ok: "(\<exists>m'. insert_timed e t v x m = Inr m') \<longleftrightarrow> (\<forall>y. fmlookup ?per (t, v) = Some y \<longrightarrow> y = x)"
    by (auto simp: insert_timed_def Let_def guard_eq_Inr split: option.splits)
  also have "\<dots> \<longleftrightarrow> functional_facts (insert (e, (t, v), x) R)"
    using func unfolding look functional_facts_def by auto
  finally show "(\<exists>m'. insert_timed e t v x m = Inr m') \<longleftrightarrow> functional_facts (insert (e, (t, v), x) R)" .
  assume ins: "insert_timed e t v x m = Inr m'"
  then have m': "m' = fmupd e (fmupd (t, v) x ?per) m"
    by (auto simp: insert_timed_def Let_def guard_eq_Inr split: option.splits)
  have same: "fmlookup ?per (t, v) = Some y \<Longrightarrow> y = x" for y using ok ins by blast
  have "fmlookup (or_default fmempty m' a) k = Some y \<longleftrightarrow> (a, k, y) \<in> insert (e, (t, v), x) R" for a k y
    using same [of y] by (auto simp: m' look)
  moreover have "fmlookup m' a \<noteq> Some fmempty" for a
    using m by (auto simp: m' indexes_def)
  ultimately show "indexes m' (insert (e, (t, v), x) R)" by (auto simp: indexes_def)
qed

lemma fact_insert [simp]:
  "co_edges (insert (CR_CoOccurrence a b at v) S) = insert (min a b, max a b, at, v) (co_edges S)"
  "co_edges (insert (CR_Window e t v s f) S) = co_edges S"
  "co_edges (insert (CR_Admissibility k t v r) S) = co_edges S"
  "adjacent (insert (CR_CoOccurrence a b at v) S) x = (if x = a then {(b, v, at)} else {}) \<union> (if x = b then {(a, v, at)} else {}) \<union> adjacent S x"
  "adjacent (insert (CR_Window e t v s f) S) x = adjacent S x"
  "adjacent (insert (CR_Admissibility k t v r) S) x = adjacent S x"
  "window_facts (insert (CR_CoOccurrence a b at v) S) = window_facts S"
  "window_facts (insert (CR_Window e t v s f) S) = insert (e, (t, v), (s, f)) (window_facts S)"
  "window_facts (insert (CR_Admissibility k t v r) S) = window_facts S"
  "ruling_facts (insert (CR_CoOccurrence a b at v) S) = ruling_facts S"
  "ruling_facts (insert (CR_Window e t v s f) S) = ruling_facts S"
  "ruling_facts (insert (CR_Admissibility k t v r) S) = insert (k, (t, v), r) (ruling_facts S)"
  by (auto simp: fact_defs)

lemma indexes_functional: "indexes m R \<Longrightarrow> functional_facts R"
  unfolding functional_facts_def indexes_def by (metis option.inject)

lemma consistent_insert:
  "consistent (insert r S) \<longleftrightarrow> consistent S \<and> (case r of CR_CoOccurrence a b at v \<Rightarrow> a \<noteq> b
     | CR_Window e t v s f \<Rightarrow> functional_facts (insert (e, (t, v), (s, f)) (window_facts S))
     | CR_Admissibility k t v r \<Rightarrow> functional_facts (insert (k, (t, v), r) (ruling_facts S)))"
  by (cases r) (auto simp: consistent_def functional_facts_def)

lemma add_record_ok:
  assumes c: "represents S c" and S: "consistent S"
  shows "add_record r c = Inr c' \<Longrightarrow> represents (insert r S) c'"
    and "(\<exists>c'. add_record r c = Inr c') \<longleftrightarrow> consistent (insert r S)"
proof -
  have w: "indexes (sc_windows c) (window_facts S)" and a: "indexes (sc_admissibility c) (ruling_facts S)"
    using c by (auto simp: represents_def)
  have adj: "or_default {} (sc_adjacency c) e = adjacent S e" for e
    using c by (simp add: represents_def or_default_def)
  show "(\<exists>c'. add_record r c = Inr c') \<longleftrightarrow> consistent (insert r S)"
    using insert_timed_ok(2) [OF w] insert_timed_ok(2) [OF a] S
    by (cases r) (auto simp: consistent_insert guard_eq_Inr rbind_eq_Inr split: prod.splits)
  assume r: "add_record r c = Inr c'"
  show "represents (insert r S) c'"
  proof (cases r)
    case (CR_CoOccurrence a b at v)
    with r c show ?thesis
      by (auto simp: guard_eq_Inr represents_def add_adjacent_def adj min_def max_def split: if_splits)
  next
    case (CR_Window e t v s f)
    with r obtain m where "insert_timed e t v (s, f) (sc_windows c) = Inr m" "c' = c\<lparr>sc_windows := m\<rparr>"
      by (auto simp: rbind_eq_Inr)
    with CR_Window c insert_timed_ok(1) [OF w] show ?thesis by (simp add: represents_def)
  next
    case (CR_Admissibility k t v q)
    with r obtain m where "insert_timed k t v q (sc_admissibility c) = Inr m" "c' = c\<lparr>sc_admissibility := m\<rparr>"
      by (auto simp: rbind_eq_Inr)
    with CR_Admissibility c insert_timed_ok(1) [OF a] show ?thesis by (simp add: represents_def)
  qed
qed

lemma represents_empty: "represents {} empty_corpus" "consistent {}"
  by (auto simp: represents_def empty_corpus_def indexes_def or_default_def consistent_def functional_facts_def fact_defs)

lemma consistent_subset: "consistent T \<Longrightarrow> S \<subseteq> T \<Longrightarrow> consistent S"
  unfolding consistent_def functional_facts_def window_facts_def ruling_facts_def by blast

lemma add_records_ok:
  "represents S c \<Longrightarrow> consistent S \<Longrightarrow> case add_records rs c of
     Inr c' \<Rightarrow> consistent (S \<union> set rs) \<and> represents (S \<union> set rs) c' | Inl _ \<Rightarrow> \<not> consistent (S \<union> set rs)"
proof (induction rs arbitrary: S c)
  case (Cons r rs)
  note step = add_record_ok [OF Cons.prems, of r]
  show ?case
  proof (cases "add_record r c")
    case (Inl e)
    then show ?thesis using step(2) consistent_subset [of "S \<union> set (r # rs)" "insert r S"] by auto
  next
    case (Inr c1)
    with step have "represents (insert r S) c1" "consistent (insert r S)" by auto
    moreover have "S \<union> set (r # rs) = insert r S \<union> set rs" by simp
    ultimately show ?thesis using Cons.IH [of "insert r S" c1] Inr by (simp only: add_records.simps rbind_simps)
  qed
qed simp

text \<open>The corpus of a set of records, if there is one.\<close>

lemma from_records_iff:
  "from_records H rs = Inr c \<longleftrightarrow> consistent (set rs) \<and> represents (set rs) c \<and> sc_digest c = digest_of H c"
proof -
  have digest: "digest_of H (x\<lparr>sc_digest := d\<rparr>) = digest_of H x" for x d
    by (simp add: digest_of_def snapshot_preimage_def)
  have rep: "represents S (x\<lparr>sc_digest := d\<rparr>) \<longleftrightarrow> represents S x" for S x d
    by (simp add: represents_def)
  note ok = add_records_ok [OF represents_empty, of rs, simplified]
  show ?thesis
  proof
    assume "from_records H rs = Inr c"
    then obtain x where x: "add_records rs empty_corpus = Inr x" "c = x\<lparr>sc_digest := digest_of H x\<rparr>"
      by (auto simp: from_records_def rbind_eq_Inr)
    then show "consistent (set rs) \<and> represents (set rs) c \<and> sc_digest c = digest_of H c"
      using ok by (simp add: rep digest)
  next
    assume c: "consistent (set rs) \<and> represents (set rs) c \<and> sc_digest c = digest_of H c"
    then obtain x where x: "add_records rs empty_corpus = Inr x" using ok by (cases "add_records rs empty_corpus") auto
    then have "represents (set rs) x" using ok by simp
    then have "x\<lparr>sc_digest := sc_digest c\<rparr> = c" using c by (intro represents_unique [of "set rs"]) (auto simp: rep)
    moreover from this have "digest_of H x = sc_digest c" using c digest [of "sc_digest c" x] by simp
    ultimately show "from_records H rs = Inr c" using x by (simp add: from_records_def)
  qed
qed

section \<open>Reads\<close>

lemma set_push_edge: "set (push_edge out e) = insert e (set out)"
  by (auto simp: push_edge_def)

lemma set_corpus_neighbors:
  assumes "represents S c" "finite S"
  shows "set (corpus_neighbors c t e) = {CoEdge x v | x v at. (x, v, at) \<in> adjacent S e \<and> at \<le> t}"
proof -
  have "adjacent S e \<subseteq> (\<lambda>r. case r of CR_CoOccurrence a b at v \<Rightarrow> (b, v, at)) ` S \<union> (\<lambda>r. case r of CR_CoOccurrence a b at v \<Rightarrow> (a, v, at)) ` S"
    unfolding adjacent_def by (force intro: rev_image_eqI)
  then have fin: "finite (adjacent S e)" using assms(2) by (meson finite_UnI finite_imageI finite_subset)
  have "set (foldl (\<lambda>out (ot, v, at). if at \<le> t then push_edge out (CoEdge ot v) else out) out xs) =
      set out \<union> {CoEdge x v | x v at. (x, v, at) \<in> set xs \<and> at \<le> t}" for out xs
    by (induction xs arbitrary: out) (auto simp: set_push_edge)
  with fin assms(1) show ?thesis by (simp add: corpus_neighbors_def represents_def)
qed

lemma corpus_symmetric:
  assumes "represents S c" "finite S"
  shows "co_symmetric (corpus_neighbors c t)"
  unfolding co_symmetric_def set_corpus_neighbors [OF assms] by (auto simp: adjacent_def)

lemma snapshot_view_answers: "answers (snapshot_view c) t (corpus_neighbors c t)"
  by (simp add: answers_def snapshot_view_def default_neighbors_many_answers)

text \<open>The corpus a list of records builds, empty when it is refused; its view keeps the contract of the search.\<close>

definition corpus_of :: "(byte list \<Rightarrow> hash) \<Rightarrow> corpus_record list \<Rightarrow> snapshot_corpus" where
  "corpus_of H rs = (case from_records H rs of Inr c \<Rightarrow> c | Inl _ \<Rightarrow> empty_corpus)"

lemma corpus_of_represents: "\<exists>S. finite S \<and> represents S (corpus_of H rs)"
proof (cases "from_records H rs")
  case (Inr c)
  then show ?thesis using from_records_iff [of H rs c] by (auto simp: corpus_of_def)
qed (use represents_empty(1) in \<open>auto simp: corpus_of_def\<close>)

interpretation snapshot: co_graph "snapshot_view (corpus_of H rs)" as_of "corpus_neighbors (corpus_of H rs) as_of" for H rs as_of
proof
  show "answers (snapshot_view (corpus_of H rs)) as_of (corpus_neighbors (corpus_of H rs) as_of)"
    by (rule snapshot_view_answers)
  show "co_symmetric (corpus_neighbors (corpus_of H rs) as_of)"
    using corpus_of_represents [of H rs] corpus_symmetric by blast
qed

section \<open>Time slices\<close>

lemma filter_sorted_list_of_set: "finite A \<Longrightarrow> filter P (sorted_list_of_set A) = sorted_list_of_set {x \<in> A. P x}"
  by (rule sorted_distinct_set_unique) (auto simp: sorted_wrt_filter)

lemma keys_filter: "filter P (keys m) = sorted_list_of_set {k \<in> fmdom' m. P k}"
  by (simp add: keys_def sorted_list_of_fset.rep_eq filter_sorted_list_of_set fmdom'_alt_def)

lemma latest_same_facts:
  assumes m: "indexes m R" and m': "indexes m' R'"
    and same: "\<And>k x. fst k \<le> t \<Longrightarrow> (e, k, x) \<in> R \<longleftrightarrow> (e, k, x) \<in> R'"
  shows "latest m e t = latest m' e t"
proof -
  let ?P = "\<lambda>k. k \<le> (t, MAX_EVENT_ID)"
  have late: "?P k \<longleftrightarrow> fst k \<le> t" for k by (cases k) (auto simp: MAX_EVENT_ID_def less_eq_prod_def)
  have latest: "latest m e t = (case rev (filter ?P (keys (or_default fmempty m e))) of
      [] \<Rightarrow> None | k # _ \<Rightarrow> map_option (Pair (snd k)) (fmlookup (or_default fmempty m e) k))" for m :: "('a, 'b) timed_index"
  proof (cases "fmlookup m e")
    case None
    moreover from None have "or_default fmempty m e = fmempty" by (simp add: or_default_def)
    ultimately show ?thesis by (simp add: latest_def keys_def sorted_list_of_fset.rep_eq)
  next
    case (Some per)
    then have per: "or_default fmempty m e = per" by (simp add: or_default_def)
    show ?thesis unfolding per latest_def Some by simp
  qed
  have look: "fmlookup (or_default fmempty m e) k = fmlookup (or_default fmempty m' e) k" if "?P k" for k
    using m m' same [of k] that unfolding indexes_def late by (metis not_None_eq)
  then have keys: "filter ?P (keys (or_default fmempty m e)) = filter ?P (keys (or_default fmempty m' e))"
    unfolding keys_filter by (auto simp: fmlookup_dom'_iff intro!: arg_cong [where f = sorted_list_of_set])
  show ?thesis
  proof (cases "rev (filter ?P (keys (or_default fmempty m' e)))")
    case Nil
    then show ?thesis unfolding latest keys by simp
  next
    case (Cons k r)
    then have "k \<in> set (rev (filter ?P (keys (or_default fmempty m' e))))" by simp
    then have "?P k" by simp
    then show ?thesis unfolding latest keys Cons by (simp add: look)
  qed
qed

definition recorded_time :: "corpus_record \<Rightarrow> tick" where
  "recorded_time r = (case r of CR_CoOccurrence _ _ at _ \<Rightarrow> at | CR_Window _ t _ _ _ \<Rightarrow> t | CR_Admissibility _ t _ _ \<Rightarrow> t)"

text \<open>Two corpora whose records up to a coordinate agree answer every read at it alike.\<close>

lemma reads_same_slice:
  assumes c: "represents S c" "finite S" and c': "represents S' c'" "finite S'"
    and same: "{r \<in> S. recorded_time r \<le> t} = {r \<in> S'. recorded_time r \<le> t}"
  shows "set (corpus_neighbors c t e) = set (corpus_neighbors c' t e)"
    and "corpus_window c e t = corpus_window c' e t"
    and "corpus_admissibility c k t = corpus_admissibility c' k t"
proof -
  have mem: "r \<in> S \<longleftrightarrow> r \<in> S'" if "recorded_time r \<le> t" for r using same that by blast
  have "(x, v, at) \<in> adjacent S e \<and> at \<le> t \<longleftrightarrow> (x, v, at) \<in> adjacent S' e \<and> at \<le> t" for x v at
    using mem [of "CR_CoOccurrence e x at v"] mem [of "CR_CoOccurrence x e at v"] by (auto simp: adjacent_def recorded_time_def)
  then show "set (corpus_neighbors c t e) = set (corpus_neighbors c' t e)"
    by (simp only: set_corpus_neighbors [OF c] set_corpus_neighbors [OF c'])
  have "latest (sc_windows c) e t = latest (sc_windows c') e t"
    using c(1) c'(1) mem [of "CR_Window _ _ _ _ _"]
    by (intro latest_same_facts [where R = "window_facts S" and R' = "window_facts S'"])
      (auto simp: represents_def window_facts_def recorded_time_def)
  then show "corpus_window c e t = corpus_window c' e t" by (simp add: corpus_window_def)
  have "latest (sc_admissibility c) k t = latest (sc_admissibility c') k t"
    using c(1) c'(1) mem [of "CR_Admissibility _ _ _ _"]
    by (intro latest_same_facts [where R = "ruling_facts S" and R' = "ruling_facts S'"])
      (auto simp: represents_def ruling_facts_def recorded_time_def)
  then show "corpus_admissibility c k t = corpus_admissibility c' k t" by (simp add: corpus_admissibility_def)
qed

section \<open>The records of a corpus\<close>

lemma set_timed_entries:
  assumes "indexes m R"
  shows "(e, t, v, x) \<in> set (timed_entries m) \<longleftrightarrow> (e, (t, v), x) \<in> R"
proof -
  have "(e, t, v, x) \<in> set (timed_entries m) \<longleftrightarrow> e \<in> fmdom' m \<and>
      (t, v) \<in> fmdom' (or_default fmempty m e) \<and> x = the (fmlookup (or_default fmempty m e) (t, v))"
    by (auto simp: timed_entries_def Let_def)
  also have "\<dots> \<longleftrightarrow> e \<in> fmdom' m \<and> fmlookup (or_default fmempty m e) (t, v) = Some x"
    by (auto simp: fmlookup_dom'_iff)
  also have "\<dots> \<longleftrightarrow> fmlookup (or_default fmempty m e) (t, v) = Some x"
    by (auto simp: or_default_def fmlookup_dom'_iff split: option.splits)
  finally show ?thesis using assms by (simp add: indexes_def)
qed

lemma set_records:
  assumes "represents S c" "finite S"
  shows "r \<in> set (records c) \<longleftrightarrow> (case r of CR_CoOccurrence a b at v \<Rightarrow> (a, b, at, v) \<in> co_edges S
    | CR_Window e t v s f \<Rightarrow> r \<in> S | CR_Admissibility k t v q \<Rightarrow> r \<in> S)"
proof -
  have "co_edges S \<subseteq> (\<lambda>r. case r of CR_CoOccurrence a b at v \<Rightarrow> (min a b, max a b, at, v)) ` S"
    unfolding co_edges_def by (force intro: rev_image_eqI)
  then have fin: "finite (co_edges S)" using assms(2) finite_subset by blast
  have w: "(e, t, v, s, f) \<in> set (timed_entries (sc_windows c)) \<longleftrightarrow> CR_Window e t v s f \<in> S" for e t v s f
    using assms(1) set_timed_entries [of "sc_windows c" "window_facts S"] by (simp add: represents_def window_facts_def)
  have a: "(k, t, v, q) \<in> set (timed_entries (sc_admissibility c)) \<longleftrightarrow> CR_Admissibility k t v q \<in> S" for k t v q
    using assms(1) set_timed_entries [of "sc_admissibility c" "ruling_facts S"] by (simp add: represents_def ruling_facts_def)
  show ?thesis using assms(1) fin
    by (cases r) (simp_all add: records_def represents_def w a image_iff Bex_def)
qed

lemma co_edges_iff:
  assumes "\<And>x at v. CR_CoOccurrence x x at v \<notin> S"
  shows "(a, b, at, v) \<in> co_edges S \<longleftrightarrow> a < b \<and> (CR_CoOccurrence a b at v \<in> S \<or> CR_CoOccurrence b a at v \<in> S)"
proof
  assume "(a, b, at, v) \<in> co_edges S"
  then obtain x y where xy: "CR_CoOccurrence x y at v \<in> S" "a = min x y" "b = max x y" by (auto simp: co_edges_def)
  moreover have "x \<noteq> y" using xy assms by blast
  ultimately show "a < b \<and> (CR_CoOccurrence a b at v \<in> S \<or> CR_CoOccurrence b a at v \<in> S)"
    by (cases "x < y") (auto simp: min_def max_def)
next
  assume "a < b \<and> (CR_CoOccurrence a b at v \<in> S \<or> CR_CoOccurrence b a at v \<in> S)"
  then show "(a, b, at, v) \<in> co_edges S"
    unfolding co_edges_def by (auto simp: min.absorb1 max.absorb2 min.absorb2 max.absorb1)
      (metis less_imp_le max.absorb1 max.absorb2 min.absorb1 min.absorb2)+
qed

lemma corpus_of_records:
  assumes "represents S c" "finite S" "consistent S" "sc_digest c = digest_of H c"
  shows "from_records H (records c) = Inr c"
proof -
  let ?N = "set (records c)"
  have co: "(a, b, at, v) \<in> co_edges S \<longleftrightarrow> a < b \<and> (CR_CoOccurrence a b at v \<in> S \<or> CR_CoOccurrence b a at v \<in> S)" for a b at v
    using assms(3) by (intro co_edges_iff) (simp add: consistent_def)
  have mem: "CR_CoOccurrence a b at v \<in> ?N \<longleftrightarrow> a < b \<and> (CR_CoOccurrence a b at v \<in> S \<or> CR_CoOccurrence b a at v \<in> S)"
    "CR_Window e t v s f \<in> ?N \<longleftrightarrow> CR_Window e t v s f \<in> S"
    "CR_Admissibility k t v q \<in> ?N \<longleftrightarrow> CR_Admissibility k t v q \<in> S" for a b at v e t s f k q
    by (simp_all add: set_records [OF assms(1,2)] co)
  have "window_facts ?N = window_facts S" "ruling_facts ?N = ruling_facts S"
    by (simp_all add: window_facts_def ruling_facts_def mem)
  moreover have "adjacent ?N x = adjacent S x" for x
    using assms(3) by (auto simp: adjacent_def mem consistent_def) (metis linorder_neqE)+
  moreover have "co_edges ?N = co_edges S"
  proof (intro set_eqI)
    fix z :: "entity_id \<times> entity_id \<times> tick \<times> hash"
    obtain a b at v where z: "z = (a, b, at, v)" by (metis prod_cases4)
    have "z \<in> co_edges ?N \<longleftrightarrow> a < b \<and> (CR_CoOccurrence a b at v \<in> ?N \<or> CR_CoOccurrence b a at v \<in> ?N)"
      unfolding z by (intro co_edges_iff) (simp add: mem)
    then show "z \<in> co_edges ?N \<longleftrightarrow> z \<in> co_edges S" unfolding z co by (auto simp: mem)
  qed
  moreover have "consistent ?N"
    using assms(3) calculation(1,2) by (auto simp: consistent_def mem)
  ultimately show ?thesis using assms(1,4) by (simp add: from_records_iff represents_def)
qed

lemma from_records_returns: "(\<exists>c. from_records H rs = Inr c) \<longleftrightarrow> consistent (set rs)"
  using add_records_ok [OF represents_empty, of rs]
  by (cases "add_records rs empty_corpus") (auto simp: from_records_def)

section \<open>Properties\<close>

text \<open>
  C31: building a corpus fails exactly on a self co-occurrence or on two records that differ under one coordinate and
  event, and otherwise depends on the set of the records only: a list with the same records in another order, or with
  repetitions, builds the same corpus with the same digest, and so does the list of records the corpus reports.
\<close>

theorem from_records_canonical:
  "((\<exists>c. from_records H rs = Inr c) \<longleftrightarrow> consistent (set rs)) \<and>
   (from_records H rs = Inr c \<longrightarrow> set rs' = set rs \<or> rs' = records c \<longrightarrow> from_records H rs' = Inr c)"
proof (intro conjI impI)
  show "(\<exists>c. from_records H rs = Inr c) \<longleftrightarrow> consistent (set rs)" by (rule from_records_returns)
  show "from_records H rs' = Inr c" if "from_records H rs = Inr c" "set rs' = set rs \<or> rs' = records c"
    using that corpus_of_records [of "set rs" c H] by (auto simp: from_records_iff)
qed

end
