(* ===== verification/Feasibility.thy ===== *)
theory Feasibility
  imports Corpus_Properties
begin

text \<open>
  The filter of \<^verbatim>\<open>crates/cc-filter/src/filter.rs\<close> and the identity of its parameters in
  \<^verbatim>\<open>crates/cc-filter/src/version.rs\<close>: the short-circuiting \<open>feasibility\<close>, and \<open>certify\<close>, which evaluates
  every factor. \<open>H\<close> is SHA-256. The \<open>expect\<close> of \<open>combine\<close> is \<^term>\<open>None\<close>.
\<close>

section \<open>Parameters\<close>

record b256_constants =
  bc_clock_zero_scale :: u16
  bc_tick_attoseconds :: "128 word"
  bc_split :: fractional_bits

record filter_params =
  fp_cooccurrence_rule :: hash
  fp_k_max :: hop_bound
  fp_smoothing :: hash
  fp_vocabulary :: hash
  fp_b256 :: b256_constants
  fp_logic_tag :: hash

definition canon_params :: "filter_params \<Rightarrow> byte list" where
  "canon_params p = frame (as_bytes ''cc.filter.params.v0'') @ frame (to_be_bytes 32 (fp_cooccurrence_rule p)) @
     frame [hops_get (fp_k_max p)] @ frame (to_be_bytes 32 (fp_smoothing p)) @ frame (to_be_bytes 32 (fp_vocabulary p)) @
     frame (to_be_bytes 2 (bc_clock_zero_scale (fp_b256 p))) @ frame (to_be_bytes 16 (bc_tick_attoseconds (fp_b256 p))) @
     frame (to_be_bytes 4 (bc_split (fp_b256 p))) @ frame (to_be_bytes 32 (fp_logic_tag p))"

definition version_of :: "(byte list \<Rightarrow> hash) \<Rightarrow> filter_params \<Rightarrow> hash" where
  "version_of H p = H (canon_params p)"

text \<open>A constant of 32 bytes, written as text padded with zero bytes.\<close>

definition padded :: "string \<Rightarrow> hash" where
  "padded s = from_be_bytes (as_bytes s @ replicate (32 - length s) 0)"

definition v0_params :: filter_params where
  "v0_params = \<lparr>fp_cooccurrence_rule = padded ''cc.cooccurrence/UNBLESSED/v0'', fp_k_max = HopBound 4,
     fp_smoothing = padded ''cc.smoothing/UNBLESSED/v0'',
     fp_vocabulary = 0x31ed385e26522a5b548f7404f7757ee370ed9783dbd550b05cd69e89e9462113,
     fp_b256 = \<lparr>bc_clock_zero_scale = 1, bc_tick_attoseconds = 1000000000000000000, bc_split = 64\<rparr>,
     fp_logic_tag = padded ''cc-filter/support-path/v0''\<rparr>"

section \<open>The filter\<close>

record filter_rule =
  fl_params :: filter_params
  fl_version :: hash

definition new_filter :: "(byte list \<Rightarrow> hash) \<Rightarrow> filter_params \<Rightarrow> filter_rule" where
  "new_filter H p = \<lparr>fl_params = p, fl_version = version_of H p\<rparr>"

record feasibility_query =
  fq_subjects :: "entity_id \<times> entity_id"
  fq_t_q :: tick
  fq_claim :: claim_type
  fq_k :: hop_bound

datatype factor_outcome = FO_Holds | FO_Absent absence_witness | FO_Contrary contrary_witness

definition start_factor :: "windowed \<Rightarrow> tick \<Rightarrow> entity_id \<Rightarrow> factor_outcome" where
  "start_factor w t_q f = (case wd_start w of
     WS_Unknown \<Rightarrow> FO_Absent (AW_NoRecordedStart f)
   | WS_Known s \<Rightarrow> if t_q < s then FO_Absent (AW_BeforeRecordedStart f s) else FO_Holds)"

definition window_factor :: "windowed \<Rightarrow> tick \<Rightarrow> entity_id \<Rightarrow> factor_outcome" where
  "window_factor w t_q f = (case wd_end w of
     WE_KnownClosed e \<Rightarrow> if t_q > e then FO_Contrary (CW_AfterRecordedCessation f e (wd_derived_from w)) else start_factor w t_q f
   | _ \<Rightarrow> start_factor w t_q f)"

fun admiss_factor :: "admitted \<Rightarrow> claim_type \<Rightarrow> factor_outcome" where
  "admiss_factor (AD_Valid _) c = FO_Holds"
| "admiss_factor AD_Unrecorded c = FO_Absent (AW_ClaimTypeUnrecorded c)"
| "admiss_factor (AD_OutsideValidity band_end derived_from) c = FO_Contrary (CW_ClaimTypeOutsideValidity c band_end derived_from)"

fun admitted_provenance :: "admitted \<Rightarrow> hash list" where
  "admitted_provenance (AD_Valid derived_from) = derived_from"
| "admitted_provenance AD_Unrecorded = []"
| "admitted_provenance (AD_OutsideValidity _ derived_from) = derived_from"

definition judge :: "filter_rule \<Rightarrow> corpus_view \<Rightarrow> verdict \<Rightarrow> judgement" where
  "judge flt v vd = \<lparr>jd_verdict = vd, jd_filter_version = fl_version flt, jd_corpus_digest = cv_digest v\<rparr>"

definition check_query :: "filter_rule \<Rightarrow> feasibility_query \<Rightarrow> filter_error + unit" where
  "check_query flt q =
     guard (hops_get (fq_k q) > hops_get (fp_k_max (fl_params flt)))
       (FE_Malformed (QE_HopBoundExceedsGoverned (fq_k q) (fp_k_max (fl_params flt))))
     (guard (fq_t_q q = SENTINEL) (FE_Malformed QE_QueryTimeIsSentinel) (Inr ()))"

text \<open>The \<open>?\<close> on a read of the view converts its error.\<close>

definition view_read :: "view_error + 'a \<Rightarrow> filter_error + 'a" where
  "view_read r = map_sum FE_View id r"

text \<open>The rest of the evaluation runs when a factor holds; a zero returns at once.\<close>

fun when_holds :: "filter_rule \<Rightarrow> corpus_view \<Rightarrow> factor_outcome \<Rightarrow> filter_error + judgement \<Rightarrow> filter_error + judgement" where
  "when_holds flt v FO_Holds rest = rest"
| "when_holds flt v (FO_Absent w) rest = Inr (judge flt v (VD_Unsupported [w]))"
| "when_holds flt v (FO_Contrary w) rest = Inr (judge flt v (VD_Contradicted w))"

fun hot_windows :: "filter_rule \<Rightarrow> corpus_view \<Rightarrow> tick \<Rightarrow> entity_id list \<Rightarrow> filter_error + judgement \<Rightarrow> filter_error + judgement" where
  "hot_windows flt v t_q [] rest = rest"
| "hot_windows flt v t_q (f # fs) rest = rbind (view_read (cv_window v f t_q)) (\<lambda>w.
     when_holds flt v (window_factor w t_q f) (hot_windows flt v t_q fs rest))"

definition feasibility :: "filter_rule \<Rightarrow> corpus_view \<Rightarrow> feasibility_query \<Rightarrow> filter_error + judgement" where
  "feasibility flt v q = rbind (check_query flt q) (\<lambda>_.
     hot_windows flt v (fq_t_q q) [fst (fq_subjects q), snd (fq_subjects q)] (
     rbind (view_read (cv_admissibility v (fq_claim q) (fq_t_q q))) (\<lambda>a.
     when_holds flt v (admiss_factor a (fq_claim q)) (
     rbind (view_read (known_k v (fst (fq_subjects q)) (snd (fq_subjects q)) (fq_k q) (fq_t_q q))) (\<lambda>r. case r of
       Within support \<Rightarrow> Inr (judge flt v (VD_Supported support))
     | Unreached w \<Rightarrow> Inr (judge flt v (VD_Unsupported [w])))))))"

section \<open>The audit path\<close>

fun combine_step :: "absence_witness list \<times> contrary_witness option \<times> bool \<Rightarrow> factor_outcome
    \<Rightarrow> absence_witness list \<times> contrary_witness option \<times> bool" where
  "combine_step (absences, first, any_zero) FO_Holds = (absences, first, any_zero)"
| "combine_step (absences, first, any_zero) (FO_Absent w) = (absences @ [w], first, True)"
| "combine_step (absences, first, any_zero) (FO_Contrary w) = (absences, if any_zero then first else Some w, True)"

definition combine :: "factor_outcome list \<Rightarrow> phi_support option \<Rightarrow> verdict option" where
  "combine outcomes support = (case foldl combine_step ([], None, False) outcomes of
     (_, Some w, _) \<Rightarrow> Some (VD_Contradicted w)
   | (absences, None, True) \<Rightarrow> Some (VD_Unsupported absences)
   | (_, None, False) \<Rightarrow> map_option VD_Supported support)"

definition absences_of :: "factor_outcome list \<Rightarrow> absence_witness list" where
  "absences_of outcomes = List.map_filter (\<lambda>x. case x of FO_Absent w \<Rightarrow> Some w | _ \<Rightarrow> None) outcomes"

definition contradictions_of :: "factor_outcome list \<Rightarrow> contrary_witness list" where
  "contradictions_of outcomes = List.map_filter (\<lambda>x. case x of FO_Contrary w \<Rightarrow> Some w | _ \<Rightarrow> None) outcomes"

fun read_windows :: "corpus_view \<Rightarrow> tick \<Rightarrow> entity_id list \<Rightarrow> filter_error + (windowed \<times> entity_id) list" where
  "read_windows v t_q [] = Inr []"
| "read_windows v t_q (f # fs) = rbind (view_read (cv_window v f t_q)) (\<lambda>w.
     rbind (read_windows v t_q fs) (\<lambda>ws. Inr ((w, f) # ws)))"

definition certify :: "filter_rule \<Rightarrow> corpus_view \<Rightarrow> feasibility_query \<Rightarrow> (filter_error + certificate) option" where
  "certify flt v q = (case
     rbind (check_query flt q) (\<lambda>_.
     rbind (read_windows v (fq_t_q q) [fst (fq_subjects q), snd (fq_subjects q)]) (\<lambda>ws.
     rbind (view_read (cv_admissibility v (fq_claim q) (fq_t_q q))) (\<lambda>a.
     rbind (view_read (known_k v (fst (fq_subjects q)) (snd (fq_subjects q)) (fq_k q) (fq_t_q q))) (\<lambda>r.
     let consulted = (\<Union>(w, f)\<in>set ws. set (wd_derived_from w)) \<union> set (admitted_provenance a);
         cheap = map (\<lambda>(w, f). window_factor w (fq_t_q q) f) ws @ [admiss_factor a (fq_claim q)]
     in Inr (case r of
         Within s \<Rightarrow> (cheap @ [FO_Holds], Some s, consulted \<union> set (phi_consulted s))
       | Unreached w \<Rightarrow> (cheap @ [FO_Absent w], None, consulted))))))
   of Inl e \<Rightarrow> Some (Inl e)
    | Inr (outcomes, support, consulted) \<Rightarrow> do {
        vd \<leftarrow> combine outcomes support;
        Some (Inr \<lparr>ct_judgment = judge flt v vd, ct_consulted = sorted_list_of_set consulted,
          ct_absences = absences_of outcomes, ct_contradictions = contradictions_of outcomes\<rparr>)})"

end
