(* ===== verification/Feasibility_Properties.thy ===== *)
theory Feasibility_Properties
  imports Feasibility
begin

text \<open>
  The verdicts of the filter: the hot path and the audit path agree, a claim is supported exactly when its four factors
  hold, a verdict depends on the records up to its coordinate only, and further co-occurrences never retract a support.
\<close>

section \<open>Folding the factors\<close>

text \<open>The verdict of the first zero, with every absence of the list when that zero is an absence.\<close>

fun first_zero :: "factor_outcome list \<Rightarrow> factor_outcome" where
  "first_zero [] = FO_Holds"
| "first_zero (FO_Holds # xs) = first_zero xs"
| "first_zero (FO_Absent w # xs) = FO_Absent w"
| "first_zero (FO_Contrary w # xs) = FO_Contrary w"

lemma absences_of_simps [simp]:
  "absences_of [] = []"
  "absences_of (x # xs) = (case x of FO_Absent w \<Rightarrow> w # absences_of xs | _ \<Rightarrow> absences_of xs)"
  by (simp_all add: absences_of_def map_filter_simps split: factor_outcome.split)

lemma combine_started: "foldl combine_step (ws, first, True) xs = (ws @ absences_of xs, first, True)"
  by (induction xs arbitrary: ws) (auto split: factor_outcome.split)

lemma combine_first_zero:
  "combine xs support = (case first_zero xs of FO_Holds \<Rightarrow> map_option VD_Supported support
     | FO_Absent _ \<Rightarrow> Some (VD_Unsupported (absences_of xs)) | FO_Contrary w \<Rightarrow> Some (VD_Contradicted w))"
  unfolding combine_def
  by (induction xs rule: first_zero.induct) (simp_all add: combine_started split: factor_outcome.split)

lemma absences_first_zero: "first_zero xs = FO_Absent w \<Longrightarrow> \<exists>ws. absences_of xs = w # ws"
  by (induction xs rule: first_zero.induct) auto

lemma first_zero_holds: "first_zero xs = FO_Holds \<longleftrightarrow> set xs \<subseteq> {FO_Holds}"
  by (induction xs rule: first_zero.induct) auto

text \<open>What the hot path reports of an audit verdict: the first absence only.\<close>

fun first_absence :: "verdict \<Rightarrow> verdict" where
  "first_absence (VD_Unsupported ws) = VD_Unsupported (take 1 ws)"
| "first_absence vd = vd"

lemma consensus_first_absence:
  "consensus_projection_of (judge flt v (first_absence vd)) = consensus_projection_of (judge flt v vd)"
  by (cases vd) (simp_all add: consensus_projection_of_def judge_def)

lemma view_read_eq [simp]: "view_read (Inr x) = Inr x" "view_read (Inl e) = Inl (FE_View e)"
  by (simp_all add: view_read_def)

lemma when_holds_case:
  "when_holds flt v x rest = (case x of FO_Holds \<Rightarrow> rest | FO_Absent w \<Rightarrow> Inr (judge flt v (VD_Unsupported [w]))
     | FO_Contrary w \<Rightarrow> Inr (judge flt v (VD_Contradicted w)))"
  by (cases x) simp_all

text \<open>Both paths when every read answers.\<close>

definition outcomes_of :: "feasibility_query \<Rightarrow> windowed \<Rightarrow> windowed \<Rightarrow> admitted \<Rightarrow> reachability \<Rightarrow> factor_outcome list" where
  "outcomes_of q wa wb a r = [window_factor wa (fq_t_q q) (fst (fq_subjects q)), window_factor wb (fq_t_q q) (snd (fq_subjects q)),
     admiss_factor a (fq_claim q), case r of Within _ \<Rightarrow> FO_Holds | Unreached w \<Rightarrow> FO_Absent w]"

definition support_of :: "reachability \<Rightarrow> phi_support option" where
  "support_of r = (case r of Within s \<Rightarrow> Some s | Unreached _ \<Rightarrow> None)"

lemma combine_returns: "\<exists>vd. combine (outcomes_of q wa wb a r) (support_of r) = Some vd"
  by (cases r) (auto simp: combine_first_zero outcomes_of_def support_of_def first_zero_holds split: factor_outcome.split)

text \<open>The reads of a query that is well formed, when all of them answer.\<close>

definition reads_to :: "filter_rule \<Rightarrow> corpus_view \<Rightarrow> feasibility_query \<Rightarrow> windowed \<Rightarrow> windowed \<Rightarrow> admitted \<Rightarrow> reachability \<Rightarrow> bool" where
  "reads_to flt v q wa wb a r \<longleftrightarrow> check_query flt q = Inr () \<and>
     cv_window v (fst (fq_subjects q)) (fq_t_q q) = Inr wa \<and> cv_window v (snd (fq_subjects q)) (fq_t_q q) = Inr wb \<and>
     cv_admissibility v (fq_claim q) (fq_t_q q) = Inr a \<and>
     known_k v (fst (fq_subjects q)) (snd (fq_subjects q)) (fq_k q) (fq_t_q q) = Inr r"

lemma feasibility_reads:
  assumes "reads_to flt v q wa wb a r" "combine (outcomes_of q wa wb a r) (support_of r) = Some vd"
  shows "feasibility flt v q = Inr (judge flt v (first_absence vd))"
  using assms by (cases r)
    (auto simp: reads_to_def feasibility_def when_holds_case combine_first_zero outcomes_of_def support_of_def
      split: factor_outcome.splits)

lemma certify_reads:
  assumes "reads_to flt v q wa wb a r" "combine (outcomes_of q wa wb a r) (support_of r) = Some vd"
  shows "\<exists>c. certify flt v q = Some (Inr c) \<and> ct_judgment c = judge flt v vd"
  using assms by (cases r) (simp_all add: reads_to_def certify_def Let_def outcomes_of_def support_of_def)

lemma certify_fails:
  assumes "\<nexists>wa wb a r. reads_to flt v q wa wb a r"
  shows "\<exists>e. certify flt v q = Some (Inl e) \<and> (\<forall>e'. feasibility flt v q = Inl e' \<longrightarrow> e' = e)"
proof (cases "check_query flt q")
  case (Inr u)
  note assms [unfolded reads_to_def Inr, simplified]
  then show ?thesis
    by (cases "cv_window v (fst (fq_subjects q)) (fq_t_q q)"; cases "cv_window v (snd (fq_subjects q)) (fq_t_q q)";
        cases "cv_admissibility v (fq_claim q) (fq_t_q q)";
        cases "known_k v (fst (fq_subjects q)) (snd (fq_subjects q)) (fq_k q) (fq_t_q q)")
      (auto simp: Inr certify_def feasibility_def when_holds_case split: factor_outcome.splits)
qed (simp add: certify_def feasibility_def)

text \<open>
  C27: the short-circuit preserves the verdict. When the audit path certifies, the hot path returns the same judgment
  with the same rule and corpus, except that of several absences it lists the first only; the two have the same
  consensus projection. Whenever the hot path fails, the audit path fails with the same error. The audit path never
  reaches its \<open>expect\<close>.
\<close>

theorem certify_agrees:
  "certify flt v q \<noteq> None \<and>
   (\<forall>c. certify flt v q = Some (Inr c) \<longrightarrow> (\<exists>j. feasibility flt v q = Inr j \<and>
      j = judge flt v (first_absence (jd_verdict (ct_judgment c))) \<and>
      consensus_projection_of j = consensus_projection_of (ct_judgment c) \<and>
      jd_corpus_digest j = jd_corpus_digest (ct_judgment c))) \<and>
   (\<forall>e. feasibility flt v q = Inl e \<longrightarrow> certify flt v q = Some (Inl e))"
proof (cases "\<exists>wa wb a r. reads_to flt v q wa wb a r")
  case True
  then obtain wa wb a r where reads: "reads_to flt v q wa wb a r" by blast
  obtain vd where vd: "combine (outcomes_of q wa wb a r) (support_of r) = Some vd" using combine_returns by blast
  from feasibility_reads [OF reads vd] certify_reads [OF reads vd] consensus_first_absence show ?thesis
    by (auto simp: judge_def)
next
  case False
  from certify_fails [OF this] show ?thesis by auto
qed

section \<open>The four factors\<close>

definition exists_at :: "windowed \<Rightarrow> tick \<Rightarrow> bool" where
  "exists_at w t \<longleftrightarrow> (\<exists>s. wd_start w = WS_Known s \<and> s \<le> t) \<and> (\<forall>e. wd_end w = WE_KnownClosed e \<longrightarrow> t \<le> e)"

definition ceased_before :: "windowed \<Rightarrow> tick \<Rightarrow> bool" where
  "ceased_before w t \<longleftrightarrow> (\<exists>e. wd_end w = WE_KnownClosed e \<and> e < t)"

lemma window_factor_iff:
  "window_factor w t f = FO_Holds \<longleftrightarrow> exists_at w t"
  "(\<exists>x. window_factor w t f = FO_Contrary x) \<longleftrightarrow> ceased_before w t"
  by (auto simp: window_factor_def start_factor_def exists_at_def ceased_before_def
      split: window_start.splits window_end.splits)


lemma admiss_factor_iff:
  "admiss_factor a c = FO_Holds \<longleftrightarrow> (\<exists>d. a = AD_Valid d)"
  "(\<exists>x. admiss_factor a c = FO_Contrary x) \<longleftrightarrow> (\<exists>band_end d. a = AD_OutsideValidity band_end d)"
  by (cases a; simp)+

lemma combine_kind:
  "combine xs support = Some vd \<Longrightarrow> verdict_kind_of vd =
    (case first_zero xs of FO_Holds \<Rightarrow> VK_Supported | FO_Absent _ \<Rightarrow> VK_Unsupported | FO_Contrary _ \<Rightarrow> VK_Contradicted)"
  by (auto simp: combine_first_zero split: factor_outcome.splits)

lemma kind_first_absence [simp]: "verdict_kind_of (first_absence vd) = verdict_kind_of vd"
  by (cases vd) simp_all

lemma first_zero_contrary:
  "(\<exists>x. first_zero [a, b, c, d] = FO_Contrary x) \<longleftrightarrow> (\<exists>x. a = FO_Contrary x) \<or> a = FO_Holds \<and>
     ((\<exists>x. b = FO_Contrary x) \<or> b = FO_Holds \<and> ((\<exists>x. c = FO_Contrary x) \<or> c = FO_Holds \<and> (\<exists>x. d = FO_Contrary x)))"
  by (cases a; cases b; cases c; cases d) simp_all

text \<open>
  C28: the three values. On a view that keeps its contract, a well-formed query is answered. The verdict is supported
  exactly when both subjects exist at the query coordinate, the claim type is valid and an evidenced walk within the hop
  bound joins them; it is contradicted exactly when the first factor that vanishes, in the order of the evaluation, is
  contrary evidence: a recorded cessation before the coordinate, or a validity band that has ended. Otherwise the record
  is silent.
\<close>

theorem feasibility_three_valued:
  assumes "answers v (fq_t_q q) nb" "co_symmetric nb"
    and "\<And>e. cv_window v e (fq_t_q q) = Inr (wn e)" "\<And>k. cv_admissibility v k (fq_t_q q) = Inr (ad k)"
    and "fq_subjects q = (a, b)" "check_query flt q = Inr ()"
  shows "\<exists>j. feasibility flt v q = Inr j \<and>
    (verdict_kind_of (jd_verdict j) = VK_Supported \<longleftrightarrow> exists_at (wn a) (fq_t_q q) \<and> exists_at (wn b) (fq_t_q q) \<and>
      (\<exists>d. ad (fq_claim q) = AD_Valid d) \<and> (\<exists>w. length w \<le> unat (hops_get (fq_k q)) \<and> evidenced nb a w b)) \<and>
    (verdict_kind_of (jd_verdict j) = VK_Contradicted \<longleftrightarrow> ceased_before (wn a) (fq_t_q q) \<or> exists_at (wn a) (fq_t_q q) \<and>
      (ceased_before (wn b) (fq_t_q q) \<or> exists_at (wn b) (fq_t_q q) \<and> (\<exists>band_end d. ad (fq_claim q) = AD_OutsideValidity band_end d)))"
proof -
  have g: "co_graph v (fq_t_q q) nb" using assms by unfold_locales
  obtain r where r: "known_k v a b (fq_k q) (fq_t_q q) = Inr r"
    and within: "(\<exists>s. r = Within s) \<longleftrightarrow> (\<exists>w. length w \<le> unat (hops_get (fq_k q)) \<and> evidenced nb a w b)"
    using co_graph.known_k_exact_at [OF g, of a b "fq_k q"] unfolding near_def by auto
  let ?xs = "outcomes_of q (wn a) (wn b) (ad (fq_claim q)) r"
  have reads: "reads_to flt v q (wn a) (wn b) (ad (fq_claim q)) r"
    using assms r by (simp add: reads_to_def)
  obtain vd where vd: "combine ?xs (support_of r) = Some vd" using combine_returns by blast
  have last: "(case r of Within _ \<Rightarrow> FO_Holds | Unreached w \<Rightarrow> FO_Absent w) = FO_Holds \<longleftrightarrow> (\<exists>s. r = Within s)"
    "(case r of Within _ \<Rightarrow> FO_Holds | Unreached w \<Rightarrow> FO_Absent w) \<noteq> FO_Contrary x" for x
    by (cases r; simp)+
  have "verdict_kind_of vd = VK_Supported \<longleftrightarrow> first_zero ?xs = FO_Holds"
    "verdict_kind_of vd = VK_Contradicted \<longleftrightarrow> (\<exists>x. first_zero ?xs = FO_Contrary x)"
    using combine_kind [OF vd] by (auto split: factor_outcome.splits)
  then show ?thesis
    using feasibility_reads [OF reads vd] assms(5) last within
    by (simp add: judge_def first_zero_holds first_zero_contrary outcomes_of_def window_factor_iff admiss_factor_iff)
qed

section \<open>Verdicts over snapshots\<close>

lemma snapshot_co_graph:
  assumes "from_records H rs = Inr c"
  shows "co_graph (snapshot_view c) t (corpus_neighbors c t)"
  using snapshot.co_graph_axioms [of H rs t] assms by (simp add: corpus_of_def)

lemma snapshot_view_reads [simp]:
  "cv_window (snapshot_view c) e t = Inr (corpus_window c e t)"
  "cv_admissibility (snapshot_view c) k t = Inr (corpus_admissibility c k t)"
  by (simp_all add: snapshot_view_def)

text \<open>The verdict of a query is a function of what its reads return.\<close>

lemma feasibility_verdict:
  assumes reads: "\<And>e. cv_window v e (fq_t_q q) = cv_window v' e (fq_t_q q)"
      "\<And>k. cv_admissibility v k (fq_t_q q) = cv_admissibility v' k (fq_t_q q)"
    and known: "known_k v (fst (fq_subjects q)) (snd (fq_subjects q)) (fq_k q) (fq_t_q q) =
      known_k v' (fst (fq_subjects q)) (snd (fq_subjects q)) (fq_k q) (fq_t_q q)"
  shows "map_sum id jd_verdict (feasibility flt v q) = map_sum id jd_verdict (feasibility flt v' q)"
proof -
  have chain: "map_sum id jd_verdict (when_holds flt v x r) = map_sum id jd_verdict (when_holds flt v' x r')"
    if "map_sum id jd_verdict r = map_sum id jd_verdict r'" for x r r'
    using that by (cases x) (simp_all add: judge_def)
  have bind: "map_sum id jd_verdict (rbind m f) = map_sum id jd_verdict (rbind m f')"
    if "\<And>x. map_sum id jd_verdict (f x) = map_sum id jd_verdict (f' x)" for m :: "filter_error + 'a" and f f'
    using that by (cases m) simp_all
  show ?thesis unfolding feasibility_def hot_windows.simps reads known
    by (intro bind chain) (auto simp: judge_def split: reachability.split)
qed

text \<open>
  C29: a verdict is pinned to its coordinate. Two corpora whose records up to the query coordinate agree give the query
  the same verdict, witnesses included, or the same error, whatever either records later.
\<close>

theorem verdict_time_slice:
  assumes c: "from_records H rs = Inr c" and c': "from_records H rs' = Inr c'"
    and same: "{r \<in> set rs. recorded_time r \<le> fq_t_q q} = {r \<in> set rs'. recorded_time r \<le> fq_t_q q}"
  shows "map_sum id jd_verdict (feasibility flt (snapshot_view c) q) = map_sum id jd_verdict (feasibility flt (snapshot_view c') q)"
proof -
  have rep: "represents (set rs) c" "represents (set rs') c'" using c c' by (simp_all add: from_records_iff)
  note reads = reads_same_slice [OF rep(1) _ rep(2) _ same, simplified]
  show ?thesis
    by (intro feasibility_verdict known_k_same_edges [OF snapshot_co_graph [OF c] snapshot_co_graph [OF c']])
      (simp_all add: reads)
qed

lemma feasibility_supported:
  "(\<exists>j. feasibility flt v q = Inr j \<and> jd_verdict j = VD_Supported s) \<longleftrightarrow> check_query flt q = Inr () \<and>
    (\<forall>f\<in>{fst (fq_subjects q), snd (fq_subjects q)}. \<exists>w. cv_window v f (fq_t_q q) = Inr w \<and> window_factor w (fq_t_q q) f = FO_Holds) \<and>
    (\<exists>a. cv_admissibility v (fq_claim q) (fq_t_q q) = Inr a \<and> admiss_factor a (fq_claim q) = FO_Holds) \<and>
    known_k v (fst (fq_subjects q)) (snd (fq_subjects q)) (fq_k q) (fq_t_q q) = Inr (Within s)"
  by (cases "cv_window v (fst (fq_subjects q)) (fq_t_q q)"; cases "cv_window v (snd (fq_subjects q)) (fq_t_q q)";
      cases "cv_admissibility v (fq_claim q) (fq_t_q q)";
      cases "known_k v (fst (fq_subjects q)) (snd (fq_subjects q)) (fq_k q) (fq_t_q q)"; cases "check_query flt q")
    (auto simp: feasibility_def when_holds_case judge_def split: factor_outcome.splits reachability.splits)

text \<open>More edges never lengthen a support.\<close>

lemma known_k_more_edges:
  assumes "co_graph v t nb" "co_graph v' t nb'" "\<And>e. set (nb e) \<subseteq> set (nb' e)" "known_k v a b k t = Inr (Within s)"
  shows "\<exists>s'. known_k v' a b k t = Inr (Within s') \<and> walk_get (ph_hops s') \<le> walk_get (ph_hops s)"
proof -
  obtain d where d: "walk_get (ph_hops s) = d" "d \<le> unat (hops_get k)" "near nb d a b"
    using co_graph.known_k_exact_at [OF assms(1), of a b k] assms(4) by (auto simp: distance_is_def)
  have "evidenced nb' x w y" if "evidenced nb x w y" for x w y
    using that assms(3) by (induction w arbitrary: x) auto
  then have "near nb' d a b" using d(3) by (auto simp: near_def)
  then show ?thesis
    using co_graph.known_k_exact_at [OF assms(2), of a b k] d distance_le [of nb' a _ b d] near_mono [of nb' d a b]
    by fastforce
qed

text \<open>
  Supports are monotone under accretion. When a corpus grows by co-occurrences only, a supported verdict stays
  supported, and its measured walk does not get longer.
\<close>

theorem support_accretes:
  assumes c: "from_records H rs = Inr c" and c': "from_records H rs' = Inr c'" and "set rs \<subseteq> set rs'"
    and new: "\<And>r. r \<in> set rs' \<Longrightarrow> r \<in> set rs \<or> (\<exists>x y at w. r = CR_CoOccurrence x y at w)"
    and j: "feasibility flt (snapshot_view c) q = Inr j" "jd_verdict j = VD_Supported s"
  shows "\<exists>j' s'. feasibility flt (snapshot_view c') q = Inr j' \<and> jd_verdict j' = VD_Supported s' \<and>
    walk_get (ph_hops s') \<le> walk_get (ph_hops s)"
proof -
  have rep: "represents (set rs) c" "represents (set rs') c'" using c c' by (simp_all add: from_records_iff)
  have "window_facts (set rs') = window_facts (set rs)" "ruling_facts (set rs') = ruling_facts (set rs)"
    using new assms(3) by (fastforce simp: window_facts_def ruling_facts_def)+
  then have "sc_windows c' = sc_windows c" "sc_admissibility c' = sc_admissibility c"
    using rep indexes_unique by (auto simp: represents_def)
  then have reads: "corpus_window c' = corpus_window c" "corpus_admissibility c' = corpus_admissibility c"
    by (intro ext; simp add: corpus_window_def corpus_admissibility_def)+
  have "adjacent (set rs) e \<subseteq> adjacent (set rs') e" for e using assms(3) by (auto simp: adjacent_def)
  then have edges: "set (corpus_neighbors c t e) \<subseteq> set (corpus_neighbors c' t e)" for t e
    unfolding set_corpus_neighbors [OF rep(1) finite_set] set_corpus_neighbors [OF rep(2) finite_set] by blast
  have "\<exists>j. feasibility flt (snapshot_view c) q = Inr j \<and> jd_verdict j = VD_Supported s" using j by blast
  note holds = this [unfolded feasibility_supported]
  then have sup: "check_query flt q = Inr ()"
    "known_k (snapshot_view c) (fst (fq_subjects q)) (snd (fq_subjects q)) (fq_k q) (fq_t_q q) = Inr (Within s)" by auto
  from known_k_more_edges [OF snapshot_co_graph [OF c] snapshot_co_graph [OF c'] edges sup(2)]
  obtain s' where s': "known_k (snapshot_view c') (fst (fq_subjects q)) (snd (fq_subjects q)) (fq_k q) (fq_t_q q) = Inr (Within s')"
    "walk_get (ph_hops s') \<le> walk_get (ph_hops s)" by blast
  have "\<exists>j'. feasibility flt (snapshot_view c') q = Inr j' \<and> jd_verdict j' = VD_Supported s'"
    unfolding feasibility_supported using holds s'(1) by (auto simp: reads)
  with s'(2) show ?thesis by blast
qed

end
