(* ===== verification/Corpus_Digest.thy ===== *)
theory Corpus_Digest
  imports Corpus_Properties
begin

text \<open>
  The digest of a corpus: its preimage is a sequence of frames in which every section ends at a label no item can start
  with, so it determines the corpus. A digest therefore names one corpus, up to collisions of the hash.
\<close>

section \<open>Frames\<close>

lemma frame_append_inject:
  assumes "frame x @ r = frame y @ s" "length x < 2 ^ 32" "length y < 2 ^ 32"
  shows "x = y \<and> r = s"
proof -
  have "to_be_bytes 4 (word_of_nat (length x) :: u32) = to_be_bytes 4 (word_of_nat (length y) :: u32)"
    "x @ r = y @ s" using assms(1) by (auto simp: frame_def append_eq_append_conv)
  then have "unat (word_of_nat (length x) :: u32) = unat (word_of_nat (length y) :: u32)"
    by (simp add: to_be_bytes_inject)
  then have "length x = length y" using assms(2,3) by (simp add: unat_of_nat)
  with \<open>x @ r = y @ s\<close> show ?thesis by simp
qed

text \<open>An encoder whose encodings can be read off the front of a sequence.\<close>

definition prefix_code :: "('a \<Rightarrow> byte list) \<Rightarrow> bool" where
  "prefix_code enc \<longleftrightarrow> (\<forall>x y r s. enc x @ r = enc y @ s \<longrightarrow> x = y \<and> r = s)"

lemma prefix_codeD: "prefix_code enc \<Longrightarrow> enc x @ r = enc y @ s \<Longrightarrow> x = y \<and> r = s"
  unfolding prefix_code_def by blast

lemma prefix_code_frame:
  assumes "inj f" "\<And>x. length (f x) < 2 ^ 32"
  shows "prefix_code (\<lambda>x. frame (f x))"
  using assms unfolding prefix_code_def by (metis frame_append_inject injD)

lemma prefix_code_pair:
  assumes "prefix_code f" "prefix_code g"
  shows "prefix_code (\<lambda>(x, y). f x @ g y)"
  unfolding prefix_code_def by (auto dest!: prefix_codeD [OF assms(1)] prefix_codeD [OF assms(2)])

lemma frame_tag [simp]: "frame [a] @ r = frame [b] @ s \<longleftrightarrow> a = b \<and> r = s"
  using frame_append_inject [of "[a]" r "[b]" s] by auto

lemma prefix_code_entity: "prefix_code (\<lambda>e. frame (entity_bytes e))"
  by (rule prefix_code_frame) (auto simp: entity_bytes_def to_be_bytes_inject entity_id.expand intro!: injI)

lemma prefix_code_claim: "prefix_code (\<lambda>k. frame (claim_bytes k))"
  by (rule prefix_code_frame) (auto simp: claim_bytes_def to_be_bytes_inject claim_type.expand intro!: injI)

lemma prefix_code_tick: "prefix_code framed_tick"
  unfolding framed_tick_def by (rule prefix_code_frame) (auto simp: tick_bytes_inject intro!: injI)

lemma prefix_code_hash: "prefix_code (\<lambda>v :: hash. frame (to_be_bytes 32 v))"
  by (rule prefix_code_frame) (auto simp: to_be_bytes_inject intro!: injI)

lemma prefix_code_tags: "prefix_code start_frames" "prefix_code end_frames" "prefix_code ruling_frames"
proof -
  have "start_frames x @ r = start_frames y @ s \<Longrightarrow> x = y \<and> r = s" for x y r s
    by (cases x; cases y) (auto dest: prefix_codeD [OF prefix_code_tick])
  then show "prefix_code start_frames" unfolding prefix_code_def by blast
  have "end_frames x @ r = end_frames y @ s \<Longrightarrow> x = y \<and> r = s" for x y r s
    by (cases x; cases y) (auto dest: prefix_codeD [OF prefix_code_tick])
  then show "prefix_code end_frames" unfolding prefix_code_def by blast
  have "ruling_frames x @ r = ruling_frames y @ s \<Longrightarrow> x = y \<and> r = s" for x y r s
    by (cases x; cases y) (auto dest: prefix_codeD [OF prefix_code_tick])
  then show "prefix_code ruling_frames" unfolding prefix_code_def by blast
qed

lemmas prefix_codes = prefix_code_entity prefix_code_claim prefix_code_tick prefix_code_hash prefix_code_tags

section \<open>Sections\<close>

text \<open>A list of items up to a label that starts no item.\<close>

lemma section_inject:
  assumes "prefix_code enc" "\<And>x r s. enc x @ r \<noteq> lbl @ s"
  shows "concat (map enc xs) @ lbl @ r = concat (map enc ys) @ lbl @ s \<Longrightarrow> xs = ys \<and> r = s"
proof (induction xs arbitrary: ys)
  case Nil
  then show ?case using assms(2) [symmetric] by (cases ys) auto
next
  case (Cons x xs)
  then obtain y ys' where ys: "ys = y # ys'" using assms(2) by (cases ys) auto
  with Cons.prems have "enc x @ (concat (map enc xs) @ lbl @ r) = enc y @ (concat (map enc ys') @ lbl @ s)" by simp
  from prefix_codeD [OF assms(1) this] Cons.IH [of ys'] ys show ?case by simp
qed

lemma last_section_inject:
  assumes "prefix_code enc" "\<And>x. enc x \<noteq> []"
  shows "concat (map enc xs) = concat (map enc ys) \<Longrightarrow> xs = ys"
proof (induction xs arbitrary: ys)
  case Nil
  then show ?case using assms(2) by (cases ys) auto
next
  case (Cons x xs)
  then obtain y ys' where ys: "ys = y # ys'" using assms(2) by (cases ys) auto
  with Cons.prems have "enc x @ concat (map enc xs) = enc y @ concat (map enc ys')" by simp
  from prefix_codeD [OF assms(1) this] Cons.IH [of ys'] ys show ?case by simp
qed

lemma frame_not_Nil [simp]: "frame x \<noteq> []"
  by (metis append_is_Nil_conv frame_def length_to_be_bytes list.size(3) zero_neq_numeral)

lemma frame_length_neq: "length x \<noteq> length y \<Longrightarrow> length x < 2 ^ 32 \<Longrightarrow> length y < 2 ^ 32 \<Longrightarrow> frame x @ r \<noteq> frame y @ s"
  using frame_append_inject by blast

lemma entity_no_label: "length l \<noteq> 8 \<Longrightarrow> length l < 2 ^ 32 \<Longrightarrow> frame (entity_bytes e) @ r \<noteq> frame (as_bytes l) @ s"
  by (rule frame_length_neq) (simp_all add: entity_bytes_def)

lemma snapshot_preimage_inject:
  assumes "snapshot_preimage c = snapshot_preimage c'"
  shows "sorted_list_of_set (sc_cooccurrence c) = sorted_list_of_set (sc_cooccurrence c')"
    and "timed_entries (sc_windows c) = timed_entries (sc_windows c')"
    and "timed_entries (sc_admissibility c) = timed_entries (sc_admissibility c')"
proof -
  define co where "co = (\<lambda>(lo, hi, at, v :: hash). frame (entity_bytes lo) @ frame (entity_bytes hi) @ framed_tick at @ frame (to_be_bytes 32 v))"
  define win where "win = (\<lambda>(e, t, v :: hash, s, f). frame (entity_bytes e) @ framed_tick t @ frame (to_be_bytes 32 v) @ start_frames s @ end_frames f)"
  define adm where "adm = (\<lambda>(k, t, v :: hash, r). frame (claim_bytes k) @ framed_tick t @ frame (to_be_bytes 32 v) @ ruling_frames r)"
  note pc = prefix_code_pair
  have co: "prefix_code co" unfolding co_def
    using pc [OF prefix_codes(1) pc [OF prefix_codes(1) pc [OF prefix_codes(3,4)]]] by (simp add: case_prod_unfold)
  have win: "prefix_code win" unfolding win_def
    using pc [OF prefix_codes(1) pc [OF prefix_codes(3) pc [OF prefix_codes(4) pc [OF prefix_codes(5,6)]]]] by (simp add: case_prod_unfold)
  have adm: "prefix_code adm" unfolding adm_def
    using pc [OF prefix_codes(2) pc [OF prefix_codes(3) pc [OF prefix_codes(4,7)]]] by (simp add: case_prod_unfold)
  have labels: "co x @ r \<noteq> frame (as_bytes ''windows'') @ s" "win y @ r \<noteq> frame (as_bytes ''admissibility'') @ s" "adm z \<noteq> []" for x y z r s
    by (simp_all add: co_def win_def adm_def entity_no_label split: prod.split)
  have "concat (map co (sorted_list_of_set (sc_cooccurrence c))) @ frame (as_bytes ''windows'') @
      concat (map win (timed_entries (sc_windows c))) @ frame (as_bytes ''admissibility'') @
      concat (map adm (timed_entries (sc_admissibility c))) =
    concat (map co (sorted_list_of_set (sc_cooccurrence c'))) @ frame (as_bytes ''windows'') @
      concat (map win (timed_entries (sc_windows c'))) @ frame (as_bytes ''admissibility'') @
      concat (map adm (timed_entries (sc_admissibility c')))"
    using assms unfolding snapshot_preimage_def co_def [symmetric] win_def [symmetric] adm_def [symmetric] by simp
  from section_inject [OF co labels(1) this] section_inject [OF win labels(2)] last_section_inject [OF adm labels(3)]
  show "sorted_list_of_set (sc_cooccurrence c) = sorted_list_of_set (sc_cooccurrence c')"
    "timed_entries (sc_windows c) = timed_entries (sc_windows c')"
    "timed_entries (sc_admissibility c) = timed_entries (sc_admissibility c')" by blast+
qed

section \<open>The digest\<close>

lemma adjacent_co_edges: "adjacent S e = {(x, v, at). (min e x, max e x, at, v) \<in> co_edges S}"
proof -
  have "(min e x, max e x, at, v) \<in> co_edges S \<longleftrightarrow> CR_CoOccurrence e x at v \<in> S \<or> CR_CoOccurrence x e at v \<in> S" for x at v
  proof
    show "(min e x, max e x, at, v) \<in> co_edges S \<Longrightarrow> CR_CoOccurrence e x at v \<in> S \<or> CR_CoOccurrence x e at v \<in> S"
      unfolding co_edges_def by (auto simp: min_def max_def split: if_splits)
    show "CR_CoOccurrence e x at v \<in> S \<or> CR_CoOccurrence x e at v \<in> S \<Longrightarrow> (min e x, max e x, at, v) \<in> co_edges S"
      unfolding co_edges_def by clarsimp (metis max.commute min.commute)
  qed
  then show ?thesis by (simp add: adjacent_def)
qed

lemma finite_co_edges: "finite S \<Longrightarrow> finite (co_edges S)"
proof -
  have "co_edges S \<subseteq> (\<lambda>r. case r of CR_CoOccurrence a b at v \<Rightarrow> (min a b, max a b, at, v)) ` S"
    unfolding co_edges_def by (force intro: rev_image_eqI)
  then show "finite S \<Longrightarrow> finite (co_edges S)" using finite_subset by blast
qed

lemma timed_entries_inject:
  assumes "indexes m R" "indexes m' R'" "timed_entries m = timed_entries m'"
  shows "m = m'"
proof -
  have "(e, k, x) \<in> R \<longleftrightarrow> (e, k, x) \<in> R'" for e k x
    using set_timed_entries [OF assms(1), of e "fst k" "snd k" x] set_timed_entries [OF assms(2), of e "fst k" "snd k" x] assms(3)
    by simp
  then have "R = R'" by auto
  with assms show ?thesis using indexes_unique by blast
qed

text \<open>
  C30: a digest names a corpus. Two corpora built from records have the same digest only if they are equal, or if
  SHA-256 collides on their two preimages.
\<close>

theorem snapshot_digest_binds:
  assumes c: "from_records H rs = Inr c" and c': "from_records H rs' = Inr c'" and digest: "sc_digest c = sc_digest c'"
    and free: "snapshot_preimage c \<noteq> snapshot_preimage c' \<Longrightarrow> H (snapshot_preimage c) \<noteq> H (snapshot_preimage c')"
  shows "c = c'"
proof -
  have rep: "represents (set rs) c" "represents (set rs') c'" and eq: "H (snapshot_preimage c) = H (snapshot_preimage c')"
    using c c' digest by (simp_all add: from_records_iff digest_of_def)
  note parts = snapshot_preimage_inject [of c c'] free eq
  have co: "sc_cooccurrence c = sc_cooccurrence c'"
    using parts rep finite_co_edges [of "set rs"] finite_co_edges [of "set rs'"]
    by (metis finite_set represents_def sorted_list_of_set_inject)
  then have "adjacent (set rs) e = adjacent (set rs') e" for e
    using rep by (simp add: adjacent_co_edges represents_def)
  then have "sc_adjacency c = sc_adjacency c'" using rep by (intro fmap_ext) (simp add: represents_def)
  moreover have "sc_windows c = sc_windows c'" "sc_admissibility c = sc_admissibility c'"
    using parts rep timed_entries_inject unfolding represents_def by metis+
  ultimately show ?thesis using co digest by simp
qed

end
