(* ===== verification/Filter_Samples.thy ===== *)
theory Filter_Samples
  imports Feasibility_Properties Corpus_Digest
begin

text \<open>
  Two entities that co-occur once, as a view and as a corpus, and the properties of the search, of the corpus and of the
  filter at them.
\<close>

section \<open>Samples\<close>

definition sample_neighbors :: "entity_id \<Rightarrow> edge list" where
  "sample_neighbors e = (if e = EntityId 1 then [CoEdge (EntityId 2) 7] else if e = EntityId 2 then [CoEdge (EntityId 1) 7] else [])"

definition sample_window :: windowed where
  "sample_window = \<lparr>wd_start = WS_Known (Tick 0), wd_end = WE_KnownOpen, wd_derived_from = [3]\<rparr>"

definition sample_view :: corpus_view where
  "sample_view = \<lparr>cv_neighbors = (\<lambda>e t. Inr (sample_neighbors e)),
     cv_neighbors_many = default_neighbors_many (\<lambda>e t. Inr (sample_neighbors e)),
     cv_window = (\<lambda>e t. Inr sample_window), cv_admissibility = (\<lambda>k t. Inr (AD_Valid [5])), cv_digest = 9\<rparr>"

definition sample_filter :: filter_rule where
  "sample_filter = new_filter (\<lambda>_. 0) v0_params"

definition sample_query :: "entity_id \<Rightarrow> feasibility_query" where
  "sample_query b = \<lparr>fq_subjects = (EntityId 1, b), fq_t_q = Tick 5, fq_claim = ClaimType 1, fq_k = HopBound 4\<rparr>"

definition sample_records :: "corpus_record list" where
  "sample_records = [CR_Window (EntityId 1) (Tick 0) 3 (WS_Known (Tick 0)) WE_KnownOpen,
     CR_Admissibility (ClaimType 1) (Tick 0) 5 RU_Valid]"

lemma sample_answers: "answers sample_view t sample_neighbors" "co_symmetric sample_neighbors"
proof -
  show "answers sample_view t sample_neighbors"
    by (simp add: answers_def sample_view_def default_neighbors_many_answers [where f = sample_neighbors])
  show "co_symmetric sample_neighbors" by (auto simp: co_symmetric_def sample_neighbors_def)
qed

lemma sample_checks: "check_query sample_filter (sample_query b) = Inr ()"
  by (simp add: check_query_def sample_filter_def new_filter_def v0_params_def sample_query_def SENTINEL_def guard_def)

lemma sample_reads [simp]: "cv_window sample_view e t = Inr sample_window" "cv_admissibility sample_view k t = Inr (AD_Valid [5])"
  by (simp_all add: sample_view_def)

lemma sample_exists: "window_factor sample_window (Tick 5) f = FO_Holds"
  by (simp add: window_factor_def start_factor_def sample_window_def less_tick_def)

section \<open>Witnesses\<close>

theorem known_k_exact_witness:
  "known_k sample_view (EntityId 1) (EntityId 2) (HopBound 4) (Tick 0) =
    Inr (Within \<lparr>ph_hops = WalkLen 1, ph_witness = [WalkStep (EntityId 2) 7]\<rparr>)"
proof -
  have walk: "evidenced sample_neighbors (EntityId 1) [WalkStep (EntityId 2) 7] (EntityId 2)"
    by (simp add: sample_neighbors_def)
  from known_k_exact [OF sample_answers, where a = "EntityId 1" and b = "EntityId 2" and k = "HopBound 4" and as_of = "Tick 0"] walk
  obtain d w where d: "known_k sample_view (EntityId 1) (EntityId 2) (HopBound 4) (Tick 0) = Inr (Within \<lparr>ph_hops = WalkLen d, ph_witness = w\<rparr>)"
    "d = length w" "evidenced sample_neighbors (EntityId 1) w (EntityId 2)" "d \<le> 1"
    by (force simp del: evidenced.simps)
  then show ?thesis by (cases w) (auto simp: sample_neighbors_def walk_step.expand)
qed

theorem known_k_doubling_witness:
  "\<exists>s. known_k sample_view (EntityId 1) (EntityId 2) (HopBound 4) (Tick 0) = Inr (Within s)"
proof -
  have "doubling sample_neighbors 2 (EntityId 1) (EntityId 2)" by (simp add: numeral_2_eq_2 sample_neighbors_def)
  moreover have "unat (hops_get (HopBound 4)) = 2 ^ 2" by simp
  ultimately show ?thesis using known_k_doubling [OF sample_answers] by blast
qed

theorem from_records_canonical_witness:
  "\<exists>c. from_records (\<lambda>_. 0) sample_records = Inr c \<and> from_records (\<lambda>_. 0) (rev sample_records @ sample_records) = Inr c \<and>
    from_records (\<lambda>_. 0) (records c) = Inr c"
proof -
  have "consistent (set sample_records)"
    by (auto simp: sample_records_def consistent_def functional_facts_def window_facts_def ruling_facts_def)
  with from_records_canonical [of "\<lambda>_. 0" sample_records undefined "[]"]
  obtain c where "from_records (\<lambda>_. 0) sample_records = Inr c" by blast
  with from_records_canonical [of "\<lambda>_. 0" sample_records c "rev sample_records @ sample_records"]
    from_records_canonical [of "\<lambda>_. 0" sample_records c "records c"] show ?thesis by auto
qed

theorem certify_agrees_witness:
  "\<exists>c j. certify sample_filter sample_view (sample_query (EntityId 1)) = Some (Inr c) \<and>
    feasibility sample_filter sample_view (sample_query (EntityId 1)) = Inr j \<and>
    consensus_projection_of j = consensus_projection_of (ct_judgment c)"
proof -
  have "known_k sample_view (EntityId 1) (EntityId 1) (HopBound 4) (Tick 5) = Inr (Within phi_reflexive)"
    by (simp add: known_k_def)
  then have "reads_to sample_filter sample_view (sample_query (EntityId 1)) sample_window sample_window (AD_Valid [5]) (Within phi_reflexive)"
    by (simp add: reads_to_def sample_checks) (simp add: sample_query_def)
  then obtain c where "certify sample_filter sample_view (sample_query (EntityId 1)) = Some (Inr c)"
    using certify_reads [OF _ combine_returns [THEN someI_ex]] by blast
  with certify_agrees [of sample_filter sample_view "sample_query (EntityId 1)"] show ?thesis by blast
qed

theorem feasibility_three_valued_witness:
  "\<exists>j. feasibility sample_filter sample_view (sample_query (EntityId 2)) = Inr j \<and> verdict_kind_of (jd_verdict j) = VK_Supported"
proof -
  have "exists_at sample_window (Tick 5)"
    using sample_exists [of "EntityId 1"] by (simp add: window_factor_iff)
  moreover have "\<exists>w. length w \<le> 4 \<and> evidenced sample_neighbors (EntityId 1) w (EntityId 2)"
    by (rule exI [of _ "[WalkStep (EntityId 2) 7]"]) (simp add: sample_neighbors_def)
  ultimately show ?thesis
    using feasibility_three_valued [OF sample_answers, of "sample_query (EntityId 2)" "\<lambda>_. sample_window" "\<lambda>_. AD_Valid [5]"
        "EntityId 1" "EntityId 2" sample_filter] sample_checks
    by (auto simp: sample_query_def)
qed

theorem verdict_time_slice_witness:
  "\<exists>c c'. from_records (\<lambda>_. 0) sample_records = Inr c \<and>
    from_records (\<lambda>_. 0) (CR_CoOccurrence (EntityId 1) (EntityId 2) (Tick 6) 7 # sample_records) = Inr c' \<and>
    map_sum id jd_verdict (feasibility sample_filter (snapshot_view c) (sample_query (EntityId 2))) =
    map_sum id jd_verdict (feasibility sample_filter (snapshot_view c') (sample_query (EntityId 2)))"
proof -
  let ?rs = "CR_CoOccurrence (EntityId 1) (EntityId 2) (Tick 6) 7 # sample_records"
  have "consistent (set sample_records)" "consistent (set ?rs)"
    by (auto simp: sample_records_def consistent_def functional_facts_def window_facts_def ruling_facts_def)
  then obtain c c' where c: "from_records (\<lambda>_. 0) sample_records = Inr c" "from_records (\<lambda>_. 0) ?rs = Inr c'"
    using from_records_returns by metis
  have "{r \<in> set sample_records. recorded_time r \<le> fq_t_q (sample_query (EntityId 2))} =
      {r \<in> set ?rs. recorded_time r \<le> fq_t_q (sample_query (EntityId 2))}"
    by (auto simp: sample_query_def recorded_time_def less_eq_tick_def)
  from verdict_time_slice [OF c this, of sample_filter] c show ?thesis by blast
qed

theorem support_accretes_witness:
  "\<exists>c' j' s'. from_records (\<lambda>_. 0) (CR_CoOccurrence (EntityId 1) (EntityId 2) (Tick 4) 7 # sample_records) = Inr c' \<and>
    feasibility sample_filter (snapshot_view c') (sample_query (EntityId 1)) = Inr j' \<and> jd_verdict j' = VD_Supported s' \<and>
    walk_get (ph_hops s') \<le> 0"
proof -
  let ?rs = "CR_CoOccurrence (EntityId 1) (EntityId 2) (Tick 4) 7 # sample_records" and ?q = "sample_query (EntityId 1)"
  have "consistent (set sample_records)" "consistent (set ?rs)"
    by (auto simp: sample_records_def consistent_def functional_facts_def window_facts_def ruling_facts_def)
  then obtain c' where c': "from_records (\<lambda>_. 0) ?rs = Inr c'" using from_records_returns by metis
  obtain c where c: "from_records (\<lambda>_. 0) sample_records = Inr c" and reads: "corpus_window c (EntityId 1) (Tick 5) = sample_window"
    "corpus_admissibility c (ClaimType 1) (Tick 5) = AD_Valid [5]"
    by (simp add: sample_records_def from_records_def empty_corpus_def insert_timed_def or_default_def Let_def
        corpus_window_def corpus_admissibility_def latest_def keys_def sorted_list_of_fset.rep_eq sample_window_def
        MAX_EVENT_ID_def less_eq_tick_def less_tick_def)
  have "\<exists>j. feasibility sample_filter (snapshot_view c) ?q = Inr j \<and> jd_verdict j = VD_Supported phi_reflexive"
    unfolding feasibility_supported using reads sample_checks sample_exists
    by (simp add: sample_query_def known_k_def)
  then obtain j where j: "feasibility sample_filter (snapshot_view c) ?q = Inr j" "jd_verdict j = VD_Supported phi_reflexive" by blast
  from support_accretes [OF c c' _ _ j] c' show ?thesis by (auto simp: phi_reflexive_def)
qed

theorem snapshot_digest_binds_witness:
  "\<exists>c c'. from_records (\<lambda>bs. word_of_nat (be_nat bs)) sample_records = Inr c \<and>
    from_records (\<lambda>bs. word_of_nat (be_nat bs)) (rev sample_records) = Inr c' \<and> c = c'"
proof -
  let ?H = "\<lambda>bs. word_of_nat (be_nat bs)"
  have "consistent (set sample_records)" "consistent (set (rev sample_records))"
    by (auto simp: sample_records_def consistent_def functional_facts_def window_facts_def ruling_facts_def)
  then obtain c c' where c: "from_records ?H sample_records = Inr c" "from_records ?H (rev sample_records) = Inr c'"
    using from_records_returns by metis
  moreover have "c = c'" if "snapshot_preimage c = snapshot_preimage c'"
    using snapshot_digest_binds [OF c] c that by (simp add: from_records_iff digest_of_def)
  moreover have "c = c'\<lparr>sc_digest := sc_digest c\<rparr>"
    using c by (intro represents_unique [of "set sample_records"]) (auto simp: from_records_iff represents_def)
  then obtain d where "c = c'\<lparr>sc_digest := d\<rparr>" by blast
  then have "snapshot_preimage c = snapshot_preimage c'" by (simp add: snapshot_preimage_def)
  ultimately show ?thesis by blast
qed

end
