(* ===== verification/Legacy_Ledger.thy ===== *)
theory Legacy_Ledger
  imports Canon "HOL-Library.Product_Lexorder"
begin

text \<open>
  The v0 ledger of \<^verbatim>\<open>crates/cc-ledger/src/lib.rs\<close> over the tables of \<^verbatim>\<open>migrations/\<close>: the gate that seals an
  event, the write path that appends an event and applies its projection in one transaction, the rebuild of the whole
  view and its digest.

  \<^item> A table is a finite map from its primary key; a transaction that fails leaves the tables as they were. Of the
    database errors the model has those the schema causes: the checks on edges and on provenance, the foreign key of an
    exhibit, and the refusal of a NUL character in a text column.
  \<^item> A coordinate column holds the 32 canonical bytes of a tick, whose byte order is the order of ticks; it is a
    \<^typ>\<open>tick\<close> here. A counter is an integer that only moves by one.
  \<^item> \<open>canon_event\<close> panics (\<^term>\<open>None\<close>) on a field of four gibibytes. The bytes of a parsed payload are shorter.
\<close>

section \<open>Events and the gate\<close>

record crypto =
  cy_hash :: "byte list \<Rightarrow> hash"
  cy_key_ok :: "hash \<Rightarrow> bool"
  cy_verify :: "hash \<Rightarrow> byte list \<Rightarrow> byte list \<Rightarrow> bool"

datatype ledger_error = LE_Db string | LE_BadSignature | LE_Corruption string | LE_RebuildDivergence hash hash

record signed_event =
  se_content :: event_content
  se_id :: hash
  se_signature :: "byte list"

definition seal_event :: "crypto \<Rightarrow> event_content \<Rightarrow> byte list \<Rightarrow> (ledger_error + signed_event) option" where
  "seal_event cy c sig = do {
     i \<leftarrow> event_id (cy_hash cy) c;
     Some (guard (\<not> cy_verify cy (ec_author c) (hash_bytes i) sig) LE_BadSignature
       (Inr \<lparr>se_content = c, se_id = i, se_signature = sig\<rparr>))}"

text \<open>\<open>sk.author()\<close> and \<open>sk.seal\<close> are the key's public half and its signature of the id.\<close>

definition sign_event :: "crypto \<Rightarrow> hash \<Rightarrow> (byte list \<Rightarrow> byte list) \<Rightarrow> event_content \<Rightarrow> signed_event option" where
  "sign_event cy author sign content = (let c = content\<lparr>ec_author := author\<rparr> in do {
     i \<leftarrow> event_id (cy_hash cy) c;
     Some \<lparr>se_content = c, se_id = i, se_signature = sign (hash_bytes i)\<rparr>})"

datatype appended = App_New | App_Unioned

section \<open>Tables\<close>

record event_row =
  er_kind :: "16 word"
  er_author :: hash
  er_signature :: "byte list"
  er_event_time :: tick
  er_record_time :: tick
  er_payload :: "byte list"
  er_supersedes :: "hash option"
  er_provenance :: "(hash \<times> u64) option"

record entity_row =
  en_birth_event :: hash
  en_birth_event_time :: tick
  en_resolution_key :: string
  en_canonical_name :: string
  en_window_start :: tick
  en_start_state :: start_state
  en_closure_state :: closure_state
  en_window_end :: tick
  en_asserter :: hash

record vocabulary_row =
  vr_label :: string
  vr_declared_by :: hash
  vr_declared_at :: tick
  vr_band_start :: tick
  vr_start_state :: start_state
  vr_band_end :: tick
  vr_closure_state :: closure_state

record moment_row =
  mr_head_event_id :: hash
  mr_subject :: u64
  mr_coord :: tick
  mr_record_coord :: tick
  mr_posture :: int
  mr_body_hash :: hash
  mr_author_key :: hash

record edge_row =
  ew_src :: u64
  ew_dst :: u64
  ew_relation :: edge_relation
  ew_evidence_class :: evidence_class
  ew_asserter :: hash
  ew_event_time :: tick
  ew_in_g :: bool
  ew_cross_writer :: bool

record ledger_stats =
  st_entity_count :: int
  st_moment_count :: int
  st_edge_count :: int
  st_attestation_count :: int
  st_contested_edges :: int
  st_cross_writer_contested :: int

record root_row =
  rr_height :: nat
  rr_tree_size :: nat
  rr_prev_root :: "hash option"
  rr_consistency :: "byte list option"
  rr_moment_id :: "hash option"

record anchor_row =
  ar_status :: "16 word"
  ar_ots_blob_hash :: hash
  ar_calendar_url :: string
  ar_block_height :: "u64 option"
  ar_txid :: "byte list option"
  ar_moment_id :: hash

text \<open>The projections of the event set, and the tables that are not projections.\<close>

record ledger_view =
  lv_entities :: "(u64, entity_row) fmap"
  lv_vocabulary :: "(u32, vocabulary_row) fmap"
  lv_moments :: "(hash, moment_row) fmap"
  lv_edges :: "(hash, edge_row) fmap"
  lv_attestations :: "(hash, hash \<times> hash) fmap"
  lv_stats :: "ledger_stats option"

record tables =
  tb_events :: "(hash, event_row) fmap"
  tb_view :: ledger_view
  tb_exhibits :: "hash fset"
  tb_roots :: "(hash, root_row) fmap"
  tb_anchors :: "(hash, anchor_row) fmap"

definition empty_view :: ledger_view where
  "empty_view = \<lparr>lv_entities = fmempty, lv_vocabulary = fmempty, lv_moments = fmempty, lv_edges = fmempty,
     lv_attestations = fmempty, lv_stats = None\<rparr>"

definition empty_tables :: tables where
  "empty_tables = \<lparr>tb_events = fmempty, tb_view = empty_view, tb_exhibits = {||}, tb_roots = fmempty, tb_anchors = fmempty\<rparr>"

section \<open>Counters\<close>

definition zero_stats :: ledger_stats where
  "zero_stats = \<lparr>st_entity_count = 0, st_moment_count = 0, st_edge_count = 0, st_attestation_count = 0,
     st_contested_edges = 0, st_cross_writer_contested = 0\<rparr>"

definition ensure_stats_row :: "ledger_view \<Rightarrow> ledger_view" where
  "ensure_stats_row v = (case lv_stats v of None \<Rightarrow> v\<lparr>lv_stats := Some zero_stats\<rparr> | Some _ \<Rightarrow> v)"

text \<open>\<open>UPDATE ledger_stats SET \<dots> WHERE id = true\<close>; \<open>bump\<close> adds one to a column.\<close>

definition update_stats :: "(ledger_stats \<Rightarrow> ledger_stats) \<Rightarrow> ledger_view \<Rightarrow> ledger_view" where
  "update_stats f v = v\<lparr>lv_stats := map_option f (lv_stats v)\<rparr>"

section \<open>Edges of the contested graph\<close>

definition refresh_edge :: "hash \<Rightarrow> ledger_view \<Rightarrow> ledger_view" where
  "refresh_edge i v = (case fmlookup (lv_edges v) i of
     None \<Rightarrow> v
   | Some row \<Rightarrow> (case (fmlookup (lv_entities v) (ew_src row), fmlookup (lv_entities v) (ew_dst row)) of
       (Some s, Some d) \<Rightarrow>
         let cross = (en_asserter s \<noteq> en_asserter d) in
         if \<not> ew_in_g row then
           update_stats (\<lambda>st. st\<lparr>st_contested_edges := st_contested_edges st + 1,
             st_cross_writer_contested := st_cross_writer_contested st + (if cross then 1 else 0)\<rparr>)
             (v\<lparr>lv_edges := fmupd i (row\<lparr>ew_in_g := True, ew_cross_writer := cross\<rparr>) (lv_edges v)\<rparr>)
         else if ew_cross_writer row \<noteq> cross then
           update_stats (\<lambda>st. st\<lparr>st_cross_writer_contested := st_cross_writer_contested st + (if cross then 1 else -1)\<rparr>)
             (v\<lparr>lv_edges := fmupd i (row\<lparr>ew_cross_writer := cross\<rparr>) (lv_edges v)\<rparr>)
         else v
     | _ \<Rightarrow> v))"

text \<open>The select has no order; the refreshes of different edges do not depend on each other.\<close>

definition incident_edges :: "u64 \<Rightarrow> ledger_view \<Rightarrow> hash list" where
  "incident_edges e v = filter (\<lambda>i. case fmlookup (lv_edges v) i of
     Some row \<Rightarrow> ew_src row = e \<or> ew_dst row = e | None \<Rightarrow> False) (keys (lv_edges v))"

definition refresh_incident_edges :: "u64 \<Rightarrow> ledger_view \<Rightarrow> ledger_view" where
  "refresh_incident_edges e v = fold refresh_edge (incident_edges e v) v"

section \<open>Entities and vocabulary\<close>

definition text_ok :: "string \<Rightarrow> bool" where
  "text_ok s \<longleftrightarrow> CHR 0x00 \<notin> set s"

definition entity_row_of :: "event_content \<Rightarrow> hash \<Rightarrow> entity_birth \<Rightarrow> entity_row" where
  "entity_row_of c i e = \<lparr>en_birth_event = i, en_birth_event_time = ec_event_time c,
     en_resolution_key = eb_resolution_key e, en_canonical_name = eb_canonical_name e,
     en_window_start = stored_start (eb_window e), en_start_state = start_state_of (eb_window e),
     en_closure_state = closure_state_of (eb_window e), en_window_end = stored_end (eb_window e), en_asserter = ec_author c\<rparr>"

definition write_entity :: "event_content \<Rightarrow> hash \<Rightarrow> entity_birth \<Rightarrow> ledger_view \<Rightarrow> ledger_error + ledger_view" where
  "write_entity c i e v = guard (\<not> (text_ok (eb_resolution_key e) \<and> text_ok (eb_canonical_name e))) (LE_Db ''text'')
     (Inr (v\<lparr>lv_entities := fmupd (eb_entity_id e) (entity_row_of c i e) (lv_entities v)\<rparr>))"

definition project_entity :: "event_content \<Rightarrow> hash \<Rightarrow> entity_birth \<Rightarrow> ledger_view \<Rightarrow> ledger_error + ledger_view" where
  "project_entity c i e v = (case fmlookup (lv_entities v) (eb_entity_id e) of
     None \<Rightarrow> rbind (write_entity c i e v) (\<lambda>v'.
       Inr (refresh_incident_edges (eb_entity_id e) (update_stats (\<lambda>st. st\<lparr>st_entity_count := st_entity_count st + 1\<rparr>) v')))
   | Some row \<Rightarrow>
       if en_birth_event row = i then Inr v
       else if (ec_event_time c, i) < (en_birth_event_time row, en_birth_event row)
       then rbind (write_entity c i e v) (\<lambda>v'. Inr (refresh_incident_edges (eb_entity_id e) v'))
       else Inr v)"

definition vocabulary_row_of :: "event_content \<Rightarrow> hash \<Rightarrow> vocabulary_entry \<Rightarrow> vocabulary_row" where
  "vocabulary_row_of c i w = \<lparr>vr_label = vo_label w, vr_declared_by = i, vr_declared_at = ec_event_time c,
     vr_band_start = stored_start (vo_band w), vr_start_state = start_state_of (vo_band w),
     vr_band_end = stored_end (vo_band w), vr_closure_state = closure_state_of (vo_band w)\<rparr>"

definition write_vocabulary :: "event_content \<Rightarrow> hash \<Rightarrow> vocabulary_entry \<Rightarrow> ledger_view \<Rightarrow> ledger_error + ledger_view" where
  "write_vocabulary c i w v = guard (\<not> text_ok (vo_label w)) (LE_Db ''text'')
     (Inr (v\<lparr>lv_vocabulary := fmupd (vo_claim_type w) (vocabulary_row_of c i w) (lv_vocabulary v)\<rparr>))"

definition project_vocabulary :: "event_content \<Rightarrow> hash \<Rightarrow> vocabulary_entry \<Rightarrow> ledger_view \<Rightarrow> ledger_error + ledger_view" where
  "project_vocabulary c i w v =
     guard (vo_claim_type w = 0) (LE_Corruption ''vocabulary claim_type 0 is reserved and must not be declared'')
     (case fmlookup (lv_vocabulary v) (vo_claim_type w) of
        None \<Rightarrow> write_vocabulary c i w v
      | Some row \<Rightarrow>
          if vr_declared_by row = i then Inr v
          else if (ec_event_time c, i) < (vr_declared_at row, vr_declared_by row) then write_vocabulary c i w v
          else Inr v)"

section \<open>Moments\<close>

definition MAX_CHAIN :: nat where
  "MAX_CHAIN = 1024"

definition moment_kind :: "16 word" where
  "moment_kind = kind_to_i16 EK_Moment"

text \<open>The result \<^term>\<open>Inr None\<close> holds the moment back: an ancestor is referenced but not stored.\<close>

fun chain_root :: "(hash, event_row) fmap \<Rightarrow> nat \<Rightarrow> hash \<Rightarrow> hash option \<Rightarrow> ledger_error + hash option" where
  "chain_root ev 0 cur par = Inl (LE_Corruption ''supersedes chain exceeds MAX_CHAIN'')"
| "chain_root ev (Suc n) cur None = Inr (Some cur)"
| "chain_root ev (Suc n) cur (Some p) = (case fmlookup ev p of
     None \<Rightarrow> Inr None
   | Some row \<Rightarrow> if er_kind row \<noteq> moment_kind then Inr (Some cur) else chain_root ev n p (er_supersedes row))"

text \<open>The canonically earliest child: \<open>ORDER BY event_time, event_id LIMIT 1\<close>.\<close>

definition children :: "(hash, event_row) fmap \<Rightarrow> hash \<Rightarrow> (tick \<times> hash) set" where
  "children ev cur = (\<lambda>i. (er_event_time (the (fmlookup ev i)), i)) `
     {i \<in> fmdom' ev. er_supersedes (the (fmlookup ev i)) = Some cur \<and> er_kind (the (fmlookup ev i)) = moment_kind}"

definition first_child :: "(hash, event_row) fmap \<Rightarrow> hash \<Rightarrow> hash option" where
  "first_child ev cur = (case sorted_list_of_set (children ev cur) of [] \<Rightarrow> None | (_, i) # _ \<Rightarrow> Some i)"

fun chain_head :: "(hash, event_row) fmap \<Rightarrow> nat \<Rightarrow> hash \<Rightarrow> ledger_error + hash" where
  "chain_head ev 0 cur = Inl (LE_Corruption ''supersedes chain exceeds MAX_CHAIN'')"
| "chain_head ev (Suc n) cur = (case first_child ev cur of None \<Rightarrow> Inr cur | Some i \<Rightarrow> chain_head ev n i)"

text \<open>The columns of a moment row, but for its head.\<close>

definition columns_of :: "hash \<Rightarrow> event_content \<Rightarrow> moment_body \<Rightarrow> moment_row" where
  "columns_of head c m = \<lparr>mr_head_event_id = head, mr_subject = mo_subject m, mr_coord = ec_event_time c,
     mr_record_coord = ec_record_time c, mr_posture = posture (ec_event_time c) (ec_record_time c),
     mr_body_hash = mo_body_hash m, mr_author_key = ec_author c\<rparr>"

definition parse_row :: "crypto \<Rightarrow> event_row \<Rightarrow> ledger_error + event_content" where
  "parse_row cy row = guard (\<not> cy_key_ok cy (er_author row)) (LE_Corruption ''author_key not a valid ed25519 key'')
     (case parse_event (cy_key_ok cy) (er_payload row) (er_event_time row) (er_record_time row) (er_author row) of
        Inl _ \<Rightarrow> Inl (LE_Corruption ''payload failed to parse'')
      | Inr c \<Rightarrow> Inr c)"

definition moment_columns :: "crypto \<Rightarrow> (hash, event_row) fmap \<Rightarrow> hash \<Rightarrow> hash \<Rightarrow> event_content \<Rightarrow> ledger_error + moment_row" where
  "moment_columns cy ev want have_id have_content =
    (if want = have_id then (case ec_body have_content of
        Moment m \<Rightarrow> Inr (columns_of want have_content m)
      | _ \<Rightarrow> Inl (LE_Corruption ''moment projector given a non-moment''))
     else (case fmlookup ev want of
        None \<Rightarrow> Inl (LE_Corruption ''chain names an event that is absent'')
      | Some row \<Rightarrow> rbind (parse_row cy row) (\<lambda>c.
          guard (event_id (cy_hash cy) c \<noteq> Some want) (LE_Corruption ''H0(payload) != stored event_id'')
          (case ec_body c of
             Moment m \<Rightarrow> Inr (columns_of want (c\<lparr>ec_event_time := er_event_time row, ec_record_time := er_record_time row,
               ec_author := er_author row\<rparr>) m)
           | _ \<Rightarrow> Inl (LE_Corruption ''chain names a non-moment event'')))))"

definition project_moment :: "crypto \<Rightarrow> (hash, event_row) fmap \<Rightarrow> event_content \<Rightarrow> hash \<Rightarrow> ledger_view \<Rightarrow> ledger_error + ledger_view" where
  "project_moment cy ev c i v = rbind (chain_root ev MAX_CHAIN i (ec_supersedes c)) (\<lambda>r. case r of
     None \<Rightarrow> Inr v
   | Some root \<Rightarrow> rbind (chain_head ev MAX_CHAIN root) (\<lambda>head.
       rbind (moment_columns cy ev head i c) (\<lambda>row.
       let v' = v\<lparr>lv_moments := fmupd root row (lv_moments v)\<rparr> in
       Inr (if has (lv_moments v) root then v'
         else update_stats (\<lambda>st. st\<lparr>st_moment_count := st_moment_count st + 1\<rparr>) v'))))"

section \<open>Edges and attestations\<close>

definition edge_row_of :: "event_content \<Rightarrow> edge_body \<Rightarrow> edge_row" where
  "edge_row_of c ed = \<lparr>ew_src = eg_src ed, ew_dst = eg_dst ed, ew_relation = eg_relation ed,
     ew_evidence_class = eg_evidence_class ed, ew_asserter = ec_author c, ew_event_time = ec_event_time c,
     ew_in_g = False, ew_cross_writer = False\<rparr>"

definition project_edge :: "event_content \<Rightarrow> hash \<Rightarrow> edge_body \<Rightarrow> ledger_view \<Rightarrow> ledger_error + ledger_view" where
  "project_edge c i ed v = guard (eg_src ed = eg_dst ed) (LE_Db ''no_self_loop'')
     (Inr (if has (lv_edges v) i then v
       else refresh_edge i (update_stats (\<lambda>st. st\<lparr>st_edge_count := st_edge_count st + 1\<rparr>)
         (v\<lparr>lv_edges := fmupd i (edge_row_of c ed) (lv_edges v)\<rparr>))))"

definition project_attestation :: "event_content \<Rightarrow> hash \<Rightarrow> attestation_body \<Rightarrow> ledger_view \<Rightarrow> ledger_error + ledger_view" where
  "project_attestation c i a v = Inr (if has (lv_attestations v) i then v
     else update_stats (\<lambda>st. st\<lparr>st_attestation_count := st_attestation_count st + 1\<rparr>)
       (v\<lparr>lv_attestations := fmupd i (ab_target a, ec_author c) (lv_attestations v)\<rparr>))"

section \<open>The write path\<close>

definition apply_event :: "crypto \<Rightarrow> (hash, event_row) fmap \<Rightarrow> event_content \<Rightarrow> hash \<Rightarrow> ledger_view \<Rightarrow> ledger_error + ledger_view" where
  "apply_event cy ev c i v0 = (let v = ensure_stats_row v0 in case ec_body c of
     EntityCreate e \<Rightarrow> project_entity c i e v
   | Moment m \<Rightarrow> project_moment cy ev c i v
   | Edge ed \<Rightarrow> project_edge c i ed v
   | Attestation a \<Rightarrow> project_attestation c i a v
   | VocabularyDeclare w \<Rightarrow> project_vocabulary c i w v)"

definition event_row_of :: "signed_event \<Rightarrow> byte list \<Rightarrow> (hash \<times> u64) option \<Rightarrow> event_row" where
  "event_row_of s payload prov = \<lparr>er_kind = kind_to_i16 (body_kind (ec_body (se_content s))),
     er_author = ec_author (se_content s), er_signature = se_signature s, er_event_time = ec_event_time (se_content s),
     er_record_time = ec_record_time (se_content s), er_payload = payload, er_supersedes = ec_supersedes (se_content s),
     er_provenance = prov\<rparr>"

text \<open>
  The provenance columns: the offset is a signed integer that a check keeps from being negative, also in a row that
  then conflicts, and a foreign key asks that the exhibit of an inserted row is stored.
\<close>

definition append_event :: "signed_event \<Rightarrow> (hash \<times> u64) option \<Rightarrow> tables \<Rightarrow> (ledger_error + appended \<times> tables) option" where
  "append_event s prov t = do {
     payload \<leftarrow> canon_event (se_content s);
     Some (guard (case prov of None \<Rightarrow> False | Some (_, offset) \<Rightarrow> sint offset < 0) (LE_Db ''events_provenance_paired'')
       (if has (tb_events t) (se_id s) then Inr (App_Unioned, t)
        else guard (case prov of None \<Rightarrow> False | Some (exhibit, _) \<Rightarrow> exhibit |\<notin>| tb_exhibits t) (LE_Db ''provenance_exhibit'')
          (Inr (App_New, t\<lparr>tb_events := fmupd (se_id s) (event_row_of s payload prov) (tb_events t)\<rparr>))))}"

definition commit_in_tx :: "crypto \<Rightarrow> signed_event \<Rightarrow> (hash \<times> u64) option \<Rightarrow> tables \<Rightarrow> (ledger_error + appended \<times> tables) option" where
  "commit_in_tx cy s prov t = do {
     r \<leftarrow> append_event s prov t;
     Some (rbind r (\<lambda>(app, t1). if app = App_New
       then rbind (apply_event cy (tb_events t1) (se_content s) (se_id s) (tb_view t1)) (\<lambda>v. Inr (app, t1\<lparr>tb_view := v\<rparr>))
       else Inr (app, t1)))}"

text \<open>The transaction: an error rolls back.\<close>

definition commit_event :: "crypto \<Rightarrow> signed_event \<Rightarrow> (hash \<times> u64) option \<Rightarrow> tables \<Rightarrow> ((ledger_error + appended) \<times> tables) option" where
  "commit_event cy s prov t = do {
     r \<leftarrow> commit_in_tx cy s prov t;
     Some (case r of Inl e \<Rightarrow> (Inl e, t) | Inr (app, t') \<Rightarrow> (Inr app, t'))}"

definition reproject :: "crypto \<Rightarrow> signed_event \<Rightarrow> tables \<Rightarrow> (ledger_error + unit) \<times> tables" where
  "reproject cy s t = (case apply_event cy (tb_events t) (se_content s) (se_id s) (tb_view t) of
     Inl e \<Rightarrow> (Inl e, t) | Inr v \<Rightarrow> (Inr (), t\<lparr>tb_view := v\<rparr>))"

section \<open>The digest of the view\<close>

definition h_bytes :: "byte list \<Rightarrow> byte list" where
  "h_bytes x = to_be_bytes 4 (word_of_nat (length x) :: u32) @ x"

definition h_str :: "string \<Rightarrow> byte list" where
  "h_str s = h_bytes (as_bytes s)"

definition h_i64 :: "u64 \<Rightarrow> byte list" where
  "h_i64 x = h_bytes (to_be_bytes 8 x)"

definition h_int :: "int \<Rightarrow> byte list" where
  "h_int n = h_i64 (word_of_int n)"

definition h_i16 :: "16 word \<Rightarrow> byte list" where
  "h_i16 x = h_bytes (to_be_bytes 2 x)"

definition h_bool :: "bool \<Rightarrow> byte list" where
  "h_bool b = h_bytes [if b then 1 else 0]"

definition h_opt_bytes :: "byte list option \<Rightarrow> byte list" where
  "h_opt_bytes x = (case x of None \<Rightarrow> [0] | Some b \<Rightarrow> 1 # h_bytes b)"

text \<open>The rows of a table in the order of its key.\<close>

definition h_rows :: "string \<Rightarrow> ('k \<times> 'v \<Rightarrow> byte list) \<Rightarrow> ('k \<times> 'v) list \<Rightarrow> byte list" where
  "h_rows name enc rows = h_str name @ h_int (int (length rows)) @ concat (map enc rows)"

definition rows_of :: "('k::linorder, 'v) fmap \<Rightarrow> ('k \<times> 'v) list" where
  "rows_of m = map (\<lambda>k. (k, the (fmlookup m k))) (keys m)"

text \<open>\<open>ORDER BY entity_id\<close> on a signed column.\<close>

definition signed_rows_of :: "(u64, 'v) fmap \<Rightarrow> (u64 \<times> 'v) list" where
  "signed_rows_of m = map (\<lambda>k. (k, the (fmlookup m k))) (sort_key sint (keys m))"

definition h_entity :: "u64 \<times> entity_row \<Rightarrow> byte list" where
  "h_entity r = (case r of (k, e) \<Rightarrow> h_i64 k @ h_bytes (hash_bytes (en_birth_event e)) @ h_bytes (to_canon_bytes (en_birth_event_time e)) @
     h_str (en_resolution_key e) @ h_str (en_canonical_name e) @ h_bytes (to_canon_bytes (en_window_start e)) @
     h_i16 (ucast (start_tag (en_start_state e))) @ h_i16 (ucast (closure_tag (en_closure_state e))) @
     h_bytes (to_canon_bytes (en_window_end e)) @ h_bytes (hash_bytes (en_asserter e)))"

definition h_vocabulary :: "u32 \<times> vocabulary_row \<Rightarrow> byte list" where
  "h_vocabulary r = (case r of (k, w) \<Rightarrow> h_i64 (ucast k) @ h_str (vr_label w) @ h_bytes (hash_bytes (vr_declared_by w)) @
     h_bytes (to_canon_bytes (vr_declared_at w)) @ h_bytes (to_canon_bytes (vr_band_start w)) @
     h_i16 (ucast (start_tag (vr_start_state w))) @ h_bytes (to_canon_bytes (vr_band_end w)) @
     h_i16 (ucast (closure_tag (vr_closure_state w))))"

definition h_moment :: "hash \<times> moment_row \<Rightarrow> byte list" where
  "h_moment r = (case r of (k, m) \<Rightarrow> h_bytes (hash_bytes k) @ h_bytes (hash_bytes (mr_head_event_id m)) @ h_i64 (mr_subject m) @
     h_bytes (to_canon_bytes (mr_coord m)) @ h_bytes (to_canon_bytes (mr_record_coord m)) @ h_i16 (word_of_int (mr_posture m)) @
     h_bytes (hash_bytes (mr_body_hash m)) @ h_bytes (hash_bytes (mr_author_key m)))"

definition h_edge :: "hash \<times> edge_row \<Rightarrow> byte list" where
  "h_edge r = (case r of (k, e) \<Rightarrow> h_bytes (hash_bytes k) @ h_i64 (ew_src e) @ h_i64 (ew_dst e) @ h_i16 (ucast (relation_tag (ew_relation e))) @
     h_i16 (ucast (evidence_tag (ew_evidence_class e))) @ h_bytes (hash_bytes (ew_asserter e)) @
     h_bytes (to_canon_bytes (ew_event_time e)) @ h_i16 0 @ h_bool (ew_in_g e) @ h_bool (ew_cross_writer e))"

definition h_attestation :: "hash \<times> hash \<times> hash \<Rightarrow> byte list" where
  "h_attestation r = (case r of (k, target, author) \<Rightarrow> h_bytes (hash_bytes k) @ h_bytes (hash_bytes target) @ h_bytes (hash_bytes author))"

definition h_root :: "hash \<times> root_row \<Rightarrow> byte list" where
  "h_root r = (case r of (k, x) \<Rightarrow> h_bytes (hash_bytes k) @ h_int (int (rr_height x)) @ h_opt_bytes (map_option hash_bytes (rr_moment_id x)))"

definition h_anchor :: "hash \<times> anchor_row \<Rightarrow> byte list" where
  "h_anchor r = (case r of (k, x) \<Rightarrow> h_bytes (hash_bytes k) @ h_i16 (ar_status x) @ h_opt_bytes (ar_txid x))"

definition h_stats :: "ledger_stats option \<Rightarrow> byte list" where
  "h_stats st = h_str ''ledger_stats'' @ (case st of None \<Rightarrow> h_int 0 | Some x \<Rightarrow> h_int 1 @ h_int (st_entity_count x) @
     h_int (st_moment_count x) @ h_int (st_edge_count x) @ h_int (st_attestation_count x) @ h_int (st_contested_edges x) @
     h_int (st_cross_writer_contested x))"

text \<open>No code writes \<open>taxonomy_tags\<close>, so its section is the one of an empty table.\<close>

definition view_root :: "crypto \<Rightarrow> tables \<Rightarrow> hash" where
  "view_root cy t = (let v = tb_view t in cy_hash cy (
     h_rows ''entities'' h_entity (signed_rows_of (lv_entities v)) @
     h_rows ''vocabulary'' h_vocabulary (rows_of (lv_vocabulary v)) @
     h_rows ''moments'' h_moment (rows_of (lv_moments v)) @
     h_rows ''edges'' h_edge (rows_of (lv_edges v)) @
     h_rows ''attestations'' h_attestation (rows_of (lv_attestations v)) @
     h_str ''taxonomy_tags'' @ h_int 0 @
     h_rows ''roots'' h_root (rows_of (tb_roots t)) @
     h_rows ''anchors'' h_anchor (rows_of (tb_anchors t)) @
     h_stats (lv_stats v)))"

section \<open>Rebuilding the view\<close>

text \<open>The events in the order \<open>(event_time, event_id)\<close>.\<close>

definition fold_order :: "(hash, event_row) fmap \<Rightarrow> (tick \<times> hash) list" where
  "fold_order ev = sorted_list_of_set ((\<lambda>i. (er_event_time (the (fmlookup ev i)), i)) ` fmdom' ev)"

definition rebuild_row :: "crypto \<Rightarrow> (hash, event_row) fmap \<Rightarrow> hash \<Rightarrow> ledger_view \<Rightarrow> ledger_error + ledger_view" where
  "rebuild_row cy ev i v = (let row = the (fmlookup ev i) in
     rbind (parse_row cy row) (\<lambda>c.
     guard (event_id (cy_hash cy) c \<noteq> Some i) (LE_Corruption ''H0(payload) != stored event_id'')
     (guard (\<not> cy_verify cy (er_author row) (hash_bytes i) (er_signature row)) (LE_Corruption ''stored signature does not verify'')
     (apply_event cy ev c i v))))"

fun rebuild_rows :: "crypto \<Rightarrow> (hash, event_row) fmap \<Rightarrow> hash list \<Rightarrow> ledger_view \<Rightarrow> ledger_error + ledger_view" where
  "rebuild_rows cy ev [] v = Inr v"
| "rebuild_rows cy ev (i # is) v = rbind (rebuild_row cy ev i v) (rebuild_rows cy ev is)"

text \<open>The transaction commits before the digests are compared.\<close>

definition rebuild :: "crypto \<Rightarrow> tables \<Rightarrow> (ledger_error + hash) \<times> tables" where
  "rebuild cy t = (let before = view_root cy t in
     case rebuild_rows cy (tb_events t) (map snd (fold_order (tb_events t))) empty_view of
       Inl e \<Rightarrow> (Inl e, t)
     | Inr v \<Rightarrow> let t' = t\<lparr>tb_view := v\<rparr>; after = view_root cy t' in
         (guard (before \<noteq> after) (LE_RebuildDivergence before after) (Inr after), t'))"

end
