(* ===== verification/Legacy_View.thy ===== *)
theory Legacy_View
  imports Legacy_Ledger
begin

text \<open>
  The projections against the set of applied events: which rows each table holds, what one application adds, and what
  the counters count. \<open>C\<close> gives the content of an event and \<open>A\<close> is the set of events applied.
\<close>

section \<open>Counting rows\<close>

definition row_count :: "('v \<Rightarrow> bool) \<Rightarrow> ('k, 'v) fmap \<Rightarrow> int" where
  "row_count P m = int (card {k. \<exists>x. fmlookup m k = Some x \<and> P x})"

lemma finite_rows: "finite {k. \<exists>x. fmlookup m k = Some x \<and> P x}"
  by (rule finite_subset [of _ "fmdom' m"]) (auto simp: fmlookup_dom'_iff)

lemma row_count_fmempty [simp]: "row_count P fmempty = 0"
  by (simp add: row_count_def)

lemma row_count_fmupd:
  "row_count P (fmupd k x m) = row_count P m + of_bool (P x) - (case fmlookup m k of Some y \<Rightarrow> of_bool (P y) | None \<Rightarrow> 0)"
proof -
  let ?R = "{j. \<exists>x. fmlookup m j = Some x \<and> P x}"
  have "{j. \<exists>y. fmlookup (fmupd k x m) j = Some y \<and> P y} = (if P x then insert k ?R else ?R - {k})" by auto
  then show ?thesis
    using finite_rows [of m P] card_Suc_Diff1 [OF finite_rows [of m P], of k]
    by (auto simp: row_count_def card_insert_if split: option.split)
qed

definition stats_of :: "ledger_view \<Rightarrow> ledger_stats" where
  "stats_of v = \<lparr>st_entity_count = row_count (\<lambda>_. True) (lv_entities v), st_moment_count = row_count (\<lambda>_. True) (lv_moments v),
     st_edge_count = row_count (\<lambda>_. True) (lv_edges v), st_attestation_count = row_count (\<lambda>_. True) (lv_attestations v),
     st_contested_edges = row_count ew_in_g (lv_edges v), st_cross_writer_contested = row_count ew_cross_writer (lv_edges v)\<rparr>"

definition counted :: "ledger_view \<Rightarrow> bool" where
  "counted v \<longleftrightarrow> lv_stats v = Some (stats_of v)"

section \<open>Settled edges\<close>

definition settle :: "(u64, entity_row) fmap \<Rightarrow> edge_row \<Rightarrow> edge_row" where
  "settle ent row = row\<lparr>ew_in_g := has ent (ew_src row) \<and> has ent (ew_dst row),
     ew_cross_writer := (case (fmlookup ent (ew_src row), fmlookup ent (ew_dst row)) of
       (Some s, Some d) \<Rightarrow> en_asserter s \<noteq> en_asserter d | _ \<Rightarrow> False)\<rparr>"

text \<open>What a refresh relies on: an edge joined only with both endpoints present, and only then crosses writers.\<close>

definition refreshable :: "(u64, entity_row) fmap \<Rightarrow> edge_row \<Rightarrow> bool" where
  "refreshable ent row \<longleftrightarrow> (ew_in_g row \<longrightarrow> has ent (ew_src row) \<and> has ent (ew_dst row)) \<and> (ew_cross_writer row \<longrightarrow> ew_in_g row)"

lemma edge_row_in_g: "ew_in_g row \<Longrightarrow> row\<lparr>ew_in_g := True, ew_cross_writer := b\<rparr> = row\<lparr>ew_cross_writer := b\<rparr>"
  by (cases row) simp

lemma refresh_edge_spec:
  assumes "fmlookup (lv_edges v) i = Some row" "refreshable (lv_entities v) row" "counted v"
  shows "refresh_edge i v = v\<lparr>lv_edges := fmupd i (settle (lv_entities v) row) (lv_edges v),
      lv_stats := Some (stats_of (v\<lparr>lv_edges := fmupd i (settle (lv_entities v) row) (lv_edges v)\<rparr>))\<rparr>"
proof -
  let ?ent = "lv_entities v"
  have unchanged: "v\<lparr>lv_edges := fmupd i row (lv_edges v), lv_stats := Some (stats_of (v\<lparr>lv_edges := fmupd i row (lv_edges v)\<rparr>))\<rparr> = v"
  proof -
    have "fmupd i row (lv_edges v) = lv_edges v" by (rule fmap_ext) (use assms(1) in auto)
    then show ?thesis using assms(3) by (cases v) (simp add: counted_def)
  qed
  show ?thesis
  proof (cases "has ?ent (ew_src row) \<and> has ?ent (ew_dst row)")
    case False
    then have "refresh_edge i v = v" "settle ?ent row = row"
      using assms(1,2) by (auto simp: refresh_edge_def settle_def refreshable_def has_def split: option.splits)
    with unchanged show ?thesis by simp
  next
    case True
    then obtain s d where sd: "fmlookup ?ent (ew_src row) = Some s" "fmlookup ?ent (ew_dst row) = Some d"
      by (auto simp: has_def split: option.splits)
    have settle: "settle ?ent row = row\<lparr>ew_in_g := True, ew_cross_writer := (en_asserter s \<noteq> en_asserter d)\<rparr>"
      using sd by (simp add: settle_def has_def)
    show ?thesis
    proof (cases "ew_in_g row \<and> ew_cross_writer row = (en_asserter s \<noteq> en_asserter d)")
      case True
      then have "refresh_edge i v = v" "settle ?ent row = row" using assms(1) sd unfolding settle by (simp_all add: refresh_edge_def Let_def)
      with unchanged show ?thesis by simp
    next
      case False
      have "\<not> ew_in_g row \<Longrightarrow> \<not> ew_cross_writer row" using assms(2) by (simp add: refreshable_def)
      with False show ?thesis unfolding settle using assms(1,3) sd
        by (cases "ew_in_g row") (auto simp: refresh_edge_def Let_def counted_def update_stats_def stats_of_def row_count_fmupd edge_row_in_g)
    qed
  qed
qed

lemma refreshable_settle: "refreshable ent (settle ent row)"
  by (auto simp: refreshable_def settle_def has_def split: option.splits)

lemma settle_settle [simp]: "settle ent (settle ent' row) = settle ent row"
  by (simp add: settle_def)

lemma fold_refresh_edge:
  assumes "distinct is" "\<And>i. i \<in> set is \<Longrightarrow> \<exists>row. fmlookup (lv_edges v) i = Some row \<and> refreshable (lv_entities v) row" "counted v"
  shows "\<exists>m. fold refresh_edge is v = v\<lparr>lv_edges := m, lv_stats := Some (stats_of (v\<lparr>lv_edges := m\<rparr>))\<rparr> \<and>
    (\<forall>i. fmlookup m i = (if i \<in> set is then map_option (settle (lv_entities v)) (fmlookup (lv_edges v) i) else fmlookup (lv_edges v) i))"
  using assms
proof (induction "is" arbitrary: v)
  case Nil
  then show ?case by (intro exI [of _ "lv_edges v"]) (simp add: counted_def)
next
  case (Cons i "is")
  obtain row where row: "fmlookup (lv_edges v) i = Some row" "refreshable (lv_entities v) row" using Cons.prems(2) by auto
  let ?m = "fmupd i (settle (lv_entities v) row) (lv_edges v)"
  let ?v = "v\<lparr>lv_edges := ?m, lv_stats := Some (stats_of (v\<lparr>lv_edges := ?m\<rparr>))\<rparr>"
  have v: "refresh_edge i v = ?v" using refresh_edge_spec [OF row Cons.prems(3)] .
  have "counted ?v" by (simp add: counted_def stats_of_def)
  moreover have "\<exists>row. fmlookup (lv_edges ?v) j = Some row \<and> refreshable (lv_entities ?v) row" if "j \<in> set is" for j
    using Cons.prems(1,2) that by auto
  ultimately obtain m where m: "fold refresh_edge is ?v = ?v\<lparr>lv_edges := m, lv_stats := Some (stats_of (?v\<lparr>lv_edges := m\<rparr>))\<rparr>"
    "\<And>j. fmlookup m j = (if j \<in> set is then map_option (settle (lv_entities v)) (fmlookup ?m j) else fmlookup ?m j)"
    using Cons.IH [of ?v] Cons.prems(1) by auto
  have "fold refresh_edge (i # is) v = v\<lparr>lv_edges := m, lv_stats := Some (stats_of (v\<lparr>lv_edges := m\<rparr>))\<rparr>"
    using m(1) by (simp add: v stats_of_def)
  moreover have "fmlookup m j = (if j \<in> set (i # is) then map_option (settle (lv_entities v)) (fmlookup (lv_edges v) j) else fmlookup (lv_edges v) j)" for j
    using m(2) [of j] row(1) Cons.prems(1) by auto
  ultimately show ?case by blast
qed

text \<open>After a change of one entity, refreshing its incident edges settles every edge.\<close>

lemma refresh_incident_edges_settles:
  assumes settled: "\<And>i row. fmlookup (lv_edges v) i = Some row \<Longrightarrow> settle ent row = row"
    and ent: "lv_entities v = fmupd e x ent" and "counted v"
  shows "\<exists>m. refresh_incident_edges e v = v\<lparr>lv_edges := m, lv_stats := Some (stats_of (v\<lparr>lv_edges := m\<rparr>))\<rparr> \<and>
    (\<forall>i. fmlookup m i = map_option (settle (lv_entities v)) (fmlookup (lv_edges v) i))"
proof -
  have "refreshable (lv_entities v) row" if "fmlookup (lv_edges v) i = Some row" for i row
    using refreshable_settle [of ent row] settled [OF that] by (auto simp: refreshable_def ent)
  then have pre: "\<exists>row. fmlookup (lv_edges v) i = Some row \<and> refreshable (lv_entities v) row" if "i \<in> set (incident_edges e v)" for i
    using that by (auto simp: incident_edges_def split: option.splits)
  have "distinct (incident_edges e v)" by (simp add: incident_edges_def)
  from fold_refresh_edge [OF this pre \<open>counted v\<close>] obtain m where
    m: "refresh_incident_edges e v = v\<lparr>lv_edges := m, lv_stats := Some (stats_of (v\<lparr>lv_edges := m\<rparr>))\<rparr>"
    "\<And>i. fmlookup m i = (if i \<in> set (incident_edges e v) then map_option (settle (lv_entities v)) (fmlookup (lv_edges v) i) else fmlookup (lv_edges v) i)"
    unfolding refresh_incident_edges_def by blast
  have "settle (lv_entities v) row = row" if "fmlookup (lv_edges v) i = Some row" "i \<notin> set (incident_edges e v)" for i row
  proof -
    have "ew_src row \<noteq> e" "ew_dst row \<noteq> e"
      using that by (auto simp: incident_edges_def fmlookup_dom'_iff)
    then have "settle (lv_entities v) row = settle ent row" by (simp add: settle_def ent has_def)
    with settled [OF that(1)] show ?thesis by simp
  qed
  then have "fmlookup m i = map_option (settle (lv_entities v)) (fmlookup (lv_edges v) i)" for i
    using m(2) [of i] by (cases "fmlookup (lv_edges v) i") auto
  with m(1) show ?thesis by blast
qed

section \<open>The earliest claim\<close>

type_synonym contents = "hash \<Rightarrow> event_content"

definition claim_key :: "contents \<Rightarrow> hash \<Rightarrow> tick \<times> hash" where
  "claim_key C i = (ec_event_time (C i), i)"

definition earliest :: "contents \<Rightarrow> hash set \<Rightarrow> (hash \<Rightarrow> bool) \<Rightarrow> hash \<Rightarrow> bool" where
  "earliest C A P i \<longleftrightarrow> i \<in> A \<and> P i \<and> (\<forall>j\<in>A. P j \<longrightarrow> claim_key C i \<le> claim_key C j)"

lemma claim_key_inject [simp]: "claim_key C i = claim_key C j \<longleftrightarrow> i = j"
  by (auto simp: claim_key_def)

lemma earliest_unique: "earliest C A P i \<Longrightarrow> earliest C A P j \<Longrightarrow> i = j"
  unfolding earliest_def by (meson antisym claim_key_inject)

lemma earliest_exists:
  assumes "finite A" "i \<in> A" "P i"
  shows "\<exists>j. earliest C A P j"
proof -
  let ?K = "claim_key C ` {j \<in> A. P j}"
  have K: "finite ?K" "claim_key C i \<in> ?K" using assms by auto
  then have "Min ?K \<in> ?K" by (intro Min_in) auto
  then obtain j where j: "Min ?K = claim_key C j" "j \<in> A" "P j" by blast
  have "claim_key C j \<le> claim_key C l" if "l \<in> A" "P l" for l
    using Min_le [OF K(1), of "claim_key C l"] that j(1) by auto
  with j(2,3) show ?thesis unfolding earliest_def by blast
qed

lemma earliest_insert_other: "\<not> P x \<Longrightarrow> earliest C (insert x A) P j \<longleftrightarrow> earliest C A P j"
  unfolding earliest_def by auto

lemma earliest_insert_first:
  assumes "finite A" "P x" "\<nexists>i. earliest C A P i"
  shows "earliest C (insert x A) P j \<longleftrightarrow> j = x"
proof -
  have "\<not> P l" if "l \<in> A" for l using earliest_exists [OF assms(1) that, of P C] assms(3) by blast
  with assms(2) show ?thesis unfolding earliest_def by auto
qed

lemma earliest_insert_less:
  "earliest C A P i \<Longrightarrow> P x \<Longrightarrow> claim_key C x < claim_key C i \<Longrightarrow> earliest C (insert x A) P j \<longleftrightarrow> j = x"
  unfolding earliest_def by (auto dest: order.strict_trans1 leD)

lemma earliest_insert_keep:
  "earliest C A P i \<Longrightarrow> P x \<Longrightarrow> \<not> claim_key C x < claim_key C i \<Longrightarrow> x \<notin> A \<Longrightarrow> earliest C (insert x A) P j \<longleftrightarrow> j = i"
  unfolding earliest_def by (auto simp: not_less) (metis antisym claim_key_inject)+

lemma earliest_cong: "(\<And>i. i \<in> A \<Longrightarrow> C i = C' i) \<Longrightarrow> (\<And>i. i \<in> A \<Longrightarrow> P i = P' i) \<Longrightarrow> earliest C A P i \<longleftrightarrow> earliest C' A P' i"
  unfolding earliest_def claim_key_def by auto

end
