(* ===== verification/Legacy_Chain.thy ===== *)
theory Legacy_Chain
  imports Legacy_View
begin

text \<open>
  The two walks of the supersession fold against a growing event table: what the arrival of one event changes in the
  root of a stored moment and in the head of a stored chain.
\<close>

section \<open>Stored moments and their lineage\<close>

definition stored_moment :: "(hash, event_row) fmap \<Rightarrow> hash \<Rightarrow> bool" where
  "stored_moment ev i \<longleftrightarrow> (\<exists>row. fmlookup ev i = Some row \<and> er_kind row = moment_kind)"

definition root_at :: "(hash, event_row) fmap \<Rightarrow> hash \<Rightarrow> ledger_error + hash option" where
  "root_at ev i = chain_root ev MAX_CHAIN i (er_supersedes (the (fmlookup ev i)))"

text \<open>No stored moment supersedes a stored event of another kind.\<close>

definition moment_lineage :: "(hash, event_row) fmap \<Rightarrow> bool" where
  "moment_lineage ev \<longleftrightarrow> (\<forall>i \<in> fmdom' ev. er_kind (the (fmlookup ev i)) = moment_kind \<longrightarrow>
     (case er_supersedes (the (fmlookup ev i)) of None \<Rightarrow> True
      | Some p \<Rightarrow> (case fmlookup ev p of None \<Rightarrow> True | Some row \<Rightarrow> er_kind row = moment_kind)))"

lemma moment_lineageD:
  "moment_lineage ev \<Longrightarrow> fmlookup ev i = Some row \<Longrightarrow> er_kind row = moment_kind \<Longrightarrow> er_supersedes row = Some p \<Longrightarrow>
    fmlookup ev p = Some row' \<Longrightarrow> er_kind row' = moment_kind"
proof -
  assume "moment_lineage ev" and row: "fmlookup ev i = Some row" "er_kind row = moment_kind" "er_supersedes row = Some p"
    "fmlookup ev p = Some row'"
  moreover have "i \<in> fmdom' ev" using row(1) by (simp add: fmlookup_dom'_iff)
  ultimately have "case er_supersedes row of None \<Rightarrow> True | Some p \<Rightarrow> (case fmlookup ev p of None \<Rightarrow> True | Some row \<Rightarrow> er_kind row = moment_kind)"
    unfolding moment_lineage_def by fastforce
  with row(3,4) show ?thesis by simp
qed

lemma moment_lineageI:
  assumes "\<And>i row p row'. fmlookup ev i = Some row \<Longrightarrow> er_kind row = moment_kind \<Longrightarrow> er_supersedes row = Some p \<Longrightarrow>
    fmlookup ev p = Some row' \<Longrightarrow> er_kind row' = moment_kind"
  shows "moment_lineage ev"
  unfolding moment_lineage_def
proof (intro ballI impI)
  fix i
  assume "i \<in> fmdom' ev" and kind: "er_kind (the (fmlookup ev i)) = moment_kind"
  then obtain row where row: "fmlookup ev i = Some row" by (auto simp: fmlookup_dom'_iff)
  then show "case er_supersedes (the (fmlookup ev i)) of None \<Rightarrow> True
      | Some p \<Rightarrow> (case fmlookup ev p of None \<Rightarrow> True | Some row \<Rightarrow> er_kind row = moment_kind)"
    using assms [OF row] kind by (simp split: option.split)
qed

lemma moment_lineage_smaller:
  "moment_lineage (fmupd x row ev) \<Longrightarrow> fmlookup ev x = None \<Longrightarrow> moment_lineage ev"
proof (rule moment_lineageI)
  fix i row' p row''
  assume lin: "moment_lineage (fmupd x row ev)" and x: "fmlookup ev x = None" and row: "fmlookup ev i = Some row'"
    "er_kind row' = moment_kind" "er_supersedes row' = Some p" "fmlookup ev p = Some row''"
  have "i \<noteq> x" "p \<noteq> x" using x row by auto
  then show "er_kind row'' = moment_kind" by (intro moment_lineageD [OF lin, of i row' p row'']) (simp_all add: row)
qed

section \<open>The walk up\<close>

lemma chain_root_mono:
  "chain_root ev m i par = Inr r \<Longrightarrow> m \<le> n \<Longrightarrow> chain_root ev n i par = Inr r"
proof (induction ev m i par arbitrary: n rule: chain_root.induct)
  case (2 ev m cur)
  then show ?case by (cases n) auto
next
  case (3 ev m cur p)
  then show ?case by (cases n) (auto split: option.splits if_splits)
qed simp

lemma chain_root_settled:
  "chain_root ev n i par \<noteq> Inr None \<Longrightarrow> fmlookup ev x = None \<Longrightarrow>
    chain_root (fmupd x row ev) n i par = chain_root ev n i par"
  by (induction ev n i par rule: chain_root.induct) (auto split: option.splits if_splits)

lemma chain_root_completed:
  "chain_root ev n i par = Inr None \<Longrightarrow> chain_root (fmupd x row ev) n i par = Inr (Some r) \<Longrightarrow>
    fmlookup ev x = None \<Longrightarrow> er_kind row = moment_kind \<Longrightarrow>
    \<exists>m\<le>n. chain_root (fmupd x row ev) m x (er_supersedes row) = Inr (Some r)"
proof (induction ev n i par rule: chain_root.induct)
  case (3 ev n cur p)
  show ?case
  proof (cases "p = x")
    case True
    with 3 show ?thesis by (intro exI [of _ n]) simp
  next
    case False
    then show ?thesis using 3
      by (auto split: option.splits if_splits) (meson le_SucI)
  qed
qed simp_all

lemma chain_root_held:
  assumes "moment_lineage (fmupd x row ev)" "er_kind row \<noteq> moment_kind" "fmlookup ev x = None"
  shows "fmlookup ev i = Some row' \<Longrightarrow> er_kind row' = moment_kind \<Longrightarrow> er_supersedes row' = par \<Longrightarrow>
    chain_root (fmupd x row ev) n i par = chain_root ev n i par"
  using assms
proof (induction ev n i par arbitrary: row' rule: chain_root.induct)
  case (3 ev n cur p)
  have "p \<noteq> x"
  proof
    assume "p = x"
    with 3(2-) have "er_kind row = moment_kind"
      by (intro moment_lineageD [OF 3(5), of cur row' p row]) auto
    with 3(6) show False by simp
  qed
  then show ?case using 3 by (auto split: option.splits)
qed simp_all

lemma root_at_fresh:
  assumes "fmlookup ev x = None" "stored_moment ev i" "root_at ev i \<noteq> Inr None"
  shows "root_at (fmupd x row ev) i = root_at ev i"
  using assms chain_root_settled [of ev MAX_CHAIN i "er_supersedes (the (fmlookup ev i))" x row]
  by (auto simp: root_at_def stored_moment_def)

lemma root_at_completed:
  assumes "fmlookup ev x = None" "stored_moment ev i" "root_at ev i = Inr None" "root_at (fmupd x row ev) i = Inr (Some r)"
    "er_kind row = moment_kind"
  shows "root_at (fmupd x row ev) x = Inr (Some r)"
proof -
  have "i \<noteq> x" using assms(1,2) by (auto simp: stored_moment_def)
  with assms chain_root_completed [of ev MAX_CHAIN i "er_supersedes (the (fmlookup ev i))" x row r]
  obtain m where "m \<le> MAX_CHAIN" "chain_root (fmupd x row ev) m x (er_supersedes row) = Inr (Some r)"
    by (auto simp: root_at_def)
  from chain_root_mono [OF this(2,1)] show ?thesis by (simp add: root_at_def)
qed

lemma root_at_other_kind:
  assumes "moment_lineage (fmupd x row ev)" "er_kind row \<noteq> moment_kind" "fmlookup ev x = None" "stored_moment ev i"
  shows "root_at (fmupd x row ev) i = root_at ev i"
  using chain_root_held [OF assms(1-3), of i] assms(3,4) by (auto simp: root_at_def stored_moment_def)

section \<open>Ascents\<close>

inductive ascends :: "(hash, event_row) fmap \<Rightarrow> hash \<Rightarrow> hash \<Rightarrow> bool" for ev where
  stay: "ascends ev c c"
| climb: "fmlookup ev c = Some row \<Longrightarrow> er_supersedes row = Some p \<Longrightarrow> stored_moment ev p \<Longrightarrow> ascends ev p r \<Longrightarrow> ascends ev c r"

lemma ascends_snoc:
  "ascends ev c d \<Longrightarrow> fmlookup ev d = Some row \<Longrightarrow> er_supersedes row = Some r \<Longrightarrow> stored_moment ev r \<Longrightarrow> ascends ev c r"
  by (induction rule: ascends.induct) (blast intro: ascends.intros)+

definition stops :: "(hash, event_row) fmap \<Rightarrow> hash \<Rightarrow> bool" where
  "stops ev r \<longleftrightarrow> (\<exists>row. fmlookup ev r = Some row \<and> er_kind row = moment_kind \<and> (case er_supersedes row of None \<Rightarrow> True
     | Some p \<Rightarrow> (\<exists>row'. fmlookup ev p = Some row' \<and> er_kind row' \<noteq> moment_kind)))"

lemma chain_root_stops:
  "chain_root ev n c par = Inr (Some r) \<Longrightarrow> fmlookup ev c = Some row \<Longrightarrow> er_supersedes row = par \<Longrightarrow>
    er_kind row = moment_kind \<Longrightarrow> stops ev r"
proof (induction ev n c par arbitrary: row rule: chain_root.induct)
  case (3 ev n cur p)
  show ?case
  proof (cases "fmlookup ev p")
    case (Some row')
    then show ?thesis using 3 by (cases "er_kind row' = moment_kind") (auto simp: stops_def)
  qed (use 3 in simp)
qed (auto simp: stops_def)

lemma root_at_stops: "root_at ev i = Inr (Some r) \<Longrightarrow> stored_moment ev i \<Longrightarrow> stops ev r"
  by (auto simp: root_at_def stored_moment_def intro: chain_root_stops)

lemma ascends_root:
  "ascends ev c r \<Longrightarrow> stops ev r \<Longrightarrow> fmlookup ev c = Some row \<Longrightarrow>
    chain_root ev n c (er_supersedes row) = Inr x \<Longrightarrow> x = Some r"
proof (induction arbitrary: row n rule: ascends.induct)
  case (stay c)
  then show ?case by (cases n) (auto simp: stops_def split: option.splits)
next
  case (climb c row' p r)
  then show ?case by (cases n) (auto simp: stored_moment_def)
qed

section \<open>The walk down\<close>

lemma finite_children: "finite (children ev c)"
  by (simp add: children_def)

lemma first_child_None: "first_child ev c = None \<longleftrightarrow> children ev c = {}"
  using finite_children [of ev c] by (auto simp: first_child_def split: list.splits)

lemma first_child_Some: "first_child ev c = Some d \<Longrightarrow> stored_moment ev d \<and> er_supersedes (the (fmlookup ev d)) = Some c"
proof -
  assume "first_child ev c = Some d"
  then obtain t xs where "sorted_list_of_set (children ev c) = (t, d) # xs"
    by (auto simp: first_child_def split: list.splits prod.splits)
  then have "(t, d) \<in> set (sorted_list_of_set (children ev c))" by simp
  then have "(t, d) \<in> children ev c" using finite_children [of ev c] by simp
  then show ?thesis by (auto simp: children_def stored_moment_def fmlookup_dom'_iff)
qed

lemma children_fmupd:
  assumes "fmlookup ev x = None" "\<not> (er_kind row = moment_kind \<and> er_supersedes row = Some c)"
  shows "children (fmupd x row ev) c = children ev c"
proof -
  have "{i \<in> fmdom' (fmupd x row ev). er_supersedes (the (fmlookup (fmupd x row ev) i)) = Some c \<and> er_kind (the (fmlookup (fmupd x row ev) i)) = moment_kind}
    = {i \<in> fmdom' ev. er_supersedes (the (fmlookup ev i)) = Some c \<and> er_kind (the (fmlookup ev i)) = moment_kind}"
    using assms by (auto simp: fmlookup_dom'_iff split: if_splits)
  moreover have "x \<notin> fmdom' ev" using assms(1) by (simp add: fmlookup_dom'_iff)
  ultimately show ?thesis unfolding children_def by (intro image_cong) auto
qed

lemma chain_head_stored:
  "chain_head ev n r = Inr h \<Longrightarrow> stored_moment ev r \<Longrightarrow> stored_moment ev h"
  by (induction ev n r rule: chain_head.induct) (auto split: option.splits dest: first_child_Some)

lemma chain_head_fmupd:
  assumes "fmlookup ev x = None" "chain_head (fmupd x row ev) n r \<noteq> chain_head ev n r" "stored_moment (fmupd x row ev) r"
  shows "er_kind row = moment_kind \<and> ascends (fmupd x row ev) x r"
  using assms(2,3)
proof (induction n arbitrary: r)
  case (Suc n)
  let ?ev = "fmupd x row ev"
  show ?case
  proof (cases "er_kind row = moment_kind \<and> er_supersedes row = Some r")
    case True
    then show ?thesis using Suc.prems(2) by (auto intro: climb [where row = row] stay)
  next
    case False
    then have same: "first_child ?ev r = first_child ev r" using children_fmupd [OF assms(1)] by (simp add: first_child_def)
    with Suc.prems(1) obtain d where d: "first_child ?ev r = Some d" "chain_head ?ev n d \<noteq> chain_head ev n d"
      by (auto split: option.splits)
    from first_child_Some [OF d(1)] have "stored_moment ?ev d" "er_supersedes (the (fmlookup ?ev d)) = Some r" by auto
    with Suc.IH [OF d(2)] Suc.prems(2) show ?thesis by (auto simp: stored_moment_def intro: ascends_snoc)
  qed
qed simp

section \<open>One arrival\<close>

definition rooted :: "(hash, event_row) fmap \<Rightarrow> hash set \<Rightarrow> hash \<Rightarrow> bool" where
  "rooted ev A r \<longleftrightarrow> (\<exists>i\<in>A. stored_moment ev i \<and> root_at ev i = Inr (Some r))"

lemma rooted_insert:
  "rooted ev (insert x A) r \<longleftrightarrow> rooted ev A r \<or> stored_moment ev x \<and> root_at ev x = Inr (Some r)"
  by (auto simp: rooted_def)

lemma rooted_stops: "rooted ev A r \<Longrightarrow> stops ev r"
  by (auto simp: rooted_def intro: root_at_stops)

lemma stops_stored: "stops ev r \<Longrightarrow> stored_moment ev r"
  by (auto simp: stops_def stored_moment_def)

lemma stored_moment_fmupd: "i \<noteq> x \<Longrightarrow> stored_moment (fmupd x row ev) i \<longleftrightarrow> stored_moment ev i"
  by (simp add: stored_moment_def)

text \<open>
  A new event leaves every chain alone but its own: a root it does not reach keeps its members and its head.
\<close>

lemma rooted_fresh:
  assumes fresh: "fmlookup ev x = None" and A: "A \<subseteq> fmdom' ev" and lin: "moment_lineage (fmupd x row ev)"
    and not: "\<not> (er_kind row = moment_kind \<and> root_at (fmupd x row ev) x = Inr (Some r))"
  shows "rooted (fmupd x row ev) A r \<longleftrightarrow> rooted ev A r"
proof -
  have "stored_moment (fmupd x row ev) i \<and> root_at (fmupd x row ev) i = Inr (Some r) \<longleftrightarrow>
      stored_moment ev i \<and> root_at ev i = Inr (Some r)" if "i \<in> A" for i
  proof -
    have "i \<noteq> x" using that A fresh by (auto simp: fmlookup_dom'_iff)
    note stored = stored_moment_fmupd [OF this, of row ev]
    show ?thesis
    proof (cases "stored_moment ev i")
      case True
      show ?thesis
      proof (cases "er_kind row = moment_kind")
        case False
        from root_at_other_kind [OF lin False fresh True] show ?thesis by (simp add: stored)
      next
        case moment: True
        then show ?thesis
          using not root_at_fresh [OF fresh True, of row] root_at_completed [OF fresh True _ _ moment, of r]
          by (cases "root_at ev i = Inr None") (auto simp: stored True)
      qed
    qed (simp add: stored)
  qed
  then show ?thesis unfolding rooted_def by blast
qed

lemma chain_head_fresh:
  assumes fresh: "fmlookup ev x = None" and r: "rooted (fmupd x row ev) B r"
    and not: "\<not> (er_kind row = moment_kind \<and> root_at (fmupd x row ev) x = Inr (Some r))"
    and ok: "er_kind row = moment_kind \<Longrightarrow> \<exists>y. root_at (fmupd x row ev) x = Inr y"
  shows "chain_head (fmupd x row ev) n r = chain_head ev n r"
proof (rule ccontr)
  assume "chain_head (fmupd x row ev) n r \<noteq> chain_head ev n r"
  from chain_head_fmupd [OF fresh this stops_stored [OF rooted_stops [OF r]]]
  have "er_kind row = moment_kind" "ascends (fmupd x row ev) x r" by auto
  with ascends_root [OF this(2) rooted_stops [OF r], of row MAX_CHAIN] ok not show False
    by (auto simp: root_at_def)
qed

end
