(* ===== verification/Legacy_Fold.thy ===== *)
theory Legacy_Fold
  imports Legacy_Chain
begin

text \<open>
  What one application adds to a view that projects the events applied so far, for every kind of event, and the view
  as a function of the events: two views that project the same events are the same.
\<close>

lemma fmap_eqI: "(\<And>k x. fmlookup m k = Some x \<longleftrightarrow> fmlookup n k = Some x) \<Longrightarrow> m = n"
proof (rule fmap_ext)
  fix k
  assume "\<And>k x. fmlookup m k = Some x \<longleftrightarrow> fmlookup n k = Some x"
  then show "fmlookup m k = fmlookup n k" by (metis option.exhaust)
qed

section \<open>Tables of first claims\<close>

text \<open>
  A table of claims holds, under each key, the row of the canonically earliest event that claims it. \<open>claim c i\<close> is
  the key and the row of the event \<open>i\<close> with content \<open>c\<close>.
\<close>

type_synonym ('k, 'r) claim = "event_content \<Rightarrow> hash \<Rightarrow> ('k \<times> 'r) option"

definition claims :: "('k, 'r) claim \<Rightarrow> contents \<Rightarrow> 'k \<Rightarrow> hash \<Rightarrow> bool" where
  "claims claim C k i \<longleftrightarrow> map_option fst (claim (C i) i) = Some k"

definition winners :: "('k, 'r) claim \<Rightarrow> contents \<Rightarrow> hash set \<Rightarrow> ('k, 'r) fmap \<Rightarrow> bool" where
  "winners claim C A m \<longleftrightarrow> (\<forall>k r. fmlookup m k = Some r \<longleftrightarrow> (\<exists>i. earliest C A (claims claim C k) i \<and> claim (C i) i = Some (k, r)))"

locale first_claim =
  fixes claim :: "('k, 'r) claim" and by_of :: "'r \<Rightarrow> hash" and at_of :: "'r \<Rightarrow> tick"
  assumes by_claim: "claim c i = Some (k, r) \<Longrightarrow> by_of r = i"
    and at_claim: "claim c i = Some (k, r) \<Longrightarrow> at_of r = ec_event_time c"
begin

lemma absent: "winners claim C A m \<Longrightarrow> fmlookup m k = None \<Longrightarrow> \<nexists>i. earliest C A (claims claim C k) i"
  unfolding winners_def claims_def by (auto simp: earliest_def) (metis option.distinct(1))

lemma present:
  assumes "winners claim C A m" "fmlookup m k = Some r"
  shows "earliest C A (claims claim C k) (by_of r)" "claim (C (by_of r)) (by_of r) = Some (k, r)"
    "(at_of r, by_of r) = claim_key C (by_of r)"
proof -
  from assms obtain i where i: "earliest C A (claims claim C k) i" "claim (C i) i = Some (k, r)" by (auto simp: winners_def)
  with by_claim [OF i(2)] at_claim [OF i(2)] show "earliest C A (claims claim C k) (by_of r)"
    "claim (C (by_of r)) (by_of r) = Some (k, r)" "(at_of r, by_of r) = claim_key C (by_of r)"
    by (simp_all add: claim_key_def)
qed

lemma other:
  assumes "winners claim C A m" "claim (C x) x = None"
  shows "winners claim C (insert x A) m"
  using assms unfolding winners_def by (subst earliest_insert_other) (simp_all add: claims_def)

lemma replace:
  assumes m: "winners claim C A m" and x: "claim (C x) x = Some (k, r)"
    and first: "\<And>j. earliest C (insert x A) (claims claim C k) j \<longleftrightarrow> j = x"
  shows "winners claim C (insert x A) (fmupd k r m)"
  unfolding winners_def
proof (intro allI)
  fix k' r'
  show "fmlookup (fmupd k r m) k' = Some r' \<longleftrightarrow>
    (\<exists>i. earliest C (insert x A) (claims claim C k') i \<and> claim (C i) i = Some (k', r'))"
  proof (cases "k' = k")
    case True
    then show ?thesis using first x by auto
  next
    case False
    then have "\<not> claims claim C k' x" using x by (simp add: claims_def)
    with m False show ?thesis by (simp add: earliest_insert_other winners_def)
  qed
qed

lemma keep:
  assumes m: "winners claim C A m" and x: "claim (C x) x = Some (k, r)"
    and old: "\<And>j. earliest C (insert x A) (claims claim C k) j \<longleftrightarrow> earliest C A (claims claim C k) j"
  shows "winners claim C (insert x A) m"
proof -
  have "earliest C (insert x A) (claims claim C k') j \<longleftrightarrow> earliest C A (claims claim C k') j" for j k'
    using old x by (cases "k' = k") (simp_all add: earliest_insert_other claims_def)
  with m show ?thesis by (simp add: winners_def)
qed

lemma first_write:
  assumes "winners claim C A m" "claim (C x) x = Some (k, r)" "finite A" "fmlookup m k = None"
  shows "winners claim C (insert x A) (fmupd k r m)"
  using assms absent [OF assms(1,4)] by (intro replace) (simp_all add: earliest_insert_first claims_def)

lemma earlier_write:
  assumes "winners claim C A m" "claim (C x) x = Some (k, r)" "fmlookup m k = Some s"
    "(ec_event_time (C x), x) < (at_of s, by_of s)"
  shows "winners claim C (insert x A) (fmupd k r m)"
  using assms present [OF assms(1,3)]
  by (intro replace earliest_insert_less [of C A _ "by_of s"]) (simp_all add: claims_def claim_key_def)

lemma later_keep:
  assumes "winners claim C A m" "claim (C x) x = Some (k, r)" "fmlookup m k = Some s" "x \<notin> A"
    "\<not> (ec_event_time (C x), x) < (at_of s, by_of s)"
  shows "winners claim C (insert x A) m"
proof (rule keep [OF assms(1,2)])
  note s = present [OF assms(1,3)]
  have "earliest C (insert x A) (claims claim C k) j \<longleftrightarrow> j = by_of s" for j
    using earliest_insert_keep [OF s(1), of x j] assms s by (simp add: claims_def claim_key_def)
  then show "earliest C (insert x A) (claims claim C k) j \<longleftrightarrow> earliest C A (claims claim C k) j" for j
    using s(1) earliest_unique by blast
qed

lemma rewrite: "winners claim C A m \<Longrightarrow> fmlookup m k = Some s \<Longrightarrow> x \<notin> A \<Longrightarrow> by_of s \<noteq> x"
  using present(1) [of C A m k s] by (auto simp: earliest_def)

lemma unique: "winners claim C A m \<Longrightarrow> winners claim C A n \<Longrightarrow> m = n"
  by (rule fmap_eqI) (simp add: winners_def)

end

definition entity_claim :: "(u64, entity_row) claim" where
  "entity_claim c i = (case ec_body c of EntityCreate b \<Rightarrow> Some (eb_entity_id b, entity_row_of c i b) | _ \<Rightarrow> None)"

definition vocabulary_claim :: "(u32, vocabulary_row) claim" where
  "vocabulary_claim c i = (case ec_body c of VocabularyDeclare w \<Rightarrow> Some (vo_claim_type w, vocabulary_row_of c i w) | _ \<Rightarrow> None)"

interpretation births: first_claim entity_claim en_birth_event en_birth_event_time
  by unfold_locales (auto simp: entity_claim_def entity_row_of_def split: event_body.splits)

interpretation words: first_claim vocabulary_claim vr_declared_by vr_declared_at
  by unfold_locales (auto simp: vocabulary_claim_def vocabulary_row_of_def split: event_body.splits)

section \<open>A view of a set of events\<close>

definition edges_of :: "contents \<Rightarrow> hash set \<Rightarrow> (u64, entity_row) fmap \<Rightarrow> (hash, edge_row) fmap \<Rightarrow> bool" where
  "edges_of C A ent m \<longleftrightarrow> (\<forall>i row. fmlookup m i = Some row \<longleftrightarrow>
     i \<in> A \<and> (\<exists>ed. ec_body (C i) = Edge ed \<and> row = settle ent (edge_row_of (C i) ed)))"

definition attestations_of :: "contents \<Rightarrow> hash set \<Rightarrow> (hash, hash \<times> hash) fmap \<Rightarrow> bool" where
  "attestations_of C A m \<longleftrightarrow> (\<forall>i row. fmlookup m i = Some row \<longleftrightarrow>
     i \<in> A \<and> (\<exists>a. ec_body (C i) = Attestation a \<and> row = (ab_target a, ec_author (C i))))"

definition head_row :: "(hash, event_row) fmap \<Rightarrow> contents \<Rightarrow> hash \<Rightarrow> moment_row \<Rightarrow> bool" where
  "head_row ev C r row \<longleftrightarrow> (\<exists>h m. chain_head ev MAX_CHAIN r = Inr h \<and> ec_body (C h) = Moment m \<and> row = columns_of h (C h) m)"

definition moments_of :: "(hash, event_row) fmap \<Rightarrow> contents \<Rightarrow> hash set \<Rightarrow> (hash, moment_row) fmap \<Rightarrow> bool" where
  "moments_of ev C A m \<longleftrightarrow> (\<forall>r row. fmlookup m r = Some row \<longleftrightarrow> rooted ev A r \<and> head_row ev C r row)"

text \<open>Everything but the moments.\<close>

definition core_of :: "contents \<Rightarrow> hash set \<Rightarrow> ledger_view \<Rightarrow> bool" where
  "core_of C A v \<longleftrightarrow> winners entity_claim C A (lv_entities v) \<and> winners vocabulary_claim C A (lv_vocabulary v) \<and>
     edges_of C A (lv_entities v) (lv_edges v) \<and> attestations_of C A (lv_attestations v)"

lemma head_row_unique: "head_row ev C r x \<Longrightarrow> head_row ev C r y \<Longrightarrow> x = y"
  by (auto simp: head_row_def)

lemma settled_rows: "edges_of C A ent m \<Longrightarrow> fmlookup m i = Some row \<Longrightarrow> settle ent row = row"
  by (auto simp: edges_of_def)

lemma edges_unique: "edges_of C A ent m \<Longrightarrow> edges_of C A ent n \<Longrightarrow> m = n"
  by (rule fmap_eqI) (simp add: edges_of_def)

lemma attestations_unique: "attestations_of C A m \<Longrightarrow> attestations_of C A n \<Longrightarrow> m = n"
  unfolding attestations_of_def by (rule fmap_eqI) blast

lemma moments_unique: "moments_of ev C A m \<Longrightarrow> moments_of ev C A n \<Longrightarrow> m = n"
  by (rule fmap_eqI) (simp add: moments_of_def)

lemma core_unique:
  assumes "core_of C A v" "core_of C A w"
  shows "lv_entities v = lv_entities w" "lv_vocabulary v = lv_vocabulary w" "lv_edges v = lv_edges w"
    "lv_attestations v = lv_attestations w"
proof -
  show ent: "lv_entities v = lv_entities w" using assms births.unique by (auto simp: core_of_def)
  show "lv_vocabulary v = lv_vocabulary w" using assms words.unique by (auto simp: core_of_def)
  show "lv_edges v = lv_edges w" using assms ent edges_unique by (auto simp: core_of_def)
  show "lv_attestations v = lv_attestations w" using assms attestations_unique by (auto simp: core_of_def)
qed

section \<open>Entities and vocabulary\<close>

text \<open>A write of the entity table followed by the refresh, or no change.\<close>

definition entity_change :: "ledger_view \<Rightarrow> (u64, entity_row) fmap \<Rightarrow> (hash, edge_row) fmap \<Rightarrow> ledger_view" where
  "entity_change v ent m = v\<lparr>lv_entities := ent, lv_edges := m,
     lv_stats := Some (stats_of (v\<lparr>lv_entities := ent, lv_edges := m\<rparr>))\<rparr>"

lemma entity_change_same: "counted v \<Longrightarrow> entity_change v (lv_entities v) (lv_edges v) = v"
  by (cases v) (simp add: entity_change_def counted_def)

lemma refresh_after_write:
  assumes settled: "\<And>i row. fmlookup (lv_edges v) i = Some row \<Longrightarrow> settle (lv_entities v) row = row"
    and w: "w = v\<lparr>lv_entities := fmupd e x (lv_entities v), lv_stats := st\<rparr>" "counted w"
  shows "\<exists>m. refresh_incident_edges e w = entity_change v (fmupd e x (lv_entities v)) m \<and>
    (\<forall>i. fmlookup m i = map_option (settle (fmupd e x (lv_entities v))) (fmlookup (lv_edges v) i))"
  using refresh_incident_edges_settles [of w "lv_entities v" e x] settled w
  by (auto simp: entity_change_def stats_of_def)

lemma project_entity_change:
  assumes fin: "finite A" and x: "x \<notin> A" "ec_body (C x) = EntityCreate b" and c: "core_of C A v" "counted v"
    and ok: "project_entity (C x) x b v = Inr v'"
  shows "\<exists>ent m. v' = entity_change v ent m \<and> winners entity_claim C (insert x A) ent \<and>
    (\<forall>i. fmlookup m i = map_option (settle ent) (fmlookup (lv_edges v) i))"
proof -
  let ?e = "eb_entity_id b" and ?row = "entity_row_of (C x) x b"
  let ?m = "fmupd ?e ?row (lv_entities v)"
  have ent: "winners entity_claim C A (lv_entities v)" and settled: "\<And>i row. fmlookup (lv_edges v) i = Some row \<Longrightarrow> settle (lv_entities v) row = row"
    using c(1) by (auto simp: core_of_def dest: settled_rows)
  have claim: "entity_claim (C x) x = Some (?e, ?row)" using x(2) by (simp add: entity_claim_def)
  have written: ?thesis
    if "v' = refresh_incident_edges ?e w" "w = v\<lparr>lv_entities := ?m, lv_stats := st\<rparr>" "counted w"
      "winners entity_claim C (insert x A) ?m" for w st
  proof -
    from refresh_after_write [OF _ that(2,3)] settled obtain m where "refresh_incident_edges ?e w = entity_change v ?m m"
      "\<And>i. fmlookup m i = map_option (settle ?m) (fmlookup (lv_edges v) i)" by blast
    with that(1,4) show ?thesis by blast
  qed
  show ?thesis
  proof (cases "fmlookup (lv_entities v) ?e")
    case None
    with ok have "v' = refresh_incident_edges ?e (update_stats (\<lambda>st. st\<lparr>st_entity_count := st_entity_count st + 1\<rparr>) (v\<lparr>lv_entities := ?m\<rparr>))"
      by (auto simp: project_entity_def write_entity_def guard_def rbind_def split: if_splits)
    moreover have "update_stats (\<lambda>st. st\<lparr>st_entity_count := st_entity_count st + 1\<rparr>) (v\<lparr>lv_entities := ?m\<rparr>) =
        v\<lparr>lv_entities := ?m, lv_stats := Some (stats_of (v\<lparr>lv_entities := ?m\<rparr>))\<rparr>"
      using c(2) None by (simp add: update_stats_def counted_def stats_of_def row_count_fmupd)
    ultimately show ?thesis using births.first_write [OF ent claim fin None]
      by (intro written) (auto simp: counted_def stats_of_def)
  next
    case (Some row)
    note old = births.rewrite [OF ent Some x(1)]
    show ?thesis
    proof (cases "(ec_event_time (C x), x) < (en_birth_event_time row, en_birth_event row)")
      case True
      then have "v' = refresh_incident_edges ?e (v\<lparr>lv_entities := ?m\<rparr>)"
        using ok Some old by (auto simp: project_entity_def write_entity_def guard_def rbind_def split: if_splits)
      moreover have "counted (v\<lparr>lv_entities := ?m, lv_stats := lv_stats v\<rparr>)"
        using c(2) Some by (simp add: counted_def stats_of_def row_count_fmupd)
      ultimately show ?thesis using births.earlier_write [OF ent claim Some True]
        by (intro written [of _ "lv_stats v"]) auto
    next
      case False
      then have "v' = v" using ok Some old by (auto simp: project_entity_def split: if_splits)
      with entity_change_same [OF c(2)] births.later_keep [OF ent claim Some x(1) False] settled show ?thesis
        by (intro exI [of _ "lv_entities v"] exI [of _ "lv_edges v"]) (auto simp: map_option_case split: option.split)
    qed
  qed
qed

lemma project_vocabulary_change:
  assumes fin: "finite A" and x: "x \<notin> A" "ec_body (C x) = VocabularyDeclare w" and c: "core_of C A v"
    and ok: "project_vocabulary (C x) x w v = Inr v'"
  shows "\<exists>m. v' = v\<lparr>lv_vocabulary := m\<rparr> \<and> winners vocabulary_claim C (insert x A) m"
proof -
  let ?ct = "vo_claim_type w" and ?row = "vocabulary_row_of (C x) x w"
  let ?m = "fmupd ?ct ?row (lv_vocabulary v)"
  have voc: "winners vocabulary_claim C A (lv_vocabulary v)" using c by (simp add: core_of_def)
  have claim: "vocabulary_claim (C x) x = Some (?ct, ?row)" using x(2) by (simp add: vocabulary_claim_def)
  show ?thesis
  proof (cases "fmlookup (lv_vocabulary v) ?ct")
    case None
    with ok have "v' = v\<lparr>lv_vocabulary := ?m\<rparr>"
      by (auto simp: project_vocabulary_def write_vocabulary_def guard_def split: if_splits)
    with words.first_write [OF voc claim fin None] show ?thesis by blast
  next
    case (Some row)
    note old = words.rewrite [OF voc Some x(1)]
    show ?thesis
    proof (cases "(ec_event_time (C x), x) < (vr_declared_at row, vr_declared_by row)")
      case True
      then have "v' = v\<lparr>lv_vocabulary := ?m\<rparr>"
        using ok Some old by (auto simp: project_vocabulary_def write_vocabulary_def guard_def split: if_splits)
      with words.earlier_write [OF voc claim Some True] show ?thesis by blast
    next
      case False
      then have "v' = v" using ok Some old by (auto simp: project_vocabulary_def guard_def split: if_splits)
      with words.later_keep [OF voc claim Some x(1) False] show ?thesis
        by (intro exI [of _ "lv_vocabulary v"]) simp
    qed
  qed
qed

end
