(* ===== verification/Legacy_Apply.thy ===== *)
theory Legacy_Apply
  imports Legacy_Fold
begin

text \<open>
  A ledger reached by commits projects exactly the events it stores: one application keeps the view the projection of
  the events applied, for an event that has just arrived and for a stored event that a rebuild folds in.
\<close>

section \<open>Stored rows\<close>

definition row_ok :: "crypto \<Rightarrow> event_content \<Rightarrow> hash \<Rightarrow> event_row \<Rightarrow> bool" where
  "row_ok cy c i row \<longleftrightarrow> parse_row cy row = Inr c \<and> event_id (cy_hash cy) c = Some i \<and>
     cy_verify cy (er_author row) (hash_bytes i) (er_signature row) \<and> er_kind row = kind_to_i16 (body_kind (ec_body c)) \<and>
     er_event_time row = ec_event_time c \<and> er_record_time row = ec_record_time c \<and> er_author row = ec_author c \<and>
     (er_kind row = moment_kind \<longrightarrow> er_supersedes row = ec_supersedes c)"

definition agrees :: "crypto \<Rightarrow> (hash, event_row) fmap \<Rightarrow> contents \<Rightarrow> bool" where
  "agrees cy ev C \<longleftrightarrow> (\<forall>i row. fmlookup ev i = Some row \<longrightarrow> row_ok cy (C i) i row)"

lemma agreesD: "agrees cy ev C \<Longrightarrow> fmlookup ev i = Some row \<Longrightarrow> row_ok cy (C i) i row"
  by (simp add: agrees_def)

lemma kind_is_moment: "kind_to_i16 (body_kind b) = moment_kind \<longleftrightarrow> (\<exists>m. b = Moment m)"
  by (cases b) (simp_all add: moment_kind_def)

lemma agrees_moment: "agrees cy ev C \<Longrightarrow> i \<in> fmdom' ev \<Longrightarrow> stored_moment ev i \<longleftrightarrow> (\<exists>m. ec_body (C i) = Moment m)"
proof -
  assume ag: "agrees cy ev C" and "i \<in> fmdom' ev"
  then obtain row where row: "fmlookup ev i = Some row" by (auto simp: fmlookup_dom'_iff)
  have "er_kind row = kind_to_i16 (body_kind (ec_body (C i)))" using agreesD [OF ag row] by (simp add: row_ok_def)
  then show ?thesis using row by (simp add: stored_moment_def kind_is_moment)
qed

lemma stored_moment_dom: "stored_moment ev i \<Longrightarrow> i \<in> fmdom' ev"
  by (auto simp: stored_moment_def fmlookup_dom'_iff)

lemma moment_columns_stored:
  assumes ag: "agrees cy ev C" and want: "stored_moment ev want" and i: "ec_body (C i) = Moment m"
    and ok: "moment_columns cy ev want i (C i) = Inr row"
  shows "\<exists>m. ec_body (C want) = Moment m \<and> row = columns_of want (C want) m"
proof (cases "want = i")
  case True
  with ok i show ?thesis by (simp add: moment_columns_def)
next
  case False
  obtain erow where erow: "fmlookup ev want = Some erow" using want by (auto simp: stored_moment_def)
  from agrees_moment [OF ag stored_moment_dom [OF want]] want obtain m' where m': "ec_body (C want) = Moment m'" by blast
  have same: "C want\<lparr>ec_event_time := er_event_time erow, ec_record_time := er_record_time erow, ec_author := er_author erow\<rparr> = C want"
    using agreesD [OF ag erow] by (simp add: row_ok_def)
  show ?thesis using ok False erow agreesD [OF ag erow] m'
    by (simp add: moment_columns_def rbind_def row_ok_def guard_def same)
qed

section \<open>The other projectors\<close>

lemma project_moment_change:
  assumes ag: "agrees cy ev C" and x: "x \<in> fmdom' ev" "ec_body (C x) = Moment m0" and c: "counted v"
    and ok: "project_moment cy ev (C x) x v = Inr v'"
  shows "\<exists>m. v' = v\<lparr>lv_moments := m, lv_stats := Some (stats_of (v\<lparr>lv_moments := m\<rparr>))\<rparr> \<and>
    (root_at ev x = Inr None \<and> m = lv_moments v \<or>
     (\<exists>r row. root_at ev x = Inr (Some r) \<and> head_row ev C r row \<and> m = fmupd r row (lv_moments v)))"
proof -
  obtain erow where erow: "fmlookup ev x = Some erow" using x(1) by (auto simp: fmlookup_dom'_iff)
  have stored: "stored_moment ev x" using agrees_moment [OF ag x(1)] x(2) by blast
  have root: "chain_root ev MAX_CHAIN x (ec_supersedes (C x)) = root_at ev x"
    using agreesD [OF ag erow] stored erow by (simp add: root_at_def row_ok_def stored_moment_def)
  show ?thesis
  proof (cases "root_at ev x = Inr None")
    case True
    then have "v' = v" using ok by (simp add: project_moment_def root)
    with True c show ?thesis by (intro exI [of _ "lv_moments v"]) (cases v, simp add: counted_def)
  next
    case False
    then obtain r head row where r: "root_at ev x = Inr (Some r)" "chain_head ev MAX_CHAIN r = Inr head"
      "moment_columns cy ev head x (C x) = Inr row"
      "v' = (if has (lv_moments v) r then v\<lparr>lv_moments := fmupd r row (lv_moments v)\<rparr>
        else update_stats (\<lambda>st. st\<lparr>st_moment_count := st_moment_count st + 1\<rparr>) (v\<lparr>lv_moments := fmupd r row (lv_moments v)\<rparr>))"
      using ok by (auto simp: project_moment_def root rbind_def Let_def split: sum.splits option.splits if_splits)
    have "stored_moment ev head"
      using chain_head_stored [OF r(2) stops_stored [OF root_at_stops [OF r(1) stored]]] .
    from moment_columns_stored [OF ag this x(2) r(3)] r(2) have "head_row ev C r row" by (auto simp: head_row_def)
    moreover have "v' = v\<lparr>lv_moments := fmupd r row (lv_moments v), lv_stats := Some (stats_of (v\<lparr>lv_moments := fmupd r row (lv_moments v)\<rparr>))\<rparr>"
      using r(4) c by (auto simp: has_def update_stats_def counted_def stats_of_def row_count_fmupd split: option.splits)
    ultimately show ?thesis using r(1) by blast
  qed
qed

lemma project_edge_change:
  assumes x: "x \<notin> A" "ec_body (C x) = Edge ed" and c: "edges_of C A (lv_entities v) (lv_edges v)" "counted v"
    and ok: "project_edge (C x) x ed v = Inr v'"
  shows "\<exists>m. v' = v\<lparr>lv_edges := m, lv_stats := Some (stats_of (v\<lparr>lv_edges := m\<rparr>))\<rparr> \<and> edges_of C (insert x A) (lv_entities v) m"
proof -
  let ?row = "edge_row_of (C x) ed"
  let ?w = "update_stats (\<lambda>st. st\<lparr>st_edge_count := st_edge_count st + 1\<rparr>) (v\<lparr>lv_edges := fmupd x ?row (lv_edges v)\<rparr>)"
  have new: "fmlookup (lv_edges v) x = None" using c(1) x(1) by (simp add: edges_of_def) (metis not_Some_eq)
  then have v': "v' = refresh_edge x ?w" using ok by (auto simp: project_edge_def guard_def has_def split: if_splits)
  have w: "?w = v\<lparr>lv_edges := fmupd x ?row (lv_edges v), lv_stats := Some (stats_of (v\<lparr>lv_edges := fmupd x ?row (lv_edges v)\<rparr>))\<rparr>"
    using c(2) new by (simp add: update_stats_def counted_def stats_of_def row_count_fmupd edge_row_of_def)
  have "refresh_edge x ?w = ?w\<lparr>lv_edges := fmupd x (settle (lv_entities ?w) ?row) (lv_edges ?w),
      lv_stats := Some (stats_of (?w\<lparr>lv_edges := fmupd x (settle (lv_entities ?w) ?row) (lv_edges ?w)\<rparr>))\<rparr>"
    unfolding w by (rule refresh_edge_spec) (simp_all add: counted_def stats_of_def refreshable_def edge_row_of_def)
  then have "v' = v\<lparr>lv_edges := fmupd x (settle (lv_entities v) ?row) (lv_edges v),
      lv_stats := Some (stats_of (v\<lparr>lv_edges := fmupd x (settle (lv_entities v) ?row) (lv_edges v)\<rparr>))\<rparr>"
    by (simp add: v' w stats_of_def)
  moreover have "edges_of C (insert x A) (lv_entities v) (fmupd x (settle (lv_entities v) ?row) (lv_edges v))"
    using c(1) x by (auto simp: edges_of_def)
  ultimately show ?thesis by blast
qed

lemma project_attestation_change:
  assumes x: "x \<notin> A" "ec_body (C x) = Attestation a" and c: "attestations_of C A (lv_attestations v)" "counted v"
    and ok: "project_attestation (C x) x a v = Inr v'"
  shows "\<exists>m. v' = v\<lparr>lv_attestations := m, lv_stats := Some (stats_of (v\<lparr>lv_attestations := m\<rparr>))\<rparr> \<and> attestations_of C (insert x A) m"
proof -
  let ?m = "fmupd x (ab_target a, ec_author (C x)) (lv_attestations v)"
  have new: "fmlookup (lv_attestations v) x = None" using c(1) x(1) unfolding attestations_of_def by (metis not_Some_eq)
  then have "v' = v\<lparr>lv_attestations := ?m, lv_stats := Some (stats_of (v\<lparr>lv_attestations := ?m\<rparr>))\<rparr>"
    using ok c(2) by (simp add: project_attestation_def has_def update_stats_def counted_def stats_of_def row_count_fmupd)
  moreover have "attestations_of C (insert x A) ?m" using c(1) x by (auto simp: attestations_of_def)
  ultimately show ?thesis by blast
qed

lemma edges_other:
  assumes "\<nexists>ed. ec_body (C x) = Edge ed"
  shows "edges_of C (insert x A) ent m \<longleftrightarrow> edges_of C A ent m"
proof -
  have "i \<in> insert x A \<and> (\<exists>ed. ec_body (C i) = Edge ed \<and> P ed) \<longleftrightarrow> i \<in> A \<and> (\<exists>ed. ec_body (C i) = Edge ed \<and> P ed)" for i P
    using assms by (cases "i = x") auto
  then show ?thesis by (simp only: edges_of_def)
qed

lemma attestations_other:
  assumes "\<nexists>a. ec_body (C x) = Attestation a"
  shows "attestations_of C (insert x A) m \<longleftrightarrow> attestations_of C A m"
proof -
  have "i \<in> insert x A \<and> (\<exists>a. ec_body (C i) = Attestation a \<and> P a) \<longleftrightarrow> i \<in> A \<and> (\<exists>a. ec_body (C i) = Attestation a \<and> P a)" for i P
    using assms by (cases "i = x") auto
  then show ?thesis by (simp only: attestations_of_def)
qed

lemma edges_resettle:
  "edges_of C A ent m \<Longrightarrow> (\<And>i. fmlookup n i = map_option (settle ent') (fmlookup m i)) \<Longrightarrow> edges_of C A ent' n"
proof -
  assume m: "edges_of C A ent m" and n: "\<And>i. fmlookup n i = map_option (settle ent') (fmlookup m i)"
  have "fmlookup n i = Some row \<longleftrightarrow> (\<exists>r. fmlookup m i = Some r \<and> row = settle ent' r)" for i row
    unfolding n by (cases "fmlookup m i") auto
  moreover have "fmlookup m i = Some r \<longleftrightarrow> i \<in> A \<and> (\<exists>ed. ec_body (C i) = Edge ed \<and> r = settle ent (edge_row_of (C i) ed))" for i r
    using m by (simp add: edges_of_def)
  ultimately show "edges_of C A ent' n" unfolding edges_of_def by auto
qed

section \<open>One application\<close>

definition projects :: "(hash, event_row) fmap \<Rightarrow> contents \<Rightarrow> hash set \<Rightarrow> ledger_view \<Rightarrow> bool" where
  "projects ev C A v \<longleftrightarrow> core_of C A v \<and> moments_of ev C A (lv_moments v) \<and> (if A = {} then v = empty_view else counted v)"

lemma ensure_stats_row_counted:
  "v = empty_view \<or> counted v \<Longrightarrow> counted (ensure_stats_row v)"
  by (auto simp: counted_def ensure_stats_row_def empty_view_def stats_of_def zero_stats_def)

lemma ensure_stats_row_tables [simp]:
  "lv_entities (ensure_stats_row v) = lv_entities v" "lv_vocabulary (ensure_stats_row v) = lv_vocabulary v"
  "lv_moments (ensure_stats_row v) = lv_moments v" "lv_edges (ensure_stats_row v) = lv_edges v"
  "lv_attestations (ensure_stats_row v) = lv_attestations v"
  by (simp_all add: ensure_stats_row_def split: option.split)

lemma apply_core:
  assumes ag: "agrees cy ev C" and x: "x \<in> fmdom' ev" "x \<notin> A" "finite A" and c: "core_of C A v" "v = empty_view \<or> counted v"
    and ok: "apply_event cy ev (C x) x v = Inr v'"
  shows "core_of C (insert x A) v'" and "counted v'"
    and "\<not> stored_moment ev x \<and> lv_moments v' = lv_moments v \<or>
      stored_moment ev x \<and> root_at ev x = Inr None \<and> lv_moments v' = lv_moments v \<or>
      stored_moment ev x \<and> (\<exists>r row. root_at ev x = Inr (Some r) \<and> head_row ev C r row \<and> lv_moments v' = fmupd r row (lv_moments v))"
proof -
  let ?v = "ensure_stats_row v"
  have core: "core_of C A ?v" using c(1) by (simp add: core_of_def)
  note counted = ensure_stats_row_counted [OF c(2)]
  note parts = core [unfolded core_of_def]
  have kept: "winners entity_claim C (insert x A) (lv_entities ?v)" if "entity_claim (C x) x = None"
    using births.other that parts by blast
  have kept': "winners vocabulary_claim C (insert x A) (lv_vocabulary ?v)" if "vocabulary_claim (C x) x = None"
    using words.other that parts by blast
  have eds: "edges_of C A (lv_entities ?v) (lv_edges ?v)" and ats: "attestations_of C A (lv_attestations ?v)"
    using parts by blast+
  note stored = agrees_moment [OF ag x(1)]
  have "core_of C (insert x A) v' \<and> counted v' \<and>
     (\<not> stored_moment ev x \<and> lv_moments v' = lv_moments v \<or>
      stored_moment ev x \<and> root_at ev x = Inr None \<and> lv_moments v' = lv_moments v \<or>
      stored_moment ev x \<and> (\<exists>r row. root_at ev x = Inr (Some r) \<and> head_row ev C r row \<and> lv_moments v' = fmupd r row (lv_moments v)))"
  proof (cases "ec_body (C x)")
    case (EntityCreate b)
    with ok have "project_entity (C x) x b ?v = Inr v'" by (simp add: apply_event_def Let_def)
    from project_entity_change [OF x(3,2) EntityCreate core counted this] obtain ent m where
      m: "v' = entity_change ?v ent m" "winners entity_claim C (insert x A) ent"
      "\<And>i. fmlookup m i = map_option (settle ent) (fmlookup (lv_edges ?v) i)" by blast
    have "edges_of C A ent m" using edges_resettle [OF _ m(3)] parts by blast
    with m(1,2) kept' parts EntityCreate stored show ?thesis
      by (simp add: core_of_def entity_change_def counted_def stats_of_def edges_other attestations_other vocabulary_claim_def)
  next
    case (Moment m0)
    with ok have "project_moment cy ev (C x) x ?v = Inr v'" by (simp add: apply_event_def Let_def)
    from project_moment_change [OF ag x(1) Moment counted this] obtain m where
      "v' = ?v\<lparr>lv_moments := m, lv_stats := Some (stats_of (?v\<lparr>lv_moments := m\<rparr>))\<rparr>"
      "root_at ev x = Inr None \<and> m = lv_moments ?v \<or>
       (\<exists>r row. root_at ev x = Inr (Some r) \<and> head_row ev C r row \<and> m = fmupd r row (lv_moments ?v))" by blast
    with kept kept' parts Moment stored show ?thesis
      by (auto simp: core_of_def counted_def stats_of_def edges_other attestations_other vocabulary_claim_def entity_claim_def)
  next
    case (Edge ed)
    with ok have "project_edge (C x) x ed ?v = Inr v'" by (simp add: apply_event_def Let_def)
    from project_edge_change [OF x(2) Edge eds counted this] obtain m where
      "v' = ?v\<lparr>lv_edges := m, lv_stats := Some (stats_of (?v\<lparr>lv_edges := m\<rparr>))\<rparr>"
      "edges_of C (insert x A) (lv_entities ?v) m" by blast
    with kept kept' parts Edge stored show ?thesis
      by (simp add: core_of_def counted_def stats_of_def attestations_other vocabulary_claim_def entity_claim_def)
  next
    case (Attestation a)
    with ok have "project_attestation (C x) x a ?v = Inr v'" by (simp add: apply_event_def Let_def)
    from project_attestation_change [OF x(2) Attestation ats counted this] obtain m where
      "v' = ?v\<lparr>lv_attestations := m, lv_stats := Some (stats_of (?v\<lparr>lv_attestations := m\<rparr>))\<rparr>"
      "attestations_of C (insert x A) m" by blast
    with kept kept' parts Attestation stored show ?thesis
      by (simp add: core_of_def counted_def stats_of_def edges_other vocabulary_claim_def entity_claim_def)
  next
    case (VocabularyDeclare w)
    with ok have "project_vocabulary (C x) x w ?v = Inr v'" by (simp add: apply_event_def Let_def)
    from project_vocabulary_change [OF x(3,2) VocabularyDeclare core this] obtain m where
      "v' = ?v\<lparr>lv_vocabulary := m\<rparr>" "winners vocabulary_claim C (insert x A) m" by blast
    with kept parts VocabularyDeclare stored counted show ?thesis
      by (simp add: core_of_def counted_def stats_of_def edges_other attestations_other entity_claim_def)
  qed
  then show "core_of C (insert x A) v'" and "counted v'"
    and "\<not> stored_moment ev x \<and> lv_moments v' = lv_moments v \<or>
      stored_moment ev x \<and> root_at ev x = Inr None \<and> lv_moments v' = lv_moments v \<or>
      stored_moment ev x \<and> (\<exists>r row. root_at ev x = Inr (Some r) \<and> head_row ev C r row \<and> lv_moments v' = fmupd r row (lv_moments v))"
    by auto
qed

lemma apply_projects:
  assumes ag: "agrees cy ev C" and x: "x \<in> fmdom' ev" "x \<notin> A" "finite A" and c: "core_of C A v" "v = empty_view \<or> counted v"
    and mom: "\<And>r row. \<not> (stored_moment ev x \<and> root_at ev x = Inr (Some r)) \<Longrightarrow>
      fmlookup (lv_moments v) r = Some row \<longleftrightarrow> rooted ev A r \<and> head_row ev C r row"
    and ok: "apply_event cy ev (C x) x v = Inr v'"
  shows "projects ev C (insert x A) v'"
proof -
  note step = apply_core [OF ag x c ok]
  have "fmlookup (lv_moments v') r = Some row \<longleftrightarrow> rooted ev (insert x A) r \<and> head_row ev C r row" for r row
  proof (cases "stored_moment ev x \<and> root_at ev x = Inr (Some r)")
    case True
    with step(3) obtain row' where "head_row ev C r row'" "lv_moments v' = fmupd r row' (lv_moments v)" by auto
    then show ?thesis using True head_row_unique by (auto simp: rooted_insert)
  next
    case False
    then have same: "fmlookup (lv_moments v') r = fmlookup (lv_moments v) r" using step(3) by auto
    show ?thesis unfolding same rooted_insert using mom [OF False, of row] False by blast
  qed
  then have "moments_of ev C (insert x A) (lv_moments v')" by (simp add: moments_of_def)
  with step(1,2) show ?thesis by (simp add: projects_def)
qed

lemma apply_root_ok:
  "agrees cy ev C \<Longrightarrow> x \<in> fmdom' ev \<Longrightarrow> finite A \<Longrightarrow> x \<notin> A \<Longrightarrow> core_of C A v \<Longrightarrow> v = empty_view \<or> counted v \<Longrightarrow>
    apply_event cy ev (C x) x v = Inr v' \<Longrightarrow> stored_moment ev x \<Longrightarrow> \<exists>y. root_at ev x = Inr y"
  using apply_core(3) by blast

lemma projects_pre: "projects ev C A v \<Longrightarrow> core_of C A v \<and> (v = empty_view \<or> counted v)"
  by (auto simp: projects_def split: if_splits)

lemma projects_unique: "projects ev C A v \<Longrightarrow> projects ev C A w \<Longrightarrow> v = w"
proof -
  assume v: "projects ev C A v" and w: "projects ev C A w"
  show "v = w"
  proof (cases "A = {}")
    case False
    note core = core_unique [of C A v w] and moments = moments_unique [of ev C A "lv_moments v" "lv_moments w"]
    have "core_of C A v" "core_of C A w" "moments_of ev C A (lv_moments v)" "moments_of ev C A (lv_moments w)"
      using v w by (simp_all add: projects_def)
    note same = core [OF this(1,2)] moments [OF this(3,4)]
    have "counted v" "counted w" using v w False by (simp_all add: projects_def)
    then show ?thesis by (intro ledger_view.equality) (simp_all add: same counted_def stats_of_def)
  qed (use v w in \<open>simp add: projects_def\<close>)
qed

end
