(* ===== verification/Legacy_Rebuild.thy ===== *)
theory Legacy_Rebuild
  imports Legacy_Apply
begin

text \<open>
  The ledgers that commits reach, and the rebuild of one: every stored row is one its writer gated, the view projects
  the stored events, and folding the events again in canonical order ends in the same view.
\<close>

section \<open>The ledgers commits reach\<close>

text \<open>What the constructors of \<open>Signed\<close> and \<open>AuthorKey\<close> guarantee. The tables that are no projections change as they like.\<close>

definition gated :: "crypto \<Rightarrow> signed_event \<Rightarrow> bool" where
  "gated cy s \<longleftrightarrow> content_ok (cy_key_ok cy) (se_content s) \<and> seal_event cy (se_content s) (se_signature s) = Some (Inr s)"

inductive ledger :: "crypto \<Rightarrow> tables \<Rightarrow> bool" for cy where
  genesis: "ledger cy empty_tables"
| others: "ledger cy t \<Longrightarrow> ledger cy (t\<lparr>tb_exhibits := x, tb_roots := r, tb_anchors := a\<rparr>)"
| committed: "ledger cy t \<Longrightarrow> gated cy s \<Longrightarrow> commit_event cy s prov t = Some (r, t') \<Longrightarrow> ledger cy t'"

lemma commit_event_cases:
  assumes "commit_event cy s prov t = Some (r, t')"
  obtains "t' = t"
  | payload v where "canon_event (se_content s) = Some payload" "fmlookup (tb_events t) (se_id s) = None"
    "apply_event cy (fmupd (se_id s) (event_row_of s payload prov) (tb_events t)) (se_content s) (se_id s) (tb_view t) = Inr v"
    "t' = t\<lparr>tb_events := fmupd (se_id s) (event_row_of s payload prov) (tb_events t), tb_view := v\<rparr>"
proof -
  obtain payload where p: "canon_event (se_content s) = Some payload"
    using assms by (auto simp: commit_event_def commit_in_tx_def append_event_def split: Option.bind_splits)
  let ?t = "t\<lparr>tb_events := fmupd (se_id s) (event_row_of s payload prov) (tb_events t)\<rparr>"
  show thesis
  proof (cases "append_event s prov t = Some (Inr (App_New, ?t)) \<and> fmlookup (tb_events t) (se_id s) = None")
    case True
    show thesis
    proof (cases "apply_event cy (tb_events ?t) (se_content s) (se_id s) (tb_view t)")
      case (Inl e)
      with assms True show thesis by (intro that(1)) (simp add: commit_event_def commit_in_tx_def rbind_def)
    next
      case (Inr v)
      with assms p True show thesis
        by (intro that(2)) (auto simp: commit_event_def commit_in_tx_def rbind_def)
    qed
  next
    case False
    then have "append_event s prov t = Some (Inr (App_Unioned, t)) \<or> (\<exists>e. append_event s prov t = Some (Inl e))"
      using p by (cases "fmlookup (tb_events t) (se_id s)"; cases prov) (auto simp: append_event_def guard_def has_def split: if_splits)
    with assms show thesis by (intro that(1)) (auto simp: commit_event_def commit_in_tx_def rbind_def)
  qed
qed

text \<open>The content of a stored event, read back from its row.\<close>

definition stored_content :: "event_content \<Rightarrow> event_content" where
  "stored_content c = (case ec_body c of Attestation _ \<Rightarrow> c\<lparr>ec_supersedes := None\<rparr> | _ \<Rightarrow> c)"

lemma stored_content_simps [simp]:
  "ec_body (stored_content c) = ec_body c" "ec_event_time (stored_content c) = ec_event_time c"
  "ec_record_time (stored_content c) = ec_record_time c" "ec_author (stored_content c) = ec_author c"
  by (simp_all add: stored_content_def split: event_body.split)

lemma stored_content_supersedes: "ec_body c = Moment m \<Longrightarrow> stored_content c = c"
  by (simp add: stored_content_def)

lemma canon_stored: "canon_event (stored_content c) = canon_event c"
  by (simp add: stored_content_def canon_event_def split: event_body.split)

lemma apply_stored: "apply_event cy ev (stored_content c) i v = apply_event cy ev c i v"
proof (cases "ec_body c")
  case (Attestation a)
  then show ?thesis by (simp add: apply_event_def stored_content_def project_attestation_def Let_def)
qed (simp_all add: apply_event_def stored_content_def)

lemma sealed_row_ok:
  assumes "gated cy s" "canon_event (se_content s) = Some payload"
  shows "row_ok cy (stored_content (se_content s)) (se_id s) (event_row_of s payload prov)"
proof -
  let ?c = "se_content s"
  obtain i where i: "event_id (cy_hash cy) ?c = Some i" "cy_verify cy (ec_author ?c) (hash_bytes i) (se_signature s)"
    "\<lparr>se_content = ?c, se_id = i, se_signature = se_signature s\<rparr> = s"
    using assms(1) by (auto simp: gated_def seal_event_def guard_def split: Option.bind_splits if_splits)
  from arg_cong [OF i(3), of se_id] have "i = se_id s" by simp
  with i assms(1) have ok: "content_ok (cy_key_ok cy) ?c" "event_id (cy_hash cy) ?c = Some (se_id s)"
    "cy_verify cy (ec_author ?c) (hash_bytes (se_id s)) (se_signature s)"
    by (simp_all add: gated_def)
  have reread: "reread (ec_event_time ?c) (ec_record_time ?c) (ec_author ?c) ?c = stored_content ?c"
    by (cases "ec_body ?c") (simp_all add: reread_def stored_content_def)
  have "parse_row cy (event_row_of s payload prov) = Inr (stored_content ?c)"
    using parse_canon [OF assms(2) ok(1), of "ec_event_time ?c" "ec_record_time ?c" "ec_author ?c"] ok(1)
    by (simp add: parse_row_def event_row_of_def guard_def reread content_ok_def)
  moreover have "event_id (cy_hash cy) (stored_content ?c) = Some (se_id s)" using ok(2) by (simp add: event_id_def canon_stored)
  moreover have "ec_supersedes (stored_content ?c) = ec_supersedes ?c" if "kind_to_i16 (body_kind (ec_body ?c)) = moment_kind"
    using that by (auto simp: kind_is_moment stored_content_supersedes)
  ultimately show ?thesis using ok(3) by (simp add: row_ok_def event_row_of_def)
qed

lemma row_ok_unique: "row_ok cy c i row \<Longrightarrow> row_ok cy d i row \<Longrightarrow> c = d"
  by (simp add: row_ok_def)

lemma agrees_smaller: "agrees cy (fmupd x row ev) C \<Longrightarrow> fmlookup ev x = None \<Longrightarrow> agrees cy ev C"
  unfolding agrees_def by (metis fmupd_lookup option.distinct(1))

lemma ledger_agrees: "ledger cy t \<Longrightarrow> \<exists>C. agrees cy (tb_events t) C"
proof -
  assume "ledger cy t"
  then have "\<exists>c. row_ok cy c i row" if "fmlookup (tb_events t) i = Some row" for i row using that
  proof (induction arbitrary: i row rule: ledger.induct)
    case genesis
    then show ?case by (simp add: empty_tables_def)
  next
    case (others t x r a)
    then show ?case by simp
  next
    case (committed t s prov r t')
    from committed.hyps(3) show ?case
    proof (cases rule: commit_event_cases)
      case 1
      with committed show ?thesis by blast
    next
      case (2 payload v)
      with committed.IH committed.prems sealed_row_ok [OF committed.hyps(2) 2(1), of prov] show ?thesis
        by (auto split: if_splits)
    qed
  qed
  then have "\<forall>i. \<exists>c. \<forall>row. fmlookup (tb_events t) i = Some row \<longrightarrow> row_ok cy c i row" by (metis option.inject)
  then show ?thesis unfolding agrees_def by metis
qed

lemma committed_content:
  assumes "agrees cy (fmupd (se_id s) (event_row_of s payload prov) ev) C" "gated cy s" "canon_event (se_content s) = Some payload"
  shows "C (se_id s) = stored_content (se_content s)"
  using agreesD [OF assms(1), of "se_id s"] sealed_row_ok [OF assms(2,3), of prov] by (auto intro: row_ok_unique)

lemma fmdom'_fmupd: "fmdom' (fmupd x row ev) = insert x (fmdom' ev)"
  by (auto simp: fmlookup_dom'_iff)

section \<open>The view projects the stored events\<close>

lemma arrival_projects:
  assumes fresh: "fmlookup ev x = None" and ag: "agrees cy (fmupd x row ev) C" and lin: "moment_lineage (fmupd x row ev)"
    and p: "projects ev C (fmdom' ev) v" and ok: "apply_event cy (fmupd x row ev) (C x) x v = Inr v'"
  shows "projects (fmupd x row ev) C (insert x (fmdom' ev)) v'"
proof (rule apply_projects [OF ag _ _ _ conjunct1 [OF projects_pre [OF p]] conjunct2 [OF projects_pre [OF p]] _ ok])
  let ?ev = "fmupd x row ev"
  show x: "x \<in> fmdom' ?ev" "x \<notin> fmdom' ev" "finite (fmdom' ev)" using fresh by (simp_all add: fmlookup_dom'_iff)
  have stored: "stored_moment ?ev x \<longleftrightarrow> er_kind row = moment_kind" by (simp add: stored_moment_def)
  fix r mrow
  assume "\<not> (stored_moment ?ev x \<and> root_at ?ev x = Inr (Some r))"
  then have not: "\<not> (er_kind row = moment_kind \<and> root_at ?ev x = Inr (Some r))" by (simp add: stored)
  have root: "er_kind row = moment_kind \<Longrightarrow> \<exists>y. root_at ?ev x = Inr y"
    using apply_root_ok [OF ag x(1,3,2) conjunct1 [OF projects_pre [OF p]] conjunct2 [OF projects_pre [OF p]] ok] stored by blast
  have "rooted ?ev (fmdom' ev) r \<longleftrightarrow> rooted ev (fmdom' ev) r" by (rule rooted_fresh [OF fresh order.refl lin not])
  moreover have "head_row ?ev C r mrow \<longleftrightarrow> head_row ev C r mrow" if "rooted ?ev (fmdom' ev) r"
    using chain_head_fresh [OF fresh that not root] by (simp add: head_row_def)
  moreover have "fmlookup (lv_moments v) r = Some mrow \<longleftrightarrow> rooted ev (fmdom' ev) r \<and> head_row ev C r mrow"
    using p by (simp add: projects_def moments_of_def)
  ultimately show "fmlookup (lv_moments v) r = Some mrow \<longleftrightarrow> rooted ?ev (fmdom' ev) r \<and> head_row ?ev C r mrow" by blast
qed

lemma projects_empty: "projects ev C {} empty_view"
  by (simp add: projects_def core_of_def winners_def earliest_def edges_of_def attestations_of_def moments_of_def
    rooted_def empty_view_def)

lemma ledger_projects:
  "ledger cy t \<Longrightarrow> moment_lineage (tb_events t) \<Longrightarrow> agrees cy (tb_events t) C \<Longrightarrow>
    projects (tb_events t) C (fmdom' (tb_events t)) (tb_view t)"
proof (induction rule: ledger.induct)
  case genesis
  then show ?case using projects_empty by (simp add: empty_tables_def)
next
  case (others t x r a)
  then show ?case by simp
next
  case (committed t s prov r t')
  from committed.hyps(3) show ?case
  proof (cases rule: commit_event_cases)
    case 1
    with committed show ?thesis by simp
  next
    case (2 payload v)
    let ?row = "event_row_of s payload prov"
    let ?ev = "fmupd (se_id s) ?row (tb_events t)"
    have ag: "agrees cy ?ev C" and lin: "moment_lineage ?ev" using committed.prems 2(4) by simp_all
    have p: "projects (tb_events t) C (fmdom' (tb_events t)) (tb_view t)"
      by (rule committed.IH [OF moment_lineage_smaller [OF lin 2(2)] agrees_smaller [OF ag 2(2)]])
    have "apply_event cy ?ev (C (se_id s)) (se_id s) (tb_view t) = Inr v"
      using 2(3) committed_content [OF ag committed.hyps(2) 2(1)] by (simp add: apply_stored)
    from arrival_projects [OF 2(2) ag lin p this] 2(4) show ?thesis by (simp add: fmdom'_fmupd)
  qed
qed

section \<open>What a stored event passed\<close>

text \<open>The checks of the projectors that do not depend on the view.\<close>

definition admissible :: "event_content \<Rightarrow> bool" where
  "admissible c \<longleftrightarrow> (case ec_body c of Edge ed \<Rightarrow> eg_src ed \<noteq> eg_dst ed | VocabularyDeclare w \<Rightarrow> vo_claim_type w \<noteq> 0 | _ \<Rightarrow> True)"

definition texts_ok :: "ledger_view \<Rightarrow> bool" where
  "texts_ok v \<longleftrightarrow> (\<forall>e row. fmlookup (lv_entities v) e = Some row \<longrightarrow> text_ok (en_resolution_key row) \<and> text_ok (en_canonical_name row)) \<and>
     (\<forall>ct row. fmlookup (lv_vocabulary v) ct = Some row \<longrightarrow> text_ok (vr_label row))"

lemma texts_okD:
  "texts_ok v \<Longrightarrow> fmlookup (lv_entities v) e = Some row \<Longrightarrow> text_ok (en_resolution_key row) \<and> text_ok (en_canonical_name row)"
  "texts_ok v \<Longrightarrow> fmlookup (lv_vocabulary v) ct = Some word \<Longrightarrow> text_ok (vr_label word)"
  by (auto simp: texts_ok_def)

lemma refresh_tables [simp]:
  "lv_entities (refresh_edge i v) = lv_entities v" "lv_vocabulary (refresh_edge i v) = lv_vocabulary v"
  "lv_moments (refresh_edge i v) = lv_moments v"
  by (simp_all add: refresh_edge_def update_stats_def Let_def split: option.split)

lemma fold_refresh_tables [simp]:
  "lv_entities (fold refresh_edge is v) = lv_entities v" "lv_vocabulary (fold refresh_edge is v) = lv_vocabulary v"
  "lv_moments (fold refresh_edge is v) = lv_moments v"
  by (induction "is" arbitrary: v) simp_all

lemma texts_ok_cong: "lv_entities v = lv_entities w \<Longrightarrow> lv_vocabulary v = lv_vocabulary w \<Longrightarrow> texts_ok v \<longleftrightarrow> texts_ok w"
  by (simp add: texts_ok_def)

lemma write_entity_texts: "write_entity c i b v = Inr w \<Longrightarrow> texts_ok v \<Longrightarrow> texts_ok w"
  by (auto simp: write_entity_def guard_def texts_ok_def entity_row_of_def split: if_splits)

lemma project_entity_texts:
  assumes "project_entity c i b v = Inr v'" "texts_ok v"
  shows "texts_ok v'"
proof -
  have "v' = v \<or> (\<exists>w. write_entity c i b v = Inr w \<and> lv_entities v' = lv_entities w \<and> lv_vocabulary v' = lv_vocabulary w)"
    using assms(1) by (auto simp: project_entity_def rbind_def refresh_incident_edges_def update_stats_def
      split: option.splits if_splits sum.splits)
  then show ?thesis using assms(2) write_entity_texts texts_ok_cong by metis
qed

lemma project_vocabulary_texts: "project_vocabulary c i w v = Inr v' \<Longrightarrow> texts_ok v \<Longrightarrow> texts_ok v' \<and> vo_claim_type w \<noteq> 0"
  by (auto simp: project_vocabulary_def write_vocabulary_def guard_def texts_ok_def vocabulary_row_of_def
    split: option.splits if_splits)

lemma project_moment_tables:
  "project_moment cy ev c i v = Inr v' \<Longrightarrow> lv_entities v' = lv_entities v \<and> lv_vocabulary v' = lv_vocabulary v"
  by (auto simp: project_moment_def rbind_def Let_def update_stats_def split: sum.splits option.splits if_splits)

lemma project_edge_tables:
  "project_edge c i ed v = Inr v' \<Longrightarrow> lv_entities v' = lv_entities v \<and> lv_vocabulary v' = lv_vocabulary v \<and> eg_src ed \<noteq> eg_dst ed"
  by (auto simp: project_edge_def guard_def update_stats_def split: if_splits)

lemma project_attestation_tables:
  "project_attestation c i a v = Inr v' \<Longrightarrow> lv_entities v' = lv_entities v \<and> lv_vocabulary v' = lv_vocabulary v"
  by (auto simp: project_attestation_def update_stats_def split: if_splits)

lemma apply_texts:
  assumes "apply_event cy ev c i v = Inr v'" "texts_ok v"
  shows "texts_ok v' \<and> admissible c"
proof -
  let ?v = "ensure_stats_row v"
  have v: "texts_ok ?v" using assms(2) texts_ok_cong [of ?v v] by simp
  show ?thesis
  proof (cases "ec_body c")
    case (EntityCreate b)
    with assms(1) v project_entity_texts [of c i b ?v v'] show ?thesis by (simp add: apply_event_def Let_def admissible_def)
  next
    case (Moment m)
    with assms(1) v project_moment_tables [of cy ev c i ?v v'] texts_ok_cong [of v' ?v] show ?thesis
      by (simp add: apply_event_def Let_def admissible_def)
  next
    case (Edge ed)
    with assms(1) v project_edge_tables [of c i ed ?v v'] texts_ok_cong [of v' ?v] show ?thesis
      by (simp add: apply_event_def Let_def admissible_def)
  next
    case (Attestation a)
    with assms(1) v project_attestation_tables [of c i a ?v v'] texts_ok_cong [of v' ?v] show ?thesis
      by (simp add: apply_event_def Let_def admissible_def)
  next
    case (VocabularyDeclare w)
    with assms(1) v project_vocabulary_texts [of c i w ?v v'] show ?thesis by (simp add: apply_event_def Let_def admissible_def)
  qed
qed

lemma ledger_texts:
  "ledger cy t \<Longrightarrow> agrees cy (tb_events t) C \<Longrightarrow> texts_ok (tb_view t) \<and> (\<forall>i\<in>fmdom' (tb_events t). admissible (C i))"
proof (induction rule: ledger.induct)
  case genesis
  then show ?case by (simp add: empty_tables_def empty_view_def texts_ok_def)
next
  case (others t x r a)
  then show ?case by simp
next
  case (committed t s prov r t')
  from committed.hyps(3) show ?case
  proof (cases rule: commit_event_cases)
    case 1
    with committed show ?thesis by simp
  next
    case (2 payload v)
    have ag: "agrees cy (fmupd (se_id s) (event_row_of s payload prov) (tb_events t)) C" using committed.prems 2(4) by simp
    note ih = committed.IH [OF agrees_smaller [OF ag 2(2)]]
    have "admissible (C (se_id s)) \<longleftrightarrow> admissible (se_content s)"
      using committed_content [OF ag committed.hyps(2) 2(1)] by (simp add: admissible_def)
    with apply_texts [OF 2(3)] ih 2(4) show ?thesis by (simp add: fmdom'_fmupd)
  qed
qed

end
