(* ===== verification/Legacy_Properties.thy ===== *)
theory Legacy_Properties
  imports Legacy_Rebuild
begin

text \<open>
  Properties of the v0 ledger: the counters count, equal event sets give equal views, re-applying changes nothing, a
  rebuild reproduces the view, and the one order of arrival that breaks all three.
\<close>

section \<open>Folding the events again\<close>

text \<open>Both walks of every stored moment end within \<^const>\<open>MAX_CHAIN\<close> steps.\<close>

definition walks_end :: "(hash, event_row) fmap \<Rightarrow> hash \<Rightarrow> bool" where
  "walks_end ev i \<longleftrightarrow> (er_kind (the (fmlookup ev i)) = moment_kind \<longrightarrow> (case root_at ev i of Inl _ \<Rightarrow> False | Inr None \<Rightarrow> True
     | Inr (Some r) \<Rightarrow> \<not> isl (chain_head ev MAX_CHAIN r)))"

definition chains_bounded :: "(hash, event_row) fmap \<Rightarrow> bool" where
  "chains_bounded ev \<longleftrightarrow> (\<forall>i\<in>fmdom' ev. walks_end ev i)"

definition chain_too_long :: ledger_error where
  "chain_too_long = LE_Corruption ''supersedes chain exceeds MAX_CHAIN''"

lemma chain_root_error: "chain_root ev n i par = Inl e \<Longrightarrow> e = chain_too_long"
  by (induction ev n i par rule: chain_root.induct) (auto simp: chain_too_long_def split: option.splits if_splits)

lemma chain_head_error: "chain_head ev n r = Inl e \<Longrightarrow> e = chain_too_long"
  by (induction ev n r rule: chain_head.induct) (auto simp: chain_too_long_def split: option.splits)

lemma project_moment_folds:
  assumes ag: "agrees cy ev C" and x: "x \<in> fmdom' ev" "ec_body (C x) = Moment m0"
  shows "if walks_end ev x then \<exists>v'. project_moment cy ev (C x) x v = Inr v'
    else project_moment cy ev (C x) x v = Inl chain_too_long"
proof -
  obtain erow where erow: "fmlookup ev x = Some erow" using x(1) by (auto simp: fmlookup_dom'_iff)
  have stored: "stored_moment ev x" using agrees_moment [OF ag x(1)] x(2) by blast
  then have kind: "er_kind (the (fmlookup ev x)) = moment_kind" by (auto simp: stored_moment_def)
  have root: "chain_root ev MAX_CHAIN x (ec_supersedes (C x)) = root_at ev x"
    using agreesD [OF ag erow] kind erow by (simp add: root_at_def row_ok_def)
  show ?thesis
  proof (cases "root_at ev x")
    case (Inl e)
    with chain_root_error [of ev MAX_CHAIN x _ e] kind show ?thesis
      by (simp add: walks_end_def project_moment_def root rbind_def) (simp add: root_at_def)
  next
    case (Inr y)
    show ?thesis
    proof (cases y)
      case None
      with Inr show ?thesis by (simp add: walks_end_def project_moment_def root)
    next
      case (Some r)
      note r = Inr [unfolded Some]
      show ?thesis
      proof (cases "chain_head ev MAX_CHAIN r")
        case (Inl e)
        with chain_head_error [OF Inl] r kind show ?thesis by (simp add: walks_end_def project_moment_def root rbind_def)
      next
        case (Inr h)
        have "stored_moment ev h" using chain_head_stored [OF Inr stops_stored [OF root_at_stops [OF r stored]]] .
        then obtain hrow where hrow: "fmlookup ev h = Some hrow" by (auto simp: stored_moment_def)
        obtain mh where "ec_body (C h) = Moment mh"
          using agrees_moment [OF ag stored_moment_dom [OF \<open>stored_moment ev h\<close>]] \<open>stored_moment ev h\<close> by blast
        then have "\<exists>row. moment_columns cy ev h x (C x) = Inr row"
          using agreesD [OF ag hrow] hrow x(2) by (simp add: moment_columns_def row_ok_def guard_def)
        with Inr r kind show ?thesis by (auto simp: walks_end_def project_moment_def root Let_def)
      qed
    qed
  qed
qed

text \<open>
  A state of the fold: the events applied come before the others, and the target view has the row of every first claim.
\<close>

lemma project_entity_folds:
  assumes w: "winners entity_claim C A (lv_entities v)" "winners entity_claim C D (lv_entities target)" "texts_ok target"
    and x: "ec_body (C x) = EntityCreate b" "x \<in> D" "finite A"
    and order: "\<And>j. j \<in> A \<Longrightarrow> claim_key C j < claim_key C x" "\<And>j. j \<in> D - A \<Longrightarrow> claim_key C x \<le> claim_key C j"
  shows "\<exists>v'. project_entity (C x) x b v = Inr v'"
proof (cases "fmlookup (lv_entities v) (eb_entity_id b)")
  case (Some row)
  note old = births.present [OF w(1) Some]
  then have "claim_key C (en_birth_event row) < claim_key C x" using order(1) by (simp add: earliest_def)
  then have "\<not> (ec_event_time (C x), x) < (en_birth_event_time row, en_birth_event row)"
    unfolding old(3) by (simp only: claim_key_def [symmetric] not_less less_imp_le)
  with Some show ?thesis by (simp only: project_entity_def option.case if_False) (simp split: if_splits)
next
  case None
  have claim: "claims entity_claim C (eb_entity_id b) x" using x(1) by (simp add: claims_def entity_claim_def)
  have "\<not> claims entity_claim C (eb_entity_id b) j" if "j \<in> A" for j
    using births.absent [OF w(1) None] earliest_exists [OF x(3) that, of "claims entity_claim C (eb_entity_id b)" C] by blast
  then have "earliest C D (claims entity_claim C (eb_entity_id b)) x"
    using claim x(2) order(2) unfolding earliest_def by blast
  then have "fmlookup (lv_entities target) (eb_entity_id b) = Some (entity_row_of (C x) x b)"
    using w(2) x(1) unfolding winners_def entity_claim_def by force
  from texts_okD(1) [OF w(3) this] have "text_ok (eb_resolution_key b)" "text_ok (eb_canonical_name b)"
    by (simp_all add: entity_row_of_def)
  with None show ?thesis by (simp add: project_entity_def write_entity_def guard_def rbind_def)
qed

lemma project_vocabulary_folds:
  assumes w: "winners vocabulary_claim C A (lv_vocabulary v)" "winners vocabulary_claim C D (lv_vocabulary target)" "texts_ok target"
    and x: "ec_body (C x) = VocabularyDeclare b" "x \<in> D" "finite A" "vo_claim_type b \<noteq> 0"
    and order: "\<And>j. j \<in> A \<Longrightarrow> claim_key C j < claim_key C x" "\<And>j. j \<in> D - A \<Longrightarrow> claim_key C x \<le> claim_key C j"
  shows "\<exists>v'. project_vocabulary (C x) x b v = Inr v'"
proof (cases "fmlookup (lv_vocabulary v) (vo_claim_type b)")
  case (Some row)
  note old = words.present [OF w(1) Some]
  then have "claim_key C (vr_declared_by row) < claim_key C x" using order(1) by (simp add: earliest_def)
  then have "\<not> (ec_event_time (C x), x) < (vr_declared_at row, vr_declared_by row)"
    unfolding old(3) by (simp only: claim_key_def [symmetric] not_less less_imp_le)
  with Some x(4) show ?thesis by (simp only: project_vocabulary_def option.case if_False guard_def) (simp split: if_splits)
next
  case None
  have claim: "claims vocabulary_claim C (vo_claim_type b) x" using x(1) by (simp add: claims_def vocabulary_claim_def)
  have "\<not> claims vocabulary_claim C (vo_claim_type b) j" if "j \<in> A" for j
    using words.absent [OF w(1) None] earliest_exists [OF x(3) that, of "claims vocabulary_claim C (vo_claim_type b)" C] by blast
  then have "earliest C D (claims vocabulary_claim C (vo_claim_type b)) x"
    using claim x(2) order(2) unfolding earliest_def by blast
  then have "fmlookup (lv_vocabulary target) (vo_claim_type b) = Some (vocabulary_row_of (C x) x b)"
    using w(2) x(1) unfolding winners_def vocabulary_claim_def by force
  from texts_okD(2) [OF w(3) this] have "text_ok (vo_label b)" by (simp add: vocabulary_row_of_def)
  with None x(4) show ?thesis by (simp add: project_vocabulary_def write_vocabulary_def guard_def)
qed

lemma apply_folds:
  assumes ag: "agrees cy ev C" and x: "x \<in> fmdom' ev" "admissible (C x)" "finite A" and c: "core_of C A v"
    and target: "core_of C (fmdom' ev) target" "texts_ok target"
    and order: "\<And>j. j \<in> A \<Longrightarrow> claim_key C j < claim_key C x" "\<And>j. j \<in> fmdom' ev - A \<Longrightarrow> claim_key C x \<le> claim_key C j"
  shows "if walks_end ev x then \<exists>v'. apply_event cy ev (C x) x v = Inr v' else apply_event cy ev (C x) x v = Inl chain_too_long"
proof (cases "ec_body (C x)")
  case (Moment m)
  with project_moment_folds [OF ag x(1) Moment] show ?thesis by (simp add: apply_event_def Let_def)
next
  case (EntityCreate b)
  have "walks_end ev x" using agrees_moment [OF ag x(1)] x(1) EntityCreate
    by (auto simp: walks_end_def stored_moment_def fmlookup_dom'_iff)
  moreover have "\<exists>v'. project_entity (C x) x b (ensure_stats_row v) = Inr v'"
    using c target by (intro project_entity_folds [OF _ _ target(2) EntityCreate x(1,3) order]) (simp_all add: core_of_def)
  ultimately show ?thesis using EntityCreate by (simp add: apply_event_def Let_def)
next
  case (VocabularyDeclare w)
  have "walks_end ev x" using agrees_moment [OF ag x(1)] x(1) VocabularyDeclare
    by (auto simp: walks_end_def stored_moment_def fmlookup_dom'_iff)
  moreover have "vo_claim_type w \<noteq> 0" using x(2) VocabularyDeclare by (simp add: admissible_def)
  then have "\<exists>v'. project_vocabulary (C x) x w (ensure_stats_row v) = Inr v'"
    using c target by (intro project_vocabulary_folds [OF _ _ target(2) VocabularyDeclare x(1,3) _ order]) (simp_all add: core_of_def)
  ultimately show ?thesis using VocabularyDeclare by (simp add: apply_event_def Let_def)
next
  case (Edge ed)
  have "walks_end ev x" using agrees_moment [OF ag x(1)] x(1) Edge
    by (auto simp: walks_end_def stored_moment_def fmlookup_dom'_iff)
  with Edge x(2) show ?thesis by (simp add: apply_event_def Let_def project_edge_def guard_def admissible_def)
next
  case (Attestation a)
  have "walks_end ev x" using agrees_moment [OF ag x(1)] x(1) Attestation
    by (auto simp: walks_end_def stored_moment_def fmlookup_dom'_iff)
  with Attestation show ?thesis by (simp add: apply_event_def Let_def project_attestation_def)
qed

lemma rebuild_row_stored:
  "agrees cy ev C \<Longrightarrow> x \<in> fmdom' ev \<Longrightarrow> rebuild_row cy ev x v = apply_event cy ev (C x) x v"
  by (auto simp: rebuild_row_def Let_def guard_def rbind_def row_ok_def fmlookup_dom'_iff dest!: agreesD)

lemma rebuild_rows_folds:
  assumes ag: "agrees cy ev C" and target: "core_of C (fmdom' ev) target" "texts_ok target" and ok: "\<forall>i\<in>fmdom' ev. admissible (C i)"
    and sorted: "sorted_wrt (<) (map (claim_key C) is)"
    and A: "fmdom' ev = A \<union> set is" "A \<inter> set is = {}" "\<And>j i. j \<in> A \<Longrightarrow> i \<in> set is \<Longrightarrow> claim_key C j < claim_key C i"
    and p: "projects ev C A v"
  shows "if list_all (walks_end ev) is then \<exists>v'. rebuild_rows cy ev is v = Inr v' \<and> projects ev C (fmdom' ev) v'
    else rebuild_rows cy ev is v = Inl chain_too_long"
  using sorted A p
proof (induction "is" arbitrary: A v)
  case Nil
  then show ?case by simp
next
  case (Cons x "is")
  have x: "x \<in> fmdom' ev" "x \<notin> A" using Cons.prems(2,3) by auto
  have fin: "finite A" by (rule finite_subset [of _ "fmdom' ev"]) (use Cons.prems(2) in auto)
  note pre = projects_pre [OF Cons.prems(5)]
  have later: "claim_key C x \<le> claim_key C j" if "j \<in> fmdom' ev - A" for j
    using that Cons.prems(1,2) by auto
  have "if walks_end ev x then \<exists>v'. apply_event cy ev (C x) x v = Inr v' else apply_event cy ev (C x) x v = Inl chain_too_long"
    using apply_folds [OF ag x(1) bspec [OF ok x(1)] fin conjunct1 [OF pre] target _ later] Cons.prems(4) by simp
  then consider v' where "walks_end ev x" "apply_event cy ev (C x) x v = Inr v'"
    | "\<not> walks_end ev x" "apply_event cy ev (C x) x v = Inl chain_too_long" by (auto split: if_splits)
  then show ?case
  proof cases
    case 1
    have mom: "fmlookup (lv_moments v) r = Some row \<longleftrightarrow> rooted ev A r \<and> head_row ev C r row" for r row
      using Cons.prems(5) by (simp add: projects_def moments_of_def)
    have p: "projects ev C (insert x A) v'"
      by (rule apply_projects [OF ag x fin conjunct1 [OF pre] conjunct2 [OF pre] mom 1(2)])
    have "if list_all (walks_end ev) is then \<exists>v''. rebuild_rows cy ev is v' = Inr v'' \<and> projects ev C (fmdom' ev) v''
        else rebuild_rows cy ev is v' = Inl chain_too_long"
      using Cons.prems(1-4) x(2) by (intro Cons.IH [OF _ _ _ _ p]) auto
    with 1 show ?thesis by (simp add: rebuild_row_stored [OF ag x(1)])
  next
    case 2
    then show ?thesis by (simp add: rebuild_row_stored [OF ag x(1)])
  qed
qed

lemma fold_order_keys:
  assumes "agrees cy ev C"
  shows "map (claim_key C) (map snd (fold_order ev)) = fold_order ev" "set (map snd (fold_order ev)) = fmdom' ev"
proof -
  have time: "er_event_time (the (fmlookup ev i)) = ec_event_time (C i)" if "i \<in> fmdom' ev" for i
    using that agreesD [OF assms] by (auto simp: fmlookup_dom'_iff row_ok_def)
  then have keys: "(\<lambda>i. (er_event_time (the (fmlookup ev i)), i)) ` fmdom' ev = claim_key C ` fmdom' ev"
    by (intro image_cong) (simp_all add: claim_key_def)
  then have set: "set (fold_order ev) = claim_key C ` fmdom' ev" by (simp add: fold_order_def)
  then show "map (claim_key C) (map snd (fold_order ev)) = fold_order ev"
    by (auto simp: claim_key_def intro!: map_idI)
  from set show "set (map snd (fold_order ev)) = fmdom' ev" by (auto simp: claim_key_def image_iff)
qed

lemma rebuild_rows_all:
  assumes led: "ledger cy t" "moment_lineage (tb_events t)"
  shows "rebuild_rows cy (tb_events t) (map snd (fold_order (tb_events t))) empty_view =
    (if chains_bounded (tb_events t) then Inr (tb_view t) else Inl chain_too_long)"
proof -
  let ?ev = "tb_events t" and ?is = "map snd (fold_order (tb_events t))"
  obtain C where ag: "agrees cy ?ev C" using ledger_agrees [OF led(1)] by blast
  note p = ledger_projects [OF led ag]
  note keys = fold_order_keys [OF ag]
  have "sorted_wrt (<) (map (claim_key C) ?is)" unfolding keys(1) by (simp add: fold_order_def)
  from rebuild_rows_folds [OF ag conjunct1 [OF projects_pre [OF p]] conjunct1 [OF ledger_texts [OF led(1) ag]]
      conjunct2 [OF ledger_texts [OF led(1) ag]] this, of "{}" empty_view] keys(2) projects_empty
  have "if list_all (walks_end ?ev) ?is then \<exists>v'. rebuild_rows cy ?ev ?is empty_view = Inr v' \<and> projects ?ev C (fmdom' ?ev) v'
      else rebuild_rows cy ?ev ?is empty_view = Inl chain_too_long" by simp
  moreover have "list_all (walks_end ?ev) ?is \<longleftrightarrow> chains_bounded ?ev"
    by (simp only: list_all_iff keys(2) chains_bounded_def)
  ultimately show ?thesis using projects_unique [OF _ p] by (auto split: if_splits)
qed

end
