(* ===== verification/Legacy_Results.thy ===== *)
theory Legacy_Results
  imports Legacy_Properties
begin

text \<open>
  Properties of the v0 ledger: the counters count and every edge is settled, the earliest claim wins, equal event sets
  give equal views, re-applying changes nothing, a rebuild reproduces the view, and the one order of arrival that
  breaks the last three.
\<close>

section \<open>Counters and claims\<close>

lemma core_view: "ledger cy t \<Longrightarrow> agrees cy (tb_events t) C \<Longrightarrow>
    core_of C (fmdom' (tb_events t)) (tb_view t) \<and>
    (if fmdom' (tb_events t) = {} then tb_view t = empty_view else counted (tb_view t))"
proof (induction rule: ledger.induct)
  case genesis
  then show ?case using projects_empty by (simp add: empty_tables_def projects_def)
next
  case (others t x r a)
  then show ?case by simp
next
  case (committed t s prov r t')
  from committed.hyps(3) show ?case
  proof (cases rule: commit_event_cases)
    case 1
    with committed show ?thesis by simp
  next
    case (2 payload v)
    let ?ev = "fmupd (se_id s) (event_row_of s payload prov) (tb_events t)"
    have ag: "agrees cy ?ev C" using committed.prems 2(4) by simp
    note ih = committed.IH [OF agrees_smaller [OF ag 2(2)]]
    have pre: "core_of C (fmdom' (tb_events t)) (tb_view t)" "tb_view t = empty_view \<or> counted (tb_view t)"
      using ih by (auto split: if_splits)
    have x: "se_id s \<in> fmdom' ?ev" "se_id s \<notin> fmdom' (tb_events t)" using 2(2) by (simp_all add: fmlookup_dom'_iff)
    have "apply_event cy ?ev (C (se_id s)) (se_id s) (tb_view t) = Inr v"
      using 2(3) committed_content [OF ag committed.hyps(2) 2(1)] by (simp add: apply_stored)
    from apply_core(1,2) [OF ag x _ pre this] 2(4) show ?thesis by (simp add: fmdom'_fmupd)
  qed
qed

text \<open>
  C16: the counters of the v0 ledger count. In every ledger that commits reach, \<open>ledger_stats\<close> holds the number
  of entities, moments, edges, attestations, joined edges and cross-writer edges in the tables, and every edge
  row is joined exactly when both its endpoints exist, and cross-writer exactly when their asserters differ.
\<close>

theorem ledger_counters_exact:
  assumes "ledger cy t" "fmlookup (tb_events t) x = Some erow"
  shows "lv_stats (tb_view t) = Some (stats_of (tb_view t)) \<and>
    (\<forall>i row. fmlookup (lv_edges (tb_view t)) i = Some row \<longrightarrow> settle (lv_entities (tb_view t)) row = row)"
proof -
  obtain C where ag: "agrees cy (tb_events t) C" using ledger_agrees [OF assms(1)] by blast
  have "fmdom' (tb_events t) \<noteq> {}" using assms(2) fmlookup_dom'_iff by (metis empty_iff)
  with core_view [OF assms(1) ag] have core: "core_of C (fmdom' (tb_events t)) (tb_view t)" and counted: "counted (tb_view t)"
    by simp_all
  show ?thesis
  proof (intro conjI allI impI)
    show "lv_stats (tb_view t) = Some (stats_of (tb_view t))" using counted by (simp add: counted_def)
    show "settle (lv_entities (tb_view t)) row = row" if "fmlookup (lv_edges (tb_view t)) i = Some row" for i row
      using settled_rows [OF _ that] core unfolding core_of_def by blast
  qed
qed

definition content_at :: "crypto \<Rightarrow> (hash, event_row) fmap \<Rightarrow> contents" where
  "content_at cy ev i = projr (parse_row cy (the (fmlookup ev i)))"

lemma content_at_agrees: "agrees cy ev C \<Longrightarrow> agrees cy ev (content_at cy ev)"
proof -
  assume ag: "agrees cy ev C"
  have "content_at cy ev i = C i" if "fmlookup ev i = Some row" for i row
    using agreesD [OF ag that] that by (simp add: content_at_def row_ok_def)
  with ag show ?thesis by (simp add: agrees_def)
qed

text \<open>
  C17: the canonically earliest claim wins, whatever the order of arrival. The entity row of an id is the row of
  the stored birth of that id with the least \<open>(event_time, event_id)\<close>, an id with no birth has no row, and the
  same for the vocabulary entry of a claim type.
\<close>

theorem first_claim_wins:
  assumes "ledger cy t"
  shows "winners entity_claim (content_at cy (tb_events t)) (fmdom' (tb_events t)) (lv_entities (tb_view t)) \<and>
    winners vocabulary_claim (content_at cy (tb_events t)) (fmdom' (tb_events t)) (lv_vocabulary (tb_view t))"
proof -
  obtain C where "agrees cy (tb_events t) C" using ledger_agrees [OF assms] by blast
  from core_view [OF assms content_at_agrees [OF this]] show ?thesis unfolding core_of_def by blast
qed

section \<open>Convergence\<close>

text \<open>An event row without the envelope columns that say where the writer learned the claim.\<close>

definition bare :: "event_row \<Rightarrow> event_row" where
  "bare row = row\<lparr>er_provenance := None\<rparr>"

lemma bare_simps [simp]:
  "er_kind (bare r) = er_kind r" "er_author (bare r) = er_author r" "er_signature (bare r) = er_signature r"
  "er_event_time (bare r) = er_event_time r" "er_record_time (bare r) = er_record_time r"
  "er_payload (bare r) = er_payload r" "er_supersedes (bare r) = er_supersedes r"
  by (simp_all add: bare_def)

lemma agrees_bare: "agrees cy (fmmap bare ev) C \<longleftrightarrow> agrees cy ev C"
proof -
  have "row_ok cy c i (bare row) \<longleftrightarrow> row_ok cy c i row" for c i row by (simp add: row_ok_def parse_row_def)
  then have "agrees cy (fmmap bare ev) C \<longleftrightarrow> (\<forall>i. \<forall>row \<in> set_option (fmlookup ev i). row_ok cy (C i) i row)" by (force simp: agrees_def)
  also have "\<dots> \<longleftrightarrow> agrees cy ev C" by (auto simp: agrees_def elem_set)
  finally show ?thesis .
qed

lemma chain_root_bare: "chain_root (fmmap bare ev) n i par = chain_root ev n i par"
  by (induction ev n i par rule: chain_root.induct) (auto split: option.split)

lemma children_bare: "children (fmmap bare ev) c = children ev c"
  unfolding children_def by (intro image_cong) (auto simp: fmlookup_dom'_iff)

lemma chain_head_bare: "chain_head (fmmap bare ev) n r = chain_head ev n r"
  by (induction n arbitrary: r) (simp_all add: first_child_def children_bare split: option.split)

lemma rooted_bare: "A \<subseteq> fmdom' ev \<Longrightarrow> rooted (fmmap bare ev) A r \<longleftrightarrow> rooted ev A r"
proof -
  assume A: "A \<subseteq> fmdom' ev"
  have "stored_moment (fmmap bare ev) i \<and> root_at (fmmap bare ev) i = x \<longleftrightarrow> stored_moment ev i \<and> root_at ev i = x"
    if "i \<in> A" for i x
    using that A by (auto simp: stored_moment_def root_at_def chain_root_bare fmlookup_dom'_iff dest!: subsetD)
  then show ?thesis unfolding rooted_def by blast
qed

lemma projects_bare: "projects (fmmap bare ev) C (fmdom' ev) v \<longleftrightarrow> projects ev C (fmdom' ev) v"
  by (simp add: projects_def moments_of_def rooted_bare head_row_def chain_head_bare)

text \<open>
  C14: the v0 ledger converges. Two ledgers that stored the same events, whatever the order they arrived in and
  whatever archive each writer had read, hold the same entities, vocabulary, moments, edges, attestations
  and counters, provided that no stored moment supersedes a stored event of another kind.
\<close>

theorem ledger_converges:
  assumes "ledger cy t" "ledger cy u" "fmmap bare (tb_events t) = fmmap bare (tb_events u)"
    "moment_lineage (tb_events t)" "moment_lineage (tb_events u)"
  shows "tb_view t = tb_view u"
proof -
  obtain C where ag: "agrees cy (tb_events t) C" using ledger_agrees [OF assms(1)] by blast
  then have ag': "agrees cy (tb_events u) C" using agrees_bare assms(3) by metis
  have dom: "fmdom' (tb_events t) = fmdom' (tb_events u)" using assms(3) by (metis fmdom'_map)
  have "projects (fmmap bare (tb_events t)) C (fmdom' (tb_events t)) (tb_view t)"
    "projects (fmmap bare (tb_events t)) C (fmdom' (tb_events t)) (tb_view u)"
    using ledger_projects [OF assms(1,4) ag] ledger_projects [OF assms(2,5) ag'] dom assms(3) projects_bare by metis+
  then show ?thesis by (rule projects_unique)
qed

section \<open>Applying again\<close>

lemma apply_again:
  assumes ag: "agrees cy ev C" and p: "projects ev C A v" and x: "x \<in> A" "x \<in> fmdom' ev" "finite A"
    and ok: "apply_event cy ev (C x) x v = Inr v'"
  shows "v' = v"
proof -
  have "A \<noteq> {}" using x(1) by blast
  then have core: "core_of C A v" and counted: "counted v" using p by (simp_all add: projects_def)
  then have v: "ensure_stats_row v = v" by (simp add: ensure_stats_row_def counted_def)
  note parts = core [unfolded core_of_def]
  show ?thesis
  proof (cases "ec_body (C x)")
    case (EntityCreate b)
    let ?P = "claims entity_claim C (eb_entity_id b)"
    have P: "?P x" using EntityCreate by (simp add: claims_def entity_claim_def)
    show ?thesis
    proof (cases "fmlookup (lv_entities v) (eb_entity_id b)")
      case None
      from births.absent [OF conjunct1 [OF parts] None] earliest_exists [of A x ?P C, OF x(3,1) P] show ?thesis by blast
    next
      case (Some row)
      from births.present [OF conjunct1 [OF parts] Some] have "\<not> (ec_event_time (C x), x) < (en_birth_event_time row, en_birth_event row)"
        using P x(1) by (auto simp only: earliest_def claim_key_def [symmetric] not_less)
      then show ?thesis using ok Some EntityCreate v
        by (simp only: apply_event_def Let_def project_entity_def) (simp split: if_splits)
    qed
  next
    case (Moment m)
    with ok v have "project_moment cy ev (C x) x v = Inr v'" by (simp add: apply_event_def Let_def)
    from project_moment_change [OF ag x(2) Moment counted this] obtain m' where
      m': "v' = v\<lparr>lv_moments := m', lv_stats := Some (stats_of (v\<lparr>lv_moments := m'\<rparr>))\<rparr>"
      "root_at ev x = Inr None \<and> m' = lv_moments v \<or>
       (\<exists>r row. root_at ev x = Inr (Some r) \<and> head_row ev C r row \<and> m' = fmupd r row (lv_moments v))" by blast
    have stored: "stored_moment ev x" using agrees_moment [OF ag x(2)] Moment by blast
    have "m' = lv_moments v"
    proof (cases "root_at ev x = Inr None")
      case False
      with m'(2) obtain r row where r: "root_at ev x = Inr (Some r)" "head_row ev C r row" "m' = fmupd r row (lv_moments v)" by blast
      have "fmlookup (lv_moments v) r = Some row"
        using p r(1,2) stored x(1) unfolding projects_def moments_of_def rooted_def by blast
      then show ?thesis unfolding r(3) by (intro fmap_ext) auto
    qed (use m'(2) in auto)
    with m'(1) counted show ?thesis by (intro ledger_view.equality) (simp_all add: counted_def stats_of_def)
  next
    case (Edge ed)
    have "has (lv_edges v) x"
      using parts Edge x(1) unfolding edges_of_def has_def by (metis option.case_eq_if option.discI)
    with ok v Edge show ?thesis by (auto simp: apply_event_def Let_def project_edge_def guard_def split: if_splits)
  next
    case (Attestation a)
    have "has (lv_attestations v) x"
      using parts Attestation x(1) unfolding attestations_of_def has_def by (metis option.case_eq_if option.discI)
    with ok v Attestation show ?thesis by (simp add: apply_event_def Let_def project_attestation_def)
  next
    case (VocabularyDeclare w)
    let ?P = "claims vocabulary_claim C (vo_claim_type w)"
    have P: "?P x" using VocabularyDeclare by (simp add: claims_def vocabulary_claim_def)
    show ?thesis
    proof (cases "fmlookup (lv_vocabulary v) (vo_claim_type w)")
      case None
      from words.absent [OF conjunct1 [OF conjunct2 [OF parts]] None] earliest_exists [of A x ?P C, OF x(3,1) P] show ?thesis by blast
    next
      case (Some row)
      from words.present [OF conjunct1 [OF conjunct2 [OF parts]] Some] have "\<not> (ec_event_time (C x), x) < (vr_declared_at row, vr_declared_by row)"
        using P x(1) by (auto simp only: earliest_def claim_key_def [symmetric] not_less)
      then show ?thesis using ok Some VocabularyDeclare v
        by (simp only: apply_event_def Let_def project_vocabulary_def guard_def) (simp split: if_splits)
    qed
  qed
qed

text \<open>
  Re-applying the projection of a stored event changes nothing: after a commit that stored it, \<open>reproject\<close>
  leaves every table as it was.
\<close>

theorem reproject_no_op:
  assumes "ledger cy t" "gated cy s" "commit_event cy s prov t = Some (Inr App_New, t')" "moment_lineage (tb_events t')"
  shows "snd (reproject cy s t') = t'"
proof -
  have led: "ledger cy t'" using assms(1-3) by (rule committed)
  obtain C where ag: "agrees cy (tb_events t') C" using ledger_agrees [OF led] by blast
  note p = ledger_projects [OF led assms(4) ag]
  obtain payload where payload: "canon_event (se_content s) = Some payload"
    using assms(3) by (auto simp: commit_event_def commit_in_tx_def append_event_def split: Option.bind_splits)
  have row: "fmlookup (tb_events t') (se_id s) = Some (event_row_of s payload prov)"
    using assms(3) payload
    by (auto simp: commit_event_def commit_in_tx_def append_event_def rbind_def guard_def split: sum.splits if_splits)
  have "C (se_id s) = stored_content (se_content s)"
    using agreesD [OF ag row] sealed_row_ok [OF assms(2) payload, of prov] by (rule row_ok_unique)
  then have "apply_event cy (tb_events t') (se_content s) (se_id s) (tb_view t') = apply_event cy (tb_events t') (C (se_id s)) (se_id s) (tb_view t')"
    by (simp add: apply_stored)
  moreover have "se_id s \<in> fmdom' (tb_events t')" using row by (simp add: fmlookup_dom'_iff)
  ultimately show ?thesis using apply_again [OF ag p, of "se_id s"] by (auto simp: reproject_def split: sum.split)
qed

section \<open>Rebuilding\<close>

text \<open>
  C15: a rebuild of a v0 ledger in which no moment supersedes an event of another kind reproduces it. Truncating the
  projections and folding the stored events again in canonical order returns the digest of the live view and leaves
  every table as it was; on such a ledger the only failure is a supersession chain longer than \<open>MAX_CHAIN\<close>, and it
  rolls back. Where a moment does supersede an event of another kind the live view depends on the order of arrival
  (the last section), so that a rebuild can differ from it.
\<close>

theorem rebuild_reproduces:
  assumes "ledger cy t" "moment_lineage (tb_events t)"
  shows "rebuild cy t = (if chains_bounded (tb_events t) then Inr (view_root cy t)
    else Inl (LE_Corruption ''supersedes chain exceeds MAX_CHAIN''), t)"
  using rebuild_rows_all [OF assms] by (simp add: rebuild_def Let_def guard_def chain_too_long_def)

section \<open>A late ancestor of another kind\<close>

lemma MAX_CHAIN_Suc: "MAX_CHAIN = Suc 1023"
  by (simp add: MAX_CHAIN_def)

definition commit_all :: "crypto \<Rightarrow> signed_event list \<Rightarrow> tables \<Rightarrow> tables option" where
  "commit_all cy ss t = fold (\<lambda>s r. Option.bind r (\<lambda>t. map_option snd (commit_event cy s None t))) ss (Some t)"

lemma commit_all_two:
  assumes "commit_all cy [a, b] t0 = Some t"
  obtains r1 t1 r where "commit_event cy a None t0 = Some (r1, t1)" "commit_event cy b None t1 = Some (r, t)"
  using assms by (auto simp: commit_all_def bind_eq_Some_conv)

text \<open>Only a moment writes rows of moments, and only for itself or for a stored event.\<close>

lemma write_moments: "write_entity c i b v = Inr w \<Longrightarrow> lv_moments w = lv_moments v"
    "write_vocabulary c i x v = Inr w \<Longrightarrow> lv_moments w = lv_moments v"
  by (auto simp: write_entity_def write_vocabulary_def guard_def split: if_splits)

lemma update_stats_moments [simp]: "lv_moments (update_stats f v) = lv_moments v"
  by (simp add: update_stats_def)

lemma apply_other_kind:
  assumes "apply_event cy ev c i v = Inr w" "\<And>m. ec_body c \<noteq> Moment m"
  shows "lv_moments w = lv_moments v"
proof -
  have "lv_moments w = lv_moments (ensure_stats_row v)"
    using assms by (auto simp: apply_event_def Let_def project_entity_def project_vocabulary_def project_edge_def
      project_attestation_def rbind_eq_Inr refresh_incident_edges_def guard_def write_moments
      split: event_body.splits option.splits if_splits)
  then show ?thesis by simp
qed

lemma chain_root_stored: "chain_root ev n i par = Inr (Some r) \<Longrightarrow> r = i \<or> has ev r"
  by (induction ev n i par rule: chain_root.induct) (auto simp: has_def split: option.splits if_splits)

lemma apply_moments_stored:
  assumes "apply_event cy ev c i v = Inr w" "has (lv_moments w) r"
  shows "has (lv_moments v) r \<or> r = i \<or> has ev r"
proof (cases "\<exists>m. ec_body c = Moment m")
  case True
  with assms(1) have "project_moment cy ev c i (ensure_stats_row v) = Inr w" by (auto simp: apply_event_def Let_def)
  with assms(2) show ?thesis
    by (auto simp: project_moment_def rbind_eq_Inr Let_def has_def split: option.splits if_splits dest!: chain_root_stored)
qed (use assms apply_other_kind in auto)

lemma ledger_moments_stored: "ledger cy t \<Longrightarrow> has (lv_moments (tb_view t)) i \<Longrightarrow> has (tb_events t) i"
proof (induction rule: ledger.induct)
  case genesis
  then show ?case by (simp add: empty_tables_def empty_view_def has_def)
next
  case (others t x r a)
  then show ?case by simp
next
  case (committed t s prov r t')
  from committed.hyps(3) show ?case
  proof (cases rule: commit_event_cases)
    case 1
    with committed show ?thesis by simp
  next
    case (2 payload v)
    from apply_moments_stored [OF 2(3), of i] committed.prems committed.IH 2(4) show ?thesis
      by (auto simp: has_def split: if_splits)
  qed
qed

text \<open>The walks of a moment whose superseded event is of another kind or absent, and which nothing supersedes.\<close>

lemma other_kind_root: "fmlookup ev p = Some row \<Longrightarrow> er_kind row \<noteq> moment_kind \<Longrightarrow> chain_root ev MAX_CHAIN i (Some p) = Inr (Some i)"
  unfolding MAX_CHAIN_Suc chain_root.simps by simp

lemma absent_root: "fmlookup ev p = None \<Longrightarrow> chain_root ev MAX_CHAIN i (Some p) = Inr None"
  unfolding MAX_CHAIN_Suc chain_root.simps by simp

lemma childless_head: "children ev i = {} \<Longrightarrow> chain_head ev MAX_CHAIN i = Inr i"
  using first_child_None [of ev i] unfolding MAX_CHAIN_Suc chain_head.simps by simp

lemma late_moment_projects:
  assumes "ec_body c = Moment mo" "ec_supersedes c = Some p" "fmlookup ev p = Some row" "er_kind row \<noteq> moment_kind" "children ev i = {}"
  shows "\<exists>w. apply_event cy ev c i v = Inr w \<and> has (lv_moments w) i"
  using assms other_kind_root [OF assms(3,4)] childless_head [OF assms(5)]
  by (simp add: apply_event_def project_moment_def Let_def moment_columns_def has_def)

lemma early_moment_held:
  assumes "ec_body c = Moment mo" "ec_supersedes c = Some p" "fmlookup ev p = None"
  shows "apply_event cy ev c i v = Inr (ensure_stats_row v)"
  using assms absent_root [OF assms(3)] by (simp add: apply_event_def project_moment_def Let_def)

lemma commit_fresh:
  "canon_event (se_content s) = Some p \<Longrightarrow> fmlookup (tb_events t) (se_id s) = None \<Longrightarrow>
    apply_event cy (fmupd (se_id s) (event_row_of s p None) (tb_events t)) (se_content s) (se_id s) (tb_view t) = Inr v \<Longrightarrow>
    commit_event cy s None t = Some (Inr App_New, t\<lparr>tb_events := fmupd (se_id s) (event_row_of s p None) (tb_events t), tb_view := v\<rparr>)"
  by (simp add: commit_event_def commit_in_tx_def append_event_def has_def rbind_def guard_def)

lemma commit_adds:
  assumes "commit_event cy s None t = Some (r, t')" "has (tb_events t') (se_id s)" "\<not> has (tb_events t) (se_id s)"
  obtains p v where "canon_event (se_content s) = Some p"
    "apply_event cy (fmupd (se_id s) (event_row_of s p None) (tb_events t)) (se_content s) (se_id s) (tb_view t) = Inr v"
    "t' = t\<lparr>tb_events := fmupd (se_id s) (event_row_of s p None) (tb_events t), tb_view := v\<rparr>"
  using assms(1) by (cases rule: commit_event_cases) (use assms(2,3) in auto)

lemma commit_elsewhere:
  "commit_event cy s None t = Some (r, t') \<Longrightarrow> i \<noteq> se_id s \<Longrightarrow> fmlookup (tb_events t') i = fmlookup (tb_events t) i"
  by (erule commit_event_cases) auto

lemma children_other_kind:
  "fmlookup ev x = None \<Longrightarrow> er_kind row \<noteq> moment_kind \<Longrightarrow> children (fmupd x row ev) i = children ev i"
  "fmlookup ev x = None \<Longrightarrow> er_supersedes row \<noteq> Some i \<Longrightarrow> children (fmupd x row ev) i = children ev i"
  by (auto simp: children_def fmlookup_dom'_iff image_iff split: if_splits)

text \<open>
  C18: the view depends on the order of arrival when a moment supersedes an event that is not a moment. Take any
  ledger, an event of another kind and a moment that supersedes it, neither stored yet and the moment superseded by
  none that is, and commit both, in both orders, both times so that the event is stored. The same events are
  stored, but after the order event, moment the moment is its own root and has a row; after the order moment, event
  it has none, because it was held and the arrival of the event projects nothing.
\<close>

theorem late_ancestor_order:
  assumes "ledger cy t0" "\<not> has (tb_events t0) (se_id e)" "\<not> has (tb_events t0) (se_id m)"
    and "body_kind (ec_body (se_content e)) \<noteq> EK_Moment" "ec_body (se_content m) = Moment mo"
    and "ec_supersedes (se_content m) = Some (se_id e)" "se_id e \<noteq> se_id m" "children (tb_events t0) (se_id m) = {}"
    and "commit_all cy [e, m] t0 = Some t" "has (tb_events t) (se_id e)"
    and "commit_all cy [m, e] t0 = Some u" "has (tb_events u) (se_id e)"
  shows "tb_events t = tb_events u \<and> has (lv_moments (tb_view t)) (se_id m) \<and> \<not> has (lv_moments (tb_view u)) (se_id m)"
proof -
  obtain r1 t1 r where t: "commit_event cy e None t0 = Some (r1, t1)" "commit_event cy m None t1 = Some (r, t)"
    using assms(9) by (rule commit_all_two)
  obtain s1 u1 s where u: "commit_event cy m None t0 = Some (s1, u1)" "commit_event cy e None u1 = Some (s, u)"
    using assms(11) by (rule commit_all_two)
  have fresh: "fmlookup (tb_events t0) (se_id e) = None" "fmlookup (tb_events t0) (se_id m) = None"
    using assms(2,3) by (auto simp: has_def)
  have kind: "er_kind (event_row_of e p None) \<noteq> moment_kind" for p
    using assms(4) by (cases "ec_body (se_content e)") (simp_all add: event_row_of_def moment_kind_def)
  have other: "ec_body (se_content e) \<noteq> Moment b" for b using assms(4) by auto
  have held: "\<not> has (lv_moments (tb_view t0)) (se_id m)" using ledger_moments_stored [OF assms(1)] assms(3) by blast
  have "has (tb_events t1) (se_id e)" using commit_elsewhere [OF t(2) assms(7)] assms(10) by (simp add: has_def)
  then obtain p v where p: "canon_event (se_content e) = Some p"
    and t1: "t1 = t0\<lparr>tb_events := fmupd (se_id e) (event_row_of e p None) (tb_events t0), tb_view := v\<rparr>"
    using commit_adds [OF t(1) _ assms(2)] by metis
  obtain q where q: "canon_event (se_content m) = Some q"
    using t(2) by (auto simp: commit_event_def commit_in_tx_def append_event_def split: Option.bind_splits)
  let ?e = "event_row_of e p None" and ?m = "event_row_of m q None"
  have childless: "children (fmupd (se_id m) ?m (fmupd (se_id e) ?e (tb_events t0))) (se_id m) = {}"
    using children_other_kind(1) [OF fresh(1) kind] children_other_kind(2) [of _ "se_id m" ?m "se_id m"] assms(6,7,8) fresh(2)
    by (simp add: event_row_of_def)
  have "fmlookup (fmupd (se_id m) ?m (tb_events t1)) (se_id e) = Some ?e" "children (fmupd (se_id m) ?m (tb_events t1)) (se_id m) = {}"
    using childless assms(7) t1 by simp_all
  from late_moment_projects [OF assms(5,6) this(1) kind this(2)] obtain w where
    "apply_event cy (fmupd (se_id m) ?m (tb_events t1)) (se_content m) (se_id m) (tb_view t1) = Inr w"
    and w: "has (lv_moments w) (se_id m)" by blast
  then have t': "t = t1\<lparr>tb_events := fmupd (se_id m) ?m (tb_events t1), tb_view := w\<rparr>"
    using commit_fresh [OF q, of t1 cy w] t(2) assms(7) fresh t1 by simp
  have "apply_event cy (fmupd (se_id m) ?m (tb_events t0)) (se_content m) (se_id m) (tb_view t0) = Inr (ensure_stats_row (tb_view t0))"
    using assms(7) fresh by (intro early_moment_held [OF assms(5,6)]) simp
  then have u1: "u1 = t0\<lparr>tb_events := fmupd (se_id m) ?m (tb_events t0), tb_view := ensure_stats_row (tb_view t0)\<rparr>"
    using commit_fresh [OF q, of t0] u(1) fresh by simp
  have "\<not> has (tb_events u1) (se_id e)" using u1 fresh assms(7) by (simp add: has_def)
  then obtain v' where v': "u = u1\<lparr>tb_events := fmupd (se_id e) ?e (tb_events u1), tb_view := v'\<rparr>"
    "apply_event cy (fmupd (se_id e) ?e (tb_events u1)) (se_content e) (se_id e) (tb_view u1) = Inr v'"
    using commit_adds [OF u(2) assms(12)] p by (metis option.inject)
  then have "lv_moments v' = lv_moments (tb_view t0)" using apply_other_kind [OF v'(2) other] u1 by simp
  moreover have "tb_events t = tb_events u"
    using t' t1 v'(1) u1 assms(7) by (simp, intro fmap_ext) simp
  ultimately show ?thesis using t' w v'(1) held by (simp add: has_def)
qed

end
