(* ===== verification/Legacy_Samples.thy ===== *)
theory Legacy_Samples
  imports Legacy_Results
begin

text \<open>
  Instances of the properties of the v0 ledger: the birth of an entity and a moment about it, committed in either order
  under a hash that tells payloads apart by their length.
\<close>

definition length_crypto :: crypto where
  "length_crypto = \<lparr>cy_hash = (\<lambda>p. word_of_nat (length p)), cy_key_ok = (\<lambda>_. True), cy_verify = (\<lambda>_ _ _. True)\<rparr>"

definition sample_birth :: signed_event where
  "sample_birth = \<lparr>se_content = \<lparr>ec_event_time = ORIGIN, ec_record_time = ORIGIN, ec_author = 7, ec_supersedes = None,
     ec_body = EntityCreate \<lparr>eb_entity_id = 4, eb_resolution_key = ''k'', eb_canonical_name = ''n'',
       eb_window = \<lparr>w_start = WS_Unknown, w_end = WE_KnownOpen\<rparr>\<rparr>\<rparr>, se_id = 137, se_signature = []\<rparr>"

definition sample_claim :: "hash option \<Rightarrow> hash \<Rightarrow> signed_event" where
  "sample_claim p i = \<lparr>se_content = \<lparr>ec_event_time = ORIGIN, ec_record_time = ORIGIN, ec_author = 7, ec_supersedes = p,
     ec_body = Moment \<lparr>mo_subject = 4, mo_body_hash = 9\<rparr>\<rparr>, se_id = i, se_signature = []\<rparr>"

lemma sample_names: "str_ok ''k'' \<and> str_ok ''n''"
  by code_simp

lemma gated_birth: "gated length_crypto sample_birth"
  by (simp add: gated_def seal_event_def event_id_def length_crypto_def sample_birth_def canon_event_def canon_framed_def dst_of_def
    canon_window_def content_ok_def guard_def hash_bytes_def sample_names)

lemma birth_body: "ec_body (se_content sample_birth) = EntityCreate \<lparr>eb_entity_id = 4, eb_resolution_key = ''k'',
    eb_canonical_name = ''n'', eb_window = \<lparr>w_start = WS_Unknown, w_end = WE_KnownOpen\<rparr>\<rparr>"
  by (simp add: sample_birth_def)

lemma claim_body: "ec_body (se_content (sample_claim p i)) = Moment \<lparr>mo_subject = 4, mo_body_hash = 9\<rparr>"
  by (simp add: sample_claim_def)

lemma gated_claim: "gated length_crypto (sample_claim None 93)" "gated length_crypto (sample_claim (Some 137) 125)"
  by (simp_all add: gated_def seal_event_def event_id_def length_crypto_def sample_claim_def canon_event_def canon_framed_def dst_of_def
    content_ok_def guard_def hash_bytes_def)

lemma gated_canon: "gated cy s \<Longrightarrow> \<exists>p. canon_event (se_content s) = Some p"
  by (auto simp: gated_def seal_event_def event_id_def split: Option.bind_splits)

text \<open>The two orders of a birth and a first moment.\<close>

lemma moment_alone:
  assumes "ec_body (se_content m) = Moment mo" "ec_supersedes (se_content m) = None" "children ev (se_id m) = {}"
  shows "\<exists>w. apply_event cy ev (se_content m) (se_id m) v = Inr w \<and> has (lv_moments w) (se_id m) \<and> lv_entities w = lv_entities v"
proof -
  have "chain_root ev MAX_CHAIN (se_id m) None = Inr (Some (se_id m))" unfolding MAX_CHAIN_Suc chain_root.simps by simp
  moreover have "chain_head ev MAX_CHAIN (se_id m) = Inr (se_id m)"
    using assms(3) first_child_None [of ev "se_id m"] unfolding MAX_CHAIN_Suc chain_head.simps by simp
  ultimately show ?thesis using assms(1,2)
    by (simp add: apply_event_def project_moment_def Let_def moment_columns_def has_def update_stats_def)
qed

lemma birth_alone:
  assumes "ec_body (se_content e) = EntityCreate b" "text_ok (eb_resolution_key b)" "text_ok (eb_canonical_name b)"
    "lv_entities v = fmempty"
  shows "\<exists>w. apply_event cy ev (se_content e) (se_id e) v = Inr w \<and> lv_moments w = lv_moments v"
  using assms
  by (simp add: apply_event_def Let_def project_entity_def write_entity_def guard_def rbind_def refresh_incident_edges_def update_stats_def)

abbreviation sample_first :: signed_event where
  "sample_first \<equiv> sample_claim None 93"

lemma sample_orders:
  "\<exists>t1 t u1 u. commit_event length_crypto sample_birth None empty_tables = Some (Inr App_New, t1) \<and>
     commit_event length_crypto sample_first None t1 = Some (Inr App_New, t) \<and>
     commit_event length_crypto sample_first None empty_tables = Some (Inr App_New, u1) \<and>
     commit_event length_crypto sample_birth None u1 = Some (Inr App_New, u) \<and>
     tb_events t = tb_events u \<and> moment_lineage (tb_events t) \<and> chains_bounded (tb_events t) \<and>
     has (tb_events t) 93 \<and> has (lv_moments (tb_view t)) 93"
proof -
  let ?e = sample_birth and ?m = sample_first
  obtain pe pm where p: "canon_event (se_content ?e) = Some pe" "canon_event (se_content ?m) = Some pm"
    using gated_canon gated_birth gated_claim by blast
  let ?re = "event_row_of ?e pe None" and ?rm = "event_row_of ?m pm None"
  have rows: "er_kind ?re \<noteq> moment_kind" "er_supersedes ?rm = None" "er_supersedes ?re = None" "se_id ?e = 137" "se_id ?m = 93"
    by (simp_all add: event_row_of_def sample_birth_def sample_claim_def moment_kind_def)
  have body: "ec_body (se_content ?m) = Moment \<lparr>mo_subject = 4, mo_body_hash = 9\<rparr>" "ec_supersedes (se_content ?m) = None"
    by (simp_all add: sample_claim_def)
  have birth: "\<exists>w. apply_event length_crypto ev (se_content ?e) (se_id ?e) v = Inr w \<and> lv_moments w = lv_moments v"
    if "lv_entities v = fmempty" for ev v
    by (rule birth_alone [OF birth_body]) (simp_all add: sample_birth_def text_ok_def that)
  let ?ev1 = "fmupd (137::hash) ?re fmempty" and ?ev2 = "fmupd (93::hash) ?rm fmempty" and ?ev = "fmupd (93::hash) ?rm (fmupd (137::hash) ?re fmempty)"
  have swap: "fmupd (137::hash) ?re (fmupd (93::hash) ?rm fmempty) = ?ev" by (intro fmap_ext) simp
  have none: "children ?ev 93 = {}" "children ?ev2 93 = {}" using rows by (auto simp: children_def split: if_splits)
  have e: "tb_events empty_tables = fmempty" "lv_entities (tb_view empty_tables) = fmempty" by (simp_all add: empty_tables_def empty_view_def)
  from birth [OF e(2)] obtain w where w: "apply_event length_crypto ?ev1 (se_content ?e) (se_id ?e) (tb_view empty_tables) = Inr w" by blast
  have 1: "commit_event length_crypto ?e None empty_tables = Some (Inr App_New, empty_tables\<lparr>tb_events := ?ev1, tb_view := w\<rparr>)"
    using w by (subst commit_fresh [OF p(1)]) (simp_all add: e rows(4))
  from moment_alone [OF body, of ?ev] none(1) rows(5) obtain w' where
    w': "apply_event length_crypto ?ev (se_content ?m) (se_id ?m) w = Inr w'" "has (lv_moments w') 93" by metis
  then have 2: "commit_event length_crypto ?m None (empty_tables\<lparr>tb_events := ?ev1, tb_view := w\<rparr>) =
      Some (Inr App_New, empty_tables\<lparr>tb_events := ?ev, tb_view := w'\<rparr>)"
    by (subst commit_fresh [OF p(2)]) (simp_all add: rows(5))
  from moment_alone [OF body, of ?ev2 length_crypto "tb_view empty_tables"] none(2) rows(5) e(2) obtain y where
    y: "apply_event length_crypto ?ev2 (se_content ?m) (se_id ?m) (tb_view empty_tables) = Inr y" "lv_entities y = fmempty" by metis
  then have 3: "commit_event length_crypto ?m None empty_tables = Some (Inr App_New, empty_tables\<lparr>tb_events := ?ev2, tb_view := y\<rparr>)"
    by (subst commit_fresh [OF p(2)]) (simp_all add: e rows(5))
  from birth [OF y(2)] obtain z where "apply_event length_crypto ?ev (se_content ?e) (se_id ?e) y = Inr z" by blast
  then have 4: "commit_event length_crypto ?e None (empty_tables\<lparr>tb_events := ?ev2, tb_view := y\<rparr>) =
      Some (Inr App_New, empty_tables\<lparr>tb_events := ?ev, tb_view := z\<rparr>)"
    by (subst commit_fresh [OF p(1)]) (simp_all add: rows(4) swap)
  have lin: "moment_lineage ?ev" using rows by (intro moment_lineageI) (auto split: if_splits)
  have walks: "walks_end ?ev i" if "i \<in> fmdom' ?ev" for i
  proof (cases "i = 93")
    case True
    have "er_supersedes (the (fmlookup ?ev 93)) = None" using rows(2) by simp
    then have "root_at ?ev 93 = Inr (Some 93)" unfolding root_at_def MAX_CHAIN_Suc by (simp only: chain_root.simps)
    moreover have "chain_head ?ev MAX_CHAIN 93 = Inr 93"
      using none(1) first_child_None [of ?ev 93] unfolding MAX_CHAIN_Suc chain_head.simps by simp
    ultimately show ?thesis using True by (simp add: walks_end_def)
  next
    case False
    with that rows(1) show ?thesis by (auto simp: walks_end_def)
  qed
  from 1 2 3 4 w'(2) lin walks show ?thesis by (auto simp: has_def chains_bounded_def)
qed

lemma sample_ledgers:
  obtains t1 t u where "ledger length_crypto t1" "ledger length_crypto t" "ledger length_crypto u"
    "commit_event length_crypto sample_first None t1 = Some (Inr App_New, t)"
    "tb_events t = tb_events u" "moment_lineage (tb_events t)" "chains_bounded (tb_events t)"
    "has (tb_events t) 93" "has (lv_moments (tb_view t)) 93"
  using sample_orders ledger.genesis ledger.committed gated_birth gated_claim(1) by metis

section \<open>The properties at the samples\<close>

theorem ledger_counters_exact_witness:
  "\<exists>t. ledger length_crypto t \<and> lv_stats (tb_view t) = Some (stats_of (tb_view t)) \<and> has (lv_moments (tb_view t)) 93"
proof -
  obtain t1 t u where t: "ledger length_crypto t" "has (tb_events t) 93" "has (lv_moments (tb_view t)) 93" by (rule sample_ledgers)
  from t(2) obtain erow where "fmlookup (tb_events t) 93 = Some erow" by (auto simp: has_def split: option.splits)
  from ledger_counters_exact [OF t(1) this] t show ?thesis by blast
qed

theorem first_claim_wins_witness:
  "\<exists>t. ledger length_crypto t \<and> has (tb_events t) 93 \<and>
     winners entity_claim (content_at length_crypto (tb_events t)) (fmdom' (tb_events t)) (lv_entities (tb_view t))"
proof -
  obtain t1 t u where t: "ledger length_crypto t" "has (tb_events t) 93" by (rule sample_ledgers)
  from first_claim_wins [OF t(1)] t show ?thesis by blast
qed

theorem ledger_converges_witness:
  "\<exists>t u. ledger length_crypto t \<and> ledger length_crypto u \<and> has (lv_moments (tb_view t)) 93 \<and> tb_view t = tb_view u"
proof -
  obtain t1 t u where t: "ledger length_crypto t" "ledger length_crypto u" "tb_events t = tb_events u"
    "moment_lineage (tb_events t)" "has (lv_moments (tb_view t)) 93" by (rule sample_ledgers)
  from ledger_converges [OF t(1,2) _ t(4)] t show ?thesis by auto
qed

theorem reproject_no_op_witness:
  "\<exists>t. ledger length_crypto t \<and> has (lv_moments (tb_view t)) 93 \<and> snd (reproject length_crypto sample_first t) = t"
proof -
  obtain t1 t u where t: "ledger length_crypto t1" "ledger length_crypto t"
    "commit_event length_crypto sample_first None t1 = Some (Inr App_New, t)" "moment_lineage (tb_events t)"
    "has (lv_moments (tb_view t)) 93" by (rule sample_ledgers)
  from reproject_no_op [OF t(1) gated_claim(1) t(3,4)] t(2,5) show ?thesis by blast
qed

theorem rebuild_reproduces_witness:
  "\<exists>t. has (lv_moments (tb_view t)) 93 \<and> rebuild length_crypto t = (Inr (view_root length_crypto t), t)"
proof -
  obtain t1 t u where t: "ledger length_crypto t" "moment_lineage (tb_events t)" "chains_bounded (tb_events t)"
    "has (lv_moments (tb_view t)) 93" by (rule sample_ledgers)
  from rebuild_reproduces [OF t(1,2)] t(3,4) show ?thesis by auto
qed

text \<open>A birth, and a moment that supersedes it, committed in both orders after another moment.\<close>

lemma commit_returns:
  assumes "canon_event (se_content s) = Some p"
  obtains r t where "commit_event cy s None t0 = Some (r, t)"
proof -
  have "\<exists>x. append_event s None t0 = Some x" using assms by (simp add: append_event_def)
  then have "\<exists>x. commit_event cy s None t0 = Some x" by (auto simp: commit_event_def commit_in_tx_def)
  then show thesis using that by auto
qed

lemma birth_commits:
  assumes "lv_entities (tb_view t0) = fmempty" "fmlookup (tb_events t0) 137 = None"
  obtains r t where "commit_event length_crypto sample_birth None t0 = Some (r, t)" "has (tb_events t) 137"
proof -
  obtain p where p: "canon_event (se_content sample_birth) = Some p" using gated_canon gated_birth by blast
  have id: "se_id sample_birth = 137" by (simp add: sample_birth_def)
  let ?ev = "fmupd (se_id sample_birth) (event_row_of sample_birth p None) (tb_events t0)"
  obtain w where "apply_event length_crypto ?ev (se_content sample_birth) (se_id sample_birth) (tb_view t0) = Inr w"
    using birth_alone [OF birth_body _ _ assms(1), of length_crypto ?ev] by (auto simp: text_ok_def)
  from that [OF commit_fresh [OF p _ this]] assms(2) show thesis by (simp add: id has_def)
qed

theorem late_ancestor_order_witness:
  "\<exists>t0 t u. has (lv_moments (tb_view t0)) 93 \<and>
     commit_all length_crypto [sample_birth, sample_claim (Some 137) 125] t0 = Some t \<and>
     commit_all length_crypto [sample_claim (Some 137) 125, sample_birth] t0 = Some u \<and>
     tb_events t = tb_events u \<and> tb_view t \<noteq> tb_view u"
proof -
  let ?e = sample_birth and ?m = "sample_claim (Some 137) 125"
  have id: "se_id ?e = 137" "se_id ?m = 125" "se_id sample_first = 93" by (simp_all add: sample_birth_def sample_claim_def)
  have none: "fmlookup (tb_events empty_tables) i = None" "lv_entities (tb_view empty_tables) = fmempty" for i
    by (simp_all add: empty_tables_def empty_view_def)
  obtain p where p: "canon_event (se_content sample_first) = Some p" using gated_canon gated_claim(1) by blast
  obtain q where q: "canon_event (se_content ?m) = Some q" using gated_canon gated_claim(2) by blast
  let ?ev = "fmupd 93 (event_row_of sample_first p None) (tb_events empty_tables)"
  have row: "er_supersedes (event_row_of sample_first p None) = None" by (simp add: event_row_of_def sample_claim_def)
  have "children ?ev 93 = {}" by (auto simp: children_def none row fmlookup_dom'_iff split: if_splits)
  moreover have "ec_supersedes (se_content sample_first) = None" by (simp add: sample_claim_def)
  ultimately obtain w where
    w: "apply_event length_crypto ?ev (se_content sample_first) 93 (tb_view empty_tables) = Inr w" "has (lv_moments w) 93" "lv_entities w = fmempty"
    using moment_alone [OF claim_body, of None 93 ?ev length_crypto "tb_view empty_tables"] id(3) none(2) by auto
  define t0 where "t0 = empty_tables\<lparr>tb_events := ?ev, tb_view := w\<rparr>"
  have "commit_event length_crypto sample_first None empty_tables = Some (Inr App_New, t0)"
    using w(1) by (subst commit_fresh [OF p]) (simp_all add: none id t0_def)
  then have t0: "ledger length_crypto t0" using ledger.committed [OF ledger.genesis gated_claim(1)] by blast
  have ev0: "tb_events t0 = ?ev" "lv_entities (tb_view t0) = fmempty" "has (lv_moments (tb_view t0)) 93" using w by (simp_all add: t0_def)
  have fresh: "fmlookup (tb_events t0) 137 = None" "fmlookup (tb_events t0) 125 = None" by (simp_all add: ev0 none)
  obtain r1 t1 where t1: "commit_event length_crypto ?e None t0 = Some (r1, t1)" "has (tb_events t1) 137"
    by (rule birth_commits [OF ev0(2) fresh(1)])
  obtain r t where t: "commit_event length_crypto ?m None t1 = Some (r, t)" by (rule commit_returns [OF q])
  have t': "commit_all length_crypto [?e, ?m] t0 = Some t" "has (tb_events t) (se_id ?e)"
    using t1 t commit_elsewhere [OF t, of 137] by (simp_all add: commit_all_def id has_def)
  let ?u1 = "t0\<lparr>tb_events := fmupd 125 (event_row_of ?m q None) (tb_events t0), tb_view := ensure_stats_row (tb_view t0)\<rparr>"
  have "apply_event length_crypto (fmupd 125 (event_row_of ?m q None) (tb_events t0)) (se_content ?m) 125 (tb_view t0) =
      Inr (ensure_stats_row (tb_view t0))"
    by (rule early_moment_held [OF claim_body, of _ _ 137]) (simp_all add: sample_claim_def fresh)
  then have u1: "commit_event length_crypto ?m None t0 = Some (Inr App_New, ?u1)"
    by (subst commit_fresh [OF q]) (simp_all add: id fresh)
  obtain s u where u: "commit_event length_crypto ?e None ?u1 = Some (s, u)" "has (tb_events u) 137"
    by (rule birth_commits [of ?u1]) (simp_all add: ev0 none)
  have u': "commit_all length_crypto [?m, ?e] t0 = Some u" "has (tb_events u) (se_id ?e)"
    using u1 u by (simp_all add: commit_all_def id)
  have "children (tb_events t0) 125 = {}" by (auto simp: ev0 children_def none row fmlookup_dom'_iff split: if_splits)
  moreover have "body_kind (ec_body (se_content ?e)) \<noteq> EK_Moment" "ec_supersedes (se_content ?m) = Some (se_id ?e)"
    by (simp_all add: sample_birth_def sample_claim_def)
  ultimately have "tb_events t = tb_events u \<and> has (lv_moments (tb_view t)) (se_id ?m) \<and> \<not> has (lv_moments (tb_view u)) (se_id ?m)"
    using fresh by (intro late_ancestor_order [OF t0 _ _ _ claim_body _ _ _ t' u']) (simp_all add: id has_def)
  with t' u' ev0(3) show ?thesis by metis
qed

end
