(* ===== verification/Ots.thy ===== *)
theory Ots
  imports Merkle
begin

unbundle bit_operations_syntax

text \<open>
  The OpenTimestamps proofs of \<^verbatim>\<open>crates/cc-anchor/src/ots.rs\<close>: the variable-length integers, the operation stream
  of a timestamp and the attestations at its ends, and the detached file about one root. A reader is its position and
  the bytes from there on. The walk over the stream is a partial function, so that \<^term>\<open>None\<close> is a walk that does not
  end. The running message is a list without a bound and forks nest without a bound; the program keeps the message in
  memory and recurses on its stack, and limits neither, so that a short file can exhaust both. The requests to a
  calendar are not modelled; the reply is an argument.
\<close>

section \<open>Constants and values\<close>

definition HEADER_MAGIC :: "byte list" where
  "HEADER_MAGIC = [0x00] @ as_bytes ''OpenTimestamps'' @ [0x00, 0x00] @ as_bytes ''Proof'' @
     [0x00, 0xbf, 0x89, 0xe2, 0xe8, 0x84, 0xe8, 0x92, 0x94]"

definition MAJOR_VERSION :: u64 where
  "MAJOR_VERSION = 1"

definition OP_APPEND :: byte where "OP_APPEND = 0xf0"
definition OP_PREPEND :: byte where "OP_PREPEND = 0xf1"
definition OP_REVERSE :: byte where "OP_REVERSE = 0xf2"
definition OP_HEXLIFY :: byte where "OP_HEXLIFY = 0xf3"
definition OP_SHA256 :: byte where "OP_SHA256 = 0x08"
definition ATTESTATION_TAG :: byte where "ATTESTATION_TAG = 0x00"
definition CONTINUATION_TAG :: byte where "CONTINUATION_TAG = 0xff"

lemmas tag_defs = OP_APPEND_def OP_PREPEND_def OP_REVERSE_def OP_HEXLIFY_def OP_SHA256_def ATTESTATION_TAG_def CONTINUATION_TAG_def

definition PENDING_ATTESTATION :: "byte list" where
  "PENDING_ATTESTATION = [0x83, 0xdf, 0xe3, 0x0d, 0x2e, 0xf9, 0x0c, 0x8e]"

definition BITCOIN_ATTESTATION :: "byte list" where
  "BITCOIN_ATTESTATION = [0x05, 0x88, 0x96, 0x0d, 0x73, 0xd7, 0x19, 0x01]"

datatype ots_error = OE_Malformed string | OE_UnsupportedOp byte | OE_WrongDigest hash hash

datatype attestation = At_Pending string | At_Bitcoin u64 | At_Unknown "byte list" "byte list"

record commitment =
  cm_attestation :: attestation
  cm_message :: "byte list"

section \<open>The reader\<close>

record reader =
  rd_pos :: nat
  rd_rest :: "byte list"

definition new_reader :: "byte list \<Rightarrow> reader" where
  "new_reader b = \<lparr>rd_pos = 0, rd_rest = b\<rparr>"

definition r_take :: "nat \<Rightarrow> reader \<Rightarrow> ots_error + byte list \<times> reader" where
  "r_take n r = guard (2 ^ 64 \<le> rd_pos r + n) (OE_Malformed ''length overflow'')
     (guard (length (rd_rest r) < n) (OE_Malformed ''truncated'')
     (Inr (take n (rd_rest r), \<lparr>rd_pos = rd_pos r + n, rd_rest = drop n (rd_rest r)\<rparr>)))"

definition r_u8 :: "reader \<Rightarrow> ots_error + byte \<times> reader" where
  "r_u8 r = rbind (r_take 1 r) (\<lambda>(bs, r'). Inr (hd bs, r'))"

definition r_expect :: "byte list \<Rightarrow> reader \<Rightarrow> ots_error + reader" where
  "r_expect magic r = rbind (r_take (length magic) r) (\<lambda>(bs, r'). guard (bs \<noteq> magic) (OE_Malformed ''not an OpenTimestamps file'') (Inr r'))"

lemma r_take_shorter: "r_take n r = Inr (bs, r') \<Longrightarrow> length (rd_rest r) = n + length (rd_rest r') \<and> length bs = n"
  by (auto simp: r_take_def guard_def split: if_splits)

lemma r_u8_shorter: "r_u8 r = Inr (b, r') \<Longrightarrow> length (rd_rest r) = Suc (length (rd_rest r'))"
  by (auto simp: r_u8_def rbind_eq_Inr dest: r_take_shorter)

text \<open>\<open>chunk.checked_shl(shift)\<close> fails only for a shift of the full width.\<close>

function varuint_loop :: "u64 \<Rightarrow> nat \<Rightarrow> reader \<Rightarrow> ots_error + u64 \<times> reader" where
  "varuint_loop value shift r = (case r_u8 r of
     Inl e \<Rightarrow> Inl e
   | Inr (b, r') \<Rightarrow>
       if 64 \<le> shift then Inl (OE_Malformed ''varuint too wide'')
       else let value' = value OR push_bit shift (ucast (b AND 0x7f)) in
         if b AND 0x80 = 0 then Inr (value', r') else varuint_loop value' (shift + 7) r')"
  by pat_completeness auto
termination
  by (relation "measure (\<lambda>(_, shift, _). 64 - shift)") auto

declare varuint_loop.simps [simp del]

definition r_varuint :: "reader \<Rightarrow> ots_error + u64 \<times> reader" where
  "r_varuint r = varuint_loop 0 0 r"

definition r_varbytes :: "reader \<Rightarrow> ots_error + byte list \<times> reader" where
  "r_varbytes r = rbind (r_varuint r) (\<lambda>(len, r'). r_take (unat len) r')"

definition r_done :: "reader \<Rightarrow> bool" where
  "r_done r \<longleftrightarrow> rd_rest r = []"

function write_varuint :: "u64 \<Rightarrow> byte list" where
  "write_varuint n = (let b = ucast (n AND 0x7f); n' = drop_bit 7 n in
     if n' = 0 then [b] else (b OR 0x80) # write_varuint n')"
  by pat_completeness auto
termination
proof (relation "measure unat", goal_cases)
  case (2 n b n')
  then have "n \<noteq> 0" by auto
  then have "unat n div 2 ^ 7 < unat n" by (simp add: unat_gt_0 div_less_dividend)
  with 2 show ?case by (simp add: unat_drop_bit_eq drop_bit_eq_div unat_div)
qed simp

declare write_varuint.simps [simp del]

section \<open>The operation stream\<close>

definition hex_digit :: "byte \<Rightarrow> byte" where
  "hex_digit d = (if d < 10 then 0x30 + d else 0x57 + d)"

definition hex_encode :: "byte list \<Rightarrow> byte list" where
  "hex_encode bs = concat (map (\<lambda>b. [hex_digit (drop_bit 4 b), hex_digit (b AND 0x0f)]) bs)"

definition apply_op :: "(byte list \<Rightarrow> hash) \<Rightarrow> reader \<Rightarrow> byte \<Rightarrow> byte list \<Rightarrow> ots_error + byte list \<times> reader" where
  "apply_op H r tag msg =
    (if tag = OP_APPEND then rbind (r_varbytes r) (\<lambda>(arg, r'). Inr (msg @ arg, r'))
     else if tag = OP_PREPEND then rbind (r_varbytes r) (\<lambda>(arg, r'). Inr (arg @ msg, r'))
     else if tag = OP_SHA256 then Inr (hash_bytes (H msg), r)
     else if tag = OP_REVERSE then Inr (rev msg, r)
     else if tag = OP_HEXLIFY then Inr (hex_encode msg, r)
     else Inl (OE_UnsupportedOp tag))"

definition read_attestation :: "reader \<Rightarrow> byte list \<Rightarrow> ots_error + commitment \<times> reader" where
  "read_attestation r msg = rbind (r_take 8 r) (\<lambda>(tag, r1). rbind (r_varbytes r1) (\<lambda>(payload, r2).
     rbind
       (if tag = PENDING_ATTESTATION then rbind (r_varbytes (new_reader payload)) (\<lambda>(uri, _).
          case from_utf8 uri of None \<Rightarrow> Inl (OE_Malformed ''calendar URI is not UTF-8'') | Some s \<Rightarrow> Inr (At_Pending s))
        else if tag = BITCOIN_ATTESTATION then rbind (r_varuint (new_reader payload)) (\<lambda>(height, _). Inr (At_Bitcoin height))
        else Inr (At_Unknown tag payload))
       (\<lambda>a. Inr (\<lparr>cm_attestation = a, cm_message = msg\<rparr>, r2))))"

partial_function (option) ots_walk ::
  "(byte list \<Rightarrow> hash) \<Rightarrow> reader \<Rightarrow> byte list \<Rightarrow> commitment list \<Rightarrow> (ots_error + reader \<times> commitment list) option" where
  "ots_walk H r msg out = (case r_u8 r of
     Inl e \<Rightarrow> Some (Inl e)
   | Inr (b, r1) \<Rightarrow>
     if b = ATTESTATION_TAG then Some (rbind (read_attestation r1 msg) (\<lambda>(c, r2). Inr (r2, out @ [c])))
     else if b = CONTINUATION_TAG then (case r_u8 r1 of
        Inl e \<Rightarrow> Some (Inl e)
      | Inr (tag, r2) \<Rightarrow>
        if tag = ATTESTATION_TAG then (case read_attestation r2 msg of
            Inl e \<Rightarrow> Some (Inl e)
          | Inr (c, r3) \<Rightarrow> ots_walk H r3 msg (out @ [c]))
        else (case apply_op H r2 tag msg of
            Inl e \<Rightarrow> Some (Inl e)
          | Inr (branch, r3) \<Rightarrow> Option.bind (ots_walk H r3 branch out) (\<lambda>x. case x of
              Inl e \<Rightarrow> Some (Inl e)
            | Inr (r4, out') \<Rightarrow> ots_walk H r4 msg out')))
     else (case apply_op H r1 b msg of
        Inl e \<Rightarrow> Some (Inl e)
      | Inr (msg', r2) \<Rightarrow> ots_walk H r2 msg' out))"

definition walk_all :: "(byte list \<Rightarrow> hash) \<Rightarrow> byte list \<Rightarrow> byte list \<Rightarrow> (ots_error + commitment list) option" where
  "walk_all H bytes msg = do {
     x \<leftarrow> ots_walk H (new_reader bytes) msg [];
     Some (rbind x (\<lambda>(r, out). guard (\<not> r_done r) (OE_Malformed ''trailing bytes after the timestamp'') (Inr out)))}"

definition attestations_in :: "(byte list \<Rightarrow> hash) \<Rightarrow> byte list \<Rightarrow> byte list \<Rightarrow> (ots_error + commitment list) option" where
  "attestations_in H timestamp from_message = walk_all H timestamp from_message"

section \<open>The detached file\<close>

type_synonym ots_proof = "byte list"

definition proof_digest :: "ots_proof \<Rightarrow> ots_error + hash" where
  "proof_digest p = rbind (r_expect HEADER_MAGIC (new_reader p)) (\<lambda>r1. rbind (r_varuint r1) (\<lambda>(version, r2).
     guard (version \<noteq> MAJOR_VERSION) (OE_Malformed ''unsupported .ots major version'')
     (rbind (r_u8 r2) (\<lambda>(hash_op, r3). guard (hash_op \<noteq> OP_SHA256) (OE_Malformed ''file digest is not SHA-256'')
     (rbind (r_take 32 r3) (\<lambda>(d, _). Inr (from_be_bytes d)))))))"

definition commitments :: "(byte list \<Rightarrow> hash) \<Rightarrow> ots_proof \<Rightarrow> (ots_error + commitment list) option" where
  "commitments H p = (case proof_digest p of
     Inl e \<Rightarrow> Some (Inl e)
   | Inr d \<Rightarrow> walk_all H (drop (length HEADER_MAGIC + length (write_varuint MAJOR_VERSION) + 1 + 32) p) (hash_bytes d))"

definition from_calendar_reply :: "(byte list \<Rightarrow> hash) \<Rightarrow> hash \<Rightarrow> byte list \<Rightarrow> (ots_error + ots_proof) option" where
  "from_calendar_reply H digest reply = (let p = HEADER_MAGIC @ write_varuint MAJOR_VERSION @ [OP_SHA256] @ hash_bytes digest @ reply in do {
     x \<leftarrow> commitments H p;
     Some (rbind x (\<lambda>cs. guard (cs = []) (OE_Malformed ''no attestation in the calendar reply'') (Inr p)))})"

definition commits_to :: "ots_proof \<Rightarrow> hash \<Rightarrow> ots_error + unit" where
  "commits_to p digest = rbind (proof_digest p) (\<lambda>found. guard (found \<noteq> digest) (OE_WrongDigest digest found) (Inr ()))"

definition proof_from_bytes :: "byte list \<Rightarrow> ots_error + ots_proof" where
  "proof_from_bytes bytes = rbind (proof_digest bytes) (\<lambda>_. Inr bytes)"

definition blob_hash :: "(byte list \<Rightarrow> hash) \<Rightarrow> ots_proof \<Rightarrow> hash" where
  "blob_hash H p = H p"

fun first_bitcoin :: "commitment list \<Rightarrow> u64 option" where
  "first_bitcoin [] = None"
| "first_bitcoin (c # cs) = (case cm_attestation c of At_Bitcoin height \<Rightarrow> Some height | _ \<Rightarrow> first_bitcoin cs)"

definition bitcoin_height :: "(byte list \<Rightarrow> hash) \<Rightarrow> ots_proof \<Rightarrow> (ots_error + u64 option) option" where
  "bitcoin_height H p = map_option (\<lambda>x. rbind x (\<lambda>cs. Inr (first_bitcoin cs))) (commitments H p)"

definition pending_of :: "commitment list \<Rightarrow> (string \<times> byte list) list" where
  "pending_of cs = concat (map (\<lambda>c. case cm_attestation c of At_Pending uri \<Rightarrow> [(uri, cm_message c)] | _ \<Rightarrow> []) cs)"

definition pending :: "(byte list \<Rightarrow> hash) \<Rightarrow> ots_proof \<Rightarrow> (ots_error + (string \<times> byte list) list) option" where
  "pending H p = map_option (\<lambda>x. rbind x (\<lambda>cs. Inr (pending_of cs))) (commitments H p)"

end
