(* ===== verification/Anchor.thy ===== *)
theory Anchor
  imports Legacy_Ledger Merkle Ots
begin

text \<open>
  The ledger side of anchoring, \<^verbatim>\<open>crates/cc-anchor/src/store.rs\<close>, over the tables of \<^verbatim>\<open>migrations/0004_anchor.sql\<close>:
  sealing an epoch, publishing and recording its root, proofs about committed events, the audit of the root stream,
  and the life of an anchor. A function that writes returns its result and the database, since the writes before a
  failing one stay. The age of an anchor is the clock's and is left out; the answer of a calendar is an argument.
\<close>

section \<open>The database\<close>

record log_row =
  lr_event :: hash
  lr_epoch :: nat

record anchor_db =
  ad_ledger :: tables
  ad_log :: "(nat, log_row) fmap"
  ad_proofs :: "(hash, byte list) fmap"

datatype anchor_error = AE_Db string | AE_Ledger ledger_error | AE_Proof proof_error | AE_Ots ots_error
  | AE_RootStreamLost nat | AE_UnknownRoot "hash + nat" | AE_NotCommitted hash | AE_LogCorrupt nat nat
  | AE_RootMismatch nat hash "hash + nat" | AE_ConsistencyBroken nat | AE_AnchorState hash string

text \<open>The key of node 0: its public half and its signature of an event id.\<close>

record node_key =
  nk_author :: hash
  nk_sign :: "byte list \<Rightarrow> byte list"

record root_publication =
  rp_height :: nat
  rp_root :: hash
  rp_tree_size :: nat
  rp_prev_root :: "hash option"
  rp_consistency :: "consistency_proof option"
  rp_moment :: "hash option"

datatype root_outcome = Published root_publication | Unchanged hash nat

definition NODE_ZERO :: u64 where
  "NODE_ZERO = 0"

definition DST_ROOT :: "byte list" where
  "DST_ROOT = as_bytes ''cc.anchor.root.v0''"

definition DST_ANCHOR :: "byte list" where
  "DST_ANCHOR = as_bytes ''cc.anchor.stamp.v0''"

definition proof_or :: "proof_error + 'a \<Rightarrow> anchor_error + 'a" where
  "proof_or x = (case x of Inl e \<Rightarrow> Inl (AE_Proof e) | Inr y \<Rightarrow> Inr y)"

definition ots_or :: "ots_error + 'a \<Rightarrow> anchor_error + 'a" where
  "ots_or x = (case x of Inl e \<Rightarrow> Inl (AE_Ots e) | Inr y \<Rightarrow> Inr y)"

section \<open>Reading the root stream\<close>

definition db_roots :: "anchor_db \<Rightarrow> (hash, root_row) fmap" where
  "db_roots db = tb_roots (ad_ledger db)"

text \<open>\<open>ORDER BY r.height\<close>; a unique constraint keeps heights apart.\<close>

definition roots_asc :: "anchor_db \<Rightarrow> hash list" where
  "roots_asc db = map snd (sorted_list_of_set ((\<lambda>i. (rr_height (the (fmlookup (db_roots db) i)), i)) ` fmdom' (db_roots db)))"

text \<open>The row with its predecessor's size, joined from \<open>prev_root\<close>.\<close>

definition row_to_publication :: "anchor_db \<Rightarrow> hash \<Rightarrow> anchor_error + root_publication" where
  "row_to_publication db i = (let row = the (fmlookup (db_roots db) i);
       prev_size = Option.bind (rr_prev_root row) (\<lambda>p. map_option rr_tree_size (fmlookup (db_roots db) p)) in
     rbind (case (rr_consistency row, prev_size) of
         (Some path, Some ps) \<Rightarrow> rbind (proof_or (consistency_from_path_bytes ps (rr_tree_size row) path)) (\<lambda>c. Inr (Some c))
       | (None, _) \<Rightarrow> Inr None
       | (Some _, None) \<Rightarrow> Inl (AE_ConsistencyBroken (rr_height row)))
     (\<lambda>consistency. Inr \<lparr>rp_height = rr_height row, rp_root = i, rp_tree_size = rr_tree_size row,
        rp_prev_root = rr_prev_root row, rp_consistency = consistency, rp_moment = rr_moment_id row\<rparr>))"

definition latest_root :: "anchor_db \<Rightarrow> anchor_error + root_publication option" where
  "latest_root db = (case rev (roots_asc db) of [] \<Rightarrow> Inr None
     | i # _ \<Rightarrow> rbind (row_to_publication db i) (\<lambda>p. Inr (Some p)))"

definition root_at_height :: "anchor_db \<Rightarrow> nat \<Rightarrow> anchor_error + root_publication option" where
  "root_at_height db h = (case filter (\<lambda>i. rr_height (the (fmlookup (db_roots db) i)) = h) (roots_asc db) of [] \<Rightarrow> Inr None
     | i # _ \<Rightarrow> rbind (row_to_publication db i) (\<lambda>p. Inr (Some p)))"

definition root_by_id :: "anchor_db \<Rightarrow> hash \<Rightarrow> anchor_error + root_publication" where
  "root_by_id db root = (if has (db_roots db) root then row_to_publication db root else Inl (AE_UnknownRoot (Inl root)))"

text \<open>The leaves in the order of \<open>seq\<close>, which has no gap.\<close>

fun rows_to_leaves :: "(byte list \<Rightarrow> hash) \<Rightarrow> nat \<Rightarrow> (nat \<times> log_row) list \<Rightarrow> anchor_error + hash list" where
  "rows_to_leaves H i [] = Inr []"
| "rows_to_leaves H i ((seq, row) # rows) = guard (seq \<noteq> i) (AE_LogCorrupt i seq)
     (rbind (rows_to_leaves H (Suc i) rows) (\<lambda>leaves. Inr (leaf_hash H (lr_event row) # leaves)))"

definition load_leaves :: "(byte list \<Rightarrow> hash) \<Rightarrow> anchor_db \<Rightarrow> anchor_error + hash list" where
  "load_leaves H db = rows_to_leaves H 0 (rows_of (ad_log db))"

definition committed_leaf_count :: "anchor_db \<Rightarrow> nat" where
  "committed_leaf_count db = length (keys (ad_log db))"

section \<open>Sealing and publishing\<close>

text \<open>\<open>COALESCE(MAX(seq) + 1, 0)\<close>\<close>

definition next_seq :: "anchor_db \<Rightarrow> nat" where
  "next_seq db = (case rev (keys (ad_log db)) of [] \<Rightarrow> 0 | s # _ \<Rightarrow> Suc s)"

definition unsealed :: "anchor_db \<Rightarrow> hash list" where
  "unsealed db = filter (\<lambda>e. \<not> list_ex (\<lambda>s. lr_event (the (fmlookup (ad_log db) s)) = e) (keys (ad_log db)))
     (keys (tb_events (ad_ledger db)))"

definition append_log :: "nat \<Rightarrow> hash list \<Rightarrow> nat \<Rightarrow> (nat, log_row) fmap \<Rightarrow> (nat, log_row) fmap" where
  "append_log height es seq log = fold (\<lambda>(k, e). fmupd k \<lparr>lr_event = e, lr_epoch = height\<rparr>) (zip [seq..<seq + length es] es) log"

definition set_roots :: "((hash, root_row) fmap \<Rightarrow> (hash, root_row) fmap) \<Rightarrow> anchor_db \<Rightarrow> anchor_db" where
  "set_roots f db = db\<lparr>ad_ledger := (ad_ledger db)\<lparr>tb_roots := f (db_roots db)\<rparr>\<rparr>"

definition seal_with :: "(byte list \<Rightarrow> hash) \<Rightarrow> root_publication option \<Rightarrow> anchor_db \<Rightarrow> anchor_error + root_outcome \<times> anchor_db" where
  "seal_with H prev db = (let committed = committed_leaf_count db; height = (case prev of None \<Rightarrow> 0 | Some p \<Rightarrow> rp_height p + 1);
       added = unsealed db; db1 = db\<lparr>ad_log := append_log height added (next_seq db) (ad_log db)\<rparr> in
     guard (next_seq db \<noteq> committed) (AE_LogCorrupt committed (next_seq db - 1))
     (guard (prev = None \<and> 0 < committed) (AE_RootStreamLost committed)
     (if added = [] then
        Inr (case prev of Some p \<Rightarrow> Unchanged (rp_root p) (rp_height p) | None \<Rightarrow> Unchanged (merkle_root H []) 0, db)
      else rbind (load_leaves H db1) (\<lambda>leaves. let root = merkle_root H leaves in
        rbind (case prev of None \<Rightarrow> Inr None
          | Some p \<Rightarrow> rbind (proof_or (prove_consistency H leaves (rp_tree_size p))) (\<lambda>c. Inr (Some c)))
        (\<lambda>consistency. guard (has (db_roots db) root) (AE_Db ''roots_pkey'')
          (Inr (Published \<lparr>rp_height = height, rp_root = root, rp_tree_size = length leaves,
              rp_prev_root = map_option rp_root prev, rp_consistency = consistency, rp_moment = None\<rparr>,
            set_roots (fmupd root \<lparr>rr_height = height, rr_tree_size = length leaves, rr_prev_root = map_option rp_root prev,
              rr_consistency = map_option consistency_path_bytes consistency, rr_moment_id = None\<rparr>) db1)))))))"

definition seal_epoch :: "(byte list \<Rightarrow> hash) \<Rightarrow> anchor_db \<Rightarrow> anchor_error + root_outcome \<times> anchor_db" where
  "seal_epoch H db = rbind (latest_root db) (\<lambda>prev. seal_with H prev db)"

definition root_body_hash :: "(byte list \<Rightarrow> hash) \<Rightarrow> root_publication \<Rightarrow> hash" where
  "root_body_hash H p = H (to_be_bytes 4 (word_of_nat (length DST_ROOT) :: u32) @ DST_ROOT @ to_be_bytes 8 (word_of_nat (rp_height p) :: u64) @
     to_be_bytes 8 (word_of_nat (rp_tree_size p) :: u64) @ hash_bytes (rp_root p) @
     (case rp_prev_root p of None \<Rightarrow> [0] | Some prev \<Rightarrow> 1 # hash_bytes prev))"

definition node_moment :: "crypto \<Rightarrow> node_key \<Rightarrow> hash \<Rightarrow> hash option \<Rightarrow> tick \<Rightarrow> signed_event option" where
  "node_moment cy key body supersedes now = sign_event cy (nk_author key) (nk_sign key)
     \<lparr>ec_event_time = now, ec_record_time = now, ec_author = nk_author key, ec_supersedes = supersedes,
      ec_body = Moment \<lparr>mo_subject = NODE_ZERO, mo_body_hash = body\<rparr>\<rparr>"

text \<open>\<open>cc_ledger::commit\<close> on the ledger's tables.\<close>

definition commit_node :: "crypto \<Rightarrow> signed_event \<Rightarrow> anchor_db \<Rightarrow> ((anchor_error + unit) \<times> anchor_db) option" where
  "commit_node cy s db = map_option (\<lambda>(r, t). (case r of Inl e \<Rightarrow> Inl (AE_Ledger e) | Inr _ \<Rightarrow> Inr (), db\<lparr>ad_ledger := t\<rparr>))
     (commit_event cy s None (ad_ledger db))"

definition record_root_moment ::
  "crypto \<Rightarrow> node_key \<Rightarrow> root_publication \<Rightarrow> tick \<Rightarrow> anchor_db \<Rightarrow> ((anchor_error + hash) \<times> anchor_db) option" where
  "record_root_moment cy key p now db = do {
     s \<leftarrow> node_moment cy key (root_body_hash (cy_hash cy) p) None now;
     (r, db1) \<leftarrow> commit_node cy s db;
     Some (case r of Inl e \<Rightarrow> (Inl e, db1)
       | Inr _ \<Rightarrow> (Inr (se_id s), set_roots (\<lambda>m. case fmlookup m (rp_root p) of None \<Rightarrow> m
           | Some row \<Rightarrow> fmupd (rp_root p) (row\<lparr>rr_moment_id := Some (se_id s)\<rparr>) m) db1))}"

definition publish_root :: "crypto \<Rightarrow> node_key \<Rightarrow> tick \<Rightarrow> anchor_db \<Rightarrow> ((anchor_error + root_outcome) \<times> anchor_db) option" where
  "publish_root cy key now db = (case seal_epoch (cy_hash cy) db of
     Inl e \<Rightarrow> Some (Inl e, db)
   | Inr (Unchanged root height, _) \<Rightarrow> Some (Inr (Unchanged root height), db)
   | Inr (Published p, db1) \<Rightarrow> map_option (\<lambda>(r, db2).
       (case r of Inl e \<Rightarrow> Inl e | Inr i \<Rightarrow> Inr (Published (p\<lparr>rp_moment := Some i\<rparr>)), db2)) (record_root_moment cy key p now db1))"

section \<open>Proofs and the audit\<close>

record event_inclusion =
  ei_event :: hash
  ei_leaf :: hash
  ei_root :: hash
  ei_height :: nat
  ei_proof :: inclusion_proof

definition verify_event :: "(byte list \<Rightarrow> hash) \<Rightarrow> event_inclusion \<Rightarrow> bool" where
  "verify_event H x \<longleftrightarrow> verify_inclusion H (ei_proof x) (ei_leaf x) (ei_root x)"

definition seq_of :: "anchor_db \<Rightarrow> hash \<Rightarrow> nat option" where
  "seq_of db e = List.find (\<lambda>s. lr_event (the (fmlookup (ad_log db) s)) = e) (keys (ad_log db))"

definition committing_root :: "anchor_db \<Rightarrow> nat \<Rightarrow> hash option" where
  "committing_root db s = List.find (\<lambda>i. s < rr_tree_size (the (fmlookup (db_roots db) i))) (roots_asc db)"

text \<open>The slice of the leaves panics (\<^term>\<open>None\<close>) when the root row names more of them than there are.\<close>

definition prove_event :: "(byte list \<Rightarrow> hash) \<Rightarrow> anchor_db \<Rightarrow> hash \<Rightarrow> (anchor_error + event_inclusion) option" where
  "prove_event H db e = (case seq_of db e of None \<Rightarrow> Some (Inl (AE_NotCommitted e))
   | Some s \<Rightarrow> (case committing_root db s of None \<Rightarrow> Some (Inl (AE_NotCommitted e))
     | Some i \<Rightarrow> (case row_to_publication db i of Inl x \<Rightarrow> Some (Inl x)
       | Inr p \<Rightarrow> (case load_leaves H db of Inl x \<Rightarrow> Some (Inl x)
         | Inr leaves \<Rightarrow> if length leaves < rp_tree_size p then None
           else let pre = take (rp_tree_size p) leaves in
             Some (rbind (proof_or (prove_inclusion H pre s)) (\<lambda>proof.
               Inr \<lparr>ei_event = e, ei_leaf = pre ! s, ei_root = rp_root p, ei_height = rp_height p, ei_proof = proof\<rparr>))))))"

record chain_audit =
  ca_roots_checked :: nat
  ca_proofs_verified :: nat
  ca_leaves :: nat
  ca_unrecorded :: nat

fun audit_rows :: "(byte list \<Rightarrow> hash) \<Rightarrow> anchor_db \<Rightarrow> hash list \<Rightarrow> root_publication option \<Rightarrow> hash list \<Rightarrow> chain_audit \<Rightarrow> anchor_error + chain_audit" where
  "audit_rows H db leaves prev [] audit = Inr audit"
| "audit_rows H db leaves prev (i # is) audit = rbind (row_to_publication db i) (\<lambda>p.
     guard (length leaves < rp_tree_size p) (AE_RootMismatch (rp_height p) (rp_root p) (Inr (length leaves)))
     (let recomputed = merkle_root H (take (rp_tree_size p) leaves) in
      guard (recomputed \<noteq> rp_root p) (AE_RootMismatch (rp_height p) (rp_root p) (Inl recomputed))
      (let audit1 = audit\<lparr>ca_roots_checked := ca_roots_checked audit + 1,
             ca_unrecorded := ca_unrecorded audit + (if rp_moment p = None then 1 else 0)\<rparr> in
       case prev of
         None \<Rightarrow> audit_rows H db leaves (Some p) is audit1
       | Some q \<Rightarrow> guard (case rp_consistency p of None \<Rightarrow> True | Some c \<Rightarrow> \<not> verify_consistency H c (rp_root q) (rp_root p))
           (AE_ConsistencyBroken (rp_height p))
           (audit_rows H db leaves (Some p) is (audit1\<lparr>ca_proofs_verified := ca_proofs_verified audit1 + 1\<rparr>)))))"

definition verify_root_chain :: "(byte list \<Rightarrow> hash) \<Rightarrow> anchor_db \<Rightarrow> anchor_error + chain_audit" where
  "verify_root_chain H db = rbind (load_leaves H db) (\<lambda>leaves. audit_rows H db leaves None (roots_asc db)
     \<lparr>ca_roots_checked = 0, ca_proofs_verified = 0, ca_leaves = length leaves, ca_unrecorded = 0\<rparr>)"

definition consistency_between :: "anchor_db \<Rightarrow> nat \<Rightarrow> anchor_error + hash \<times> hash \<times> consistency_proof" where
  "consistency_between db height =
     rbind (root_at_height db height) (\<lambda>older. case older of None \<Rightarrow> Inl (AE_UnknownRoot (Inr height))
     | Some p \<Rightarrow> rbind (root_at_height db (height + 1)) (\<lambda>newer. case newer of None \<Rightarrow> Inl (AE_UnknownRoot (Inr (height + 1)))
       | Some q \<Rightarrow> (case rp_consistency q of None \<Rightarrow> Inl (AE_ConsistencyBroken (rp_height q))
         | Some c \<Rightarrow> Inr (rp_root p, rp_root q, c))))"

section \<open>The life of an anchor\<close>

datatype anchor_status = AS_Pending | AS_Confirmed

fun status_to_i16 :: "anchor_status \<Rightarrow> 16 word" where
  "status_to_i16 AS_Pending = 0"
| "status_to_i16 AS_Confirmed = 1"

definition status_from_i16 :: "16 word \<Rightarrow> anchor_status option" where
  "status_from_i16 v = (if v = 0 then Some AS_Pending else if v = 1 then Some AS_Confirmed else None)"

record anchor_record =
  an_root :: hash
  an_status :: anchor_status
  an_ots_blob_hash :: hash
  an_calendar_url :: string
  an_block_height :: "u64 option"
  an_moment :: hash

definition db_anchors :: "anchor_db \<Rightarrow> (hash, anchor_row) fmap" where
  "db_anchors db = tb_anchors (ad_ledger db)"

definition set_anchors :: "((hash, anchor_row) fmap \<Rightarrow> (hash, anchor_row) fmap) \<Rightarrow> anchor_db \<Rightarrow> anchor_db" where
  "set_anchors f db = db\<lparr>ad_ledger := (ad_ledger db)\<lparr>tb_anchors := f (db_anchors db)\<rparr>\<rparr>"

definition row_to_anchor :: "hash \<Rightarrow> anchor_row \<Rightarrow> anchor_error + anchor_record" where
  "row_to_anchor root row = (case status_from_i16 (ar_status row) of
     None \<Rightarrow> Inl (AE_AnchorState root ''unknown anchor status discriminant'')
   | Some st \<Rightarrow> Inr \<lparr>an_root = root, an_status = st, an_ots_blob_hash = ar_ots_blob_hash row, an_calendar_url = ar_calendar_url row,
       an_block_height = ar_block_height row, an_moment = ar_moment_id row\<rparr>)"

definition anchor_for :: "anchor_db \<Rightarrow> hash \<Rightarrow> anchor_error + anchor_record option" where
  "anchor_for db root = (case fmlookup (db_anchors db) root of None \<Rightarrow> Inr None
     | Some row \<Rightarrow> rbind (row_to_anchor root row) (\<lambda>a. Inr (Some a)))"

text \<open>The anchor of the highest root that has one.\<close>

definition latest_anchor :: "anchor_db \<Rightarrow> anchor_error + anchor_record option" where
  "latest_anchor db = (case rev (filter (has (db_anchors db)) (roots_asc db)) of [] \<Rightarrow> Inr None
     | i # _ \<Rightarrow> anchor_for db i)"

definition load_proof :: "(byte list \<Rightarrow> hash) \<Rightarrow> anchor_db \<Rightarrow> hash \<Rightarrow> anchor_error + ots_proof" where
  "load_proof H db blob = (case fmlookup (ad_proofs db) blob of
     None \<Rightarrow> Inl (AE_AnchorState blob ''no stored proof under that content address'')
   | Some bytes \<Rightarrow> rbind (ots_or (proof_from_bytes bytes)) (\<lambda>proof.
       guard (blob_hash H proof \<noteq> blob) (AE_AnchorState blob ''stored proof does not hash to its own key'') (Inr proof)))"

text \<open>A calendar URL or a transaction id of four gibibytes panics.\<close>

definition anchor_moment :: "crypto \<Rightarrow> node_key \<Rightarrow> root_publication \<Rightarrow> anchor_status \<Rightarrow> hash \<Rightarrow> string \<Rightarrow> u64 option \<Rightarrow>
    byte list option \<Rightarrow> hash option \<Rightarrow> tick \<Rightarrow> signed_event option" where
  "anchor_moment cy key p status blob url height txid supersedes now = do {
     dst \<leftarrow> canon_framed DST_ANCHOR;
     framed_url \<leftarrow> canon_framed (as_bytes url);
     framed_txid \<leftarrow> canon_framed (case txid of None \<Rightarrow> [] | Some x \<Rightarrow> x);
     node_moment cy key (cy_hash cy (dst @ hash_bytes (rp_root p) @ to_be_bytes 8 (word_of_nat (rp_height p) :: u64) @
       [ucast (status_to_i16 status)] @ hash_bytes blob @ framed_url @
       (case height of None \<Rightarrow> [0] | Some n \<Rightarrow> 1 # to_be_bytes 8 n) @ framed_txid)) supersedes now}"

definition reload_anchor :: "anchor_db \<Rightarrow> hash \<Rightarrow> string \<Rightarrow> anchor_error + anchor_record" where
  "reload_anchor db root detail = rbind (anchor_for db root) (\<lambda>a. case a of None \<Rightarrow> Inl (AE_AnchorState root detail) | Some r \<Rightarrow> Inr r)"

text \<open>The proof row is checked to hold between one byte and 64 KiB before it can conflict with a stored one.\<close>

definition store_proof :: "(byte list \<Rightarrow> hash) \<Rightarrow> ots_proof \<Rightarrow> anchor_db \<Rightarrow> anchor_error + anchor_db" where
  "store_proof H proof db = guard (\<not> (1 \<le> length proof \<and> length proof \<le> 65536)) (AE_Db ''anchor_proofs_bounded'')
     (Inr (if has (ad_proofs db) (blob_hash H proof) then db
       else db\<lparr>ad_proofs := fmupd (blob_hash H proof) proof (ad_proofs db)\<rparr>))"

definition record_stamp :: "crypto \<Rightarrow> node_key \<Rightarrow> hash \<Rightarrow> ots_proof \<Rightarrow> string \<Rightarrow> tick \<Rightarrow> anchor_db \<Rightarrow>
    ((anchor_error + anchor_record) \<times> anchor_db) option" where
  "record_stamp cy key root proof url now db =
    (case rbind (ots_or (commits_to proof root)) (\<lambda>_. rbind (root_by_id db root) (\<lambda>p. rbind (anchor_for db root) (\<lambda>a.
        guard (a \<noteq> None) (AE_AnchorState root ''already stamped; a second stamp would replace settled evidence'')
        (rbind (store_proof (cy_hash cy) proof db) (\<lambda>db1. Inr (p, db1)))))) of
      Inl e \<Rightarrow> Some (Inl e, db)
    | Inr (p, db1) \<Rightarrow> (let blob = blob_hash (cy_hash cy) proof in do {
        s \<leftarrow> anchor_moment cy key p AS_Pending blob url None None None now;
        (r, db2) \<leftarrow> commit_node cy s db1;
        Some (case r of Inl e \<Rightarrow> (Inl e, db2)
          | Inr _ \<Rightarrow> if \<not> text_ok url then (Inl (AE_Db ''text''), db2)
            else let db3 = set_anchors (fmupd root \<lparr>ar_status = status_to_i16 AS_Pending, ar_ots_blob_hash = blob, ar_calendar_url = url,
                   ar_block_height = None, ar_txid = None, ar_moment_id = se_id s\<rparr>) db2 in
              (reload_anchor db3 root ''the anchor row vanished immediately after being written'', db3))}))"

definition confirm_anchor :: "crypto \<Rightarrow> node_key \<Rightarrow> hash \<Rightarrow> u64 \<Rightarrow> byte list option \<Rightarrow> tick \<Rightarrow> anchor_db \<Rightarrow>
    ((anchor_error + anchor_record) \<times> anchor_db) option" where
  "confirm_anchor cy key root height txid now db =
    (case rbind (root_by_id db root) (\<lambda>p. rbind (anchor_for db root) (\<lambda>a. case a of
        None \<Rightarrow> Inl (AE_AnchorState root ''no stamp to confirm'')
      | Some held \<Rightarrow> guard (an_status held = AS_Confirmed) (AE_AnchorState root ''already confirmed; settlement is recorded once'')
          (Inr (p, held)))) of
      Inl e \<Rightarrow> Some (Inl e, db)
    | Inr (p, held) \<Rightarrow> do {
        s \<leftarrow> anchor_moment cy key p AS_Confirmed (an_ots_blob_hash held) (an_calendar_url held) (Some height) txid (Some (an_moment held)) now;
        (r, db1) \<leftarrow> commit_node cy s db;
        Some (case r of Inl e \<Rightarrow> (Inl e, db1)
          | Inr _ \<Rightarrow> if sint height < 0 then (Inl (AE_Db ''anchors_confirmed_has_height''), db1)
            else let db2 = set_anchors (\<lambda>m. case fmlookup m root of None \<Rightarrow> m | Some row \<Rightarrow> fmupd root
                   (row\<lparr>ar_status := status_to_i16 AS_Confirmed, ar_block_height := Some height, ar_txid := txid, ar_moment_id := se_id s\<rparr>) m) db1 in
              (reload_anchor db2 root ''the anchor row vanished immediately after being confirmed'', db2))})"

text \<open>The whole tick of a root, given what the calendar answered.\<close>

definition anchor_root :: "crypto \<Rightarrow> node_key \<Rightarrow> hash \<Rightarrow> string \<Rightarrow> byte list \<Rightarrow> tick \<Rightarrow> anchor_db \<Rightarrow>
    ((anchor_error + anchor_record) \<times> anchor_db) option" where
  "anchor_root cy key root url reply now db = do {
     x \<leftarrow> from_calendar_reply (cy_hash cy) root reply;
     (case x of Inl e \<Rightarrow> Some (Inl (AE_Ots e), db) | Inr proof \<Rightarrow> record_stamp cy key root proof url now db)}"

datatype upgrade_outcome = UO_Confirmed anchor_record | UO_StillPending anchor_record

text \<open>\<open>fetch uri commitment\<close> is what \<open>ots::fetch_upgrade\<close> returns.\<close>

fun upgrade_loop :: "crypto \<Rightarrow> node_key \<Rightarrow> (string \<Rightarrow> byte list \<Rightarrow> ots_error + byte list option) \<Rightarrow> hash \<Rightarrow> tick \<Rightarrow> anchor_record \<Rightarrow>
    (string \<times> byte list) list \<Rightarrow> anchor_db \<Rightarrow> ((anchor_error + upgrade_outcome) \<times> anchor_db) option" where
  "upgrade_loop cy key fetch root now record [] db = Some (Inr (UO_StillPending record), db)"
| "upgrade_loop cy key fetch root now record ((calendar, commitment) # rest) db = (case fetch calendar commitment of
     Inl e \<Rightarrow> Some (Inl (AE_Ots e), db)
   | Inr None \<Rightarrow> upgrade_loop cy key fetch root now record rest db
   | Inr (Some upgraded) \<Rightarrow> Option.bind (attestations_in (cy_hash cy) upgraded commitment) (\<lambda>x. case x of
       Inl e \<Rightarrow> Some (Inl (AE_Ots e), db)
     | Inr cs \<Rightarrow> (case first_bitcoin cs of
         None \<Rightarrow> upgrade_loop cy key fetch root now record rest db
       | Some height \<Rightarrow> map_option (\<lambda>(r, db'). (case r of Inl e \<Rightarrow> Inl e | Inr a \<Rightarrow> Inr (UO_Confirmed a), db'))
           (confirm_anchor cy key root height None now db))))"

definition upgrade_anchor :: "crypto \<Rightarrow> node_key \<Rightarrow> (string \<Rightarrow> byte list \<Rightarrow> ots_error + byte list option) \<Rightarrow> hash \<Rightarrow> tick \<Rightarrow> anchor_db \<Rightarrow>
    ((anchor_error + upgrade_outcome) \<times> anchor_db) option" where
  "upgrade_anchor cy key fetch root now db = (case anchor_for db root of
     Inl e \<Rightarrow> Some (Inl e, db)
   | Inr None \<Rightarrow> Some (Inl (AE_AnchorState root ''no stamp to upgrade''), db)
   | Inr (Some record) \<Rightarrow>
     if an_status record = AS_Confirmed then Some (Inr (UO_Confirmed record), db)
     else (case load_proof (cy_hash cy) db (an_ots_blob_hash record) of
         Inl e \<Rightarrow> Some (Inl e, db)
       | Inr proof \<Rightarrow> Option.bind (pending (cy_hash cy) proof) (\<lambda>x. case x of
           Inl e \<Rightarrow> Some (Inl (AE_Ots e), db)
         | Inr ps \<Rightarrow> upgrade_loop cy key fetch root now record ps db)))"

end
