(* ===== verification/Anchor_Stream.thy ===== *)
theory Anchor_Stream
  imports Anchor Merkle_Consistency Legacy_Rebuild
begin

text \<open>
  The invariant of the root stream and the operations on the database that keep it: the log is a sequence of stored
  events, and the roots by height are the tree hashes of its prefixes, each with the proof that it extends the one before.
\<close>

section \<open>The log and the roots as sequences\<close>

definition leaves_of :: "(byte list \<Rightarrow> hash) \<Rightarrow> hash list \<Rightarrow> hash list" where
  "leaves_of H es = map (leaf_hash H) es"

definition log_is :: "hash list \<Rightarrow> anchor_db \<Rightarrow> bool" where
  "log_is es db \<longleftrightarrow> fmdom' (ad_log db) = {..<length es} \<and> (\<forall>k<length es. lr_event (the (fmlookup (ad_log db) k)) = es ! k) \<and>
     distinct es \<and> set es \<subseteq> fmdom' (tb_events (ad_ledger db))"

definition extends :: "(byte list \<Rightarrow> hash) \<Rightarrow> hash list \<Rightarrow> (hash \<times> root_row) option \<Rightarrow> root_row \<Rightarrow> bool" where
  "extends H es prev row \<longleftrightarrow> (case prev of
     None \<Rightarrow> rr_prev_root row = None \<and> rr_consistency row = None
   | Some (j, older) \<Rightarrow> rr_prev_root row = Some j \<and> rr_tree_size older < rr_tree_size row \<and>
       (\<exists>c. prove_consistency H (leaves_of H (take (rr_tree_size row) es)) (rr_tree_size older) = Inr c \<and>
         rr_consistency row = Some (consistency_path_bytes c)))"

definition root_ok :: "(byte list \<Rightarrow> hash) \<Rightarrow> hash list \<Rightarrow> (hash \<times> root_row) list \<Rightarrow> nat \<Rightarrow> bool" where
  "root_ok H es rs h \<longleftrightarrow> (let row = snd (rs ! h) in rr_height row = h \<and> 0 < rr_tree_size row \<and> rr_tree_size row \<le> length es \<and>
     fst (rs ! h) = merkle_root H (leaves_of H (take (rr_tree_size row) es)) \<and>
     extends H es (if h = 0 then None else Some (rs ! (h - 1))) row)"

definition stream :: "(byte list \<Rightarrow> hash) \<Rightarrow> hash list \<Rightarrow> (hash \<times> root_row) list \<Rightarrow> anchor_db \<Rightarrow> bool" where
  "stream H es rs db \<longleftrightarrow> log_is es db \<and> (\<forall>i row. fmlookup (db_roots db) i = Some row \<longleftrightarrow> (i, row) \<in> set rs) \<and> distinct (map fst rs) \<and>
     (\<forall>h<length rs. root_ok H es rs h) \<and> (rs = [] \<longrightarrow> es = []) \<and> (rs \<noteq> [] \<longrightarrow> rr_tree_size (snd (last rs)) = length es)"

lemma keys_upto: "fmdom' m = {..<n} \<Longrightarrow> keys m = [0..<n]"
  by (rule sorted_distinct_set_unique) (simp_all add: atLeast_upt)

lemma log_keys: "log_is es db \<Longrightarrow> keys (ad_log db) = [0..<length es]"
  by (simp add: log_is_def keys_upto)

lemma log_rows: "log_is es db \<Longrightarrow> rows_of (ad_log db) = zip [0..<length es] (map (\<lambda>k. the (fmlookup (ad_log db) k)) [0..<length es])"
  by (simp add: rows_of_def log_keys zip_map2 zip_same_conv_map)

lemma rows_to_leaves_zip: "rows_to_leaves H i (zip [i..<i + length rows] rows) = Inr (map (\<lambda>r. leaf_hash H (lr_event r)) rows)"
proof (induction rows arbitrary: i)
  case (Cons r rows)
  have "zip [i..<i + length (r # rows)] (r # rows) = (i, r) # zip [Suc i..<Suc i + length rows] rows"
    by (simp add: upt_conv_Cons del: upt_Suc)
  then show ?case using Cons [of "Suc i"] by (simp only: rows_to_leaves.simps guard_def) simp
qed simp

lemma load_leaves_stream:
  assumes "log_is es db"
  shows "load_leaves H db = Inr (leaves_of H es)"
proof -
  have "map (\<lambda>k. lr_event (the (fmlookup (ad_log db) k))) [0..<length es] = map ((!) es) [0..<length es]"
    using assms by (intro map_cong) (auto simp: log_is_def)
  then have "map (\<lambda>k. leaf_hash H (lr_event (the (fmlookup (ad_log db) k)))) [0..<length es] = leaves_of H es"
    unfolding leaves_of_def by (metis (no_types, lifting) map_map map_nth comp_def map_eq_conv)
  with rows_to_leaves_zip [of H 0 "map (\<lambda>k. the (fmlookup (ad_log db) k)) [0..<length es]"] show ?thesis
    by (simp add: load_leaves_def log_rows [OF assms] comp_def)
qed

lemma stream_root: "stream H es rs db \<Longrightarrow> h < length rs \<Longrightarrow> root_ok H es rs h"
  unfolding stream_def by blast

lemma root_ok_height: "stream H es rs db \<Longrightarrow> h < length rs \<Longrightarrow> rr_height (snd (rs ! h)) = h"
  using stream_root [of H es rs db h] by (simp add: root_ok_def Let_def)

lemma stream_lookup: "stream H es rs db \<Longrightarrow> h < length rs \<Longrightarrow> fmlookup (db_roots db) (fst (rs ! h)) = Some (snd (rs ! h))"
  by (simp add: stream_def)

lemma stream_dom: "stream H es rs db \<Longrightarrow> fmdom' (db_roots db) = (\<lambda>h. fst (rs ! h)) ` {..<length rs}"
proof -
  assume "stream H es rs db"
  then have look: "fmlookup (db_roots db) i = Some row \<longleftrightarrow> (i, row) \<in> set rs" for i row by (simp add: stream_def)
  have "fmdom' (db_roots db) = fst ` set rs" unfolding set_eq_iff fmlookup_dom'_iff look by (simp add: image_iff Bex_def)
  also have "set rs = (!) rs ` {..<length rs}" by (auto simp: set_conv_nth)
  finally show ?thesis by (simp add: image_image)
qed

lemma sorted_by_index: "sorted (map (\<lambda>h. (h :: nat, f h :: hash)) [0..<n])"
proof (induction n)
  case (Suc n)
  then show ?case by (auto simp: sorted_append)
qed simp

lemma roots_asc_stream:
  assumes "stream H es rs db"
  shows "roots_asc db = map fst rs"
proof -
  let ?f = "\<lambda>i. (rr_height (the (fmlookup (db_roots db) i)), i)" and ?l = "map (\<lambda>h. (h, fst (rs ! h))) [0..<length rs]"
  have "?f ` fmdom' (db_roots db) = (\<lambda>h. (h, fst (rs ! h))) ` {..<length rs}"
    unfolding stream_dom [OF assms] image_image
    by (intro image_cong refl) (simp add: stream_lookup [OF assms] root_ok_height [OF assms])
  then have "?f ` fmdom' (db_roots db) = set ?l" by (simp add: atLeast_upt)
  moreover have "sorted ?l" by (rule sorted_by_index)
  moreover have "distinct ?l" by (simp add: distinct_map inj_on_def)
  ultimately have "sorted_list_of_set (?f ` fmdom' (db_roots db)) = ?l"
    by (simp only: sorted_list_of_set.idem_if_sorted_distinct)
  then have "roots_asc db = map (\<lambda>h. fst (rs ! h)) [0..<length rs]" by (simp add: roots_asc_def)
  also have "\<dots> = map fst rs" by (rule nth_equalityI) simp_all
  finally show ?thesis .
qed

section \<open>Publications of the stream\<close>

definition published :: "(byte list \<Rightarrow> hash) \<Rightarrow> hash list \<Rightarrow> (hash \<times> root_row) list \<Rightarrow> nat \<Rightarrow> root_publication \<Rightarrow> bool" where
  "published H es rs h p \<longleftrightarrow> rp_height p = h \<and> rp_root p = fst (rs ! h) \<and> rp_tree_size p = rr_tree_size (snd (rs ! h)) \<and>
     rp_moment p = rr_moment_id (snd (rs ! h)) \<and>
     (if h = 0 then rp_consistency p = None
      else \<exists>c. rp_consistency p = Some c \<and>
        prove_consistency H (leaves_of H (take (rp_tree_size p) es)) (rr_tree_size (snd (rs ! (h - 1)))) = Inr c)"

lemma stored_consistency: "prove_consistency H l m = Inr c \<Longrightarrow> consistency_from_path_bytes m (length l) (consistency_path_bytes c) = Inr c"
  using stored_path_roundtrip(2) [of c] by (auto simp: prove_consistency_def guard_def split: if_splits)

lemma stream_published:
  assumes "stream H es rs db" "h < length rs"
  shows "\<exists>p. row_to_publication db (fst (rs ! h)) = Inr p \<and> published H es rs h p"
proof -
  let ?row = "snd (rs ! h)"
  have ok: "rr_height ?row = h" "rr_tree_size ?row \<le> length es" "extends H es (if h = 0 then None else Some (rs ! (h - 1))) ?row"
    using stream_root [OF assms] by (simp_all add: root_ok_def Let_def)
  show ?thesis
  proof (cases "h = 0")
    case True
    then show ?thesis using ok stream_lookup [OF assms]
      by (simp add: row_to_publication_def extends_def published_def Let_def rbind_def)
  next
    case False
    then obtain c where c: "rr_prev_root ?row = Some (fst (rs ! (h - 1)))" "rr_consistency ?row = Some (consistency_path_bytes c)"
      "prove_consistency H (leaves_of H (take (rr_tree_size ?row) es)) (rr_tree_size (snd (rs ! (h - 1)))) = Inr c"
      using ok(3) by (auto simp: extends_def split: prod.splits)
    have "length (leaves_of H (take (rr_tree_size ?row) es)) = rr_tree_size ?row" using ok(2) by (simp add: leaves_of_def)
    with stored_consistency [OF c(3)] c False assms(2) ok(1) show ?thesis
      by (simp add: row_to_publication_def stream_lookup [OF assms] stream_lookup [OF assms(1)] published_def Let_def rbind_def proof_or_def)
  qed
qed

lemma latest_root_stream:
  assumes "stream H es rs db"
  shows "rs = [] \<Longrightarrow> latest_root db = Inr None"
    "rs \<noteq> [] \<Longrightarrow> \<exists>p. latest_root db = Inr (Some p) \<and> published H es rs (length rs - 1) p"
proof -
  show "rs = [] \<Longrightarrow> latest_root db = Inr None" by (simp add: latest_root_def roots_asc_stream [OF assms])
  assume ne: "rs \<noteq> []"
  then have "rev (map fst rs) = fst (rs ! (length rs - 1)) # rev (map fst (butlast rs))"
    by (cases rs rule: rev_cases) auto
  with stream_published [OF assms, of "length rs - 1"] ne show "\<exists>p. latest_root db = Inr (Some p) \<and> published H es rs (length rs - 1) p"
    by (auto simp: latest_root_def roots_asc_stream [OF assms] rbind_def)
qed

section \<open>Sealing an epoch\<close>

lemma append_log_lookup:
  "fmlookup (append_log h es seq log) k =
     (if seq \<le> k \<and> k < seq + length es then Some \<lparr>lr_event = es ! (k - seq), lr_epoch = h\<rparr> else fmlookup log k)"
proof (induction es arbitrary: seq log)
  case (Cons e es)
  have "append_log h (e # es) seq log = append_log h es (Suc seq) (fmupd seq \<lparr>lr_event = e, lr_epoch = h\<rparr> log)"
    by (simp add: append_log_def upt_conv_Cons del: upt_Suc)
  then show ?case by (auto simp: Cons nth_Cons' not_less_eq_eq)
qed (auto simp: append_log_def)

lemma log_counts: "log_is es db \<Longrightarrow> next_seq db = length es \<and> committed_leaf_count db = length es"
  by (cases "length es") (simp_all add: next_seq_def committed_leaf_count_def log_keys)

lemma unsealed_stream:
  assumes "log_is es db"
  shows "unsealed db = filter (\<lambda>e. e \<notin> set es) (keys (tb_events (ad_ledger db)))"
proof -
  have "list_ex (\<lambda>s. lr_event (the (fmlookup (ad_log db) s)) = e) (keys (ad_log db)) \<longleftrightarrow> e \<in> set es" for e
    using assms by (auto simp: log_keys list_ex_iff log_is_def in_set_conv_nth)
  then show ?thesis by (simp add: unsealed_def)
qed

lemma log_appended:
  assumes "log_is es db" "added = unsealed db"
  shows "log_is (es @ added) (db\<lparr>ad_log := append_log height added (next_seq db) (ad_log db)\<rparr>)"
proof -
  have "distinct added" "set added \<inter> set es = {}" "set added \<subseteq> fmdom' (tb_events (ad_ledger db))"
    by (auto simp: assms(2) unsealed_stream [OF assms(1)])
  moreover have "fmdom' (append_log height added (length es) (ad_log db)) = {..<length (es @ added)}"
  proof (rule set_eqI)
    fix k
    have "fmlookup (ad_log db) k \<noteq> None \<longleftrightarrow> k < length es" using assms(1) by (metis fmdom'_notI fmdom'_notD lessThan_iff log_is_def)
    then show "k \<in> fmdom' (append_log height added (length es) (ad_log db)) \<longleftrightarrow> k \<in> {..<length (es @ added)}"
      by (auto simp: fmlookup_dom'_iff append_log_lookup split: if_splits)
  qed
  ultimately show ?thesis using assms(1) log_counts [OF assms(1)]
    by (auto simp: log_is_def append_log_lookup nth_append)
qed

lemma root_ok_more:
  assumes "root_ok H es rs h" "h < length rs"
  shows "root_ok H (es @ added) (rs @ later) h"
  using assms by (auto simp: root_ok_def Let_def nth_append extends_def split: prod.splits)

definition sealed_row :: "(byte list \<Rightarrow> hash) \<Rightarrow> hash list \<Rightarrow> hash list \<Rightarrow> (hash \<times> root_row) list \<Rightarrow> root_row \<Rightarrow> bool" where
  "sealed_row H es added rs row \<longleftrightarrow> rr_height row = length rs \<and> rr_tree_size row = length (es @ added) \<and>
     extends H (es @ added) (if rs = [] then None else Some (last rs)) row"

lemma stream_grows:
  assumes s: "stream H es rs db" and log: "log_is (es @ added) db1" and added: "added \<noteq> []" and roots: "db_roots db1 = db_roots db"
    and row: "sealed_row H es added rs row" and fresh: "\<not> has (db_roots db) root"
    and root: "root = merkle_root H (leaves_of H (es @ added))"
  shows "stream H (es @ added) (rs @ [(root, row)]) (set_roots (fmupd root row) db1)"
proof -
  have new: "fmlookup (db_roots db) root = None" using fresh by (auto simp: has_def)
  have look: "fmlookup (db_roots db) i = Some r \<longleftrightarrow> (i, r) \<in> set rs" for i r using s by (simp add: stream_def)
  have out: "root \<notin> fst ` set rs" using new look by force
  have "root_ok H (es @ added) (rs @ [(root, row)]) h" if "h < length (rs @ [(root, row)])" for h
  proof (cases "h = length rs")
    case True
    then show ?thesis using row added root
      by (cases rs rule: rev_cases) (auto simp: root_ok_def sealed_row_def Let_def nth_append)
  next
    case False
    with that have h: "h < length rs" by simp
    show ?thesis by (rule root_ok_more [OF stream_root [OF s h] h])
  qed
  moreover have "fmlookup (fmupd root row (db_roots db)) i = Some r \<longleftrightarrow> (i, r) \<in> set (rs @ [(root, row)])" for i r
    using new look [of root r] by (auto simp: look)
  moreover have "distinct (map fst (rs @ [(root, row)]))" using s out by (simp add: stream_def)
  ultimately show ?thesis using log row
    by (simp add: stream_def log_is_def set_roots_def db_roots_def roots [unfolded db_roots_def] sealed_row_def)
qed

lemma seal_stream:
  assumes s: "stream H es rs db"
  obtains (unchanged) r h where "unsealed db = []" "seal_epoch H db = Inr (Unchanged r h, db)"
  | (clash) "unsealed db \<noteq> []" "has (db_roots db) (merkle_root H (leaves_of H (es @ unsealed db)))"
      "seal_epoch H db = Inl (AE_Db ''roots_pkey'')"
  | (published) p row db' where "unsealed db \<noteq> []" "seal_epoch H db = Inr (Published p, db')"
      "rp_root p = merkle_root H (leaves_of H (es @ unsealed db))" "rp_height p = length rs" "rp_tree_size p = length (es @ unsealed db)"
      "stream H (es @ unsealed db) (rs @ [(rp_root p, row)]) db'"
      "ad_ledger db' = (ad_ledger db)\<lparr>tb_roots := tb_roots (ad_ledger db')\<rparr>" "ad_proofs db' = ad_proofs db"
proof -
  have log: "log_is es db" and "rs = [] \<Longrightarrow> es = []" "rs \<noteq> [] \<Longrightarrow> rr_tree_size (snd (last rs)) = length es"
    using s by (simp_all add: stream_def)
  note size = this(2,3)
  obtain prev where prev: "latest_root db = Inr prev" "prev = None \<longleftrightarrow> rs = []"
    "\<And>p. prev = Some p \<Longrightarrow> published H es rs (length rs - 1) p"
    using latest_root_stream [OF s] by (cases "rs = []") fastforce+
  let ?added = "unsealed db"
  let ?db1 = "db\<lparr>ad_log := append_log (case prev of None \<Rightarrow> 0 | Some p \<Rightarrow> rp_height p + 1) ?added (next_seq db) (ad_log db)\<rparr>"
  let ?leaves = "leaves_of H (es @ ?added)"
  let ?root = "merkle_root H ?leaves"
  have "db_roots ?db1 = db_roots db" by (simp add: db_roots_def)
  note grow = stream_grows [OF s log_appended [OF log refl] _ this]
  have lost: "\<not> (prev = None \<and> 0 < length es)" using prev(2) size(1) by auto
  have load: "load_leaves H ?db1 = Inr ?leaves" by (rule load_leaves_stream [OF log_appended [OF log refl]])
  have height: "(case prev of None \<Rightarrow> 0 | Some p \<Rightarrow> rp_height p + 1) = length rs"
    using prev(2,3) by (cases prev) (auto simp: published_def)
  show thesis
  proof (cases "?added = []")
    case True
    show thesis
      by (rule unchanged [OF True, of "case prev of Some p \<Rightarrow> rp_root p | None \<Rightarrow> merkle_root H []" "case prev of Some p \<Rightarrow> rp_height p | None \<Rightarrow> 0"])
        (use True lost in \<open>simp add: seal_epoch_def prev(1) rbind_def seal_with_def log_counts [OF log] guard_def Let_def split: option.split\<close>)
  next
    case False
    obtain c where c: "(case prev of None \<Rightarrow> Inr None
          | Some p \<Rightarrow> rbind (proof_or (prove_consistency H ?leaves (rp_tree_size p))) (\<lambda>c. Inr (Some c))) = Inr c"
      "extends H (es @ ?added) (if rs = [] then None else Some (last rs))
        \<lparr>rr_height = length rs, rr_tree_size = length ?leaves, rr_prev_root = map_option rp_root prev,
         rr_consistency = map_option consistency_path_bytes c, rr_moment_id = None\<rparr>"
    proof (cases prev)
      case None
      with that [of None] prev(2) show thesis by (simp add: extends_def)
    next
      case (Some p)
      with prev have p: "rs \<noteq> []" "rp_root p = fst (last rs)" "rp_tree_size p = length es"
        using size(2) by (auto simp: published_def last_conv_nth)
      have "root_ok H es rs (length rs - 1)" using stream_root [OF s] p(1) by simp
      then have pos: "0 < length es" using size(2) p(1) by (simp add: root_ok_def Let_def last_conv_nth)
      obtain c where "prove_consistency H ?leaves (length es) = Inr c"
        using consistency_verifies [OF pos, of ?leaves H] by (auto simp: leaves_of_def)
      with that [of "Some c"] Some p size(2) False show thesis
        by (cases "last rs") (auto simp: rbind_def proof_or_def extends_def leaves_of_def)
    qed
    let ?row = "\<lparr>rr_height = length rs, rr_tree_size = length ?leaves, rr_prev_root = map_option rp_root prev,
         rr_consistency = map_option consistency_path_bytes c, rr_moment_id = None\<rparr>"
    let ?p = "\<lparr>rp_height = length rs, rp_root = ?root, rp_tree_size = length ?leaves, rp_prev_root = map_option rp_root prev,
         rp_consistency = c, rp_moment = None\<rparr>"
    have seal: "seal_epoch H db = (if has (db_roots db) ?root then Inl (AE_Db ''roots_pkey'')
        else Inr (Published ?p, set_roots (fmupd ?root ?row) ?db1))"
      using False lost load c(1) by (simp add: seal_epoch_def prev(1) rbind_def seal_with_def log_counts [OF log] guard_def height Let_def)
    show thesis
    proof (cases "has (db_roots db) ?root")
      case True
      with seal False show thesis by (intro clash) simp_all
    next
      case fresh: False
      show thesis
        by (rule published [of ?p "set_roots (fmupd ?root ?row) ?db1" ?row])
          (use False fresh seal c(2) grow [OF False _ fresh refl, of ?row] in \<open>simp_all add: sealed_row_def leaves_of_def set_roots_def\<close>)
    qed
  qed
qed

end
