(* ===== verification/Anchor_Steps.thy ===== *)
theory Anchor_Steps
  imports Anchor_Stream
begin

text \<open>
  The databases that the operations of the ledger side reach. Each operation is a sequence of single writes: a commit, a
  rebuilt view, a sealed epoch, a recorded root, a stored proof, a first stamp, a confirmation.
\<close>

section \<open>Single writes\<close>

inductive single_write :: "crypto \<Rightarrow> anchor_db \<Rightarrow> anchor_db \<Rightarrow> bool" for cy where
  event: "commit_event cy s prov (ad_ledger db) = Some (r, t) \<Longrightarrow> single_write cy db (db\<lparr>ad_ledger := t\<rparr>)"
| refold: "rebuild cy (ad_ledger db) = (r, t) \<Longrightarrow> single_write cy db (db\<lparr>ad_ledger := t\<rparr>)"
| epoch: "seal_epoch (cy_hash cy) db = Inr (out, db') \<Longrightarrow> single_write cy db db'"
| moment: "fmlookup (db_roots db) root = Some row \<Longrightarrow> has (tb_events (ad_ledger db)) i \<Longrightarrow>
    single_write cy db (set_roots (fmupd root (row\<lparr>rr_moment_id := Some i\<rparr>)) db)"
| evidence: "proof_from_bytes proof = Inr proof \<Longrightarrow> \<not> has (ad_proofs db) (blob_hash (cy_hash cy) proof) \<Longrightarrow>
    single_write cy db (db\<lparr>ad_proofs := fmupd (blob_hash (cy_hash cy) proof) proof (ad_proofs db)\<rparr>)"
| stamp: "has (db_roots db) root \<Longrightarrow> \<not> has (db_anchors db) root \<Longrightarrow> has (ad_proofs db) blob \<Longrightarrow> has (tb_events (ad_ledger db)) i \<Longrightarrow>
    single_write cy db (set_anchors (fmupd root \<lparr>ar_status = status_to_i16 AS_Pending, ar_ots_blob_hash = blob, ar_calendar_url = url,
      ar_block_height = None, ar_txid = None, ar_moment_id = i\<rparr>) db)"
| confirmation: "fmlookup (db_anchors db) root = Some row \<Longrightarrow> ar_status row = status_to_i16 AS_Pending \<Longrightarrow> 0 \<le> sint height \<Longrightarrow>
    has (tb_events (ad_ledger db)) i \<Longrightarrow>
    single_write cy db (set_anchors (fmupd root (row\<lparr>ar_status := status_to_i16 AS_Confirmed, ar_block_height := Some height,
      ar_txid := txid, ar_moment_id := i\<rparr>)) db)"

text \<open>The calls a node, a publisher and the operator of an anchor make.\<close>

inductive anchor_step :: "crypto \<Rightarrow> node_key \<Rightarrow> anchor_db \<Rightarrow> anchor_db \<Rightarrow> bool" for cy key where
  commit: "gated cy s \<Longrightarrow> commit_event cy s prov (ad_ledger db) = Some (r, t) \<Longrightarrow> anchor_step cy key db (db\<lparr>ad_ledger := t\<rparr>)"
| rebuild: "rebuild cy (ad_ledger db) = (r, t) \<Longrightarrow> anchor_step cy key db (db\<lparr>ad_ledger := t\<rparr>)"
| seal: "seal_epoch (cy_hash cy) db = Inr (out, db') \<Longrightarrow> anchor_step cy key db db'"
| record_root: "record_root_moment cy key p now db = Some (r, db') \<Longrightarrow> anchor_step cy key db db'"
| publish: "publish_root cy key now db = Some (r, db') \<Longrightarrow> anchor_step cy key db db'"
| record_stamp: "record_stamp cy key root proof url now db = Some (r, db') \<Longrightarrow> anchor_step cy key db db'"
| confirm: "confirm_anchor cy key root height txid now db = Some (r, db') \<Longrightarrow> anchor_step cy key db db'"
| anchor: "anchor_root cy key root url reply now db = Some (r, db') \<Longrightarrow> anchor_step cy key db db'"
| upgrade: "upgrade_anchor cy key fetch root now db = Some (r, db') \<Longrightarrow> anchor_step cy key db db'"

definition empty_anchor_db :: anchor_db where
  "empty_anchor_db = \<lparr>ad_ledger = empty_tables, ad_log = fmempty, ad_proofs = fmempty\<rparr>"

definition anchored :: "crypto \<Rightarrow> node_key \<Rightarrow> anchor_db \<Rightarrow> bool" where
  "anchored cy key db \<longleftrightarrow> (anchor_step cy key)\<^sup>*\<^sup>* empty_anchor_db db"

section \<open>Operations as sequences of writes\<close>

abbreviation writes :: "crypto \<Rightarrow> anchor_db \<Rightarrow> anchor_db \<Rightarrow> bool" where
  "writes cy \<equiv> (single_write cy)\<^sup>*\<^sup>*"

lemma commit_kept:
  assumes "commit_event cy s prov t = Some (r, t')"
  shows "tb_roots t' = tb_roots t" "tb_anchors t' = tb_anchors t" "tb_exhibits t' = tb_exhibits t"
    "has (tb_events t) i \<Longrightarrow> has (tb_events t') i" "fmdom' (tb_events t) \<subseteq> fmdom' (tb_events t')"
proof -
  have "tb_roots t' = tb_roots t \<and> tb_anchors t' = tb_anchors t \<and> tb_exhibits t' = tb_exhibits t \<and>
      (has (tb_events t) i \<longrightarrow> has (tb_events t') i) \<and> fmdom' (tb_events t) \<subseteq> fmdom' (tb_events t')" for i
    using assms by (cases rule: commit_event_cases) (auto simp: has_def fmdom'_fmupd split: if_splits)
  then show "tb_roots t' = tb_roots t" "tb_anchors t' = tb_anchors t" "tb_exhibits t' = tb_exhibits t"
    "has (tb_events t) i \<Longrightarrow> has (tb_events t') i" "fmdom' (tb_events t) \<subseteq> fmdom' (tb_events t')" by blast+
qed

lemma rebuild_kept:
  assumes "rebuild cy t = (r, t')"
  shows "tb_roots t' = tb_roots t" "tb_anchors t' = tb_anchors t" "tb_events t' = tb_events t"
  using assms by (auto simp: rebuild_def Let_def split: sum.splits)

lemma commit_stored:
  assumes "commit_event cy s prov t = Some (Inr x, t')"
  shows "has (tb_events t') (se_id s)"
proof -
  show ?thesis
    using assms
    by (auto simp: commit_event_def commit_in_tx_def append_event_def rbind_def has_def guard_def
        split: Option.bind_splits option.splits sum.splits if_splits)
qed

lemma commit_node_writes:
  assumes "commit_node cy s db = Some (r, db')"
  shows "writes cy db db'" "db_roots db' = db_roots db" "db_anchors db' = db_anchors db" "ad_log db' = ad_log db" "ad_proofs db' = ad_proofs db"
    "r = Inr () \<Longrightarrow> has (tb_events (ad_ledger db')) (se_id s)"
proof -
  from assms obtain q t where c: "commit_event cy s None (ad_ledger db) = Some (q, t)" "db' = db\<lparr>ad_ledger := t\<rparr>"
    "r = (case q of Inl e \<Rightarrow> Inl (AE_Ledger e) | Inr _ \<Rightarrow> Inr ())" by (auto simp: commit_node_def)
  show "writes cy db db'" using single_write.event [OF c(1)] c(2) by blast
  show "db_roots db' = db_roots db" "db_anchors db' = db_anchors db" "ad_log db' = ad_log db" "ad_proofs db' = ad_proofs db"
    using commit_kept [OF c(1)] c(2) by (simp_all add: db_roots_def db_anchors_def)
  show "has (tb_events (ad_ledger db')) (se_id s)" if "r = Inr ()"
    using that c by (cases q) (auto dest: commit_stored)
qed

lemma record_root_writes:
  assumes "record_root_moment cy key p now db = Some (r, db')"
  shows "writes cy db db'"
proof -
  from assms obtain s q db1 where s: "node_moment cy key (root_body_hash (cy_hash cy) p) None now = Some s"
    "commit_node cy s db = Some (q, db1)"
    "(r, db') = (case q of Inl e \<Rightarrow> (Inl e, db1)
       | Inr _ \<Rightarrow> (Inr (se_id s), set_roots (\<lambda>m. case fmlookup m (rp_root p) of None \<Rightarrow> m
           | Some row \<Rightarrow> fmupd (rp_root p) (row\<lparr>rr_moment_id := Some (se_id s)\<rparr>) m) db1))"
    by (auto simp: record_root_moment_def split: Option.bind_splits)
  note c = commit_node_writes [OF s(2)]
  show ?thesis
  proof (cases "\<exists>row. q = Inr () \<and> fmlookup (db_roots db1) (rp_root p) = Some row")
    case True
    then obtain row where row: "q = Inr ()" "fmlookup (db_roots db1) (rp_root p) = Some row" by blast
    then have "db' = set_roots (fmupd (rp_root p) (row\<lparr>rr_moment_id := Some (se_id s)\<rparr>)) db1"
      using s(3) by (simp add: set_roots_def)
    with single_write.moment [OF row(2) c(6) [OF row(1)]] c(1) show ?thesis by (simp add: rtranclp.rtrancl_into_rtrancl)
  next
    case False
    then have "db' = db1" using s(3) by (cases q) (auto simp: set_roots_def db_roots_def split: option.splits)
    with c(1) show ?thesis by simp
  qed
qed

lemma publish_writes:
  assumes "publish_root cy key now db = Some (r, db')"
  shows "writes cy db db'"
proof (cases "seal_epoch (cy_hash cy) db")
  case (Inl e)
  with assms show ?thesis by (simp add: publish_root_def)
next
  case (Inr x)
  then obtain out db1 where x: "seal_epoch (cy_hash cy) db = Inr (out, db1)" by (cases x) simp
  show ?thesis
  proof (cases out)
    case (Published p)
    with assms x obtain q where "record_root_moment cy key p now db1 = Some (q, db')" by (auto simp: publish_root_def)
    from record_root_writes [OF this] single_write.epoch [OF x] show ?thesis by (meson converse_rtranclp_into_rtranclp)
  next
    case (Unchanged h n)
    with assms x show ?thesis by (simp add: publish_root_def)
  qed
qed

lemma anchor_for_cases:
  assumes "anchor_for db root = Inr a"
  shows "a = None \<and> fmlookup (db_anchors db) root = None \<or>
    (\<exists>row r. a = Some r \<and> fmlookup (db_anchors db) root = Some row \<and> status_from_i16 (ar_status row) = Some (an_status r) \<and>
      an_root r = root \<and> an_ots_blob_hash r = ar_ots_blob_hash row \<and> an_calendar_url r = ar_calendar_url row \<and>
      an_block_height r = ar_block_height row \<and> an_moment r = ar_moment_id row)"
  using assms by (auto simp: anchor_for_def row_to_anchor_def rbind_eq_Inr split: option.splits)

lemma root_by_id_has: "root_by_id db root = Inr p \<Longrightarrow> has (db_roots db) root"
  by (auto simp: root_by_id_def split: if_splits)

lemma store_proof_cases:
  assumes "store_proof H proof db = Inr db1"
  shows "has (ad_proofs db1) (blob_hash H proof)" "ad_ledger db1 = ad_ledger db"
    "db1 = db \<or> (\<not> has (ad_proofs db) (blob_hash H proof) \<and> db1 = db\<lparr>ad_proofs := fmupd (blob_hash H proof) proof (ad_proofs db)\<rparr>)"
  using assms by (auto simp: store_proof_def guard_def has_def split: if_splits option.splits)

lemma commits_to_parses: "commits_to proof root = Inr () \<Longrightarrow> proof_from_bytes proof = Inr proof"
  by (auto simp: commits_to_def proof_from_bytes_def rbind_eq_Inr)

lemma record_stamp_writes:
  assumes "record_stamp cy key root proof url now db = Some (r, db')"
  shows "writes cy db db'"
proof (cases "rbind (ots_or (commits_to proof root)) (\<lambda>_. rbind (root_by_id db root) (\<lambda>p. rbind (anchor_for db root) (\<lambda>a.
        guard (a \<noteq> None) (AE_AnchorState root ''already stamped; a second stamp would replace settled evidence'')
        (rbind (store_proof (cy_hash cy) proof db) (\<lambda>db1. Inr (p, db1))))))")
  case (Inl e)
  with assms show ?thesis by (simp add: record_stamp_def)
next
  case (Inr x)
  then obtain p db1 where x: "x = (p, db1)" and known: "has (db_roots db) root" "commits_to proof root = Inr ()"
    "fmlookup (db_anchors db) root = None" "store_proof (cy_hash cy) proof db = Inr db1"
    by (auto simp: rbind_eq_Inr guard_eq_Inr ots_or_def split: sum.splits dest!: anchor_for_cases root_by_id_has)
  note stored = store_proof_cases [OF known(4)]
  have 1: "writes cy db db1"
    using stored(3) single_write.evidence [OF commits_to_parses [OF known(2)], of db cy] by blast
  let ?blob = "blob_hash (cy_hash cy) proof"
  from assms x Inr obtain s q db2 where s: "anchor_moment cy key p AS_Pending ?blob url None None None now = Some s"
    "commit_node cy s db1 = Some (q, db2)"
    "(r, db') = (case q of Inl e \<Rightarrow> (Inl e, db2)
          | Inr _ \<Rightarrow> if \<not> text_ok url then (Inl (AE_Db ''text''), db2)
            else let db3 = set_anchors (fmupd root \<lparr>ar_status = status_to_i16 AS_Pending, ar_ots_blob_hash = ?blob, ar_calendar_url = url,
                   ar_block_height = None, ar_txid = None, ar_moment_id = se_id s\<rparr>) db2 in
              (reload_anchor db3 root ''the anchor row vanished immediately after being written'', db3))"
    by (auto simp: record_stamp_def Let_def split: Option.bind_splits)
  note c = commit_node_writes [OF s(2)]
  have 2: "writes cy db db2" using 1 c(1) by simp
  show ?thesis
  proof (cases "q = Inr () \<and> text_ok url")
    case True
    have "single_write cy db2 (set_anchors (fmupd root \<lparr>ar_status = status_to_i16 AS_Pending, ar_ots_blob_hash = ?blob, ar_calendar_url = url,
                   ar_block_height = None, ar_txid = None, ar_moment_id = se_id s\<rparr>) db2)"
      by (rule single_write.stamp) (use True known stored c in \<open>simp_all add: db_roots_def db_anchors_def has_def\<close>)
    with 2 True s(3) show ?thesis by (simp add: Let_def rtranclp.rtrancl_into_rtrancl)
  next
    case False
    with 2 s(3) show ?thesis by (auto split: sum.splits if_splits)
  qed
qed

lemma confirm_anchor_writes:
  assumes "confirm_anchor cy key root height txid now db = Some (r, db')"
  shows "writes cy db db'"
proof (cases "rbind (root_by_id db root) (\<lambda>p. rbind (anchor_for db root) (\<lambda>a. case a of
        None \<Rightarrow> Inl (AE_AnchorState root ''no stamp to confirm'')
      | Some held \<Rightarrow> guard (an_status held = AS_Confirmed) (AE_AnchorState root ''already confirmed; settlement is recorded once'')
          (Inr (p, held))))")
  case (Inl e)
  with assms show ?thesis by (simp add: confirm_anchor_def)
next
  case (Inr x)
  then obtain p held row where x: "x = (p, held)" and known: "fmlookup (db_anchors db) root = Some row"
    "status_from_i16 (ar_status row) = Some AS_Pending"
    by (auto simp: rbind_eq_Inr guard_eq_Inr split: option.splits dest!: anchor_for_cases) (metis anchor_status.exhaust)
  from assms x Inr obtain s q db1 where s: "anchor_moment cy key p AS_Confirmed (an_ots_blob_hash held) (an_calendar_url held)
      (Some height) txid (Some (an_moment held)) now = Some s"
    "commit_node cy s db = Some (q, db1)"
    "(r, db') = (case q of Inl e \<Rightarrow> (Inl e, db1)
          | Inr _ \<Rightarrow> if sint height < 0 then (Inl (AE_Db ''anchors_confirmed_has_height''), db1)
            else let db2 = set_anchors (\<lambda>m. case fmlookup m root of None \<Rightarrow> m | Some row \<Rightarrow> fmupd root
                   (row\<lparr>ar_status := status_to_i16 AS_Confirmed, ar_block_height := Some height, ar_txid := txid, ar_moment_id := se_id s\<rparr>) m) db1 in
              (reload_anchor db2 root ''the anchor row vanished immediately after being confirmed'', db2))"
    by (auto simp: confirm_anchor_def Let_def split: Option.bind_splits)
  note c = commit_node_writes [OF s(2)]
  show ?thesis
  proof (cases "q = Inr () \<and> 0 \<le> sint height")
    case True
    let ?db2 = "set_anchors (fmupd root (row\<lparr>ar_status := status_to_i16 AS_Confirmed, ar_block_height := Some height,
      ar_txid := txid, ar_moment_id := se_id s\<rparr>)) db1"
    have "single_write cy db1 ?db2"
      by (rule single_write.confirmation) (use True known c in \<open>auto simp: status_from_i16_def split: if_splits\<close>)
    moreover have "db' = ?db2" using True s(3) known(1) c(3) by (simp add: Let_def set_anchors_def)
    ultimately show ?thesis using c(1) by (simp add: rtranclp.rtrancl_into_rtrancl)
  next
    case False
    with c(1) s(3) show ?thesis by (auto split: sum.splits if_splits)
  qed
qed

lemma upgrade_loop_writes:
  "upgrade_loop cy key fetch root now held ps db = Some (r, db') \<Longrightarrow> writes cy db db'"
proof (induction cy key fetch root now held ps db arbitrary: r db' rule: upgrade_loop.induct)
  case (2 cy key fetch root now held calendar commitment rest db)
  from 2(3) show ?case
    by (auto split: sum.splits option.splits Option.bind_splits
      intro: 2(1) 2(2)) (metis confirm_anchor_writes sum.exhaust)
qed simp

theorem step_writes:
  assumes "anchor_step cy key db db'"
  shows "writes cy db db'"
  using assms
proof cases
  case (commit s prov r t)
  then show ?thesis using single_write.event by blast
next
  case (rebuild r t)
  then show ?thesis using single_write.refold by blast
next
  case (seal out)
  then show ?thesis using single_write.epoch by blast
next
  case (anchor root url reply now r)
  then show ?thesis using record_stamp_writes
    by (auto simp: anchor_root_def split: sum.splits Option.bind_splits)
next
  case (upgrade fetch root now r)
  then show ?thesis using upgrade_loop_writes
    by (auto simp: upgrade_anchor_def split: sum.splits Option.bind_splits option.splits if_splits)
next
  case (record_stamp root evidence url now r)
  then show ?thesis by (rule record_stamp_writes)
next
  case (confirm root height txid now r)
  then show ?thesis by (rule confirm_anchor_writes)
qed (use record_root_writes publish_writes in blast)+

end
