(* ===== verification/Anchor_Properties.thy ===== *)
theory Anchor_Properties
  imports Anchor_Results
begin

text \<open>
  What every anchored database promises: the audit of its root stream passes, a committed event has an inclusion proof
  against the first root that covers it, sealing covers every stored event, roots and settled anchors never change.
\<close>

section \<open>The audit of the stream\<close>

lemma audit_rows_stream:
  assumes s: "stream H es rs db"
  shows "k \<le> length rs \<Longrightarrow> (if k = 0 then prev = None else \<exists>q. prev = Some q \<and> published H es rs (k - 1) q) \<Longrightarrow>
    audit_rows H db (leaves_of H es) prev (map fst (drop k rs)) audit =
      Inr (audit\<lparr>ca_roots_checked := ca_roots_checked audit + (length rs - k),
        ca_proofs_verified := ca_proofs_verified audit + (length rs - max 1 k),
        ca_unrecorded := ca_unrecorded audit + length (filter (\<lambda>x. rr_moment_id (snd x) = None) (drop k rs))\<rparr>)"
proof (induction "length rs - k" arbitrary: k prev audit)
  case 0
  then show ?case by simp
next
  case (Suc n)
  then have k: "k < length rs" "n = length rs - Suc k" by simp_all
  obtain p where p: "row_to_publication db (fst (rs ! k)) = Inr p" "published H es rs k p"
    using stream_published [OF s k(1)] by blast
  let ?row = "snd (rs ! k)"
  have ok: "0 < rr_tree_size ?row" "rr_tree_size ?row \<le> length es" "fst (rs ! k) = merkle_root H (leaves_of H (take (rr_tree_size ?row) es))"
    "extends H es (if k = 0 then None else Some (rs ! (k - 1))) ?row"
    using stream_root [OF s k(1)] by (simp_all add: root_ok_def Let_def)
  have leaves: "length (leaves_of H es) = length es" "take n (leaves_of H es) = leaves_of H (take n es)" for n
    by (simp_all add: leaves_of_def take_map)
  have verified: "verify_consistency H c (rp_root q) (rp_root p)"
    if "k \<noteq> 0" "published H es rs (k - 1) q" "rp_consistency p = Some c" for q c
  proof -
    let ?m = "rr_tree_size (snd (rs ! (k - 1)))"
    have "root_ok H es rs (k - 1)" using stream_root [OF s] k(1) by simp
    then have m: "0 < ?m" "fst (rs ! (k - 1)) = merkle_root H (leaves_of H (take ?m es))" by (simp_all add: root_ok_def Let_def)
    have less: "?m < rr_tree_size ?row" using ok(4) that(1) by (auto simp: extends_def split: prod.splits)
    with consistency_verifies [OF m(1), of "leaves_of H (take (rr_tree_size ?row) es)" H] ok(2) p(2) that m(2) ok(3)
    show ?thesis by (auto simp: published_def leaves_of_def take_map)
  qed
  let ?audit = "audit\<lparr>ca_roots_checked := ca_roots_checked audit + 1,
    ca_unrecorded := ca_unrecorded audit + (if rp_moment p = None then 1 else 0)\<rparr>"
  have drop: "drop k rs = rs ! k # drop (Suc k) rs" using k(1) by (simp add: Cons_nth_drop_Suc)
  have head: "audit_rows H db (leaves_of H es) prev (map fst (drop k rs)) audit =
      audit_rows H db (leaves_of H es) (Some p) (map fst (drop (Suc k) rs)) (?audit\<lparr>ca_proofs_verified := ca_proofs_verified audit + (if k = 0 then 0 else 1)\<rparr>)"
    unfolding drop list.map audit_rows.simps using p ok Suc.prems(2) verified
    by (cases "k = 0") (auto simp: rbind_def guard_def leaves published_def Let_def)
  show ?case
    unfolding head by (subst Suc.hyps(1) [OF k(2)]) (use k p in \<open>auto simp: drop published_def\<close>)
qed

text \<open>
  C20: the audit passes. On every database that the node's calls can reach, recomputing each root from the log and checking
  each consistency proof succeeds, counting the roots, the links between them, the leaves, and the roots no moment
  records.
\<close>

theorem audit_passes:
  assumes "anchored cy key db"
  shows "verify_root_chain (cy_hash cy) db = Inr \<lparr>ca_roots_checked = length (roots_asc db), ca_proofs_verified = length (roots_asc db) - 1,
    ca_leaves = committed_leaf_count db,
    ca_unrecorded = length (filter (\<lambda>i. rr_moment_id (the (fmlookup (db_roots db) i)) = None) (roots_asc db))\<rparr>"
proof -
  obtain es rs where s: "stream (cy_hash cy) es rs db" using anchored_inv [OF assms] by (auto simp: anchor_inv_def)
  then have log: "log_is es db" by (simp add: stream_def)
  have "map (\<lambda>x. rr_moment_id (the (fmlookup (db_roots db) (fst x)))) rs = map (\<lambda>x. rr_moment_id (snd x)) rs"
    by (rule nth_equalityI) (simp_all add: stream_lookup [OF s])
  then have "length (filter (\<lambda>i. rr_moment_id (the (fmlookup (db_roots db) i)) = None) (map fst rs)) =
      length (filter (\<lambda>x. rr_moment_id (snd x) = None) rs)"
    unfolding filter_map length_map comp_def by (metis (mono_tags, lifting) filter_cong map_eq_conv)
  with audit_rows_stream [OF s, of 0 None] show ?thesis
    by (simp add: verify_root_chain_def load_leaves_stream [OF log] rbind_def roots_asc_stream [OF s] log_counts [OF log] leaves_of_def)
qed

section \<open>Proofs about committed events\<close>

lemma find_upt: "i < n \<Longrightarrow> P i \<Longrightarrow> (\<And>j. j < i \<Longrightarrow> \<not> P j) \<Longrightarrow> List.find P [0..<n] = Some i"
  unfolding find_Some_iff by (intro exI [of _ i]) simp

lemma seq_of_stream:
  assumes "log_is es db"
  shows "s < length es \<Longrightarrow> seq_of db (es ! s) = Some s" "e \<notin> set es \<Longrightarrow> seq_of db e = None"
proof -
  have ev: "lr_event (the (fmlookup (ad_log db) k)) = es ! k" if "k < length es" for k using assms that by (simp add: log_is_def)
  have "distinct es" using assms by (simp add: log_is_def)
  then show "seq_of db (es ! s) = Some s" if "s < length es"
    unfolding seq_of_def log_keys [OF assms] using that ev by (intro find_upt) (auto simp: nth_eq_iff_index_eq)
  show "seq_of db e = None" if "e \<notin> set es"
    using that ev by (auto simp: seq_of_def log_keys [OF assms] find_None_iff)
qed

lemma committing_root_stream:
  assumes s: "stream H es rs db" and k: "k < length es"
  shows "\<exists>h<length rs. committing_root db k = Some (fst (rs ! h)) \<and> k < rr_tree_size (snd (rs ! h)) \<and>
    (\<forall>j<h. rr_tree_size (snd (rs ! j)) \<le> k)"
proof -
  let ?P = "\<lambda>i. k < rr_tree_size (the (fmlookup (db_roots db) i))"
  have "rs \<noteq> []" "rr_tree_size (snd (last rs)) = length es" using s k by (auto simp: stream_def)
  then have "\<exists>h. h < length rs \<and> k < rr_tree_size (snd (rs ! h))"
    using k by (intro exI [of _ "length rs - 1"]) (simp add: last_conv_nth)
  then obtain h where "h < length rs \<and> k < rr_tree_size (snd (rs ! h))" and
    "\<forall>j<h. \<not> (j < length rs \<and> k < rr_tree_size (snd (rs ! j)))"
    unfolding exists_least_iff [of "\<lambda>h. h < length rs \<and> k < rr_tree_size (snd (rs ! h))"] by blast
  then have h: "h < length rs" "k < rr_tree_size (snd (rs ! h))" and
    least: "\<And>j. j < h \<Longrightarrow> rr_tree_size (snd (rs ! j)) \<le> k" by (auto simp: not_less)
  have "List.find ?P (map fst rs) = Some (fst (rs ! h))"
    unfolding find_Some_iff using h least by (intro exI [of _ h]) (simp add: stream_lookup [OF s] not_less)
  with h least show ?thesis by (auto simp: committing_root_def roots_asc_stream [OF s])
qed

text \<open>The proof of a committed event, against the first root that covers it.\<close>

definition proved_by :: "(byte list \<Rightarrow> hash) \<Rightarrow> anchor_db \<Rightarrow> hash \<Rightarrow> nat \<Rightarrow> event_inclusion \<Rightarrow> bool" where
  "proved_by H db e s x \<longleftrightarrow> ei_event x = e \<and> ei_leaf x = leaf_hash H e \<and> verify_event H x \<and> ip_leaf_index (ei_proof x) = s \<and>
     (\<exists>row. fmlookup (db_roots db) (ei_root x) = Some row \<and> rr_height row = ei_height x \<and> s < rr_tree_size row) \<and>
     (\<forall>i row. fmlookup (db_roots db) i = Some row \<longrightarrow> rr_height row < ei_height x \<longrightarrow> rr_tree_size row \<le> s)"

lemma prove_event_stream:
  assumes s: "stream H es rs db" and k: "k < length es"
  shows "\<exists>x. prove_event H db (es ! k) = Some (Inr x) \<and> proved_by H db (es ! k) k x"
proof -
  have log: "log_is es db" using s by (simp add: stream_def)
  obtain h where h: "h < length rs" "committing_root db k = Some (fst (rs ! h))" "k < rr_tree_size (snd (rs ! h))"
    "\<forall>j<h. rr_tree_size (snd (rs ! j)) \<le> k"
    using committing_root_stream [OF s k] by blast
  let ?row = "snd (rs ! h)"
  let ?leaves = "leaves_of H (take (rr_tree_size ?row) es)"
  have ok: "rr_height ?row = h" "rr_tree_size ?row \<le> length es" "fst (rs ! h) = merkle_root H ?leaves"
    using stream_root [OF s h(1)] by (simp_all add: root_ok_def Let_def)
  obtain p where p: "row_to_publication db (fst (rs ! h)) = Inr p" "published H es rs h p"
    using stream_published [OF s h(1)] by blast
  have "k < length ?leaves" using h(3) ok(2) by (simp add: leaves_of_def)
  from inclusion_verifies [OF this, of H] obtain c where
    c: "prove_inclusion H ?leaves k = Inr c" "verify_inclusion H c (?leaves ! k) (merkle_root H ?leaves)" by blast
  have leaf: "?leaves ! k = leaf_hash H (es ! k)" using h(3) k by (simp add: leaves_of_def)
  have index: "ip_leaf_index c = k" using c(1) by (auto simp: prove_inclusion_def guard_def split: if_splits)
  have small: "rr_tree_size row \<le> k" if "fmlookup (db_roots db) i = Some row" "rr_height row < h" for i row
  proof -
    from that(1) s have "(i, row) \<in> set rs" by (simp add: stream_def)
    then obtain j where j: "j < length rs" "rs ! j = (i, row)" by (auto simp: in_set_conv_nth)
    then show ?thesis using root_ok_height [OF s j(1)] h(4) that(2) by auto
  qed
  have "prove_event H db (es ! k) = Some (Inr \<lparr>ei_event = es ! k, ei_leaf = ?leaves ! k, ei_root = rp_root p, ei_height = rp_height p, ei_proof = c\<rparr>)"
    using p(2) ok(2) c(1)
    by (simp add: prove_event_def seq_of_stream(1) [OF log k] h(2) p(1) load_leaves_stream [OF log] published_def proof_or_def rbind_def
      leaves_of_def take_map)
  moreover have "proved_by H db (es ! k) k \<lparr>ei_event = es ! k, ei_leaf = ?leaves ! k, ei_root = rp_root p, ei_height = rp_height p, ei_proof = c\<rparr>"
    using p(2) ok c(2) leaf index small h(3) stream_lookup [OF s h(1)] by (auto simp: proved_by_def verify_event_def published_def)
  ultimately show ?thesis by blast
qed

text \<open>
  C22: every committed event has a proof. For an event in the log of a reachable database the node returns an inclusion
  proof that verifies against a published root, the lowest that covers the event.
\<close>

theorem committed_events_proved:
  assumes "anchored cy key db" "fmlookup (ad_log db) s = Some row"
  shows "\<exists>x. prove_event (cy_hash cy) db (lr_event row) = Some (Inr x) \<and> proved_by (cy_hash cy) db (lr_event row) s x"
proof -
  obtain es rs where st: "stream (cy_hash cy) es rs db" using anchored_inv [OF assms(1)] by (auto simp: anchor_inv_def)
  then have "fmdom' (ad_log db) = {..<length es}" "s < length es \<Longrightarrow> lr_event row = es ! s"
    using assms(2) by (auto simp: stream_def log_is_def)
  moreover have "s \<in> fmdom' (ad_log db)" using assms(2) by (simp add: fmlookup_dom'_iff)
  ultimately show ?thesis using prove_event_stream [OF st, of s] by simp
qed

text \<open>
  C19: sealing covers the whole ledger. In particular the root stream is never lost, also after a rebuild of the
  ledger: it fails only when the new root is already a published one. Otherwise every event
  the ledger stores, and no other, has an inclusion proof afterwards, no event or anchor is touched, and until the
  ledger grows sealing again changes nothing.
\<close>

theorem seal_covers_ledger:
  assumes "anchored cy key db"
  shows "case seal_epoch (cy_hash cy) db of
      Inl e \<Rightarrow> e = AE_Db ''roots_pkey''
    | Inr (out, db') \<Rightarrow> tb_events (ad_ledger db') = tb_events (ad_ledger db) \<and> db_anchors db' = db_anchors db \<and>
        {e. \<exists>s x. prove_event (cy_hash cy) db' e = Some (Inr x) \<and> proved_by (cy_hash cy) db' e s x} = fmdom' (tb_events (ad_ledger db)) \<and>
        (\<exists>root height. seal_epoch (cy_hash cy) db' = Inr (Unchanged root height, db'))"
proof -
  obtain es rs where s: "stream (cy_hash cy) es rs db" using anchored_inv [OF assms] by (auto simp: anchor_inv_def)
  have covered: "{e. \<exists>s x. prove_event (cy_hash cy) db' e = Some (Inr x) \<and> proved_by (cy_hash cy) db' e s x} = set es'"
    if "stream (cy_hash cy) es' rs' db'" for es' rs' db'
  proof -
    have log: "log_is es' db'" using that by (simp add: stream_def)
    have "prove_event (cy_hash cy) db' e = Some (Inl (AE_NotCommitted e))" if "e \<notin> set es'" for e
      using seq_of_stream(2) [OF log that] by (simp add: prove_event_def)
    then show ?thesis using prove_event_stream [OF that] by (fastforce simp: in_set_conv_nth)
  qed
  have log: "log_is es db" using s by (simp add: stream_def)
  then have sub: "set es \<subseteq> fmdom' (tb_events (ad_ledger db))" by (simp add: log_is_def)
  then have all: "set es \<union> set (unsealed db) = fmdom' (tb_events (ad_ledger db))" by (auto simp: unsealed_stream [OF log])
  show ?thesis
  proof (cases rule: seal_stream [OF s])
    case (1 r h)
    then show ?thesis using covered [OF s] all by simp
  next
    case 2
    then show ?thesis by simp
  next
    case (3 p row db')
    have log': "log_is (es @ unsealed db) db'" using 3(6) by (simp add: stream_def)
    have "unsealed db' = []"
      unfolding unsealed_stream [OF log'] using all arg_cong [OF 3(7), of tb_events] by (auto simp: filter_empty_conv)
    then have "\<exists>root height. seal_epoch (cy_hash cy) db' = Inr (Unchanged root height, db')"
      using seal_stream [OF 3(6)] by metis
    moreover from arg_cong [OF 3(7), of tb_events] arg_cong [OF 3(7), of tb_anchors] covered [OF 3(6)] all
    have "tb_events (ad_ledger db') = tb_events (ad_ledger db) \<and> db_anchors db' = db_anchors db \<and>
      {e. \<exists>s x. prove_event (cy_hash cy) db' e = Some (Inr x) \<and> proved_by (cy_hash cy) db' e s x} = fmdom' (tb_events (ad_ledger db))"
      by (simp add: db_anchors_def)
    ultimately show ?thesis using 3(2) by simp
  qed
qed

section \<open>What never changes\<close>

lemma later_inv:
  assumes "anchored cy key db" "(anchor_step cy key)\<^sup>*\<^sup>* db db'"
  shows "\<exists>es rs es' rs'. anchor_inv cy es rs db \<and> anchor_inv cy es' rs' db' \<and> longer es rs es' rs'"
  using anchored_inv [OF assms(1)] writes_keep [OF steps_write [OF assms(2)]] by blast

text \<open>
  C21: published roots are final. Whatever a node does later, each leaf keeps its place in the log and each root its
  height, size, predecessor and consistency proof; only the moment that records a root is written in.
\<close>

theorem published_roots_final:
  assumes "anchored cy key db" "(anchor_step cy key)\<^sup>*\<^sup>* db db'"
  shows "map_option lr_event (fmlookup (ad_log db) s) \<in> {None, map_option lr_event (fmlookup (ad_log db') s)} \<and>
    map_option (\<lambda>row. row\<lparr>rr_moment_id := None\<rparr>) (fmlookup (db_roots db) i)
      \<in> {None, map_option (\<lambda>row. row\<lparr>rr_moment_id := None\<rparr>) (fmlookup (db_roots db') i)}"
proof (intro conjI)
  obtain es rs es' rs' where s: "stream (cy_hash cy) es rs db" "stream (cy_hash cy) es' rs' db'" "longer es rs es' rs'"
    using later_inv [OF assms] by (auto simp: anchor_inv_def)
  have log: "map_option lr_event (fmlookup (ad_log d) s) = (if s < length l then Some (l ! s) else None)" if "log_is l d" for l d
  proof (cases "fmlookup (ad_log d) s")
    case None
    then have "s \<notin> fmdom' (ad_log d)" by (simp add: fmlookup_dom'_iff)
    with that None show ?thesis by (simp add: log_is_def)
  next
    case (Some row)
    then have "s \<in> fmdom' (ad_log d)" by (simp add: fmlookup_dom'_iff)
    with that Some show ?thesis by (auto simp: log_is_def)
  qed
  have "log_is es db" "log_is es' db'" "\<exists>added. es' = es @ added" using s by (simp_all add: stream_def longer_def)
  then show "map_option lr_event (fmlookup (ad_log db) s) \<in> {None, map_option lr_event (fmlookup (ad_log db') s)}"
    by (auto simp: log nth_append)
  show "map_option (\<lambda>row. row\<lparr>rr_moment_id := None\<rparr>) (fmlookup (db_roots db) i)
      \<in> {None, map_option (\<lambda>row. row\<lparr>rr_moment_id := None\<rparr>) (fmlookup (db_roots db') i)}"
  proof (cases "fmlookup (db_roots db) i")
    case (Some row)
    then have "(i, row) \<in> set rs" using s(1) by (simp add: stream_def)
    then obtain h where h: "h < length rs" "rs ! h = (i, row)" by (auto simp: in_set_conv_nth)
    with s(3) have "h < length rs'" "same_root (i, row) (rs' ! h)" by (auto simp: longer_def)
    with stream_lookup [OF s(2), of h] Some show ?thesis by (cases "rs' ! h") (auto simp: same_root_def)
  qed simp
qed

lemma write_anchor:
  assumes "single_write cy db db'" "anchors_ok db" "fmlookup (db_anchors db) root = Some row"
  shows "\<exists>row'. fmlookup (db_anchors db') root = Some row' \<and> ar_ots_blob_hash row' = ar_ots_blob_hash row \<and>
    ar_calendar_url row' = ar_calendar_url row \<and> (settled row \<longrightarrow> row' = row)"
  using assms(1)
proof cases
  case (event s prov r t)
  then show ?thesis using assms(3) commit_kept [OF event(2)] by (simp add: db_anchors_def)
next
  case (refold r t)
  then show ?thesis using assms(3) rebuild_kept [OF refold(2)] by (simp add: db_anchors_def)
next
  case (epoch out)
  then have "db_anchors db' = db_anchors db"
    by (auto simp: seal_epoch_def seal_with_def rbind_eq_Inr guard_def Let_def set_roots_def db_anchors_def split: if_splits)
  with assms(3) show ?thesis by simp
qed (use assms(2,3) in \<open>auto simp: db_anchors_def set_roots_def set_anchors_def has_def settled_def split: if_splits\<close>)

lemma writes_anchor:
  assumes "writes cy db db'" "anchor_inv cy es rs db" "fmlookup (db_anchors db) root = Some row"
  shows "\<exists>row'. fmlookup (db_anchors db') root = Some row' \<and> ar_ots_blob_hash row' = ar_ots_blob_hash row \<and>
    ar_calendar_url row' = ar_calendar_url row \<and> (settled row \<longrightarrow> row' = row)"
  using assms(1)
proof (induction rule: rtranclp_induct)
  case (step y z)
  then obtain row' where row: "fmlookup (db_anchors y) root = Some row'" "ar_ots_blob_hash row' = ar_ots_blob_hash row"
    "ar_calendar_url row' = ar_calendar_url row" "settled row \<longrightarrow> row' = row" by blast
  have "anchors_ok y" using writes_keep [OF step(1) assms(2)] by (auto simp: anchor_inv_def)
  from write_anchor [OF step(2) this row(1)] row(2-4) show ?case by force
qed (use assms(3) in blast)

text \<open>
  C23: settlement is final. The anchor of a root keeps its proof, which stays stored under its own hash, and its
  calendar; once it is confirmed nothing about it changes again.
\<close>

theorem settled_anchors_final:
  assumes "anchored cy key db" "(anchor_step cy key)\<^sup>*\<^sup>* db db'" "anchor_for db root = Inr (Some a)"
  shows "\<exists>b evidence. anchor_for db' root = Inr (Some b) \<and> an_ots_blob_hash b = an_ots_blob_hash a \<and>
    an_calendar_url b = an_calendar_url a \<and> load_proof (cy_hash cy) db' (an_ots_blob_hash b) = Inr evidence \<and>
    (if an_status a = AS_Confirmed then b = a \<and> an_block_height a \<noteq> None else True)"
proof -
  obtain es rs es' rs' where inv: "anchor_inv cy es rs db" "anchor_inv cy es' rs' db'" using later_inv [OF assms(1,2)] by blast
  from anchor_for_cases [OF assms(3)] obtain row where row: "fmlookup (db_anchors db) root = Some row"
    "status_from_i16 (ar_status row) = Some (an_status a)" "an_ots_blob_hash a = ar_ots_blob_hash row" "an_calendar_url a = ar_calendar_url row"
    "an_block_height a = ar_block_height row" by auto
  from writes_anchor [OF steps_write [OF assms(2)] inv(1) row(1)] obtain row' where row': "fmlookup (db_anchors db') root = Some row'"
    "ar_ots_blob_hash row' = ar_ots_blob_hash row" "ar_calendar_url row' = ar_calendar_url row" "settled row \<Longrightarrow> row' = row" by blast
  from inv(2) row'(1) have ok: "has (ad_proofs db') (ar_ots_blob_hash row')"
    "ar_status row' = status_to_i16 AS_Pending \<or> ar_status row' = status_to_i16 AS_Confirmed" "proofs_ok cy db'"
    by (auto simp: anchor_inv_def anchors_ok_def settled_def)
  then obtain b where b: "anchor_for db' root = Inr (Some b)" "an_ots_blob_hash b = ar_ots_blob_hash row'" "an_calendar_url b = ar_calendar_url row'"
    using row'(1) by (auto simp: anchor_for_def row_to_anchor_def status_from_i16_def rbind_def)
  have evidence: "\<exists>p. load_proof (cy_hash cy) db' (ar_ots_blob_hash row') = Inr p"
    using ok(1,3) by (auto simp: has_def load_proof_def proofs_ok_def ots_or_def rbind_def guard_def split: option.splits)
  have "b = a \<and> an_block_height a \<noteq> None" if "an_status a = AS_Confirmed"
  proof -
    have "ar_status row = status_to_i16 AS_Pending \<or> settled row" using inv(1) row(1) unfolding anchor_inv_def anchors_ok_def by blast
    moreover have "ar_status row \<noteq> status_to_i16 AS_Pending" using row(2) that by (auto simp: status_from_i16_def)
    ultimately have "settled row" by simp
    with row' row b assms(3) show ?thesis by (auto simp: anchor_for_def settled_def)
  qed
  with b row row' evidence show ?thesis by auto
qed

end
