(* ===== verification/Ots_Properties.thy ===== *)
theory Ots_Properties
  imports Ots
begin

unbundle bit_operations_syntax

text \<open>
  Properties of OpenTimestamps proofs: variable-length integers and whole timestamps read back; what a walk accepts
  is a timestamp in a grammar over bytes, and it reports the commitments of that timestamp; a proof is about one
  digest only. Messages and nested forks are unbounded in the model, where a walk always returns; in the program
  memory and stack bound them, and each \<open>OP_HEXLIFY\<close> doubles the message. The last section but one has the integer
  that the reader takes for another one.
\<close>

section \<open>Variable-length integers\<close>

lemma bit_masks [simp]:
  "bit (0x7f :: byte) k \<longleftrightarrow> k < 7" "bit (0x7f :: u64) k \<longleftrightarrow> k < 7" "bit (0x80 :: byte) k \<longleftrightarrow> k = 7"
proof -
  have "(0x7f :: byte) = mask 7" "(0x7f :: u64) = mask 7" "(0x80 :: byte) = 2 ^ 7" by (simp_all add: mask_eq_exp_minus_1)
  then show "bit (0x7f :: byte) k \<longleftrightarrow> k < 7" "bit (0x7f :: u64) k \<longleftrightarrow> k < 7" "bit (0x80 :: byte) k \<longleftrightarrow> k = 7"
    by (auto simp only: bit_mask_iff bit_exp_iff possible_bit_word) simp_all
qed

lemma group_bits: "(ucast ((ucast (n AND 0x7f) :: byte) AND 0x7f) :: u64) = take_bit 7 n"
  "(ucast (((ucast (n AND 0x7f) :: byte) OR 0x80) AND 0x7f) :: u64) = take_bit 7 n"
  by (rule bit_word_eqI; auto simp: bit_and_iff bit_or_iff bit_unsigned_iff bit_take_bit_iff simp del: bit_numeral_word_iff)+

lemma group_ends: "(ucast (n AND 0x7f) :: byte) AND 0x80 = 0" for n :: u64
  by (rule bit_word_eqI) (auto simp: bit_and_iff bit_or_iff bit_unsigned_iff simp del: bit_numeral_word_iff)

lemma group_goes_on: "((x :: byte) OR 0x80) AND 0x80 \<noteq> 0"
proof
  assume "(x OR 0x80) AND 0x80 = 0"
  then have "bit ((x OR 0x80) AND 0x80) 7 = bit (0 :: byte) 7" by (rule arg_cong)
  then show False by (simp only: bit_and_iff bit_or_iff bit_masks bit_0_eq bot_apply) simp
qed

lemma take_bit_group: "take_bit s n OR push_bit s (take_bit 7 (drop_bit s n)) = take_bit (s + 7) n" for n :: u64
  by (rule bit_word_eqI) (auto simp: bit_simps)

lemma r_u8_Cons: "rd_pos r + 1 < 2 ^ 64 \<Longrightarrow> rd_rest r = b # bs \<Longrightarrow> r_u8 r = Inr (b, \<lparr>rd_pos = rd_pos r + 1, rd_rest = bs\<rparr>)"
  by (simp add: r_u8_def r_take_def guard_def)

lemma drop_bit_large: "s \<ge> 64 \<Longrightarrow> drop_bit s (n :: u64) = 0"
  by (rule bit_word_eqI) (auto simp: bit_simps dest: bit_imp_le_length)

lemma varuint_loop_write:
  "drop_bit s n0 = n \<Longrightarrow> s < 64 \<Longrightarrow> p + length (write_varuint n) < 2 ^ 64 \<Longrightarrow>
    varuint_loop (take_bit s n0) s \<lparr>rd_pos = p, rd_rest = write_varuint n @ rest\<rparr> =
      Inr (n0, \<lparr>rd_pos = p + length (write_varuint n), rd_rest = rest\<rparr>)"
proof (induction n arbitrary: s p rule: write_varuint.induct)
  case (1 n)
  let ?b = "ucast (n AND 0x7f) :: byte" and ?n = "drop_bit 7 n"
  have n: "drop_bit (s + 7) n0 = ?n" unfolding 1(2) [symmetric] drop_bit_drop_bit by (simp add: add.commute)
  show ?case
  proof (cases "?n = 0")
    case True
    then have w: "write_varuint n = [?b]" by (simp add: write_varuint.simps [of n] Let_def)
    have "take_bit (s + 7) n0 = n0"
      using n True by (simp add: take_bit_eq_self_iff_drop_bit_eq_0)
    then have "take_bit s n0 OR push_bit s (take_bit 7 n) = n0"
      using take_bit_group [of s n0] 1(2) by simp
    with 1(3,4) w show ?thesis
      by (simp add: varuint_loop.simps [of "take_bit s n0"] r_u8_Cons group_bits group_ends)
  next
    case False
    then have w: "write_varuint n = (?b OR 0x80) # write_varuint ?n" by (simp add: write_varuint.simps [of n] Let_def)
    have "s + 7 < 64" using False n drop_bit_large [of "s + 7" n0] by (cases "64 \<le> s + 7") auto
    then have "varuint_loop (take_bit (s + 7) n0) (s + 7) \<lparr>rd_pos = p + 1, rd_rest = write_varuint ?n @ rest\<rparr> =
        Inr (n0, \<lparr>rd_pos = p + 1 + length (write_varuint ?n), rd_rest = rest\<rparr>)"
      using 1(1) [OF refl refl False n] 1(4) w by simp
    moreover have "take_bit s n0 OR push_bit s (take_bit 7 n) = take_bit (s + 7) n0"
      using take_bit_group [of s n0] 1(2) by simp
    ultimately show ?thesis using 1(3,4) w
      by (simp add: varuint_loop.simps [of "take_bit s n0"] r_u8_Cons group_bits group_goes_on)
  qed
qed

lemma r_varuint_write:
  "p + length (write_varuint n) < 2 ^ 64 \<Longrightarrow> r_varuint \<lparr>rd_pos = p, rd_rest = write_varuint n @ rest\<rparr> =
    Inr (n, \<lparr>rd_pos = p + length (write_varuint n), rd_rest = rest\<rparr>)"
  using varuint_loop_write [of 0 n n p rest] by (simp add: r_varuint_def)

definition varbytes :: "byte list \<Rightarrow> byte list" where
  "varbytes bs = write_varuint (word_of_nat (length bs)) @ bs"

lemma r_varbytes_write:
  assumes "p + length (varbytes bs) < 2 ^ 64"
  shows "r_varbytes \<lparr>rd_pos = p, rd_rest = varbytes bs @ rest\<rparr> =
    Inr (bs, \<lparr>rd_pos = p + length (varbytes bs), rd_rest = rest\<rparr>)"
proof -
  have "unat (word_of_nat (length bs) :: u64) = length bs"
    using assms by (simp add: varbytes_def unsigned_of_nat take_bit_nat_eq_self)
  with assms r_varuint_write [of p "word_of_nat (length bs)" "bs @ rest"] show ?thesis
    by (simp add: r_varbytes_def varbytes_def r_take_def guard_def)
qed

section \<open>Timestamps\<close>

text \<open>A timestamp as the tree that a calendar serializes, and what it attests of a message.\<close>

datatype ots_op = Do_Append "byte list" | Do_Prepend "byte list" | Do_Sha256 | Do_Reverse | Do_Hexlify

datatype stamp = Attested attestation | Also attestation stamp | Then ots_op stamp | Fork ots_op stamp stamp

fun op_tag :: "ots_op \<Rightarrow> byte" where
  "op_tag (Do_Append _) = OP_APPEND"
| "op_tag (Do_Prepend _) = OP_PREPEND"
| "op_tag Do_Sha256 = OP_SHA256"
| "op_tag Do_Reverse = OP_REVERSE"
| "op_tag Do_Hexlify = OP_HEXLIFY"

fun op_arg :: "ots_op \<Rightarrow> byte list" where
  "op_arg (Do_Append arg) = varbytes arg"
| "op_arg (Do_Prepend arg) = varbytes arg"
| "op_arg _ = []"

fun op_result :: "(byte list \<Rightarrow> hash) \<Rightarrow> ots_op \<Rightarrow> byte list \<Rightarrow> byte list" where
  "op_result H (Do_Append arg) m = m @ arg"
| "op_result H (Do_Prepend arg) m = arg @ m"
| "op_result H Do_Sha256 m = hash_bytes (H m)"
| "op_result H Do_Reverse m = rev m"
| "op_result H Do_Hexlify m = hex_encode m"

fun attestation_tag :: "attestation \<Rightarrow> byte list" where
  "attestation_tag (At_Pending _) = PENDING_ATTESTATION"
| "attestation_tag (At_Bitcoin _) = BITCOIN_ATTESTATION"
| "attestation_tag (At_Unknown tag _) = tag"

fun attestation_payload :: "attestation \<Rightarrow> byte list" where
  "attestation_payload (At_Pending uri) = varbytes (as_bytes uri)"
| "attestation_payload (At_Bitcoin height) = write_varuint height"
| "attestation_payload (At_Unknown _ payload) = payload"

definition attestation_bytes :: "attestation \<Rightarrow> byte list" where
  "attestation_bytes a = attestation_tag a @ varbytes (attestation_payload a)"

fun attestation_ok :: "attestation \<Rightarrow> bool" where
  "attestation_ok (At_Pending uri) \<longleftrightarrow> str_ok uri"
| "attestation_ok (At_Bitcoin _) \<longleftrightarrow> True"
| "attestation_ok (At_Unknown tag _) \<longleftrightarrow> length tag = 8 \<and> tag \<noteq> PENDING_ATTESTATION \<and> tag \<noteq> BITCOIN_ATTESTATION"

fun stamp_bytes :: "stamp \<Rightarrow> byte list" where
  "stamp_bytes (Attested a) = ATTESTATION_TAG # attestation_bytes a"
| "stamp_bytes (Also a t) = CONTINUATION_TAG # ATTESTATION_TAG # attestation_bytes a @ stamp_bytes t"
| "stamp_bytes (Then op t) = op_tag op # op_arg op @ stamp_bytes t"
| "stamp_bytes (Fork op t u) = CONTINUATION_TAG # op_tag op # op_arg op @ stamp_bytes t @ stamp_bytes u"

fun stamp_ok :: "stamp \<Rightarrow> bool" where
  "stamp_ok (Attested a) \<longleftrightarrow> attestation_ok a"
| "stamp_ok (Also a t) \<longleftrightarrow> attestation_ok a \<and> stamp_ok t"
| "stamp_ok (Then op t) \<longleftrightarrow> stamp_ok t"
| "stamp_ok (Fork op t u) \<longleftrightarrow> stamp_ok t \<and> stamp_ok u"

fun stamp_commitments :: "(byte list \<Rightarrow> hash) \<Rightarrow> stamp \<Rightarrow> byte list \<Rightarrow> commitment list" where
  "stamp_commitments H (Attested a) m = [\<lparr>cm_attestation = a, cm_message = m\<rparr>]"
| "stamp_commitments H (Also a t) m = \<lparr>cm_attestation = a, cm_message = m\<rparr> # stamp_commitments H t m"
| "stamp_commitments H (Then op t) m = stamp_commitments H t (op_result H op m)"
| "stamp_commitments H (Fork op t u) m = stamp_commitments H t (op_result H op m) @ stamp_commitments H u m"

lemma op_tag_neq [simp]: "op_tag op \<noteq> ATTESTATION_TAG" "op_tag op \<noteq> CONTINUATION_TAG"
  "ATTESTATION_TAG \<noteq> op_tag op" "CONTINUATION_TAG \<noteq> op_tag op"
  by (cases op; simp add: tag_defs)+

lemma tags_differ [simp]: "CONTINUATION_TAG \<noteq> ATTESTATION_TAG"
  by (simp add: tag_defs)

lemma apply_op_arg:
  "p + length (op_arg op) < 2 ^ 64 \<Longrightarrow> apply_op H \<lparr>rd_pos = p, rd_rest = op_arg op @ rest\<rparr> (op_tag op) m =
    Inr (op_result H op m, \<lparr>rd_pos = p + length (op_arg op), rd_rest = rest\<rparr>)"
  by (cases op) (simp_all add: apply_op_def r_varbytes_write, simp_all add: tag_defs)

lemma length_attestation_tag: "attestation_ok a \<Longrightarrow> length (attestation_tag a) = 8"
  by (cases a) (simp_all add: PENDING_ATTESTATION_def BITCOIN_ATTESTATION_def)

lemma read_attestation_bytes:
  assumes ok: "attestation_ok a" and len: "p + length (attestation_bytes a) < 2 ^ 64"
  shows "read_attestation \<lparr>rd_pos = p, rd_rest = attestation_bytes a @ rest\<rparr> m =
    Inr (\<lparr>cm_attestation = a, cm_message = m\<rparr>, \<lparr>rd_pos = p + length (attestation_bytes a), rd_rest = rest\<rparr>)"
proof -
  note tag = length_attestation_tag [OF ok]
  have "r_take 8 \<lparr>rd_pos = p, rd_rest = attestation_bytes a @ rest\<rparr> =
      Inr (attestation_tag a, \<lparr>rd_pos = p + 8, rd_rest = varbytes (attestation_payload a) @ rest\<rparr>)"
    using tag len by (simp add: r_take_def guard_def attestation_bytes_def)
  moreover have "r_varbytes \<lparr>rd_pos = p + 8, rd_rest = varbytes (attestation_payload a) @ rest\<rparr> =
      Inr (attestation_payload a, \<lparr>rd_pos = p + length (attestation_bytes a), rd_rest = rest\<rparr>)"
    using r_varbytes_write [of "p + 8" "attestation_payload a" rest] tag len by (simp add: attestation_bytes_def)
  moreover have "length (attestation_payload a) < 2 ^ 64" using len by (simp add: attestation_bytes_def varbytes_def)
  then have "r_varbytes (new_reader (attestation_payload a)) = Inr (as_bytes uri, \<lparr>rd_pos = length (varbytes (as_bytes uri)), rd_rest = []\<rparr>)"
    if "a = At_Pending uri" for uri
    using that r_varbytes_write [of 0 "as_bytes uri" "[]"] by (simp add: new_reader_def)
  moreover have "r_varuint (new_reader (attestation_payload a)) = Inr (height, \<lparr>rd_pos = length (write_varuint height), rd_rest = []\<rparr>)"
    if "a = At_Bitcoin height" for height
    using that \<open>length (attestation_payload a) < 2 ^ 64\<close> r_varuint_write [of 0 height "[]"] by (simp add: new_reader_def)
  ultimately show ?thesis using ok
    by (cases a) (simp_all add: read_attestation_def from_utf8_as_bytes PENDING_ATTESTATION_def BITCOIN_ATTESTATION_def)
qed

lemma ots_walk_stamp:
  "stamp_ok t \<Longrightarrow> p + length (stamp_bytes t) < 2 ^ 64 \<Longrightarrow>
    ots_walk H \<lparr>rd_pos = p, rd_rest = stamp_bytes t @ rest\<rparr> m out =
      Some (Inr (\<lparr>rd_pos = p + length (stamp_bytes t), rd_rest = rest\<rparr>, out @ stamp_commitments H t m))"
proof (induction t arbitrary: p m out rest)
  case (Attested a)
  then show ?case by (subst ots_walk.simps) (simp add: r_u8_Cons read_attestation_bytes)
next
  case (Also a t)
  have "ots_walk H \<lparr>rd_pos = p + 2 + length (attestation_bytes a), rd_rest = stamp_bytes t @ rest\<rparr> m
      (out @ [\<lparr>cm_attestation = a, cm_message = m\<rparr>]) =
    Some (Inr (\<lparr>rd_pos = p + 2 + length (attestation_bytes a) + length (stamp_bytes t), rd_rest = rest\<rparr>,
      (out @ [\<lparr>cm_attestation = a, cm_message = m\<rparr>]) @ stamp_commitments H t m))"
    using Also.prems by (intro Also.IH) simp_all
  with Also.prems show ?case
    by (subst ots_walk.simps) (simp add: r_u8_Cons read_attestation_bytes add.assoc)
next
  case (Then op t)
  have "ots_walk H \<lparr>rd_pos = p + 1 + length (op_arg op), rd_rest = stamp_bytes t @ rest\<rparr> (op_result H op m) out =
    Some (Inr (\<lparr>rd_pos = p + 1 + length (op_arg op) + length (stamp_bytes t), rd_rest = rest\<rparr>,
      out @ stamp_commitments H t (op_result H op m)))"
    using Then.prems by (intro Then.IH) simp_all
  with Then.prems show ?case by (subst ots_walk.simps) (simp add: r_u8_Cons apply_op_arg)
next
  case (Fork op t u)
  have 1: "ots_walk H \<lparr>rd_pos = p + 2 + length (op_arg op), rd_rest = stamp_bytes t @ stamp_bytes u @ rest\<rparr> (op_result H op m) out =
    Some (Inr (\<lparr>rd_pos = p + 2 + length (op_arg op) + length (stamp_bytes t), rd_rest = stamp_bytes u @ rest\<rparr>,
      out @ stamp_commitments H t (op_result H op m)))"
    using Fork.prems by (intro Fork.IH(1)) simp_all
  have 2: "ots_walk H \<lparr>rd_pos = p + 2 + length (op_arg op) + length (stamp_bytes t), rd_rest = stamp_bytes u @ rest\<rparr> m
      (out @ stamp_commitments H t (op_result H op m)) =
    Some (Inr (\<lparr>rd_pos = p + 2 + length (op_arg op) + length (stamp_bytes t) + length (stamp_bytes u), rd_rest = rest\<rparr>,
      (out @ stamp_commitments H t (op_result H op m)) @ stamp_commitments H u m))"
    using Fork.prems by (intro Fork.IH(2)) simp_all
  from 1 2 Fork.prems show ?case
    by (subst ots_walk.simps) (simp add: r_u8_Cons apply_op_arg add.assoc)
qed

section \<open>What a walk accepts\<close>

text \<open>
  The grammar of timestamps, over bytes and without a reader: a variable-length integer is groups of seven bits,
  lowest first, with the high bit on all but the last; it need not be the shortest, and what is above 64 bits is
  dropped. Bytes may follow the content of a payload.
\<close>

definition group_value :: "byte list \<Rightarrow> u64" where
  "group_value bs = foldr (\<lambda>b n. ucast (b AND 0x7f) OR push_bit 7 n) bs 0"

definition is_varuint :: "u64 \<Rightarrow> byte list \<Rightarrow> bool" where
  "is_varuint n bs \<longleftrightarrow> bs \<noteq> [] \<and> length bs \<le> 10 \<and> (\<forall>b\<in>set (butlast bs). b AND 0x80 \<noteq> 0) \<and> last bs AND 0x80 = 0 \<and>
     group_value bs = n"

definition is_varbytes :: "byte list \<Rightarrow> byte list \<Rightarrow> bool" where
  "is_varbytes x bs \<longleftrightarrow> (\<exists>n ls. is_varuint n ls \<and> unat n = length x \<and> bs = ls @ x)"

fun op_arg_as :: "ots_op \<Rightarrow> byte list \<Rightarrow> bool" where
  "op_arg_as (Do_Append arg) bs \<longleftrightarrow> is_varbytes arg bs"
| "op_arg_as (Do_Prepend arg) bs \<longleftrightarrow> is_varbytes arg bs"
| "op_arg_as _ bs \<longleftrightarrow> bs = []"

fun payload_as :: "attestation \<Rightarrow> byte list \<Rightarrow> bool" where
  "payload_as (At_Pending uri) bs \<longleftrightarrow> (\<exists>x xs rest. bs = xs @ rest \<and> is_varbytes x xs \<and> from_utf8 x = Some uri)"
| "payload_as (At_Bitcoin height) bs \<longleftrightarrow> (\<exists>ns rest. bs = ns @ rest \<and> is_varuint height ns)"
| "payload_as (At_Unknown tag payload) bs \<longleftrightarrow>
     bs = payload \<and> length tag = 8 \<and> tag \<noteq> PENDING_ATTESTATION \<and> tag \<noteq> BITCOIN_ATTESTATION"

definition attestation_as :: "attestation \<Rightarrow> byte list \<Rightarrow> bool" where
  "attestation_as a bs \<longleftrightarrow> (\<exists>payload ps. bs = attestation_tag a @ ps \<and> is_varbytes payload ps \<and> payload_as a payload)"

inductive stamp_as :: "stamp \<Rightarrow> byte list \<Rightarrow> bool" where
  attested: "attestation_as a as \<Longrightarrow> stamp_as (Attested a) (ATTESTATION_TAG # as)"
| also_attested: "attestation_as a as \<Longrightarrow> stamp_as t bs \<Longrightarrow> stamp_as (Also a t) (CONTINUATION_TAG # ATTESTATION_TAG # as @ bs)"
| operated: "op_arg_as op as \<Longrightarrow> stamp_as t bs \<Longrightarrow> stamp_as (Then op t) (op_tag op # as @ bs)"
| forked: "op_arg_as op as \<Longrightarrow> stamp_as t bs \<Longrightarrow> stamp_as u cs \<Longrightarrow>
    stamp_as (Fork op t u) (CONTINUATION_TAG # op_tag op # as @ bs @ cs)"

lemma stamp_as_bytes: "stamp_as t bs \<Longrightarrow> bs \<noteq> []"
  by (induction rule: stamp_as.induct) simp_all

lemma r_take_reads: "r_take n r = Inr (bs, r') \<Longrightarrow> rd_rest r = bs @ rd_rest r' \<and> length bs = n"
  by (auto simp: r_take_def guard_def split: if_splits)

lemma r_u8_reads: "r_u8 r = Inr (b, r') \<Longrightarrow> rd_rest r = b # rd_rest r'"
  by (auto simp: r_u8_def rbind_eq_Inr length_Suc_conv dest!: r_take_reads)

lemma group_value_Cons: "push_bit s (group_value (b # bs)) = push_bit s (ucast (b AND 0x7f)) OR push_bit (s + 7) (group_value bs)"
  by (simp add: group_value_def push_bit_or)

lemma varuint_loop_reads:
  "varuint_loop v s r = Inr (n, r') \<Longrightarrow> \<exists>bs. rd_rest r = bs @ rd_rest r' \<and> bs \<noteq> [] \<and> s + 7 * length bs < 71 \<and>
     (\<forall>b\<in>set (butlast bs). b AND 0x80 \<noteq> 0) \<and> last bs AND 0x80 = 0 \<and> n = v OR push_bit s (group_value bs)"
proof (induction v s r rule: varuint_loop.induct)
  case (1 v s r)
  from 1(2) obtain b r1 where r1: "r_u8 r = Inr (b, r1)" by (subst (asm) varuint_loop.simps) (auto split: sum.splits)
  note rest = r_u8_reads [OF r1]
  from 1(2) r1 have s: "s < 64" by (subst (asm) varuint_loop.simps) (auto split: if_splits)
  show ?case
  proof (cases "b AND 0x80 = 0")
    case True
    with 1(2) r1 s have "n = v OR push_bit s (ucast (b AND 0x7f))" "r' = r1"
      by (subst (asm) varuint_loop.simps; simp add: Let_def)+
    with True rest s show ?thesis by (intro exI [of _ "[b]"]) (simp add: group_value_def)
  next
    case False
    with 1(2) r1 s have "varuint_loop (v OR push_bit s (ucast (b AND 0x7f))) (s + 7) r1 = Inr (n, r')"
      by (subst (asm) varuint_loop.simps) (simp add: Let_def)
    with 1(1) [OF r1 refl _ refl False] s obtain bs where "rd_rest r1 = bs @ rd_rest r'" "bs \<noteq> []" "s + 7 + 7 * length bs < 71"
      "\<forall>b\<in>set (butlast bs). b AND 0x80 \<noteq> 0" "last bs AND 0x80 = 0"
      "n = (v OR push_bit s (ucast (b AND 0x7f))) OR push_bit (s + 7) (group_value bs)" by auto
    with False rest show ?thesis
      by (intro exI [of _ "b # bs"]) (simp only: group_value_Cons or.assoc, simp)
  qed
qed

lemma r_varuint_reads: "r_varuint r = Inr (n, r') \<Longrightarrow> \<exists>bs. rd_rest r = bs @ rd_rest r' \<and> is_varuint n bs"
  by (auto simp: r_varuint_def is_varuint_def dest!: varuint_loop_reads)

lemma r_varbytes_reads: "r_varbytes r = Inr (x, r') \<Longrightarrow> \<exists>bs. rd_rest r = bs @ rd_rest r' \<and> is_varbytes x bs"
  by (fastforce simp: r_varbytes_def rbind_eq_Inr is_varbytes_def dest!: r_varuint_reads r_take_reads)

lemma apply_op_reads:
  "apply_op H r tag m = Inr (m', r') \<Longrightarrow>
    \<exists>op bs. tag = op_tag op \<and> op_arg_as op bs \<and> rd_rest r = bs @ rd_rest r' \<and> m' = op_result H op m"
  by (auto simp: apply_op_def rbind_eq_Inr split: if_splits dest!: r_varbytes_reads)
    (metis op_arg_as.simps op_tag.simps op_result.simps append_Nil)+

lemma payload_reads:
  assumes "(if tag = PENDING_ATTESTATION then rbind (r_varbytes (new_reader payload)) (\<lambda>(uri, _).
          case from_utf8 uri of None \<Rightarrow> Inl (OE_Malformed ''calendar URI is not UTF-8'') | Some s \<Rightarrow> Inr (At_Pending s))
        else if tag = BITCOIN_ATTESTATION then rbind (r_varuint (new_reader payload)) (\<lambda>(height, _). Inr (At_Bitcoin height))
        else Inr (At_Unknown tag payload)) = Inr a" "length tag = 8"
  shows "payload_as a payload \<and> attestation_tag a = tag"
  using assms
  by (auto simp: rbind_eq_Inr new_reader_def split: if_splits option.splits dest!: r_varbytes_reads r_varuint_reads)
    blast+

lemma read_attestation_reads:
  assumes "read_attestation r m = Inr (c, r')"
  shows "\<exists>a bs. c = \<lparr>cm_attestation = a, cm_message = m\<rparr> \<and> attestation_as a bs \<and> rd_rest r = bs @ rd_rest r'"
proof -
  from assms obtain tag r1 payload a where tag: "r_take 8 r = Inr (tag, r1)" and payload: "r_varbytes r1 = Inr (payload, r')"
    and a: "payload_as a payload \<and> attestation_tag a = tag" and c: "c = \<lparr>cm_attestation = a, cm_message = m\<rparr>"
    by (auto simp: read_attestation_def rbind_eq_Inr dest!: payload_reads dest: r_take_reads)
  obtain ps where "rd_rest r1 = ps @ rd_rest r'" "is_varbytes payload ps" using r_varbytes_reads [OF payload] by blast
  with r_take_reads [OF tag] a c show ?thesis
    by (intro exI [of _ a] exI [of _ "tag @ ps"]) (auto simp: attestation_as_def)
qed

text \<open>
  A walk returns, because each step takes bytes off the stream, and what it takes is a timestamp whose commitments
  it reports. The message and the nesting of forks are unbounded here; in the program they are bounded by memory
  and stack.
\<close>

definition walked ::
  "(byte list \<Rightarrow> hash) \<Rightarrow> reader \<Rightarrow> byte list \<Rightarrow> commitment list \<Rightarrow> (ots_error + reader \<times> commitment list) option \<Rightarrow> bool" where
  "walked H r msg out x \<longleftrightarrow> (\<exists>y. x = Some y \<and> (\<forall>r' out'. y = Inr (r', out') \<longrightarrow>
     (\<exists>t bs. stamp_as t bs \<and> rd_rest r = bs @ rd_rest r' \<and> out' = out @ stamp_commitments H t msg)))"

lemma walked_Inl: "walked H r msg out (Some (Inl e))"
  by (simp add: walked_def)

lemma walked_attested:
  "attestation_as a as \<Longrightarrow> rd_rest r = ATTESTATION_TAG # as @ rd_rest r' \<Longrightarrow>
    walked H r msg out (Some (Inr (r', out @ [\<lparr>cm_attestation = a, cm_message = msg\<rparr>])))"
  by (auto simp: walked_def intro!: exI [of _ "Attested a"] exI [of _ "ATTESTATION_TAG # as"] intro: stamp_as.intros)

lemma walked_step:
  assumes x: "walked H r1 m1 out1 x" and r: "rd_rest r = as @ rd_rest r1"
    and step: "\<And>t bs. stamp_as t bs \<Longrightarrow>
      \<exists>u. stamp_as u (as @ bs) \<and> out1 @ stamp_commitments H t m1 = out @ stamp_commitments H u msg"
  shows "walked H r msg out x"
proof -
  obtain y where y: "x = Some y" "\<And>r' out'. y = Inr (r', out') \<Longrightarrow>
     \<exists>t bs. stamp_as t bs \<and> rd_rest r1 = bs @ rd_rest r' \<and> out' = out1 @ stamp_commitments H t m1"
    using x unfolding walked_def by blast
  have "\<exists>u cs. stamp_as u cs \<and> rd_rest r = cs @ rd_rest r' \<and> out' = out @ stamp_commitments H u msg"
    if "y = Inr (r', out')" for r' out'
  proof -
    from y(2) [OF that] obtain t bs where t: "stamp_as t bs" "rd_rest r1 = bs @ rd_rest r'"
      "out' = out1 @ stamp_commitments H t m1" by blast
    from step [OF t(1)] obtain u where "stamp_as u (as @ bs)" "out' = out @ stamp_commitments H u msg" using t(3) by auto
    moreover have "rd_rest r = (as @ bs) @ rd_rest r'" using r t(2) by simp
    ultimately show ?thesis by blast
  qed
  with y(1) show ?thesis by (simp add: walked_def)
qed

lemma walked_also:
  assumes "attestation_as a as" "rd_rest r = CONTINUATION_TAG # ATTESTATION_TAG # as @ rd_rest r1"
    "walked H r1 msg (out @ [\<lparr>cm_attestation = a, cm_message = msg\<rparr>]) x"
  shows "walked H r msg out x"
proof (rule walked_step [OF assms(3), of _ "CONTINUATION_TAG # ATTESTATION_TAG # as"])
  show "\<exists>u. stamp_as u ((CONTINUATION_TAG # ATTESTATION_TAG # as) @ bs) \<and>
      (out @ [\<lparr>cm_attestation = a, cm_message = msg\<rparr>]) @ stamp_commitments H t msg = out @ stamp_commitments H u msg"
    if "stamp_as t bs" for t bs
    using stamp_as.also_attested [OF assms(1) that] by (intro exI [of _ "Also a t"]) simp
qed (simp add: assms(2))

lemma walked_then:
  assumes "op_arg_as op as" "rd_rest r = op_tag op # as @ rd_rest r1" "walked H r1 (op_result H op msg) out x"
  shows "walked H r msg out x"
proof (rule walked_step [OF assms(3), of _ "op_tag op # as"])
  show "\<exists>u. stamp_as u ((op_tag op # as) @ bs) \<and>
      out @ stamp_commitments H t (op_result H op msg) = out @ stamp_commitments H u msg" if "stamp_as t bs" for t bs
    using stamp_as.operated [OF assms(1) that] by (intro exI [of _ "Then op t"]) simp
qed (simp add: assms(2))

lemma walked_forked:
  assumes arg: "op_arg_as op as" "rd_rest r = CONTINUATION_TAG # op_tag op # as @ rd_rest r1"
    and x: "walked H r1 (op_result H op msg) out x"
    and f: "\<And>r2 out'. length (rd_rest r2) < length (rd_rest r) \<Longrightarrow> walked H r2 msg out' (f r2 out')"
  shows "walked H r msg out (Option.bind x (\<lambda>y. case y of Inl e \<Rightarrow> Some (Inl e) | Inr (r2, out') \<Rightarrow> f r2 out'))"
proof -
  obtain y where y: "x = Some y" "\<And>r2 out'. y = Inr (r2, out') \<Longrightarrow>
     \<exists>t bs. stamp_as t bs \<and> rd_rest r1 = bs @ rd_rest r2 \<and> out' = out @ stamp_commitments H t (op_result H op msg)"
    using x unfolding walked_def by blast
  show ?thesis
  proof (cases y)
    case (Inl e)
    then show ?thesis by (simp add: y(1) walked_Inl)
  next
    case (Inr p)
    then obtain r2 out' where p: "y = Inr (r2, out')" by (cases p) auto
    from y(2) [OF p] obtain t bs where t: "stamp_as t bs" "rd_rest r1 = bs @ rd_rest r2"
      "out' = out @ stamp_commitments H t (op_result H op msg)" by blast
    have "length (rd_rest r2) < length (rd_rest r)" using arg(2) t(2) by simp
    from f [OF this, of out'] obtain z where z: "f r2 out' = Some z" "\<And>r3 out3. z = Inr (r3, out3) \<Longrightarrow>
      \<exists>u cs. stamp_as u cs \<and> rd_rest r2 = cs @ rd_rest r3 \<and> out3 = out' @ stamp_commitments H u msg"
      unfolding walked_def by blast
    have "\<exists>w ds. stamp_as w ds \<and> rd_rest r = ds @ rd_rest r3 \<and> out3 = out @ stamp_commitments H w msg"
      if "z = Inr (r3, out3)" for r3 out3
    proof -
      from z(2) [OF that] obtain u cs where "stamp_as u cs" "rd_rest r2 = cs @ rd_rest r3"
        "out3 = out' @ stamp_commitments H u msg" by blast
      with arg t have "stamp_as (Fork op t u) (CONTINUATION_TAG # op_tag op # as @ bs @ cs) \<and>
          rd_rest r = (CONTINUATION_TAG # op_tag op # as @ bs @ cs) @ rd_rest r3 \<and>
          out3 = out @ stamp_commitments H (Fork op t u) msg"
        by (auto intro: stamp_as.intros)
      then show ?thesis by blast
    qed
    with z(1) show ?thesis by (simp add: y(1) p walked_def)
  qed
qed

lemma ots_walk_walked: "walked H r msg out (ots_walk H r msg out)"
proof (induction "length (rd_rest r)" arbitrary: r msg out rule: less_induct)
  case less
  show ?case
  proof (cases "r_u8 r")
    case (Inl e)
    then show ?thesis by (subst ots_walk.simps) (simp add: walked_Inl)
  next
    case (Inr p)
    then obtain b r1 where r1: "r_u8 r = Inr (b, r1)" by (cases p) auto
    note b = r_u8_reads [OF r1]
    consider (attest) "b = ATTESTATION_TAG" | (more) "b = CONTINUATION_TAG"
      | (last) "b \<noteq> ATTESTATION_TAG" "b \<noteq> CONTINUATION_TAG" by blast
    then show ?thesis
    proof cases
      case attest
      then have "ots_walk H r msg out = Some (rbind (read_attestation r1 msg) (\<lambda>(c, r2). Inr (r2, out @ [c])))"
        by (subst ots_walk.simps) (simp add: r1)
      with attest b show ?thesis
        by (cases "read_attestation r1 msg") (auto simp: walked_Inl dest!: read_attestation_reads intro: walked_attested)
    next
      case last
      then have walk: "ots_walk H r msg out = (case apply_op H r1 b msg of Inl e \<Rightarrow> Some (Inl e) | Inr (m, r2) \<Rightarrow> ots_walk H r2 m out)"
        by (subst ots_walk.simps) (simp add: r1)
      show ?thesis
      proof (cases "apply_op H r1 b msg")
        case (Inl e)
        with walk show ?thesis by (simp add: walked_Inl)
      next
        case (Inr q)
        then obtain m r2 where m: "apply_op H r1 b msg = Inr (m, r2)" by (cases q) auto
        from apply_op_reads [OF m] obtain op as where op: "b = op_tag op" "op_arg_as op as"
          "rd_rest r1 = as @ rd_rest r2" "m = op_result H op msg" by blast
        have r: "rd_rest r = op_tag op # as @ rd_rest r2" using b op by simp
        have "walked H r2 (op_result H op msg) out (ots_walk H r2 m out)" unfolding op(4) [symmetric]
          by (rule less) (simp add: r)
        then show ?thesis unfolding walk m sum.case prod.case by (rule walked_then [OF op(2) r])
      qed
    next
      case more
      show ?thesis
      proof (cases "r_u8 r1")
        case (Inl e)
        with more show ?thesis by (subst ots_walk.simps) (simp add: r1 walked_Inl)
      next
        case (Inr p)
        then obtain tag r2 where r2: "r_u8 r1 = Inr (tag, r2)" by (cases p) auto
        note tag = r_u8_reads [OF r2]
        show ?thesis
        proof (cases "tag = ATTESTATION_TAG")
          case True
          with more have walk: "ots_walk H r msg out = (case read_attestation r2 msg of Inl e \<Rightarrow> Some (Inl e)
              | Inr (c, r3) \<Rightarrow> ots_walk H r3 msg (out @ [c]))"
            by (subst ots_walk.simps) (simp add: r1 r2)
          show ?thesis
          proof (cases "read_attestation r2 msg")
            case (Inl e)
            with walk show ?thesis by (simp add: walked_Inl)
          next
            case (Inr q)
            then obtain c r3 where c: "read_attestation r2 msg = Inr (c, r3)" by (cases q) auto
            from read_attestation_reads [OF c] obtain a as where a: "c = \<lparr>cm_attestation = a, cm_message = msg\<rparr>"
              "attestation_as a as" "rd_rest r2 = as @ rd_rest r3" by blast
            have r: "rd_rest r = CONTINUATION_TAG # ATTESTATION_TAG # as @ rd_rest r3" using b tag more True a by simp
            have "walked H r3 msg (out @ [\<lparr>cm_attestation = a, cm_message = msg\<rparr>]) (ots_walk H r3 msg (out @ [c]))"
              unfolding a(1) by (rule less) (simp add: r)
            then show ?thesis unfolding walk c sum.case prod.case by (rule walked_also [OF a(2) r])
          qed
        next
          case False
          with more have walk: "ots_walk H r msg out = (case apply_op H r2 tag msg of Inl e \<Rightarrow> Some (Inl e)
              | Inr (branch, r3) \<Rightarrow> Option.bind (ots_walk H r3 branch out) (\<lambda>x. case x of Inl e \<Rightarrow> Some (Inl e)
                | Inr (r4, out') \<Rightarrow> ots_walk H r4 msg out'))"
            by (subst ots_walk.simps) (simp add: r1 r2)
          show ?thesis
          proof (cases "apply_op H r2 tag msg")
            case (Inl e)
            with walk show ?thesis by (simp add: walked_Inl)
          next
            case (Inr q)
            then obtain m r3 where m: "apply_op H r2 tag msg = Inr (m, r3)" by (cases q) auto
            from apply_op_reads [OF m] obtain op as where op: "tag = op_tag op" "op_arg_as op as"
              "rd_rest r2 = as @ rd_rest r3" "m = op_result H op msg" by blast
            have r: "rd_rest r = CONTINUATION_TAG # op_tag op # as @ rd_rest r3" using b tag more op by simp
            have "walked H r3 (op_result H op msg) out (ots_walk H r3 m out)" unfolding op(4) [symmetric]
              by (rule less) (simp add: r)
            then show ?thesis unfolding walk m sum.case prod.case by (rule walked_forked [OF op(2) r]) (rule less)
          qed
        qed
      qed
    qed
  qed
qed

section \<open>The properties\<close>

lemma length_write_varuint: "unat n < 2 ^ (7 * k) \<Longrightarrow> 0 < k \<Longrightarrow> length (write_varuint n) \<le> k"
proof (induction n arbitrary: k rule: write_varuint.induct)
  case (1 n)
  let ?n = "drop_bit 7 n"
  show ?case
  proof (cases "?n = 0")
    case True
    with 1(3) show ?thesis by (simp add: write_varuint.simps [of n] Let_def)
  next
    case False
    have div: "unat ?n = unat n div 2 ^ 7" by (simp add: drop_bit_eq_div unat_div)
    have "unat ?n \<noteq> 0" using False by (simp add: unat_eq_zero)
    with div have "2 ^ 7 \<le> unat n" by (simp add: div_greater_zero_iff)
    obtain j where k: "k = Suc j" using 1(3) by (cases k) auto
    have "0 < j" using 1(2) \<open>2 ^ 7 \<le> unat n\<close> k by (cases j) auto
    have "unat ?n < 2 ^ (7 * j)" using 1(2) k unfolding div by (simp add: power_add less_mult_imp_div_less mult.commute)
    from 1(1) [OF refl refl False this \<open>0 < j\<close>] False k show ?thesis by (simp add: write_varuint.simps [of n] Let_def)
  qed
qed

lemma varuint_length: "length (write_varuint n) \<le> 10"
proof -
  have "unat n < 2 ^ LENGTH(64)" by (rule unsigned_less)
  then show ?thesis using length_write_varuint [of n 10] by simp
qed

text \<open>
  A variable-length integer reads back. Whatever follows it, the reader takes exactly the bytes that
  \<open>write_varuint\<close> wrote and returns the integer.
\<close>

theorem varuint_roundtrip:
  "r_varuint (new_reader (write_varuint n @ rest)) = Inr (n, \<lparr>rd_pos = length (write_varuint n), rd_rest = rest\<rparr>) \<and>
    length (write_varuint n) \<le> 10"
  using r_varuint_write [of 0 n rest] varuint_length [of n] by (simp add: new_reader_def)

text \<open>The file that \<open>from_calendar_reply\<close> assembles.\<close>

definition detached :: "hash \<Rightarrow> byte list \<Rightarrow> ots_proof" where
  "detached d reply = HEADER_MAGIC @ write_varuint MAJOR_VERSION @ [OP_SHA256] @ hash_bytes d @ reply"

lemma write_major: "write_varuint MAJOR_VERSION = [1]"
  by (subst write_varuint.simps) (simp add: MAJOR_VERSION_def)

lemma length_magic: "length HEADER_MAGIC = 31"
  by (simp add: HEADER_MAGIC_def)

lemma length_hash_bytes32: "length (hash_bytes d) = 32"
  by (simp add: hash_bytes_def)

lemma digest_detached: "proof_digest (detached d reply) = Inr d"
proof -
  have "r_expect HEADER_MAGIC (new_reader (detached d reply)) =
      Inr \<lparr>rd_pos = 31, rd_rest = write_varuint MAJOR_VERSION @ OP_SHA256 # hash_bytes d @ reply\<rparr>"
    by (simp add: r_expect_def r_take_def guard_def new_reader_def detached_def length_magic)
  moreover have "r_varuint \<lparr>rd_pos = 31, rd_rest = write_varuint MAJOR_VERSION @ OP_SHA256 # hash_bytes d @ reply\<rparr> =
      Inr (MAJOR_VERSION, \<lparr>rd_pos = 32, rd_rest = OP_SHA256 # hash_bytes d @ reply\<rparr>)"
    by (subst r_varuint_write) (simp_all add: write_major)
  moreover have "from_be_bytes (hash_bytes d) = d" by (simp add: hash_bytes_def from_to_be_bytes)
  ultimately show ?thesis
    by (simp add: proof_digest_def guard_def r_u8_Cons r_take_def length_hash_bytes32)
qed

lemma commitments_detached: "commitments H (detached d reply) = walk_all H reply (hash_bytes d)"
  by (simp add: commitments_def digest_detached) (simp add: detached_def length_magic write_major length_hash_bytes32)

lemma walk_all_stamp:
  "stamp_ok t \<Longrightarrow> length (stamp_bytes t) < 2 ^ 64 \<Longrightarrow> walk_all H (stamp_bytes t) m = Some (Inr (stamp_commitments H t m))"
  using ots_walk_stamp [of t 0 H "[]" m "[]"] by (simp add: walk_all_def new_reader_def r_done_def guard_def)

lemma stamp_commitments_Cons: "stamp_commitments H t m \<noteq> []"
  by (induction t arbitrary: m) simp_all

text \<open>
  C24: the timestamp a calendar sends is read exactly. From the reply for a digest, \<open>from_calendar_reply\<close> assembles
  a proof about that digest, and the walk finds each attestation of the tree with the message that the
  operations on its path make of the digest.
\<close>

theorem calendar_reply_reads:
  assumes "stamp_ok t" "length (stamp_bytes t) < 2 ^ 64"
  shows "\<exists>p. from_calendar_reply H d (stamp_bytes t) = Some (Inr p) \<and> proof_digest p = Inr d \<and>
    commitments H p = Some (Inr (stamp_commitments H t (hash_bytes d)))"
  using walk_all_stamp [OF assms, of H "hash_bytes d"] stamp_commitments_Cons [of H t "hash_bytes d"]
    digest_detached [of d "stamp_bytes t"] commitments_detached [of H d "stamp_bytes t"]
  by (simp add: from_calendar_reply_def detached_def guard_def Let_def)

text \<open>
  C25: a proof that reads is a proof of what its bytes say about its digest. The bytes behind the header are exactly
  one timestamp in the grammar, nothing follows it, and the attestations reported are those of that timestamp in
  order, each with the message that the operations on its path make of the digest of the header. The file commits
  to that digest and to no other.
\<close>

theorem proof_sound:
  assumes "commitments H p = Some (Inr cs)"
  shows "\<exists>d t. proof_digest p = Inr d \<and> stamp_as t (drop 65 p) \<and> cs = stamp_commitments H t (hash_bytes d) \<and>
    (\<forall>e. commits_to p e = (if e = d then Inr () else Inl (OE_WrongDigest e d)))"
proof -
  from assms obtain d where d: "proof_digest p = Inr d" by (auto simp: commitments_def split: sum.splits)
  have all: "walk_all H (drop 65 p) (hash_bytes d) = Some (Inr cs)"
    using assms by (simp add: commitments_def d length_magic write_major)
  obtain r where r: "ots_walk H (new_reader (drop 65 p)) (hash_bytes d) [] = Some (Inr (r, cs))" "rd_rest r = []"
    using all by (auto simp: walk_all_def bind_eq_Some_conv rbind_eq_Inr guard_def r_done_def split: if_splits)
  obtain t where "stamp_as t (drop 65 p)" "cs = stamp_commitments H t (hash_bytes d)"
    using ots_walk_walked [of H "new_reader (drop 65 p)" "hash_bytes d" "[]"] r
    by (auto simp: walked_def new_reader_def)
  moreover have "commits_to p e = (if e = d then Inr () else Inl (OE_WrongDigest e d))" for e
    by (simp add: commits_to_def d guard_def)
  ultimately show ?thesis using d by blast
qed

section \<open>An integer that is too wide\<close>

text \<open>
  The shift of the tenth group is 63, which \<open>checked_shl\<close> accepts, so all but the lowest bit of that group are
  lost without an error: ten bytes that stand for \<open>2 ^ 64\<close> read as zero.
\<close>

theorem varuint_too_wide_accepted:
  "r_varuint (new_reader [0x80, 0x80, 0x80, 0x80, 0x80, 0x80, 0x80, 0x80, 0x80, 0x02]) = Inr (0, \<lparr>rd_pos = 10, rd_rest = []\<rparr>)"
  by (simp add: r_varuint_def new_reader_def varuint_loop.simps r_u8_Cons)

section \<open>A reply\<close>

definition sample_stamp :: stamp where
  "sample_stamp = Fork (Do_Append [1]) (Attested (At_Bitcoin 7)) (Then Do_Sha256 (Attested (At_Unknown [1, 2, 3, 4, 5, 6, 7, 8] [])))"

lemma sample_stamp_ok: "stamp_ok sample_stamp" "length (stamp_bytes sample_stamp) < 2 ^ 64"
proof -
  have len: "length (write_varuint n) \<le> 10" for n using varuint_length by simp
  show "length (stamp_bytes sample_stamp) < 2 ^ 64"
    using len [of 7] len [of 1] len [of 0] len [of "word_of_nat (length (write_varuint 7))"]
    by (simp add: sample_stamp_def attestation_bytes_def varbytes_def BITCOIN_ATTESTATION_def)
  show "stamp_ok sample_stamp" by (simp add: sample_stamp_def PENDING_ATTESTATION_def BITCOIN_ATTESTATION_def)
qed

theorem calendar_reply_reads_witness:
  "\<exists>p. from_calendar_reply (\<lambda>bs. word_of_nat (length bs)) 5 (stamp_bytes sample_stamp) = Some (Inr p) \<and>
    bitcoin_height (\<lambda>bs. word_of_nat (length bs)) p = Some (Inr (Some 7))"
proof -
  let ?H = "\<lambda>bs. word_of_nat (length bs) :: hash"
  obtain p where "from_calendar_reply ?H 5 (stamp_bytes sample_stamp) = Some (Inr p)"
    "commitments ?H p = Some (Inr (stamp_commitments ?H sample_stamp (hash_bytes 5)))"
    using calendar_reply_reads [OF sample_stamp_ok, of ?H 5] by blast
  then show ?thesis by (simp add: bitcoin_height_def sample_stamp_def)
qed

lemma drop_detached: "drop 65 (detached d reply) = reply"
  by (simp add: detached_def length_magic write_major length_hash_bytes32)

theorem proof_sound_witness:
  "\<exists>t. stamp_as t (stamp_bytes sample_stamp) \<and>
    map cm_message (stamp_commitments (\<lambda>bs. word_of_nat (length bs)) t (hash_bytes 5)) = [hash_bytes 5 @ [1], hash_bytes 32] \<and>
    commits_to (detached 5 (stamp_bytes sample_stamp)) 6 = Inl (OE_WrongDigest 6 5)"
proof -
  let ?H = "\<lambda>bs. word_of_nat (length bs) :: hash" and ?p = "detached 5 (stamp_bytes sample_stamp)"
  have "commitments ?H ?p = Some (Inr (stamp_commitments ?H sample_stamp (hash_bytes 5)))"
    by (simp add: commitments_detached walk_all_stamp [OF sample_stamp_ok])
  from proof_sound [OF this] obtain t where "stamp_as t (stamp_bytes sample_stamp)"
    "stamp_commitments ?H sample_stamp (hash_bytes 5) = stamp_commitments ?H t (hash_bytes 5)"
    "commits_to ?p 6 = Inl (OE_WrongDigest 6 5)"
    by (auto simp: digest_detached drop_detached)
  moreover have "map cm_message (stamp_commitments ?H sample_stamp (hash_bytes 5)) = [hash_bytes 5 @ [1], hash_bytes 32]"
    by (simp add: sample_stamp_def length_hash_bytes32)
  ultimately show ?thesis by metis
qed

end
