(* ===== verification/Anchor_Samples.thy ===== *)
theory Anchor_Samples
  imports Anchor_Properties Ots_Properties Legacy_Samples
begin

text \<open>
  Instances of the properties of the anchored databases: a ledger of one event, its epoch sealed, the root stamped.
\<close>

definition sample_key :: node_key where
  "sample_key = \<lparr>nk_author = 7, nk_sign = (\<lambda>_. [])\<rparr>"

text \<open>What the key guarantees: its public half is a key and its signatures verify.\<close>

definition signer :: "crypto \<Rightarrow> node_key \<Rightarrow> bool" where
  "signer cy key \<longleftrightarrow> cy_key_ok cy (nk_author key) \<and> (\<forall>m. cy_verify cy (nk_author key) m (nk_sign key m))"

lemma node_moment_gated:
  assumes "signer cy key" "node_moment cy key body old now = Some s"
  shows "gated cy s"
proof -
  from assms(2) obtain i where i: "se_content s = \<lparr>ec_event_time = now, ec_record_time = now, ec_author = nk_author key,
      ec_supersedes = old, ec_body = Moment \<lparr>mo_subject = NODE_ZERO, mo_body_hash = body\<rparr>\<rparr>"
    "event_id (cy_hash cy) (se_content s) = Some i" "se_id s = i" "se_signature s = nk_sign key (hash_bytes i)"
    by (auto simp: node_moment_def sign_event_def Let_def split: Option.bind_splits)
  have "\<lparr>se_content = se_content s, se_id = se_id s, se_signature = se_signature s\<rparr> = s" by simp
  with i assms(1) show ?thesis by (simp add: gated_def seal_event_def content_ok_def guard_def signer_def)
qed

lemma sample_signer: "signer length_crypto sample_key"
  by (simp add: signer_def length_crypto_def)

definition one_event :: "tables \<Rightarrow> bool" where
  "one_event t \<longleftrightarrow> (\<exists>row. tb_events t = fmupd 137 row fmempty \<and> er_supersedes row = None) \<and> tb_roots t = fmempty \<and> tb_anchors t = fmempty"

lemma sample_event:
  obtains t where "commit_event length_crypto sample_birth None empty_tables = Some (Inr App_New, t)" "one_event t"
proof -
  obtain t where t: "commit_event length_crypto sample_birth None empty_tables = Some (Inr App_New, t)" using sample_orders by blast
  have id: "se_id sample_birth = 137" "ec_supersedes (se_content sample_birth) = None" by (simp_all add: sample_birth_def)
  from t have "one_event t"
  proof (cases rule: commit_event_cases)
    case 1
    with commit_stored [OF t] show ?thesis by (simp add: empty_tables_def has_def)
  next
    case (2 payload v)
    then show ?thesis unfolding one_event_def
      by (intro conjI exI [of _ "event_row_of sample_birth payload None"]) (simp_all add: id empty_tables_def event_row_of_def)
  qed
  with t show thesis by (rule that)
qed

lemma sample_sealed:
  obtains db1 db p row where "anchored length_crypto sample_key db1" "anchor_step length_crypto sample_key db1 db"
    "seal_epoch (cy_hash length_crypto) db1 = Inr (Published p, db)"
    "stream (cy_hash length_crypto) [137] [(rp_root p, row)] db" "ad_ledger db = (ad_ledger db1)\<lparr>tb_roots := tb_roots (ad_ledger db)\<rparr>"
    "one_event (ad_ledger db1)" "ad_proofs db = fmempty"
proof -
  obtain t where t: "commit_event length_crypto sample_birth None empty_tables = Some (Inr App_New, t)" "one_event t" by (rule sample_event)
  let ?db1 = "empty_anchor_db\<lparr>ad_ledger := t\<rparr>"
  have "anchor_step length_crypto sample_key empty_anchor_db ?db1"
    by (rule anchor_step.commit [OF gated_birth]) (use t in \<open>simp add: empty_anchor_db_def\<close>)
  then have reach: "anchored length_crypto sample_key ?db1" by (simp add: anchored_def)
  have s: "stream (cy_hash length_crypto) [] [] ?db1"
    using t(2) by (simp add: stream_def log_is_def empty_anchor_db_def one_event_def db_roots_def)
  have "unsealed ?db1 = keys (tb_events t)" using unsealed_stream [of "[]" ?db1] s by (simp add: stream_def)
  moreover have "set (keys (tb_events t)) = set [137]" using t(2) by (auto simp: one_event_def fmdom'_fmupd)
  then have "keys (tb_events t) = [137]" by (intro sorted_distinct_set_unique) simp_all
  ultimately have one: "unsealed ?db1 = [137]" by simp
  show thesis
  proof (cases rule: seal_stream [OF s])
    case (3 p row db)
    show thesis
      by (rule that [OF reach anchor_step.seal [OF 3(2)] 3(2)]) (use 3 one t(2) in \<open>simp_all add: empty_anchor_db_def\<close>)
  qed (use one t(2) in \<open>simp_all add: has_def db_roots_def one_event_def\<close>)
qed

section \<open>A stamped root\<close>

lemma sample_moment:
  assumes "node_moment length_crypto sample_key body None now = Some s"
  shows "se_id s = 93" "ec_body (se_content s) = Moment \<lparr>mo_subject = NODE_ZERO, mo_body_hash = body\<rparr>" "ec_supersedes (se_content s) = None"
  using assms
  by (auto simp: node_moment_def sign_event_def event_id_def length_crypto_def canon_event_def canon_framed_def dst_of_def hash_bytes_def
      NODE_ZERO_def sample_key_def Let_def split: Option.bind_splits if_splits)

lemma sample_moment_ex: "\<exists>s. node_moment length_crypto sample_key body None now = Some s"
  by (simp add: node_moment_def sign_event_def event_id_def length_crypto_def canon_event_def canon_framed_def dst_of_def Let_def)

lemma sample_stamp_moment: "\<exists>body. anchor_moment length_crypto sample_key p AS_Pending blob ''u'' None None None now =
    node_moment length_crypto sample_key body None now"
  by (simp add: anchor_moment_def canon_framed_def DST_ANCHOR_def, intro exI, rule refl)

lemma sample_commit:
  assumes "\<exists>row. tb_events (ad_ledger db) = fmupd 137 row fmempty \<and> er_supersedes row = None" "node_moment length_crypto sample_key body None now = Some s"
  shows "\<exists>db'. commit_node length_crypto s db = Some (Inr (), db')"
proof -
  note s = sample_moment [OF assms(2)]
  obtain payload where p: "canon_event (se_content s) = Some payload"
    using gated_canon [OF node_moment_gated [OF sample_signer assms(2)]] by blast
  obtain row where row: "tb_events (ad_ledger db) = fmupd 137 row fmempty" "er_supersedes row = None"
    using assms(1) by blast
  let ?ev = "fmupd (se_id s) (event_row_of s payload None) (tb_events (ad_ledger db))"
  have "children ?ev (se_id s) = {}" using row s by (auto simp: children_def event_row_of_def split: if_splits)
  from moment_alone [OF s(2,3) this] obtain w where "apply_event length_crypto ?ev (se_content s) (se_id s) (tb_view (ad_ledger db)) = Inr w" by blast
  from commit_fresh [OF p _ this] row(1) s(1) show ?thesis by (simp add: commit_node_def)
qed

lemma sample_stamped:
  obtains db root a where "anchored length_crypto sample_key db" "anchor_for db root = Inr (Some a)"
proof -
  obtain db0 db row and p :: root_publication where d: "anchored length_crypto sample_key db0" "anchor_step length_crypto sample_key db0 db"
    "stream (cy_hash length_crypto) [137] [(rp_root p, row)] db" "ad_ledger db = (ad_ledger db0)\<lparr>tb_roots := tb_roots (ad_ledger db)\<rparr>"
    "one_event (ad_ledger db0)" "ad_proofs db = fmempty" by (rule sample_sealed) blast
  let ?root = "rp_root p"
  let ?e = "detached ?root []"
  let ?blob = "blob_hash (cy_hash length_crypto) ?e"
  let ?db1 = "db\<lparr>ad_proofs := fmupd ?blob ?e (ad_proofs db)\<rparr>"
  have reach: "anchored length_crypto sample_key db" using d(1,2) by (simp add: anchored_def rtranclp.rtrancl_into_rtrancl)
  have one: "\<exists>row. tb_events (ad_ledger ?db1) = fmupd 137 row fmempty \<and> er_supersedes row = None" "db_anchors db = fmempty"
    using d(5) arg_cong [OF d(4), of tb_events] arg_cong [OF d(4), of tb_anchors] by (simp_all add: one_event_def db_anchors_def)
  have known: "commits_to ?e ?root = Inr ()" "anchor_for db ?root = Inr None"
    using one(2) by (simp_all add: commits_to_def digest_detached rbind_def guard_def anchor_for_def)
  obtain q where q: "root_by_id db ?root = Inr q"
    using stream_published [OF d(3), of 0] stream_lookup [OF d(3), of 0] by (auto simp: root_by_id_def has_def)
  have store: "store_proof (cy_hash length_crypto) ?e db = Inr ?db1"
    by (simp add: store_proof_def guard_def has_def d(6) detached_def length_magic write_major length_hash_bytes32)
  obtain s body where s: "anchor_moment length_crypto sample_key q AS_Pending ?blob ''u'' None None None ORIGIN = Some s"
    "node_moment length_crypto sample_key body None ORIGIN = Some s"
    using sample_stamp_moment sample_moment_ex by metis
  obtain db2 where c: "commit_node length_crypto s ?db1 = Some (Inr (), db2)" using sample_commit [OF one(1) s(2)] by blast
  let ?db3 = "set_anchors (fmupd ?root \<lparr>ar_status = status_to_i16 AS_Pending, ar_ots_blob_hash = ?blob, ar_calendar_url = ''u'',
                   ar_block_height = None, ar_txid = None, ar_moment_id = se_id s\<rparr>) db2"
  have "record_stamp length_crypto sample_key ?root ?e ''u'' ORIGIN db =
      Some (reload_anchor ?db3 ?root ''the anchor row vanished immediately after being written'', ?db3)"
    using known q store s(1) c by (simp add: record_stamp_def ots_or_def rbind_def guard_def text_ok_def Let_def)
  then have "anchor_step length_crypto sample_key db ?db3" by (rule anchor_step.record_stamp)
  then have "anchored length_crypto sample_key ?db3" using reach unfolding anchored_def by (rule rtranclp.rtrancl_into_rtrancl [rotated])
  moreover have "\<exists>a. anchor_for ?db3 ?root = Inr (Some a)"
    by (simp add: anchor_for_def set_anchors_def db_anchors_def row_to_anchor_def status_from_i16_def rbind_def)
  ultimately show thesis using that by blast
qed

section \<open>The properties at the samples\<close>

theorem audit_passes_witness:
  "\<exists>db. anchored length_crypto sample_key db \<and> roots_asc db \<noteq> [] \<and> (\<exists>audit. verify_root_chain (cy_hash length_crypto) db = Inr audit)"
proof -
  obtain db0 db row and p :: root_publication where d: "anchored length_crypto sample_key db0" "anchor_step length_crypto sample_key db0 db"
    "stream (cy_hash length_crypto) [137] [(rp_root p, row)] db" by (rule sample_sealed) blast
  then have "anchored length_crypto sample_key db" by (simp add: anchored_def rtranclp.rtrancl_into_rtrancl)
  with audit_passes [OF this] roots_asc_stream [OF d(3)] show ?thesis by auto
qed

theorem committed_events_proved_witness:
  "\<exists>db x. anchored length_crypto sample_key db \<and> prove_event (cy_hash length_crypto) db 137 = Some (Inr x) \<and>
     proved_by (cy_hash length_crypto) db 137 0 x"
proof -
  obtain db0 db row and p :: root_publication where d: "anchored length_crypto sample_key db0" "anchor_step length_crypto sample_key db0 db"
    "stream (cy_hash length_crypto) [137] [(rp_root p, row)] db" by (rule sample_sealed) blast
  then have reach: "anchored length_crypto sample_key db" by (simp add: anchored_def rtranclp.rtrancl_into_rtrancl)
  have log: "log_is [137] db" using d(3) by (simp add: stream_def)
  then have "0 \<in> fmdom' (ad_log db)" by (simp add: log_is_def)
  then obtain lrow where "fmlookup (ad_log db) 0 = Some lrow" by (auto simp: fmlookup_dom'_iff)
  moreover from this log have "lr_event lrow = 137" by (auto simp: log_is_def)
  ultimately show ?thesis using committed_events_proved [OF reach, of 0 lrow] reach by auto
qed

theorem seal_covers_ledger_witness:
  "\<exists>db p db'. anchored length_crypto sample_key db \<and> seal_epoch (cy_hash length_crypto) db = Inr (Published p, db') \<and>
     (\<exists>x. prove_event (cy_hash length_crypto) db' 137 = Some (Inr x))"
proof -
  obtain db1 db p where d: "anchored length_crypto sample_key db1" "seal_epoch (cy_hash length_crypto) db1 = Inr (Published p, db)"
    "one_event (ad_ledger db1)" by (rule sample_sealed) blast
  have "137 \<in> fmdom' (tb_events (ad_ledger db1))" using d(3) by (auto simp: one_event_def fmdom'_fmupd)
  with seal_covers_ledger [OF d(1)] d(2) have
    "137 \<in> {e. \<exists>s x. prove_event (cy_hash length_crypto) db e = Some (Inr x) \<and> proved_by (cy_hash length_crypto) db e s x}" by simp
  with d show ?thesis by blast
qed

theorem published_roots_final_witness:
  "\<exists>db db'. anchored length_crypto sample_key db \<and> anchor_step length_crypto sample_key db db' \<and>
     map_option lr_event (fmlookup (ad_log db) 0) \<in> {None, map_option lr_event (fmlookup (ad_log db') 0)}"
proof -
  obtain db1 db where d: "anchored length_crypto sample_key db1" "anchor_step length_crypto sample_key db1 db" by (rule sample_sealed) blast
  with published_roots_final [OF d(1), of db 0] show ?thesis by blast
qed

theorem settled_anchors_final_witness:
  "\<exists>db root a evidence. anchored length_crypto sample_key db \<and> anchor_for db root = Inr (Some a) \<and>
     load_proof (cy_hash length_crypto) db (an_ots_blob_hash a) = Inr evidence"
proof -
  obtain db root a where d: "anchored length_crypto sample_key db" "anchor_for db root = Inr (Some a)" by (rule sample_stamped)
  from settled_anchors_final [OF d(1) _ d(2), of db] d show ?thesis by auto
qed

end
