(* ===== verification/Spec2Isabelle.thy ===== *)
theory Spec2Isabelle
  imports Canon Signed_Events Ledger_Properties Projection_Properties Store_Samples
    Merkle_Consistency Limiter Response_Cache Filter_Samples Legacy_Samples Anchor_Samples
begin

text \<open>
  A verification development for clockchain, an append-only ledger of signed events about subjects,
  edges between subjects and media attestations, and the reads that are folded from it. All paths
  are below \<^verbatim>\<open>src/crates/\<close>.

  \<^bold>\<open>The program.\<close> A writer signs an \<^emph>\<open>envelope\<close> (\<^verbatim>\<open>cc-core/src/v1.rs\<close>): a payload, its parents and the
  grant under which it is written. A node keeps the envelopes it admits in a \<^emph>\<open>store\<close>
  (\<^verbatim>\<open>cc-ledger/src/v1.rs\<close>, tables of \<^verbatim>\<open>v1.sql\<close>) and derives everything else from them: the status of each
  candidate (\<open>classify\<close>), the authority of keys (\<^verbatim>\<open>v1/authority.rs\<close>), revisions and frontiers of subjects
  (\<^verbatim>\<open>v1/projection.rs\<close>), edges, media and the support graph (\<^verbatim>\<open>v1/edges.rs\<close>). A \<^emph>\<open>snapshot\<close> (\<^verbatim>\<open>v1/rule.rs\<close>)
  is such a projection together with the rule identity (\<^verbatim>\<open>cc-filter/src/v1.rs\<close>,
  \<^verbatim>\<open>cc-core/src/v1/rule.rs\<close>) and the hash that commits to it; it answers entity reads and support
  verdicts, is cached (\<^verbatim>\<open>v1/serving.rs\<close>), exported and restored. A node signs receipts and seals
  (\<^verbatim>\<open>cc-core/src/v1/receipt.rs\<close>, \<^verbatim>\<open>v1/seal.rs\<close>). The anchor keeps a Merkle log of the v0 ledger's events
  (\<^verbatim>\<open>cc-anchor/src/merkle.rs\<close>, \<^verbatim>\<open>store.rs\<close>), publishes its roots and has them timestamped (\<^verbatim>\<open>ots.rs\<close>);
  the gateway meters clients and caches answers (\<^verbatim>\<open>cc-gateway/src/limit.rs\<close>, \<^verbatim>\<open>cache.rs\<close>).

  \<^bold>\<open>Theories.\<close>
  \<^item> \<^verbatim>\<open>Prelude\<close>, \<^verbatim>\<open>Bytes\<close>, \<^verbatim>\<open>Control\<close>: results, ordered maps, big-endian bytes and UTF-8, loops in the option
    monad with their invariant rules.
  \<^item> \<^verbatim>\<open>Tick\<close> (\<^verbatim>\<open>cc-core/src/lib.rs\<close>): 256-bit coordinates, their canonical bytes and existence windows.
    Byte order is numeric order; bytes and whole ticks read back. \<^verbatim>\<open>Canon\<close>: the canonical form of v0 events,
    which reads back and identifies exactly the identifying fields.
  \<^item> \<^verbatim>\<open>Codec\<close>, \<^verbatim>\<open>Wire\<close>, \<^verbatim>\<open>Payload\<close>, \<^verbatim>\<open>Envelope\<close>, \<^verbatim>\<open>Signed_Events\<close> (\<^verbatim>\<open>cc-core/src/v1.rs\<close>): one encoder and one
    decoder per \<open>Wire\<close> implementation. The locale \<open>wire\<close> states that a decoder accepts exactly what the
    encoder writes; it is interpreted for every type, and gives that \<open>Signed::decode\<close> accepts exactly the
    canonical signed envelopes.
  \<^item> \<^verbatim>\<open>Receipts\<close>, \<^verbatim>\<open>Messages\<close>: receipts and seals. The locales \<open>signed_message\<close> and \<open>message_pair\<close> carry the
    argument that no byte string is two kinds of message.
  \<^item> \<^verbatim>\<open>Causality\<close>, \<^verbatim>\<open>Authority\<close>, \<^verbatim>\<open>Lineage\<close>, \<^verbatim>\<open>Revocation\<close>, \<^verbatim>\<open>Effects\<close>, \<^verbatim>\<open>Extension\<close> (\<^verbatim>\<open>v1/authority.rs\<close>): the causal
    cone, grants and their lineages, revocations by depth, the effect on every event. The effective
    revocations are the fixed point of the shallower-signer-first rule.
  \<^item> \<^verbatim>\<open>Admission\<close>, \<^verbatim>\<open>Revisions\<close>, \<^verbatim>\<open>Evaluation\<close>, \<^verbatim>\<open>Classification\<close> (\<^verbatim>\<open>cc-ledger/src/v1.rs\<close>) and \<^verbatim>\<open>Edges\<close>,
    \<^verbatim>\<open>Edge_Admission\<close> (\<^verbatim>\<open>v1/edges.rs\<close>): the checks of one event and the two scheduling loops. \<^verbatim>\<open>Ledger\<close>,
    \<^verbatim>\<open>Valid_Events\<close>, \<^verbatim>\<open>Ledger_Properties\<close>: the loops end without a panic, accept exactly the admissible
    events, and a valid event is authorized, in scope, pinned and causally closed.
  \<^item> \<^verbatim>\<open>Projection\<close>, \<^verbatim>\<open>Support\<close>, \<^verbatim>\<open>Search\<close>, \<^verbatim>\<open>Frontiers\<close>, \<^verbatim>\<open>Edge_Readings\<close>, \<^verbatim>\<open>Trust\<close>, \<^verbatim>\<open>Projection_Properties\<close>:
    the readings of subjects, edges and media, the support graph and its breadth-first query, which
    finds a shortest path exactly when one exists within the hop bound.
  \<^item> \<^verbatim>\<open>Rule_Identity\<close>, \<^verbatim>\<open>Snapshot\<close>, \<^verbatim>\<open>As_Of\<close>, \<^verbatim>\<open>Snapshot_Properties\<close>: identities, commitments and reads at a
    point of asserted time. A commitment binds everything a snapshot shows; \<open>as_of\<close> hides and never
    rewrites; support only grows with it.
  \<^item> \<^verbatim>\<open>Store\<close>, \<^verbatim>\<open>Store_Invariant\<close>, \<^verbatim>\<open>Store_Cache\<close>, \<^verbatim>\<open>Store_Properties\<close>, \<^verbatim>\<open>Store_Transfer\<close>, \<^verbatim>\<open>Store_Samples\<close>: the
    store as a record of tables, every operation a function on it, and \<open>store_step\<close>, the relation of one
    call of this or of another handle on the same database. No row is lost or changed, an admission
    answers what the fold says, the cached read is the uncached one, a bound rule stays bound, an export
    restores, and a restore that the database interrupts is completed by restoring again.
  \<^item> \<^verbatim>\<open>Merkle\<close>, \<^verbatim>\<open>Merkle_Levels\<close>, \<^verbatim>\<open>Merkle_Proofs\<close>, \<^verbatim>\<open>Merkle_Consistency\<close>: the tree, its nodes by level, and the
    two kinds of proof, complete, and sound where hashing does not collide.
  \<^item> \<^verbatim>\<open>Limiter\<close>, \<^verbatim>\<open>Response_Cache\<close>: the rate and table bounds of the limiter; the byte bound and the digest
    coherence of the cache.
  \<^item> \<^verbatim>\<open>Filter_View\<close>, \<^verbatim>\<open>Reach\<close>, \<^verbatim>\<open>Corpus\<close>, \<^verbatim>\<open>Feasibility\<close> (\<^verbatim>\<open>cc-filter/src\<close>): the view a filter reads the corpus
    through, the bounded reachability, the in-memory corpus of records and the filter. In
    \<^verbatim>\<open>Reach_Properties\<close> the locale \<open>co_graph\<close> states what the search relies on from a view; it is interpreted on
    the snapshot corpus in \<^verbatim>\<open>Corpus_Properties\<close>. The search finds the least shortest walk; a corpus is a function
    of the set of its records, and \<^verbatim>\<open>Corpus_Digest\<close> shows that its digest names it; \<^verbatim>\<open>Feasibility_Properties\<close>
    shows that the short-circuiting evaluation and the audit agree, what the three verdicts mean, and that a
    verdict is pinned to its coordinate. \<^verbatim>\<open>Filter_Samples\<close> applies the properties.
  \<^item> \<^verbatim>\<open>Legacy_Ledger\<close> (\<^verbatim>\<open>cc-ledger/src/lib.rs\<close>): the v0 ledger, its gate, the projection of every kind of event with
    its counters, the supersession fold, the rebuild and the digest of the view. \<^verbatim>\<open>Legacy_View\<close> and
    \<^verbatim>\<open>Legacy_Chain\<close> hold what one row and one arrival change; in \<^verbatim>\<open>Legacy_Fold\<close> the locale \<open>first_claim\<close>
    states what a table of earliest claims relies on, interpreted on entities and vocabulary; \<^verbatim>\<open>Legacy_Apply\<close> and
    \<^verbatim>\<open>Legacy_Rebuild\<close> show that the view of every ledger projects the stored events. \<^verbatim>\<open>Legacy_Properties\<close> and
    \<^verbatim>\<open>Legacy_Results\<close>: where no moment supersedes an event of another kind, equal event sets give equal views,
    re-applying changes nothing and a rebuild reproduces the view; and the order of arrival that breaks
    this when one does. \<^verbatim>\<open>Legacy_Samples\<close> applies the properties.
  \<^item> \<^verbatim>\<open>Ots\<close> (\<^verbatim>\<open>cc-anchor/src/ots.rs\<close>): OpenTimestamps files and the walk over their operations. \<^verbatim>\<open>Ots_Properties\<close>: a
    calendar's reply is read exactly; what a walk accepts is a timestamp in the grammar \<open>stamp_as\<close>, and it
    reports the messages that the operations of that timestamp make of the digest; an integer of ten bytes
    can lose high bits without an error.
  \<^item> \<^verbatim>\<open>Anchor\<close> (\<^verbatim>\<open>cc-anchor/src/store.rs\<close>): sealing, publishing and recording a root over the tables of the v0 ledger,
    proofs about events, the audit, stamps and confirmations. \<^verbatim>\<open>Anchor_Stream\<close> has the log and the roots as
    sequences and shows what sealing does to them; \<^verbatim>\<open>Anchor_Steps\<close> has \<open>anchor_step\<close>, the relation of one call,
    and shows that each call is a sequence of single writes; \<^verbatim>\<open>Anchor_Results\<close> proves the invariant of the single
    writes, among them the rebuild of the v0 ledger; \<^verbatim>\<open>Anchor_Properties\<close>: the audit passes, sealing
    covers the ledger, published roots and settled anchors are final. \<^verbatim>\<open>Anchor_Samples\<close> applies them.
  \<^item> \<^verbatim>\<open>Run\<close> and the sample sections hold small corpora, stores and logs at which the properties are
    applied.

  \<^bold>\<open>Conventions.\<close> A panic and a loop that does not end are \<^term>\<open>None\<close>, so that a theorem that a function
  returns is a theorem that it terminates without a panic; no fuel is used but the
  bound \<open>MAX_CHAIN\<close> that the code itself gives its two walks. Loops over a condition
  are the partial function \<open>while_loop\<close> of \<^verbatim>\<open>Control\<close>. Errors are values of a sum. SHA-256, Ed25519, the
  JSON serialization of the projection rows and the text of the database schema are parameters. What
  is assumed of hashing is never global injectivity, which no hash function has, but that the function
  does not collide on the byte strings that are hashed (\<open>distinct_ids\<close> for the ids derived from event
  ids, explicit sets elsewhere); what is assumed of signatures is \<open>crypto_laws\<close>. Counts that the code
  holds in machine words are natural numbers where it only compares and halves them, and words where
  they are encoded or can wrap.

  \<^bold>\<open>Limits of the machine.\<close> Memory and stack are unbounded in the model. Where the program itself sets a bound
  (envelopes, requests, chains) the bound is modelled; where it sets none, as for the message and the nested
  forks of an OpenTimestamps walk, a file that exhausts memory or stack aborts the program and not the model. Failures
  of the database are not modelled, but for the errors of the constraints and for \<open>restore_until\<close>, a restore
  whose transactions fail from some envelope on; nor is the size limit of the index rows over the text columns of
  the v0 tables.

  \<^bold>\<open>Not modelled.\<close> The connection pool and the float ratio of the v0 ledger (\<^verbatim>\<open>cc-ledger/src/lib.rs\<close>);
  the floating point magnitude of a support, which no decision consumes; the two requests to
  a calendar (\<^verbatim>\<open>cc-anchor/src/ots.rs\<close>), whose answers are arguments, and the age of an anchor; the HTTP services of node and gateway, the authoring, publishing
  and migration commands, the WebAssembly bindings and the test kit, which are input and output
  around the parts above. Concurrent access is modelled by the atomicity that transactions and locks
  give it: an interleaving of whole operations.
\<close>

end
